(* ===== verification/CProxy_Prelude.thy ===== *)
theory CProxy_Prelude
  imports Main "HOL-Library.Word"
begin

text \<open>
  Shared vocabulary of the CProxy development: the C scalar types as words, raw memory as
  byte lists with stores and loads at an offset (C structs are modelled as the bytes they
  occupy), the little-endian layout of \<^verbatim>\<open>u_int32_t\<close> on the platforms the epoll code targets,
  \<^verbatim>\<open>htonl\<close>/\<^verbatim>\<open>ntohl\<close>, C strings inside memory, and the outcome type that separates a normal
  return from the ways the C++ code can leave its defined behaviour.
\<close>

unbundle bit_operations_syntax

section \<open>Scalar types\<close>

type_synonym byte = "8 word"
type_synonym u32 = "32 word"
type_synonym size_t = "64 word"
type_synonym cstring = "byte list"

text \<open>Contents of memory nobody has written yet (\<^verbatim>\<open>malloc\<close>, automatic variables).\<close>
type_synonym junk = "nat \<Rightarrow> byte"

text \<open>Identity of an object on the heap, the target of a \<^verbatim>\<open>shared_ptr\<close> or of a raw pointer.\<close>
type_synonym oid = nat

named_theorems mem_simps \<open>loads from and stores to raw memory\<close>
named_theorems conn_defs \<open>definitions of connection operations\<close>

section \<open>Outcomes\<close>

text \<open>
  \<open>Throw\<close> is a \<^verbatim>\<open>std::exception\<close> leaving the function; \<open>Ub\<close> marks a point where the C++ standard leaves the behaviour undefined (an access outside
  an object, \<^verbatim>\<open>back()\<close> of an empty vector, a null dereference); \<open>Abort\<close> is a call of
  \<^verbatim>\<open>abort\<close> or a failed \<^verbatim>\<open>assert\<close>; \<open>Spin\<close> is a loop still waiting when the inputs offered
  by the environment are used up.
\<close>

datatype ub =
    StackOverflow    \<comment> \<open>a copy larger than its destination object\<close>
  | Overread         \<comment> \<open>a read past the end of an object\<close>
  | EmptyBack        \<comment> \<open>\<^verbatim>\<open>back()\<close> / \<^verbatim>\<open>pop_back()\<close> of an empty vector\<close>
  | NullDeref        \<comment> \<open>dereference of an empty \<^verbatim>\<open>shared_ptr\<close>\<close>
  | IndexOut         \<comment> \<open>array subscript out of range\<close>
  | DivZero          \<comment> \<open>division by zero\<close>
  | BadFree          \<comment> \<open>a block released that is not allocated with that size\<close>
  | InactiveMember   \<comment> \<open>a read of a union member other than the one stored\<close>
  | Uninit           \<comment> \<open>use of an uninitialised pointer\<close>

datatype 'a outcome = Ok 'a | Throw | Ub ub | Abort | Spin

primrec bind_outcome :: "'a outcome \<Rightarrow> ('a \<Rightarrow> 'b outcome) \<Rightarrow> 'b outcome" where
  "bind_outcome (Ok x) f = f x"
| "bind_outcome Throw f = Throw"
| "bind_outcome (Ub u) f = Ub u"
| "bind_outcome Abort f = Abort"
| "bind_outcome Spin f = Spin"

lemma bind_outcome_Ok_iff:
  "bind_outcome m f = Ok y \<longleftrightarrow> (\<exists>x. m = Ok x \<and> f x = Ok y)"
  by (cases m) auto

lemma bind_outcome_cong:
  "(\<And>x. m = Ok x \<Longrightarrow> f x = g x) \<Longrightarrow> bind_outcome m f = bind_outcome m g"
  by (cases m) auto

lemma bind_outcome_assoc:
  "bind_outcome (bind_outcome m f) g = bind_outcome m (\<lambda>x. bind_outcome (f x) g)"
  by (cases m) auto

text \<open>
  \<open>safe P m\<close>: the computation does not dereference a null pointer, and if it returns, its result
  satisfies \<open>P\<close>.
\<close>

definition safe :: "('a \<Rightarrow> bool) \<Rightarrow> 'a outcome \<Rightarrow> bool" where
  "safe P m = (case m of Ok x \<Rightarrow> P x | Ub u \<Rightarrow> u \<noteq> NullDeref | _ \<Rightarrow> True)"

lemma safe_Ok [simp]: "safe P (Ok x) = P x"
  and safe_Throw [simp]: "safe P Throw"
  and safe_Abort [simp]: "safe P Abort"
  and safe_Spin [simp]: "safe P Spin"
  and safe_Ub [simp]: "safe P (Ub u) = (u \<noteq> NullDeref)"
  by (simp_all add: safe_def)

lemma safe_bind: "safe Q m \<Longrightarrow> (\<And>x. m = Ok x \<Longrightarrow> Q x \<Longrightarrow> safe P (f x)) \<Longrightarrow> safe P (bind_outcome m f)"
  by (cases m) auto

lemma safe_mono: "safe Q m \<Longrightarrow> (\<And>x. Q x \<Longrightarrow> P x) \<Longrightarrow> safe P m"
  by (cases m) auto

lemma safe_OkD: "safe P m \<Longrightarrow> m = Ok x \<Longrightarrow> P x"
  by simp

text \<open>
  Handlers of a program with a heap keep an invariant and only extend the heap (a preorder \<open>le\<close>).
  The rules compose such steps.
\<close>

definition keeps :: "('s \<Rightarrow> bool) \<Rightarrow> ('s \<Rightarrow> 's \<Rightarrow> bool) \<Rightarrow> 's \<Rightarrow> 's outcome \<Rightarrow> bool" where
  "keeps invar le s m = safe (\<lambda>s'. invar s' \<and> le s s') m"

locale object_graph =
  fixes invar :: "'s \<Rightarrow> bool" and le :: "'s \<Rightarrow> 's \<Rightarrow> bool"
  assumes le_refl: "le s s"
    and le_trans: "le s1 s2 \<Longrightarrow> le s2 s3 \<Longrightarrow> le s1 s3"
begin

lemma keeps_same: "invar s \<Longrightarrow> keeps invar le s (Ok s)"
  by (simp add: keeps_def le_refl)

lemma keeps_bind:
  assumes "keeps invar le s m" "\<And>s1. invar s1 \<Longrightarrow> le s s1 \<Longrightarrow> keeps invar le s1 (f s1)"
  shows "keeps invar le s (bind_outcome m f)"
  unfolding keeps_def
proof (rule safe_bind [OF assms(1) [unfolded keeps_def]])
  fix x
  assume x: "invar x \<and> le s x"
  with assms(2) [of x] have "safe (\<lambda>s'. invar s' \<and> le x s') (f x)" by (simp add: keeps_def)
  then show "safe (\<lambda>s'. invar s' \<and> le s s') (f x)"
    by (rule safe_mono) (use x le_trans in blast)
qed

lemma keeps_after:
  assumes "invar s1" "le s s1" "keeps invar le s1 m"
  shows "keeps invar le s m"
  using assms(3) unfolding keeps_def by (rule safe_mono) (use assms(2) le_trans in blast)

lemma keeps_value: "safe Q m \<Longrightarrow> (\<And>x. m = Ok x \<Longrightarrow> Q x \<Longrightarrow> keeps invar le s (f x)) \<Longrightarrow> keeps invar le s (bind_outcome m f)"
  unfolding keeps_def by (rule safe_bind)

end

section \<open>Integer conversions\<close>

text \<open>Conversion to a 32-bit \<^verbatim>\<open>int\<close> (two's complement, as the compilers the project names do).\<close>

definition to_int32 :: "int \<Rightarrow> int" where
  "to_int32 x = (x + 2 ^ 31) mod 2 ^ 32 - 2 ^ 31"

lemma to_int32_id: "- (2 ^ 31) \<le> x \<Longrightarrow> x < 2 ^ 31 \<Longrightarrow> to_int32 x = x"
  by (simp add: to_int32_def)

lemma to_int32_range: "- (2 ^ 31) \<le> to_int32 x \<and> to_int32 x < 2 ^ 31"
  unfolding to_int32_def
  using pos_mod_bound [of "2 ^ 32" "x + 2 ^ 31"] pos_mod_sign [of "2 ^ 32" "x + 2 ^ 31"]
  by simp

lemma unat_size_t [simp]: "n < 2 ^ 64 \<Longrightarrow> unat (of_nat n :: size_t) = n"
  by (simp add: unsigned_of_nat take_bit_nat_eq_self)

lemma unat_u32 [simp]: "n < 2 ^ 32 \<Longrightarrow> unat (of_nat n :: u32) = n"
  by (simp add: unsigned_of_nat take_bit_nat_eq_self)

lemma of_nat_size_t_eq_iff:
  "m < 2 ^ 64 \<Longrightarrow> n < 2 ^ 64 \<Longrightarrow> (of_nat m :: size_t) = of_nat n \<longleftrightarrow> m = n"
  by (metis unat_size_t)

section \<open>System call results\<close>

text \<open>
  What the kernel answers is chosen by the environment. A \<^verbatim>\<open>write\<close> of \<open>len\<close> bytes is answered
  by \<open>Accept n\<close> (the socket takes \<open>min n len\<close> bytes, which is returned) or \<open>WFail e\<close> (\<open>-1\<close>,
  \<^verbatim>\<open>errno\<close> set to \<open>e\<close>). The input of a socket is the queue of what successive \<^verbatim>\<open>read\<close>s
  find: a chunk of bytes (a \<^verbatim>\<open>read\<close> takes at most what it asked for and leaves the rest), the end
  of the stream, or a failure.
\<close>

datatype errno = EINTR | EAGAIN | EOTHER nat

datatype wr_resp = Accept nat | WFail errno

datatype rx_event = Chunk "byte list" | Eof | RFail errno

section \<open>Raw memory\<close>

definition fresh :: "junk \<Rightarrow> nat \<Rightarrow> byte list" where
  "fresh j n = map j [0..<n]"

definition store :: "byte list \<Rightarrow> nat \<Rightarrow> byte list \<Rightarrow> byte list" where
  "store mem off bs = take off mem @ bs @ drop (off + length bs) mem"

definition load :: "byte list \<Rightarrow> nat \<Rightarrow> nat \<Rightarrow> byte list" where
  "load mem off n = take n (drop off mem)"

lemma length_fresh [simp]: "length (fresh j n) = n"
  by (simp add: fresh_def)

lemma length_store [simp]:
  "off + length bs \<le> length mem \<Longrightarrow> length (store mem off bs) = length mem"
  by (simp add: store_def)

lemma length_load [simp]:
  "off + n \<le> length mem \<Longrightarrow> length (load mem off n) = n"
  by (simp add: load_def)

lemma load_store_same [mem_simps]:
  "off \<le> length mem \<Longrightarrow> load (store mem off bs) off (length bs) = bs"
  by (simp add: load_def store_def)

lemma load_store_same_n [mem_simps]:
  "off \<le> length mem \<Longrightarrow> n = length bs \<Longrightarrow> load (store mem off bs) off n = bs"
  by (simp add: load_store_same)

lemma load_store_before [mem_simps]:
  "off + n \<le> off' \<Longrightarrow> off' \<le> length mem \<Longrightarrow> load (store mem off' bs) off n = load mem off n"
  by (auto simp: load_def store_def drop_take min_def)

lemma load_store_after [mem_simps]:
  "off' + length bs \<le> off \<Longrightarrow> off' + length bs \<le> length mem \<Longrightarrow>
   load (store mem off' bs) off n = load mem off n"
proof -
  assume a: "off' + length bs \<le> off" and b: "off' + length bs \<le> length mem"
  from a have "off - (off' + length bs) + (off' + length bs) = off" by simp
  with a b show ?thesis
    by (simp add: load_def store_def add.commute add.left_commute)
qed

lemma load_all: "length mem = n \<Longrightarrow> load mem 0 n = mem"
  by (simp add: load_def)

section \<open>32-bit integers in memory\<close>

definition le32 :: "u32 \<Rightarrow> byte list" where
  "le32 w = [ucast w, ucast (drop_bit 8 w), ucast (drop_bit 16 w), ucast (drop_bit 24 w)]"

fun le32_dec :: "byte list \<Rightarrow> u32" where
  "le32_dec [a, b, c, d] =
     ucast a OR push_bit 8 (ucast b) OR push_bit 16 (ucast c) OR push_bit 24 (ucast d)"
| "le32_dec _ = 0"

lemma length_le32 [simp]: "length (le32 w) = 4"
  by (simp add: le32_def)

lemma byte_bit_out: "8 \<le> n \<Longrightarrow> \<not> bit (b :: byte) n"
  using bit_imp_le_length [of b n] by auto

lemma le32_dec_le32 [simp]: "le32_dec (le32 w) = w"
proof (rule bit_word_eqI)
  fix n
  assume "n < LENGTH(32)"
  then consider "n < 8" | "8 \<le> n" "n < 16" | "16 \<le> n" "n < 24" | "24 \<le> n" "n < 32"
    by fastforce
  then show "bit (le32_dec (le32 w)) n = bit w n"
    by cases (auto simp: le32_def bit_simps)
qed

lemma le32_le32_dec:
  assumes "length bs = 4"
  shows "le32 (le32_dec bs) = bs"
proof -
  from assms obtain a b c d where "bs = [a, b, c, d]"
    by (auto simp: numeral_eq_Suc length_Suc_conv)
  then show ?thesis
    by (auto simp: le32_def intro!: bit_word_eqI simp: bit_simps byte_bit_out)
qed

text \<open>\<^verbatim>\<open>htonl\<close> and \<^verbatim>\<open>ntohl\<close> on a little-endian machine reverse the four bytes.\<close>

definition htonl :: "u32 \<Rightarrow> u32" where
  "htonl w = le32_dec (rev (le32 w))"

definition ntohl :: "u32 \<Rightarrow> u32" where
  "ntohl w = le32_dec (rev (le32 w))"

lemma ntohl_htonl [simp]: "ntohl (htonl w) = w"
  by (simp add: ntohl_def htonl_def le32_le32_dec)

lemma htonl_ntohl [simp]: "htonl (ntohl w) = w"
  by (simp add: ntohl_def htonl_def le32_le32_dec)

section \<open>C strings in memory\<close>

text \<open>
  \<^verbatim>\<open>std::string(p)\<close> for a \<^verbatim>\<open>char*\<close> into an object reads up to the first NUL; with no NUL up to
  the end of the object it reads past it.
\<close>

definition cstr_at :: "byte list \<Rightarrow> nat \<Rightarrow> cstring outcome" where
  "cstr_at mem off =
     (if 0 \<in> set (drop off mem) then Ok (takeWhile (\<lambda>b. b \<noteq> 0) (drop off mem)) else Ub Overread)"

text \<open>
  \<^verbatim>\<open>strcpy(dst, s)\<close> into a \<^verbatim>\<open>char\<close> array of \<open>cap\<close> bytes at offset \<open>off\<close> of a struct writes the
  characters and the terminating NUL, whatever the size of the array.
\<close>

definition strcpy_at :: "byte list \<Rightarrow> nat \<Rightarrow> nat \<Rightarrow> cstring \<Rightarrow> byte list outcome" where
  "strcpy_at mem off cap s =
     (if length s < cap then Ok (store mem off (s @ [0])) else Ub StackOverflow)"

definition is_cstr :: "cstring \<Rightarrow> bool" where
  "is_cstr s \<longleftrightarrow> 0 \<notin> set s"

lemma takeWhile_cstr: "is_cstr s \<Longrightarrow> takeWhile (\<lambda>b. b \<noteq> 0) (s @ 0 # rest) = s"
  by (auto simp: is_cstr_def takeWhile_append)

lemma cstr_at_prefix:
  assumes "is_cstr s" "off \<le> length mem" "load mem off (Suc (length s)) = s @ [0]"
  shows "cstr_at mem off = Ok s"
proof -
  from assms(3) have "take (Suc (length s)) (drop off mem) = s @ [0]"
    by (simp add: load_def)
  then obtain rest where "drop off mem = (s @ [0]) @ rest"
    by (metis append_take_drop_id)
  with assms(1) show ?thesis
    by (simp add: cstr_at_def takeWhile_cstr)
qed

end
