(* ===== verification/CProxy_Map.thy ===== *)
theory CProxy_Map
  imports CProxy_Prelude "HOL-Library.AList"
begin

text \<open>
  The template \<^verbatim>\<open>safe_unordered_map\<close> of \<^verbatim>\<open>lib/Util.h\<close>: a mutex around a
  \<^verbatim>\<open>std::unordered_map\<close>. Every method holds the mutex for its whole body, so each is one
  atomic step on the map. The map is an association list; \<open>map_of\<close> is its abstraction.
  The contract the rest of the program relies on is the locale \<open>safe_map\<close>, interpreted at the
  end of the theory on the definitions.
\<close>

type_synonym ('k, 'v) safe_unordered_map = "('k \<times> 'v) list"

definition isExist :: "('k, 'v) safe_unordered_map \<Rightarrow> 'k \<Rightarrow> bool" where
  "isExist m k = (case map_of m k of None \<Rightarrow> False | Some _ \<Rightarrow> True)"

definition erase :: "('k, 'v) safe_unordered_map \<Rightarrow> 'k \<Rightarrow> ('k, 'v) safe_unordered_map" where
  "erase m k = AList.delete k m"

text \<open>\<^verbatim>\<open>get(key, isExist)\<close>: a value-initialised result and \<open>False\<close> when the key is absent.\<close>
definition get_flag :: "'v \<Rightarrow> ('k, 'v) safe_unordered_map \<Rightarrow> 'k \<Rightarrow> 'v \<times> bool" where
  "get_flag dflt m k = (case map_of m k of None \<Rightarrow> (dflt, False) | Some v \<Rightarrow> (v, True))"

text \<open>\<^verbatim>\<open>get(key)\<close> goes through \<^verbatim>\<open>operator[]\<close>, which inserts a default value for a missing key.\<close>
definition get_index ::
    "'v \<Rightarrow> ('k, 'v) safe_unordered_map \<Rightarrow> 'k \<Rightarrow> 'v \<times> ('k, 'v) safe_unordered_map" where
  "get_index dflt m k =
     (case map_of m k of None \<Rightarrow> (dflt, (k, dflt) # m) | Some v \<Rightarrow> (v, m))"

text \<open>\<^verbatim>\<open>add\<close> is \<^verbatim>\<open>emplace\<close>: a key that is already present keeps its old value.\<close>
definition add :: "('k, 'v) safe_unordered_map \<Rightarrow> 'k \<Rightarrow> 'v \<Rightarrow> ('k, 'v) safe_unordered_map" where
  "add m k v = (case map_of m k of None \<Rightarrow> (k, v) # m | Some _ \<Rightarrow> m)"

definition empty_map :: "('k, 'v) safe_unordered_map \<Rightarrow> bool" where
  "empty_map m = (case m of [] \<Rightarrow> True | _ # _ \<Rightarrow> False)"

text \<open>\<^verbatim>\<open>std::unordered_map\<close> holds each key once.\<close>
definition map_wf :: "('k, 'v) safe_unordered_map \<Rightarrow> bool" where
  "map_wf m = distinct (map fst m)"

named_theorems map_lookup \<open>lookups after the map operations\<close>

lemma map_of_add [map_lookup]:
  "map_of (add m k v) k' = (if k' = k \<and> map_of m k = None then Some v else map_of m k')"
  by (auto simp: add_def split: option.splits)

lemma map_of_erase [map_lookup]: "map_of (erase m k) k' = (if k' = k then None else map_of m k')"
  by (simp add: erase_def delete_conv)

lemma map_of_get_index [map_lookup]:
  "map_of (snd (get_index d m k)) k' =
     (if k' = k \<and> map_of m k = None then Some d else map_of m k')"
  by (auto simp: get_index_def split: option.splits)

lemma isExist_iff [map_lookup]: "isExist m k \<longleftrightarrow> map_of m k \<noteq> None"
  by (simp add: isExist_def split: option.splits)

lemma map_wf_add: "map_wf m \<Longrightarrow> map_wf (add m k v)"
  by (auto simp: map_wf_def add_def map_of_eq_None_iff split: option.splits)

lemma map_wf_erase: "map_wf m \<Longrightarrow> map_wf (erase m k)"
  by (simp add: map_wf_def erase_def distinct_delete)

lemma map_wf_get_index: "map_wf m \<Longrightarrow> map_wf (snd (get_index d m k))"
  by (auto simp: map_wf_def get_index_def map_of_eq_None_iff split: option.splits)

section \<open>The contract of the map\<close>

locale safe_map =
  fixes lookup :: "'m \<Rightarrow> 'k \<Rightarrow> 'v option"
    and insert_new :: "'m \<Rightarrow> 'k \<Rightarrow> 'v \<Rightarrow> 'm"
    and remove_key :: "'m \<Rightarrow> 'k \<Rightarrow> 'm"
    and invar :: "'m \<Rightarrow> bool"
  assumes lookup_insert_new:
      "lookup (insert_new m k v) k' =
         (if k' = k \<and> lookup m k = None then Some v else lookup m k')"
    and lookup_remove_key: "lookup (remove_key m k) k' = (if k' = k then None else lookup m k')"
    and invar_insert_new: "invar m \<Longrightarrow> invar (insert_new m k v)"
    and invar_remove_key: "invar m \<Longrightarrow> invar (remove_key m k)"
begin

text \<open>The first value stored under a key stays until the key is removed.\<close>

lemma first_insert_wins:
  "lookup m k = Some v \<Longrightarrow> lookup (insert_new m k w) k = Some v"
  by (simp add: lookup_insert_new)

lemma insert_after_remove: "lookup (insert_new (remove_key m k) k v) k = Some v"
  by (simp add: lookup_insert_new lookup_remove_key)

lemma insert_then_remove:
  "lookup m k = None \<Longrightarrow> lookup (remove_key (insert_new m k v) k) = lookup m"
  by (auto simp: fun_eq_iff lookup_insert_new lookup_remove_key)

lemma insert_frame: "k' \<noteq> k \<Longrightarrow> lookup (insert_new m k v) k' = lookup m k'"
  by (simp add: lookup_insert_new)

lemma remove_frame: "k' \<noteq> k \<Longrightarrow> lookup (remove_key m k) k' = lookup m k'"
  by (simp add: lookup_remove_key)

text \<open>
  A fold of insertions is first-come first-served: the value under a key is the one the map had
  or else the first one inserted for it.
\<close>

lemma lookup_fold_insert:
  "lookup (fold (\<lambda>(k, v) m. insert_new m k v) kvs m) k =
     (case lookup m k of None \<Rightarrow> map_of kvs k | Some v \<Rightarrow> Some v)"
proof (induction kvs arbitrary: m)
  case Nil
  then show ?case by (simp split: option.split)
next
  case (Cons kv kvs)
  then show ?case
    by (cases kv) (auto simp: lookup_insert_new split: option.splits)
qed

lemma invar_fold_insert: "invar m \<Longrightarrow> invar (fold (\<lambda>(k, v) m. insert_new m k v) kvs m)"
  by (induction kvs arbitrary: m) (auto simp: invar_insert_new)

end

interpretation sum: safe_map map_of add erase map_wf
  by unfold_locales (simp_all add: map_lookup map_wf_add map_wf_erase)

end
