(* ===== verification/CProxy_Channel.thy ===== *)
theory CProxy_Channel
  imports CProxy_Prelude
begin

text \<open>
  \<^verbatim>\<open>lib/Channel.h\<close> and \<^verbatim>\<open>lib/Channel.cpp\<close>: a descriptor, the epoll events it waits for, the events
  that arrived, and four handlers. The handlers are bound to the object that owns the channel and
  change it, so \<^verbatim>\<open>HandleEvents\<close> runs on the owner's state with access functions for the channel
  inside it. The locale \<open>channel_owner\<close> states what an owner provides; the connection classes
  interpret it.
\<close>

section \<open>Epoll event bits\<close>

definition EPOLLIN :: u32 where "EPOLLIN = 0x001"
definition EPOLLPRI :: u32 where "EPOLLPRI = 0x002"
definition EPOLLOUT :: u32 where "EPOLLOUT = 0x004"
definition EPOLLERR :: u32 where "EPOLLERR = 0x008"
definition EPOLLHUP :: u32 where "EPOLLHUP = 0x010"
definition EPOLLRDHUP :: u32 where "EPOLLRDHUP = 0x2000"
definition EPOLLET :: u32 where "EPOLLET = 0x80000000"

lemmas epoll_bits = EPOLLIN_def EPOLLPRI_def EPOLLOUT_def EPOLLERR_def EPOLLHUP_def
  EPOLLRDHUP_def EPOLLET_def

definition has_event :: "u32 \<Rightarrow> u32 \<Rightarrow> bool" where
  "has_event w bits \<longleftrightarrow> w AND bits \<noteq> 0"

section \<open>The channel\<close>

record channel =
  ch_fd :: int
  need_close_when_delete :: bool
  events :: u32
  revents :: u32
  peer_closed :: bool

text \<open>The constructor leaves \<^verbatim>\<open>events_\<close>, \<^verbatim>\<open>revents_\<close> and \<^verbatim>\<open>peer_closed_\<close> uninitialised.\<close>

definition Channel_new :: "u32 \<Rightarrow> u32 \<Rightarrow> bool \<Rightarrow> int \<Rightarrow> channel" where
  "Channel_new ev0 rev0 pc0 fd =
     \<lparr>ch_fd = fd, need_close_when_delete = True, events = ev0, revents = rev0, peer_closed = pc0\<rparr>"

text \<open>The descriptor the destructor closes.\<close>
definition Channel_delete :: "channel \<Rightarrow> int option" where
  "Channel_delete c = (if need_close_when_delete c then Some (ch_fd c) else None)"

definition SetEvents :: "u32 \<Rightarrow> channel \<Rightarrow> channel" where
  "SetEvents ev c = c\<lparr>events := ev\<rparr>"

definition SetRevents :: "u32 \<Rightarrow> channel \<Rightarrow> channel" where
  "SetRevents ev c = c\<lparr>revents := ev\<rparr>"

definition AddEvents :: "u32 \<Rightarrow> channel \<Rightarrow> channel" where
  "AddEvents ev c = c\<lparr>events := events c OR ev\<rparr>"

definition SetNeedCloseWhenDelete :: "bool \<Rightarrow> channel \<Rightarrow> channel" where
  "SetNeedCloseWhenDelete v c = c\<lparr>need_close_when_delete := v\<rparr>"

definition IsPeerClosed :: "channel \<Rightarrow> bool" where
  "IsPeerClosed c = peer_closed c"

record 's handlers =
  read_handler :: "'s \<Rightarrow> 's outcome"
  write_handler :: "'s \<Rightarrow> 's outcome"
  error_handler :: "'s \<Rightarrow> 's outcome"
  post_handler :: "'s \<Rightarrow> 's outcome"

text \<open>The default handlers do nothing.\<close>
definition no_handlers :: "'s handlers" where
  "no_handlers = \<lparr>read_handler = Ok, write_handler = Ok, error_handler = Ok, post_handler = Ok\<rparr>"

text \<open>\<^verbatim>\<open>if (revents_ & bit) peer_closed_ = true;\<close>\<close>
definition mark_closed :: "('s \<Rightarrow> channel) \<Rightarrow> (channel \<Rightarrow> 's \<Rightarrow> 's) \<Rightarrow> u32 \<Rightarrow> 's \<Rightarrow> 's" where
  "mark_closed getc setc bits s =
     (if has_event (revents (getc s)) bits then setc ((getc s)\<lparr>peer_closed := True\<rparr>) s else s)"

text \<open>\<^verbatim>\<open>if (revents_ & bits) handler();\<close>\<close>
definition when_event :: "('s \<Rightarrow> channel) \<Rightarrow> u32 \<Rightarrow> ('s \<Rightarrow> 's outcome) \<Rightarrow> 's \<Rightarrow> 's outcome" where
  "when_event getc bits f s = (if has_event (revents (getc s)) bits then f s else Ok s)"

definition HandleEvents ::
    "('s \<Rightarrow> channel) \<Rightarrow> (channel \<Rightarrow> 's \<Rightarrow> 's) \<Rightarrow> 's handlers \<Rightarrow> 's \<Rightarrow> 's outcome" where
  "HandleEvents getc setc h s =
     (let s0 = setc ((getc s)\<lparr>events := 0\<rparr>) s
      in if revents (getc s0) = 0 then Ok s0
         else bind_outcome
           (when_event getc EPOLLERR (error_handler h) (mark_closed getc setc EPOLLHUP s0))
           (\<lambda>s2. bind_outcome
              (when_event getc (EPOLLIN OR EPOLLPRI) (read_handler h)
                 (mark_closed getc setc EPOLLRDHUP s2))
              (\<lambda>s4. bind_outcome
                 (if has_event (revents (getc s4)) EPOLLOUT \<and> \<not> peer_closed (getc s4)
                  then write_handler h s4 else Ok s4)
                 (post_handler h))))"

section \<open>Owners of a channel\<close>

locale channel_owner =
  fixes getc :: "'s \<Rightarrow> channel" and setc :: "channel \<Rightarrow> 's \<Rightarrow> 's"
  assumes getc_setc [simp]: "getc (setc c s) = c"
    and setc_getc [simp]: "setc (getc s) s = s"
    and setc_setc [simp]: "setc c (setc d s) = setc c s"
begin

text \<open>With no event pending only the interest mask is cleared and no handler runs.\<close>

lemma HandleEvents_idle:
  "revents (getc s) = 0 \<Longrightarrow> HandleEvents getc setc h s = Ok (setc ((getc s)\<lparr>events := 0\<rparr>) s)"
  by (simp add: HandleEvents_def Let_def)

text \<open>
  A hang-up disables writing: if the error and read handlers keep the two flag fields, the write
  handler does not matter.
\<close>

lemma HandleEvents_no_write_after_hangup:
  assumes "has_event (revents (getc s)) EPOLLHUP \<or> has_event (revents (getc s)) EPOLLRDHUP"
    and err: "\<And>s s'. error_handler h s = Ok s' \<Longrightarrow>
                revents (getc s') = revents (getc s) \<and> peer_closed (getc s') = peer_closed (getc s)"
    and rd: "\<And>s s'. read_handler h s = Ok s' \<Longrightarrow>
                revents (getc s') = revents (getc s) \<and> peer_closed (getc s') = peer_closed (getc s)"
  shows "HandleEvents getc setc h s = HandleEvents getc setc (h\<lparr>write_handler := w\<rparr>) s"
proof -
  let ?s0 = "setc ((getc s)\<lparr>events := 0\<rparr>) s"
  have rev: "revents (getc s) \<noteq> 0"
    using assms(1) by (auto simp: has_event_def)
  have s2: "revents (getc s2) = revents (getc s) \<and>
            (has_event (revents (getc s)) EPOLLHUP \<longrightarrow> peer_closed (getc s2))"
    if "when_event getc EPOLLERR (error_handler h) (mark_closed getc setc EPOLLHUP ?s0) = Ok s2" for s2
    using that by (auto simp: when_event_def mark_closed_def dest!: err split: if_splits)
  have s4: "peer_closed (getc s4)"
    if "revents (getc s2) = revents (getc s) \<and>
        (has_event (revents (getc s)) EPOLLHUP \<longrightarrow> peer_closed (getc s2))"
      "when_event getc (EPOLLIN OR EPOLLPRI) (read_handler h) (mark_closed getc setc EPOLLRDHUP s2) = Ok s4"
    for s2 s4
    using that assms(1) by (auto simp: when_event_def mark_closed_def dest!: rd split: if_splits)
  show ?thesis
    unfolding HandleEvents_def Let_def using rev
    by (auto intro!: bind_outcome_cong dest: s4 [OF s2])
qed

end

section \<open>Dispatch order\<close>

text \<open>
  An owner whose handlers record that they ran: the channel with a log. It makes the dispatch
  visible as data.
\<close>

datatype handler_call = ReadCall | WriteCall | ErrorCall | PostCall

type_synonym logging_owner = "channel \<times> handler_call list"

definition log_handlers :: "logging_owner handlers" where
  "log_handlers =
     \<lparr>read_handler = (\<lambda>(c, l). Ok (c, l @ [ReadCall])),
      write_handler = (\<lambda>(c, l). Ok (c, l @ [WriteCall])),
      error_handler = (\<lambda>(c, l). Ok (c, l @ [ErrorCall])),
      post_handler = (\<lambda>(c, l). Ok (c, l @ [PostCall]))\<rparr>"

definition set_logged :: "channel \<Rightarrow> logging_owner \<Rightarrow> logging_owner" where
  "set_logged c s = (c, snd s)"

interpretation logged: channel_owner fst set_logged
  by unfold_locales (auto simp: set_logged_def)

definition dispatch_plan :: "channel \<Rightarrow> handler_call list" where
  "dispatch_plan c =
     (let rev = revents c;
          closed' = (peer_closed c \<or> has_event rev EPOLLHUP \<or> has_event rev EPOLLRDHUP)
      in if rev = 0 then []
         else (if has_event rev EPOLLERR then [ErrorCall] else []) @
              (if has_event rev (EPOLLIN OR EPOLLPRI) then [ReadCall] else []) @
              (if has_event rev EPOLLOUT \<and> \<not> closed' then [WriteCall] else []) @ [PostCall])"

text \<open>\<^verbatim>\<open>HandleEvents\<close> runs exactly the handlers its event mask asks for, in the order error, read,
  write, post: nothing when no event is pending, no write once the peer has hung up, and the post
  handler last in every other case; it clears the interest mask and records a hang-up.\<close>
theorem HandleEvents_dispatch:
  "HandleEvents fst set_logged log_handlers (c, l) =
     Ok (c\<lparr>events := 0,
           peer_closed := (peer_closed c \<or> has_event (revents c) EPOLLHUP \<or> has_event (revents c) EPOLLRDHUP)\<rparr>,
         l @ dispatch_plan c)"
  by (cases c; cases "revents c = 0")
    (auto simp: HandleEvents_def dispatch_plan_def log_handlers_def mark_closed_def when_event_def
      set_logged_def Let_def has_event_def)

end
