(* ===== verification/CProxy_Epoll.thy ===== *)
theory CProxy_Epoll
  imports CProxy_Channel
begin

text \<open>
  The poller and the event loop: \<^verbatim>\<open>lib/Epoll.h\<close>, \<^verbatim>\<open>lib/Epoll.cpp\<close>, \<^verbatim>\<open>lib/event_dispatcher.h\<close> and
  \<^verbatim>\<open>lib/event_loop.cpp\<close>. The kernel side of an epoll instance is its interest list, a map from
  descriptors to event masks; \<^verbatim>\<open>epoll_ctl\<close> fails on a duplicate add and on a modification or
  removal of an absent descriptor, and may fail for other reasons (argument \<open>fail\<close>). Channels are
  shared objects: the table \<^verbatim>\<open>fd2chan_\<close> holds references into a store of channels.
\<close>

type_synonym chan_ref = nat

definition MAXFDS :: int where
  "MAXFDS = 100000"

record epoll =
  interest :: "int \<Rightarrow> u32 option"
  fd2chan :: "int \<Rightarrow> chan_ref option"
  chans :: "chan_ref \<Rightarrow> channel"

definition in_table :: "int \<Rightarrow> bool" where
  "in_table fd \<longleftrightarrow> 0 \<le> fd \<and> fd < MAXFDS"

section \<open>The kernel's interest list\<close>

datatype ctl_op = CTL_ADD | CTL_MOD | CTL_DEL

definition epoll_ctl :: "bool \<Rightarrow> ctl_op \<Rightarrow> int \<Rightarrow> u32 \<Rightarrow> (int \<Rightarrow> u32 option) \<Rightarrow> int \<times> (int \<Rightarrow> u32 option)" where
  "epoll_ctl fail op fd ev k =
     (if fail then (-1, k)
      else case op of
             CTL_ADD \<Rightarrow> if k fd \<noteq> None then (-1, k) else (0, k(fd := Some ev))
           | CTL_MOD \<Rightarrow> if k fd = None then (-1, k) else (0, k(fd := Some ev))
           | CTL_DEL \<Rightarrow> if k fd = None then (-1, k) else (0, k(fd := None)))"

section \<open>Registration\<close>

definition Epoll_new :: "(chan_ref \<Rightarrow> channel) \<Rightarrow> int \<Rightarrow> epoll outcome" where
  "Epoll_new cs epoll_fd =
     (if epoll_fd > 0 then Ok \<lparr>interest = (\<lambda>_. None), fd2chan = (\<lambda>_. None), chans = cs\<rparr> else Abort)"

text \<open>The table access is out of range for a descriptor beyond \<^verbatim>\<open>MAXFDS\<close>.\<close>

definition set_table :: "int \<Rightarrow> chan_ref option \<Rightarrow> epoll \<Rightarrow> epoll outcome" where
  "set_table fd r ep =
     (if in_table fd then Ok (ep\<lparr>fd2chan := (fd2chan ep)(fd := r)\<rparr>) else Ub IndexOut)"

definition PollAdd :: "bool \<Rightarrow> chan_ref \<Rightarrow> epoll \<Rightarrow> epoll outcome" where
  "PollAdd fail r ep =
     (let fd = ch_fd (chans ep r);
          (ret, k) = epoll_ctl fail CTL_ADD fd (events (chans ep r)) (interest ep)
      in if ret < 0 then Ok ep else set_table fd (Some r) (ep\<lparr>interest := k\<rparr>))"

definition PollMod :: "bool \<Rightarrow> chan_ref \<Rightarrow> epoll \<Rightarrow> epoll outcome" where
  "PollMod fail r ep =
     (let fd = ch_fd (chans ep r);
          (ret, k) = epoll_ctl fail CTL_MOD fd (events (chans ep r)) (interest ep)
      in if ret < 0 then set_table fd None ep else Ok (ep\<lparr>interest := k\<rparr>))"

definition PollDel :: "bool \<Rightarrow> chan_ref \<Rightarrow> epoll \<Rightarrow> epoll outcome" where
  "PollDel fail r ep =
     (let fd = ch_fd (chans ep r);
          (ret, k) = epoll_ctl fail CTL_DEL fd (events (chans ep r)) (interest ep)
      in set_table fd None (ep\<lparr>interest := k\<rparr>))"

definition AddToPoller :: "bool \<Rightarrow> chan_ref \<Rightarrow> epoll \<Rightarrow> epoll outcome" where
  "AddToPoller fail r ep = PollAdd fail r ep"

definition UpdateToPoller :: "bool \<Rightarrow> chan_ref \<Rightarrow> epoll \<Rightarrow> epoll outcome" where
  "UpdateToPoller fail r ep = PollMod fail r ep"

definition RemoveFromPoller :: "bool \<Rightarrow> chan_ref \<Rightarrow> epoll \<Rightarrow> epoll outcome" where
  "RemoveFromPoller fail r ep = PollDel fail r ep"

section \<open>Waiting\<close>

datatype wait_result = WaitError | WaitEvents "(int \<times> u32) list"

text \<open>An event for a descriptor without a channel is skipped (only printed).\<close>

fun getReadyChannels :: "(int \<times> u32) list \<Rightarrow> epoll \<Rightarrow> (chan_ref list \<times> epoll) outcome" where
  "getReadyChannels [] ep = Ok ([], ep)"
| "getReadyChannels ((fd, ev) # evs) ep =
     (if \<not> in_table fd then Ub IndexOut
      else case fd2chan ep fd of
             None \<Rightarrow> getReadyChannels evs ep
           | Some r \<Rightarrow>
               bind_outcome
                 (getReadyChannels evs (ep\<lparr>chans := (chans ep)(r := SetRevents ev (chans ep r))\<rparr>))
                 (\<lambda>(rs, ep'). Ok (r # rs, ep')))"

text \<open>The wait loop retries on an error and on a time-out or an all-stale batch.\<close>

fun WaitForReadyChannels ::
    "wait_result list \<Rightarrow> epoll \<Rightarrow> (chan_ref list \<times> wait_result list \<times> epoll) outcome" where
  "WaitForReadyChannels [] ep = Spin"
| "WaitForReadyChannels (WaitError # ws) ep = WaitForReadyChannels ws ep"
| "WaitForReadyChannels (WaitEvents evs # ws) ep =
     bind_outcome (getReadyChannels evs ep)
       (\<lambda>(rs, ep'). if rs \<noteq> [] then Ok (rs, ws, ep') else WaitForReadyChannels ws ep')"

text \<open>
  One turn of \<^verbatim>\<open>EventLoop::Loop\<close>: handle every ready channel in order. \<open>handle r\<close> stands for
  \<^verbatim>\<open>HandleEvents\<close> of the channel \<open>r\<close> on the state of the process.
\<close>

fun handle_all :: "(chan_ref \<Rightarrow> 's \<Rightarrow> 's outcome) \<Rightarrow> chan_ref list \<Rightarrow> 's \<Rightarrow> 's outcome" where
  "handle_all handle [] s = Ok s"
| "handle_all handle (r # rs) s = bind_outcome (handle r s) (handle_all handle rs)"

text \<open>The endless loop, as far as the offered wait results carry it.\<close>

function Loop ::
    "('s \<Rightarrow> epoll) \<Rightarrow> (epoll \<Rightarrow> 's \<Rightarrow> 's) \<Rightarrow> (chan_ref \<Rightarrow> 's \<Rightarrow> 's outcome) \<Rightarrow>
     wait_result list \<Rightarrow> 's \<Rightarrow> 's outcome" where
  "Loop getp setp handle ws s =
     (case WaitForReadyChannels ws (getp s) of
        Ok (rs, ws', ep') \<Rightarrow>
          (if length ws' < length ws
           then bind_outcome (handle_all handle rs (setp ep' s)) (Loop getp setp handle ws')
           else Spin)
      | Spin \<Rightarrow> Ok s
      | Throw \<Rightarrow> Throw
      | Abort \<Rightarrow> Abort
      | Ub u \<Rightarrow> Ub u)"
  by pat_completeness auto
termination
  by (relation "measure (\<lambda>(getp, setp, handle, ws, s). length ws)") auto

declare Loop.simps [simp del]

section \<open>Consistency of table and kernel\<close>

text \<open>Every channel in the table is registered under its descriptor, and its slot is in range.\<close>

definition poll_inv :: "epoll \<Rightarrow> bool" where
  "poll_inv ep \<longleftrightarrow>
     (\<forall>fd r. fd2chan ep fd = Some r \<longrightarrow>
        in_table fd \<and> interest ep fd \<noteq> None \<and> ch_fd (chans ep r) = fd)"

text \<open>Without spurious failures the two sides agree exactly.\<close>

definition poll_exact :: "epoll \<Rightarrow> bool" where
  "poll_exact ep \<longleftrightarrow> poll_inv ep \<and> (\<forall>fd. interest ep fd \<noteq> None \<longrightarrow> fd2chan ep fd \<noteq> None)"

lemmas poll_defs = PollAdd_def PollMod_def PollDel_def epoll_ctl_def set_table_def Let_def

lemma PollAdd_inv: "poll_inv ep \<Longrightarrow> PollAdd fail r ep = Ok ep' \<Longrightarrow> poll_inv ep'"
  by (auto simp: poll_inv_def poll_defs split: if_splits)

lemma PollMod_inv: "poll_inv ep \<Longrightarrow> PollMod fail r ep = Ok ep' \<Longrightarrow> poll_inv ep'"
  by (auto simp: poll_inv_def poll_defs split: if_splits)

lemma PollDel_inv: "poll_inv ep \<Longrightarrow> PollDel fail r ep = Ok ep' \<Longrightarrow> poll_inv ep'"
  by (auto simp: poll_inv_def poll_defs split: if_splits)

lemma getReadyChannels_spec:
  "getReadyChannels evs ep = Ok (rs, ep') \<Longrightarrow> poll_inv ep \<Longrightarrow>
   poll_inv ep' \<and> interest ep' = interest ep \<and> fd2chan ep' = fd2chan ep \<and>
   rs = map (\<lambda>(fd, ev). the (fd2chan ep fd)) (filter (\<lambda>(fd, ev). fd2chan ep fd \<noteq> None) evs) \<and>
   (\<forall>r. events (chans ep' r) = events (chans ep r) \<and> ch_fd (chans ep' r) = ch_fd (chans ep r))"
proof (induction evs arbitrary: ep rs)
  case Nil
  then show ?case by simp
next
  case (Cons e evs)
  obtain fd ev where e: "e = (fd, ev)" by (cases e)
  show ?case
  proof (cases "fd2chan ep fd")
    case None
    with Cons e show ?thesis by (auto split: if_splits)
  next
    case (Some r)
    let ?ep = "ep\<lparr>chans := (chans ep)(r := SetRevents ev (chans ep r))\<rparr>"
    from Cons.prems Some e obtain rs' where rs: "getReadyChannels evs ?ep = Ok (rs', ep')" "rs = r # rs'"
      by (auto simp: bind_outcome_Ok_iff split: if_splits)
    have "poll_inv ?ep" using Cons.prems(2) by (auto simp: poll_inv_def SetRevents_def)
    from Cons.IH [OF rs(1) this] rs(2) Some e show ?thesis
      by (auto simp: SetRevents_def)
  qed
qed

section \<open>The poller contract\<close>

text \<open>
  What connections rely on: each registration operation keeps the consistency of the poller. Any
  sequence of operations then keeps it.
\<close>

locale event_dispatcher =
  fixes add_op mod_op del_op :: "bool \<Rightarrow> chan_ref \<Rightarrow> 'p \<Rightarrow> 'p outcome"
    and consistent :: "'p \<Rightarrow> bool"
  assumes add_consistent: "consistent p \<Longrightarrow> add_op f r p = Ok p' \<Longrightarrow> consistent p'"
    and mod_consistent: "consistent p \<Longrightarrow> mod_op f r p = Ok p' \<Longrightarrow> consistent p'"
    and del_consistent: "consistent p \<Longrightarrow> del_op f r p = Ok p' \<Longrightarrow> consistent p'"
begin

lemma op_consistent:
  "consistent p \<Longrightarrow>
   (case op of CTL_ADD \<Rightarrow> add_op | CTL_MOD \<Rightarrow> mod_op | CTL_DEL \<Rightarrow> del_op) f r p = Ok p' \<Longrightarrow> consistent p'"
  by (cases op) (auto intro: add_consistent mod_consistent del_consistent)

end

interpretation poller: event_dispatcher PollAdd PollMod PollDel poll_inv
  by unfold_locales (auto intro: PollAdd_inv PollMod_inv PollDel_inv)

interpretation loop_poller: event_dispatcher AddToPoller UpdateToPoller RemoveFromPoller poll_inv
  by unfold_locales
    (auto simp: AddToPoller_def UpdateToPoller_def RemoveFromPoller_def
      intro: PollAdd_inv PollMod_inv PollDel_inv)

text \<open>A sequence of registration requests as the connections issue them.\<close>

fun poll_run :: "(ctl_op \<times> bool \<times> chan_ref) list \<Rightarrow> epoll \<Rightarrow> epoll outcome" where
  "poll_run [] ep = Ok ep"
| "poll_run ((op, fail, r) # ops) ep =
     bind_outcome ((case op of CTL_ADD \<Rightarrow> AddToPoller | CTL_MOD \<Rightarrow> UpdateToPoller
                             | CTL_DEL \<Rightarrow> RemoveFromPoller) fail r ep)
       (poll_run ops)"

lemma poll_run_inv: "poll_inv ep \<Longrightarrow> poll_run ops ep = Ok ep' \<Longrightarrow> poll_inv ep'"
proof (induction ops arbitrary: ep)
  case Nil
  then show ?case by simp
next
  case (Cons req ops)
  obtain op fail r where req: "req = (op, fail, r)" by (cases req)
  with Cons.prems(2) obtain ep1 where
      step: "(case op of CTL_ADD \<Rightarrow> AddToPoller | CTL_MOD \<Rightarrow> UpdateToPoller
                       | CTL_DEL \<Rightarrow> RemoveFromPoller) fail r ep = Ok ep1"
    and rest: "poll_run ops ep1 = Ok ep'"
    by (auto simp: bind_outcome_Ok_iff)
  from loop_poller.op_consistent [OF Cons.prems(1) step] rest show ?case by (rule Cons.IH)
qed

section \<open>Properties\<close>

text \<open>C35. Starting from a fresh poller, after any sequence of registrations, updates and removals
  (failing ones included) every channel the table holds is in the kernel's interest list under its
  own descriptor, so the channels a wait hands out are exactly the registered ones of the batch,
  in the order of the batch, and waiting changes neither table nor interest list.\<close>
theorem ready_channels_are_registered:
  assumes "Epoll_new cs epfd = Ok ep0" "poll_run ops ep0 = Ok ep"
    and "getReadyChannels evs ep = Ok (rs, ep')"
  shows "rs = map (\<lambda>(fd, ev). the (fd2chan ep fd)) (filter (\<lambda>(fd, ev). fd2chan ep fd \<noteq> None) evs) \<and>
         (\<forall>r \<in> set rs. interest ep (ch_fd (chans ep r)) \<noteq> None) \<and>
         fd2chan ep' = fd2chan ep \<and> interest ep' = interest ep"
proof -
  have "poll_inv ep0" using assms(1) by (auto simp: Epoll_new_def poll_inv_def split: if_splits)
  with assms(2) have inv: "poll_inv ep" by (blast intro: poll_run_inv)
  from getReadyChannels_spec [OF assms(3) inv]
  have rs: "rs = map (\<lambda>(fd, ev). the (fd2chan ep fd)) (filter (\<lambda>(fd, ev). fd2chan ep fd \<noteq> None) evs)"
    and frame: "fd2chan ep' = fd2chan ep" "interest ep' = interest ep" by auto
  have "interest ep (ch_fd (chans ep r)) \<noteq> None" if "r \<in> set rs" for r
    using that rs inv by (force simp: poll_inv_def)
  with rs frame show ?thesis by blast
qed

definition demo_chans :: "chan_ref \<Rightarrow> channel" where
  "demo_chans r = \<lparr>ch_fd = int r, need_close_when_delete = True, events = 1, revents = 0, peer_closed = False\<rparr>"

theorem ready_channels_are_registered_witness:
  "\<exists>ep ep'. Epoll_new demo_chans 3 = Ok ep \<and>
     poll_run [(CTL_ADD, False, 5), (CTL_ADD, False, 6), (CTL_DEL, False, 6)] ep = Ok ep' \<and>
     (\<exists>ep''. getReadyChannels [(6, 1), (5, 4)] ep' = Ok ([5], ep'') \<and>
        interest ep' (ch_fd (chans ep' 5)) \<noteq> None)"
proof -
  let ?ep = "\<lparr>interest = (\<lambda>_. None), fd2chan = (\<lambda>_. None), chans = demo_chans\<rparr>"
  let ?ep' = "\<lparr>interest = ((\<lambda>_. None)(5 := Some 1, 6 := None)),
               fd2chan = ((\<lambda>_. None)(5 := Some 5, 6 := None)), chans = demo_chans\<rparr>"
  have 1: "Epoll_new demo_chans 3 = Ok ?ep" by (simp add: Epoll_new_def)
  have 2: "poll_run [(CTL_ADD, False, 5), (CTL_ADD, False, 6), (CTL_DEL, False, 6)] ?ep = Ok ?ep'"
    by (simp add: AddToPoller_def RemoveFromPoller_def poll_defs demo_chans_def in_table_def MAXFDS_def)
  have 3: "\<exists>ep''. getReadyChannels [(6, 1), (5, 4)] ?ep' = Ok ([5], ep'')"
    by (simp add: in_table_def MAXFDS_def)
  then obtain ep'' where 4: "getReadyChannels [(6, 1), (5, 4)] ?ep' = Ok ([5], ep'')" by blast
  from ready_channels_are_registered [OF 1 2 4] 1 2 4 show ?thesis by fastforce
qed

end
