(* ===== verification/CProxy_Threads.thy ===== *)
theory CProxy_Threads
  imports CProxy_Prelude
begin

text \<open>
  \<^verbatim>\<open>lib/event_loop_thread.cpp\<close> and \<^verbatim>\<open>lib/event_loop_thread_pool.cpp\<close>: the start-up handshake between
  the thread that creates an \<^verbatim>\<open>EventLoopThread\<close> and the thread it runs, as a step relation over
  their interleavings, and the pool that deals connections out to its threads in turn.
\<close>

section \<open>Starting a loop thread\<close>

text \<open>Where the new thread is in \<^verbatim>\<open>ThreadFunc\<close>, and where the creator is in \<^verbatim>\<open>StartLoop\<close>.\<close>

datatype thread_pc = TInit | TLoopMade | TSignalled | TThrown
datatype starter_pc = SCreated | SWaiting | SReturned

record loop_thread =
  lt_loop :: bool        \<comment> \<open>\<^verbatim>\<open>loop_\<close> is set\<close>
  lt_started :: bool     \<comment> \<open>\<^verbatim>\<open>started_\<close>\<close>
  lt_thread :: thread_pc
  lt_starter :: starter_pc

text \<open>The constructor starts the thread and does not initialise \<^verbatim>\<open>started_\<close>.\<close>

definition EventLoopThread_new :: "bool \<Rightarrow> loop_thread" where
  "EventLoopThread_new started0 =
     \<lparr>lt_loop = False, lt_started = started0, lt_thread = TInit, lt_starter = SCreated\<rparr>"

text \<open>The sections under the mutex are single steps; \<^verbatim>\<open>cond_.wait\<close> may also wake up spuriously.\<close>

inductive lt_step :: "loop_thread \<Rightarrow> loop_thread \<Rightarrow> bool" where
  make_loop: "lt_thread t = TInit \<Longrightarrow> \<not> lt_loop t \<Longrightarrow>
     lt_step t (t\<lparr>lt_loop := True, lt_thread := TLoopMade\<rparr>)"
| loop_not_null: "lt_thread t = TInit \<Longrightarrow> lt_loop t \<Longrightarrow> lt_step t (t\<lparr>lt_thread := TThrown\<rparr>)"
| signal: "lt_thread t = TLoopMade \<Longrightarrow>
     lt_step t (t\<lparr>lt_started := True, lt_thread := TSignalled\<rparr>)"
| start_return: "lt_starter t = SCreated \<Longrightarrow> lt_started t \<Longrightarrow> lt_step t (t\<lparr>lt_starter := SReturned\<rparr>)"
| start_wait: "lt_starter t = SCreated \<Longrightarrow> \<not> lt_started t \<Longrightarrow> lt_step t (t\<lparr>lt_starter := SWaiting\<rparr>)"
| wake_return: "lt_starter t = SWaiting \<Longrightarrow> lt_started t \<Longrightarrow> lt_step t (t\<lparr>lt_starter := SReturned\<rparr>)"
| wake_again: "lt_starter t = SWaiting \<Longrightarrow> \<not> lt_started t \<Longrightarrow> lt_step t t"

inductive lt_reach :: "bool \<Rightarrow> loop_thread \<Rightarrow> bool" for started0 where
  lt_start: "lt_reach started0 (EventLoopThread_new started0)"
| lt_next: "lt_reach started0 t \<Longrightarrow> lt_step t t' \<Longrightarrow> lt_reach started0 t'"

inductive_cases lt_stepE: "lt_step t t'"

text \<open>\<^verbatim>\<open>AddChannel\<close>/\<^verbatim>\<open>AddConn\<close> dereference \<^verbatim>\<open>loop_\<close>.\<close>

definition AddChannel :: "loop_thread \<Rightarrow> unit outcome" where
  "AddChannel t = (if lt_loop t then Ok () else Ub NullDeref)"

lemma lt_inv:
  "lt_reach False t \<Longrightarrow>
   (lt_started t \<longrightarrow> lt_loop t) \<and> (lt_starter t = SReturned \<longrightarrow> lt_started t) \<and>
   (lt_thread t = TInit \<longrightarrow> \<not> lt_loop t) \<and> (lt_thread t \<noteq> TInit \<longrightarrow> lt_loop t) \<and> lt_thread t \<noteq> TThrown"
proof (induction rule: lt_reach.induct)
  case lt_start
  then show ?case by (simp add: EventLoopThread_new_def)
next
  case (lt_next t t')
  from lt_next.hyps(2) lt_next.IH show ?case by (cases rule: lt_step.cases) auto
qed

section \<open>The pool\<close>

record thread_pool =
  thread_num :: int
  next_work_thread_Idx :: int
  threads :: "nat list"

definition EventLoopThreadPool_new :: "int \<Rightarrow> thread_pool" where
  "EventLoopThreadPool_new n =
     \<lparr>thread_num = (if n > 0 then n else 1), next_work_thread_Idx = 0, threads = []\<rparr>"

text \<open>\<^verbatim>\<open>start\<close> creates the threads one after the other; a thread is named by its creation number.\<close>

fun pool_start_loop :: "nat \<Rightarrow> nat \<Rightarrow> nat list \<Rightarrow> nat list" where
  "pool_start_loop 0 i ts = ts"
| "pool_start_loop (Suc k) i ts = pool_start_loop k (Suc i) (ts @ [i])"

definition pool_start :: "thread_pool \<Rightarrow> thread_pool" where
  "pool_start p = p\<lparr>threads := pool_start_loop (nat (thread_num p)) 0 (threads p)\<rparr>"

definition PickRandThread :: "thread_pool \<Rightarrow> (nat \<times> thread_pool) outcome" where
  "PickRandThread p =
     (if 0 \<le> next_work_thread_Idx p \<and> nat (next_work_thread_Idx p) < length (threads p)
      then Ok (threads p ! nat (next_work_thread_Idx p),
               p\<lparr>next_work_thread_Idx := (next_work_thread_Idx p + 1) mod thread_num p\<rparr>)
      else Ub IndexOut)"

fun pick_many :: "nat \<Rightarrow> thread_pool \<Rightarrow> (nat list \<times> thread_pool) outcome" where
  "pick_many 0 p = Ok ([], p)"
| "pick_many (Suc k) p =
     bind_outcome (PickRandThread p)
       (\<lambda>(t, p1). bind_outcome (pick_many k p1) (\<lambda>(ts, p2). Ok (t # ts, p2)))"

lemma PickRandThread_safe: "safe (\<lambda>_. True) (PickRandThread p)"
  by (simp add: PickRandThread_def)

lemma pool_start_loop_eq: "pool_start_loop k i ts = ts @ [i..<i + k]"
  by (induction k arbitrary: i ts) (simp_all add: upt_conv_Cons del: upt_Suc)

definition pool_ready :: "nat \<Rightarrow> thread_pool \<Rightarrow> bool" where
  "pool_ready n p \<longleftrightarrow> 0 < n \<and> thread_num p = int n \<and> threads p = [0..<n] \<and>
     0 \<le> next_work_thread_Idx p \<and> next_work_thread_Idx p < int n"

lemma pool_ready_start: "pool_ready (nat (if n > 0 then n else 1)) (pool_start (EventLoopThreadPool_new n))"
  by (simp add: pool_ready_def pool_start_def EventLoopThreadPool_new_def pool_start_loop_eq)

lemma PickRandThread_ready:
  assumes "pool_ready n p"
  shows "PickRandThread p = Ok (nat (next_work_thread_Idx p),
           p\<lparr>next_work_thread_Idx := (next_work_thread_Idx p + 1) mod int n\<rparr>) \<and>
         pool_ready n (p\<lparr>next_work_thread_Idx := (next_work_thread_Idx p + 1) mod int n\<rparr>)"
  using assms by (auto simp: PickRandThread_def pool_ready_def nat_less_iff)

lemma pick_many_ready:
  assumes "pool_ready n p"
  shows "\<exists>p'. pick_many k p = Ok (map (\<lambda>i. nat ((next_work_thread_Idx p + int i) mod int n)) [0..<k], p') \<and>
              pool_ready n p'"
  using assms
proof (induction k arbitrary: p)
  case 0
  then show ?case by simp
next
  case (Suc k)
  let ?p = "p\<lparr>next_work_thread_Idx := (next_work_thread_Idx p + 1) mod int n\<rparr>"
  note pick = PickRandThread_ready [OF Suc.prems]
  from Suc.IH [of ?p] pick obtain p' where
    "pick_many k ?p = Ok (map (\<lambda>i. nat ((next_work_thread_Idx ?p + int i) mod int n)) [0..<k], p')"
    "pool_ready n p'" by blast
  moreover have "next_work_thread_Idx p mod int n = next_work_thread_Idx p"
    using Suc.prems by (simp add: pool_ready_def)
  ultimately show ?case
    using pick by (simp add: map_upt_Suc mod_simps add.assoc del: upt_Suc)
qed

section \<open>Properties\<close>



text \<open>The constructor never sets \<^verbatim>\<open>started_\<close>. If the memory happened to hold a true value,
  \<^verbatim>\<open>StartLoop\<close> can return before the thread has created its loop, and the next \<^verbatim>\<open>AddChannel\<close>
  dereferences a null pointer.\<close>
theorem StartLoop_uninitialised_started:
  "\<exists>t. lt_reach True t \<and> lt_starter t = SReturned \<and> AddChannel t = Ub NullDeref"
proof -
  have "lt_reach True ((EventLoopThread_new True)\<lparr>lt_starter := SReturned\<rparr>)"
    by (rule lt_next [OF lt_start start_return]) (simp_all add: EventLoopThread_new_def)
  then show ?thesis
    by (intro exI [of _ "(EventLoopThread_new True)\<lparr>lt_starter := SReturned\<rparr>"])
      (simp add: AddChannel_def EventLoopThread_new_def)
qed

text \<open>After \<^verbatim>\<open>start\<close> the pool deals its threads out round robin: the \<open>i\<close>-th of any run of picks is
  thread \<open>i mod n\<close>, no pick is ever out of range, and \<open>n\<close> is at least one whatever number was asked
  for.\<close>
theorem PickRandThread_round_robin:
  "\<exists>p'. pick_many k (pool_start (EventLoopThreadPool_new m)) =
      Ok (map (\<lambda>i. i mod nat (if m > 0 then m else 1)) [0..<k], p') \<and> pool_ready (nat (if m > 0 then m else 1)) p'"
proof -
  let ?n = "nat (if m > 0 then m else 1)" and ?p = "pool_start (EventLoopThreadPool_new m)"
  have 0: "next_work_thread_Idx ?p = 0" by (simp add: pool_start_def EventLoopThreadPool_new_def)
  have "nat (int i mod int ?n) = i mod ?n" for i
    by (simp only: zmod_int [symmetric] nat_int)
  with pick_many_ready [OF pool_ready_start, of k m] 0 show ?thesis by auto
qed

end
