(* ===== verification/CProxy_Buffer.thy ===== *)
theory CProxy_Buffer
  imports CProxy_Prelude
begin

text \<open>
  The growable ring buffer of \<^verbatim>\<open>lib/Buffer.h\<close> and \<^verbatim>\<open>lib/Buffer.cpp\<close>. The record holds the
  fields of the class; C \<^verbatim>\<open>int\<close> fields are integers (theorem \<open>buffer_arith_in_int_range\<close>
  shows that no intermediate value leaves the 32-bit range for the capacities the program uses).
  The abstraction \<open>contents\<close> is the queue of unread bytes; the locale \<open>byte_queue\<close> states the
  queue contract and is interpreted on the ring buffer.
\<close>

section \<open>State and constructor\<close>

record buffer =
  capacity :: int
  data_size :: int
  max_capacity :: int
  buf_data :: "byte list"
  read_index :: int
  write_index :: int

definition Buffer_new :: "junk \<Rightarrow> int \<Rightarrow> int \<Rightarrow> buffer" where
  "Buffer_new j cap max_cap =
     \<lparr>capacity = cap, data_size = cap + 1,
      max_capacity = (if max_cap > cap then max_cap else cap),
      buf_data = fresh j (nat (cap + 1)), read_index = 0, write_index = 0\<rparr>"

section \<open>Sizes\<close>

definition GetUnreadSize :: "buffer \<Rightarrow> int" where
  "GetUnreadSize b =
     (if write_index b \<ge> read_index b then write_index b - read_index b
      else (data_size b - read_index b) + write_index b)"

definition getFreeSize :: "buffer \<Rightarrow> int" where
  "getFreeSize b = capacity b - GetUnreadSize b"

section \<open>Byte loops\<close>

text \<open>\<^verbatim>\<open>for (i < n) { cur = (r + i) % ds; dst[i] = data[cur]; }\<close> with the last \<^verbatim>\<open>cur\<close>.\<close>

function ring_read_loop ::
    "byte list \<Rightarrow> int \<Rightarrow> int \<Rightarrow> nat \<Rightarrow> nat \<Rightarrow> int \<Rightarrow> byte list \<Rightarrow> int \<times> byte list" where
  "ring_read_loop d ds r i n cur dst =
     (if i < n
      then let cur' = (r + int i) mod ds
           in ring_read_loop d ds r (Suc i) n cur' (dst[i := d ! nat cur'])
      else (cur, dst))"
  by pat_completeness auto
termination
  by (relation "measure (\<lambda>(d, ds, r, i, n, cur, dst). n - i)") auto

text \<open>\<^verbatim>\<open>for (i < n) { cur = (w + i) % ds; data[cur] = src[i]; }\<close> with the last \<^verbatim>\<open>cur\<close>.\<close>

function ring_write_loop ::
    "int \<Rightarrow> int \<Rightarrow> byte list \<Rightarrow> nat \<Rightarrow> nat \<Rightarrow> int \<Rightarrow> byte list \<Rightarrow> int \<times> byte list" where
  "ring_write_loop ds w src i n cur d =
     (if i < n
      then let cur' = (w + int i) mod ds
           in ring_write_loop ds w src (Suc i) n cur' (d[nat cur' := src ! i])
      else (cur, d))"
  by pat_completeness auto
termination
  by (relation "measure (\<lambda>(ds, w, src, i, n, cur, d). n - i)") auto

declare ring_read_loop.simps [simp del] ring_write_loop.simps [simp del]

section \<open>Growing\<close>

definition resize :: "buffer \<Rightarrow> int \<Rightarrow> junk \<Rightarrow> buffer" where
  "resize b cap j =
     (let unread_size = GetUnreadSize b
      in if unread_size > cap then b
         else if cap = capacity b then b
         else let tmp = fresh j (nat (cap + 1));
                  tmp' = snd (ring_read_loop (buf_data b) (data_size b) (read_index b)
                            0 (nat unread_size) 0 tmp)
              in b\<lparr>buf_data := tmp', data_size := cap + 1, capacity := cap,
                   read_index := 0, write_index := unread_size\<rparr>)"

definition DOUBLE_BORDER_LINE :: int where
  "DOUBLE_BORDER_LINE = 1024"

text \<open>The \<^verbatim>\<open>while\<close> loop that grows by a quarter; it makes no progress below 4.\<close>

partial_function (option) grow_loop :: "int \<Rightarrow> int \<Rightarrow> int \<Rightarrow> int option" where
  "grow_loop newcap min_cap_need max_cap =
     (if newcap < min_cap_need
      then (if newcap + newcap div 4 > max_cap then Some max_cap
            else grow_loop (newcap + newcap div 4) min_cap_need max_cap)
      else Some newcap)"

definition ensureInsert :: "buffer \<Rightarrow> int \<Rightarrow> junk \<Rightarrow> buffer outcome" where
  "ensureInsert b insert_len j =
     (if getFreeSize b \<ge> insert_len then Ok b
      else let min_cap_need = capacity b + insert_len
           in if min_cap_need > max_capacity b then Throw
              else let doublecap = capacity b * 2
                   in if min_cap_need > doublecap then Ok (resize b min_cap_need j)
                      else if capacity b < DOUBLE_BORDER_LINE
                      then Ok (resize b (if doublecap \<le> max_capacity b then doublecap
                                         else max_capacity b) j)
                      else case grow_loop (capacity b) min_cap_need (max_capacity b) of
                             None \<Rightarrow> Spin
                           | Some newcap \<Rightarrow> Ok (resize b newcap j))"

section \<open>Reading and writing\<close>

text \<open>\<^verbatim>\<open>read(char *data, int expect_len)\<close>: return value, the caller's memory, the buffer.\<close>

definition buf_read :: "buffer \<Rightarrow> byte list \<Rightarrow> int \<Rightarrow> size_t \<times> byte list \<times> buffer" where
  "buf_read b dst expect_len =
     (if expect_len \<le> 0 then (0, dst, b)
      else if expect_len > GetUnreadSize b then (-1, dst, b)
      else let (cur, dst') = ring_read_loop (buf_data b) (data_size b) (read_index b)
                               0 (nat expect_len) (read_index b) dst
           in (word_of_int expect_len, dst', b\<lparr>read_index := (cur + 1) mod data_size b\<rparr>))"

text \<open>The store loop of \<^verbatim>\<open>WriteToBuffer\<close> and the update of \<^verbatim>\<open>write_index_\<close> after it.\<close>

definition ring_put :: "buffer \<Rightarrow> byte list \<Rightarrow> nat \<Rightarrow> buffer" where
  "ring_put b src n =
     (let (cur, d) = ring_write_loop (data_size b) (write_index b) src 0 n (write_index b) (buf_data b)
      in b\<lparr>buf_data := d, write_index := (cur + 1) mod data_size b\<rparr>)"

definition WriteToBuffer ::
    "buffer \<Rightarrow> byte list \<Rightarrow> int \<Rightarrow> junk \<Rightarrow> (size_t \<times> buffer) outcome" where
  "WriteToBuffer b src expect_len j =
     (if expect_len \<le> 0 then Ok (0, b)
      else case ensureInsert b expect_len j of
             Throw \<Rightarrow> Ok (0, b)
           | Ok b1 \<Rightarrow> Ok (word_of_int expect_len, ring_put b1 src (nat expect_len))
           | Ub u \<Rightarrow> Ub u
           | Abort \<Rightarrow> Abort
           | Spin \<Rightarrow> Spin)"

text \<open>
  \<^verbatim>\<open>WriteToSock\<close> stores the result of \<^verbatim>\<open>write\<close> in a \<^verbatim>\<open>size_t\<close>: \<open>-1\<close> becomes \<open>2^64 - 1\<close>, which
  is not \<open>0\<close>, and takes the same path as a successful write. \<open>sent\<close> collects the bytes the socket
  accepted; the environment's answers are consumed one per call.
\<close>

definition cur_send_len :: "buffer \<Rightarrow> int" where
  "cur_send_len b =
     (if read_index b > write_index b then data_size b - read_index b
      else write_index b - read_index b)"

definition sys_write :: "wr_resp \<Rightarrow> int \<Rightarrow> errno \<Rightarrow> size_t \<times> errno" where
  "sys_write rsp len e =
     (case rsp of Accept n \<Rightarrow> (word_of_int (min (int n) len), e) | WFail e' \<Rightarrow> (-1, e'))"

definition advance_read :: "buffer \<Rightarrow> size_t \<Rightarrow> buffer" where
  "advance_read b writeNum =
     b\<lparr>read_index :=
         to_int32 (uint ((word_of_int (read_index b) + writeNum) mod word_of_int (data_size b)))\<rparr>"

definition accepted :: "buffer \<Rightarrow> wr_resp \<Rightarrow> byte list" where
  "accepted b rsp =
     (case rsp of
        Accept n \<Rightarrow> take (min n (nat (cur_send_len b))) (drop (nat (read_index b)) (buf_data b))
      | WFail _ \<Rightarrow> [])"

fun WriteToSock_loop ::
    "wr_resp list \<Rightarrow> errno \<Rightarrow> int \<Rightarrow> byte list \<Rightarrow> buffer \<Rightarrow>
     (int \<times> byte list \<times> buffer \<times> wr_resp list) outcome" where
  "WriteToSock_loop rsps e total_sent_num sent b =
     (if GetUnreadSize b > 0
      then case rsps of
             [] \<Rightarrow> Spin
           | rsp # rsps' \<Rightarrow>
               (let (writeNum, e') = sys_write rsp (cur_send_len b) e
                in if writeNum = 0
                   then (if e' = EINTR then WriteToSock_loop rsps' e' total_sent_num sent b
                         else Ok (total_sent_num, sent, b, rsps'))
                   else WriteToSock_loop rsps' e' (to_int32 (total_sent_num + uint writeNum))
                          (sent @ accepted b rsp) (advance_read b writeNum))
      else Ok (total_sent_num, sent, b, rsps))"

declare WriteToSock_loop.simps [simp del]

text \<open>\<^verbatim>\<open>WriteToSock(int fd)\<close>: return value, bytes the socket took, the buffer.\<close>

definition WriteToSock ::
    "wr_resp list \<Rightarrow> errno \<Rightarrow> buffer \<Rightarrow> (size_t \<times> byte list \<times> buffer \<times> wr_resp list) outcome" where
  "WriteToSock rsps e b =
     bind_outcome (WriteToSock_loop rsps e 0 [] b)
       (\<lambda>(total_sent_num, sent, b', rest). Ok (word_of_int total_sent_num, sent, b', rest))"

section \<open>Invariant and abstraction\<close>

definition buf_wf :: "buffer \<Rightarrow> bool" where
  "buf_wf b \<longleftrightarrow>
     0 \<le> capacity b \<and> data_size b = capacity b + 1 \<and> capacity b \<le> max_capacity b \<and>
     length (buf_data b) = nat (data_size b) \<and>
     0 \<le> read_index b \<and> read_index b < data_size b \<and>
     0 \<le> write_index b \<and> write_index b < data_size b"

definition contents :: "buffer \<Rightarrow> byte list" where
  "contents b =
     map (\<lambda>i. buf_data b ! nat ((read_index b + int i) mod data_size b))
         [0..<nat (GetUnreadSize b)]"

section \<open>Ring arithmetic\<close>

lemma mod_ring_inj:
  fixes a ds :: int
  assumes "0 < ds" "int i < ds" "int k < ds" "(a + int i) mod ds = (a + int k) mod ds"
  shows "i = k"
proof -
  have "ds dvd int i - int k"
    using assms(4) by (simp add: mod_eq_dvd_iff algebra_simps)
  moreover have "\<bar>int i - int k\<bar> < ds"
    using assms(2,3) by linarith
  ultimately have "int i - int k = 0"
    by (metis abs_eq_0 zdvd_not_zless abs_ge_zero dvd_abs_iff order_le_less)
  then show ?thesis by simp
qed

lemma nat_mod_lt: "0 < ds \<Longrightarrow> nat (x mod ds) < nat (ds :: int)"
  by (simp add: nat_mono_iff)

lemma nat_mod_ring_inj:
  fixes a ds :: int
  assumes "0 < ds" "int i < ds" "int k < ds" "nat ((a + int i) mod ds) = nat ((a + int k) mod ds)"
  shows "i = k"
  using assms mod_ring_inj [of ds i k a] by (simp add: nat_eq_iff)

lemma ring_read_loop_stop [simp]: "\<not> i < n \<Longrightarrow> ring_read_loop d ds r i n cur dst = (cur, dst)"
  by (simp add: ring_read_loop.simps)

lemma ring_write_loop_stop [simp]: "\<not> i < n \<Longrightarrow> ring_write_loop ds w src i n cur d = (cur, d)"
  by (simp add: ring_write_loop.simps)

lemma ring_read_loop_spec:
  assumes "i \<le> n" "n \<le> length dst"
  shows "ring_read_loop d ds r i n cur dst =
    (if i < n then (r + int n - 1) mod ds else cur,
     take i dst @ map (\<lambda>k. d ! nat ((r + int k) mod ds)) [i..<n] @ drop n dst)"
  using assms
proof (induction d ds r i n cur dst rule: ring_read_loop.induct)
  case (1 d ds r i n cur dst)
  show ?case
  proof (cases "i < n")
    case True
    let ?c = "(r + int i) mod ds"
    have IH: "ring_read_loop d ds r (Suc i) n ?c (dst[i := d ! nat ?c]) =
      (if Suc i < n then (r + int n - 1) mod ds else ?c,
       take (Suc i) (dst[i := d ! nat ?c]) @ map (\<lambda>k. d ! nat ((r + int k) mod ds)) [Suc i..<n] @
       drop n (dst[i := d ! nat ?c]))"
      using 1 True by auto
    have last: "(r + int n - 1) mod ds = ?c" if "\<not> Suc i < n"
    proof -
      from that True have "n = Suc i" by simp
      then show ?thesis by simp
    qed
    with IH True "1.prems" show ?thesis
      by (auto simp: ring_read_loop.simps [of d ds r i n cur dst] Let_def
          take_Suc_conv_app_nth upt_conv_Cons)
  next
    case False
    with "1.prems" show ?thesis
      by simp
  qed
qed

lemma ring_write_loop_spec:
  assumes "i \<le> n" "int n \<le> ds" "0 < ds" "length d = nat ds"
  shows "fst (ring_write_loop ds w src i n cur d) =
           (if i < n then (w + int n - 1) mod ds else cur) \<and>
         length (snd (ring_write_loop ds w src i n cur d)) = length d \<and>
         (\<forall>k. i \<le> k \<and> k < n \<longrightarrow>
            snd (ring_write_loop ds w src i n cur d) ! nat ((w + int k) mod ds) = src ! k) \<and>
         (\<forall>p < length d. (\<forall>k. i \<le> k \<and> k < n \<longrightarrow> p \<noteq> nat ((w + int k) mod ds)) \<longrightarrow>
            snd (ring_write_loop ds w src i n cur d) ! p = d ! p)"
  using assms
proof (induction ds w src i n cur d rule: ring_write_loop.induct)
  case (1 ds w src i n cur d)
  show ?case
  proof (cases "i < n")
    case True
    let ?c = "(w + int i) mod ds"
    let ?R = "ring_write_loop ds w src (Suc i) n ?c (d[nat ?c := src ! i])"
    have eq: "ring_write_loop ds w src i n cur d = ?R"
      using True by (simp add: ring_write_loop.simps [of ds w src i n cur d] Let_def)
    have IH: "fst ?R = (if Suc i < n then (w + int n - 1) mod ds else ?c) \<and>
         length (snd ?R) = length d \<and>
         (\<forall>k. Suc i \<le> k \<and> k < n \<longrightarrow> snd ?R ! nat ((w + int k) mod ds) = src ! k) \<and>
         (\<forall>p < length d. (\<forall>k. Suc i \<le> k \<and> k < n \<longrightarrow> p \<noteq> nat ((w + int k) mod ds)) \<longrightarrow>
            snd ?R ! p = d[nat ?c := src ! i] ! p)"
      using 1 True by auto
    have c: "nat ?c < length d"
      using "1.prems" nat_mod_lt by simp
    have "snd ?R ! nat ?c = src ! i"
    proof -
      have "\<forall>k. Suc i \<le> k \<and> k < n \<longrightarrow> nat ?c \<noteq> nat ((w + int k) mod ds)"
      proof (intro allI impI notI)
        fix k
        assume k: "Suc i \<le> k \<and> k < n" and "nat ?c = nat ((w + int k) mod ds)"
        with "1.prems" True have "i = k"
          by (intro nat_mod_ring_inj [of ds i k w]) auto
        with k show False by simp
      qed
      then show ?thesis using IH c by simp
    qed
    note at_i = this
    have cur: "(if Suc i < n then (w + int n - 1) mod ds else ?c) = (w + int n - 1) mod ds"
    proof (cases "Suc i < n")
      case False
      with True have "n = Suc i" by simp
      then show ?thesis by simp
    qed simp
    have hits: "\<forall>k. i \<le> k \<and> k < n \<longrightarrow> snd ?R ! nat ((w + int k) mod ds) = src ! k"
      using IH at_i by (metis le_eq_less_or_eq less_eq_Suc_le)
    have "\<forall>p < length d. (\<forall>k. i \<le> k \<and> k < n \<longrightarrow> p \<noteq> nat ((w + int k) mod ds)) \<longrightarrow>
            snd ?R ! p = d ! p"
    proof (intro allI impI)
      fix p
      assume p: "p < length d" "\<forall>k. i \<le> k \<and> k < n \<longrightarrow> p \<noteq> nat ((w + int k) mod ds)"
      then have "snd ?R ! p = d[nat ?c := src ! i] ! p" using IH by simp
      moreover have "p \<noteq> nat ?c" using p(2) True by blast
      ultimately show "snd ?R ! p = d ! p" by simp
    qed
    then show ?thesis
      unfolding eq using IH True cur hits by simp
  next
    case False
    with "1.prems" show ?thesis
      by auto
  qed
qed

section \<open>Sizes\<close>

lemma unread_mod:
  assumes "buf_wf b"
  shows "GetUnreadSize b = (write_index b - read_index b) mod data_size b"
proof (cases "write_index b \<ge> read_index b")
  case True
  with assms show ?thesis by (simp add: buf_wf_def GetUnreadSize_def)
next
  case False
  have "(write_index b - read_index b) mod data_size b =
        (write_index b - read_index b + data_size b) mod data_size b"
    by simp
  also have "\<dots> = write_index b - read_index b + data_size b"
    using assms False by (intro mod_pos_pos_trivial) (auto simp: buf_wf_def)
  finally show ?thesis
    using False by (simp add: GetUnreadSize_def)
qed

lemma unread_bounds: "buf_wf b \<Longrightarrow> 0 \<le> GetUnreadSize b \<and> GetUnreadSize b \<le> capacity b"
  by (auto simp: buf_wf_def GetUnreadSize_def)

lemma length_contents [simp]: "length (contents b) = nat (GetUnreadSize b)"
  by (simp add: contents_def)

lemma nth_contents:
  "i < nat (GetUnreadSize b) \<Longrightarrow>
   contents b ! i = buf_data b ! nat ((read_index b + int i) mod data_size b)"
  by (simp add: contents_def)

lemma write_index_unread:
  assumes "buf_wf b"
  shows "(write_index b + x) mod data_size b = (read_index b + GetUnreadSize b + x) mod data_size b"
  unfolding unread_mod [OF assms]
  by (metis (no_types, lifting) add.commute add_diff_cancel_left' diff_add_cancel mod_add_right_eq mod_add_left_eq)

section \<open>Writing\<close>

lemma ring_put_wf:
  assumes "buf_wf b" "0 < n" "int n \<le> getFreeSize b"
  shows "buf_wf (ring_put b src n) \<and> GetUnreadSize (ring_put b src n) = GetUnreadSize b + int n"
proof -
  have ds: "0 < data_size b" "int n \<le> data_size b" "length (buf_data b) = nat (data_size b)"
    using assms unread_bounds [OF assms(1)] by (auto simp: buf_wf_def getFreeSize_def)
  let ?R = "ring_write_loop (data_size b) (write_index b) src 0 n (write_index b) (buf_data b)"
  have R: "fst ?R = (write_index b + int n - 1) mod data_size b" "length (snd ?R) = length (buf_data b)"
    using ring_write_loop_spec [of 0 n "data_size b" "buf_data b" "write_index b" src "write_index b"] ds assms(2)
    by simp_all
  have w: "write_index (ring_put b src n) = (write_index b + int n) mod data_size b"
    using R by (simp add: ring_put_def split_beta mod_simps)
  have wb: "0 \<le> write_index (ring_put b src n)" "write_index (ring_put b src n) < data_size b"
    using w ds by simp_all
  have wf: "buf_wf (ring_put b src n)"
    using assms(1) R wb by (simp add: buf_wf_def ring_put_def split_beta)
  have "GetUnreadSize (ring_put b src n) = ((write_index b + int n) mod data_size b - read_index b) mod data_size b"
    using unread_mod [OF wf] w by (simp add: ring_put_def split_beta)
  also have "\<dots> = (read_index b + GetUnreadSize b + int n - read_index b) mod data_size b"
    unfolding write_index_unread [OF assms(1)] by (simp add: mod_simps)
  also have "\<dots> = GetUnreadSize b + int n"
  proof -
    have "0 \<le> GetUnreadSize b + int n" "GetUnreadSize b + int n < data_size b"
      using assms unread_bounds [OF assms(1)] by (auto simp: buf_wf_def getFreeSize_def)
    then show ?thesis by simp
  qed
  finally show ?thesis using wf by simp
qed

lemma contents_ring_put:
  assumes "buf_wf b" "0 < n" "int n \<le> getFreeSize b" "n \<le> length src"
  shows "contents (ring_put b src n) = contents b @ take n src"
proof -
  let ?R = "ring_write_loop (data_size b) (write_index b) src 0 n (write_index b) (buf_data b)"
  let ?u = "nat (GetUnreadSize b)"
  have ub: "0 \<le> GetUnreadSize b" "GetUnreadSize b + int n < data_size b"
    using assms unread_bounds [OF assms(1)] by (auto simp: buf_wf_def getFreeSize_def)
  have ds: "0 < data_size b" "int n \<le> data_size b" "length (buf_data b) = nat (data_size b)"
    using assms ub by (auto simp: buf_wf_def)
  note spec = ring_write_loop_spec [of 0 n "data_size b" "buf_data b" "write_index b" src "write_index b"]
  have hit: "\<And>k. k < n \<Longrightarrow> snd ?R ! nat ((read_index b + int (?u + k)) mod data_size b) = src ! k"
    using spec ds write_index_unread [OF assms(1)] ub by (simp add: add.assoc)
  have miss: "snd ?R ! nat ((read_index b + int i) mod data_size b) =
              buf_data b ! nat ((read_index b + int i) mod data_size b)" if "i < ?u" for i
  proof -
    have "nat ((read_index b + int i) mod data_size b) \<noteq> nat ((write_index b + int k) mod data_size b)"
      if "k < n" for k
    proof
      assume "nat ((read_index b + int i) mod data_size b) = nat ((write_index b + int k) mod data_size b)"
      then have "nat ((read_index b + int i) mod data_size b) =
                 nat ((read_index b + int (?u + k)) mod data_size b)"
        using write_index_unread [OF assms(1)] ub by (simp add: add.assoc)
      then have "i = ?u + k"
        using \<open>i < ?u\<close> \<open>k < n\<close> ub ds
          nat_mod_ring_inj [of "data_size b" i "?u + k" "read_index b"] by simp
      with \<open>i < ?u\<close> show False by simp
    qed
    moreover have "nat ((read_index b + int i) mod data_size b) < length (buf_data b)"
      using ds nat_mod_lt by simp
    ultimately show ?thesis using spec ds by simp
  qed
  have len: "nat (GetUnreadSize (ring_put b src n)) = ?u + n"
    using ring_put_wf [OF assms(1-3)] ub by (simp add: nat_add_distrib)
  show ?thesis
  proof (rule nth_equalityI)
    show "length (contents (ring_put b src n)) = length (contents b @ take n src)"
      using len assms(4) by simp
    fix i
    assume i: "i < length (contents (ring_put b src n))"
    have "contents (ring_put b src n) ! i = snd ?R ! nat ((read_index b + int i) mod data_size b)"
      using i by (simp add: nth_contents ring_put_def split_beta)
    also have "\<dots> = (contents b @ take n src) ! i"
    proof (cases "i < ?u")
      case True
      then show ?thesis using miss by (simp add: nth_append nth_contents)
    next
      case False
      with i len have "i = ?u + (i - ?u)" "i - ?u < n" by auto
      then show ?thesis
        using hit [of "i - ?u"] False by (simp add: nth_append)
    qed
    finally show "contents (ring_put b src n) ! i = (contents b @ take n src) ! i" .
  qed
qed

section \<open>Reading\<close>

lemma contents_drop:
  assumes "buf_wf b" "int n \<le> GetUnreadSize b"
  shows "contents (b\<lparr>read_index := (read_index b + int n) mod data_size b\<rparr>) = drop n (contents b) \<and>
         buf_wf (b\<lparr>read_index := (read_index b + int n) mod data_size b\<rparr>)"
proof -
  let ?b = "b\<lparr>read_index := (read_index b + int n) mod data_size b\<rparr>"
  have ds: "0 < data_size b" using assms(1) by (simp add: buf_wf_def)
  then have r: "0 \<le> read_index ?b" "read_index ?b < data_size b" by simp_all
  then have wf: "buf_wf ?b" using assms(1) by (simp add: buf_wf_def)
  have "GetUnreadSize ?b = (write_index b - (read_index b + int n) mod data_size b) mod data_size b"
    using unread_mod [OF wf] by simp
  also have "\<dots> = (write_index b + - (read_index b + int n)) mod data_size b"
    by (simp add: mod_simps algebra_simps)
  also have "\<dots> = (read_index b + GetUnreadSize b + - (read_index b + int n)) mod data_size b"
    by (rule write_index_unread [OF assms(1)])
  also have "\<dots> = GetUnreadSize b - int n"
  proof -
    have "0 \<le> GetUnreadSize b - int n" "GetUnreadSize b - int n < data_size b"
      using assms unread_bounds [OF assms(1)] by (auto simp: buf_wf_def)
    then show ?thesis by simp
  qed
  finally have u: "GetUnreadSize ?b = GetUnreadSize b - int n" .
  have "contents ?b = drop n (contents b)"
  proof (rule nth_equalityI)
    show "length (contents ?b) = length (drop n (contents b))"
      using u by simp
    fix i
    assume "i < length (contents ?b)"
    with u have "i < nat (GetUnreadSize ?b)" "n + i < nat (GetUnreadSize b)" by simp_all
    then show "contents ?b ! i = drop n (contents b) ! i"
      by (simp add: nth_contents mod_simps algebra_simps)
  qed
  with wf show ?thesis by simp
qed

lemma ring_take:
  assumes "buf_wf b" "int n \<le> GetUnreadSize b"
  shows "map (\<lambda>k. buf_data b ! nat ((read_index b + int k) mod data_size b)) [0..<n] = take n (contents b)"
  using assms by (intro nth_equalityI) (auto simp: nth_contents)

lemma buf_read_spec:
  assumes "buf_wf b" "0 < n" "int n \<le> GetUnreadSize b" "n \<le> length dst"
  shows "buf_read b dst (int n) =
    (of_nat n, take n (contents b) @ drop n dst,
     b\<lparr>read_index := (read_index b + int n) mod data_size b\<rparr>)"
  using assms ring_read_loop_spec [of 0 n dst "buf_data b" "data_size b" "read_index b" "read_index b"]
  by (simp add: buf_read_def ring_take mod_simps)

section \<open>Growing\<close>

lemma resize_spec:
  assumes "buf_wf b" "capacity b \<le> cap" "cap \<le> max_capacity b"
  shows "buf_wf (resize b cap j) \<and> contents (resize b cap j) = contents b \<and>
         capacity (resize b cap j) = cap \<and> max_capacity (resize b cap j) = max_capacity b"
proof (cases "cap = capacity b")
  case True
  with assms show ?thesis using unread_bounds [OF assms(1)] by (simp add: resize_def Let_def)
next
  case False
  let ?u = "nat (GetUnreadSize b)"
  have u: "0 \<le> GetUnreadSize b" "GetUnreadSize b \<le> cap" "?u \<le> length (fresh j (nat (cap + 1)))"
    using unread_bounds [OF assms(1)] assms(2) by auto
  have "snd (ring_read_loop (buf_data b) (data_size b) (read_index b) 0 ?u 0 (fresh j (nat (cap + 1)))) =
        contents b @ drop ?u (fresh j (nat (cap + 1)))"
    using u ring_read_loop_spec [of 0 ?u "fresh j (nat (cap + 1))" "buf_data b" "data_size b" "read_index b" 0]
    by (simp add: contents_def [symmetric])
  then have eq: "resize b cap j =
      b\<lparr>buf_data := contents b @ drop ?u (fresh j (nat (cap + 1))), data_size := cap + 1,
        capacity := cap, read_index := 0, write_index := GetUnreadSize b\<rparr>"
    using u False by (simp add: resize_def Let_def)
  have wf: "buf_wf (resize b cap j)"
    unfolding eq using assms u by (auto simp: buf_wf_def)
  have "contents (resize b cap j) = contents b"
  proof (rule nth_equalityI)
    show "length (contents (resize b cap j)) = length (contents b)"
      unfolding length_contents using u by (simp add: eq GetUnreadSize_def [of "b\<lparr>buf_data := _\<rparr>"] GetUnreadSize_def)
    fix i
    assume "i < length (contents (resize b cap j))"
    then have i: "i < ?u" "i < nat (GetUnreadSize (resize b cap j))"
      using u by (simp_all add: eq GetUnreadSize_def)
    then have "int i mod (cap + 1) = int i" using u by simp
    with i show "contents (resize b cap j) ! i = contents b ! i"
      unfolding nth_contents [OF i(2)] by (simp add: eq nth_append)
  qed
  with wf show ?thesis by (simp add: eq)
qed

lemma grow_loop_step:
  "newcap < need \<Longrightarrow> newcap + newcap div 4 \<le> maxc \<Longrightarrow>
   grow_loop newcap need maxc = grow_loop (newcap + newcap div 4) need maxc"
  by (simp add: grow_loop.simps [of newcap])

text \<open>The growing loop returns, and with a capacity that is large enough.\<close>

lemma grow_loop_returns:
  assumes "4 \<le> newcap" "newcap \<le> maxc" "need \<le> maxc"
  shows "\<exists>c. grow_loop newcap need maxc = Some c \<and> need \<le> c \<and> newcap \<le> c \<and> c \<le> maxc"
  using assms
proof (induction "nat (maxc - newcap)" arbitrary: newcap rule: less_induct)
  case less
  show ?case
  proof (cases "newcap < need \<and> newcap + newcap div 4 \<le> maxc")
    case True
    have "1 \<le> newcap div 4" using less.prems(1) by linarith
    with True less.prems have "nat (maxc - (newcap + newcap div 4)) < nat (maxc - newcap)" by linarith
    from less.hyps [OF this] True less.prems \<open>1 \<le> newcap div 4\<close> obtain c
      where "grow_loop (newcap + newcap div 4) need maxc = Some c" "need \<le> c"
        "newcap + newcap div 4 \<le> c" "c \<le> maxc" by auto
    with True \<open>1 \<le> newcap div 4\<close> show ?thesis
      by (auto simp: grow_loop_step intro!: exI [of _ c])
  next
    case False
    with less.prems show ?thesis by (auto simp: grow_loop.simps [of newcap])
  qed
qed

lemma ensureInsert_cases:
  assumes "buf_wf b" "0 < n"
  obtains (fits) "n \<le> getFreeSize b" "ensureInsert b n j = Ok b"
  | (full) "getFreeSize b < n" "max_capacity b < capacity b + n" "ensureInsert b n j = Throw"
  | (grown) c where "getFreeSize b < n" "capacity b + n \<le> c" "c \<le> max_capacity b"
      "ensureInsert b n j = Ok (resize b c j)"
proof (cases "n \<le> getFreeSize b \<or> max_capacity b < capacity b + n")
  case True
  then show ?thesis
    using that(1,2) by (cases "n \<le> getFreeSize b") (auto simp: ensureInsert_def Let_def)
next
  case grow: False
  show ?thesis
  proof (cases "capacity b + n > capacity b * 2 \<or> capacity b < DOUBLE_BORDER_LINE")
    case True
    let ?c = "if capacity b + n > capacity b * 2 then capacity b + n
              else if capacity b * 2 \<le> max_capacity b then capacity b * 2 else max_capacity b"
    from grow True have "ensureInsert b n j = Ok (resize b ?c j)"
      by (auto simp: ensureInsert_def Let_def)
    moreover have "capacity b + n \<le> ?c" "?c \<le> max_capacity b"
      using grow by (auto split: if_splits)
    ultimately show ?thesis using grow that(3) [of ?c] by simp
  next
    case False
    with grow assms obtain c where "grow_loop (capacity b) (capacity b + n) (max_capacity b) = Some c"
        "capacity b + n \<le> c" "c \<le> max_capacity b"
      using grow_loop_returns [of "capacity b" "max_capacity b" "capacity b + n"]
      by (auto simp: DOUBLE_BORDER_LINE_def buf_wf_def)
    with grow False that(3) show ?thesis
      by (simp add: ensureInsert_def Let_def)
  qed
qed

lemma ensureInsert_spec:
  assumes "buf_wf b" "0 < n"
  shows "(\<exists>b'. ensureInsert b n j = Ok b' \<and> buf_wf b' \<and> contents b' = contents b \<and>
            n \<le> getFreeSize b' \<and> capacity b \<le> capacity b' \<and> max_capacity b' = max_capacity b) \<or>
         (ensureInsert b n j = Throw \<and> getFreeSize b < n \<and> max_capacity b < capacity b + n)"
  using assms
proof (cases rule: ensureInsert_cases [where j = j])
  case fits
  with assms show ?thesis by simp
next
  case full
  then show ?thesis by simp
next
  case (grown c)
  with assms have r: "buf_wf (resize b c j)" "contents (resize b c j) = contents b"
      "capacity (resize b c j) = c" "max_capacity (resize b c j) = max_capacity b"
    using resize_spec [of b c j] by auto
  from r(2) have "GetUnreadSize (resize b c j) = GetUnreadSize b"
    using unread_bounds [OF assms(1)] unread_bounds [OF r(1)]
      length_contents [of b] length_contents [of "resize b c j"] by (simp add: eq_nat_nat_iff)
  with r grown unread_bounds [OF assms(1)] have "n \<le> getFreeSize (resize b c j)"
    by (simp add: getFreeSize_def)
  with r grown assms(2) show ?thesis by simp
qed

lemma WriteToBuffer_spec:
  assumes "buf_wf b" "0 < n" "n \<le> length src"
  shows "(\<exists>b'. WriteToBuffer b src (int n) j = Ok (of_nat n, b') \<and> buf_wf b' \<and>
            contents b' = contents b @ take n src \<and> max_capacity b' = max_capacity b \<and>
            capacity b \<le> capacity b') \<or>
         (WriteToBuffer b src (int n) j = Ok (0, b) \<and>
            max_capacity b < capacity b + int n \<and> getFreeSize b < int n)"
proof -
  from assms(2) have "0 < int n" by simp
  from ensureInsert_spec [OF assms(1) this, of j] show ?thesis
  proof (elim disjE)
  assume "\<exists>b'. ensureInsert b (int n) j = Ok b' \<and> buf_wf b' \<and> contents b' = contents b \<and>
            int n \<le> getFreeSize b' \<and> capacity b \<le> capacity b' \<and> max_capacity b' = max_capacity b"
  then obtain b' where b': "ensureInsert b (int n) j = Ok b'" "buf_wf b'" "contents b' = contents b"
      "int n \<le> getFreeSize b'" "capacity b \<le> capacity b'" "max_capacity b' = max_capacity b" by blast
  have "max_capacity (ring_put b' src n) = max_capacity b' \<and> capacity (ring_put b' src n) = capacity b'"
    by (simp add: ring_put_def split_beta)
  with b' assms show ?thesis
    using ring_put_wf [of b' n src] contents_ring_put [of b' n src]
    by (simp add: WriteToBuffer_def)
  qed (use assms(2) in \<open>simp add: WriteToBuffer_def\<close>)
qed

section \<open>Sending\<close>

text \<open>The contiguous run of bytes one \<^verbatim>\<open>write\<close> is offered is a prefix of the queue.\<close>

lemma cur_send_len_bounds:
  assumes "buf_wf b" "0 < GetUnreadSize b"
  shows "0 < cur_send_len b \<and> cur_send_len b \<le> GetUnreadSize b \<and>
         read_index b + cur_send_len b \<le> data_size b"
  using assms by (auto simp: buf_wf_def cur_send_len_def GetUnreadSize_def split: if_splits)

lemma offered_bytes:
  assumes "buf_wf b" "0 < GetUnreadSize b" "int m \<le> cur_send_len b"
  shows "take m (drop (nat (read_index b)) (buf_data b)) = take m (contents b)"
proof (rule nth_equalityI)
  note cl = cur_send_len_bounds [OF assms(1,2)]
  show "length (take m (drop (nat (read_index b)) (buf_data b))) = length (take m (contents b))"
    using assms cl by (auto simp: buf_wf_def min_def)
  fix i
  assume "i < length (take m (drop (nat (read_index b)) (buf_data b)))"
  then have i: "i < m" by simp
  with assms cl have "(read_index b + int i) mod data_size b = read_index b + int i"
    by (intro mod_pos_pos_trivial) (auto simp: buf_wf_def)
  moreover have "nat (read_index b + int i) = nat (read_index b) + i"
    using assms(1) by (simp add: buf_wf_def nat_add_distrib)
  moreover have "nat (read_index b) \<le> length (buf_data b)"
    using assms(1) by (auto simp: buf_wf_def)
  moreover have "i < nat (GetUnreadSize b)"
    using i assms(3) cl by linarith
  ultimately show "take m (drop (nat (read_index b)) (buf_data b)) ! i = take m (contents b) ! i"
    using i by (simp add: nth_contents)
qed

lemma advance_read_small:
  assumes "buf_wf b" "data_size b < 2 ^ 31" "0 \<le> m" "m \<le> data_size b"
  shows "advance_read b (word_of_int m) =
         b\<lparr>read_index := (read_index b + m) mod data_size b\<rparr>"
proof -
  have bounds: "0 \<le> read_index b" "read_index b < data_size b" "0 < data_size b"
    using assms(1) by (simp_all add: buf_wf_def)
  have "uint ((word_of_int (read_index b) + word_of_int m) mod word_of_int (data_size b) :: size_t) =
        (read_index b + m) mod data_size b"
    using bounds assms(2-4) by (simp add: uint_mod uint_word_of_int take_bit_eq_mod
        flip: of_int_add)
  moreover have "0 \<le> (read_index b + m) mod data_size b" "(read_index b + m) mod data_size b < data_size b"
    using bounds(3) by simp_all
  ultimately show ?thesis
    using assms(2) by (simp add: advance_read_def to_int32_id)
qed


text \<open>One successful \<^verbatim>\<open>write\<close> moves a prefix of the queue to the socket.\<close>

lemma send_step:
  fixes n :: nat
  assumes "buf_wf b" "data_size b < 2 ^ 31" "0 < GetUnreadSize b"
  defines "m \<equiv> min n (nat (cur_send_len b))"
  shows "buf_wf (advance_read b (of_nat m)) \<and>
         contents b = accepted b (Accept n) @ contents (advance_read b (of_nat m)) \<and>
         length (accepted b (Accept n)) = m \<and> data_size (advance_read b (of_nat m)) = data_size b"
proof -
  note cl = cur_send_len_bounds [OF assms(1,3)]
  have m: "int m \<le> cur_send_len b" "int m \<le> GetUnreadSize b" "int m \<le> data_size b"
    using cl assms(1) by (auto simp: m_def buf_wf_def)
  have adv: "advance_read b (of_nat m) = b\<lparr>read_index := (read_index b + int m) mod data_size b\<rparr>"
    using advance_read_small [OF assms(1,2), of "int m"] m by simp
  have acc: "accepted b (Accept n) = take m (contents b)"
    using offered_bytes [OF assms(1,3) m(1)] by (simp add: accepted_def m_def)
  have "min (nat (GetUnreadSize b)) m = m"
    using m(2) by simp
  with contents_drop [OF assms(1) m(2)] show ?thesis
    by (simp add: adv acc)
qed

definition takes_data :: "wr_resp \<Rightarrow> bool" where
  "takes_data r = (case r of Accept n \<Rightarrow> 0 < n | WFail _ \<Rightarrow> False)"

lemma sys_write_Accept:
  assumes "0 < n" "0 < len" "len < 2 ^ 31"
  shows "sys_write (Accept n) len e = (of_nat (min n (nat len)), e) \<and>
         (of_nat (min n (nat len)) :: size_t) \<noteq> 0 \<and> uint (of_nat (min n (nat len)) :: size_t) = int (min n (nat len))"
proof -
  have "(word_of_int (min (int n) len) :: size_t) = of_nat (min n (nat len))"
    using assms(2) by (auto simp: min_def nat_le_iff le_nat_iff)
  moreover have "uint (of_nat (min n (nat len)) :: size_t) = int (min n (nat len))"
    using assms by (simp add: uint_word_of_int take_bit_eq_mod unsigned_of_nat take_bit_nat_eq_self_iff min_def)
  ultimately show ?thesis
    using assms by (auto simp: sys_write_def simp flip: uint_0_iff)
qed

lemma WriteToSock_loop_accepts:
  assumes "buf_wf b" "data_size b < 2 ^ 31" "list_all takes_data rsps"
    "0 \<le> tot" "tot + GetUnreadSize b < 2 ^ 31"
  shows "(WriteToSock_loop rsps e tot sent b = Spin \<and> length rsps < nat (GetUnreadSize b)) \<or>
    (\<exists>out b' rest. WriteToSock_loop rsps e tot sent b = Ok (tot + int (length out), sent @ out, b', rest) \<and>
       contents b = out \<and> contents b' = [] \<and> buf_wf b' \<and> data_size b' = data_size b)"
  using assms
proof (induction rsps arbitrary: tot sent b)
  case Nil
  then show ?case
    using unread_bounds [of b]
    by (cases "0 < GetUnreadSize b") (auto simp: WriteToSock_loop.simps [of "[]"] simp flip: length_0_conv)
next
  case (Cons r rs)
  show ?case
  proof (cases "0 < GetUnreadSize b")
    case False
    with Cons.prems(1) unread_bounds [of b] show ?thesis
      by (auto simp: WriteToSock_loop.simps [of "r # rs"] simp flip: length_0_conv)
  next
    case True
    from Cons.prems(3) obtain n where r: "r = Accept n" "0 < n" and rs: "list_all takes_data rs"
      by (cases r) (auto simp: takes_data_def [of "Accept _"] takes_data_def [of "WFail _"])
    let ?m = "min n (nat (cur_send_len b))" and ?b = "advance_read b (of_nat (min n (nat (cur_send_len b))))"
    note cl = cur_send_len_bounds [OF Cons.prems(1) True]
    note st = send_step [OF Cons.prems(1,2) True, of n]
    have u: "GetUnreadSize ?b = GetUnreadSize b - int ?m"
    proof -
      have "nat (GetUnreadSize b) = ?m + nat (GetUnreadSize ?b)"
        using st by (metis length_append length_contents)
      moreover have "0 \<le> GetUnreadSize ?b" using st unread_bounds [of ?b] by blast
      ultimately show ?thesis using True by linarith
    qed
    have m: "0 < ?m" using r cl by simp
    have small: "cur_send_len b < 2 ^ 31"
      using cl Cons.prems(1,2) by (auto simp: buf_wf_def)
    have sw: "sys_write r (cur_send_len b) e = (of_nat ?m, e)" "(of_nat ?m :: size_t) \<noteq> 0"
        "uint (of_nat ?m :: size_t) = int ?m"
      using sys_write_Accept [of n "cur_send_len b" e] r cl small by auto
    have tot: "to_int32 (tot + int ?m) = tot + int ?m"
      using Cons.prems(4,5) cl by (intro to_int32_id) auto
    have eq: "WriteToSock_loop (r # rs) e tot sent b =
        WriteToSock_loop rs e (tot + int ?m) (sent @ accepted b r) ?b"
      using True sw tot by (simp add: WriteToSock_loop.simps [of "r # rs"])
    have "tot + int ?m + GetUnreadSize ?b < 2 ^ 31" using u Cons.prems(5) by simp
    from Cons.IH [OF _ _ rs _ this, of "sent @ accepted b r"] st Cons.prems
    have IH: "(WriteToSock_loop rs e (tot + int ?m) (sent @ accepted b r) ?b = Spin \<and>
           length rs < nat (GetUnreadSize ?b)) \<or>
       (\<exists>out b' rest. WriteToSock_loop rs e (tot + int ?m) (sent @ accepted b r) ?b =
          Ok (tot + int ?m + int (length out), (sent @ accepted b r) @ out, b', rest) \<and>
          contents ?b = out \<and> contents b' = [] \<and> buf_wf b' \<and> data_size b' = data_size b)"
      by auto
    then show ?thesis
    proof
      assume "WriteToSock_loop rs e (tot + int ?m) (sent @ accepted b r) ?b = Spin \<and>
           length rs < nat (GetUnreadSize ?b)"
      with eq u m show ?thesis by auto
    next
      assume "\<exists>out b' rest. WriteToSock_loop rs e (tot + int ?m) (sent @ accepted b r) ?b =
          Ok (tot + int ?m + int (length out), (sent @ accepted b r) @ out, b', rest) \<and>
          contents ?b = out \<and> contents b' = [] \<and> buf_wf b' \<and> data_size b' = data_size b"
      with eq st r(1) show ?thesis by auto
    qed
  qed
qed

lemma WriteToSock_accepts:
  assumes "buf_wf b" "data_size b < 2 ^ 31" "list_all takes_data rsps"
    and "nat (GetUnreadSize b) \<le> length rsps"
  shows "\<exists>b' rest. WriteToSock rsps e b = Ok (of_nat (length (contents b)), contents b, b', rest) \<and>
           contents b' = [] \<and> buf_wf b'"
proof -
  have "0 + GetUnreadSize b < 2 ^ 31"
    using assms(1,2) unread_bounds [of b] by (auto simp: buf_wf_def)
  from WriteToSock_loop_accepts [OF assms(1-3) _ this, of e "[]"] assms(4) show ?thesis
    by (fastforce simp: WriteToSock_def)
qed

section \<open>A failing write\<close>

lemma uint_size_t_mod:
  "0 \<le> a \<Longrightarrow> a < 2 ^ 64 \<Longrightarrow> 0 < d \<Longrightarrow> d < 2 ^ 64 \<Longrightarrow>
   uint (word_of_int a mod word_of_int d :: size_t) = a mod d"
  by (simp add: uint_mod uint_word_of_int take_bit_eq_mod)

lemma advance_read_fail:
  assumes "buf_wf b" "data_size b < 2 ^ 31" "0 < read_index b"
  shows "advance_read b (-1) = b\<lparr>read_index := read_index b - 1\<rparr>"
proof -
  have bounds: "0 < read_index b" "read_index b < data_size b"
    using assms(1,3) by (simp_all add: buf_wf_def)
  have "(word_of_int (read_index b) + - 1 :: size_t) = word_of_int (read_index b - 1)"
    by simp
  then have "uint ((word_of_int (read_index b) + - 1) mod word_of_int (data_size b) :: size_t) =
        (read_index b - 1) mod data_size b"
    using uint_size_t_mod [of "read_index b - 1" "data_size b"] bounds assms(2) by simp
  also have "\<dots> = read_index b - 1" using bounds by simp
  finally show ?thesis
    using bounds assms(2) by (simp add: advance_read_def to_int32_id)
qed

lemma contents_rewind:
  assumes "buf_wf b" "0 < read_index b"
  shows "contents (b\<lparr>read_index := read_index b - 1\<rparr>) =
    (if GetUnreadSize b < capacity b then buf_data b ! nat (read_index b - 1) # contents b else [])"
proof -
  let ?b = "b\<lparr>read_index := read_index b - 1\<rparr>"
  have wf: "buf_wf ?b" using assms by (simp add: buf_wf_def)
  have u: "GetUnreadSize ?b = (if GetUnreadSize b < capacity b then GetUnreadSize b + 1 else 0)"
    using assms by (auto simp: GetUnreadSize_def buf_wf_def)
  show ?thesis
  proof (cases "GetUnreadSize b < capacity b")
    case True
    have "nat (GetUnreadSize ?b) = Suc (nat (GetUnreadSize b))"
      using u True unread_bounds [OF assms(1)] by simp
    moreover have "(read_index b - 1) mod data_size b = read_index b - 1"
      using assms by (simp add: buf_wf_def)
    moreover have "read_index b - 1 + (1 + int i) = read_index b + int i" for i by simp
    ultimately show ?thesis
      using True by (simp add: contents_def map_upt_Suc del: upt_Suc)
  next
    case False
    with u show ?thesis by (simp add: contents_def)
  qed
qed

lemma WriteToBuffer_refuses:
  assumes "0 < n" "getFreeSize b < int n" "max_capacity b < capacity b + int n"
  shows "WriteToBuffer b src (int n) j = Ok (0, b)"
  using assms by (simp add: WriteToBuffer_def ensureInsert_def Let_def)

lemma advance_read_wf:
  assumes "buf_wf b" "data_size b < 2 ^ 31"
  shows "buf_wf (advance_read b n) \<and> max_capacity (advance_read b n) = max_capacity b \<and>
         data_size (advance_read b n) = data_size b"
proof -
  let ?x = "uint ((word_of_int (read_index b) + n) mod word_of_int (data_size b) :: size_t)"
  have pos: "0 < data_size b" using assms(1) by (auto simp: buf_wf_def)
  have d: "uint (word_of_int (data_size b) :: size_t) = data_size b"
    using pos assms(2) by (simp add: unsigned_of_int take_bit_int_eq_self)
  have "?x = uint (word_of_int (read_index b) + n) mod data_size b"
    by (simp only: uint_mod d)
  then have r: "0 \<le> ?x" "?x < data_size b" using pos by simp_all
  then have "to_int32 ?x = ?x" using assms(2) by (intro to_int32_id) linarith+
  with r show ?thesis using assms(1) by (simp add: buf_wf_def advance_read_def)
qed

lemma WriteToSock_loop_wf:
  "buf_wf b \<Longrightarrow> data_size b < 2 ^ 31 \<Longrightarrow>
   safe (\<lambda>(n, sent, b', rest). buf_wf b' \<and> max_capacity b' = max_capacity b) (WriteToSock_loop rsps e t acc b)"
proof (induction rsps e t acc b rule: WriteToSock_loop.induct)
  case (1 rsps e t acc b)
  show ?case
  proof (cases "GetUnreadSize b > 0")
    case False
    then show ?thesis using "1.prems" by (simp add: WriteToSock_loop.simps)
  next
    case unread: True
    show ?thesis
    proof (cases rsps)
      case Nil
      then show ?thesis using unread by (simp add: WriteToSock_loop.simps)
    next
      case (Cons rsp rsps')
      obtain w e' where w: "sys_write rsp (cur_send_len b) e = (w, e')" by fastforce
      note adv = advance_read_wf [OF "1.prems", of w]
      show ?thesis
        using "1.IH"(1) [OF unread Cons w [symmetric] refl] "1.IH"(2) [OF unread Cons w [symmetric] refl] adv "1.prems"
        by (subst WriteToSock_loop.simps) (simp add: unread Cons w)
    qed
  qed
qed

lemma WriteToSock_wf:
  assumes "buf_wf b" "data_size b < 2 ^ 31"
  shows "safe (\<lambda>(n, sent, b', rest). buf_wf b' \<and> max_capacity b' = max_capacity b) (WriteToSock rsps e b)"
  unfolding WriteToSock_def by (rule safe_bind [OF WriteToSock_loop_wf [OF assms]]) auto

section \<open>The queue contract\<close>

datatype queue_op = OpWrite "byte list" | OpRead nat

text \<open>Runs operations; collects the byte strings accepted and the byte strings handed out.\<close>

fun run_ops ::
    "('q \<Rightarrow> byte list \<Rightarrow> 'q option) \<Rightarrow> ('q \<Rightarrow> nat \<Rightarrow> (byte list \<times> 'q) option) \<Rightarrow>
     queue_op list \<Rightarrow> 'q \<Rightarrow> byte list list \<times> byte list list \<times> 'q" where
  "run_ops wr rd [] q = ([], [], q)"
| "run_ops wr rd (OpWrite bs # ops) q =
     (case wr q bs of
        None \<Rightarrow> run_ops wr rd ops q
      | Some q' \<Rightarrow> (let (ins, outs, q'') = run_ops wr rd ops q' in (bs # ins, outs, q'')))"
| "run_ops wr rd (OpRead n # ops) q =
     (case rd q n of
        None \<Rightarrow> run_ops wr rd ops q
      | Some (bs, q') \<Rightarrow> (let (ins, outs, q'') = run_ops wr rd ops q' in (ins, bs # outs, q'')))"

locale byte_queue =
  fixes wr :: "'q \<Rightarrow> byte list \<Rightarrow> 'q option"
    and rd :: "'q \<Rightarrow> nat \<Rightarrow> (byte list \<times> 'q) option"
    and abs :: "'q \<Rightarrow> byte list"
    and invar :: "'q \<Rightarrow> bool"
  assumes wr_ok: "invar q \<Longrightarrow> wr q bs = Some q' \<Longrightarrow> invar q' \<and> abs q' = abs q @ bs"
    and rd_ok: "invar q \<Longrightarrow> n \<le> length (abs q) \<Longrightarrow>
      \<exists>q'. rd q n = Some (take n (abs q), q') \<and> invar q' \<and> abs q' = drop n (abs q)"
    and rd_short: "invar q \<Longrightarrow> length (abs q) < n \<Longrightarrow> rd q n = None"
begin

lemma rd_Some:
  "invar q \<Longrightarrow> rd q n = Some (bs, q') \<Longrightarrow> invar q' \<and> abs q = bs @ abs q'"
  using rd_ok [of q n] rd_short [of q n] by (cases "n \<le> length (abs q)") auto

text \<open>First in, first out: what was in the queue and what was accepted comes out in order.\<close>

lemma run_ops_fifo:
  "invar q \<Longrightarrow> run_ops wr rd ops q = (ins, outs, q') \<Longrightarrow>
   invar q' \<and> abs q @ concat ins = concat outs @ abs q'"
proof (induction ops arbitrary: q ins outs)
  case Nil
  then show ?case by simp
next
  case (Cons p ops)
  show ?case
  proof (cases p)
    case (OpWrite bs)
    with Cons show ?thesis
      by (fastforce split: option.splits prod.splits dest: wr_ok)
  next
    case (OpRead n)
    with Cons show ?thesis
      by (fastforce split: option.splits prod.splits dest: rd_Some)
  qed
qed

end

definition ring_wr :: "junk \<Rightarrow> buffer \<Rightarrow> byte list \<Rightarrow> buffer option" where
  "ring_wr j b bs =
     (if length bs \<ge> 2 ^ 31 then None
      else case WriteToBuffer b bs (int (length bs)) j of
        Ok (n, b') \<Rightarrow> if n = of_nat (length bs) then Some b' else None
      | _ \<Rightarrow> None)"

definition ring_rd :: "buffer \<Rightarrow> nat \<Rightarrow> (byte list \<times> buffer) option" where
  "ring_rd b n =
     (case buf_read b (replicate n 0) (int n) of
        (ret, dst, b') \<Rightarrow> if ret = -1 then None else Some (dst, b'))"

definition ring_invar :: "buffer \<Rightarrow> bool" where
  "ring_invar b \<longleftrightarrow> buf_wf b \<and> max_capacity b < 2 ^ 31"

lemma ring_wr_ok:
  assumes "ring_invar b" "ring_wr j b bs = Some b'"
  shows "ring_invar b' \<and> contents b' = contents b @ bs"
proof (cases "bs = []")
  case True
  with assms show ?thesis by (simp add: ring_wr_def WriteToBuffer_def)
next
  case False
  then have len: "0 < length bs" by simp
  have "(of_nat (length bs) :: size_t) \<noteq> 0" if "length bs < 2 ^ 31"
    using that len of_nat_size_t_eq_iff [of "length bs" 0] by simp
  with WriteToBuffer_spec [OF _ len, of b bs j] assms show ?thesis
    by (auto simp: ring_wr_def ring_invar_def split: if_splits)
qed

lemma ring_rd_ok:
  assumes "ring_invar b" "n \<le> length (contents b)"
  shows "\<exists>b'. ring_rd b n = Some (take n (contents b), b') \<and> ring_invar b' \<and>
              contents b' = drop n (contents b)"
proof (cases "n = 0")
  case True
  with assms show ?thesis by (simp add: ring_rd_def buf_read_def)
next
  case False
  have wf: "buf_wf b" and small: "n < 2 ^ 31"
    using assms unread_bounds [of b] by (auto simp: ring_invar_def buf_wf_def)
  have n: "int n \<le> GetUnreadSize b"
    using assms(2) False by simp
  have "(of_nat n :: size_t) \<noteq> - 1"
  proof
    assume "(of_nat n :: size_t) = - 1"
    then have "unat (of_nat n :: size_t) = unat (- 1 :: size_t)" by simp
    with small show False by (simp add: unsigned_of_nat take_bit_nat_eq_self unsigned_minus_1_eq_mask mask_eq_exp_minus_1)
  qed
  with buf_read_spec [OF wf _ n, of "replicate n 0"] contents_drop [OF wf n] False assms(1) show ?thesis
    by (simp add: ring_rd_def ring_invar_def)
qed

lemma ring_rd_short: "ring_invar b \<Longrightarrow> length (contents b) < n \<Longrightarrow> ring_rd b n = None"
  by (auto simp: ring_rd_def buf_read_def)

interpretation ring: byte_queue "ring_wr j" ring_rd contents ring_invar
  by unfold_locales (simp_all add: ring_wr_ok ring_rd_ok ring_rd_short)


lemma buf_wf_new: "0 \<le> cap \<Longrightarrow> buf_wf (Buffer_new j cap max_cap) \<and> contents (Buffer_new j cap max_cap) = []"
  by (simp add: buf_wf_def Buffer_new_def contents_def GetUnreadSize_def)

lemma buffer_arith_in_int_range:
  assumes "buf_wf b" "max_capacity b < 2 ^ 30" "0 < n" "n \<le> 2 ^ 30" "0 \<le> i" "i \<le> n"
  shows "capacity b + n < 2 ^ 31 \<and> capacity b * 2 < 2 ^ 31 \<and>
         read_index b + i < 2 ^ 31 \<and> write_index b + i < 2 ^ 31 \<and>
         (\<forall>c \<le> max_capacity b. c + c div 4 < 2 ^ 31)"
  using assms by (auto simp: buf_wf_def)

text \<open>A small wrapped-around buffer for the concrete instances below.\<close>

definition wrapped_buffer :: buffer where
  "wrapped_buffer = \<lparr>capacity = 3, data_size = 4, max_capacity = 8, buf_data = [5, 2, 3, 4],
     read_index = 2, write_index = 1\<rparr>"

lemmas buf_eval = ring_wr_def ring_rd_def Buffer_new_def WriteToBuffer_def ensureInsert_def
  getFreeSize_def GetUnreadSize_def ring_put_def ring_write_loop.simps buf_read_def
  ring_read_loop.simps fresh_def upt_rec buf_wf_def contents_def

section \<open>Properties\<close>



text \<open>\<^verbatim>\<open>WriteToBuffer\<close> either appends all bytes and returns their number, keeping the buffer
  well-formed within its maximal capacity, or returns 0 and changes nothing; it refuses exactly
  when the free space is too small and the current capacity plus the request exceeds the maximum.\<close>
theorem WriteToBuffer_all_or_nothing:
  assumes "buf_wf b" "0 < n" "n \<le> length src"
  shows "if getFreeSize b < int n \<and> max_capacity b < capacity b + int n
         then WriteToBuffer b src (int n) j = Ok (0, b)
         else (\<exists>b'. WriteToBuffer b src (int n) j = Ok (of_nat n, b') \<and> buf_wf b' \<and>
                 contents b' = contents b @ take n src \<and> max_capacity b' = max_capacity b)"
proof (cases "getFreeSize b < int n \<and> max_capacity b < capacity b + int n")
  case True
  with assms(2) have "ensureInsert b (int n) j = Throw"
    by (simp add: ensureInsert_def Let_def)
  with True assms(2) show ?thesis by (simp add: WriteToBuffer_def)
next
  case False
  with WriteToBuffer_spec [OF assms, of j] show ?thesis by auto
qed

theorem WriteToBuffer_all_or_nothing_witness:
  "(\<exists>b'. WriteToBuffer (Buffer_new (\<lambda>_. 0) 1 4) [7, 8, 9] (int 3) (\<lambda>_. 0) = Ok (of_nat 3, b') \<and>
      buf_wf b' \<and> contents b' = [7, 8, 9]) \<and>
   WriteToBuffer (Buffer_new (\<lambda>_. 0) 1 4) [7, 8, 9, 1] (int 4) (\<lambda>_. 0) =
     Ok (0, Buffer_new (\<lambda>_. 0) 1 4)"
proof -
  let ?b = "Buffer_new (\<lambda>_. 0) 1 4"
  have wf: "buf_wf ?b" "contents ?b = []" using buf_wf_new by simp_all
  have sizes: "getFreeSize ?b = 1" "max_capacity ?b = 4" "capacity ?b = 1"
    by (simp_all add: buf_eval)
  show ?thesis
    using WriteToBuffer_all_or_nothing [OF wf(1), of 3 "[7, 8, 9]" "\<lambda>_. 0"]
      WriteToBuffer_all_or_nothing [OF wf(1), of 4 "[7, 8, 9, 1]" "\<lambda>_. 0"] wf(2) sizes
    by (auto simp del: of_nat_numeral)
qed

text \<open>C31. \<^verbatim>\<open>WriteToSock\<close> on a socket that keeps accepting data (any positive amount per call) sends
  exactly the queued bytes in order, leaves the buffer empty and returns their number.\<close>
theorem WriteToSock_drains:
  assumes "buf_wf b" "data_size b < 2 ^ 31" "list_all takes_data rsps"
    and "nat (GetUnreadSize b) \<le> length rsps"
  shows "\<exists>b' rest. WriteToSock rsps e b = Ok (of_nat (length (contents b)), contents b, b', rest) \<and>
           contents b' = [] \<and> buf_wf b'"
  using assms by (rule WriteToSock_accepts)

theorem WriteToSock_drains_witness:
  "\<exists>b' rest. WriteToSock [Accept 1, Accept 9, Accept 1] EAGAIN wrapped_buffer =
     Ok (of_nat 3, [3, 4, 5], b', rest) \<and> contents b' = [] \<and> buf_wf b'"
proof -
  have w: "buf_wf wrapped_buffer" "data_size wrapped_buffer < 2 ^ 31"
      "contents wrapped_buffer = [3, 4, 5]" "nat (GetUnreadSize wrapped_buffer) = 3"
    by (simp_all add: wrapped_buffer_def buf_eval)
  then show ?thesis
    using WriteToSock_drains [OF w(1,2), of "[Accept 1, Accept 9, Accept 1]" EAGAIN]
    by (simp add: takes_data_def)
qed

text \<open>C32. A failing \<^verbatim>\<open>write\<close> is not recognised as a failure: whatever \<^verbatim>\<open>errno\<close> says
  (\<^verbatim>\<open>EAGAIN\<close> included), the loop goes on with the read index one position back and a total one too
  small, so a byte already sent is queued again in front of the rest; when the buffer is full it
  is treated as empty and all queued bytes are dropped.\<close>
theorem WriteToSock_failed_write_rewinds:
  assumes "buf_wf b" "data_size b < 2 ^ 31" "0 < read_index b" "0 < GetUnreadSize b"
    and "0 \<le> tot" "tot < 2 ^ 31"
  shows "WriteToSock_loop (WFail err # rsps) e tot sent b =
           WriteToSock_loop rsps err (tot - 1) sent (b\<lparr>read_index := read_index b - 1\<rparr>) \<and>
         contents (b\<lparr>read_index := read_index b - 1\<rparr>) =
           (if GetUnreadSize b < capacity b
            then buf_data b ! nat (read_index b - 1) # contents b else [])"
proof -
  have "to_int32 (tot + uint (- 1 :: size_t)) = tot - 1"
  proof -
    have "(tot + uint (- 1 :: size_t) + 2 ^ 31) mod 2 ^ 32 = (tot - 1 + 2 ^ 31 + 2 ^ 32 * 2 ^ 32) mod 2 ^ 32"
      by (simp add: unsigned_minus_1_eq_mask mask_eq_exp_minus_1 algebra_simps)
    also have "\<dots> = (tot - 1 + 2 ^ 31) mod 2 ^ 32"
      by (simp only: mod_mult_self2)
    finally show ?thesis
      using to_int32_id [of "tot - 1"] assms(5,6) by (simp add: to_int32_def)
  qed
  then show ?thesis
    using assms(4) advance_read_fail [OF assms(1-3)] contents_rewind [OF assms(1,3)]
    by (simp add: WriteToSock_loop.simps [of "WFail err # rsps"] sys_write_def accepted_def)
qed

theorem WriteToSock_failed_write_rewinds_witness:
  "let b = wrapped_buffer\<lparr>write_index := 3\<rparr> in
   WriteToSock_loop (WFail EAGAIN # [Accept 5]) EINTR 0 [] b =
     WriteToSock_loop [Accept 5] EAGAIN (-1) [] (b\<lparr>read_index := 1\<rparr>) \<and>
   contents b = [3] \<and> contents (b\<lparr>read_index := 1\<rparr>) = [2, 3]"
proof -
  let ?b = "wrapped_buffer\<lparr>write_index := 3\<rparr>"
  have b: "buf_wf ?b" "data_size ?b < 2 ^ 31" "0 < read_index ?b" "0 < GetUnreadSize ?b"
      "contents ?b = [3]" "GetUnreadSize ?b < capacity ?b" "read_index ?b = 2"
      "buf_data ?b ! nat (read_index ?b - 1) = 2"
    by (simp_all add: wrapped_buffer_def buf_eval)
  show ?thesis
    using WriteToSock_failed_write_rewinds [OF b(1-4), of 0 EAGAIN "[Accept 5]" EINTR "[]"] b(5-8)
    by (simp add: Let_def)
qed

end
