(* ===== verification/CProxy_Util.thy ===== *)
theory CProxy_Util
  imports CProxy_Prelude
begin

text \<open>
  The helpers of \<^verbatim>\<open>lib/Util.cpp\<close>: socket set-up, exact reads and best-effort writes on a
  descriptor, random identifiers and the parser of \<^verbatim>\<open>host:port\<close> options. What the kernel answers
  is an argument of each definition.
\<close>

section \<open>Sockets\<close>

datatype sys_call =
    Socket
  | SetSockOpt int
  | Bind int "16 word"
  | Listen int int
  | Connect int "32 word" "16 word"
  | Fcntl int
  | Close int

text \<open>The results of the calls of \<^verbatim>\<open>socketBindListen\<close>, in the order it makes them.\<close>

record listen_env =
  socket_ret :: int
  setsockopt_ret :: int
  bind_ret :: int
  listen_ret :: int

definition socketBindListen :: "listen_env \<Rightarrow> int \<Rightarrow> int \<times> sys_call list" where
  "socketBindListen env port =
     (if port < 0 \<or> port > 65535 then (-1, [])
      else let listen_fd = socket_ret env
           in if listen_fd < 0 then (-1, [Socket])
              else if setsockopt_ret env < 0
              then (-1, [Socket, SetSockOpt listen_fd, Close listen_fd])
              else if bind_ret env < 0
              then (-1, [Socket, SetSockOpt listen_fd, Bind listen_fd (word_of_int port), Close listen_fd])
              else if listen_ret env < 0
              then (-1, [Socket, SetSockOpt listen_fd, Bind listen_fd (word_of_int port),
                         Listen listen_fd 2048, Close listen_fd])
              else (listen_fd, [Socket, SetSockOpt listen_fd, Bind listen_fd (word_of_int port),
                                Listen listen_fd 2048]))"

datatype sig_action = SigDefault | SigIgnore

definition ignoreSigpipe :: "(nat \<Rightarrow> sig_action) \<Rightarrow> nat \<Rightarrow> sig_action" where
  "ignoreSigpipe acts = acts(13 := SigIgnore)"

text \<open>
  \<^verbatim>\<open>O_NONBLOCK\<close> is \<^verbatim>\<open>04000\<close> on Linux. \<open>getfl\<close> is the result of \<^verbatim>\<open>F_GETFL\<close> (the flags, or \<open>-1\<close>); the
  second component is the flag word \<^verbatim>\<open>F_SETFL\<close> put in force, if it did.
\<close>

definition setfdNonBlock :: "int \<Rightarrow> int \<Rightarrow> int \<times> int option" where
  "setfdNonBlock getfl setfl_ret =
     (if getfl = -1 then (-1, None)
      else let flag = getfl OR 2048
           in if setfl_ret = -1 then (-1, None) else (0, Some flag))"

record connect_env =
  inet_addr_ret :: "32 word"
  gethostbyname_ret :: "32 word option"
  csocket_ret :: int
  connect_ret :: int

definition INADDR_NONE :: "32 word" where
  "INADDR_NONE = -1"

text \<open>The trailing \<^verbatim>\<open>setfdNonBlock\<close> only logs on failure; it never changes the returned descriptor.\<close>

definition tcp_connect :: "connect_env \<Rightarrow> 32 word \<Rightarrow> int \<times> sys_call list" where
  "tcp_connect env server_port =
     (case (if inet_addr_ret env = INADDR_NONE then gethostbyname_ret env
            else Some (inet_addr_ret env)) of
        None \<Rightarrow> (-1, [])
      | Some s_addr \<Rightarrow>
          (let sock_fd = csocket_ret env
           in if sock_fd < 0 then (sock_fd, [Socket])
              else if connect_ret env < 0
              then (-1, [Socket, Connect sock_fd s_addr (ucast server_port), Close sock_fd])
              else (sock_fd, [Socket, Connect sock_fd s_addr (ucast server_port), Fcntl sock_fd])))"

definition opened :: "sys_call list \<Rightarrow> nat" where
  "opened cs = length (filter (\<lambda>c. c = Socket) cs)"

definition closed :: "int \<Rightarrow> sys_call list \<Rightarrow> nat" where
  "closed fd cs = length (filter (\<lambda>c. c = Close fd) cs)"

section \<open>Reading and writing a descriptor\<close>

text \<open>
  \<^verbatim>\<open>readn\<close> loops over \<^verbatim>\<open>read\<close>. An empty chunk carries no byte and is skipped; the end of the
  stream stays in the queue, later reads see it again.
\<close>

function readn_loop ::
    "rx_event list \<Rightarrow> int \<Rightarrow> byte list \<Rightarrow> bool \<Rightarrow>
     (int option \<times> byte list \<times> bool \<times> rx_event list) outcome" where
  "readn_loop q len_left acc bufferEmpty =
     (if len_left > 0
      then case q of
             [] \<Rightarrow> Spin
           | Chunk bs # q' \<Rightarrow>
               (if bs = [] then readn_loop q' len_left acc bufferEmpty
                else let readNum = min (length bs) (nat len_left);
                         q'' = (if readNum < length bs then Chunk (drop readNum bs) # q' else q')
                     in readn_loop q'' (len_left - int readNum) (acc @ take readNum bs) bufferEmpty)
           | Eof # q' \<Rightarrow> Ok (Some len_left, acc, True, q)
           | RFail e # q' \<Rightarrow>
               (if e = EINTR \<or> e = EAGAIN then readn_loop q' len_left acc bufferEmpty
                else Ok (None, acc, bufferEmpty, q'))
      else Ok (Some len_left, acc, bufferEmpty, q))"
  by pat_completeness auto
termination
  by (relation "measure (\<lambda>(q, l, acc, be). length q + nat l)") (auto simp: Let_def min_def neq_Nil_conv split: if_splits)

declare readn_loop.simps [simp del]

text \<open>Return value, bytes stored from the start of the caller's buffer, \<^verbatim>\<open>bufferEmpty\<close>, what is left.\<close>

definition readn ::
    "rx_event list \<Rightarrow> size_t \<Rightarrow> bool \<Rightarrow> (size_t \<times> byte list \<times> bool \<times> rx_event list) outcome" where
  "readn q sz bufferEmpty =
     bind_outcome (readn_loop q (to_int32 (uint sz)) [] bufferEmpty)
       (\<lambda>(left, acc, be, q'). Ok (case left of None \<Rightarrow> -1 | Some l \<Rightarrow> sz - word_of_int l, acc, be, q'))"

text \<open>
  \<^verbatim>\<open>writen\<close> keeps the result of \<^verbatim>\<open>write\<close> in a \<^verbatim>\<open>size_t\<close>, so \<open>-1\<close> is not recognised: the pointer
  moves one byte back and the remaining length grows by one.
\<close>

fun writen_loop ::
    "wr_resp list \<Rightarrow> errno \<Rightarrow> byte list \<Rightarrow> int \<Rightarrow> size_t \<Rightarrow> byte list \<Rightarrow> (size_t option \<times> byte list) outcome" where
  "writen_loop rsps e buf pos len_left sent =
     (if len_left = 0 then Ok (Some len_left, sent)
      else case rsps of
             [] \<Rightarrow> Spin
           | rsp # rsps' \<Rightarrow>
               (if pos < 0 \<or> pos + uint len_left > int (length buf) then Ub Overread
                else case rsp of
                       WFail e' \<Rightarrow> writen_loop rsps' e' buf (pos - 1) (len_left + 1) sent
                     | Accept n \<Rightarrow>
                         (let writeNum = min n (unat len_left)
                          in if writeNum = 0
                             then (if e = EINTR then writen_loop rsps' e buf pos len_left sent
                                   else if e = EAGAIN then Ok (Some len_left, sent)
                                   else Ok (None, sent))
                             else writen_loop rsps' e buf (pos + int writeNum)
                                    (len_left - of_nat writeNum)
                                    (sent @ take writeNum (drop (nat pos) buf)))))"

declare writen_loop.simps [simp del]

definition writen ::
    "wr_resp list \<Rightarrow> errno \<Rightarrow> byte list \<Rightarrow> size_t \<Rightarrow> (size_t \<times> byte list) outcome" where
  "writen rsps e buf sz =
     bind_outcome (writen_loop rsps e buf 0 sz [])
       (\<lambda>(left, sent). Ok (case left of None \<Rightarrow> -1 | Some l \<Rightarrow> sz - l, sent))"

section \<open>Random identifiers\<close>

text \<open>\<open>rnd i\<close> is the \<open>i\<close>-th output of the generator seeded in the call.\<close>

definition rand_char :: "nat \<Rightarrow> byte" where
  "rand_char r = (let tmp = r mod 36 in if tmp < 10 then of_nat (tmp + 48) else of_nat (tmp - 10 + 65))"

fun rand_str_loop :: "(nat \<Rightarrow> nat) \<Rightarrow> nat \<Rightarrow> nat \<Rightarrow> cstring \<Rightarrow> cstring" where
  "rand_str_loop rnd i 0 buf = buf"
| "rand_str_loop rnd i (Suc k) buf = rand_str_loop rnd (Suc i) k (buf @ [rand_char (rnd i)])"

definition rand_str :: "(nat \<Rightarrow> nat) \<Rightarrow> int \<Rightarrow> cstring" where
  "rand_str rnd len = rand_str_loop rnd 0 (nat len) []"

text \<open>Drawing ids until one is unused; \<open>rnds\<close> are the successive seeds.\<close>

fun fresh_id :: "(cstring \<Rightarrow> bool) \<Rightarrow> (nat \<Rightarrow> nat) list \<Rightarrow> (cstring \<times> (nat \<Rightarrow> nat) list) outcome" where
  "fresh_id used [] = Spin"
| "fresh_id used (r # rs) = (let i = rand_str r 5 in if used i then fresh_id used rs else Ok (i, rs))"

section \<open>Parsing \<^verbatim>\<open>host:port\<close>\<close>

definition colon :: byte where
  "colon = 58"

text \<open>The tokens \<^verbatim>\<open>strtok(_, ":")\<close> delivers in turn: maximal runs without the delimiter.\<close>

function strtok_all :: "byte list \<Rightarrow> byte list list" where
  "strtok_all s =
     (case dropWhile (\<lambda>c. c = colon) s of
        [] \<Rightarrow> []
      | c # cs \<Rightarrow> takeWhile (\<lambda>c. c \<noteq> colon) (c # cs) # strtok_all (dropWhile (\<lambda>c. c \<noteq> colon) (c # cs)))"
  by pat_completeness auto
termination
proof (relation "measure length")
  fix s c cs
  assume eq: "dropWhile (\<lambda>c. c = colon) s = c # cs"
  then have "c \<noteq> colon"
    by (simp add: dropWhile_eq_Cons_conv)
  then have "length (dropWhile (\<lambda>c. c \<noteq> colon) (c # cs)) \<le> length cs"
    by (simp add: length_dropWhile_le)
  moreover have "length (c # cs) \<le> length s"
    using length_dropWhile_le [of "\<lambda>c. c = colon" s] unfolding eq .
  ultimately show "(dropWhile (\<lambda>c. c \<noteq> colon) (c # cs), s) \<in> measure length"
    by simp
qed simp

declare strtok_all.simps [simp del]

definition is_digit :: "byte \<Rightarrow> bool" where
  "is_digit c \<longleftrightarrow> 48 \<le> c \<and> c \<le> 57"

definition is_space :: "byte \<Rightarrow> bool" where
  "is_space c \<longleftrightarrow> c = 32 \<or> (9 \<le> c \<and> c \<le> 13)"

definition digits_value :: "byte list \<Rightarrow> int" where
  "digits_value ds = foldl (\<lambda>v c. 10 * v + int (unat c - 48)) 0 ds"

text \<open>\<^verbatim>\<open>atoi\<close>: white space, an optional sign, digits; the value goes through a 64-bit \<^verbatim>\<open>long\<close>.\<close>

definition atoi :: "byte list \<Rightarrow> int" where
  "atoi s =
     (let s1 = dropWhile is_space s;
          (neg, s2) = (case s1 of
                         [] \<Rightarrow> (False, [])
                       | c # cs \<Rightarrow> if c = 45 then (True, cs) else if c = 43 then (False, cs) else (False, s1));
          v = digits_value (takeWhile is_digit s2);
          w = (if neg then - v else v)
      in to_int32 (max (- (2 ^ 63)) (min (2 ^ 63 - 1) w)))"

text \<open>
  \<^verbatim>\<open>parse_host_port\<close> copies into \<^verbatim>\<open>addr_arr[100]\<close>, takes up to two tokens and leaves
  \<^verbatim>\<open>split_ret[1]\<close> uninitialised when there is only one.
\<close>

definition parse_host_port :: "cstring \<Rightarrow> (cstring \<times> u32) outcome" where
  "parse_host_port addr =
     (if length addr \<ge> 100 then Ub StackOverflow
      else case strtok_all addr of
             [] \<Rightarrow> Ub NullDeref
           | [t] \<Rightarrow> Ub Uninit
           | t1 # t2 # _ \<Rightarrow> Ok (t1, word_of_int (atoi t2)))"

lemma fresh_id_unused: "fresh_id used rnds = Ok (i, rest) \<Longrightarrow> \<not> used i \<and> (\<exists>r. i = rand_str r 5)"
  by (induction rnds) (auto simp: Let_def split: if_splits)

lemma fresh_id_safe: "safe (\<lambda>_. True) (fresh_id used rnds)"
  by (induction rnds) (auto simp: Let_def)

section \<open>What a stream delivers\<close>

definition soft :: "errno \<Rightarrow> bool" where
  "soft e \<longleftrightarrow> e = EINTR \<or> e = EAGAIN"

text \<open>The bytes that arrive before the end of the stream or a hard error.\<close>

fun rx_data :: "rx_event list \<Rightarrow> byte list" where
  "rx_data [] = []"
| "rx_data (Chunk bs # q) = bs @ rx_data q"
| "rx_data (Eof # q) = []"
| "rx_data (RFail e # q) = (if soft e then rx_data q else [])"

text \<open>Whether the stream ends (rather than fails, or goes on beyond what is known).\<close>

fun rx_ends :: "rx_event list \<Rightarrow> bool" where
  "rx_ends [] = False"
| "rx_ends (Chunk bs # q) = rx_ends q"
| "rx_ends (Eof # q) = True"
| "rx_ends (RFail e # q) = (soft e \<and> rx_ends q)"

lemma readn_loop_done: "len_left \<le> 0 \<Longrightarrow> readn_loop q len_left acc be = Ok (Some len_left, acc, be, q)"
  by (simp add: readn_loop.simps)

lemma readn_loop_safe: "safe (\<lambda>_. True) (readn_loop q l acc be)"
proof (induction q l acc be rule: readn_loop.induct)
  case (1 q l acc be)
  then show ?case
    by (subst readn_loop.simps) (auto split: list.splits rx_event.splits simp: Let_def)
qed

lemma readn_safe: "safe (\<lambda>_. True) (readn q n be)"
  unfolding readn_def by (rule safe_bind [OF readn_loop_safe]) auto

lemma readn_loop_events:
  assumes "0 < len_left"
  shows "readn_loop (Chunk [] # q) len_left acc be = readn_loop q len_left acc be"
    and "bs \<noteq> [] \<Longrightarrow> readn_loop (Chunk bs # q) len_left acc be =
      (let k = min (length bs) (nat len_left)
       in readn_loop (if k < length bs then Chunk (drop k bs) # q else q) (len_left - int k)
            (acc @ take k bs) be)"
    and "readn_loop (Eof # q) len_left acc be = Ok (Some len_left, acc, True, Eof # q)"
    and "soft e \<Longrightarrow> readn_loop (RFail e # q) len_left acc be = readn_loop q len_left acc be"
    and "\<not> soft e \<Longrightarrow> readn_loop (RFail e # q) len_left acc be = Ok (None, acc, be, q)"
  using assms by (simp_all add: readn_loop.simps [of "_ # _"] Let_def soft_def)

lemma readn_loop_exact:
  "int n \<le> int (length (rx_data q)) \<Longrightarrow>
   \<exists>q'. readn_loop q (int n) acc be = Ok (Some 0, acc @ take n (rx_data q), be, q') \<and>
        rx_data q' = drop n (rx_data q) \<and> rx_ends q' = rx_ends q"
proof (induction q "int n" acc be arbitrary: n rule: readn_loop.induct)
  case (1 q acc be n)
  show ?case
  proof (cases "n = 0")
    case True
    then show ?thesis by (simp add: readn_loop_done)
  next
    case False
    then have pos: "0 < int n" by simp
    show ?thesis
    proof (cases q)
      case Nil
      with "1.prems" False show ?thesis by simp
    next
      case (Cons ev q')
      show ?thesis
      proof (cases ev)
        case (Chunk bs)
        show ?thesis
        proof (cases "bs = []")
          case True
          with "1.hyps"(1) [OF pos Cons Chunk True] "1.prems" Cons Chunk pos show ?thesis
            by (simp add: readn_loop_events)
        next
          case bs: False
          let ?k = "min (length bs) n"
          let ?q = "if ?k < length bs then Chunk (drop ?k bs) # q' else q'"
          have data: "rx_data ?q = drop ?k (rx_data q)" "rx_ends ?q = rx_ends q"
              "take ?k bs @ take (n - ?k) (rx_data ?q) = take n (rx_data q)"
            using Cons Chunk by (auto simp: min_def)
          have k: "int n - int ?k = int (n - ?k)" by simp
          have "\<exists>r. readn_loop ?q (int (n - ?k)) (acc @ take ?k bs) be =
               Ok (Some 0, (acc @ take ?k bs) @ take (n - ?k) (rx_data ?q), be, r) \<and>
               rx_data r = drop (n - ?k) (rx_data ?q) \<and> rx_ends r = rx_ends ?q"
            by (rule "1.hyps"(2) [OF pos Cons Chunk bs]) (use k "1.prems" data Cons Chunk in auto)
          with data pos Cons Chunk bs k show ?thesis
            by (auto simp: readn_loop_events Let_def)
        qed
      next
        case Eof
        with "1.prems" Cons False show ?thesis by simp
      next
        case (RFail e)
        with "1.prems" Cons False have s: "soft e" "int n \<le> int (length (rx_data q'))"
          by (auto split: if_splits)
        then have "e = EINTR \<or> e = EAGAIN" by (simp add: soft_def)
        from "1.hyps"(3) [OF pos Cons RFail this refl s(2)] s this pos Cons RFail show ?thesis
          by (auto simp: readn_loop_events)
      qed
    qed
  qed
qed

lemma readn_loop_eof:
  "length (rx_data q) < n \<Longrightarrow> rx_ends q \<Longrightarrow>
   \<exists>q'. readn_loop q (int n) acc be =
          Ok (Some (int n - int (length (rx_data q))), acc @ rx_data q, True, q') \<and>
        rx_data q' = [] \<and> rx_ends q'"
proof (induction q arbitrary: n acc)
  case Nil
  then show ?case by simp
next
  case (Cons ev q)
  then have pos: "0 < int n" by simp
  show ?case
  proof (cases ev)
    case (Chunk bs)
    show ?thesis
    proof (cases "bs = []")
      case True
      with Cons pos Chunk show ?thesis by (simp add: readn_loop_events)
    next
      case False
      have "length bs < n" using Cons.prems(1) Chunk by simp
      moreover have "\<exists>q'. readn_loop q (int (n - length bs)) (acc @ bs) be =
          Ok (Some (int (n - length bs) - int (length (rx_data q))), (acc @ bs) @ rx_data q, True, q') \<and>
        rx_data q' = [] \<and> rx_ends q'"
        using Cons.prems Chunk by (intro Cons.IH) auto
      ultimately show ?thesis
        using pos Chunk False by (auto simp: readn_loop_events Let_def of_nat_diff)
    qed
  next
    case Eof
    with pos show ?thesis by (simp add: readn_loop_events)
  next
    case (RFail e)
    with Cons pos show ?thesis by (auto simp: readn_loop_events split: if_splits)
  qed
qed

lemma to_int32_of_nat:
  "n < 2 ^ 31 \<Longrightarrow> to_int32 (uint (of_nat n :: size_t)) = int n"
  by (simp add: to_int32_id unsigned_of_nat take_bit_nat_eq_self)

lemma readn_exact:
  assumes "n < 2 ^ 31" "n \<le> length (rx_data q)"
  shows "\<exists>q'. readn q (of_nat n) be = Ok (of_nat n, take n (rx_data q), be, q') \<and>
              rx_data q' = drop n (rx_data q) \<and> rx_ends q' = rx_ends q"
  using readn_loop_exact [of n q "[]" be] assms
  by (auto simp: readn_def to_int32_of_nat)

lemma readn_eof:
  assumes "n < 2 ^ 31" "length (rx_data q) < n" "rx_ends q"
  shows "\<exists>q'. readn q (of_nat n) be = Ok (of_nat (length (rx_data q)), rx_data q, True, q') \<and>
              rx_data q' = [] \<and> rx_ends q'"
  using readn_loop_eof [of q n "[]" be] assms
  by (auto simp: readn_def to_int32_of_nat)

text \<open>A size whose low 32 bits are negative as an \<^verbatim>\<open>int\<close> reads nothing.\<close>

lemma readn_negative:
  "to_int32 (uint sz) \<le> 0 \<Longrightarrow> readn q sz be = Ok (sz - word_of_int (to_int32 (uint sz)), [], be, q)"
  by (simp add: readn_def readn_loop_done)

section \<open>Identifiers\<close>

lemma rand_str_loop_eq: "rand_str_loop rnd i k buf = buf @ map (\<lambda>n. rand_char (rnd n)) [i..<i + k]"
  by (induction k arbitrary: i buf) (simp_all add: upt_conv_Cons del: upt_Suc)

lemma unat_byte: "n < 256 \<Longrightarrow> unat (of_nat n :: byte) = n"
  by (simp add: unsigned_of_nat take_bit_nat_eq_self)

lemma rand_char_range:
  "(48 \<le> unat (rand_char r) \<and> unat (rand_char r) \<le> 57) \<or> (65 \<le> unat (rand_char r) \<and> unat (rand_char r) \<le> 90)"
proof -
  have "r mod 36 < 36" by simp
  then show ?thesis by (auto simp: rand_char_def Let_def unat_byte simp del: of_nat_add)
qed

lemma rand_str_spec: "rand_str rnd len = map (\<lambda>n. rand_char (rnd n)) [0..<nat len]"
  by (simp add: rand_str_def rand_str_loop_eq)

lemma rand_str_id:
  "length (rand_str rnd 5) = 5 \<and> is_cstr (rand_str rnd 5)"
proof -
  have "rand_char r \<noteq> 0" for r
    using rand_char_range [of r] by (auto simp del: unsigned_greater_eq)
  then show ?thesis by (auto simp: rand_str_spec is_cstr_def)
qed

section \<open>Decimal numbers\<close>

fun dec :: "nat \<Rightarrow> byte list" where
  "dec n = (if n < 10 then [of_nat (48 + n)] else dec (n div 10) @ [of_nat (48 + n mod 10)])"

declare dec.simps [simp del]

lemma digits_value_snoc: "digits_value (ds @ [c]) = 10 * digits_value ds + int (unat c - 48)"
  by (simp add: digits_value_def)

lemma dec_spec: "digits_value (dec n) = int n \<and> list_all is_digit (dec n) \<and> dec n \<noteq> []"
proof (induction n rule: dec.induct)
  case (1 n)
  have d: "is_digit (of_nat (48 + k))" "unat (of_nat (48 + k) :: byte) - 48 = k" if "k < 10" for k
    using that by (simp_all add: is_digit_def word_le_nat_alt unat_byte del: of_nat_add)
  show ?case
  proof (cases "n < 10")
    case True
    with d [of n] show ?thesis
      by (simp add: dec.simps [of n] digits_value_def del: of_nat_add)
  next
    case False
    have "10 * int (n div 10) + int (n mod 10) = int n"
      by (metis mult_div_mod_eq of_nat_add of_nat_mult of_nat_numeral)
    with False "1.IH" d [of "n mod 10"] show ?thesis
      by (simp add: dec.simps [of n] digits_value_snoc del: of_nat_add)
  qed
qed

lemma atoi_dec: "n < 2 ^ 31 \<Longrightarrow> atoi (dec n) = int n"
proof -
  assume n: "n < 2 ^ 31"
  obtain c cs where c: "dec n = c # cs" using dec_spec [of n] by (cases "dec n") auto
  then have dig: "is_digit c" using dec_spec [of n] by simp
  then have "48 \<le> unat c" "unat c \<le> 57" by (simp_all add: is_digit_def word_le_nat_alt)
  then have "\<not> is_space c" "c \<noteq> 45" "c \<noteq> 43"
    by (auto simp: is_space_def word_le_nat_alt)
  moreover have tw: "takeWhile is_digit cs = cs"
    using dec_spec [of n] c by (simp add: takeWhile_eq_all_conv list_all_iff)
  ultimately show ?thesis
    using n dec_spec [of n] c dig by (simp add: atoi_def to_int32_id tw)
qed

lemma strtok_two:
  assumes "a \<noteq> []" "colon \<notin> set a" "b \<noteq> []" "colon \<notin> set b"
  shows "strtok_all (a @ colon # b) = [a, b]"
proof -
  have tok: "strtok_all (t @ r) = t # strtok_all r"
    if "t \<noteq> []" "colon \<notin> set t" "r = [] \<or> hd r = colon" for t r
  proof -
    from that(1) obtain c cs where c: "t = c # cs" by (cases t) auto
    have "dropWhile (\<lambda>c. c = colon) (t @ r) = t @ r" using that c by auto
    moreover have "takeWhile (\<lambda>c. c \<noteq> colon) (t @ r) = t \<and> dropWhile (\<lambda>c. c \<noteq> colon) (t @ r) = r"
      using that by (cases r) (auto simp: takeWhile_append dropWhile_append)
    moreover have "c \<noteq> colon" using that(2) c by auto
    ultimately show ?thesis using c by (simp add: strtok_all.simps [of "c # _"])
  qed
  have skip: "strtok_all (colon # b) = strtok_all b"
    by (simp add: strtok_all.simps [of "colon # b"] strtok_all.simps [of b])
  have "strtok_all b = [b]" using tok [of b "[]"] assms by (simp add: strtok_all.simps [of "[]"])
  with tok [of a "colon # b"] skip assms show ?thesis by simp
qed

lemma colon_notin_dec: "colon \<notin> set (dec n)"
  using dec_spec [of n] by (auto simp: list_all_iff is_digit_def colon_def word_le_nat_alt)


section \<open>Properties\<close>

text \<open>C33. \<^verbatim>\<open>readn\<close> reassembles: however the \<open>n\<close> requested bytes are split into chunks and
  interleaved with \<^verbatim>\<open>EINTR\<close> and \<^verbatim>\<open>EAGAIN\<close>, it returns \<open>n\<close> with exactly the next \<open>n\<close> bytes of the
  stream and leaves the rest; if the stream ends earlier it returns what there was and sets
  \<^verbatim>\<open>bufferEmpty\<close>.\<close>
theorem readn_reassembles:
  assumes "n < 2 ^ 31" and "n \<le> length (rx_data q) \<or> rx_ends q"
  shows "\<exists>q'. readn q (of_nat n) be =
            Ok (of_nat (min n (length (rx_data q))), take n (rx_data q),
                be \<or> length (rx_data q) < n, q') \<and>
          rx_data q' = drop n (rx_data q) \<and> rx_ends q' = rx_ends q"
proof (cases "n \<le> length (rx_data q)")
  case True
  with readn_exact [OF assms(1) True, of be] show ?thesis by auto
next
  case False
  with assms(2) readn_eof [OF assms(1), of q be] show ?thesis by auto
qed

theorem readn_reassembles_witness:
  "\<exists>q'. readn [Chunk [1], RFail EAGAIN, Chunk [2, 3, 4]] (of_nat 3) False =
      Ok (of_nat 3, [1, 2, 3], False, q') \<and> rx_data q' = [4]"
  using readn_reassembles [of 3 "[Chunk [1], RFail EAGAIN, Chunk [2, 3, 4]]" False]
  by (auto simp: soft_def)

text \<open>Parsing inverts printing: a non-empty host without a colon followed by a colon and a
  decimal port is split into exactly that host and port, whenever the text fits the 100-byte
  buffer.\<close>
theorem parse_host_port_roundtrip:
  assumes "host \<noteq> []" "colon \<notin> set host" "port < 2 ^ 31"
    and "length (host @ colon # dec port) < 100"
  shows "parse_host_port (host @ colon # dec port) = Ok (host, of_nat port)"
  using assms strtok_two [OF assms(1,2), of "dec port"] dec_spec [of port] colon_notin_dec [of port]
  by (simp add: parse_host_port_def atoi_dec)

theorem parse_host_port_roundtrip_witness:
  "parse_host_port ([49, 46, 49] @ colon # [56, 48]) = Ok ([49, 46, 49], of_nat 80)"
proof -
  have d: "dec 80 = [56, 48]" by (simp add: dec.simps)
  show ?thesis
    using parse_host_port_roundtrip [of "[49, 46, 49]" 80] unfolding d by (simp add: colon_def)
qed

text \<open>\<^verbatim>\<open>socketBindListen\<close> leaks no descriptor: it opens at most one socket, an error return
  closes it exactly once, and a returned descriptor is open and listening.\<close>
theorem socketBindListen_no_leak:
  "case socketBindListen env port of (ret, calls) \<Rightarrow>
     opened calls \<le> 1 \<and>
     (if ret < 0
      then closed (socket_ret env) calls =
             (if 0 \<le> port \<and> port \<le> 65535 \<and> 0 \<le> socket_ret env then 1 else 0)
      else 0 \<le> port \<and> port \<le> 65535 \<and> ret = socket_ret env \<and> closed ret calls = 0 \<and>
           last calls = Listen ret 2048 \<and> Bind ret (word_of_int port) \<in> set calls)"
  by (auto simp: socketBindListen_def Let_def opened_def closed_def)

end
