(* ===== verification/CProxy_Msg.thy ===== *)
theory CProxy_Msg
  imports CProxy_Prelude
begin

text \<open>
  The messages of the control connection (\<^verbatim>\<open>lib/Msg.h\<close>, \<^verbatim>\<open>lib/Msg.cpp\<close>) and of an idle proxy
  connection (the message half of \<^verbatim>\<open>lib/proxy_conn.h\<close> and \<^verbatim>\<open>proxy_conn.cpp\<close>). Both sides copy C structs
  to and from the wire, so a body is modelled as the bytes of the struct with the offsets and the
  padding of the x86-64 ABI; bytes nobody writes (padding, the tail of a \<^verbatim>\<open>char\<close> array after the
  NUL) keep the indeterminate contents the automatic variable started with.
\<close>

section \<open>Message types\<close>

datatype CtlMsgType =
    NewCtlReq | NewCtlRsp | NewTunnelReq | NewTunnelRsp | NotifyClientNeedProxy
  | NotifyProxyShutdownPeerConn | FreeProxyConnReq

primrec CtlMsgType_code :: "CtlMsgType \<Rightarrow> u32" where
  "CtlMsgType_code NewCtlReq = 0"
| "CtlMsgType_code NewCtlRsp = 1"
| "CtlMsgType_code NewTunnelReq = 2"
| "CtlMsgType_code NewTunnelRsp = 3"
| "CtlMsgType_code NotifyClientNeedProxy = 4"
| "CtlMsgType_code NotifyProxyShutdownPeerConn = 5"
| "CtlMsgType_code FreeProxyConnReq = 6"

text \<open>The \<^verbatim>\<open>switch\<close> over the received word: values outside the enumeration match no label.\<close>

definition CtlMsgType_of :: "u32 \<Rightarrow> CtlMsgType option" where
  "CtlMsgType_of w =
     (if w = 0 then Some NewCtlReq else if w = 1 then Some NewCtlRsp
      else if w = 2 then Some NewTunnelReq else if w = 3 then Some NewTunnelRsp
      else if w = 4 then Some NotifyClientNeedProxy
      else if w = 5 then Some NotifyProxyShutdownPeerConn
      else if w = 6 then Some FreeProxyConnReq else None)"

datatype ProxyCtlMsgType = ProxyMetaSet | StartProxyConnReq | StartProxyConnRsp

primrec ProxyCtlMsgType_code :: "ProxyCtlMsgType \<Rightarrow> u32" where
  "ProxyCtlMsgType_code ProxyMetaSet = 0"
| "ProxyCtlMsgType_code StartProxyConnReq = 1"
| "ProxyCtlMsgType_code StartProxyConnRsp = 2"

definition ProxyCtlMsgType_of :: "u32 \<Rightarrow> ProxyCtlMsgType option" where
  "ProxyCtlMsgType_of w =
     (if w = 0 then Some ProxyMetaSet else if w = 1 then Some StartProxyConnReq
      else if w = 2 then Some StartProxyConnRsp else None)"

lemma CtlMsgType_of_code [simp]: "CtlMsgType_of (CtlMsgType_code t) = Some t"
  by (cases t) (simp_all add: CtlMsgType_of_def)

lemma ProxyCtlMsgType_of_code [simp]: "ProxyCtlMsgType_of (ProxyCtlMsgType_code t) = Some t"
  by (cases t) (simp_all add: ProxyCtlMsgType_of_def)

section \<open>The message frame\<close>

text \<open>\<^verbatim>\<open>CtlMsg\<close> and \<^verbatim>\<open>ProxyCtlMsg\<close>: length word, type word, 2048 data bytes.\<close>

definition MAX_CTL_MSG_LEN :: nat where
  "MAX_CTL_MSG_LEN = 2048"

definition MAX_MSG_LEN :: nat where
  "MAX_MSG_LEN = 2048"

record CtlMsg =
  msg_len :: u32
  msg_type :: u32
  msg_data :: "byte list"

record ProxyCtlMsg =
  pmsg_len :: u32
  pmsg_type :: u32
  pmsg_data :: "byte list"

definition CtlMsg_bytes :: "CtlMsg \<Rightarrow> byte list" where
  "CtlMsg_bytes m = le32 (msg_len m) @ le32 (msg_type m) @ msg_data m"

definition ProxyCtlMsg_bytes :: "ProxyCtlMsg \<Rightarrow> byte list" where
  "ProxyCtlMsg_bytes m = le32 (pmsg_len m) @ le32 (pmsg_type m) @ pmsg_data m"

definition sizeof_CtlMsg :: nat where
  "sizeof_CtlMsg = 8 + MAX_CTL_MSG_LEN"

definition sizeof_ProxyCtlMsg :: nat where
  "sizeof_ProxyCtlMsg = 8 + MAX_MSG_LEN"

definition MakeCtlMsg :: "CtlMsgType \<Rightarrow> byte list \<Rightarrow> CtlMsg outcome" where
  "MakeCtlMsg ty d =
     (if length d > MAX_CTL_MSG_LEN then Ub StackOverflow
      else Ok \<lparr>msg_len = 4 + 4 + of_nat (length d), msg_type = CtlMsgType_code ty,
               msg_data = store (replicate MAX_CTL_MSG_LEN 0) 0 d\<rparr>)"

definition GetCtlMsgBodySize :: "CtlMsg \<Rightarrow> size_t" where
  "GetCtlMsgBodySize m = ucast (msg_len m) - 4 - 4"

definition make_proxy_ctl_msg :: "ProxyCtlMsgType \<Rightarrow> byte list \<Rightarrow> ProxyCtlMsg outcome" where
  "make_proxy_ctl_msg ty d =
     (if length d > MAX_MSG_LEN then Ub StackOverflow
      else Ok \<lparr>pmsg_len = 4 + 4 + of_nat (length d), pmsg_type = ProxyCtlMsgType_code ty,
               pmsg_data = store (replicate MAX_MSG_LEN 0) 0 d\<rparr>)"

definition get_proxy_ctl_msg_body_size :: "ProxyCtlMsg \<Rightarrow> size_t" where
  "get_proxy_ctl_msg_body_size m = ucast (pmsg_len m) - 4 - 4"

section \<open>Bodies\<close>

definition put_u32 :: "byte list \<Rightarrow> nat \<Rightarrow> u32 \<Rightarrow> byte list" where
  "put_u32 mem off w = store mem off (le32 w)"

definition get_u32 :: "byte list \<Rightarrow> nat \<Rightarrow> u32" where
  "get_u32 mem off = le32_dec (load mem off 4)"

text \<open>\<^verbatim>\<open>NewCtlReqMsg\<close> is an empty struct, of size 1 in C++.\<close>
definition sizeof_NewCtlReqMsg :: nat where
  "sizeof_NewCtlReqMsg = 1"

text \<open>\<^verbatim>\<open>NewCtlRspMsg\<close>: a flexible array holding the control id and its NUL.\<close>
definition NewCtlRspMsg :: "cstring \<Rightarrow> byte list" where
  "NewCtlRspMsg ctl_id = ctl_id @ [0]"

definition sizeof_NewTunnelReqMsg :: nat where
  "sizeof_NewTunnelReqMsg = 24"

definition NewTunnelReqMsg :: "junk \<Rightarrow> cstring \<Rightarrow> u32 \<Rightarrow> byte list outcome" where
  "NewTunnelReqMsg j local_server_host local_server_port =
     strcpy_at (put_u32 (fresh j sizeof_NewTunnelReqMsg) 20 local_server_port) 0 20 local_server_host"

definition sizeof_NewTunnelRspMsg :: nat where
  "sizeof_NewTunnelRspMsg = 60"

definition NewTunnelRspMsg ::
    "junk \<Rightarrow> cstring \<Rightarrow> u32 \<Rightarrow> u32 \<Rightarrow> cstring \<Rightarrow> cstring \<Rightarrow> byte list outcome" where
  "NewTunnelRspMsg j tun_id local_server_port proxy_server_port proxy_server_host local_server_host =
     (let m0 = put_u32 (put_u32 (fresh j sizeof_NewTunnelRspMsg) 12 local_server_port) 16 proxy_server_port
      in bind_outcome (strcpy_at m0 0 10 tun_id)
           (\<lambda>m1. bind_outcome (strcpy_at m1 20 20 proxy_server_host)
              (\<lambda>m2. strcpy_at m2 40 20 local_server_host)))"

definition sizeof_NotifyClientNeedProxyMsg :: nat where
  "sizeof_NotifyClientNeedProxyMsg = 16"

definition NotifyClientNeedProxyMsg :: "junk \<Rightarrow> cstring \<Rightarrow> u32 \<Rightarrow> byte list outcome" where
  "NotifyClientNeedProxyMsg j tun_id server_proxy_port =
     bind_outcome (strcpy_at (fresh j sizeof_NotifyClientNeedProxyMsg) 0 10 tun_id)
       (\<lambda>m. Ok (put_u32 m 12 server_proxy_port))"

definition sizeof_NotifyProxyShutdownPeerConnMsg :: nat where
  "sizeof_NotifyProxyShutdownPeerConnMsg = 24"

definition NotifyProxyShutdownPeerConnMsg ::
    "junk \<Rightarrow> cstring \<Rightarrow> cstring \<Rightarrow> u32 \<Rightarrow> byte list outcome" where
  "NotifyProxyShutdownPeerConnMsg j tun_id proxy_id tran_count =
     (let m0 = put_u32 (fresh j sizeof_NotifyProxyShutdownPeerConnMsg) 20 (htonl tran_count)
      in bind_outcome (strcpy_at m0 0 10 tun_id) (\<lambda>m1. strcpy_at m1 10 10 proxy_id))"

definition sizeof_FreeProxyConnReqMsg :: nat where
  "sizeof_FreeProxyConnReqMsg = 20"

definition FreeProxyConnReqMsg :: "junk \<Rightarrow> cstring \<Rightarrow> cstring \<Rightarrow> byte list outcome" where
  "FreeProxyConnReqMsg j tun_id proxy_id =
     bind_outcome (strcpy_at (fresh j sizeof_FreeProxyConnReqMsg) 0 10 tun_id)
       (\<lambda>m1. strcpy_at m1 10 10 proxy_id)"

definition sizeof_ProxyMetaSetMsg :: nat where
  "sizeof_ProxyMetaSetMsg = 30"

text \<open>The client value-initialises this one before the copies.\<close>
definition ProxyMetaSetMsg :: "cstring \<Rightarrow> cstring \<Rightarrow> cstring \<Rightarrow> byte list outcome" where
  "ProxyMetaSetMsg ctl_id tun_id proxy_id =
     bind_outcome (strcpy_at (replicate sizeof_ProxyMetaSetMsg 0) 0 10 ctl_id)
       (\<lambda>m1. bind_outcome (strcpy_at m1 10 10 tun_id) (\<lambda>m2. strcpy_at m2 20 10 proxy_id))"

definition sizeof_StartProxyConnReqMsg :: nat where
  "sizeof_StartProxyConnReqMsg = 16"

definition StartProxyConnReqMsg :: "junk \<Rightarrow> u32 \<Rightarrow> cstring \<Rightarrow> byte list outcome" where
  "StartProxyConnReqMsg j public_fd proxy_id =
     bind_outcome (strcpy_at (fresh j sizeof_StartProxyConnReqMsg) 4 10 proxy_id)
       (\<lambda>m. Ok (put_u32 m 0 (htonl public_fd)))"

definition sizeof_StartProxyConnRspMsg :: nat where
  "sizeof_StartProxyConnRspMsg = 16"

definition StartProxyConnRspMsg :: "junk \<Rightarrow> u32 \<Rightarrow> cstring \<Rightarrow> byte list outcome" where
  "StartProxyConnRspMsg j public_fd proxy_id =
     bind_outcome (strcpy_at (fresh j sizeof_StartProxyConnRspMsg) 4 10 proxy_id)
       (\<lambda>m. Ok (put_u32 m 0 (htonl public_fd)))"

lemmas sizeof_defs = MAX_CTL_MSG_LEN_def MAX_MSG_LEN_def sizeof_CtlMsg_def sizeof_ProxyCtlMsg_def
  sizeof_NewCtlReqMsg_def sizeof_NewTunnelReqMsg_def sizeof_NewTunnelRspMsg_def
  sizeof_NotifyClientNeedProxyMsg_def sizeof_NotifyProxyShutdownPeerConnMsg_def
  sizeof_FreeProxyConnReqMsg_def sizeof_ProxyMetaSetMsg_def sizeof_StartProxyConnReqMsg_def
  sizeof_StartProxyConnRspMsg_def

lemmas body_defs = NewTunnelReqMsg_def NewTunnelRspMsg_def NotifyClientNeedProxyMsg_def
  NotifyProxyShutdownPeerConnMsg_def FreeProxyConnReqMsg_def ProxyMetaSetMsg_def
  StartProxyConnReqMsg_def StartProxyConnRspMsg_def

section \<open>Reading fields back\<close>

lemma strcpy_at_Ok: "length s < cap \<Longrightarrow> strcpy_at mem off cap s = Ok (store mem off (s @ [0]))"
  by (simp add: strcpy_at_def)

lemma cstr_at_store:
  "is_cstr s \<Longrightarrow> off + length s < length mem \<Longrightarrow> cstr_at (store mem off (s @ [0])) off = Ok s"
  by (rule cstr_at_prefix) (simp_all add: mem_simps)

text \<open>A later store behind the string, or before it, does not disturb it.\<close>

lemma cstr_at_store_later:
  assumes "is_cstr s" "load mem off (Suc (length s)) = s @ [0]"
    and "off + length s < off' \<or> off' + length bs \<le> off"
    and "off' + length bs \<le> length mem" "off \<le> length mem"
  shows "load (store mem off' bs) off (Suc (length s)) = s @ [0]"
  using assms by (auto simp: load_store_before load_store_after)

lemma load_store_str: "off \<le> length mem \<Longrightarrow> load (store mem off (s @ [0])) off (Suc (length s)) = s @ [0]"
  by (simp add: load_store_same_n)

lemmas field_simps_mem = strcpy_at_Ok put_u32_def get_u32_def load_store_before load_store_after
  load_store_same_n

lemma MakeCtlMsg_Ok:
  "length d \<le> MAX_CTL_MSG_LEN \<Longrightarrow>
   MakeCtlMsg ty d =
     Ok \<lparr>msg_len = of_nat (8 + length d), msg_type = CtlMsgType_code ty,
         msg_data = d @ replicate (MAX_CTL_MSG_LEN - length d) 0\<rparr>"
  by (simp add: MakeCtlMsg_def store_def)

lemma make_proxy_ctl_msg_Ok:
  "length d \<le> MAX_MSG_LEN \<Longrightarrow>
   make_proxy_ctl_msg ty d =
     Ok \<lparr>pmsg_len = of_nat (8 + length d), pmsg_type = ProxyCtlMsgType_code ty,
         pmsg_data = d @ replicate (MAX_MSG_LEN - length d) 0\<rparr>"
  by (simp add: make_proxy_ctl_msg_def store_def)

lemma is_cstr_at:
  "is_cstr s \<Longrightarrow> off \<le> length mem \<Longrightarrow> load mem off (Suc (length s)) = s @ [0] \<Longrightarrow> cstr_at mem off = Ok s"
  by (rule cstr_at_prefix)

text \<open>Identifiers and host names that fit their arrays.\<close>

definition id_ok :: "cstring \<Rightarrow> bool" where
  "id_ok s \<longleftrightarrow> is_cstr s \<and> length s < 10"

definition host_ok :: "cstring \<Rightarrow> bool" where
  "host_ok s \<longleftrightarrow> is_cstr s \<and> length s < 20"

lemma NewTunnelRspMsg_fields:
  assumes "id_ok t" "host_ok ph" "host_ok lh"
  shows "\<exists>m. NewTunnelRspMsg j t lp pp ph lh = Ok m \<and> length m = 60 \<and>
     cstr_at m 0 = Ok t \<and> get_u32 m 12 = lp \<and> get_u32 m 16 = pp \<and>
     cstr_at m 20 = Ok ph \<and> cstr_at m 40 = Ok lh"
  using assms unfolding id_ok_def host_ok_def
  by (auto simp: NewTunnelRspMsg_def sizeof_defs field_simps_mem intro!: is_cstr_at)

lemma NewTunnelReqMsg_fields:
  assumes "host_ok h"
  shows "\<exists>m. NewTunnelReqMsg j h p = Ok m \<and> length m = 24 \<and> cstr_at m 0 = Ok h \<and> get_u32 m 20 = p"
  using assms unfolding id_ok_def host_ok_def
  by (auto simp: NewTunnelReqMsg_def sizeof_defs field_simps_mem intro!: is_cstr_at)

lemma NotifyProxyShutdownPeerConnMsg_fields:
  assumes "id_ok t" "id_ok p"
  shows "\<exists>m. NotifyProxyShutdownPeerConnMsg j t p c = Ok m \<and> length m = 24 \<and> cstr_at m 0 = Ok t \<and>
     cstr_at m 10 = Ok p \<and> ntohl (get_u32 m 20) = c"
  using assms unfolding id_ok_def host_ok_def
  by (auto simp: NotifyProxyShutdownPeerConnMsg_def sizeof_defs field_simps_mem intro!: is_cstr_at)

lemma NotifyClientNeedProxyMsg_fields:
  assumes "id_ok t"
  shows "\<exists>m. NotifyClientNeedProxyMsg j t p = Ok m \<and> length m = 16 \<and> cstr_at m 0 = Ok t \<and>
     get_u32 m 12 = p"
  using assms unfolding id_ok_def host_ok_def
  by (auto simp: NotifyClientNeedProxyMsg_def sizeof_defs field_simps_mem intro!: is_cstr_at)

lemma FreeProxyConnReqMsg_fields:
  assumes "id_ok t" "id_ok p"
  shows "\<exists>m. FreeProxyConnReqMsg j t p = Ok m \<and> length m = 20 \<and> cstr_at m 0 = Ok t \<and> cstr_at m 10 = Ok p"
  using assms unfolding id_ok_def host_ok_def
  by (auto simp: FreeProxyConnReqMsg_def sizeof_defs field_simps_mem intro!: is_cstr_at)

lemma ProxyMetaSetMsg_fields:
  assumes "id_ok c" "id_ok t" "id_ok p"
  shows "\<exists>m. ProxyMetaSetMsg c t p = Ok m \<and> length m = 30 \<and> cstr_at m 0 = Ok c \<and>
     cstr_at m 10 = Ok t \<and> cstr_at m 20 = Ok p"
  using assms unfolding id_ok_def host_ok_def
  by (auto simp: ProxyMetaSetMsg_def sizeof_defs field_simps_mem intro!: is_cstr_at)

lemma StartProxyConnReqMsg_fields:
  assumes "id_ok p"
  shows "\<exists>m. StartProxyConnReqMsg j fd p = Ok m \<and> length m = 16 \<and> ntohl (get_u32 m 0) = fd \<and>
     cstr_at m 4 = Ok p"
  using assms unfolding id_ok_def host_ok_def
  by (auto simp: StartProxyConnReqMsg_def sizeof_defs field_simps_mem intro!: is_cstr_at)

lemma StartProxyConnRspMsg_fields:
  assumes "id_ok p"
  shows "\<exists>m. StartProxyConnRspMsg j fd p = Ok m \<and> length m = 16 \<and> ntohl (get_u32 m 0) = fd \<and>
     cstr_at m 4 = Ok p"
  using assms unfolding id_ok_def host_ok_def
  by (auto simp: StartProxyConnRspMsg_def sizeof_defs field_simps_mem intro!: is_cstr_at)

lemma NewCtlRspMsg_fields: "is_cstr c \<Longrightarrow> cstr_at (NewCtlRspMsg c) 0 = Ok c"
  by (simp add: cstr_at_def NewCtlRspMsg_def takeWhile_cstr)

end
