(* ===== verification/CProxy_CtlConn.thy ===== *)
theory CProxy_CtlConn
  imports CProxy_Buffer CProxy_Util CProxy_Msg CProxy_Channel
begin

text \<open>
  \<^verbatim>\<open>lib/Conn.h\<close>, \<^verbatim>\<open>lib/ctl_conn.h\<close> and \<^verbatim>\<open>lib/ctl_conn.cpp\<close>: the base connection and the control
  connection. A connection carries its socket: \<open>sock_rx\<close> is what successive reads find, \<open>sock_tx\<close>
  what the socket has accepted so far, \<open>sock_wr\<close> the answers the kernel will give to writes.
  \<open>armed\<close> is the event mask the poller holds for the descriptor (\<open>None\<close> when it is not registered).
\<close>

section \<open>Connections\<close>

record conn =
  conn_fd :: int
  conn_chan :: channel
  in_buffer_empty :: bool
  armed :: "u32 option"
  sock_rx :: "rx_event list"
  sock_tx :: "byte list"
  sock_wr :: "wr_resp list"
  sock_errno :: errno

record ctl_conn = conn +
  cc_out_buffer :: buffer
  cc_ctl_id :: cstring

text \<open>\<^verbatim>\<open>loop_->UpdateToPoller(channel_)\<close>: the mask changes if the descriptor is registered.\<close>

definition rearm :: "'a conn_scheme \<Rightarrow> 'a conn_scheme" where
  "rearm c = (case armed c of None \<Rightarrow> c | Some _ \<Rightarrow> c\<lparr>armed := Some (events (conn_chan c))\<rparr>)"

definition upd_chan :: "(channel \<Rightarrow> channel) \<Rightarrow> 'a conn_scheme \<Rightarrow> 'a conn_scheme" where
  "upd_chan f c = c\<lparr>conn_chan := f (conn_chan c)\<rparr>"

text \<open>The constructor of \<^verbatim>\<open>CtlConn\<close> and its base; the registration with the poller follows it.\<close>

definition CtlConn_new :: "junk \<Rightarrow> bool \<Rightarrow> bool \<Rightarrow> int \<Rightarrow> ctl_conn" where
  "CtlConn_new j pc0 be0 fd =
     \<lparr>conn_fd = fd,
      conn_chan = SetEvents (EPOLLET OR EPOLLIN OR EPOLLOUT OR EPOLLRDHUP) (Channel_new 0 0 pc0 fd),
      in_buffer_empty = be0, armed = None, sock_rx = [], sock_tx = [], sock_wr = [], sock_errno = EOTHER 0,
      cc_out_buffer = Buffer_new j 1024 65536, cc_ctl_id = []\<rparr>"

text \<open>The destructor of the base class: \<^verbatim>\<open>loop_->RemoveFromPoller(channel_)\<close>.\<close>
definition Conn_delete :: "'a conn_scheme \<Rightarrow> 'a conn_scheme" where
  "Conn_delete c = c\<lparr>armed := None\<rparr>"

definition SetCtlId :: "cstring \<Rightarrow> ctl_conn \<Rightarrow> ctl_conn" where
  "SetCtlId i c = c\<lparr>cc_ctl_id := i\<rparr>"

definition GetCtlId :: "ctl_conn \<Rightarrow> cstring" where
  "GetCtlId c = cc_ctl_id c"

section \<open>Receiving\<close>

text \<open>
  The frame reader shared by \<^verbatim>\<open>CtlConn::handleRead\<close> and the idle half of \<^verbatim>\<open>ProxyConn::handleRead\<close>,
  which are the same code on structs of the same layout: read the length word, check it against
  the size of the struct, read the rest behind it. The result is the struct's memory with the
  length converted to host order, or \<open>None\<close> for every early \<^verbatim>\<open>return\<close>.
\<close>

definition read_frame ::
    "junk \<Rightarrow> nat \<Rightarrow> 'a conn_scheme \<Rightarrow> ((u32 \<times> byte list) option \<times> 'a conn_scheme) outcome" where
  "read_frame j struct_size c =
     bind_outcome (readn (sock_rx c) 4 (in_buffer_empty c))
       (\<lambda>(read_num, bs, be, q).
          let c1 = c\<lparr>sock_rx := q, in_buffer_empty := be\<rparr>
          in if read_num = 0 \<and> be then Ok (None, c1)
             else if read_num \<noteq> 4 then Ok (None, c1)
             else let len = ntohl (le32_dec bs)
                  in if unat len > struct_size then Ok (None, c1)
                     else let body_len = ucast len - 4 :: size_t
                          in bind_outcome (readn (sock_rx c1) body_len (in_buffer_empty c1))
                               (\<lambda>(read_num2, bs2, be2, q2).
                                  let c2 = c1\<lparr>sock_rx := q2, in_buffer_empty := be2\<rparr>
                                  in if read_num2 = 0 \<and> be2 then Ok (None, c2)
                                     else if read_num2 \<noteq> body_len then Ok (None, c2)
                                     else Ok (Some (len, store (store (fresh j struct_size) 0 (le32 len)) 4 bs2), c2)))"

text \<open>\<^verbatim>\<open>memcpy(&m, msg.data, n)\<close> into an uninitialised struct of \<open>sz\<close> bytes.\<close>

definition copy_body :: "junk \<Rightarrow> nat \<Rightarrow> size_t \<Rightarrow> byte list \<Rightarrow> byte list outcome" where
  "copy_body j sz n d =
     (if unat n > sz then Ub StackOverflow else Ok (take (unat n) d @ drop (unat n) (fresh j sz)))"

fun sizeof_ctl_body :: "CtlMsgType \<Rightarrow> nat" where
  "sizeof_ctl_body NewCtlReq = sizeof_NewCtlReqMsg"
| "sizeof_ctl_body NewCtlRsp = MAX_CTL_MSG_LEN"
| "sizeof_ctl_body NewTunnelReq = sizeof_NewTunnelReqMsg"
| "sizeof_ctl_body NewTunnelRsp = sizeof_NewTunnelRspMsg"
| "sizeof_ctl_body NotifyClientNeedProxy = sizeof_NotifyClientNeedProxyMsg"
| "sizeof_ctl_body NotifyProxyShutdownPeerConn = sizeof_NotifyProxyShutdownPeerConnMsg"
| "sizeof_ctl_body FreeProxyConnReq = sizeof_FreeProxyConnReqMsg"

text \<open>
  The \<^verbatim>\<open>switch\<close> of \<^verbatim>\<open>CtlConn::handleRead\<close>: the handler to call and the struct it gets. The
  \<^verbatim>\<open>NewCtlRsp\<close> body is copied into a heap block of exactly its size.
\<close>

definition ctl_switch :: "junk \<Rightarrow> u32 \<Rightarrow> byte list \<Rightarrow> (CtlMsgType \<times> byte list) option outcome" where
  "ctl_switch j len mem =
     (let m = \<lparr>msg_len = len, msg_type = get_u32 mem 4, msg_data = drop 8 mem\<rparr>;
          n = GetCtlMsgBodySize m
      in case CtlMsgType_of (msg_type m) of
           None \<Rightarrow> Ok None
         | Some NewCtlRsp \<Rightarrow>
             (if unat n > MAX_CTL_MSG_LEN then Ub StackOverflow
              else Ok (Some (NewCtlRsp, take (unat n) (msg_data m))))
         | Some ty \<Rightarrow>
             bind_outcome (copy_body j (sizeof_ctl_body ty) n (msg_data m)) (\<lambda>b. Ok (Some (ty, b))))"

text \<open>
  \<^verbatim>\<open>CtlConn::handleRead\<close> up to the call of the message handler, which is its last action: the
  handler's argument is returned and the owner applies the handler.
\<close>

definition CtlConn_handleRead ::
    "junk \<Rightarrow> ctl_conn \<Rightarrow> ((CtlMsgType \<times> byte list) option \<times> ctl_conn) outcome" where
  "CtlConn_handleRead j c =
     bind_outcome (read_frame j sizeof_CtlMsg c)
       (\<lambda>(frame, c'). case frame of
            None \<Rightarrow> Ok (None, c')
          | Some (len, mem) \<Rightarrow> bind_outcome (ctl_switch j len mem) (\<lambda>ev. Ok (ev, c')))"

section \<open>Sending\<close>

text \<open>\<^verbatim>\<open>SendMsg\<close> queues the first \<^verbatim>\<open>msg.len\<close> bytes of the struct, length word in network order.\<close>

definition CtlConn_SendMsg :: "junk \<Rightarrow> CtlMsg \<Rightarrow> ctl_conn \<Rightarrow> ctl_conn outcome" where
  "CtlConn_SendMsg j m c =
     (let wire = CtlMsg_bytes (m\<lparr>msg_len := htonl (msg_len m)\<rparr>)
      in bind_outcome (WriteToBuffer (cc_out_buffer c) wire (to_int32 (uint (msg_len m))) j)
           (\<lambda>(write_num, b).
              let c1 = c\<lparr>cc_out_buffer := b\<rparr>
              in if write_num \<noteq> ucast (msg_len m) then Ok c1
                 else Ok (rearm (upd_chan (AddEvents EPOLLOUT) c1))))"

definition CtlConn_handleWrite :: "ctl_conn \<Rightarrow> ctl_conn outcome" where
  "CtlConn_handleWrite c =
     (if GetUnreadSize (cc_out_buffer c) \<le> 0 then Ok c
      else bind_outcome (WriteToSock (sock_wr c) (sock_errno c) (cc_out_buffer c))
             (\<lambda>(sent_num, sent, b, rest).
                let c1 = c\<lparr>cc_out_buffer := b, sock_tx := sock_tx c @ sent, sock_wr := rest\<rparr>
                in Ok (if GetUnreadSize b > 0 then upd_chan (AddEvents EPOLLOUT) c1 else c1)))"

text \<open>\<^verbatim>\<open>postHandle\<close>: the flag asks the owner to run its close handler, and nothing else happens then.\<close>

definition CtlConn_postHandle :: "ctl_conn \<Rightarrow> bool \<times> ctl_conn" where
  "CtlConn_postHandle c =
     (if in_buffer_empty c \<and> IsPeerClosed (conn_chan c) then (True, c)
      else let c1 = upd_chan (SetEvents (EPOLLET OR EPOLLIN OR EPOLLRDHUP)) c;
               c2 = (if GetUnreadSize (cc_out_buffer c1) > 0 then upd_chan (AddEvents EPOLLOUT) c1 else c1)
           in (False, rearm c2))"

interpretation ctl_owner: channel_owner conn_chan "\<lambda>ch c. (c :: ctl_conn)\<lparr>conn_chan := ch\<rparr>"
  by unfold_locales auto

section \<open>Frames\<close>

definition wire_frame :: "u32 \<Rightarrow> byte list \<Rightarrow> byte list" where
  "wire_frame code d = le32 (htonl (of_nat (8 + length d))) @ le32 code @ d"

lemma length_wire_frame [simp]: "length (wire_frame code d) = 8 + length d"
  by (simp add: wire_frame_def)

lemma body_size:
  assumes "n \<le> 2048"
  shows "unat (of_nat (8 + n) :: u32) = 8 + n"
    and "(ucast (of_nat (8 + n) :: u32) :: size_t) = of_nat (8 + n)"
    and "(ucast (of_nat (8 + n) :: u32) - 4 :: size_t) = of_nat (4 + n)"
    and "(ucast (of_nat (8 + n) :: u32) - 4 - 4 :: size_t) = of_nat n"
proof -
  show 1: "unat (of_nat (8 + n) :: u32) = 8 + n"
    using assms by (intro unat_u32) simp
  show 2: "(ucast (of_nat (8 + n) :: u32) :: size_t) = of_nat (8 + n)"
  proof (rule word_eq_iff_unsigned [THEN iffD2])
    show "unat (ucast (of_nat (8 + n) :: u32) :: size_t) = unat (of_nat (8 + n) :: size_t)"
      using 1 assms by (simp add: unsigned_ucast_eq take_bit_nat_eq_self del: of_nat_add)
  qed
  show "(ucast (of_nat (8 + n) :: u32) - 4 :: size_t) = of_nat (4 + n)"
    unfolding 2 by simp
  show "(ucast (of_nat (8 + n) :: u32) - 4 - 4 :: size_t) = of_nat n"
    unfolding 2 by simp
qed

lemma read_frame_wire:
  assumes "rx_data (sock_rx c) = wire_frame code d @ rest" "length d \<le> 2048" "8 + length d \<le> sz" "sz \<le> 2056"
  shows "\<exists>q mem. read_frame j sz c = Ok (Some (of_nat (8 + length d), mem), c\<lparr>sock_rx := q\<rparr>) \<and>
     length mem = sz \<and> get_u32 mem 4 = code \<and> take (length d) (drop 8 mem) = d \<and>
     rx_data q = rest \<and> rx_ends q = rx_ends (sock_rx c)"
proof -
  let ?len = "of_nat (8 + length d) :: u32"
  obtain q1 where q1: "readn (sock_rx c) (of_nat 4) (in_buffer_empty c) =
        Ok (of_nat 4, take 4 (rx_data (sock_rx c)), in_buffer_empty c, q1)"
      "rx_data q1 = drop 4 (rx_data (sock_rx c))" "rx_ends q1 = rx_ends (sock_rx c)"
    using readn_exact [of 4 "sock_rx c" "in_buffer_empty c"] assms(1) by auto
  have hd4: "take 4 (rx_data (sock_rx c)) = le32 (htonl ?len)" "rx_data q1 = le32 code @ d @ rest"
    using assms(1) q1(2) by (simp_all add: wire_frame_def)
  obtain q2 where q2: "readn q1 (of_nat (4 + length d)) (in_buffer_empty c) =
        Ok (of_nat (4 + length d), take (4 + length d) (rx_data q1), in_buffer_empty c, q2)"
      "rx_data q2 = drop (4 + length d) (rx_data q1)" "rx_ends q2 = rx_ends q1"
    using readn_exact [of "4 + length d" q1 "in_buffer_empty c"] assms(2) hd4 by auto
  have body: "take (4 + length d) (rx_data q1) = le32 code @ d" "rx_data q2 = rest"
    using hd4 q2(2) by simp_all
  let ?mem = "store (store (fresh j sz) 0 (le32 ?len)) 4 (le32 code @ d)"
  have ne: "(of_nat (4 + length d) :: size_t) \<noteq> 0"
    using of_nat_size_t_eq_iff [of "4 + length d" 0] assms(2) by simp
  have "read_frame j sz c = Ok (Some (?len, ?mem), c\<lparr>sock_rx := q2\<rparr>)"
    using q1(1) q2(1) hd4(1) body(1) body_size [OF assms(2)] ne assms(3)
    by (simp add: read_frame_def Let_def del: of_nat_add)
  moreover have "length ?mem = sz" using assms(3) by simp
  moreover have "get_u32 ?mem 4 = code" "take (length d) (drop 8 ?mem) = d"
    using assms(3) by (simp_all add: get_u32_def load_def store_def)
  ultimately show ?thesis using body(2) q1(3) q2(3) by blast
qed

lemma ctl_switch_code:
  assumes "get_u32 mem 4 = CtlMsgType_code ty"
  shows "ctl_switch j len mem =
    (let n = ucast len - 4 - 4 :: size_t
     in if ty = NewCtlRsp
        then (if unat n > MAX_CTL_MSG_LEN then Ub StackOverflow
              else Ok (Some (NewCtlRsp, take (unat n) (drop 8 mem))))
        else bind_outcome (copy_body j (sizeof_ctl_body ty) n (drop 8 mem)) (\<lambda>b. Ok (Some (ty, b))))"
  by (simp add: ctl_switch_def GetCtlMsgBodySize_def Let_def assms split: CtlMsgType.split)

lemma CtlConn_handleRead_wire:
  assumes "rx_data (sock_rx c) = wire_frame (CtlMsgType_code ty) d @ rest" "length d \<le> 2048"
  shows "\<exists>q. CtlConn_handleRead j c =
      (if length d \<le> sizeof_ctl_body ty
       then Ok (Some (ty, if ty = NewCtlRsp then d
                          else d @ drop (length d) (fresh j (sizeof_ctl_body ty))), c\<lparr>sock_rx := q\<rparr>)
       else Ub StackOverflow) \<and> rx_data q = rest \<and> rx_ends q = rx_ends (sock_rx c)"
proof -
  obtain q mem where r: "read_frame j sizeof_CtlMsg c = Ok (Some (of_nat (8 + length d), mem), c\<lparr>sock_rx := q\<rparr>)"
      "get_u32 mem 4 = CtlMsgType_code ty" "take (length d) (drop 8 mem) = d" "rx_data q = rest"
      "rx_ends q = rx_ends (sock_rx c)"
    using read_frame_wire [OF assms, of sizeof_CtlMsg j] assms(2) by (auto simp: sizeof_defs)
  have "unat (of_nat (length d) :: size_t) = length d" using assms(2) by simp
  then have "ctl_switch j (of_nat (8 + length d)) mem =
      (if length d \<le> sizeof_ctl_body ty
       then Ok (Some (ty, if ty = NewCtlRsp then d
                          else d @ drop (length d) (fresh j (sizeof_ctl_body ty))))
       else Ub StackOverflow)"
    using r(3) body_size [OF assms(2)] assms(2)
    by (cases "ty = NewCtlRsp")
      (simp_all add: ctl_switch_code [OF r(2)] copy_body_def sizeof_defs Let_def del: of_nat_add)
  with r show ?thesis by (auto simp: CtlConn_handleRead_def)
qed

lemma CtlConn_SendMsg_queues:
  assumes "buf_wf (cc_out_buffer c)" "length d \<le> 2048"
    and "int (8 + length d) \<le> getFreeSize (cc_out_buffer c) \<or>
         capacity (cc_out_buffer c) + int (8 + length d) \<le> max_capacity (cc_out_buffer c)"
  shows "\<exists>m b. MakeCtlMsg ty d = Ok m \<and>
     CtlConn_SendMsg j m c = Ok (rearm (upd_chan (AddEvents EPOLLOUT) (c\<lparr>cc_out_buffer := b\<rparr>))) \<and>
     buf_wf b \<and> contents b = contents (cc_out_buffer c) @ wire_frame (CtlMsgType_code ty) d \<and>
     max_capacity b = max_capacity (cc_out_buffer c)"
proof -
  let ?n = "8 + length d"
  obtain m where m: "MakeCtlMsg ty d = Ok m" "msg_len m = of_nat ?n" "msg_type m = CtlMsgType_code ty"
      "msg_data m = d @ replicate (2048 - length d) 0"
    using MakeCtlMsg_Ok [of d ty] assms(2) by (fastforce simp: sizeof_defs simp del: of_nat_add)
  let ?wire = "CtlMsg_bytes (m\<lparr>msg_len := htonl (msg_len m)\<rparr>)"
  have take: "take ?n ?wire = wire_frame (CtlMsgType_code ty) d"
    using m by (simp add: CtlMsg_bytes_def wire_frame_def del: of_nat_add)
  have len: "?n \<le> length ?wire" using m assms(2) by (simp add: CtlMsg_bytes_def)
  have n: "to_int32 (uint (msg_len m)) = int ?n"
    using m(2) body_size(1) [OF assms(2)] assms(2)
    by (simp add: to_int32_id uint_nat del: of_nat_add)
  have n': "(ucast (msg_len m) :: size_t) = of_nat ?n"
    using m(2) body_size(2) [OF assms(2)] by simp
  from WriteToBuffer_spec [OF assms(1), of ?n ?wire j] len assms(3)
  obtain b where "WriteToBuffer (cc_out_buffer c) ?wire (int ?n) j = Ok (of_nat ?n, b)" "buf_wf b"
      "contents b = contents (cc_out_buffer c) @ take ?n ?wire" "max_capacity b = max_capacity (cc_out_buffer c)"
    by fastforce
  with m(1) n n' take show ?thesis
    by (intro exI [of _ m] exI [of _ b]) (simp add: CtlConn_SendMsg_def Let_def del: of_nat_add)
qed

lemma short_body_len:
  assumes "unat (len :: u32) < 4"
  shows "to_int32 (uint (ucast len - 4 :: size_t)) \<le> 0 \<and>
         ucast len - 4 - word_of_int (to_int32 (uint (ucast len - 4 :: size_t))) = (0 :: size_t) \<and>
         ucast len - 4 \<noteq> (0 :: size_t)"
proof -
  have l: "len = of_nat (unat len)" by simp
  have "unat len = 0 \<or> unat len = 1 \<or> unat len = 2 \<or> unat len = 3" using assms by auto
  then have "len = of_nat 0 \<or> len = of_nat 1 \<or> len = of_nat 2 \<or> len = of_nat 3"
    by (elim disjE) (use l in metis)+
  then consider "len = 0" | "len = 1" | "len = 2" | "len = 3" by auto
  then show ?thesis
  proof cases
    case 1
    show ?thesis unfolding 1 by (simp add: to_int32_def)
  next
    case 2
    show ?thesis unfolding 2 by (simp add: to_int32_def)
  next
    case 3
    show ?thesis unfolding 3 by (simp add: to_int32_def)
  next
    case 4
    show ?thesis unfolding 4 by (simp add: to_int32_def unsigned_minus_1_eq_mask mask_eq_exp_minus_1)
  qed
qed

text \<open>A length word outside the struct's range ends the handler without a dispatch.\<close>

lemma read_frame_bad_length:
  assumes "rx_data (sock_rx c) = le32 (htonl len) @ rest" "unat len < 4 \<or> sz < unat len"
  shows "\<exists>c'. read_frame j sz c = Ok (None, c')"
proof -
  obtain q1 where q1: "readn (sock_rx c) (of_nat 4) (in_buffer_empty c) =
        Ok (of_nat 4, le32 (htonl len), in_buffer_empty c, q1)"
    using readn_exact [of 4 "sock_rx c" "in_buffer_empty c"] assms(1) by auto
  show ?thesis
  proof (cases "sz < unat len")
    case True
    with q1 show ?thesis by (simp add: read_frame_def Let_def)
  next
    case False
    with assms(2) have small: "unat len < 4" by simp
    let ?bl = "ucast len - 4 :: size_t"
    have bl: "to_int32 (uint ?bl) \<le> 0" "?bl - word_of_int (to_int32 (uint ?bl)) = 0" "?bl \<noteq> 0"
      using short_body_len [OF small] by blast+
    have "readn q1 ?bl (in_buffer_empty c) = Ok (0, [], in_buffer_empty c, q1)"
      using readn_negative [OF bl(1)] bl(2) by simp
    with q1 False bl(3) show ?thesis by (simp add: read_frame_def Let_def)
  qed
qed

lemma CtlConn_handleWrite_sends:
  assumes "buf_wf (cc_out_buffer c)" "data_size (cc_out_buffer c) < 2 ^ 31"
    and "list_all takes_data (sock_wr c)" "nat (GetUnreadSize (cc_out_buffer c)) \<le> length (sock_wr c)"
  shows "\<exists>c'. CtlConn_handleWrite c = Ok c' \<and> sock_tx c' = sock_tx c @ contents (cc_out_buffer c) \<and>
           contents (cc_out_buffer c') = [] \<and> buf_wf (cc_out_buffer c')"
proof (cases "GetUnreadSize (cc_out_buffer c) \<le> 0")
  case True
  then have "contents (cc_out_buffer c) = []" by (simp flip: length_0_conv)
  with True assms(1) show ?thesis by (simp add: CtlConn_handleWrite_def)
next
  case False
  obtain b' rest where w: "WriteToSock (sock_wr c) (sock_errno c) (cc_out_buffer c) =
      Ok (of_nat (length (contents (cc_out_buffer c))), contents (cc_out_buffer c), b', rest)"
      "contents b' = []" "buf_wf b'"
    using WriteToSock_accepts [OF assms, of "sock_errno c"] by blast
  then have "\<not> GetUnreadSize b' > 0" by (simp flip: length_0_conv)
  with w False show ?thesis by (simp add: CtlConn_handleWrite_def Let_def)
qed


section \<open>Safety\<close>

text \<open>The state every connection keeps its output buffer in.\<close>

definition obuf_ok :: "buffer \<Rightarrow> bool" where
  "obuf_ok b \<longleftrightarrow> buf_wf b \<and> max_capacity b = 65536"

lemma obuf_new [simp]: "obuf_ok (Buffer_new j 1024 65536)"
  using buf_wf_new [of 1024 j 65536] by (simp add: obuf_ok_def Buffer_new_def)

lemma obuf_size: "obuf_ok b \<Longrightarrow> data_size b < 2 ^ 31"
  by (simp add: obuf_ok_def buf_wf_def)

lemma read_frame_safe:
  "safe (\<lambda>(fr, c'). \<exists>q be. c' = c\<lparr>sock_rx := q, in_buffer_empty := be\<rparr>) (read_frame j n c)"
proof -
  have "safe (\<lambda>(fr, c'). \<exists>q be. c' = c\<lparr>sock_rx := q, in_buffer_empty := be\<rparr>)
     (bind_outcome (readn q1 n1 be1) (\<lambda>(read_num2, bs2, be2, q2).
        let c2 = c\<lparr>sock_rx := q2, in_buffer_empty := be2\<rparr>
        in if read_num2 = 0 \<and> be2 then Ok (None, c2) else if read_num2 \<noteq> n1 then Ok (None, c2)
           else Ok (Some (F bs2), c2)))" for q1 n1 be1 F
    by (rule safe_bind [OF readn_safe]) (auto simp: Let_def split: prod.split)
  then show ?thesis
    unfolding read_frame_def
    by (intro safe_bind [OF readn_safe]) (auto simp: Let_def split: prod.split)
qed

lemma copy_body_safe: "safe (\<lambda>_. True) (copy_body j sz n d)"
  by (simp add: copy_body_def)

lemma ctl_switch_safe: "safe (\<lambda>_. True) (ctl_switch j len mem)"
  unfolding ctl_switch_def Let_def
  by (auto split: option.splits CtlMsgType.splits intro!: safe_bind [OF copy_body_safe])

lemma CtlConn_handleRead_safe:
  "safe (\<lambda>(ev, c'). cc_out_buffer c' = cc_out_buffer c \<and> conn_fd c' = conn_fd c \<and> cc_ctl_id c' = cc_ctl_id c)
     (CtlConn_handleRead j c)"
  unfolding CtlConn_handleRead_def
  by (rule safe_bind [OF read_frame_safe])
    (auto split: prod.splits option.splits intro!: safe_bind [OF ctl_switch_safe])

lemma rearm_frame [simp]:
  "conn_fd (rearm c) = conn_fd c" "conn_fd (upd_chan f c) = conn_fd c"
  "sock_tx (rearm c) = sock_tx c" "sock_tx (upd_chan f c) = sock_tx c"
  "sock_rx (rearm c) = sock_rx c" "sock_rx (upd_chan f c) = sock_rx c"
  "sock_wr (rearm c) = sock_wr c" "sock_wr (upd_chan f c) = sock_wr c"
  by (simp_all add: rearm_def upd_chan_def split: option.split)

lemma rearm_ctl [simp]:
  "cc_out_buffer (rearm c) = cc_out_buffer c" "cc_out_buffer (upd_chan f c) = cc_out_buffer c"
  "cc_ctl_id (rearm c) = cc_ctl_id c" "cc_ctl_id (upd_chan f c) = cc_ctl_id c"
  by (simp_all add: rearm_def upd_chan_def split: option.split)

lemma CtlConn_SendMsg_safe:
  assumes "obuf_ok (cc_out_buffer c)" "MakeCtlMsg ty d = Ok m"
  shows "\<exists>c'. CtlConn_SendMsg j m c = Ok c' \<and> obuf_ok (cc_out_buffer c') \<and> conn_fd c' = conn_fd c \<and>
     cc_ctl_id c' = cc_ctl_id c \<and> sock_rx c' = sock_rx c \<and>
     contents (cc_out_buffer c') \<in> {contents (cc_out_buffer c), contents (cc_out_buffer c) @ wire_frame (CtlMsgType_code ty) d}"
proof -
  have len: "length d \<le> 2048" using assms(2) by (simp add: MakeCtlMsg_def sizeof_defs split: if_splits)
  show ?thesis
  proof (cases "int (8 + length d) \<le> getFreeSize (cc_out_buffer c) \<or>
         capacity (cc_out_buffer c) + int (8 + length d) \<le> max_capacity (cc_out_buffer c)")
    case True
    from CtlConn_SendMsg_queues [OF _ len True, of ty j] assms show ?thesis
      by (auto simp: obuf_ok_def)
  next
    case False
    have m: "msg_len m = of_nat (8 + length d)"
      using assms(2) MakeCtlMsg_Ok [of d ty] len by (auto simp: sizeof_defs)
    have n: "to_int32 (uint (msg_len m)) = int (8 + length d)"
      using m body_size(1) [OF len] len by (simp add: to_int32_id uint_nat del: of_nat_add)
    have "(0 :: size_t) \<noteq> ucast (msg_len m)"
      using m body_size(2) [OF len] of_nat_size_t_eq_iff [of "8 + length d" 0] len by (simp del: of_nat_add)
    with n False WriteToBuffer_refuses [of "8 + length d" "cc_out_buffer c"] assms(1) show ?thesis
      by (simp add: CtlConn_SendMsg_def Let_def not_le del: of_nat_add)
  qed
qed

lemma CtlConn_handleWrite_safe:
  assumes "obuf_ok (cc_out_buffer c)"
  shows "safe (\<lambda>c'. obuf_ok (cc_out_buffer c') \<and> conn_fd c' = conn_fd c \<and> cc_ctl_id c' = cc_ctl_id c)
     (CtlConn_handleWrite c)"
proof -
  have "buf_wf (cc_out_buffer c)" using assms by (simp add: obuf_ok_def)
  note w = WriteToSock_wf [OF this obuf_size [OF assms], of "sock_wr c" "sock_errno c"]
  have "safe (\<lambda>c'. obuf_ok (cc_out_buffer c') \<and> conn_fd c' = conn_fd c \<and> cc_ctl_id c' = cc_ctl_id c)
     (bind_outcome (WriteToSock (sock_wr c) (sock_errno c) (cc_out_buffer c))
             (\<lambda>(sent_num, sent, b, rest).
                let c1 = c\<lparr>cc_out_buffer := b, sock_tx := sock_tx c @ sent, sock_wr := rest\<rparr>
                in Ok (if GetUnreadSize b > 0 then upd_chan (AddEvents EPOLLOUT) c1 else c1)))"
    by (rule safe_bind [OF w]) (use assms in \<open>auto simp: obuf_ok_def Let_def\<close>)
  with assms show ?thesis by (simp add: CtlConn_handleWrite_def)
qed

lemma CtlConn_postHandle_frame:
  "CtlConn_postHandle c = (b, c') \<Longrightarrow>
   cc_out_buffer c' = cc_out_buffer c \<and> conn_fd c' = conn_fd c \<and> cc_ctl_id c' = cc_ctl_id c"
  by (auto simp: CtlConn_postHandle_def Let_def split: if_splits)

section \<open>Properties\<close>

text \<open>C7. A control message arrives as it was sent: queued by \<^verbatim>\<open>SendMsg\<close>, written by \<^verbatim>\<open>handleWrite\<close>
  and received by a peer whose stream starts with those bytes (in whatever pieces), it is
  dispatched under its own type with its own body, and exactly its bytes are consumed.\<close>
theorem ctl_message_delivery:
  assumes "buf_wf (cc_out_buffer c)" "contents (cc_out_buffer c) = []" "max_capacity (cc_out_buffer c) < 2 ^ 31 - 1"
    and "capacity (cc_out_buffer c) + int (8 + length d) \<le> max_capacity (cc_out_buffer c)"
    and "list_all takes_data (sock_wr c)" "8 + length d \<le> length (sock_wr c)"
    and "length d \<le> sizeof_ctl_body ty"
  shows "\<exists>m c1 c2 wire. MakeCtlMsg ty d = Ok m \<and> CtlConn_SendMsg j m c = Ok c1 \<and>
     CtlConn_handleWrite c1 = Ok c2 \<and> sock_tx c2 = sock_tx c @ wire \<and> contents (cc_out_buffer c2) = [] \<and>
     (\<forall>r rest. rx_data (sock_rx r) = wire @ rest \<longrightarrow>
        (\<exists>q body. CtlConn_handleRead j' r = Ok (Some (ty, body), r\<lparr>sock_rx := q\<rparr>) \<and>
                  take (length d) body = d \<and> rx_data q = rest))"
proof -
  have len: "length d \<le> 2048"
    using assms(7) by (cases ty) (simp_all add: sizeof_defs)
  obtain m b where m: "MakeCtlMsg ty d = Ok m"
      "CtlConn_SendMsg j m c = Ok (rearm (upd_chan (AddEvents EPOLLOUT) (c\<lparr>cc_out_buffer := b\<rparr>)))"
      "buf_wf b" "contents b = wire_frame (CtlMsgType_code ty) d" "max_capacity b = max_capacity (cc_out_buffer c)"
    using CtlConn_SendMsg_queues [OF assms(1) len, of ty j] assms(2,4) by auto
  let ?c1 = "rearm (upd_chan (AddEvents EPOLLOUT) (c\<lparr>cc_out_buffer := b\<rparr>))"
  have c1: "cc_out_buffer ?c1 = b" "sock_wr ?c1 = sock_wr c" "sock_tx ?c1 = sock_tx c"
    by (simp_all add: rearm_def upd_chan_def split: option.split)
  have "nat (GetUnreadSize b) = 8 + length d"
    using arg_cong [OF m(4), of length] by simp
  moreover have "data_size b < 2 ^ 31" using m(3,5) assms(3) by (auto simp: buf_wf_def)
  ultimately obtain c2 where c2: "CtlConn_handleWrite ?c1 = Ok c2"
      "sock_tx c2 = sock_tx c @ wire_frame (CtlMsgType_code ty) d" "contents (cc_out_buffer c2) = []"
    using CtlConn_handleWrite_sends [of ?c1] c1 m(3,4) assms(5,6) by auto
  have "\<exists>q body. CtlConn_handleRead j' r = Ok (Some (ty, body), r\<lparr>sock_rx := q\<rparr>) \<and>
          take (length d) body = d \<and> rx_data q = rest"
    if "rx_data (sock_rx r) = wire_frame (CtlMsgType_code ty) d @ rest" for r rest
    using CtlConn_handleRead_wire [OF that len, of j'] assms(7) by (auto split: if_splits)
  with m(1,2) c2 show ?thesis by blast
qed

definition demo_conn :: ctl_conn where
  "demo_conn = (CtlConn_new (\<lambda>_. 0) False False 7)\<lparr>sock_wr := replicate 40 (Accept 3)\<rparr>"

theorem ctl_message_delivery_witness:
  "\<exists>m c1 c2 wire. MakeCtlMsg FreeProxyConnReq (replicate 20 65) = Ok m \<and>
     CtlConn_SendMsg (\<lambda>_. 0) m demo_conn = Ok c1 \<and> CtlConn_handleWrite c1 = Ok c2 \<and>
     sock_tx c2 = sock_tx demo_conn @ wire"
proof -
  have b: "buf_wf (cc_out_buffer demo_conn)" "contents (cc_out_buffer demo_conn) = []"
      "max_capacity (cc_out_buffer demo_conn) = 65536" "capacity (cc_out_buffer demo_conn) = 1024"
    using buf_wf_new [of 1024 "\<lambda>_. 0" 65536]
    by (simp_all add: demo_conn_def CtlConn_new_def Buffer_new_def)
  have "list_all takes_data (sock_wr demo_conn)" "length (sock_wr demo_conn) = 40"
    by (simp_all add: demo_conn_def takes_data_def list_all_iff)
  with ctl_message_delivery [of demo_conn "replicate 20 65" FreeProxyConnReq "\<lambda>_. 0" "\<lambda>_. 0"] b
  show ?thesis by (simp add: sizeof_defs) blast
qed

text \<open>A frame whose length word is smaller than the word itself or larger than the message
  struct is dropped: the handler returns without dispatching anything and without leaving its
  memory, although the subtraction of the header size wraps around for lengths below four.\<close>
theorem ctl_bad_length_rejected:
  assumes "rx_data (sock_rx c) = le32 (htonl len) @ rest" "unat len < 4 \<or> 2056 < unat len"
  shows "\<exists>c'. CtlConn_handleRead j c = Ok (None, c')"
proof -
  have "unat len < 4 \<or> sizeof_CtlMsg < unat len" using assms(2) by (simp add: sizeof_defs)
  from read_frame_bad_length [OF assms(1) this, of j] show ?thesis
    by (auto simp: CtlConn_handleRead_def)
qed

theorem ctl_bad_length_rejected_witness:
  "\<exists>c'. CtlConn_handleRead (\<lambda>_. 0) (demo_conn\<lparr>sock_rx := [Chunk [0, 0], Chunk [0, 3, 9]]\<rparr>) = Ok (None, c')"
proof -
  have "le32 (htonl 3) = [0, 0, 0, 3]" by (simp add: htonl_def le32_def)
  then show ?thesis
    using ctl_bad_length_rejected [of "demo_conn\<lparr>sock_rx := [Chunk [0, 0], Chunk [0, 3, 9]]\<rparr>" 3 "[9]" "\<lambda>_. 0"]
    by simp
qed

text \<open>C34. The body is copied into a struct of fixed size without comparing sizes: every well-framed
  message (other than the variable-length control id) whose body is longer than its struct
  overruns the handler's stack frame.\<close>
theorem ctl_oversized_body_overflows:
  assumes "rx_data (sock_rx c) = wire_frame (CtlMsgType_code ty) d @ rest"
    and "sizeof_ctl_body ty < length d" "length d \<le> 2048"
  shows "CtlConn_handleRead j c = Ub StackOverflow"
  using CtlConn_handleRead_wire [OF assms(1,3), of j] assms(2) by auto

theorem ctl_oversized_body_overflows_witness:
  "CtlConn_handleRead (\<lambda>_. 0)
     (demo_conn\<lparr>sock_rx := [Chunk (wire_frame (CtlMsgType_code FreeProxyConnReq) (replicate 21 65))]\<rparr>) =
   Ub StackOverflow"
  by (rule ctl_oversized_body_overflows [where d = "replicate 21 65" and ty = FreeProxyConnReq and rest = "[]"])
    (simp_all add: sizeof_defs)

end
