(* ===== verification/CProxy_TranConn.thy ===== *)
theory CProxy_TranConn
  imports CProxy_CtlConn
begin

text \<open>
  \<^verbatim>\<open>lib/tran_conn.h\<close>: a connection that forwards bytes to a peer descriptor through a pipe, with
  the counters of the closing protocol, and what \<^verbatim>\<open>PublicConn\<close> (server) and \<^verbatim>\<open>LocalConn\<close> (client)
  add to it: these two classes have the same members and the same code, only the tunnel method
  they call on the end of the stream differs. The three \<^verbatim>\<open>int\<close> counters are 32-bit words, so
  that \<open>- 1\<close> is the sentinel and additions wrap.
\<close>

section \<open>The forwarding connection\<close>

record tran_conn = conn +
  pipe :: "byte list"
  peer_conn_fd :: int
  tc_thread :: nat
  tran_count :: u32
  recv_count :: u32
  theoretical_total_recv_count :: u32

text \<open>The base part of the constructors: \<open>peer0\<close> is the uninitialised \<^verbatim>\<open>peer_conn_fd_\<close>.\<close>

definition TranConn_new :: "bool \<Rightarrow> bool \<Rightarrow> int \<Rightarrow> int \<Rightarrow> nat \<Rightarrow> u32 \<Rightarrow> tran_conn" where
  "TranConn_new pc0 be0 peer0 fd thread evs =
     \<lparr>conn_fd = fd, conn_chan = SetEvents evs (Channel_new 0 0 pc0 fd), in_buffer_empty = be0,
      armed = None, sock_rx = [], sock_tx = [], sock_wr = [], sock_errno = EOTHER 0,
      pipe = [], peer_conn_fd = peer0, tc_thread = thread,
      tran_count = 0, recv_count = 0, theoretical_total_recv_count = -1\<rparr>"

definition setPeerConnFd :: "int \<Rightarrow> 'a tran_conn_scheme \<Rightarrow> 'a tran_conn_scheme" where
  "setPeerConnFd fd c = c\<lparr>peer_conn_fd := fd\<rparr>"

definition getThread :: "'a tran_conn_scheme \<Rightarrow> nat" where
  "getThread c = tc_thread c"

definition getRecvCount :: "'a tran_conn_scheme \<Rightarrow> u32" where
  "getRecvCount c = recv_count c"

definition incrRecvCount :: "u32 \<Rightarrow> 'a tran_conn_scheme \<Rightarrow> 'a tran_conn_scheme" where
  "incrRecvCount n c = c\<lparr>recv_count := recv_count c + n\<rparr>"

definition resetRecvCount :: "'a tran_conn_scheme \<Rightarrow> 'a tran_conn_scheme" where
  "resetRecvCount c = c\<lparr>recv_count := 0\<rparr>"

definition getTranCount :: "'a tran_conn_scheme \<Rightarrow> u32" where
  "getTranCount c = tran_count c"

definition incrTranCount :: "u32 \<Rightarrow> 'a tran_conn_scheme \<Rightarrow> 'a tran_conn_scheme" where
  "incrTranCount n c = c\<lparr>tran_count := tran_count c + n\<rparr>"

definition resetTranCount :: "'a tran_conn_scheme \<Rightarrow> 'a tran_conn_scheme" where
  "resetTranCount c = c\<lparr>tran_count := 0\<rparr>"

definition getTheoreticalTotalRecvCount :: "'a tran_conn_scheme \<Rightarrow> u32" where
  "getTheoreticalTotalRecvCount c = theoretical_total_recv_count c"

definition incrTheoreticalTotalRecvCount :: "u32 \<Rightarrow> 'a tran_conn_scheme \<Rightarrow> 'a tran_conn_scheme" where
  "incrTheoreticalTotalRecvCount n c =
     (if theoretical_total_recv_count c = -1 then c\<lparr>theoretical_total_recv_count := n\<rparr>
      else c\<lparr>theoretical_total_recv_count := theoretical_total_recv_count c + n\<rparr>)"

definition resetTheoreticalTotalRecvCount :: "'a tran_conn_scheme \<Rightarrow> 'a tran_conn_scheme" where
  "resetTheoreticalTotalRecvCount c = c\<lparr>theoretical_total_recv_count := -1\<rparr>"

text \<open>Closing both ends of the pipe and creating a new one loses what was in it.\<close>

definition resetPipeFd :: "'a tran_conn_scheme \<Rightarrow> 'a tran_conn_scheme" where
  "resetPipeFd c = c\<lparr>pipe := []\<rparr>"

lemmas counter_defs = setPeerConnFd_def getThread_def getRecvCount_def incrRecvCount_def
  resetRecvCount_def getTranCount_def incrTranCount_def resetTranCount_def
  getTheoreticalTotalRecvCount_def incrTheoreticalTotalRecvCount_def
  resetTheoreticalTotalRecvCount_def resetPipeFd_def

section \<open>Splicing\<close>

text \<open>
  \<^verbatim>\<open>splice(fd_, NULL, pipe_fds_[1], NULL, 2048, ..)\<close> with \<^verbatim>\<open>SPLICE_F_NONBLOCK\<close>: \<open>None\<close> is a result
  of \<open>-1\<close> (nothing to read yet, a full pipe or an error), \<open>Some []\<close> the end of the stream.
\<close>

fun splice_in :: "rx_event list \<Rightarrow> byte list option \<times> rx_event list" where
  "splice_in [] = (None, [])"
| "splice_in (Chunk bs # q) =
     (if bs = [] then splice_in q
      else (Some (take 2048 bs), if length bs \<le> 2048 then q else Chunk (drop 2048 bs) # q))"
| "splice_in (Eof # q) = (Some [], Eof # q)"
| "splice_in (RFail e # q) = (None, q)"

definition sock_to_pipe :: "'a tran_conn_scheme \<Rightarrow> byte list option \<times> 'a tran_conn_scheme" where
  "sock_to_pipe c =
     (let (r, q) = splice_in (sock_rx c)
      in (r, c\<lparr>sock_rx := q, pipe := pipe c @ (case r of None \<Rightarrow> [] | Some bs \<Rightarrow> bs)\<rparr>))"

text \<open>
  \<^verbatim>\<open>splice(pipe_fds_[0], NULL, peer_conn_fd_, NULL, n, ..)\<close>: the peer's socket takes a prefix of
  the pipe, at most \<open>n\<close> bytes; a request for no bytes returns 0.
\<close>

definition pipe_to_peer ::
    "wr_resp \<Rightarrow> nat \<Rightarrow> 'a tran_conn_scheme \<Rightarrow> byte list option \<times> 'a tran_conn_scheme" where
  "pipe_to_peer w n c =
     (case w of
        WFail e \<Rightarrow> if n = 0 then (Some [], c) else (None, c)
      | Accept k \<Rightarrow> (Some (take (min k n) (pipe c)), c\<lparr>pipe := drop (min k n) (pipe c)\<rparr>))"

section \<open>Public and local connections\<close>

record edge_conn = tran_conn +
  ec_tun :: oid
  ec_proxy_id :: cstring
  closing :: bool

definition edge_conn_new :: "bool \<Rightarrow> bool \<Rightarrow> int \<Rightarrow> int \<Rightarrow> nat \<Rightarrow> oid \<Rightarrow> cstring \<Rightarrow> edge_conn" where
  "edge_conn_new pc0 be0 peer0 fd thread tun pid =
     upd_chan (SetNeedCloseWhenDelete False)
       (tran_conn.extend (TranConn_new pc0 be0 peer0 fd thread (EPOLLET OR EPOLLIN OR EPOLLRDHUP))
          (edge_conn.fields tun pid False))"

text \<open>
  What \<^verbatim>\<open>handleRead\<close> asks its tunnel: \<open>FinSeen n\<close> is the call
  \<^verbatim>\<open>tun_->shutdownFromPublic(proxy_id_, n)\<close> (or \<^verbatim>\<open>shutdownFromLocal\<close>) made before \<^verbatim>\<open>closing_\<close> is set.
  The second component holds the bytes the peer's socket accepted.
\<close>

datatype edge_call = NoFin | FinSeen u32

definition edge_handleRead :: "wr_resp \<Rightarrow> edge_conn \<Rightarrow> edge_call \<times> byte list \<times> edge_conn" where
  "edge_handleRead w c =
     (case sock_to_pipe c of
        (None, c1) \<Rightarrow> (NoFin, [], c1)
      | (Some got, c1) \<Rightarrow>
          if got = [] \<and> \<not> closing c1 then (FinSeen (getTranCount c1), [], c1\<lparr>closing := True\<rparr>)
          else case pipe_to_peer w (length got) c1 of
                 (None, c2) \<Rightarrow> (NoFin, [], c2)
               | (Some sent, c2) \<Rightarrow> (NoFin, sent, incrTranCount (of_nat (length sent)) c2))"

definition edge_postHandle :: "edge_conn \<Rightarrow> edge_conn" where
  "edge_postHandle c =
     (if closing c then c
      else rearm (upd_chan (SetEvents (EPOLLET OR EPOLLIN OR EPOLLRDHUP)) c))"

interpretation edge_owner: channel_owner conn_chan "\<lambda>ch c. (c :: edge_conn)\<lparr>conn_chan := ch\<rparr>"
  by unfold_locales auto

section \<open>Forwarding as a contract\<close>

text \<open>All the bytes a socket will deliver before its stream ends, failures in between included.\<close>

fun rx_stream :: "rx_event list \<Rightarrow> byte list" where
  "rx_stream [] = []"
| "rx_stream (Chunk bs # q) = bs @ rx_stream q"
| "rx_stream (Eof # q) = []"
| "rx_stream (RFail e # q) = rx_stream q"

fun rx_work :: "rx_event list \<Rightarrow> nat" where
  "rx_work [] = 0"
| "rx_work (Chunk bs # q) = Suc (length bs + rx_work q)"
| "rx_work (Eof # q) = 0"
| "rx_work (RFail e # q) = Suc (rx_work q)"

text \<open>A run of read events, with the answers of the peer's socket to each.\<close>

fun feed :: "(wr_resp \<Rightarrow> 's \<Rightarrow> byte list \<times> 's) \<Rightarrow> wr_resp list \<Rightarrow> 's \<Rightarrow> byte list \<times> 's" where
  "feed step [] s = ([], s)"
| "feed step (w # ws) s =
     (let (out, s1) = step w s; (outs, s2) = feed step ws s1 in (out @ outs, s2))"

lemma rx_work_0: "rx_work q = 0 \<Longrightarrow> rx_stream q = []"
  by (cases q rule: rx_work.cases) auto

locale forwarder =
  fixes step :: "wr_resp \<Rightarrow> 's \<Rightarrow> byte list \<times> 's"
    and rx :: "'s \<Rightarrow> rx_event list"
    and held :: "'s \<Rightarrow> byte list"
    and count :: "'s \<Rightarrow> u32"
    and live :: "'s \<Rightarrow> bool"
  assumes live_step: "live s \<Longrightarrow> live (snd (step w s))"
    and conserve: "live s \<Longrightarrow>
          held s @ rx_stream (rx s) = fst (step w s) @ held (snd (step w s)) @ rx_stream (rx (snd (step w s)))"
    and counted: "live s \<Longrightarrow> count (snd (step w s)) = count s + of_nat (length (fst (step w s)))"
    and held_grows: "live s \<Longrightarrow> length (held s) \<le> length (held (snd (step w s)))"
    and prompt: "live s \<Longrightarrow> 2048 \<le> k \<Longrightarrow> length (held (snd (step (Accept k) s))) = length (held s)"
    and progress: "live s \<Longrightarrow> rx_stream (rx s) \<noteq> [] \<Longrightarrow> rx_work (rx (snd (step w s))) < rx_work (rx s)"
begin

lemma feed_Cons:
  "feed step (w # ws) s =
     (fst (step w s) @ fst (feed step ws (snd (step w s))), snd (feed step ws (snd (step w s))))"
  by (simp add: case_prod_unfold Let_def)

lemma live_feed: "live s \<Longrightarrow> live (snd (feed step ws s))"
  by (induction ws arbitrary: s) (simp_all add: feed_Cons live_step del: feed.simps(2))

text \<open>No byte is lost, invented or reordered.\<close>

lemma feed_conserves:
  "live s \<Longrightarrow> held s @ rx_stream (rx s) =
     fst (feed step ws s) @ held (snd (feed step ws s)) @ rx_stream (rx (snd (feed step ws s)))"
proof (induction ws arbitrary: s)
  case (Cons w ws)
  from Cons.IH [OF live_step [OF Cons.prems, of w]] conserve [OF Cons.prems, of w] show ?case
    by (simp add: feed_Cons del: feed.simps(2))
qed simp

lemma feed_counts:
  "live s \<Longrightarrow> count (snd (feed step ws s)) = count s + of_nat (length (fst (feed step ws s)))"
  by (induction ws arbitrary: s) (simp_all add: feed_Cons live_step counted del: feed.simps(2))

text \<open>What is left in the pipe stays there.\<close>

lemma feed_held_grows: "live s \<Longrightarrow> length (held s) \<le> length (held (snd (feed step ws s)))"
proof (induction ws arbitrary: s)
  case (Cons w ws)
  from Cons.IH [OF live_step [OF Cons.prems, of w]] held_grows [OF Cons.prems, of w] show ?case
    by (simp add: feed_Cons del: feed.simps(2))
qed simp

text \<open>On a peer that takes everything, enough events forward the whole stream.\<close>

lemma feed_drains:
  assumes "live s" "held s = []" "rx_work (rx s) \<le> length ws" "list_all (\<lambda>w. \<exists>k\<ge>2048. w = Accept k) ws"
  shows "fst (feed step ws s) = rx_stream (rx s)"
  using assms
proof (induction ws arbitrary: s)
  case Nil
  then have "rx_work (rx s) = 0" by simp
  then have "rx_stream (rx s) = []" by (rule rx_work_0)
  then show ?case by simp
next
  case (Cons w ws)
  then obtain k where k: "w = Accept k" "2048 \<le> k" by auto
  let ?s = "snd (step w s)"
  have held: "held ?s = []" using prompt [OF Cons.prems(1) k(2)] Cons.prems(2) k(1) by simp
  have c: "rx_stream (rx s) = fst (step w s) @ rx_stream (rx ?s)"
    using conserve [OF Cons.prems(1), of w] Cons.prems(2) held by simp
  show ?case
  proof (cases "rx_stream (rx s) = []")
    case True
    have "held s @ rx_stream (rx s) = []" using True Cons.prems(2) by simp
    with feed_conserves [OF Cons.prems(1), of "w # ws"] True show ?thesis by auto
  next
    case False
    from progress [OF Cons.prems(1) False, of w] Cons.prems(3)
    have "rx_work (rx ?s) \<le> length ws" by simp
    with Cons.IH [of ?s] Cons.prems(1,4) live_step held c show ?thesis
      by (simp add: feed_Cons del: feed.simps(2))
  qed
qed

end

lemma splice_in_stream:
  "splice_in q = (r, q') \<Longrightarrow> rx_stream q = (case r of None \<Rightarrow> [] | Some bs \<Rightarrow> bs) @ rx_stream q'"
  by (induction q rule: splice_in.induct) (auto split: if_splits)

lemma splice_in_end: "splice_in q = (Some [], q') \<Longrightarrow> rx_stream q = []"
  by (induction q rule: splice_in.induct) (auto split: if_splits)

lemma splice_in_length: "splice_in q = (Some bs, q') \<Longrightarrow> length bs \<le> 2048"
  by (induction q rule: splice_in.induct) (auto split: if_splits)

lemma splice_in_work: "rx_stream q \<noteq> [] \<Longrightarrow> splice_in q = (r, q') \<Longrightarrow> rx_work q' < rx_work q"
  by (induction q rule: splice_in.induct) (fastforce split: if_splits)+

lemmas forward_defs = sock_to_pipe_def pipe_to_peer_def counter_defs

interpretation edge: forwarder "\<lambda>w c. snd (edge_handleRead w c)" sock_rx pipe tran_count "\<lambda>_. True"
proof unfold_locales
  fix w and s :: edge_conn and k :: nat
  obtain r q where q: "splice_in (sock_rx s) = (r, q)" by (cases "splice_in (sock_rx s)")
  note defs = edge_handleRead_def forward_defs q Let_def
  show "pipe s @ rx_stream (sock_rx s) =
      fst (snd (edge_handleRead w s)) @ pipe (snd (snd (edge_handleRead w s))) @
      rx_stream (sock_rx (snd (snd (edge_handleRead w s))))"
    using splice_in_stream [OF q]
    by (cases r; cases w) (simp_all add: defs del: take_append drop_append flip: append_assoc)
  show "tran_count (snd (snd (edge_handleRead w s))) = tran_count s + of_nat (length (fst (snd (edge_handleRead w s))))"
    by (cases r; cases w) (simp_all add: defs)
  show "length (pipe s) \<le> length (pipe (snd (snd (edge_handleRead w s))))"
    by (cases r; cases w) (auto simp: defs)
  show "length (pipe (snd (snd (edge_handleRead (Accept k) s)))) = length (pipe s)" if "2048 \<le> k"
    using splice_in_length [of "sock_rx s"] q that by (cases r) (auto simp: defs)
  show "rx_work (sock_rx (snd (snd (edge_handleRead w s)))) < rx_work (sock_rx s)"
    if "rx_stream (sock_rx s) \<noteq> []"
    using splice_in_work [OF that q] by (cases r; cases w) (simp_all add: defs)
qed simp_all

section \<open>Properties\<close>

text \<open>A public or local connection forwards its stream unchanged: over any run of read events and
  whatever the peer's socket accepts, the bytes delivered to the peer, followed by what sits in the
  pipe and by what is still to be read, are the original stream in its original order, and
  \<^verbatim>\<open>tran_count_\<close> has grown by exactly the number of bytes delivered.\<close>
theorem edge_forwards_stream:
  "let (out, c') = feed (\<lambda>w c. snd (edge_handleRead w c)) ws c
   in pipe c @ rx_stream (sock_rx c) = out @ pipe c' @ rx_stream (sock_rx c') \<and>
      tran_count c' = tran_count c + of_nat (length out)"
  using edge.feed_conserves [where s = c and ws = ws] edge.feed_counts [where s = c and ws = ws] by (simp add: case_prod_unfold Let_def)

lemma edge_fin_cases:
  assumes "edge_handleRead w c = (FinSeen n, out, c')"
  shows "n = tran_count c \<and> out = [] \<and> pipe c' = pipe c \<and> rx_stream (sock_rx c) = [] \<and> \<not> closing c \<and> closing c'"
proof -
  obtain r q where q: "splice_in (sock_rx c) = (r, q)" by (cases "splice_in (sock_rx c)")
  from assms q splice_in_end [of "sock_rx c"] show ?thesis
    by (cases r) (auto simp: edge_handleRead_def forward_defs Let_def split: if_splits wr_resp.splits)
qed

text \<open>The end of the stream is reported after everything before it: when a new connection calls
  its tunnel with a count, its stream has been read completely, the count is the number of bytes
  the peer accepted, and what was read but not accepted is still in the pipe (and is not counted,
  so the other side never learns of it).\<close>
theorem edge_fin_counts_delivered:
  assumes "pipe c = []" "tran_count c = 0"
    and "feed (\<lambda>w c. snd (edge_handleRead w c)) ws c = (out, c1)"
    and "edge_handleRead w c1 = (FinSeen n, out', c2)"
  shows "out @ pipe c2 = rx_stream (sock_rx c) \<and> n = of_nat (length out) \<and> closing c2"
  using edge.feed_conserves [where s = c and ws = ws] edge.feed_counts [where s = c and ws = ws]
    edge_fin_cases [OF assms(4)] assms(1-3) by simp

definition demo_edge :: edge_conn where
  "demo_edge = (edge_conn_new False False 0 9 0 0 [65])\<lparr>sock_rx := [Chunk [1, 2, 3], Eof]\<rparr>"

lemmas edge_eval = edge_handleRead_def forward_defs edge_conn_new_def TranConn_new_def upd_chan_def
  Channel_new_def SetEvents_def SetNeedCloseWhenDelete_def tran_conn.defs edge_conn.defs demo_edge_def

theorem edge_fin_counts_delivered_witness:
  "\<exists>c2. edge_handleRead (Accept 0) (snd (feed (\<lambda>w c. snd (edge_handleRead w c)) [Accept 2] demo_edge)) =
       (FinSeen 2, [], c2) \<and> [1, 2] @ pipe c2 = [1, 2, 3]"
proof -
  let ?c1 = "snd (feed (\<lambda>w c. snd (edge_handleRead w c)) [Accept 2] demo_edge)"
  have 1: "feed (\<lambda>w c. snd (edge_handleRead w c)) [Accept 2] demo_edge = ([1, 2], ?c1)"
    by (simp add: edge_eval)
  obtain n out c2 where 2: "edge_handleRead (Accept 0) ?c1 = (FinSeen n, out, c2)" "out = []"
    by (simp add: edge_eval)
  from edge_fin_counts_delivered [OF _ _ 1 2(1)] 2 show ?thesis
    by (simp add: edge_eval)
qed

text \<open>A peer that takes everything gets everything: with as many read events as the stream needs,
  each answered by a socket with room for a whole splice, the connection has delivered exactly its
  stream.\<close>
theorem edge_delivers_all:
  assumes "pipe c = []" "rx_work (sock_rx c) \<le> length ws" "list_all (\<lambda>w. \<exists>k\<ge>2048. w = Accept k) ws"
  shows "fst (feed (\<lambda>w c. snd (edge_handleRead w c)) ws c) = rx_stream (sock_rx c)"
  by (rule edge.feed_drains) (use assms in simp_all)

theorem edge_delivers_all_witness:
  "fst (feed (\<lambda>w c. snd (edge_handleRead w c)) (replicate 5 (Accept 2048)) demo_edge) = [1, 2, 3]"
  using edge_delivers_all [of demo_edge "replicate 5 (Accept 2048)"]
  by (simp add: edge_eval list_all_iff numeral_eq_Suc)

end
