(* ===== verification/CProxy_ProxyConn.thy ===== *)
theory CProxy_ProxyConn
  imports CProxy_TranConn
begin

text \<open>
  \<^verbatim>\<open>lib/proxy_conn.h\<close> and \<^verbatim>\<open>lib/proxy_conn.cpp\<close>: the connection between client and server that carries
  the data of one public connection at a time. Started, it forwards what it receives to its peer
  and counts it; idle, it reads control frames. The handlers its owner installs are not run here:
  \<^verbatim>\<open>handleRead\<close> and \<^verbatim>\<open>postHandle\<close> return the call they end with and the owner (the tunnel) applies it.
\<close>

section \<open>The connection\<close>

record proxy_conn = tran_conn +
  pc_out_buffer :: buffer
  is_start :: bool
  half_close :: bool
  peerConn :: "oid option"
  proxy_id :: cstring

definition ProxyConn_new :: "junk \<Rightarrow> bool \<Rightarrow> bool \<Rightarrow> int \<Rightarrow> int \<Rightarrow> nat \<Rightarrow> proxy_conn" where
  "ProxyConn_new j pc0 be0 peer0 fd thread =
     tran_conn.extend
       (TranConn_new pc0 be0 peer0 fd thread (EPOLLET OR EPOLLIN OR EPOLLOUT OR EPOLLRDHUP))
       (proxy_conn.fields (Buffer_new j 1024 65536) False False None [])"

definition setProxyID :: "cstring \<Rightarrow> proxy_conn \<Rightarrow> proxy_conn" where
  "setProxyID i c = c\<lparr>proxy_id := i\<rparr>"

definition getProxyID :: "proxy_conn \<Rightarrow> cstring" where
  "getProxyID c = proxy_id c"

text \<open>\<^verbatim>\<open>thread->AddConn(conn)\<close> on a descriptor the poller does not know.\<close>

definition AddConn :: "'a conn_scheme \<Rightarrow> 'a conn_scheme" where
  "AddConn c = c\<lparr>armed := Some (events (conn_chan c))\<rparr>"

text \<open>\<^verbatim>\<open>start(conn)\<close> changes both ends: the proxy connection and its new peer (object \<open>o\<close>).\<close>

definition ProxyConn_start ::
    "oid \<Rightarrow> proxy_conn \<times> 'a tran_conn_scheme \<Rightarrow> proxy_conn \<times> 'a tran_conn_scheme" where
  "ProxyConn_start oid = (\<lambda>(p, c).
     (setPeerConnFd (conn_fd c) (p\<lparr>is_start := True, peerConn := Some oid\<rparr>),
      AddConn (setPeerConnFd (conn_fd p) c)))"

definition getPeerConnFd :: "(oid \<Rightarrow> 'a conn_scheme option) \<Rightarrow> proxy_conn \<Rightarrow> int outcome" where
  "getPeerConnFd h p =
     (case peerConn p of None \<Rightarrow> Ub NullDeref
      | Some oid \<Rightarrow> (case h oid of None \<Rightarrow> Ub NullDeref | Some c \<Rightarrow> Ok (conn_fd c)))"

section \<open>Reading\<close>

datatype proxy_call =
    NoCall
  | CloseLocalPeer                            \<comment> \<open>\<^verbatim>\<open>closeLocalPeerConnHandler_\<close>\<close>
  | ProxyMsg ProxyCtlMsgType "byte list"      \<comment> \<open>the handler of a control message\<close>

text \<open>The started half of \<^verbatim>\<open>handleRead\<close>.\<close>

definition ProxyConn_forward :: "wr_resp \<Rightarrow> proxy_conn \<Rightarrow> proxy_call \<times> byte list \<times> proxy_conn" where
  "ProxyConn_forward w c =
     (case sock_to_pipe c of
        (None, c1) \<Rightarrow> (NoCall, [], c1)
      | (Some got, c1) \<Rightarrow>
          if got = [] then (NoCall, [], c1\<lparr>in_buffer_empty := True\<rparr>)
          else case pipe_to_peer w (length got) c1 of
                 (None, c2) \<Rightarrow> (NoCall, [], c2)
               | (Some sent, c2) \<Rightarrow>
                   let c3 = incrRecvCount (of_nat (length sent)) c2
                   in (if getRecvCount c3 = getTheoreticalTotalRecvCount c3 then CloseLocalPeer else NoCall,
                       sent, c3))"

fun sizeof_proxy_body :: "ProxyCtlMsgType \<Rightarrow> nat" where
  "sizeof_proxy_body ProxyMetaSet = sizeof_ProxyMetaSetMsg"
| "sizeof_proxy_body StartProxyConnReq = sizeof_StartProxyConnReqMsg"
| "sizeof_proxy_body StartProxyConnRsp = sizeof_StartProxyConnRspMsg"

definition proxy_switch :: "junk \<Rightarrow> u32 \<Rightarrow> byte list \<Rightarrow> proxy_call outcome" where
  "proxy_switch j len mem =
     (let m = \<lparr>pmsg_len = len, pmsg_type = get_u32 mem 4, pmsg_data = drop 8 mem\<rparr>;
          n = get_proxy_ctl_msg_body_size m
      in case ProxyCtlMsgType_of (pmsg_type m) of
           None \<Rightarrow> Ok NoCall
         | Some ty \<Rightarrow>
             bind_outcome (copy_body j (sizeof_proxy_body ty) n (pmsg_data m)) (\<lambda>b. Ok (ProxyMsg ty b)))"

definition ProxyConn_handleRead ::
    "junk \<Rightarrow> wr_resp \<Rightarrow> proxy_conn \<Rightarrow> (proxy_call \<times> byte list \<times> proxy_conn) outcome" where
  "ProxyConn_handleRead j w c =
     (if is_start c then Ok (ProxyConn_forward w c)
      else bind_outcome (read_frame j sizeof_ProxyCtlMsg c)
             (\<lambda>(frame, c'). case frame of
                  None \<Rightarrow> Ok (NoCall, [], c')
                | Some (len, mem) \<Rightarrow> bind_outcome (proxy_switch j len mem) (\<lambda>call. Ok (call, [], c'))))"

section \<open>Writing\<close>

definition ProxyConn_handleWrite :: "proxy_conn \<Rightarrow> proxy_conn outcome" where
  "ProxyConn_handleWrite c =
     (if GetUnreadSize (pc_out_buffer c) \<le> 0 then Ok c
      else bind_outcome (WriteToSock (sock_wr c) (sock_errno c) (pc_out_buffer c))
             (\<lambda>(sent_num, sent, b, rest).
                let c1 = c\<lparr>pc_out_buffer := b, sock_tx := sock_tx c @ sent, sock_wr := rest\<rparr>
                in Ok (if GetUnreadSize b > 0 then upd_chan (AddEvents EPOLLOUT) c1 else c1)))"

text \<open>\<^verbatim>\<open>postHandle\<close>: the flag asks the owner to run its close handler.\<close>

definition ProxyConn_postHandle :: "proxy_conn \<Rightarrow> bool \<times> proxy_conn" where
  "ProxyConn_postHandle c =
     (if in_buffer_empty c \<and> IsPeerClosed (conn_chan c) then (True, c)
      else let c1 = upd_chan (SetEvents (EPOLLET OR EPOLLIN OR EPOLLRDHUP)) c;
               c2 = (if GetUnreadSize (pc_out_buffer c1) > 0 then upd_chan (AddEvents EPOLLOUT) c1 else c1)
           in (False, rearm c2))"

definition ProxyConn_SendMsg :: "junk \<Rightarrow> ProxyCtlMsg \<Rightarrow> proxy_conn \<Rightarrow> proxy_conn outcome" where
  "ProxyConn_SendMsg j m c =
     (let wire = ProxyCtlMsg_bytes (m\<lparr>pmsg_len := htonl (pmsg_len m)\<rparr>)
      in bind_outcome (WriteToBuffer (pc_out_buffer c) wire (to_int32 (uint (pmsg_len m))) j)
           (\<lambda>(write_num, b).
              let c1 = c\<lparr>pc_out_buffer := b\<rparr>
              in if write_num \<noteq> ucast (pmsg_len m) then Ok c1
                 else Ok (rearm (upd_chan (AddEvents EPOLLOUT) c1))))"

text \<open>
  \<^verbatim>\<open>send_msg_dirct\<close> writes to the socket once, past the buffer; \<open>w\<close> is the kernel's answer. A
  partial write is reported as a failure although the bytes are gone.
\<close>

definition send_msg_dirct :: "wr_resp \<Rightarrow> ProxyCtlMsg \<Rightarrow> proxy_conn \<Rightarrow> int \<times> proxy_conn" where
  "send_msg_dirct w m c =
     (let n = unat (pmsg_len m);
          wire = take n (ProxyCtlMsg_bytes (m\<lparr>pmsg_len := htonl (pmsg_len m)\<rparr>));
          (writeNum, sent) = (case w of WFail e \<Rightarrow> (-1 :: size_t, []) | Accept k \<Rightarrow> (of_nat (min k n), take k wire));
          c1 = c\<lparr>sock_tx := sock_tx c @ sent\<rparr>
      in if writeNum \<noteq> ucast (pmsg_len m) then (-1, c1) else (0, c1))"

section \<open>Closing\<close>

definition resetConn :: "proxy_conn \<Rightarrow> proxy_conn" where
  "resetConn c =
     (let c1 = resetTheoreticalTotalRecvCount (resetTranCount (resetRecvCount (setPeerConnFd 0 c)))
      in c1\<lparr>is_start := False, half_close := False\<rparr>)"

text \<open>
  The result is whether the connection is free now; the descriptor is the one \<^verbatim>\<open>shutdown\<close> closes
  the writing direction of, before anything else.
\<close>

definition shutdownFromRemote :: "proxy_conn \<Rightarrow> int \<times> bool \<times> proxy_conn" where
  "shutdownFromRemote c =
     (peer_conn_fd c,
      if half_close c then (True, resetConn c) else (False, c\<lparr>half_close := True\<rparr>))"

definition shutdownFromLocal :: "proxy_conn \<Rightarrow> bool \<times> proxy_conn" where
  "shutdownFromLocal c = (if half_close c then (True, resetConn c) else (False, c\<lparr>half_close := True\<rparr>))"

interpretation proxy_owner: channel_owner conn_chan "\<lambda>ch c. (c :: proxy_conn)\<lparr>conn_chan := ch\<rparr>"
  by unfold_locales auto

section \<open>Heaps of connections\<close>

text \<open>Following a pointer into one of the heaps of a program state.\<close>

definition deref :: "('s \<Rightarrow> oid \<Rightarrow> 'a option) \<Rightarrow> oid \<Rightarrow> 's \<Rightarrow> 'a outcome" where
  "deref h oid s = (case h s oid of None \<Rightarrow> Ub NullDeref | Some x \<Rightarrow> Ok x)"

context object_graph
begin

lemma keeps_deref:
  assumes "h s oid \<noteq> None" "\<And>x. h s oid = Some x \<Longrightarrow> keeps invar le s (f x)"
  shows "keeps invar le s (bind_outcome (deref h oid s) f)"
  using assms by (auto simp: deref_def)

end

text \<open>Bytes the kernel accepted on a descriptor that belongs to one of the connections.\<close>

definition receive_on :: "int \<Rightarrow> byte list \<Rightarrow> 'a conn_scheme \<Rightarrow> 'a conn_scheme" where
  "receive_on fd bs c = (if conn_fd c = fd then c\<lparr>sock_tx := sock_tx c @ bs\<rparr> else c)"

section \<open>Forwarding\<close>

text \<open>A read event on a started connection, as a step of the forwarding contract.\<close>

definition proxy_step :: "junk \<Rightarrow> wr_resp \<Rightarrow> proxy_conn \<Rightarrow> byte list \<times> proxy_conn" where
  "proxy_step j w c = (case ProxyConn_handleRead j w c of Ok (call, out, c') \<Rightarrow> (out, c') | _ \<Rightarrow> ([], c))"

lemma proxy_step_started: "is_start c \<Longrightarrow> proxy_step j w c = snd (ProxyConn_forward w c)"
  by (simp add: proxy_step_def ProxyConn_handleRead_def case_prod_unfold)

interpretation px: forwarder "proxy_step j" sock_rx pipe recv_count is_start
proof unfold_locales
  fix w and s :: proxy_conn and k :: nat
  assume st: "is_start s"
  obtain r q where q: "splice_in (sock_rx s) = (r, q)" by (cases "splice_in (sock_rx s)")
  note defs = proxy_step_started [OF st] ProxyConn_forward_def forward_defs q Let_def
  show "is_start (snd (proxy_step j w s))"
    using st by (cases r; cases w) (simp_all add: defs)
  show "pipe s @ rx_stream (sock_rx s) =
      fst (proxy_step j w s) @ pipe (snd (proxy_step j w s)) @ rx_stream (sock_rx (snd (proxy_step j w s)))"
    using splice_in_stream [OF q]
    by (cases r; cases w) (simp_all add: defs del: take_append drop_append flip: append_assoc)
  show "recv_count (snd (proxy_step j w s)) = recv_count s + of_nat (length (fst (proxy_step j w s)))"
    by (cases r; cases w) (simp_all add: defs)
  show "length (pipe s) \<le> length (pipe (snd (proxy_step j w s)))"
    by (cases r; cases w) (auto simp: defs)
  show "length (pipe (snd (proxy_step j (Accept k) s))) = length (pipe s)" if "2048 \<le> k"
    using splice_in_length [of "sock_rx s"] q that by (cases r) (auto simp: defs)
  show "rx_work (sock_rx (snd (proxy_step j w s))) < rx_work (sock_rx s)" if "rx_stream (sock_rx s) \<noteq> []"
    using splice_in_work [OF that q] by (cases r; cases w) (simp_all add: defs)
qed

lemma proxy_step_theoretical:
  assumes "is_start c"
  shows "theoretical_total_recv_count (snd (proxy_step j w c)) = theoretical_total_recv_count c"
proof -
  obtain r q where q: "splice_in (sock_rx c) = (r, q)" by (cases "splice_in (sock_rx c)")
  then show ?thesis
    by (cases r; cases w) (simp_all add: proxy_step_started [OF assms] ProxyConn_forward_def forward_defs Let_def)
qed

lemma feed_theoretical:
  "is_start c \<Longrightarrow> theoretical_total_recv_count (snd (feed (proxy_step j) ws c)) = theoretical_total_recv_count c"
proof (induction ws arbitrary: c)
  case (Cons w ws)
  from Cons.IH [OF px.live_step [OF Cons.prems, of j w]] proxy_step_theoretical [OF Cons.prems] show ?case
    by (simp add: px.feed_Cons del: feed.simps(2))
qed simp

lemma close_call:
  assumes "is_start c" "ProxyConn_handleRead j w c = Ok (CloseLocalPeer, out, c')"
  shows "recv_count c' = theoretical_total_recv_count c' \<and> proxy_step j w c = (out, c')"
  using assms
  by (auto simp: proxy_step_def ProxyConn_handleRead_def ProxyConn_forward_def counter_defs Let_def
      split: option.splits prod.splits if_splits)

lemma of_nat_u32_inject:
  assumes "m < 2 ^ 32" "n < 2 ^ 32" "(of_nat m :: u32) = of_nat n"
  shows "m = n"
  using arg_cong [OF assms(3), of unat] assms(1,2) by simp

lemma of_nat_u32_sentinel: "n < 2 ^ 32 - 1 \<Longrightarrow> (of_nat n :: u32) \<noteq> -1"
proof
  assume n: "n < 2 ^ 32 - 1" and eq: "(of_nat n :: u32) = -1"
  have "unat (-1 :: u32) = 2 ^ 32 - 1" by (simp add: unsigned_minus_1_eq_mask mask_eq_exp_minus_1)
  with arg_cong [OF eq, of unat] n show False by simp
qed

section \<open>Control frames on an idle connection\<close>

lemma proxy_switch_code:
  assumes "get_u32 mem 4 = ProxyCtlMsgType_code ty"
  shows "proxy_switch j len mem =
    bind_outcome (copy_body j (sizeof_proxy_body ty) (ucast len - 4 - 4) (drop 8 mem)) (\<lambda>b. Ok (ProxyMsg ty b))"
  by (simp add: proxy_switch_def get_proxy_ctl_msg_body_size_def Let_def assms)

lemma ProxyConn_handleRead_wire:
  assumes "\<not> is_start c" "rx_data (sock_rx c) = wire_frame (ProxyCtlMsgType_code ty) d @ rest" "length d \<le> 2048"
  shows "\<exists>q. ProxyConn_handleRead j w c =
      (if length d \<le> sizeof_proxy_body ty
       then Ok (ProxyMsg ty (d @ drop (length d) (fresh j (sizeof_proxy_body ty))), [], c\<lparr>sock_rx := q\<rparr>)
       else Ub StackOverflow) \<and> rx_data q = rest \<and> rx_ends q = rx_ends (sock_rx c)"
proof -
  obtain q mem where r: "read_frame j sizeof_ProxyCtlMsg c = Ok (Some (of_nat (8 + length d), mem), c\<lparr>sock_rx := q\<rparr>)"
      "get_u32 mem 4 = ProxyCtlMsgType_code ty" "take (length d) (drop 8 mem) = d" "rx_data q = rest"
      "rx_ends q = rx_ends (sock_rx c)"
    using read_frame_wire [OF assms(2,3), of sizeof_ProxyCtlMsg j] assms(3) by (auto simp: sizeof_defs)
  have "unat (of_nat (length d) :: size_t) = length d" using assms(3) by simp
  then have "proxy_switch j (of_nat (8 + length d)) mem =
      (if length d \<le> sizeof_proxy_body ty
       then Ok (ProxyMsg ty (d @ drop (length d) (fresh j (sizeof_proxy_body ty)))) else Ub StackOverflow)"
    using r(3) body_size [OF assms(3)]
    by (simp add: proxy_switch_code [OF r(2)] copy_body_def del: of_nat_add)
  with r assms(1) show ?thesis by (auto simp: ProxyConn_handleRead_def)
qed

text \<open>The bytes a made message puts on the wire.\<close>

lemma proxy_wire:
  assumes "length d \<le> 2048"
  shows "\<exists>m. make_proxy_ctl_msg ty d = Ok m \<and> pmsg_len m = of_nat (8 + length d) \<and>
     take (8 + length d) (ProxyCtlMsg_bytes (m\<lparr>pmsg_len := htonl (pmsg_len m)\<rparr>)) = wire_frame (ProxyCtlMsgType_code ty) d \<and>
     8 + length d \<le> length (ProxyCtlMsg_bytes (m\<lparr>pmsg_len := htonl (pmsg_len m)\<rparr>))"
  using make_proxy_ctl_msg_Ok [of d ty] assms
  by (simp add: ProxyCtlMsg_bytes_def wire_frame_def sizeof_defs del: of_nat_add)

lemma ProxyConn_SendMsg_queues:
  assumes "buf_wf (pc_out_buffer c)" "length d \<le> 2048"
    and "int (8 + length d) \<le> getFreeSize (pc_out_buffer c) \<or>
         capacity (pc_out_buffer c) + int (8 + length d) \<le> max_capacity (pc_out_buffer c)"
  shows "\<exists>m b. make_proxy_ctl_msg ty d = Ok m \<and>
     ProxyConn_SendMsg j m c = Ok (rearm (upd_chan (AddEvents EPOLLOUT) (c\<lparr>pc_out_buffer := b\<rparr>))) \<and>
     buf_wf b \<and> contents b = contents (pc_out_buffer c) @ wire_frame (ProxyCtlMsgType_code ty) d \<and>
     max_capacity b = max_capacity (pc_out_buffer c)"
proof -
  let ?n = "8 + length d"
  obtain m where m: "make_proxy_ctl_msg ty d = Ok m" "pmsg_len m = of_nat ?n"
      "take ?n (ProxyCtlMsg_bytes (m\<lparr>pmsg_len := htonl (pmsg_len m)\<rparr>)) = wire_frame (ProxyCtlMsgType_code ty) d"
      "?n \<le> length (ProxyCtlMsg_bytes (m\<lparr>pmsg_len := htonl (pmsg_len m)\<rparr>))"
    using proxy_wire [OF assms(2), of ty] by blast
  let ?wire = "ProxyCtlMsg_bytes (m\<lparr>pmsg_len := htonl (pmsg_len m)\<rparr>)"
  have n: "to_int32 (uint (pmsg_len m)) = int ?n"
    using m(2) body_size(1) [OF assms(2)] assms(2)
    by (simp add: to_int32_id uint_nat del: of_nat_add)
  have n': "(ucast (pmsg_len m) :: size_t) = of_nat ?n"
    using m(2) body_size(2) [OF assms(2)] by simp
  from WriteToBuffer_spec [OF assms(1), of ?n ?wire j] m(4) assms(3)
  obtain b where "WriteToBuffer (pc_out_buffer c) ?wire (int ?n) j = Ok (of_nat ?n, b)" "buf_wf b"
      "contents b = contents (pc_out_buffer c) @ take ?n ?wire" "max_capacity b = max_capacity (pc_out_buffer c)"
    by fastforce
  with m(1,3) n n' show ?thesis
    by (intro exI [of _ m] exI [of _ b]) (simp add: ProxyConn_SendMsg_def Let_def del: of_nat_add)
qed

lemma ProxyConn_handleWrite_sends:
  assumes "buf_wf (pc_out_buffer c)" "data_size (pc_out_buffer c) < 2 ^ 31"
    and "list_all takes_data (sock_wr c)" "nat (GetUnreadSize (pc_out_buffer c)) \<le> length (sock_wr c)"
  shows "\<exists>c'. ProxyConn_handleWrite c = Ok c' \<and> sock_tx c' = sock_tx c @ contents (pc_out_buffer c) \<and>
           contents (pc_out_buffer c') = [] \<and> buf_wf (pc_out_buffer c')"
proof (cases "GetUnreadSize (pc_out_buffer c) \<le> 0")
  case True
  then have "contents (pc_out_buffer c) = []" by (simp flip: length_0_conv)
  with True assms(1) show ?thesis by (simp add: ProxyConn_handleWrite_def)
next
  case False
  obtain b' rest where w: "WriteToSock (sock_wr c) (sock_errno c) (pc_out_buffer c) =
      Ok (of_nat (length (contents (pc_out_buffer c))), contents (pc_out_buffer c), b', rest)"
      "contents b' = []" "buf_wf b'"
    using WriteToSock_accepts [OF assms, of "sock_errno c"] by blast
  then have "\<not> GetUnreadSize b' > 0" by (simp flip: length_0_conv)
  with w False show ?thesis by (simp add: ProxyConn_handleWrite_def Let_def)
qed

lemma send_msg_dirct_complete:
  assumes "length d \<le> 2048" "8 + length d \<le> k" "make_proxy_ctl_msg ty d = Ok m"
  shows "send_msg_dirct (Accept k) m c = (0, c\<lparr>sock_tx := sock_tx c @ wire_frame (ProxyCtlMsgType_code ty) d\<rparr>)"
proof -
  have m: "pmsg_len m = of_nat (8 + length d)"
      "take (8 + length d) (ProxyCtlMsg_bytes (m\<lparr>pmsg_len := htonl (pmsg_len m)\<rparr>)) = wire_frame (ProxyCtlMsgType_code ty) d"
    using proxy_wire [OF assms(1), of ty] assms(3) by auto
  have n: "unat (pmsg_len m) = 8 + length d" "(ucast (pmsg_len m) :: size_t) = of_nat (8 + length d)"
    using m(1) body_size [OF assms(1)] by simp_all
  have "take k (wire_frame (ProxyCtlMsgType_code ty) d) = wire_frame (ProxyCtlMsgType_code ty) d"
    using assms(2) by simp
  with n m(2) assms(2) show ?thesis
    by (simp add: send_msg_dirct_def Let_def min_absorb2 del: of_nat_add take_all)
qed

section \<open>Safety\<close>

lemma proxy_switch_safe: "safe (\<lambda>_. True) (proxy_switch j len mem)"
  unfolding proxy_switch_def Let_def
  by (auto split: option.splits intro!: safe_bind [OF copy_body_safe])

lemma ProxyConn_forward_frame:
  "ProxyConn_forward w p = (call, out, p') \<Longrightarrow>
   pc_out_buffer p' = pc_out_buffer p \<and> conn_fd p' = conn_fd p \<and> proxy_id p' = proxy_id p \<and> is_start p' = is_start p \<and>
      peerConn p' = peerConn p \<and> peer_conn_fd p' = peer_conn_fd p"
  by (auto simp: ProxyConn_forward_def forward_defs Let_def split: prod.splits option.splits if_splits wr_resp.splits)

lemma ProxyConn_handleRead_safe:
  "safe (\<lambda>(call, out, p'). pc_out_buffer p' = pc_out_buffer p \<and> conn_fd p' = conn_fd p \<and>
      proxy_id p' = proxy_id p \<and> is_start p' = is_start p \<and>
      peerConn p' = peerConn p \<and> peer_conn_fd p' = peer_conn_fd p)
     (ProxyConn_handleRead j w p)"
proof (cases "is_start p")
  case True
  obtain call out p' where "ProxyConn_forward w p = (call, out, p')" by (cases "ProxyConn_forward w p")
  with ProxyConn_forward_frame [OF this] True show ?thesis by (simp add: ProxyConn_handleRead_def)
next
  case False
  have "safe (\<lambda>(call, out, p'). pc_out_buffer p' = pc_out_buffer p \<and> conn_fd p' = conn_fd p \<and>
      proxy_id p' = proxy_id p \<and> is_start p' = is_start p \<and>
      peerConn p' = peerConn p \<and> peer_conn_fd p' = peer_conn_fd p)
     (bind_outcome (read_frame j sizeof_ProxyCtlMsg p)
             (\<lambda>(frame, c'). case frame of
                  None \<Rightarrow> Ok (NoCall, [], c')
                | Some (len, mem) \<Rightarrow> bind_outcome (proxy_switch j len mem) (\<lambda>call. Ok (call, [], c'))))"
    by (rule safe_bind [OF read_frame_safe])
      (auto split: prod.splits option.splits intro!: safe_bind [OF proxy_switch_safe])
  with False show ?thesis by (simp add: ProxyConn_handleRead_def)
qed

lemma rearm_proxy [simp]:
  "pc_out_buffer (rearm c) = pc_out_buffer c" "pc_out_buffer (upd_chan f c) = pc_out_buffer c"
  "proxy_id (rearm c) = proxy_id c" "proxy_id (upd_chan f c) = proxy_id c"
  "is_start (rearm c) = is_start c" "is_start (upd_chan f c) = is_start c"
  "peerConn (rearm c) = peerConn c" "peerConn (upd_chan f c) = peerConn c"
  by (simp_all add: rearm_def upd_chan_def split: option.split)

lemma rearm_tran [simp]:
  "peer_conn_fd (rearm c) = peer_conn_fd c" "peer_conn_fd (upd_chan f c) = peer_conn_fd c"
  by (simp_all add: rearm_def upd_chan_def split: option.split)

lemma ProxyConn_SendMsg_safe:
  assumes "obuf_ok (pc_out_buffer c)" "make_proxy_ctl_msg ty d = Ok m"
  shows "\<exists>c'. ProxyConn_SendMsg j m c = Ok c' \<and> obuf_ok (pc_out_buffer c') \<and> conn_fd c' = conn_fd c \<and>
     proxy_id c' = proxy_id c \<and> is_start c' = is_start c \<and>
     peerConn c' = peerConn c \<and> peer_conn_fd c' = peer_conn_fd c \<and> sock_rx c' = sock_rx c \<and>
     contents (pc_out_buffer c') \<in> {contents (pc_out_buffer c), contents (pc_out_buffer c) @ wire_frame (ProxyCtlMsgType_code ty) d}"
proof -
  have len: "length d \<le> 2048" using assms(2) by (simp add: make_proxy_ctl_msg_def sizeof_defs split: if_splits)
  show ?thesis
  proof (cases "int (8 + length d) \<le> getFreeSize (pc_out_buffer c) \<or>
         capacity (pc_out_buffer c) + int (8 + length d) \<le> max_capacity (pc_out_buffer c)")
    case True
    from ProxyConn_SendMsg_queues [OF _ len True, of ty j] assms show ?thesis
      by (auto simp: obuf_ok_def)
  next
    case False
    have m: "pmsg_len m = of_nat (8 + length d)"
      using assms(2) make_proxy_ctl_msg_Ok [of d ty] len by (auto simp: sizeof_defs)
    have n: "to_int32 (uint (pmsg_len m)) = int (8 + length d)"
      using m body_size(1) [OF len] len by (simp add: to_int32_id uint_nat del: of_nat_add)
    have "(0 :: size_t) \<noteq> ucast (pmsg_len m)"
      using m body_size(2) [OF len] of_nat_size_t_eq_iff [of "8 + length d" 0] len by (simp del: of_nat_add)
    with n False WriteToBuffer_refuses [of "8 + length d" "pc_out_buffer c"] assms(1) show ?thesis
      by (simp add: ProxyConn_SendMsg_def Let_def not_le del: of_nat_add)
  qed
qed

lemma ProxyConn_handleWrite_safe:
  assumes "obuf_ok (pc_out_buffer c)"
  shows "safe (\<lambda>c'. obuf_ok (pc_out_buffer c') \<and> conn_fd c' = conn_fd c \<and> proxy_id c' = proxy_id c \<and> is_start c' = is_start c \<and>
     peerConn c' = peerConn c \<and> peer_conn_fd c' = peer_conn_fd c)
     (ProxyConn_handleWrite c)"
proof -
  have "buf_wf (pc_out_buffer c)" using assms by (simp add: obuf_ok_def)
  note w = WriteToSock_wf [OF this obuf_size [OF assms], of "sock_wr c" "sock_errno c"]
  have "safe (\<lambda>c'. obuf_ok (pc_out_buffer c') \<and> conn_fd c' = conn_fd c \<and> proxy_id c' = proxy_id c \<and> is_start c' = is_start c \<and>
     peerConn c' = peerConn c \<and> peer_conn_fd c' = peer_conn_fd c)
     (bind_outcome (WriteToSock (sock_wr c) (sock_errno c) (pc_out_buffer c))
             (\<lambda>(sent_num, sent, b, rest).
                let c1 = c\<lparr>pc_out_buffer := b, sock_tx := sock_tx c @ sent, sock_wr := rest\<rparr>
                in Ok (if GetUnreadSize b > 0 then upd_chan (AddEvents EPOLLOUT) c1 else c1)))"
    by (rule safe_bind [OF w]) (use assms in \<open>auto simp: obuf_ok_def Let_def\<close>)
  with assms show ?thesis by (simp add: ProxyConn_handleWrite_def)
qed

lemma ProxyConn_postHandle_frame:
  "ProxyConn_postHandle c = (b, c') \<Longrightarrow>
   pc_out_buffer c' = pc_out_buffer c \<and> conn_fd c' = conn_fd c \<and> proxy_id c' = proxy_id c \<and> is_start c' = is_start c \<and>
     peerConn c' = peerConn c \<and> peer_conn_fd c' = peer_conn_fd c"
  by (auto simp: ProxyConn_postHandle_def Let_def split: if_splits)

definition px_ok :: "proxy_conn \<Rightarrow> bool" where
  "px_ok p \<longleftrightarrow> obuf_ok (pc_out_buffer p)"

lemma body_msg_safe:
  "safe (\<lambda>_. True) (NotifyClientNeedProxyMsg j t p)" "safe (\<lambda>_. True) (NotifyProxyShutdownPeerConnMsg j t i n)"
  "safe (\<lambda>_. True) (StartProxyConnReqMsg j fd i)" "safe (\<lambda>_. True) (NewTunnelRspMsg j i lp pp h1 h2)"
  "safe (\<lambda>_. True) (MakeCtlMsg ty b)" "safe (\<lambda>_. True) (make_proxy_ctl_msg pty b)" "safe (\<lambda>_. True) (cstr_at m off)"
  "safe (\<lambda>_. True) (FreeProxyConnReqMsg j t i)" "safe (\<lambda>_. True) (NewTunnelReqMsg j h p)"
  "safe (\<lambda>_. True) (ProxyMetaSetMsg c t i)" "safe (\<lambda>_. True) (StartProxyConnRspMsg j fd i)"
  by (auto simp: body_defs strcpy_at_def Let_def MakeCtlMsg_def make_proxy_ctl_msg_def cstr_at_def)

lemma shutdown_px_ok:
  "px_ok p \<Longrightarrow> shutdownFromRemote p = (fd, fr, p') \<Longrightarrow> px_ok p' \<and> conn_fd p' = conn_fd p"
  "px_ok (snd (shutdownFromLocal p)) = px_ok p" "conn_fd (snd (shutdownFromLocal p)) = conn_fd p"
  by (auto simp: shutdownFromRemote_def shutdownFromLocal_def resetConn_def counter_defs px_ok_def Let_def
      split: if_splits)

section \<open>Properties\<close>

definition demo_proxy :: proxy_conn where
  "demo_proxy = ProxyConn_new (\<lambda>_. 0) False False 0 8 0"

lemmas proxy_eval = demo_proxy_def ProxyConn_new_def TranConn_new_def Channel_new_def SetEvents_def
  tran_conn.defs proxy_conn.defs ProxyConn_handleRead_def ProxyConn_forward_def forward_defs
  proxy_step_def Let_def

text \<open>C10. A started proxy connection forwards its stream unchanged and counts it: over any run of read
  events the delivered bytes, the pipe and the unread rest are the original stream in order, and
  \<^verbatim>\<open>recv_count_\<close> grows by the number of bytes delivered.\<close>
theorem proxy_forwards_stream:
  assumes "is_start c" "feed (proxy_step j) ws c = (out, c')"
  shows "pipe c @ rx_stream (sock_rx c) = out @ pipe c' @ rx_stream (sock_rx c') \<and>
     recv_count c' = recv_count c + of_nat (length out) \<and> is_start c'"
  using px.feed_conserves [OF assms(1), of j ws] px.feed_counts [OF assms(1), of j ws]
    px.live_feed [OF assms(1), of j ws] assms(2) by simp

theorem proxy_forwards_stream_witness:
  "recv_count (snd (feed (proxy_step (\<lambda>_. 0)) [Accept 1, Accept 9]
      (demo_proxy\<lparr>is_start := True, sock_rx := [Chunk [7, 8], Chunk [9]]\<rparr>))) = 2"
proof -
  let ?c = "demo_proxy\<lparr>is_start := True, sock_rx := [Chunk [7, 8], Chunk [9]]\<rparr>"
  have f: "feed (proxy_step (\<lambda>_. 0)) [Accept 1, Accept 9] ?c =
      ([7, 8], snd (feed (proxy_step (\<lambda>_. 0)) [Accept 1, Accept 9] ?c))"
    by (simp add: proxy_eval)
  from proxy_forwards_stream [OF _ f] show ?thesis by (simp add: proxy_eval)
qed



text \<open>C38. One short splice blocks the close for good: if bytes are left in the pipe of a started proxy
  connection, the next splices ask only for what they have just read, so the pipe never empties
  again; the delivered count stays below the total the remote side announces and the close handler
  is never called, whatever arrives later.\<close>
theorem proxy_short_write_never_closes:
  assumes "is_start c" "pipe c \<noteq> []" "recv_count c = of_nat r"
    and "theoretical_total_recv_count c = of_nat (r + length (pipe c) + length (rx_stream (sock_rx c)))"
    and "r + length (pipe c) + length (rx_stream (sock_rx c)) < 2 ^ 32"
    and "feed (proxy_step j) ws c = (out, c1)"
  shows "ProxyConn_handleRead j w c1 \<noteq> Ok (CloseLocalPeer, out', c2)"
proof
  assume h: "ProxyConn_handleRead j w c1 = Ok (CloseLocalPeer, out', c2)"
  have c1: "c1 = snd (feed (proxy_step j) ws c)" "out = fst (feed (proxy_step j) ws c)"
    using assms(6) by simp_all
  have st: "is_start c1" using px.live_feed [OF assms(1)] c1 by simp
  have step: "proxy_step j w c1 = (out', c2)" and eq: "recv_count c2 = theoretical_total_recv_count c2"
    using close_call [OF st h] by simp_all
  have "recv_count c2 = of_nat (r + length out + length out')"
    using px.counted [OF st, of j w] px.feed_counts [OF assms(1), of j ws] step c1 assms(3)
    by simp
  moreover have "theoretical_total_recv_count c2 =
      of_nat (r + length (pipe c) + length (rx_stream (sock_rx c)))"
    using proxy_step_theoretical [OF st, of j w] feed_theoretical [OF assms(1), of j ws] step c1 assms(4)
    by simp
  moreover have "length out + length out' + length (pipe c2) \<le> length (pipe c) + length (rx_stream (sock_rx c))"
    using arg_cong [OF px.feed_conserves [OF assms(1), of j ws], of length]
      arg_cong [OF px.conserve [OF st, of j w], of length] step c1 by simp
  moreover have "length (pipe c) \<le> length (pipe c2)"
    using px.feed_held_grows [OF assms(1), of j ws] px.held_grows [OF st, of j w] step c1 by simp
  ultimately have "r + length out + length out' = r + length (pipe c) + length (rx_stream (sock_rx c))"
    using eq assms(5) of_nat_u32_inject [of "r + length out + length out'" "r + length (pipe c) + length (rx_stream (sock_rx c))"]
    by simp
  moreover have "0 < length (pipe c)" using assms(2) by simp
  ultimately show False
    using \<open>length out + length out' + length (pipe c2) \<le> _\<close> \<open>length (pipe c) \<le> length (pipe c2)\<close> by linarith
qed

theorem proxy_short_write_never_closes_witness:
  "\<forall>out' c2. ProxyConn_handleRead (\<lambda>_. 0) (Accept 9)
     (demo_proxy\<lparr>is_start := True, pipe := [7], sock_rx := [Chunk [8]], theoretical_total_recv_count := 2\<rparr>)
   \<noteq> Ok (CloseLocalPeer, out', c2)"
  by (intro allI, rule proxy_short_write_never_closes [where ws = "[]" and r = 0]) (simp_all add: proxy_eval)

text \<open>A control frame on an idle proxy connection arrives as it was sent, by either way of sending:
  the buffered \<^verbatim>\<open>SendMsg\<close> followed by \<^verbatim>\<open>handleWrite\<close> and the direct \<^verbatim>\<open>send_msg_dirct\<close> put the same
  bytes on the wire, and an idle receiver whose stream starts with them dispatches exactly this
  message and consumes exactly its bytes.\<close>
theorem proxy_message_delivery:
  assumes "buf_wf (pc_out_buffer c)" "contents (pc_out_buffer c) = []" "max_capacity (pc_out_buffer c) < 2 ^ 31 - 1"
    and "capacity (pc_out_buffer c) + int (8 + length d) \<le> max_capacity (pc_out_buffer c)"
    and "list_all takes_data (sock_wr c)" "8 + length d \<le> length (sock_wr c)"
    and "length d \<le> sizeof_proxy_body ty" "8 + length d \<le> k"
  shows "\<exists>m c1 c2 wire. make_proxy_ctl_msg ty d = Ok m \<and> ProxyConn_SendMsg j m c = Ok c1 \<and>
     ProxyConn_handleWrite c1 = Ok c2 \<and> sock_tx c2 = sock_tx c @ wire \<and> contents (pc_out_buffer c2) = [] \<and>
     send_msg_dirct (Accept k) m c = (0, c\<lparr>sock_tx := sock_tx c @ wire\<rparr>) \<and>
     (\<forall>r rest w. \<not> is_start r \<and> rx_data (sock_rx r) = wire @ rest \<longrightarrow>
        (\<exists>q body. ProxyConn_handleRead j' w r = Ok (ProxyMsg ty body, [], r\<lparr>sock_rx := q\<rparr>) \<and>
                  take (length d) body = d \<and> rx_data q = rest))"
proof -
  have len: "length d \<le> 2048"
    using assms(7) by (cases ty) (simp_all add: sizeof_defs)
  obtain m b where m: "make_proxy_ctl_msg ty d = Ok m"
      "ProxyConn_SendMsg j m c = Ok (rearm (upd_chan (AddEvents EPOLLOUT) (c\<lparr>pc_out_buffer := b\<rparr>)))"
      "buf_wf b" "contents b = wire_frame (ProxyCtlMsgType_code ty) d" "max_capacity b = max_capacity (pc_out_buffer c)"
    using ProxyConn_SendMsg_queues [OF assms(1) len, of ty j] assms(2,4) by auto
  let ?c1 = "rearm (upd_chan (AddEvents EPOLLOUT) (c\<lparr>pc_out_buffer := b\<rparr>))"
  have c1: "pc_out_buffer ?c1 = b" "sock_wr ?c1 = sock_wr c" "sock_tx ?c1 = sock_tx c"
    by (simp_all add: rearm_def upd_chan_def split: option.split)
  have "nat (GetUnreadSize b) = 8 + length d"
    using arg_cong [OF m(4), of length] by simp
  moreover have "data_size b < 2 ^ 31" using m(3,5) assms(3) by (auto simp: buf_wf_def)
  ultimately obtain c2 where c2: "ProxyConn_handleWrite ?c1 = Ok c2"
      "sock_tx c2 = sock_tx c @ wire_frame (ProxyCtlMsgType_code ty) d" "contents (pc_out_buffer c2) = []"
    using ProxyConn_handleWrite_sends [of ?c1] c1 m(3,4) assms(5,6) by auto
  have "\<exists>q body. ProxyConn_handleRead j' w r = Ok (ProxyMsg ty body, [], r\<lparr>sock_rx := q\<rparr>) \<and>
          take (length d) body = d \<and> rx_data q = rest"
    if "\<not> is_start r" "rx_data (sock_rx r) = wire_frame (ProxyCtlMsgType_code ty) d @ rest" for r rest w
    using ProxyConn_handleRead_wire [OF that len, of j' w] assms(7) by auto
  with m(1,2) c2 send_msg_dirct_complete [OF len assms(8) m(1), of c] show ?thesis by blast
qed

theorem proxy_message_delivery_witness:
  "\<exists>m c1 c2 wire. make_proxy_ctl_msg StartProxyConnReq (replicate 16 65) = Ok m \<and>
     ProxyConn_SendMsg (\<lambda>_. 0) m (demo_proxy\<lparr>sock_wr := replicate 40 (Accept 3)\<rparr>) = Ok c1 \<and>
     ProxyConn_handleWrite c1 = Ok c2 \<and> sock_tx c2 = wire"
proof -
  let ?c = "demo_proxy\<lparr>sock_wr := replicate 40 (Accept 3)\<rparr>"
  have b: "buf_wf (pc_out_buffer ?c)" "contents (pc_out_buffer ?c) = []"
      "max_capacity (pc_out_buffer ?c) = 65536" "capacity (pc_out_buffer ?c) = 1024" "sock_tx ?c = []"
    using buf_wf_new [of 1024 "\<lambda>_. 0" 65536]
    by (simp_all add: proxy_eval Buffer_new_def)
  have "list_all takes_data (sock_wr ?c)" "length (sock_wr ?c) = 40"
    by (simp_all add: takes_data_def list_all_iff)
  with proxy_message_delivery [of ?c "replicate 16 65" StartProxyConnReq 24 "\<lambda>_. 0" "\<lambda>_. 0"] b
  show ?thesis by (simp add: sizeof_defs) blast
qed

text \<open>Mode confusion: the same frame, arriving at a proxy connection that is still started, is not
  interpreted; its bytes are spliced to the local peer as if they were data of the session.\<close>
theorem started_proxy_forwards_frame:
  assumes "is_start c" "pipe c = []" "sock_rx c = [Chunk (wire_frame (ProxyCtlMsgType_code ty) d)]" "length d \<le> 2000"
  shows "\<exists>call c'. ProxyConn_handleRead j (Accept 2048) c = Ok (call, wire_frame (ProxyCtlMsgType_code ty) d, c') \<and>
     (\<forall>b. call \<noteq> ProxyMsg ty b)"
proof -
  have ne: "wire_frame (ProxyCtlMsgType_code ty) d \<noteq> []"
    using length_wire_frame [of "ProxyCtlMsgType_code ty" d] by (metis list.size(3) add_is_0 numeral_neq_zero)
  have len: "length (wire_frame (ProxyCtlMsgType_code ty) d) \<le> 2048" using assms(4) by simp
  show ?thesis
    using assms(1-3) ne len
    by (simp add: ProxyConn_handleRead_def ProxyConn_forward_def forward_defs Let_def min_absorb2 del: length_wire_frame)
qed

theorem started_proxy_forwards_frame_witness:
  "\<exists>call c'. ProxyConn_handleRead (\<lambda>_. 0) (Accept 2048)
     (demo_proxy\<lparr>is_start := True, sock_rx := [Chunk (wire_frame (ProxyCtlMsgType_code StartProxyConnReq) (replicate 16 65))]\<rparr>) =
       Ok (call, wire_frame (ProxyCtlMsgType_code StartProxyConnReq) (replicate 16 65), c')"
proof -
  let ?c = "demo_proxy\<lparr>is_start := True, sock_rx := [Chunk (wire_frame (ProxyCtlMsgType_code StartProxyConnReq) (replicate 16 65))]\<rparr>"
  have "is_start ?c" "pipe ?c = []" by (simp_all add: demo_proxy_def ProxyConn_new_def TranConn_new_def tran_conn.defs proxy_conn.defs)
  from started_proxy_forwards_frame [OF this, of StartProxyConnReq "replicate 16 65" "\<lambda>_. 0"] show ?thesis
    by auto
qed

section \<open>The two halves of a close\<close>

datatype shutdown_side = FromRemote | FromLocal

fun shutdown_run :: "shutdown_side list \<Rightarrow> proxy_conn \<Rightarrow> bool list \<times> proxy_conn" where
  "shutdown_run [] c = ([], c)"
| "shutdown_run (side # sides) c =
     (let (free, c1) = (case side of FromRemote \<Rightarrow> snd (shutdownFromRemote c) | FromLocal \<Rightarrow> shutdownFromLocal c);
          (frees, c2) = shutdown_run sides c1
      in (free # frees, c2))"

lemma shutdown_run_frees:
  "fst (shutdown_run sides c) = map (\<lambda>i. odd i = (\<not> half_close c)) [0..<length sides] \<and>
   half_close (snd (shutdown_run sides c)) = (half_close c \<noteq> odd (length sides))"
proof (induction sides arbitrary: c)
  case (Cons side sides)
  show ?case
    using Cons.IH
    by (cases side; cases "half_close c")
      (simp_all add: shutdownFromRemote_def shutdownFromLocal_def resetConn_def counter_defs Let_def
        case_prod_unfold map_upt_Suc del: upt_Suc)
qed simp

text \<open>A session ends at the second shutdown, from whichever sides the two come: of any sequence of
  shutdowns on a connection that is not half closed, exactly every second one reports the connection
  as free, and it then is idle, detached from its peer and has its counters reset.\<close>
theorem shutdown_frees_at_second:
  assumes "\<not> half_close c"
  shows "fst (shutdown_run sides c) = map odd [0..<length sides] \<and>
     (\<forall>a b. shutdown_run [a, b] c = ([False, True],
        c\<lparr>peer_conn_fd := 0, recv_count := 0, tran_count := 0, theoretical_total_recv_count := -1,
          is_start := False, half_close := False\<rparr>))"
proof -
  have "shutdown_run [a, b] c = ([False, True],
        c\<lparr>peer_conn_fd := 0, recv_count := 0, tran_count := 0, theoretical_total_recv_count := -1,
          is_start := False, half_close := False\<rparr>)" for a b
    using assms
    by (cases a; cases b)
      (simp_all add: shutdownFromRemote_def shutdownFromLocal_def resetConn_def counter_defs Let_def)
  with shutdown_run_frees [of sides c] assms show ?thesis by simp
qed

theorem shutdown_frees_at_second_witness:
  "fst (shutdown_run [FromLocal, FromLocal, FromRemote, FromRemote, FromLocal] demo_proxy) =
     [False, True, False, True, False]"
  using shutdown_frees_at_second [of demo_proxy "[FromLocal, FromLocal, FromRemote, FromRemote, FromLocal]"]
  by (simp add: proxy_eval upt_rec)

end
