(* ===== verification/CProxy_Server.thy ===== *)
theory CProxy_Server
  imports CProxy_ProxyConn CProxy_Map CProxy_Threads
begin

text \<open>
  The server program: \<^verbatim>\<open>server/Tunnel\<close>, \<^verbatim>\<open>server/public_conn\<close>, \<^verbatim>\<open>server/Control\<close> and
  \<^verbatim>\<open>server/Server\<close>. The objects the program links by pointers live in heaps indexed by object
  identities; a \<^verbatim>\<open>shared_ptr\<close> is an identity (or \<open>None\<close> when it is empty). Every handler is a
  function on the whole server state; what the kernel and the random generator answer are
  arguments. Handlers that block for ever because the arguments run out end in \<open>Spin\<close>.
\<close>

section \<open>State\<close>

record server_tunnel =
  st_tun_id :: cstring
  st_ctl :: oid
  st_listen_fd :: int
  st_listen_addr :: cstring
  st_listen_port :: int
  st_acceptor :: channel
  st_proxy_conn_map :: "(cstring, oid) safe_unordered_map"
  st_wait_map :: "(cstring, oid) safe_unordered_map"
  st_free :: "oid option list"
  st_undeal :: "int list"

record control =
  k_fd :: int
  k_ctl_id :: cstring
  k_conn :: ctl_conn
  k_tunnel_map :: "(cstring, oid) safe_unordered_map"

record server =
  sv_control_map :: "(cstring, oid) safe_unordered_map"
  sv_pool :: thread_pool
  sv_ctlPort :: int
  sv_proxyPort :: int
  sv_ctl_acceptor :: channel
  sv_proxy_acceptor :: channel
  sv_ctl_armed :: u32
  sv_proxy_armed :: u32
  sv_unclaimed :: "(int, oid) safe_unordered_map list"
  sv_ctls :: "oid \<Rightarrow> control option"
  sv_tuns :: "oid \<Rightarrow> server_tunnel option"
  sv_pxs :: "oid \<Rightarrow> proxy_conn option"
  sv_pubs :: "oid \<Rightarrow> edge_conn option"
  sv_px_tun :: "oid \<Rightarrow> oid option"     \<comment> \<open>the tunnel a proxy connection's handlers are bound to\<close>
  sv_next :: oid
  sv_shut_wr :: "int list"             \<comment> \<open>the descriptors \<^verbatim>\<open>shutdown(fd, SHUT_WR)\<close> was called on\<close>

section \<open>Objects\<close>

definition put_ctl :: "oid \<Rightarrow> control \<Rightarrow> server \<Rightarrow> server" where
  "put_ctl oid x s = s\<lparr>sv_ctls := (sv_ctls s)(oid := Some x)\<rparr>"

definition put_tun :: "oid \<Rightarrow> server_tunnel \<Rightarrow> server \<Rightarrow> server" where
  "put_tun oid x s = s\<lparr>sv_tuns := (sv_tuns s)(oid := Some x)\<rparr>"

definition put_px :: "oid \<Rightarrow> proxy_conn \<Rightarrow> server \<Rightarrow> server" where
  "put_px oid x s = s\<lparr>sv_pxs := (sv_pxs s)(oid := Some x)\<rparr>"

definition put_pub :: "oid \<Rightarrow> edge_conn \<Rightarrow> server \<Rightarrow> server" where
  "put_pub oid x s = s\<lparr>sv_pubs := (sv_pubs s)(oid := Some x)\<rparr>"

definition alloc :: "server \<Rightarrow> oid \<times> server" where
  "alloc s = (sv_next s, s\<lparr>sv_next := Suc (sv_next s)\<rparr>)"

lemmas put_defs = put_ctl_def put_tun_def put_px_def put_pub_def alloc_def

text \<open>\<^verbatim>\<open>o->f(..)\<close> for a method that changes the object and returns nothing.\<close>

definition on_tun :: "oid \<Rightarrow> (server_tunnel \<Rightarrow> server_tunnel) \<Rightarrow> server \<Rightarrow> server outcome" where
  "on_tun oid f s = bind_outcome (deref sv_tuns oid s) (\<lambda>t. Ok (put_tun oid (f t) s))"

definition on_px :: "oid \<Rightarrow> (proxy_conn \<Rightarrow> proxy_conn) \<Rightarrow> server \<Rightarrow> server outcome" where
  "on_px oid f s = bind_outcome (deref sv_pxs oid s) (\<lambda>p. Ok (put_px oid (f p) s))"

definition deliver :: "int \<Rightarrow> byte list \<Rightarrow> server \<Rightarrow> server" where
  "deliver fd bs s =
     s\<lparr>sv_pxs := (\<lambda>oid. map_option (receive_on fd bs) (sv_pxs s oid)),
       sv_pubs := (\<lambda>oid. map_option (receive_on fd bs) (sv_pubs s oid))\<rparr>"

section \<open>Control: messages to the client\<close>

text \<open>\<^verbatim>\<open>MakeCtlMsg(type, &body, sizeof(body))\<close> followed by \<^verbatim>\<open>conn_->SendMsg\<close>.\<close>

definition send_ctl :: "junk \<Rightarrow> CtlMsgType \<Rightarrow> byte list \<Rightarrow> oid \<Rightarrow> server \<Rightarrow> server outcome" where
  "send_ctl j ty body oid s =
     bind_outcome (deref sv_ctls oid s) (\<lambda>k.
     bind_outcome (MakeCtlMsg ty body) (\<lambda>m.
     bind_outcome (CtlConn_SendMsg j m (k_conn k)) (\<lambda>c. Ok (put_ctl oid (k\<lparr>k_conn := c\<rparr>) s))))"

definition notifyClientNeedProxy :: "junk \<Rightarrow> oid \<Rightarrow> cstring \<Rightarrow> server \<Rightarrow> server outcome" where
  "notifyClientNeedProxy j ctl tun_id s =
     bind_outcome (NotifyClientNeedProxyMsg j tun_id (word_of_int (sv_proxyPort s)))
       (\<lambda>body. send_ctl j NotifyClientNeedProxy body ctl s)"

definition Control_shutdownFromPublic ::
    "junk \<Rightarrow> oid \<Rightarrow> cstring \<Rightarrow> cstring \<Rightarrow> u32 \<Rightarrow> server \<Rightarrow> server outcome" where
  "Control_shutdownFromPublic j ctl tun_id pid count s =
     bind_outcome (NotifyProxyShutdownPeerConnMsg j tun_id pid count)
       (\<lambda>body. send_ctl j NotifyProxyShutdownPeerConn body ctl s)"

section \<open>Tunnel\<close>

text \<open>
  The constructor listens on a port of the kernel's choice. \<open>sockname\<close> is what \<^verbatim>\<open>getsockname\<close>
  stored (indeterminate when the socket could not be created).
\<close>

definition Tunnel_new :: "listen_env \<Rightarrow> cstring \<times> int \<Rightarrow> bool \<Rightarrow> cstring \<Rightarrow> oid \<Rightarrow> server_tunnel" where
  "Tunnel_new env sockname pc0 tun_id ctl =
     (let listen_fd = fst (socketBindListen env 0)
      in \<lparr>st_tun_id = tun_id, st_ctl = ctl, st_listen_fd = listen_fd,
          st_listen_addr = fst sockname, st_listen_port = snd sockname,
          st_acceptor = SetEvents (EPOLLIN OR EPOLLET OR EPOLLRDHUP) (Channel_new 0 0 pc0 listen_fd),
          st_proxy_conn_map = [], st_wait_map = [], st_free = [], st_undeal = []\<rparr>)"

text \<open>\<^verbatim>\<open>popFreeProxyConn\<close>: the outer option is the \<^verbatim>\<open>isEmpty\<close> flag.\<close>

definition popFreeProxyConn :: "server_tunnel \<Rightarrow> oid option option \<times> server_tunnel" where
  "popFreeProxyConn t =
     (if st_free t = [] then (None, t) else (Some (last (st_free t)), t\<lparr>st_free := butlast (st_free t)\<rparr>))"

definition getAndPopUndealPublicFd :: "server_tunnel \<Rightarrow> (int \<times> server_tunnel) outcome" where
  "getAndPopUndealPublicFd t =
     (if st_undeal t = [] then Ub EmptyBack
      else Ok (last (st_undeal t), t\<lparr>st_undeal := butlast (st_undeal t)\<rparr>))"

definition reqStartProxy :: "junk \<Rightarrow> int \<Rightarrow> oid \<Rightarrow> server \<Rightarrow> server outcome" where
  "reqStartProxy j public_fd px s =
     bind_outcome (deref sv_pxs px s) (\<lambda>p.
     bind_outcome (StartProxyConnReqMsg j (word_of_int public_fd) (getProxyID p)) (\<lambda>body.
     bind_outcome (make_proxy_ctl_msg StartProxyConnReq body) (\<lambda>m.
     bind_outcome (ProxyConn_SendMsg j m p) (\<lambda>p'. Ok (put_px px p' s)))))"

text \<open>The listening socket is left in blocking mode, so \<^verbatim>\<open>accept\<close> waits when no connection is pending.\<close>

fun newPublicConnHandler :: "junk \<Rightarrow> oid \<Rightarrow> int list \<Rightarrow> server \<Rightarrow> server outcome" where
  "newPublicConnHandler j tun [] s = Spin"
| "newPublicConnHandler j tun (accept_fd # fds) s =
     (if accept_fd > 0
      then bind_outcome (deref sv_tuns tun s) (\<lambda>t.
           case popFreeProxyConn t of
             (Some proxyConn, t1) \<Rightarrow>
               (case proxyConn of
                  None \<Rightarrow> Ub NullDeref
                | Some px \<Rightarrow>
                    bind_outcome (reqStartProxy j accept_fd px (put_tun tun t1 s)) (\<lambda>s1.
                    bind_outcome (deref sv_pxs px s1) (\<lambda>p.
                    bind_outcome (on_tun tun (\<lambda>t. t\<lparr>st_wait_map := add (st_wait_map t) (getProxyID p) px\<rparr>) s1)
                      (newPublicConnHandler j tun fds))))
           | (None, t1) \<Rightarrow>
               bind_outcome
                 (notifyClientNeedProxy j (st_ctl t1) (st_tun_id t1)
                    (put_tun tun (t1\<lparr>st_undeal := st_undeal t1 @ [accept_fd]\<rparr>) s))
                 (newPublicConnHandler j tun fds))
      else Ok s)"

definition bindPublicFdToProxyConn :: "bool \<Rightarrow> int \<Rightarrow> oid \<Rightarrow> int \<Rightarrow> oid \<Rightarrow> server \<Rightarrow> server outcome" where
  "bindPublicFdToProxyConn pc0 peer0 tun publicFd px s =
     bind_outcome (deref sv_pxs px s) (\<lambda>p.
     let (pub, s1) = alloc s;
         publicConn = edge_conn_new pc0 pc0 peer0 publicFd (getThread p) tun (getProxyID p);
         (p', publicConn') = ProxyConn_start pub (p, publicConn)
     in on_tun tun (\<lambda>t. t\<lparr>st_proxy_conn_map := add (st_proxy_conn_map t) (getProxyID p) px\<rparr>)
          (put_px px p' (put_pub pub publicConn' s1)))"

text \<open>\<^verbatim>\<open>Tunnel::claimProxyConn\<close>: bind the handlers to this tunnel, take a waiting descriptor, start.\<close>

definition Tunnel_claimProxyConn :: "bool \<Rightarrow> int \<Rightarrow> oid \<Rightarrow> oid \<Rightarrow> server \<Rightarrow> server outcome" where
  "Tunnel_claimProxyConn pc0 peer0 tun px s =
     bind_outcome (deref sv_tuns tun s) (\<lambda>t.
     bind_outcome (getAndPopUndealPublicFd t) (\<lambda>(publicFd, t').
       bindPublicFdToProxyConn pc0 peer0 tun publicFd px
         (put_tun tun t' (s\<lparr>sv_px_tun := (sv_px_tun s)(px := Some tun)\<rparr>))))"

definition Tunnel_shutdownFromPublic :: "junk \<Rightarrow> oid \<Rightarrow> cstring \<Rightarrow> u32 \<Rightarrow> server \<Rightarrow> server outcome" where
  "Tunnel_shutdownFromPublic j tun pid count s =
     bind_outcome (deref sv_tuns tun s) (\<lambda>t.
     case map_of (st_proxy_conn_map t) pid of
       None \<Rightarrow> Ok s
     | Some px \<Rightarrow>
         bind_outcome (on_px px (\<lambda>p. snd (shutdownFromLocal p)) s)
           (Control_shutdownFromPublic j (st_ctl t) (st_tun_id t) pid count))"

definition handleStartProxyConnRsp :: "bool \<Rightarrow> int \<Rightarrow> oid \<Rightarrow> byte list \<Rightarrow> oid \<Rightarrow> server \<Rightarrow> server outcome" where
  "handleStartProxyConnRsp pc0 peer0 tun msg px s =
     bind_outcome (deref sv_pxs px s) (\<lambda>p.
     bind_outcome (deref sv_tuns tun s) (\<lambda>t.
     let public_fd = ntohl (get_u32 msg 0); pid = getProxyID p
     in if \<not> isExist (st_wait_map t) pid then Ok s
        else bind_outcome (bindPublicFdToProxyConn pc0 peer0 tun (to_int32 (uint public_fd)) px s)
               (on_tun tun (\<lambda>t. t\<lparr>st_wait_map := erase (st_wait_map t) pid\<rparr>))))"

text \<open>
  \<^verbatim>\<open>std::remove\<close> compacts the elements that differ from the value to the front, moving them, and
  returns the new end, which the program ignores: the vector keeps its length. A moved-from
  \<^verbatim>\<open>shared_ptr\<close> is empty. \<open>k\<close> is the write position.
\<close>

function remove_loop :: "'a \<Rightarrow> nat \<Rightarrow> nat \<Rightarrow> 'a option list \<Rightarrow> 'a option list" where
  "remove_loop x k i xs =
     (if i < length xs
      then if xs ! i = Some x then remove_loop x k (Suc i) xs
           else remove_loop x (Suc k) (Suc i) (xs[k := xs ! i, i := None])
      else xs)"
  by pat_completeness auto
termination by (relation "measure (\<lambda>(x, k, i, xs). length xs - i)") auto

declare remove_loop.simps [simp del]

definition std_remove :: "'a \<Rightarrow> 'a option list \<Rightarrow> 'a option list" where
  "std_remove x xs =
     (let k = length (takeWhile (\<lambda>y. y \<noteq> Some x) xs) in if k = length xs then xs else remove_loop x k (Suc k) xs)"

definition handlePeerProxyConnClose :: "oid \<Rightarrow> oid \<Rightarrow> server \<Rightarrow> server outcome" where
  "handlePeerProxyConnClose tun px s =
     bind_outcome (deref sv_pxs px s) (\<lambda>p.
       on_tun tun (\<lambda>t. t\<lparr>st_proxy_conn_map := erase (st_proxy_conn_map t) (getProxyID p),
                         st_free := std_remove px (st_free t)\<rparr>) s)"

definition freeProxyConn :: "oid \<Rightarrow> cstring \<Rightarrow> server \<Rightarrow> server outcome" where
  "freeProxyConn tun pid s =
     bind_outcome (deref sv_tuns tun s) (\<lambda>t.
     case map_of (st_proxy_conn_map t) pid of
       None \<Rightarrow> Ok s
     | Some px \<Rightarrow>
         bind_outcome (deref sv_pxs px s) (\<lambda>p.
         if is_start p then Ok s
         else Ok (put_tun tun (t\<lparr>st_proxy_conn_map := erase (st_proxy_conn_map t) pid,
                                 st_free := st_free t @ [Some px]\<rparr>) s)))"

definition shutdownPublicConn :: "oid \<Rightarrow> oid \<Rightarrow> server \<Rightarrow> server outcome" where
  "shutdownPublicConn tun px s =
     bind_outcome (deref sv_pxs px s) (\<lambda>p.
     if getRecvCount p \<noteq> getTheoreticalTotalRecvCount p then Ok s
     else let (fd, isFree, p') = shutdownFromRemote p;
              s1 = put_px px p' (s\<lparr>sv_shut_wr := sv_shut_wr s @ [fd]\<rparr>)
          in if isFree then freeProxyConn tun (getProxyID p') s1 else Ok s1)"

definition getProxyConn :: "cstring \<Rightarrow> server_tunnel \<Rightarrow> oid option" where
  "getProxyConn pid t = map_of (st_proxy_conn_map t) pid"

section \<open>PublicConn\<close>

text \<open>The read event of a public connection, with its tunnel's reaction to the end of the stream.\<close>

definition PublicConn_handleRead :: "junk \<Rightarrow> wr_resp \<Rightarrow> oid \<Rightarrow> server \<Rightarrow> server outcome" where
  "PublicConn_handleRead j w pub s =
     bind_outcome (deref sv_pubs pub s) (\<lambda>c.
     let (call, out, c') = edge_handleRead w c;
         s1 = deliver (peer_conn_fd c) out (put_pub pub c' s)
     in case call of
          NoFin \<Rightarrow> Ok s1
        | FinSeen n \<Rightarrow> Tunnel_shutdownFromPublic j (ec_tun c) (ec_proxy_id c) n s1)"

definition PublicConn_postHandle :: "oid \<Rightarrow> server \<Rightarrow> server outcome" where
  "PublicConn_postHandle pub s =
     bind_outcome (deref sv_pubs pub s) (\<lambda>c. Ok (put_pub pub (edge_postHandle c) s))"

section \<open>Control: messages from the client\<close>

definition Control_new :: "junk \<Rightarrow> bool \<Rightarrow> int \<Rightarrow> cstring \<Rightarrow> control" where
  "Control_new j pc0 fd ctl_id =
     \<lparr>k_fd = fd, k_ctl_id = ctl_id,
      k_conn = AddConn (SetCtlId ctl_id (CtlConn_new j pc0 pc0 fd)), k_tunnel_map = []\<rparr>"

definition upsertTunnel :: "cstring \<Rightarrow> oid \<Rightarrow> control \<Rightarrow> control" where
  "upsertTunnel tun_id tun k = k\<lparr>k_tunnel_map := add (k_tunnel_map k) tun_id tun\<rparr>"

definition handleNewCtlReq :: "junk \<Rightarrow> oid \<Rightarrow> server \<Rightarrow> server outcome" where
  "handleNewCtlReq j ctl s =
     bind_outcome (deref sv_ctls ctl s) (\<lambda>k.
       send_ctl j NewCtlRsp (NewCtlRspMsg (GetCtlId (k_conn k))) ctl s)"

text \<open>\<open>rnd\<close> seeds the new tunnel's id, \<open>env\<close> and \<open>sockname\<close> its listening socket.\<close>

definition handleNewTunnelReq ::
    "junk \<Rightarrow> (nat \<Rightarrow> nat) \<Rightarrow> listen_env \<Rightarrow> cstring \<times> int \<Rightarrow> bool \<Rightarrow> oid \<Rightarrow> byte list \<Rightarrow> server \<Rightarrow> server outcome" where
  "handleNewTunnelReq j rnd env sockname pc0 ctl msg s =
     bind_outcome (deref sv_ctls ctl s) (\<lambda>k.
     let rand_tun_id = rand_str rnd 5;
         (tun, s1) = alloc s;
         t = Tunnel_new env sockname pc0 rand_tun_id ctl;
         s2 = put_ctl ctl (upsertTunnel rand_tun_id tun k) (put_tun tun t s1)
     in bind_outcome (cstr_at msg 0) (\<lambda>local_server_host.
        bind_outcome (NewTunnelRspMsg j rand_tun_id (get_u32 msg 20) (word_of_int (st_listen_port t))
                        (st_listen_addr t) local_server_host) (\<lambda>body.
          send_ctl j NewTunnelRsp body ctl s2)))"

definition handleShutdownPublicConn :: "oid \<Rightarrow> byte list \<Rightarrow> server \<Rightarrow> server outcome" where
  "handleShutdownPublicConn ctl msg s =
     bind_outcome (deref sv_ctls ctl s) (\<lambda>k.
     let theoreticalTotalRecvCount = ntohl (get_u32 msg 20)
     in bind_outcome (cstr_at msg 0) (\<lambda>tun_id.
        bind_outcome (cstr_at msg 10) (\<lambda>pid.
        case map_of (k_tunnel_map k) tun_id of
          None \<Rightarrow> Ok s
        | Some tun \<Rightarrow>
            bind_outcome (deref sv_tuns tun s) (\<lambda>t.
            case getProxyConn pid t of
              None \<Rightarrow> Ok s
            | Some px \<Rightarrow>
                bind_outcome (on_px px (incrTheoreticalTotalRecvCount theoreticalTotalRecvCount) s)
                  (shutdownPublicConn tun px)))))"

definition handleCtlConnClose :: "oid \<Rightarrow> server \<Rightarrow> server outcome" where
  "handleCtlConnClose ctl s =
     bind_outcome (deref sv_ctls ctl s) (\<lambda>k.
       Ok (s\<lparr>sv_control_map := erase (sv_control_map s) (k_ctl_id k)\<rparr>))"

definition handleFreeProxyConnReq :: "oid \<Rightarrow> byte list \<Rightarrow> server \<Rightarrow> server outcome" where
  "handleFreeProxyConnReq ctl msg s =
     bind_outcome (deref sv_ctls ctl s) (\<lambda>k.
     bind_outcome (cstr_at msg 0) (\<lambda>tun_id.
     bind_outcome (cstr_at msg 10) (\<lambda>pid.
     case map_of (k_tunnel_map k) tun_id of
       None \<Rightarrow> Ok s
     | Some tun \<Rightarrow> freeProxyConn tun pid s)))"

section \<open>Server\<close>

definition UnclaimedProxyMapLen :: int where
  "UnclaimedProxyMapLen = 4"

definition SERVER_LISTEN_EPOLL_EVENTS :: u32 where
  "SERVER_LISTEN_EPOLL_EVENTS = EPOLLIN OR EPOLLET OR EPOLLRDHUP"

text \<open>
  The constructor: both sockets are opened first, each check that fails aborts. \<open>fl1\<close> and \<open>fl2\<close>
  are the results of the \<^verbatim>\<open>fcntl\<close> calls of \<^verbatim>\<open>setfdNonBlock\<close>.
\<close>

definition Server_new ::
    "listen_env \<Rightarrow> listen_env \<Rightarrow> int \<times> int \<Rightarrow> int \<times> int \<Rightarrow> bool \<Rightarrow> int \<Rightarrow> int \<Rightarrow> int \<Rightarrow> server outcome" where
  "Server_new env1 env2 fl1 fl2 pc0 threadNum ctlPort proxyPort =
     (let ctlListenFd = fst (socketBindListen env1 ctlPort);
          proxyListenFd = fst (socketBindListen env2 proxyPort);
          acceptor = (\<lambda>fd. SetEvents SERVER_LISTEN_EPOLL_EVENTS (Channel_new 0 0 pc0 fd))
      in if ctlListenFd < 0 then Abort
         else if fst (setfdNonBlock (fst fl1) (snd fl1)) = -1 then Abort
         else if proxyListenFd < 0 then Abort
         else if fst (setfdNonBlock (fst fl2) (snd fl2)) = -1 then Abort
         else Ok \<lparr>sv_control_map = [], sv_pool = EventLoopThreadPool_new threadNum,
                  sv_ctlPort = ctlPort, sv_proxyPort = proxyPort,
                  sv_ctl_acceptor = acceptor ctlListenFd, sv_proxy_acceptor = acceptor proxyListenFd,
                  sv_ctl_armed = SERVER_LISTEN_EPOLL_EVENTS, sv_proxy_armed = SERVER_LISTEN_EPOLL_EVENTS,
                  sv_unclaimed = replicate (nat UnclaimedProxyMapLen) [],
                  sv_ctls = (\<lambda>_. None), sv_tuns = (\<lambda>_. None), sv_pxs = (\<lambda>_. None), sv_pubs = (\<lambda>_. None),
                  sv_px_tun = (\<lambda>_. None), sv_next = 0, sv_shut_wr = []\<rparr>)"

text \<open>\<^verbatim>\<open>start\<close> up to the main loop.\<close>

definition Server_start :: "server \<Rightarrow> server" where
  "Server_start s = s\<lparr>sv_pool := pool_start (sv_pool s)\<rparr>"

fun newCtlConnHandler :: "junk \<Rightarrow> bool \<Rightarrow> int list \<Rightarrow> (nat \<Rightarrow> nat) list \<Rightarrow> server \<Rightarrow> server outcome" where
  "newCtlConnHandler j pc0 [] rnds s = Spin"
| "newCtlConnHandler j pc0 (accept_fd # fds) rnds s =
     (if accept_fd > 0
      then bind_outcome (fresh_id (isExist (sv_control_map s)) rnds) (\<lambda>(ctl_id, rnds').
           let (ctl, s1) = alloc s;
               s2 = put_ctl ctl (Control_new j pc0 accept_fd ctl_id) s1
           in newCtlConnHandler j pc0 fds rnds' (s2\<lparr>sv_control_map := add (sv_control_map s2) ctl_id ctl\<rparr>))
      else Ok s)"

text \<open>\<^verbatim>\<open>fd % UnclaimedProxyMapLen\<close> truncates towards zero, so a negative descriptor would miss the array.\<close>

definition getUnclaimedProxyMapByFd :: "int \<Rightarrow> nat outcome" where
  "getUnclaimedProxyMapByFd fd =
     (let idx = (if fd < 0 then - ((- fd) mod UnclaimedProxyMapLen) else fd mod UnclaimedProxyMapLen)
      in if idx < 0 then Ub IndexOut else Ok (nat idx))"

definition on_unclaimed ::
    "int \<Rightarrow> ((int, oid) safe_unordered_map \<Rightarrow> (int, oid) safe_unordered_map) \<Rightarrow> server \<Rightarrow> server outcome" where
  "on_unclaimed fd f s =
     bind_outcome (getUnclaimedProxyMapByFd fd) (\<lambda>i.
       if i < length (sv_unclaimed s) then Ok (s\<lparr>sv_unclaimed := (sv_unclaimed s)[i := f (sv_unclaimed s ! i)]\<rparr>)
       else Ub IndexOut)"

fun newProxyConnHandler :: "junk \<Rightarrow> bool \<Rightarrow> int \<Rightarrow> int list \<Rightarrow> server \<Rightarrow> server outcome" where
  "newProxyConnHandler j pc0 peer0 [] s = Spin"
| "newProxyConnHandler j pc0 peer0 (accept_fd # fds) s =
     (if accept_fd > 0
      then bind_outcome (PickRandThread (sv_pool s)) (\<lambda>(threadPicked, pool').
           let (px, s1) = alloc (s\<lparr>sv_pool := pool'\<rparr>);
               p = ProxyConn_new j pc0 pc0 peer0 accept_fd threadPicked
           in bind_outcome (on_unclaimed accept_fd (\<lambda>m. add m accept_fd px) (put_px px p s1)) (\<lambda>s2.
                newProxyConnHandler j pc0 peer0 fds (put_px px (AddConn p) s2)))
      else Ok s)"

text \<open>\<^verbatim>\<open>postHandler\<close> is installed for both acceptors and re-arms the control one.\<close>

definition postHandler :: "server \<Rightarrow> server" where
  "postHandler s =
     (let s1 = s\<lparr>sv_ctl_acceptor := SetEvents SERVER_LISTEN_EPOLL_EVENTS (sv_ctl_acceptor s)\<rparr>
      in s1\<lparr>sv_ctl_armed := events (sv_ctl_acceptor s1)\<rparr>)"

definition Server_claimProxyConn :: "bool \<Rightarrow> int \<Rightarrow> byte list \<Rightarrow> oid \<Rightarrow> server \<Rightarrow> server outcome" where
  "Server_claimProxyConn pc0 peer0 msg px s =
     bind_outcome (cstr_at msg 0) (\<lambda>ctl_id.
     bind_outcome (cstr_at msg 10) (\<lambda>tun_id.
     bind_outcome (cstr_at msg 20) (\<lambda>pid.
     bind_outcome (on_px px (setProxyID pid) s) (\<lambda>s1.
     case map_of (sv_control_map s1) ctl_id of
       None \<Rightarrow> Ok s1
     | Some ctl \<Rightarrow>
         bind_outcome (deref sv_ctls ctl s1) (\<lambda>k.
         case map_of (k_tunnel_map k) tun_id of
           None \<Rightarrow> Ok s1
         | Some tun \<Rightarrow>
             bind_outcome (Tunnel_claimProxyConn pc0 peer0 tun px s1) (\<lambda>s2.
             bind_outcome (deref sv_pxs px s2) (\<lambda>p.
               on_unclaimed (conn_fd p) (\<lambda>m. erase m (conn_fd p)) s2)))))))"

section \<open>Events\<close>

text \<open>A read event on a proxy connection and the handlers the server and its tunnel installed.\<close>

definition server_proxy_read :: "junk \<Rightarrow> bool \<Rightarrow> int \<Rightarrow> wr_resp \<Rightarrow> oid \<Rightarrow> server \<Rightarrow> server outcome" where
  "server_proxy_read j pc0 peer0 w px s =
     bind_outcome (deref sv_pxs px s) (\<lambda>p.
     bind_outcome (ProxyConn_handleRead j w p) (\<lambda>(call, out, p').
     let s1 = deliver (peer_conn_fd p) out (put_px px p' s)
     in case call of
          NoCall \<Rightarrow> Ok s1
        | CloseLocalPeer \<Rightarrow>
            (case sv_px_tun s1 px of None \<Rightarrow> Ok s1 | Some tun \<Rightarrow> shutdownPublicConn tun px s1)
        | ProxyMsg ty body \<Rightarrow>
            (case ty of
               ProxyMetaSet \<Rightarrow> Server_claimProxyConn pc0 peer0 body px s1
             | StartProxyConnReq \<Rightarrow> Ok s1
             | StartProxyConnRsp \<Rightarrow>
                 (case sv_px_tun s1 px of None \<Rightarrow> Ok s1
                  | Some tun \<Rightarrow> handleStartProxyConnRsp pc0 peer0 tun body px s1))))"

definition server_proxy_write :: "oid \<Rightarrow> server \<Rightarrow> server outcome" where
  "server_proxy_write px s =
     bind_outcome (deref sv_pxs px s) (\<lambda>p.
     bind_outcome (ProxyConn_handleWrite p) (\<lambda>p'. Ok (put_px px p' s)))"

definition server_proxy_post :: "oid \<Rightarrow> server \<Rightarrow> server outcome" where
  "server_proxy_post px s =
     bind_outcome (deref sv_pxs px s) (\<lambda>p.
     let (close, p') = ProxyConn_postHandle p; s1 = put_px px p' s
     in if close then (case sv_px_tun s1 px of None \<Rightarrow> Ok s1 | Some tun \<Rightarrow> handlePeerProxyConnClose tun px s1)
        else Ok s1)"

text \<open>A read event on a control connection and the handlers \<^verbatim>\<open>Control\<close> installed.\<close>

definition server_ctl_read ::
    "junk \<Rightarrow> (nat \<Rightarrow> nat) \<Rightarrow> listen_env \<Rightarrow> cstring \<times> int \<Rightarrow> bool \<Rightarrow> oid \<Rightarrow> server \<Rightarrow> server outcome" where
  "server_ctl_read j rnd env sockname pc0 ctl s =
     bind_outcome (deref sv_ctls ctl s) (\<lambda>k.
     bind_outcome (CtlConn_handleRead j (k_conn k)) (\<lambda>(ev, c).
     let s1 = put_ctl ctl (k\<lparr>k_conn := c\<rparr>) s
     in case ev of
          None \<Rightarrow> Ok s1
        | Some (ty, body) \<Rightarrow>
            (case ty of
               NewCtlReq \<Rightarrow> handleNewCtlReq j ctl s1
             | NewTunnelReq \<Rightarrow> handleNewTunnelReq j rnd env sockname pc0 ctl body s1
             | NotifyProxyShutdownPeerConn \<Rightarrow> handleShutdownPublicConn ctl body s1
             | FreeProxyConnReq \<Rightarrow> handleFreeProxyConnReq ctl body s1
             | _ \<Rightarrow> Ok s1)))"

definition server_ctl_write :: "oid \<Rightarrow> server \<Rightarrow> server outcome" where
  "server_ctl_write ctl s =
     bind_outcome (deref sv_ctls ctl s) (\<lambda>k.
     bind_outcome (CtlConn_handleWrite (k_conn k)) (\<lambda>c. Ok (put_ctl ctl (k\<lparr>k_conn := c\<rparr>) s)))"

definition server_ctl_post :: "oid \<Rightarrow> server \<Rightarrow> server outcome" where
  "server_ctl_post ctl s =
     bind_outcome (deref sv_ctls ctl s) (\<lambda>k.
     let (close, c) = CtlConn_postHandle (k_conn k); s1 = put_ctl ctl (k\<lparr>k_conn := c\<rparr>) s
     in if close then handleCtlConnClose ctl s1 else Ok s1)"

end
