(* ===== verification/CProxy_ServerInv.thy ===== *)
theory CProxy_ServerInv
  imports CProxy_Server
begin

text \<open>
  The well-formedness of the server's object graph and its preservation by every handler: maps hold
  each key once, every identity in a map, list or binding is an allocated object, controls and tunnels
  are filed under their own ids, an unclaimed proxy connection sits in the shard its descriptor hashes
  to, and all output buffers are well-formed ring buffers. Together with preservation each lemma shows
  that the handler does not dereference a null or dangling pointer (in particular the free lists hold
  no empty pointers).
\<close>

section \<open>The invariant\<close>

definition ctl_ok :: "server \<Rightarrow> control \<Rightarrow> bool" where
  "ctl_ok s k \<longleftrightarrow> obuf_ok (cc_out_buffer (k_conn k)) \<and> cc_ctl_id (k_conn k) = k_ctl_id k \<and>
     map_wf (k_tunnel_map k) \<and>
     (\<forall>i t. map_of (k_tunnel_map k) i = Some t \<longrightarrow> (\<exists>x. sv_tuns s t = Some x \<and> st_tun_id x = i))"

definition tun_ok :: "server \<Rightarrow> server_tunnel \<Rightarrow> bool" where
  "tun_ok s t \<longleftrightarrow> sv_ctls s (st_ctl t) \<noteq> None \<and> map_wf (st_proxy_conn_map t) \<and> map_wf (st_wait_map t) \<and>
     (\<forall>i px. map_of (st_proxy_conn_map t) i = Some px \<longrightarrow> sv_pxs s px \<noteq> None) \<and>
     (\<forall>i px. map_of (st_wait_map t) i = Some px \<longrightarrow> sv_pxs s px \<noteq> None) \<and>
     None \<notin> set (st_free t) \<and> (\<forall>px. Some px \<in> set (st_free t) \<longrightarrow> sv_pxs s px \<noteq> None)"

definition shard_ok :: "server \<Rightarrow> nat \<Rightarrow> (int, oid) safe_unordered_map \<Rightarrow> bool" where
  "shard_ok s i m \<longleftrightarrow> map_wf m \<and>
     (\<forall>fd px. map_of m fd = Some px \<longrightarrow> fd mod 4 = int i \<and> (\<exists>p. sv_pxs s px = Some p \<and> conn_fd p = fd))"

definition server_inv :: "server \<Rightarrow> bool" where
  "server_inv s \<longleftrightarrow>
     (\<forall>oid. sv_next s \<le> oid \<longrightarrow>
        sv_ctls s oid = None \<and> sv_tuns s oid = None \<and> sv_pxs s oid = None \<and> sv_pubs s oid = None) \<and>
     map_wf (sv_control_map s) \<and>
     (\<forall>i ctl. map_of (sv_control_map s) i = Some ctl \<longrightarrow> (\<exists>k. sv_ctls s ctl = Some k \<and> k_ctl_id k = i)) \<and>
     (\<forall>oid k. sv_ctls s oid = Some k \<longrightarrow> ctl_ok s k) \<and>
     (\<forall>oid t. sv_tuns s oid = Some t \<longrightarrow> tun_ok s t) \<and>
     (\<forall>oid p. sv_pxs s oid = Some p \<longrightarrow> px_ok p) \<and>
     (\<forall>px tun. sv_px_tun s px = Some tun \<longrightarrow> sv_tuns s tun \<noteq> None) \<and>
     (\<forall>oid c. sv_pubs s oid = Some c \<longrightarrow> sv_tuns s (ec_tun c) \<noteq> None) \<and>
     length (sv_unclaimed s) = 4 \<and>
     (\<forall>i < 4. shard_ok s i (sv_unclaimed s ! i))"

text \<open>Objects are never removed from the heaps and keep their identifying fields.\<close>

definition heap_le :: "server \<Rightarrow> server \<Rightarrow> bool" where
  "heap_le s s' \<longleftrightarrow>
     (\<forall>oid k. sv_ctls s oid = Some k \<longrightarrow> (\<exists>k'. sv_ctls s' oid = Some k' \<and> k_ctl_id k' = k_ctl_id k)) \<and>
     (\<forall>oid t. sv_tuns s oid = Some t \<longrightarrow> (\<exists>t'. sv_tuns s' oid = Some t' \<and> st_tun_id t' = st_tun_id t)) \<and>
     (\<forall>oid p. sv_pxs s oid = Some p \<longrightarrow> (\<exists>p'. sv_pxs s' oid = Some p' \<and> conn_fd p' = conn_fd p)) \<and>
     (\<forall>oid c. sv_pubs s oid = Some c \<longrightarrow> sv_pubs s' oid \<noteq> None)"

lemma heap_le_refl [simp]: "heap_le s s"
  by (simp add: heap_le_def)

lemma heap_le_trans: "heap_le s1 s2 \<Longrightarrow> heap_le s2 s3 \<Longrightarrow> heap_le s1 s3"
  unfolding heap_le_def by (intro conjI allI impI; fastforce)

lemma ctl_ok_mono: "heap_le s s' \<Longrightarrow> ctl_ok s k \<Longrightarrow> ctl_ok s' k"
  unfolding heap_le_def ctl_ok_def by metis

lemma tun_ok_mono: "heap_le s s' \<Longrightarrow> tun_ok s t \<Longrightarrow> tun_ok s' t"
  unfolding heap_le_def tun_ok_def by (metis option.exhaust option.distinct(1))

lemma shard_ok_mono: "heap_le s s' \<Longrightarrow> shard_ok s i m \<Longrightarrow> shard_ok s' i m"
  unfolding heap_le_def shard_ok_def by metis

text \<open>The invariant is monotone: a state that extends a well-formed one by well-formed objects is well-formed.\<close>

lemma server_inv_extend:
  assumes "server_inv s" "heap_le s s'" "sv_next s \<le> sv_next s'"
    and "\<And>oid. sv_next s' \<le> oid \<Longrightarrow>
          sv_ctls s' oid = None \<and> sv_tuns s' oid = None \<and> sv_pxs s' oid = None \<and> sv_pubs s' oid = None"
    and "sv_control_map s' = sv_control_map s" "sv_unclaimed s' = sv_unclaimed s"
    and "\<And>oid k. sv_ctls s' oid = Some k \<Longrightarrow> sv_ctls s oid = Some k \<or> ctl_ok s' k"
    and "\<And>oid t. sv_tuns s' oid = Some t \<Longrightarrow> sv_tuns s oid = Some t \<or> tun_ok s' t"
    and "\<And>oid p. sv_pxs s' oid = Some p \<Longrightarrow> px_ok p"
    and "\<And>px tun. sv_px_tun s' px = Some tun \<Longrightarrow> sv_tuns s' tun \<noteq> None"
    and "\<And>oid c. sv_pubs s' oid = Some c \<Longrightarrow> sv_tuns s' (ec_tun c) \<noteq> None"
  shows "server_inv s'"
proof -
  have "\<exists>k. sv_ctls s' ctl = Some k \<and> k_ctl_id k = i" if "map_of (sv_control_map s) i = Some ctl" for i ctl
    using that assms(1,2) unfolding server_inv_def heap_le_def by metis
  moreover have "ctl_ok s' k" if "sv_ctls s' oid = Some k" for oid k
    using assms(7) [OF that] ctl_ok_mono [OF assms(2)] assms(1) unfolding server_inv_def by metis
  moreover have "tun_ok s' t" if "sv_tuns s' oid = Some t" for oid t
    using assms(8) [OF that] tun_ok_mono [OF assms(2)] assms(1) unfolding server_inv_def by metis
  moreover have "shard_ok s' i (sv_unclaimed s ! i)" if "i < 4" for i
    using shard_ok_mono [OF assms(2)] assms(1) that unfolding server_inv_def by metis
  moreover have "map_wf (sv_control_map s)" "length (sv_unclaimed s) = 4"
    using assms(1) by (simp_all add: server_inv_def)
  ultimately show ?thesis
    unfolding server_inv_def assms(5,6) 
    by (intro conjI allI impI) (simp_all add: assms(4,9,10,11))
qed

interpretation srv: object_graph server_inv heap_le
  by unfold_locales (simp, rule heap_le_trans)

abbreviation server_keeps :: "server \<Rightarrow> server outcome \<Rightarrow> bool" where
  "server_keeps \<equiv> keeps server_inv heap_le"

section \<open>Object updates\<close>

lemma invD:
  assumes "server_inv s"
  shows "sv_ctls s oid = Some k \<Longrightarrow> ctl_ok s k" "sv_tuns s oid = Some t \<Longrightarrow> tun_ok s t"
    "sv_pxs s oid = Some p \<Longrightarrow> px_ok p" "sv_px_tun s px = Some tun \<Longrightarrow> sv_tuns s tun \<noteq> None"
    "sv_pubs s oid = Some c \<Longrightarrow> sv_tuns s (ec_tun c) \<noteq> None"
    "sv_next s \<le> oid \<Longrightarrow> sv_ctls s oid = None \<and> sv_tuns s oid = None \<and> sv_pxs s oid = None \<and> sv_pubs s oid = None"
    "map_of (sv_control_map s) i = Some ctl \<Longrightarrow> \<exists>k. sv_ctls s ctl = Some k \<and> k_ctl_id k = i"
  using assms unfolding server_inv_def by blast+

lemma allocated_below:
  assumes "server_inv s"
  shows "sv_ctls s oid = Some k \<Longrightarrow> oid < sv_next s" "sv_tuns s oid = Some t \<Longrightarrow> oid < sv_next s"
    "sv_pxs s oid = Some p \<Longrightarrow> oid < sv_next s" "sv_pubs s oid = Some c \<Longrightarrow> oid < sv_next s"
  using invD(6) [OF assms, of oid] by (cases "oid < sv_next s"; simp add: not_less)+

lemma put_ctl_inv:
  assumes "server_inv s" "sv_ctls s oid = Some k0" "k_ctl_id k = k_ctl_id k0" "ctl_ok s k"
  shows "server_inv (put_ctl oid k s) \<and> heap_le s (put_ctl oid k s)"
proof -
  have le: "heap_le s (put_ctl oid k s)" using assms(2,3) by (simp add: heap_le_def put_defs)
  moreover have "server_inv (put_ctl oid k s)"
    by (rule server_inv_extend [OF assms(1) le])
      (use invD [OF assms(1)] allocated_below(1) [OF assms(1,2)] ctl_ok_mono [OF le assms(4)]
        in \<open>auto simp: put_defs split: if_splits\<close>)
  ultimately show ?thesis by simp
qed

lemma put_tun_inv:
  assumes "server_inv s" "sv_tuns s oid = Some t0" "st_tun_id t = st_tun_id t0" "tun_ok s t"
  shows "server_inv (put_tun oid t s) \<and> heap_le s (put_tun oid t s)"
proof -
  have le: "heap_le s (put_tun oid t s)" using assms(2,3) by (simp add: heap_le_def put_defs)
  moreover have "server_inv (put_tun oid t s)"
    by (rule server_inv_extend [OF assms(1) le])
      (use invD [OF assms(1)] allocated_below(2) [OF assms(1,2)] tun_ok_mono [OF le assms(4)]
        in \<open>auto simp: put_defs split: if_splits\<close>)
  ultimately show ?thesis by simp
qed

lemma put_px_inv:
  assumes "server_inv s" "sv_pxs s oid = Some p0" "conn_fd p = conn_fd p0" "px_ok p"
  shows "server_inv (put_px oid p s) \<and> heap_le s (put_px oid p s)"
proof -
  have le: "heap_le s (put_px oid p s)" using assms(2,3) by (simp add: heap_le_def put_defs)
  moreover have "server_inv (put_px oid p s)"
    by (rule server_inv_extend [OF assms(1) le])
      (use invD [OF assms(1)] allocated_below(3) [OF assms(1,2)] assms(4)
        in \<open>auto simp: put_defs split: if_splits\<close>)
  ultimately show ?thesis by simp
qed

lemma put_pub_inv:
  assumes "server_inv s" "sv_pubs s oid = Some c0" "ec_tun c = ec_tun c0"
  shows "server_inv (put_pub oid c s) \<and> heap_le s (put_pub oid c s)"
proof -
  have le: "heap_le s (put_pub oid c s)" by (simp add: heap_le_def put_defs)
  moreover have "server_inv (put_pub oid c s)"
    by (rule server_inv_extend [OF assms(1) le])
      (use invD [OF assms(1)] allocated_below(4) [OF assms(1,2)] invD(5) [OF assms(1,2)] assms(3)
        in \<open>auto simp: put_defs split: if_splits\<close>)
  ultimately show ?thesis by simp
qed

lemma new_pub_inv:
  assumes "server_inv s" "sv_tuns s (ec_tun c) \<noteq> None" "alloc s = (oid, s1)"
  shows "server_inv (put_pub oid c s1) \<and> heap_le s (put_pub oid c s1)"
proof -
  have le: "heap_le s (put_pub oid c s1)"
    using assms(3) by (auto simp: heap_le_def put_defs)
  moreover have "server_inv (put_pub oid c s1)"
    by (rule server_inv_extend [OF assms(1) le])
      (use invD [OF assms(1)] assms(2,3) in \<open>auto simp: put_defs split: if_splits\<close>)
  ultimately show ?thesis by simp
qed

lemma deliver_inv: "server_inv s \<Longrightarrow> server_inv (deliver fd bs s) \<and> heap_le s (deliver fd bs s)"
proof -
  assume inv: "server_inv s"
  have le: "heap_le s (deliver fd bs s)"
    by (auto simp: heap_le_def deliver_def receive_on_def)
  moreover have "server_inv (deliver fd bs s)"
    by (rule server_inv_extend [OF inv le])
      (use invD [OF inv] in \<open>auto simp: deliver_def receive_on_def px_ok_def split: if_splits\<close>)
  ultimately show ?thesis by simp
qed

lemma side_fields_inv:
  assumes "server_inv s"
  shows "server_inv (s\<lparr>sv_shut_wr := x\<rparr>) \<and> heap_le s (s\<lparr>sv_shut_wr := x\<rparr>)"
    and "server_inv (s\<lparr>sv_pool := pl\<rparr>) \<and> heap_le s (s\<lparr>sv_pool := pl\<rparr>)"
    and "sv_tuns s tun \<noteq> None \<Longrightarrow>
         server_inv (s\<lparr>sv_px_tun := (sv_px_tun s)(px := Some tun)\<rparr>) \<and>
         heap_le s (s\<lparr>sv_px_tun := (sv_px_tun s)(px := Some tun)\<rparr>)"
  using assms
  by (simp_all add: server_inv_def heap_le_def ctl_ok_def tun_ok_def shard_ok_def)

section \<open>Handlers\<close>

lemma deref_safe: "h s oid = Some x \<Longrightarrow> deref h oid s = Ok x"
  by (simp add: deref_def)

lemma heap_leD:
  assumes "heap_le s s'"
  shows "sv_ctls s oid \<noteq> None \<Longrightarrow> sv_ctls s' oid \<noteq> None" "sv_tuns s oid \<noteq> None \<Longrightarrow> sv_tuns s' oid \<noteq> None"
    "sv_pxs s oid \<noteq> None \<Longrightarrow> sv_pxs s' oid \<noteq> None" "sv_pubs s oid \<noteq> None \<Longrightarrow> sv_pubs s' oid \<noteq> None"
  using assms unfolding heap_le_def by (metis option.exhaust option.distinct(1))+

lemma send_ctl_keeps:
  assumes "server_inv s" "sv_ctls s ctl \<noteq> None"
  shows "server_keeps s (send_ctl j ty body ctl s)"
  unfolding send_ctl_def
proof (rule srv.keeps_deref [where h = sv_ctls, OF assms(2)])
  fix k
  assume k: "sv_ctls s ctl = Some k"
  have ok: "ctl_ok s k" by (rule invD(1) [OF assms(1) k])
  show "server_keeps s (bind_outcome (MakeCtlMsg ty body) (\<lambda>m.
     bind_outcome (CtlConn_SendMsg j m (k_conn k)) (\<lambda>c. Ok (put_ctl ctl (k\<lparr>k_conn := c\<rparr>) s))))"
  proof (rule srv.keeps_value [OF body_msg_safe(5)])
    fix m
    assume m: "MakeCtlMsg ty body = Ok m"
    obtain c where c: "CtlConn_SendMsg j m (k_conn k) = Ok c" "obuf_ok (cc_out_buffer c)"
        "cc_ctl_id c = cc_ctl_id (k_conn k)"
      using CtlConn_SendMsg_safe [OF _ m, of "k_conn k" j] ok by (auto simp: ctl_ok_def)
    then have "ctl_ok s (k\<lparr>k_conn := c\<rparr>)" using ok by (simp add: ctl_ok_def)
    with put_ctl_inv [OF assms(1) k, of "k\<lparr>k_conn := c\<rparr>"] c(1) show
      "server_keeps s (bind_outcome (CtlConn_SendMsg j m (k_conn k)) (\<lambda>c. Ok (put_ctl ctl (k\<lparr>k_conn := c\<rparr>) s)))"
      by (simp add: keeps_def)
  qed
qed

lemma notify_keeps:
  assumes "server_inv s" "sv_ctls s ctl \<noteq> None"
  shows "server_keeps s (notifyClientNeedProxy j ctl tid s)"
    and "server_keeps s (Control_shutdownFromPublic j ctl tid pid n s)"
  unfolding notifyClientNeedProxy_def Control_shutdownFromPublic_def
  by (rule srv.keeps_value [OF body_msg_safe(1)] srv.keeps_value [OF body_msg_safe(2)],
      rule send_ctl_keeps [OF assms])+

lemma on_tun_keeps:
  assumes "server_inv s" "sv_tuns s tun \<noteq> None" "\<And>t. st_tun_id (f t) = st_tun_id t"
    and "\<And>t. tun_ok s t \<Longrightarrow> tun_ok s (f t)"
  shows "server_keeps s (on_tun tun f s)"
  unfolding on_tun_def
proof (rule srv.keeps_deref [where h = sv_tuns, OF assms(2)])
  fix t
  assume t: "sv_tuns s tun = Some t"
  from put_tun_inv [OF assms(1) t assms(3) assms(4)] invD(2) [OF assms(1) t]
  show "server_keeps s (Ok (put_tun tun (f t) s))" by (simp add: keeps_def)
qed

lemma on_px_keeps:
  assumes "server_inv s" "sv_pxs s px \<noteq> None" "\<And>p. conn_fd (f p) = conn_fd p" "\<And>p. px_ok p \<Longrightarrow> px_ok (f p)"
  shows "server_keeps s (on_px px f s)"
  unfolding on_px_def
proof (rule srv.keeps_deref [where h = sv_pxs, OF assms(2)])
  fix p
  assume p: "sv_pxs s px = Some p"
  from put_px_inv [OF assms(1) p assms(3) assms(4)] invD(3) [OF assms(1) p]
  show "server_keeps s (Ok (put_px px (f p) s))" by (simp add: keeps_def)
qed

lemma tun_ok_maps:
  assumes "tun_ok s t" "sv_pxs s px \<noteq> None"
  shows "tun_ok s (t\<lparr>st_proxy_conn_map := add (st_proxy_conn_map t) i px\<rparr>)"
    and "tun_ok s (t\<lparr>st_wait_map := add (st_wait_map t) i px\<rparr>)"
    and "tun_ok s (t\<lparr>st_proxy_conn_map := erase (st_proxy_conn_map t) i, st_free := st_free t @ [Some px]\<rparr>)"
  using assms by (auto simp: tun_ok_def map_lookup map_wf_add map_wf_erase split: if_splits)

lemma tun_ok_shrink:
  assumes "tun_ok s t"
  shows "tun_ok s (t\<lparr>st_wait_map := erase (st_wait_map t) i\<rparr>)"
    and "tun_ok s (t\<lparr>st_undeal := u\<rparr>)"
    and "tun_ok s (t\<lparr>st_free := butlast (st_free t)\<rparr>)"
  using assms by (auto simp: tun_ok_def map_lookup map_wf_erase dest: in_set_butlastD)

lemma reqStartProxy_keeps:
  assumes "server_inv s" "sv_pxs s px \<noteq> None"
  shows "server_keeps s (reqStartProxy j fd px s)"
  unfolding reqStartProxy_def
proof (rule srv.keeps_deref [where h = sv_pxs, OF assms(2)])
  fix p
  assume p: "sv_pxs s px = Some p"
  show "server_keeps s
     (bind_outcome (StartProxyConnReqMsg j (word_of_int fd) (getProxyID p)) (\<lambda>body.
     bind_outcome (make_proxy_ctl_msg StartProxyConnReq body) (\<lambda>m.
     bind_outcome (ProxyConn_SendMsg j m p) (\<lambda>p'. Ok (put_px px p' s)))))"
  proof (rule srv.keeps_value [OF body_msg_safe(3)], rule srv.keeps_value [OF body_msg_safe(6)])
    fix body m
    assume m: "make_proxy_ctl_msg StartProxyConnReq body = Ok m"
    obtain p' where p': "ProxyConn_SendMsg j m p = Ok p'" "obuf_ok (pc_out_buffer p')" "conn_fd p' = conn_fd p"
      using ProxyConn_SendMsg_safe [OF _ m, of p j] invD(3) [OF assms(1) p] by (auto simp: px_ok_def)
    from put_px_inv [OF assms(1) p p'(3)] p' show
      "server_keeps s (bind_outcome (ProxyConn_SendMsg j m p) (\<lambda>p'. Ok (put_px px p' s)))"
      by (simp add: keeps_def px_ok_def)
  qed
qed

lemma newPublicConnHandler_keeps:
  "server_inv s \<Longrightarrow> sv_tuns s tun \<noteq> None \<Longrightarrow> server_keeps s (newPublicConnHandler j tun fds s)"
proof (induction fds arbitrary: s)
  case Nil
  then show ?case by (simp add: keeps_def)
next
  case (Cons fd fds)
  obtain t where t: "sv_tuns s tun = Some t" using Cons.prems(2) by auto
  have ok: "tun_ok s t" by (rule invD(2) [OF Cons.prems(1) t])
  show ?case
  proof (cases "0 < fd")
    case False
    then show ?thesis using srv.keeps_same [OF Cons.prems(1)] by simp
  next
    case pos: True
    show ?thesis
    proof (cases "st_free t = []")
      case True
      let ?s = "put_tun tun (t\<lparr>st_undeal := st_undeal t @ [fd]\<rparr>) s"
      have put: "server_inv ?s" "heap_le s ?s"
        using put_tun_inv [OF Cons.prems(1) t _ tun_ok_shrink(2) [OF ok]] by simp_all
      have ctl: "sv_ctls ?s (st_ctl t) \<noteq> None" using ok by (simp add: tun_ok_def put_tun_def)
      have tn: "sv_tuns ?s tun \<noteq> None" by (simp add: put_tun_def)
      have "server_keeps ?s (bind_outcome (notifyClientNeedProxy j (st_ctl t) (st_tun_id t) ?s)
             (newPublicConnHandler j tun fds))"
        by (rule srv.keeps_bind [OF notify_keeps(1) [OF put(1) ctl]], rule Cons.IH)
          (use heap_leD(2) tn in blast)+
      from srv.keeps_after [OF put this] pos t True show ?thesis
        by (simp add: deref_def popFreeProxyConn_def)
    next
      case False
      then have "last (st_free t) \<in> set (st_free t)" by simp
      then obtain px where px: "last (st_free t) = Some px" "sv_pxs s px \<noteq> None"
        using ok unfolding tun_ok_def by (metis option.exhaust)
      let ?s = "put_tun tun (t\<lparr>st_free := butlast (st_free t)\<rparr>) s"
      have put: "server_inv ?s" "heap_le s ?s"
        using put_tun_inv [OF Cons.prems(1) t _ tun_ok_shrink(3) [OF ok]] by simp_all
      have al: "sv_pxs ?s px \<noteq> None" "sv_tuns ?s tun \<noteq> None" using px by (simp_all add: put_tun_def)
      have "server_keeps ?s (bind_outcome (reqStartProxy j fd px ?s) (\<lambda>s1.
                    bind_outcome (deref sv_pxs px s1) (\<lambda>p.
                    bind_outcome (on_tun tun (\<lambda>t. t\<lparr>st_wait_map := add (st_wait_map t) (getProxyID p) px\<rparr>) s1)
                      (newPublicConnHandler j tun fds))))"
      proof (rule srv.keeps_bind [OF reqStartProxy_keeps [OF put(1) al(1)]])
        fix s1
        assume s1: "server_inv s1" "heap_le ?s s1"
        then have al1: "sv_pxs s1 px \<noteq> None" "sv_tuns s1 tun \<noteq> None" using heap_leD al by blast+
        then obtain p where p: "sv_pxs s1 px = Some p" by auto
        have "server_keeps s1 (on_tun tun (\<lambda>t. t\<lparr>st_wait_map := add (st_wait_map t) (getProxyID p) px\<rparr>) s1)"
          by (rule on_tun_keeps [OF s1(1) al1(2)]) (use tun_ok_maps(2) [OF _ al1(1)] in simp_all)
        from srv.keeps_bind [OF this Cons.IH] heap_leD(2) al1(2) p
        show "server_keeps s1 (bind_outcome (deref sv_pxs px s1) (\<lambda>p.
              bind_outcome (on_tun tun (\<lambda>t. t\<lparr>st_wait_map := add (st_wait_map t) (getProxyID p) px\<rparr>) s1)
                (newPublicConnHandler j tun fds)))"
          by (simp add: deref_def)
      qed
      from srv.keeps_after [OF put this] pos t px False show ?thesis
        by (simp add: deref_def popFreeProxyConn_def)
    qed
  qed
qed

lemma bindPublicFdToProxyConn_keeps:
  assumes "server_inv s" "sv_tuns s tun \<noteq> None" "sv_pxs s px \<noteq> None"
  shows "server_keeps s (bindPublicFdToProxyConn pc0 peer0 tun fd px s)"
  unfolding bindPublicFdToProxyConn_def
proof (rule srv.keeps_deref [where h = sv_pxs, OF assms(3)])
  fix p
  assume p: "sv_pxs s px = Some p"
  obtain pub s1 where al: "alloc s = (pub, s1)" by (cases "alloc s")
  let ?c = "edge_conn_new pc0 pc0 peer0 fd (getThread p) tun (getProxyID p)"
  obtain p' c' where st: "ProxyConn_start pub (p, ?c) = (p', c')" by (cases "ProxyConn_start pub (p, ?c)")
  have p': "conn_fd p' = conn_fd p" "px_ok p'" "ec_tun c' = tun"
    using st invD(3) [OF assms(1) p]
    by (auto simp: ProxyConn_start_def AddConn_def counter_defs px_ok_def edge_conn_new_def TranConn_new_def
        tran_conn.defs edge_conn.defs upd_chan_def)
  let ?s2 = "put_pub pub c' s1" and ?s3 = "put_px px p' (put_pub pub c' s1)"
  have 2: "server_inv ?s2 \<and> heap_le s ?s2"
    by (rule new_pub_inv [OF assms(1) _ al]) (use p'(3) assms(2) in simp)
  have "sv_pxs ?s2 px = Some p" using p al by (auto simp: put_defs)
  from put_px_inv [OF _ this p'(1,2)] 2 have 3: "server_inv ?s3" "heap_le s ?s3"
    using heap_le_trans by blast+
  have px: "sv_pxs ?s3 px \<noteq> None" by (simp add: put_defs)
  have "server_keeps ?s3 (on_tun tun (\<lambda>t. t\<lparr>st_proxy_conn_map := add (st_proxy_conn_map t) (getProxyID p) px\<rparr>) ?s3)"
    by (rule on_tun_keeps [OF 3(1)]) (use heap_leD(2) [OF 3(2) assms(2)] tun_ok_maps(1) [OF _ px] in simp_all)
  from srv.keeps_after [OF 3 this] show "server_keeps s (let (pub, s1) = alloc s;
         publicConn = edge_conn_new pc0 pc0 peer0 fd (getThread p) tun (getProxyID p);
         (p', publicConn') = ProxyConn_start pub (p, publicConn)
     in on_tun tun (\<lambda>t. t\<lparr>st_proxy_conn_map := add (st_proxy_conn_map t) (getProxyID p) px\<rparr>)
          (put_px px p' (put_pub pub publicConn' s1)))"
    by (simp add: al st)
qed

lemma freeProxyConn_keeps:
  assumes "server_inv s" "sv_tuns s tun \<noteq> None"
  shows "server_keeps s (freeProxyConn tun pid s)"
proof -
  obtain t where t: "sv_tuns s tun = Some t" using assms(2) by auto
  have ok: "tun_ok s t" by (rule invD(2) [OF assms(1) t])
  show ?thesis
  proof (cases "map_of (st_proxy_conn_map t) pid")
    case None
    then show ?thesis using srv.keeps_same [OF assms(1)] t by (simp add: freeProxyConn_def deref_def)
  next
    case (Some px)
    then have px: "sv_pxs s px \<noteq> None" using ok by (auto simp: tun_ok_def)
    from put_tun_inv [OF assms(1) t _ tun_ok_maps(3) [OF ok px, of pid]] px Some
      srv.keeps_same [OF assms(1)] t show ?thesis
      by (auto simp: freeProxyConn_def deref_def keeps_def)
  qed
qed

lemma shutdownPublicConn_keeps:
  assumes "server_inv s" "sv_tuns s tun \<noteq> None" "sv_pxs s px \<noteq> None"
  shows "server_keeps s (shutdownPublicConn tun px s)"
proof -
  obtain p where p: "sv_pxs s px = Some p" using assms(3) by auto
  obtain fd fr p' where sh: "shutdownFromRemote p = (fd, fr, p')" by (cases "shutdownFromRemote p")
  have p': "px_ok p' \<and> conn_fd p' = conn_fd p"
    by (rule shutdown_px_ok(1) [OF invD(3) [OF assms(1) p] sh])
  let ?s0 = "s\<lparr>sv_shut_wr := sv_shut_wr s @ [fd]\<rparr>" and ?s1 = "put_px px p' (s\<lparr>sv_shut_wr := sv_shut_wr s @ [fd]\<rparr>)"
  have "sv_pxs ?s0 px = Some p" using p by simp
  from put_px_inv [OF _ this, of p'] side_fields_inv(1) [OF assms(1)] p'
  have 1: "server_inv ?s1" "heap_le s ?s1" using heap_le_trans by blast+
  from srv.keeps_after [OF 1 freeProxyConn_keeps [OF 1(1) heap_leD(2) [OF 1(2) assms(2)]]] 1
  show ?thesis
    using srv.keeps_same [OF assms(1)] p by (simp add: shutdownPublicConn_def deref_def sh keeps_def Let_def)
qed

lemma Tunnel_shutdownFromPublic_keeps:
  assumes "server_inv s" "sv_tuns s tun \<noteq> None"
  shows "server_keeps s (Tunnel_shutdownFromPublic j tun pid n s)"
proof -
  obtain t where t: "sv_tuns s tun = Some t" using assms(2) by auto
  have ok: "tun_ok s t" by (rule invD(2) [OF assms(1) t])
  show ?thesis
  proof (cases "map_of (st_proxy_conn_map t) pid")
    case None
    then show ?thesis using srv.keeps_same [OF assms(1)] t by (simp add: Tunnel_shutdownFromPublic_def deref_def)
  next
    case (Some px)
    then have px: "sv_pxs s px \<noteq> None" "sv_ctls s (st_ctl t) \<noteq> None" using ok by (auto simp: tun_ok_def)
    have "server_keeps s (on_px px (\<lambda>p. snd (shutdownFromLocal p)) s)"
      by (rule on_px_keeps [OF assms(1) px(1)]) (simp_all add: shutdown_px_ok)
    from srv.keeps_bind [OF this notify_keeps(2)] heap_leD(1) px(2) Some t show ?thesis
      by (simp add: Tunnel_shutdownFromPublic_def deref_def)
  qed
qed

lemma Tunnel_claimProxyConn_keeps:
  assumes "server_inv s" "sv_tuns s tun \<noteq> None" "sv_pxs s px \<noteq> None"
  shows "server_keeps s (Tunnel_claimProxyConn pc0 peer0 tun px s)"
  unfolding Tunnel_claimProxyConn_def
proof (rule srv.keeps_deref [where h = sv_tuns, OF assms(2)])
  fix t
  assume t: "sv_tuns s tun = Some t"
  let ?s0 = "s\<lparr>sv_px_tun := (sv_px_tun s)(px := Some tun)\<rparr>"
  have 0: "server_inv ?s0 \<and> heap_le s ?s0" by (rule side_fields_inv(3) [OF assms(1,2)])
  show "server_keeps s (bind_outcome (getAndPopUndealPublicFd t) (\<lambda>(publicFd, t').
       bindPublicFdToProxyConn pc0 peer0 tun publicFd px (put_tun tun t' ?s0)))"
  proof (cases "st_undeal t = []")
    case True
    then show ?thesis by (simp add: getAndPopUndealPublicFd_def keeps_def)
  next
    case False
    let ?t = "t\<lparr>st_undeal := butlast (st_undeal t)\<rparr>"
    have t0: "sv_tuns ?s0 tun = Some t" using t by simp
    have 1: "server_inv (put_tun tun ?t ?s0) \<and> heap_le ?s0 (put_tun tun ?t ?s0)"
      by (rule put_tun_inv [OF _ t0]) (use 0 tun_ok_shrink(2) [OF invD(2) [OF _ t0]] in simp_all)
    have le: "heap_le s (put_tun tun ?t ?s0)" using 0 1 heap_le_trans by blast
    have "server_keeps (put_tun tun ?t ?s0)
        (bindPublicFdToProxyConn pc0 peer0 tun (last (st_undeal t)) px (put_tun tun ?t ?s0))"
      by (rule bindPublicFdToProxyConn_keeps) (use 1 assms(3) in \<open>simp_all add: put_defs\<close>)
    from srv.keeps_after [OF _ le this] 1 False show ?thesis
      by (simp add: getAndPopUndealPublicFd_def)
  qed
qed

lemma handleStartProxyConnRsp_keeps:
  assumes "server_inv s" "sv_tuns s tun \<noteq> None" "sv_pxs s px \<noteq> None"
  shows "server_keeps s (handleStartProxyConnRsp pc0 peer0 tun msg px s)"
proof -
  have "server_keeps s (bind_outcome (bindPublicFdToProxyConn pc0 peer0 tun fd px s)
     (on_tun tun (\<lambda>t. t\<lparr>st_wait_map := erase (st_wait_map t) pid\<rparr>)))" for fd pid
    by (rule srv.keeps_bind [OF bindPublicFdToProxyConn_keeps [OF assms]], rule on_tun_keeps)
      (use heap_leD(2) [OF _ assms(2)] tun_ok_shrink(1) in \<open>simp_all\<close>)
  with assms srv.keeps_same [OF assms(1)] show ?thesis
    by (auto simp: handleStartProxyConnRsp_def deref_def Let_def)
qed

text \<open>\<^verbatim>\<open>std::remove\<close> leaves a list without the value alone.\<close>

lemma std_remove_absent: "Some x \<notin> set xs \<Longrightarrow> std_remove x xs = xs"
proof -
  assume "Some x \<notin> set xs"
  then have "takeWhile (\<lambda>y. y \<noteq> Some x) xs = xs" by (subst takeWhile_eq_all_conv) auto
  then show ?thesis unfolding std_remove_def Let_def by (simp only: refl if_True)
qed

lemma handlePeerProxyConnClose_keeps:
  assumes "server_inv s" "sv_tuns s tun = Some t" "sv_pxs s px \<noteq> None" "Some px \<notin> set (st_free t)"
  shows "server_keeps s (handlePeerProxyConnClose tun px s)"
proof -
  have "tun_ok s (t\<lparr>st_proxy_conn_map := erase (st_proxy_conn_map t) i\<rparr>)" for i
    using invD(2) [OF assms(1,2)] by (auto simp: tun_ok_def map_lookup map_wf_erase)
  with put_tun_inv [OF assms(1,2)] assms(2-4) show ?thesis
    by (auto simp: handlePeerProxyConnClose_def on_tun_def deref_def keeps_def std_remove_absent)
qed

lemma PublicConn_keeps:
  assumes "server_inv s" "sv_pubs s pub \<noteq> None"
  shows "server_keeps s (PublicConn_handleRead j w pub s)" and "server_keeps s (PublicConn_postHandle pub s)"
proof -
  obtain c where c: "sv_pubs s pub = Some c" using assms(2) by auto
  obtain call out c' where r: "edge_handleRead w c = (call, out, c')" by (cases "edge_handleRead w c")
  have c': "ec_tun c' = ec_tun c" "ec_tun (edge_postHandle c) = ec_tun c"
    using r by (auto simp: edge_handleRead_def forward_defs edge_postHandle_def rearm_def upd_chan_def Let_def
        split: prod.splits option.splits if_splits wr_resp.splits)
  let ?s1 = "deliver (peer_conn_fd c) out (put_pub pub c' s)"
  have "server_inv (put_pub pub c' s) \<and> heap_le s (put_pub pub c' s)"
    by (rule put_pub_inv [OF assms(1) c c'(1)])
  with deliver_inv have 1: "server_inv ?s1" "heap_le s ?s1" using heap_le_trans by blast+
  have "sv_tuns ?s1 (ec_tun c) \<noteq> None" by (rule heap_leD(2) [OF 1(2) invD(5) [OF assms(1) c]])
  from srv.keeps_after [OF 1 Tunnel_shutdownFromPublic_keeps [OF 1(1) this]] 1
  show "server_keeps s (PublicConn_handleRead j w pub s)"
    by (simp add: PublicConn_handleRead_def deref_def c r Let_def keeps_def split: edge_call.split)
  show "server_keeps s (PublicConn_postHandle pub s)"
    using put_pub_inv [OF assms(1) c c'(2)] by (simp add: PublicConn_postHandle_def deref_def c keeps_def)
qed

lemma handleNewCtlReq_keeps:
  assumes "server_inv s" "sv_ctls s ctl \<noteq> None"
  shows "server_keeps s (handleNewCtlReq j ctl s)"
  using send_ctl_keeps [OF assms] assms(2) by (auto simp: handleNewCtlReq_def deref_def)

lemma handleNewTunnelReq_keeps:
  assumes "server_inv s" "sv_ctls s ctl \<noteq> None"
  shows "server_keeps s (handleNewTunnelReq j rnd env sockname pc0 ctl msg s)"
proof -
  obtain k where k: "sv_ctls s ctl = Some k" using assms(2) by auto
  let ?t = "Tunnel_new env sockname pc0 (rand_str rnd 5) ctl"
  let ?s1 = "put_tun (sv_next s) ?t (s\<lparr>sv_next := Suc (sv_next s)\<rparr>)"
  have fresh: "sv_tuns s (sv_next s) = None" using invD(6) [OF assms(1)] by simp
  have le1: "heap_le s ?s1" using fresh by (auto simp: heap_le_def put_defs)
  have t: "tun_ok ?s1 ?t" using k by (simp add: tun_ok_def Tunnel_new_def Let_def put_defs map_wf_def)
  have 1: "server_inv ?s1"
    by (rule server_inv_extend [OF assms(1) le1])
      (use invD [OF assms(1)] t in \<open>auto simp: put_defs split: if_splits\<close>)
  let ?k = "upsertTunnel (rand_str rnd 5) (sv_next s) k"
  have k1: "sv_ctls ?s1 ctl = Some k" using k by (simp add: put_defs)
  have "ctl_ok ?s1 ?k"
    using invD(1) [OF 1 k1]
    by (auto simp: ctl_ok_def upsertTunnel_def map_lookup map_wf_add put_defs Tunnel_new_def Let_def split: if_splits)
  from put_ctl_inv [OF 1 k1 _ this] have 2: "server_inv (put_ctl ctl ?k ?s1)" "heap_le s (put_ctl ctl ?k ?s1)"
    using heap_le_trans [OF le1] by (auto simp: upsertTunnel_def)
  have "server_keeps (put_ctl ctl ?k ?s1) (send_ctl j NewTunnelRsp body ctl (put_ctl ctl ?k ?s1))" for body
    by (rule send_ctl_keeps [OF 2(1)]) (simp add: put_defs)
  note send = srv.keeps_after [OF 2 this]
  show ?thesis
    unfolding handleNewTunnelReq_def alloc_def
    by (simp add: deref_def k Let_def)
      (rule srv.keeps_value [OF body_msg_safe(7)], rule srv.keeps_value [OF body_msg_safe(4)], rule send)
qed

lemma handleShutdownPublicConn_keeps:
  assumes "server_inv s" "sv_ctls s ctl \<noteq> None"
  shows "server_keeps s (handleShutdownPublicConn ctl msg s)"
proof -
  obtain k where k: "sv_ctls s ctl = Some k" using assms(2) by auto
  have "server_keeps s (case map_of (k_tunnel_map k) tun_id of
          None \<Rightarrow> Ok s
        | Some tun \<Rightarrow>
            bind_outcome (deref sv_tuns tun s) (\<lambda>t.
            case getProxyConn pid t of
              None \<Rightarrow> Ok s
            | Some px \<Rightarrow> bind_outcome (on_px px (incrTheoreticalTotalRecvCount n) s) (shutdownPublicConn tun px)))"
    for tun_id pid n
  proof (cases "map_of (k_tunnel_map k) tun_id")
    case None
    then show ?thesis using srv.keeps_same [OF assms(1)] by simp
  next
    case (Some tun)
    then obtain t where t: "sv_tuns s tun = Some t"
      using invD(1) [OF assms(1) k] by (auto simp: ctl_ok_def)
    show ?thesis
    proof (cases "getProxyConn pid t")
      case None
      with Some t show ?thesis using srv.keeps_same [OF assms(1)] by (simp add: deref_def)
    next
      case px: (Some px)
      then have al: "sv_pxs s px \<noteq> None" using invD(2) [OF assms(1) t] by (auto simp: tun_ok_def getProxyConn_def)
      have "server_keeps s (on_px px (incrTheoreticalTotalRecvCount n) s)"
        by (rule on_px_keeps [OF assms(1) al]) (simp_all add: incrTheoreticalTotalRecvCount_def px_ok_def)
      from srv.keeps_bind [OF this shutdownPublicConn_keeps] heap_leD(2,3) al t Some px show ?thesis
        by (simp add: deref_def)
    qed
  qed
  then show ?thesis
    unfolding handleShutdownPublicConn_def
    by (simp add: deref_def k Let_def)
      (rule srv.keeps_value [OF body_msg_safe(7)], rule srv.keeps_value [OF body_msg_safe(7)])
qed

lemma handleFreeProxyConnReq_keeps:
  assumes "server_inv s" "sv_ctls s ctl \<noteq> None"
  shows "server_keeps s (handleFreeProxyConnReq ctl msg s)"
proof -
  obtain k where k: "sv_ctls s ctl = Some k" using assms(2) by auto
  have "server_keeps s (case map_of (k_tunnel_map k) tun_id of None \<Rightarrow> Ok s | Some tun \<Rightarrow> freeProxyConn tun pid s)"
    for tun_id pid
    using freeProxyConn_keeps [OF assms(1)] srv.keeps_same [OF assms(1)] invD(1) [OF assms(1) k]
    by (fastforce simp: ctl_ok_def split: option.split)
  then show ?thesis
    unfolding handleFreeProxyConnReq_def
    by (simp add: deref_def k)
      (rule srv.keeps_value [OF body_msg_safe(7)], rule srv.keeps_value [OF body_msg_safe(7)])
qed

lemma handleCtlConnClose_keeps:
  assumes "server_inv s" "sv_ctls s ctl \<noteq> None"
  shows "server_keeps s (handleCtlConnClose ctl s)"
proof -
  obtain k where k: "sv_ctls s ctl = Some k" using assms(2) by auto
  let ?s = "s\<lparr>sv_control_map := erase (sv_control_map s) (k_ctl_id k)\<rparr>"
  have "server_inv ?s"
    using assms(1) by (auto simp: server_inv_def ctl_ok_def tun_ok_def shard_ok_def map_lookup map_wf_erase)
  moreover have "heap_le s ?s" by (simp add: heap_le_def)
  ultimately show ?thesis by (simp add: handleCtlConnClose_def deref_def k keeps_def)
qed


section \<open>New connections\<close>

lemma new_ctl_inv:
  assumes "server_inv s" "alloc s = (ctl, s1)" "k_ctl_id k = i" "map_of (sv_control_map s) i = None"
    and "obuf_ok (cc_out_buffer (k_conn k))" "cc_ctl_id (k_conn k) = i" "k_tunnel_map k = []"
  shows "server_inv ((put_ctl ctl k s1)\<lparr>sv_control_map := add (sv_control_map (put_ctl ctl k s1)) i ctl\<rparr>) \<and>
     heap_le s ((put_ctl ctl k s1)\<lparr>sv_control_map := add (sv_control_map (put_ctl ctl k s1)) i ctl\<rparr>)"
proof -
  let ?s1 = "put_ctl ctl k s1"
  have new: "sv_ctls s ctl = None" "ctl = sv_next s" using assms(2) invD(6) [OF assms(1)] by (auto simp: alloc_def)
  have le: "heap_le s ?s1" using assms(2) new by (auto simp: heap_le_def put_defs)
  have ok: "ctl_ok ?s1 k" using assms(3,5-7) by (simp add: ctl_ok_def map_wf_def)
  have 1: "server_inv ?s1"
    by (rule server_inv_extend [OF assms(1) le])
      (use invD [OF assms(1)] ok assms(2) in \<open>auto simp: put_defs split: if_splits\<close>)
  have k: "sv_ctls ?s1 ctl = Some k" by (simp add: put_ctl_def)
  have "server_inv (?s1\<lparr>sv_control_map := add (sv_control_map ?s1) i ctl\<rparr>)"
    using 1 k assms(3) by (auto simp: server_inv_def ctl_ok_def tun_ok_def shard_ok_def map_lookup map_wf_add)
  moreover have "heap_le s (?s1\<lparr>sv_control_map := add (sv_control_map ?s1) i ctl\<rparr>)"
    using le by (simp add: heap_le_def)
  ultimately show ?thesis by simp
qed

lemma newCtlConnHandler_keeps: "server_inv s \<Longrightarrow> server_keeps s (newCtlConnHandler j pc0 fds rnds s)"
proof (induction fds arbitrary: s rnds)
  case Nil
  then show ?case by (simp add: keeps_def)
next
  case (Cons fd fds)
  obtain ctl s1 where al: "alloc s = (ctl, s1)" by (cases "alloc s")
  have "server_keeps s (newCtlConnHandler j pc0 fds rnds'
      ((put_ctl ctl (Control_new j pc0 fd i) s1)\<lparr>sv_control_map :=
         add (sv_control_map (put_ctl ctl (Control_new j pc0 fd i) s1)) i ctl\<rparr>))"
    if "fresh_id (isExist (sv_control_map s)) rnds = Ok (i, rnds')" for i rnds'
  proof -
    have "map_of (sv_control_map s) i = None" using fresh_id_unused [OF that] by (simp add: map_lookup)
    then have "server_inv ((put_ctl ctl (Control_new j pc0 fd i) s1)\<lparr>sv_control_map :=
         add (sv_control_map (put_ctl ctl (Control_new j pc0 fd i) s1)) i ctl\<rparr>) \<and>
       heap_le s ((put_ctl ctl (Control_new j pc0 fd i) s1)\<lparr>sv_control_map :=
         add (sv_control_map (put_ctl ctl (Control_new j pc0 fd i) s1)) i ctl\<rparr>)"
      by (intro new_ctl_inv [OF Cons.prems al])
        (simp_all add: Control_new_def SetCtlId_def CtlConn_new_def AddConn_def)
    then show ?thesis using srv.keeps_after Cons.IH by blast
  qed
  then have "server_keeps s (bind_outcome (fresh_id (isExist (sv_control_map s)) rnds) (\<lambda>(ctl_id, rnds').
           let (ctl, s1) = alloc s;
               s2 = put_ctl ctl (Control_new j pc0 fd ctl_id) s1
           in newCtlConnHandler j pc0 fds rnds' (s2\<lparr>sv_control_map := add (sv_control_map s2) ctl_id ctl\<rparr>)))"
    by (intro srv.keeps_value [OF fresh_id_safe]) (auto simp: al Let_def)
  then show ?case using srv.keeps_same [OF Cons.prems] by simp
qed

lemma shard_index:
  assumes "0 < fd"
  shows "getUnclaimedProxyMapByFd fd = Ok (nat (fd mod 4)) \<and> nat (fd mod 4) < 4 \<and> int (nat (fd mod 4)) = fd mod 4"
  using assms by (auto simp: getUnclaimedProxyMapByFd_def UnclaimedProxyMapLen_def Let_def nat_less_iff)

lemma on_unclaimed_keeps:
  assumes "server_inv s" "\<And>i. shard_ok s i (sv_unclaimed s ! i) \<Longrightarrow> int i = fd mod 4 \<Longrightarrow> shard_ok s i (f (sv_unclaimed s ! i))"
  shows "server_keeps s (on_unclaimed fd f s)"
proof (cases "getUnclaimedProxyMapByFd fd")
  case (Ok i)
  then have i: "i < 4" "int i = fd mod 4"
    by (auto simp: getUnclaimedProxyMapByFd_def UnclaimedProxyMapLen_def Let_def nat_less_iff split: if_splits)
      (simp_all add: zmod_zminus1_eq_if split: if_splits)
  let ?s = "s\<lparr>sv_unclaimed := (sv_unclaimed s)[i := f (sv_unclaimed s ! i)]\<rparr>"
  have len: "length (sv_unclaimed s) = 4" using assms(1) by (simp add: server_inv_def)
  have sh: "shard_ok s n (sv_unclaimed ?s ! n)" if "n < 4" for n
    using assms that i len by (cases "n = i") (auto simp: server_inv_def)
  have "heap_le s ?s" by (simp add: heap_le_def)
  moreover have "server_inv ?s"
    using assms(1) sh len
    by (simp add: server_inv_def ctl_ok_def tun_ok_def shard_ok_def)
  ultimately show ?thesis using Ok i(1) len by (simp add: on_unclaimed_def keeps_def)
qed (simp_all add: on_unclaimed_def keeps_def getUnclaimedProxyMapByFd_def Let_def split: if_splits)

lemma new_px_inv:
  assumes "server_inv s" "alloc s = (px, s1)" "px_ok p"
  shows "server_inv (put_px px p s1) \<and> heap_le s (put_px px p s1)"
proof -
  have new: "sv_pxs s px = None" using assms(2) invD(6) [OF assms(1)] by (auto simp: alloc_def)
  have le: "heap_le s (put_px px p s1)" using assms(2) new by (auto simp: heap_le_def put_defs)
  moreover have "server_inv (put_px px p s1)"
    by (rule server_inv_extend [OF assms(1) le])
      (use invD [OF assms(1)] assms(2,3) in \<open>auto simp: put_defs split: if_splits\<close>)
  ultimately show ?thesis by simp
qed

lemma newProxyConnHandler_keeps: "server_inv s \<Longrightarrow> server_keeps s (newProxyConnHandler j pc0 peer0 fds s)"
proof (induction fds arbitrary: s)
  case Nil
  then show ?case by (simp add: keeps_def)
next
  case (Cons fd fds)
  have "server_keeps s (let (px, s1) = alloc (s\<lparr>sv_pool := pool'\<rparr>);
               p = ProxyConn_new j pc0 pc0 peer0 fd th
           in bind_outcome (on_unclaimed fd (\<lambda>m. add m fd px) (put_px px p s1)) (\<lambda>s2.
                newProxyConnHandler j pc0 peer0 fds (put_px px (AddConn p) s2)))" for pool' th
  proof -
    let ?p = "ProxyConn_new j pc0 pc0 peer0 fd th"
    have 0: "server_inv (s\<lparr>sv_pool := pool'\<rparr>) \<and> heap_le s (s\<lparr>sv_pool := pool'\<rparr>)"
      by (rule side_fields_inv(2) [OF Cons.prems])
    obtain px s1 where al: "alloc (s\<lparr>sv_pool := pool'\<rparr>) = (px, s1)" by fastforce
    have p: "px_ok ?p" "px_ok (AddConn ?p)" "conn_fd ?p = fd" "conn_fd (AddConn ?p) = fd"
      by (simp_all add: px_ok_def ProxyConn_new_def TranConn_new_def tran_conn.defs proxy_conn.defs AddConn_def)
    let ?s2 = "put_px px ?p s1"
    have 2: "server_inv ?s2" "heap_le s ?s2"
      using new_px_inv [OF _ al p(1)] 0 heap_le_trans by blast+
    have px: "sv_pxs ?s2 px = Some ?p" by (simp add: put_px_def)
    have "server_keeps ?s2 (on_unclaimed fd (\<lambda>m. add m fd px) ?s2)"
      by (rule on_unclaimed_keeps [OF 2(1)])
        (use px p(3) in \<open>auto simp: shard_ok_def map_lookup map_wf_add split: if_splits\<close>)
    then have "server_keeps ?s2 (bind_outcome (on_unclaimed fd (\<lambda>m. add m fd px) ?s2) (\<lambda>s3.
        newProxyConnHandler j pc0 peer0 fds (put_px px (AddConn ?p) s3)))"
    proof (rule srv.keeps_bind)
      fix s3
      assume s3: "server_inv s3" "heap_le ?s2 s3"
      then obtain p3 where p3: "sv_pxs s3 px = Some p3" "conn_fd p3 = fd"
        using px p(3) unfolding heap_le_def by metis
      have "server_inv (put_px px (AddConn ?p) s3) \<and> heap_le s3 (put_px px (AddConn ?p) s3)"
        by (rule put_px_inv [OF s3(1) p3(1)]) (use p p3 in simp_all)
      then show "server_keeps s3 (newProxyConnHandler j pc0 peer0 fds (put_px px (AddConn ?p) s3))"
        using srv.keeps_after Cons.IH by blast
    qed
    from srv.keeps_after [OF 2 this] show ?thesis by (simp add: al Let_def)
  qed
  then have "server_keeps s (bind_outcome (PickRandThread (sv_pool s)) (\<lambda>(threadPicked, pool').
           let (px, s1) = alloc (s\<lparr>sv_pool := pool'\<rparr>);
               p = ProxyConn_new j pc0 pc0 peer0 fd threadPicked
           in bind_outcome (on_unclaimed fd (\<lambda>m. add m fd px) (put_px px p s1)) (\<lambda>s2.
                newProxyConnHandler j pc0 peer0 fds (put_px px (AddConn p) s2))))"
    by (intro srv.keeps_value [OF PickRandThread_safe]) auto
  then show ?case using srv.keeps_same [OF Cons.prems] by simp
qed

lemma postHandler_keeps: "server_inv s \<Longrightarrow> server_keeps s (Ok (postHandler s))"
  by (simp add: keeps_def postHandler_def Let_def server_inv_def heap_le_def ctl_ok_def tun_ok_def shard_ok_def)

lemma Server_claimProxyConn_keeps:
  assumes "server_inv s" "sv_pxs s px \<noteq> None"
  shows "server_keeps s (Server_claimProxyConn pc0 peer0 msg px s)"
proof -
  have "server_keeps s1 (case map_of (sv_control_map s1) ctl_id of
       None \<Rightarrow> Ok s1
     | Some ctl \<Rightarrow>
         bind_outcome (deref sv_ctls ctl s1) (\<lambda>k.
         case map_of (k_tunnel_map k) tun_id of
           None \<Rightarrow> Ok s1
         | Some tun \<Rightarrow>
             bind_outcome (Tunnel_claimProxyConn pc0 peer0 tun px s1) (\<lambda>s2.
             bind_outcome (deref sv_pxs px s2) (\<lambda>p.
               on_unclaimed (conn_fd p) (\<lambda>m. erase m (conn_fd p)) s2))))"
    if s1: "server_inv s1" "sv_pxs s1 px \<noteq> None" for ctl_id tun_id s1
  proof (cases "map_of (sv_control_map s1) ctl_id")
    case None
    then show ?thesis using srv.keeps_same [OF s1(1)] by simp
  next
    case (Some ctl)
    then obtain k where k: "sv_ctls s1 ctl = Some k" using invD(7) [OF s1(1)] by blast
    show ?thesis
    proof (cases "map_of (k_tunnel_map k) tun_id")
      case None
      with Some k show ?thesis using srv.keeps_same [OF s1(1)] by (simp add: deref_def)
    next
      case tun: (Some tun)
      then have "sv_tuns s1 tun \<noteq> None" using invD(1) [OF s1(1) k] by (auto simp: ctl_ok_def)
      note claim = Tunnel_claimProxyConn_keeps [OF s1(1) this s1(2), of pc0 peer0]
      have "server_keeps s1 (bind_outcome (Tunnel_claimProxyConn pc0 peer0 tun px s1) (\<lambda>s2.
             bind_outcome (deref sv_pxs px s2) (\<lambda>p. on_unclaimed (conn_fd p) (\<lambda>m. erase m (conn_fd p)) s2)))"
      proof (rule srv.keeps_bind [OF claim])
        fix s2
        assume s2: "server_inv s2" "heap_le s1 s2"
        have "server_keeps s2 (on_unclaimed fd (\<lambda>m. erase m fd) s2)" for fd
          by (rule on_unclaimed_keeps [OF s2(1)]) (auto simp: shard_ok_def map_lookup map_wf_erase split: if_splits)
        with heap_leD(3) [OF s2(2) s1(2)]
        show "server_keeps s2 (bind_outcome (deref sv_pxs px s2) (\<lambda>p. on_unclaimed (conn_fd p) (\<lambda>m. erase m (conn_fd p)) s2))"
          by (auto simp: deref_def)
      qed
      with Some k tun show ?thesis by (simp add: deref_def)
    qed
  qed
  note rest = this
  have set_id: "server_keeps s (on_px px (setProxyID pid) s)" for pid
    by (rule on_px_keeps [OF assms]) (simp_all add: setProxyID_def px_ok_def)
  show ?thesis
    unfolding Server_claimProxyConn_def
    by (intro srv.keeps_value [OF body_msg_safe(7)] srv.keeps_bind [OF set_id] rest)
      (use heap_leD(3) [OF _ assms(2)] in blast)+
qed

section \<open>Events\<close>

lemma server_proxy_read_keeps:
  assumes "server_inv s" "sv_pxs s px \<noteq> None"
  shows "server_keeps s (server_proxy_read j pc0 peer0 w px s)"
proof -
  obtain p where p: "sv_pxs s px = Some p" using assms(2) by auto
  have "server_keeps s (bind_outcome (ProxyConn_handleRead j w p) (\<lambda>(call, out, p').
     let s1 = deliver (peer_conn_fd p) out (put_px px p' s)
     in case call of
          NoCall \<Rightarrow> Ok s1
        | CloseLocalPeer \<Rightarrow>
            (case sv_px_tun s1 px of None \<Rightarrow> Ok s1 | Some tun \<Rightarrow> shutdownPublicConn tun px s1)
        | ProxyMsg ty body \<Rightarrow>
            (case ty of
               ProxyMetaSet \<Rightarrow> Server_claimProxyConn pc0 peer0 body px s1
             | StartProxyConnReq \<Rightarrow> Ok s1
             | StartProxyConnRsp \<Rightarrow>
                 (case sv_px_tun s1 px of None \<Rightarrow> Ok s1
                  | Some tun \<Rightarrow> handleStartProxyConnRsp pc0 peer0 tun body px s1))))"
  proof (rule srv.keeps_value [OF ProxyConn_handleRead_safe], clarify)
    fix call out and p' :: proxy_conn
    assume p': "pc_out_buffer p' = pc_out_buffer p" "conn_fd p' = conn_fd p"
    let ?s1 = "deliver (peer_conn_fd p) out (put_px px p' s)"
    have "server_inv (put_px px p' s) \<and> heap_le s (put_px px p' s)"
      by (rule put_px_inv [OF assms(1) p p'(2)]) (use p' invD(3) [OF assms(1) p] in \<open>simp add: px_ok_def\<close>)
    then have 1: "server_inv ?s1" "heap_le s ?s1" using deliver_inv heap_le_trans by blast+
    have px: "sv_pxs ?s1 px \<noteq> None" by (rule heap_leD(3) [OF 1(2) assms(2)])
    note keeps1 = srv.keeps_same [OF 1(1)] shutdownPublicConn_keeps [OF 1(1) _ px]
      Server_claimProxyConn_keeps [OF 1(1) px] handleStartProxyConnRsp_keeps [OF 1(1) _ px]
    show "server_keeps s (let s1 = ?s1
     in case call of
          NoCall \<Rightarrow> Ok s1
        | CloseLocalPeer \<Rightarrow>
            (case sv_px_tun s1 px of None \<Rightarrow> Ok s1 | Some tun \<Rightarrow> shutdownPublicConn tun px s1)
        | ProxyMsg ty body \<Rightarrow>
            (case ty of
               ProxyMetaSet \<Rightarrow> Server_claimProxyConn pc0 peer0 body px s1
             | StartProxyConnReq \<Rightarrow> Ok s1
             | StartProxyConnRsp \<Rightarrow>
                 (case sv_px_tun s1 px of None \<Rightarrow> Ok s1
                  | Some tun \<Rightarrow> handleStartProxyConnRsp pc0 peer0 tun body px s1)))"
      unfolding Let_def
      by (rule srv.keeps_after [OF 1])
        (use keeps1 invD(4) [OF 1(1), of px] in \<open>auto split: proxy_call.split ProxyCtlMsgType.split option.split\<close>)
  qed
  then show ?thesis by (simp add: server_proxy_read_def deref_def p)
qed

lemma server_proxy_write_keeps:
  assumes "server_inv s" "sv_pxs s px \<noteq> None"
  shows "server_keeps s (server_proxy_write px s)"
proof -
  obtain p where p: "sv_pxs s px = Some p" using assms(2) by auto
  have ok: "obuf_ok (pc_out_buffer p)" using invD(3) [OF assms(1) p] by (simp add: px_ok_def)
  have "server_keeps s (bind_outcome (ProxyConn_handleWrite p) (\<lambda>p'. Ok (put_px px p' s)))"
    by (rule srv.keeps_value [OF ProxyConn_handleWrite_safe [OF ok]])
      (use put_px_inv [OF assms(1) p] in \<open>simp add: keeps_def px_ok_def\<close>)
  then show ?thesis by (simp add: server_proxy_write_def deref_def p)
qed

lemma server_proxy_post_keeps:
  assumes "server_inv s" "sv_pxs s px \<noteq> None"
    and "\<And>tun t. sv_px_tun s px = Some tun \<Longrightarrow> sv_tuns s tun = Some t \<Longrightarrow> Some px \<notin> set (st_free t)"
  shows "server_keeps s (server_proxy_post px s)"
proof -
  obtain p where p: "sv_pxs s px = Some p" using assms(2) by auto
  obtain b p' where post: "ProxyConn_postHandle p = (b, p')" by (cases "ProxyConn_postHandle p")
  let ?s1 = "put_px px p' s"
  have 1: "server_inv ?s1" "heap_le s ?s1"
    using put_px_inv [OF assms(1) p, of p'] ProxyConn_postHandle_frame [OF post] invD(3) [OF assms(1) p]
    by (auto simp: px_ok_def)
  have "server_keeps ?s1 (case sv_px_tun ?s1 px of None \<Rightarrow> Ok ?s1 | Some tun \<Rightarrow> handlePeerProxyConnClose tun px ?s1)"
  proof (cases "sv_px_tun s px")
    case None
    then show ?thesis using srv.keeps_same [OF 1(1)] by (simp add: put_px_def)
  next
    case (Some tun)
    then obtain t where t: "sv_tuns s tun = Some t" using invD(4) [OF assms(1)] by blast
    have "server_keeps ?s1 (handlePeerProxyConnClose tun px ?s1)"
      by (rule handlePeerProxyConnClose_keeps [OF 1(1), of tun t])
        (use t assms(3) [OF Some t] in \<open>simp_all add: put_px_def\<close>)
    with Some show ?thesis by (simp add: put_px_def)
  qed
  from srv.keeps_after [OF 1 this] srv.keeps_after [OF 1 srv.keeps_same [OF 1(1)]] show ?thesis
    by (simp add: server_proxy_post_def deref_def p post Let_def)
qed


lemma put_conn_inv:
  assumes "server_inv s" "sv_ctls s ctl = Some k" "obuf_ok (cc_out_buffer c)" "cc_ctl_id c = cc_ctl_id (k_conn k)"
  shows "server_inv (put_ctl ctl (k\<lparr>k_conn := c\<rparr>) s) \<and> heap_le s (put_ctl ctl (k\<lparr>k_conn := c\<rparr>) s)"
  by (rule put_ctl_inv [OF assms(1,2)]) (use invD(1) [OF assms(1,2)] assms(3,4) in \<open>simp_all add: ctl_ok_def\<close>)

lemma server_ctl_read_keeps:
  assumes "server_inv s" "sv_ctls s ctl \<noteq> None"
  shows "server_keeps s (server_ctl_read j rnd env sockname pc0 ctl s)"
proof -
  obtain k where k: "sv_ctls s ctl = Some k" using assms(2) by auto
  have ok: "obuf_ok (cc_out_buffer (k_conn k))" using invD(1) [OF assms(1) k] by (simp add: ctl_ok_def)
  have "server_keeps s (bind_outcome (CtlConn_handleRead j (k_conn k)) (\<lambda>(ev, c).
     let s1 = put_ctl ctl (k\<lparr>k_conn := c\<rparr>) s
     in case ev of
          None \<Rightarrow> Ok s1
        | Some (ty, body) \<Rightarrow>
            (case ty of
               NewCtlReq \<Rightarrow> handleNewCtlReq j ctl s1
             | NewTunnelReq \<Rightarrow> handleNewTunnelReq j rnd env sockname pc0 ctl body s1
             | NotifyProxyShutdownPeerConn \<Rightarrow> handleShutdownPublicConn ctl body s1
             | FreeProxyConnReq \<Rightarrow> handleFreeProxyConnReq ctl body s1
             | _ \<Rightarrow> Ok s1)))"
  proof (rule srv.keeps_value [OF CtlConn_handleRead_safe], clarify)
    fix ev and c :: ctl_conn
    assume c: "cc_out_buffer c = cc_out_buffer (k_conn k)" "cc_ctl_id c = cc_ctl_id (k_conn k)"
    let ?s1 = "put_ctl ctl (k\<lparr>k_conn := c\<rparr>) s"
    have 1: "server_inv ?s1" "heap_le s ?s1"
      using put_conn_inv [OF assms(1) k, of c] c ok by simp_all
    have al: "sv_ctls ?s1 ctl \<noteq> None" by (simp add: put_ctl_def)
    note keeps1 = srv.keeps_same [OF 1(1)] handleNewCtlReq_keeps [OF 1(1) al] handleNewTunnelReq_keeps [OF 1(1) al]
      handleShutdownPublicConn_keeps [OF 1(1) al] handleFreeProxyConnReq_keeps [OF 1(1) al]
    show "server_keeps s (let s1 = ?s1
     in case ev of
          None \<Rightarrow> Ok s1
        | Some (ty, body) \<Rightarrow>
            (case ty of
               NewCtlReq \<Rightarrow> handleNewCtlReq j ctl s1
             | NewTunnelReq \<Rightarrow> handleNewTunnelReq j rnd env sockname pc0 ctl body s1
             | NotifyProxyShutdownPeerConn \<Rightarrow> handleShutdownPublicConn ctl body s1
             | FreeProxyConnReq \<Rightarrow> handleFreeProxyConnReq ctl body s1
             | _ \<Rightarrow> Ok s1))"
      unfolding Let_def
      by (rule srv.keeps_after [OF 1]) (use keeps1 in \<open>auto split: option.split CtlMsgType.split\<close>)
  qed
  then show ?thesis by (simp add: server_ctl_read_def deref_def k)
qed

lemma server_ctl_write_keeps:
  assumes "server_inv s" "sv_ctls s ctl \<noteq> None"
  shows "server_keeps s (server_ctl_write ctl s)"
proof -
  obtain k where k: "sv_ctls s ctl = Some k" using assms(2) by auto
  have ok: "obuf_ok (cc_out_buffer (k_conn k))" using invD(1) [OF assms(1) k] by (simp add: ctl_ok_def)
  have "server_keeps s (bind_outcome (CtlConn_handleWrite (k_conn k)) (\<lambda>c. Ok (put_ctl ctl (k\<lparr>k_conn := c\<rparr>) s)))"
    by (rule srv.keeps_value [OF CtlConn_handleWrite_safe [OF ok]])
      (use put_conn_inv [OF assms(1) k] in \<open>simp add: keeps_def\<close>)
  then show ?thesis by (simp add: server_ctl_write_def deref_def k)
qed

lemma server_ctl_post_keeps:
  assumes "server_inv s" "sv_ctls s ctl \<noteq> None"
  shows "server_keeps s (server_ctl_post ctl s)"
proof -
  obtain k where k: "sv_ctls s ctl = Some k" using assms(2) by auto
  obtain b c where post: "CtlConn_postHandle (k_conn k) = (b, c)" by (cases "CtlConn_postHandle (k_conn k)")
  let ?s1 = "put_ctl ctl (k\<lparr>k_conn := c\<rparr>) s"
  have 1: "server_inv ?s1" "heap_le s ?s1"
    using put_conn_inv [OF assms(1) k, of c] CtlConn_postHandle_frame [OF post] invD(1) [OF assms(1) k]
    by (auto simp: ctl_ok_def)
  have "sv_ctls ?s1 ctl \<noteq> None" by (simp add: put_ctl_def)
  from srv.keeps_after [OF 1 handleCtlConnClose_keeps [OF 1(1) this]] srv.keeps_after [OF 1 srv.keeps_same [OF 1(1)]]
  show ?thesis by (simp add: server_ctl_post_def deref_def k post Let_def)
qed

section \<open>Runs of the server\<close>

text \<open>
  The events a loop dispatches, with what the environment contributes. Threads interleave at the
  granularity of handlers here.
\<close>

datatype server_event =
    CtlAccept "int list" "(nat \<Rightarrow> nat) list"
  | ProxyAccept "int list"
  | AcceptPost
  | PublicAccept oid "int list"
  | CtlRead oid "nat \<Rightarrow> nat" listen_env "cstring \<times> int"
  | CtlWrite oid
  | CtlPost oid
  | ProxyRead oid wr_resp
  | ProxyWrite oid
  | ProxyPost oid
  | PublicRead oid wr_resp
  | PublicPost oid
  | ProxyNet oid "rx_event list" "wr_resp list"    \<comment> \<open>the network: more input and write answers\<close>
  | CtlNet oid "rx_event list" "wr_resp list"
  | PublicNet oid "rx_event list"

fun server_step :: "junk \<Rightarrow> bool \<Rightarrow> int \<Rightarrow> server_event \<Rightarrow> server \<Rightarrow> server outcome" where
  "server_step j b n (CtlAccept fds rnds) s = newCtlConnHandler j b fds rnds s"
| "server_step j b n (ProxyAccept fds) s = newProxyConnHandler j b n fds s"
| "server_step j b n AcceptPost s = Ok (postHandler s)"
| "server_step j b n (PublicAccept tun fds) s = newPublicConnHandler j tun fds s"
| "server_step j b n (CtlRead ctl rnd env sockname) s = server_ctl_read j rnd env sockname b ctl s"
| "server_step j b n (CtlWrite ctl) s = server_ctl_write ctl s"
| "server_step j b n (CtlPost ctl) s = server_ctl_post ctl s"
| "server_step j b n (ProxyRead px w) s = server_proxy_read j b n w px s"
| "server_step j b n (ProxyWrite px) s = server_proxy_write px s"
| "server_step j b n (ProxyPost px) s = server_proxy_post px s"
| "server_step j b n (PublicRead pub w) s = PublicConn_handleRead j w pub s"
| "server_step j b n (PublicPost pub) s = PublicConn_postHandle pub s"
| "server_step j b n (ProxyNet px rx wr) s = on_px px (\<lambda>p. p\<lparr>sock_rx := sock_rx p @ rx, sock_wr := sock_wr p @ wr\<rparr>) s"
| "server_step j b n (CtlNet ctl rx wr) s =
     bind_outcome (deref sv_ctls ctl s) (\<lambda>k.
       Ok (put_ctl ctl (k\<lparr>k_conn := (k_conn k)\<lparr>sock_rx := sock_rx (k_conn k) @ rx, sock_wr := sock_wr (k_conn k) @ wr\<rparr>\<rparr>) s))"
| "server_step j b n (PublicNet pub rx) s =
     bind_outcome (deref sv_pubs pub s) (\<lambda>c. Ok (put_pub pub (c\<lparr>sock_rx := sock_rx c @ rx\<rparr>) s))"

text \<open>An event is enabled when its object exists; the close of a proxy connection that lies in a free list is set apart.\<close>

fun enabled :: "server \<Rightarrow> server_event \<Rightarrow> bool" where
  "enabled s (PublicAccept tun fds) \<longleftrightarrow> sv_tuns s tun \<noteq> None"
| "enabled s (CtlRead ctl rnd env sockname) \<longleftrightarrow> sv_ctls s ctl \<noteq> None"
| "enabled s (CtlWrite ctl) \<longleftrightarrow> sv_ctls s ctl \<noteq> None"
| "enabled s (CtlPost ctl) \<longleftrightarrow> sv_ctls s ctl \<noteq> None"
| "enabled s (ProxyRead px w) \<longleftrightarrow> sv_pxs s px \<noteq> None"
| "enabled s (ProxyWrite px) \<longleftrightarrow> sv_pxs s px \<noteq> None"
| "enabled s (ProxyPost px) \<longleftrightarrow> sv_pxs s px \<noteq> None \<and>
     (case sv_px_tun s px of None \<Rightarrow> True
      | Some tun \<Rightarrow> (case sv_tuns s tun of None \<Rightarrow> True | Some t \<Rightarrow> Some px \<notin> set (st_free t)))"
| "enabled s (PublicRead pub w) \<longleftrightarrow> sv_pubs s pub \<noteq> None"
| "enabled s (PublicPost pub) \<longleftrightarrow> sv_pubs s pub \<noteq> None"
| "enabled s (ProxyNet px rx wr) \<longleftrightarrow> sv_pxs s px \<noteq> None"
| "enabled s (CtlNet ctl rx wr) \<longleftrightarrow> sv_ctls s ctl \<noteq> None"
| "enabled s (PublicNet pub rx) \<longleftrightarrow> sv_pubs s pub \<noteq> None"
| "enabled s _ \<longleftrightarrow> True"

lemma server_step_keeps:
  assumes "server_inv s" "enabled s e"
  shows "server_keeps s (server_step j b n e s)"
proof (cases e)
  case (ProxyPost px)
  with assms(2) show ?thesis
    by (auto intro!: server_proxy_post_keeps [OF assms(1)] split: option.splits)
next
  case (ProxyNet px rx wr)
  then have "server_keeps s (on_px px (\<lambda>p. p\<lparr>sock_rx := sock_rx p @ rx, sock_wr := sock_wr p @ wr\<rparr>) s)"
    using assms by (intro on_px_keeps) (simp_all add: px_ok_def)
  with ProxyNet show ?thesis by simp
next
  case (CtlNet ctl rx wr)
  then obtain k where k: "sv_ctls s ctl = Some k" using assms(2) by auto
  have "obuf_ok (cc_out_buffer (k_conn k))" using invD(1) [OF assms(1) k] by (simp add: ctl_ok_def)
  with CtlNet k put_conn_inv [OF assms(1) k] show ?thesis by (simp add: deref_def keeps_def)
next
  case (PublicNet pub rx)
  then obtain c where c: "sv_pubs s pub = Some c" using assms(2) by auto
  with PublicNet put_pub_inv [OF assms(1) c] show ?thesis by (simp add: deref_def keeps_def)
qed (use assms in \<open>simp_all add: newCtlConnHandler_keeps newProxyConnHandler_keeps newPublicConnHandler_keeps
    postHandler_keeps server_ctl_read_keeps server_ctl_write_keeps server_ctl_post_keeps server_proxy_read_keeps
    server_proxy_write_keeps PublicConn_keeps\<close>)

inductive server_reach :: "server \<Rightarrow> server \<Rightarrow> bool" for s0 where
  srv_init: "server_reach s0 s0"
| srv_step: "server_reach s0 s \<Longrightarrow> enabled s e \<Longrightarrow> server_step j b n e s = Ok s' \<Longrightarrow> server_reach s0 s'"

lemma server_reach_inv: "server_reach s0 s \<Longrightarrow> server_inv s0 \<Longrightarrow> server_inv s"
proof (induction rule: server_reach.induct)
  case (srv_step s e j b n s')
  then show ?case using server_step_keeps [of s e j b n] by (simp add: keeps_def)
qed simp

lemma Server_new_inv: "Server_new env1 env2 fl1 fl2 pc0 n cp pp = Ok s \<Longrightarrow> server_inv (Server_start s)"
  by (auto simp: Server_new_def Server_start_def server_inv_def shard_ok_def map_wf_def UnclaimedProxyMapLen_def
      Let_def nth_Cons' numeral_eq_Suc split: if_splits)


lemma remove_loop_shift:
  "Some x \<notin> set vs \<Longrightarrow>
   remove_loop x (length us) (Suc (length us)) (us @ y # vs) = us @ vs @ (if vs = [] then [y] else [None])"
proof (induction vs arbitrary: us y)
  case Nil
  then show ?case by (simp add: remove_loop.simps)
next
  case (Cons v vs)
  have v: "v \<noteq> Some x" using Cons.prems by auto
  have "(us @ y # v # vs)[length us := v, Suc (length us) := None] = (us @ [v]) @ None # vs"
    by (simp add: list_update_append)
  moreover have "(us @ y # v # vs) ! Suc (length us) = v" by (simp add: nth_append)
  ultimately show ?case
    using v Cons.IH [of "us @ [v]" None] Cons.prems
    by (subst remove_loop.simps) (simp del: append_assoc)
qed

lemma std_remove_present:
  assumes "Some x \<notin> set us" "Some x \<notin> set vs"
  shows "std_remove x (us @ Some x # vs) = us @ vs @ (if vs = [] then [Some x] else [None])"
proof -
  have "takeWhile (\<lambda>y. y \<noteq> Some x) (us @ Some x # vs) = us"
    using assms(1) by (induction us) auto
  then show ?thesis using remove_loop_shift [OF assms(2), of us "Some x"] by (simp add: std_remove_def Let_def)
qed

section \<open>Properties\<close>


definition demo_env :: listen_env where
  "demo_env = \<lparr>socket_ret = 3, setsockopt_ret = 0, bind_ret = 0, listen_ret = 0\<rparr>"


text \<open>C39. The exception is real: \<^verbatim>\<open>handlePeerProxyConnClose\<close> calls \<^verbatim>\<open>std::remove\<close> without erasing the tail, so
  when the peer of an idle proxy connection closes it and another one lies behind it in the free
  list, the list ends with an empty pointer and the next public connection dereferences it.\<close>
theorem closed_free_proxy_poisons_list:
  assumes "sv_tuns s tun = Some t" "sv_pxs s px \<noteq> None" "st_free t = us @ Some px # vs"
    and "Some px \<notin> set us" "Some px \<notin> set vs" "vs \<noteq> []" "0 < fd"
  shows "\<exists>s'. handlePeerProxyConnClose tun px s = Ok s' \<and> newPublicConnHandler j tun (fd # fds) s' = Ub NullDeref"
proof -
  obtain p where p: "sv_pxs s px = Some p" using assms(2) by auto
  let ?t = "t\<lparr>st_proxy_conn_map := erase (st_proxy_conn_map t) (getProxyID p), st_free := us @ vs @ [None]\<rparr>"
  have "handlePeerProxyConnClose tun px s = Ok (put_tun tun ?t s)"
    using std_remove_present [OF assms(4,5)] assms(1,3,6) p
    by (simp add: handlePeerProxyConnClose_def on_tun_def deref_def)
  moreover have "newPublicConnHandler j tun (fd # fds) (put_tun tun ?t s) = Ub NullDeref"
    using assms(7) by (simp add: deref_def put_tun_def popFreeProxyConn_def)
  ultimately show ?thesis by blast
qed

text \<open>A small server state: control \<open>C\<close> with tunnel \<open>T\<close>, two idle proxy connections, one public descriptor waiting.\<close>

definition demo_tunnel :: server_tunnel where
  "demo_tunnel = (Tunnel_new demo_env ([49, 50], 9000) False [84] 0)\<lparr>st_free := [Some 2, Some 3], st_undeal := [20]\<rparr>"

definition demo_server :: server where
  "demo_server =
     \<lparr>sv_control_map = [([67], 0)], sv_pool = pool_start (EventLoopThreadPool_new 1), sv_ctlPort = 8080,
      sv_proxyPort = 8089, sv_ctl_acceptor = Channel_new 0 0 False 3, sv_proxy_acceptor = Channel_new 0 0 False 4,
      sv_ctl_armed = 0, sv_proxy_armed = 0, sv_unclaimed = [[(8, 2)], [], [], []],
      sv_ctls = [0 \<mapsto> (Control_new (\<lambda>_. 0) False 5 [67])\<lparr>k_tunnel_map := [([84], 1)]\<rparr>],
      sv_tuns = [1 \<mapsto> demo_tunnel], sv_pxs = [2 \<mapsto> demo_proxy, 3 \<mapsto> demo_proxy], sv_pubs = Map.empty,
      sv_px_tun = Map.empty, sv_next = 4, sv_shut_wr = []\<rparr>"

theorem closed_free_proxy_poisons_list_witness:
  "\<exists>s'. handlePeerProxyConnClose 1 2 demo_server = Ok s' \<and>
     newPublicConnHandler (\<lambda>_. 0) 1 [30, -1] s' = Ub NullDeref"
  by (rule closed_free_proxy_poisons_list [where t = demo_tunnel and us = "[]" and vs = "[Some 3]"])
    (simp_all add: demo_server_def demo_tunnel_def)

text \<open>A claim nobody asked for: \<^verbatim>\<open>Tunnel::claimProxyConn\<close> takes the last waiting public descriptor
  without checking that there is one, so a \<^verbatim>\<open>ProxyMetaSet\<close> naming an existing tunnel with no waiting
  descriptor calls \<^verbatim>\<open>back()\<close> on an empty vector.\<close>
theorem unsolicited_claim_undefined:
  assumes "map_of (sv_control_map s) cid = Some ctl" "sv_ctls s ctl = Some k" "map_of (k_tunnel_map k) tid = Some tun"
    and "sv_tuns s tun = Some t" "st_undeal t = []" "sv_pxs s px \<noteq> None"
    and "cstr_at msg 0 = Ok cid" "cstr_at msg 10 = Ok tid" "cstr_at msg 20 = Ok pid"
  shows "Server_claimProxyConn b n msg px s = Ub EmptyBack"
  using assms by (auto simp: Server_claimProxyConn_def on_px_def deref_def put_defs Tunnel_claimProxyConn_def
      getAndPopUndealPublicFd_def)

theorem unsolicited_claim_undefined_witness:
  "Server_claimProxyConn False 0 ([67] @ replicate 9 0 @ [84] @ replicate 9 0 @ [80] @ replicate 9 0) 2
     (demo_server\<lparr>sv_tuns := [1 \<mapsto> demo_tunnel\<lparr>st_undeal := []\<rparr>]\<rparr>) = Ub EmptyBack"
  by (rule unsolicited_claim_undefined [where cid = "[67]" and ctl = 0 and tid = "[84]" and tun = 1 and pid = "[80]"
        and k = "(Control_new (\<lambda>_. 0) False 5 [67])\<lparr>k_tunnel_map := [([84], 1)]\<rparr>"
        and t = "demo_tunnel\<lparr>st_undeal := []\<rparr>"])
    (simp_all add: demo_server_def cstr_at_def)

lemma claim_binds:
  assumes "map_of (sv_control_map s) cid = Some ctl" "sv_ctls s ctl = Some k" "map_of (k_tunnel_map k) tid = Some tun"
    and "sv_tuns s tun = Some t" "st_undeal t = us @ [fd]" "sv_pxs s px = Some p" "0 < conn_fd p"
    and "cstr_at msg 0 = Ok cid" "cstr_at msg 10 = Ok tid" "cstr_at msg 20 = Ok pid" "length (sv_unclaimed s) = 4"
  shows "\<exists>s' p' c' t'. Server_claimProxyConn b n msg px s = Ok s' \<and>
     sv_pxs s' px = Some p' \<and> is_start p' \<and> proxy_id p' = pid \<and> peer_conn_fd p' = fd \<and> peerConn p' = Some (sv_next s) \<and>
     sv_pubs s' (sv_next s) = Some c' \<and> conn_fd c' = fd \<and> peer_conn_fd c' = conn_fd p \<and> ec_proxy_id c' = pid \<and>
     armed c' = Some (EPOLLET OR EPOLLIN OR EPOLLRDHUP) \<and>
     sv_tuns s' tun = Some t' \<and> st_undeal t' = us \<and>
     st_proxy_conn_map t' = add (st_proxy_conn_map t) pid px \<and>
     sv_unclaimed s' = (sv_unclaimed s)[nat (conn_fd p mod 4) := erase (sv_unclaimed s ! nat (conn_fd p mod 4)) (conn_fd p)] \<and>
     sv_px_tun s' px = Some tun"
  using assms shard_index [OF assms(7)]
  by (simp add: Server_claimProxyConn_def on_px_def deref_def put_defs Tunnel_claimProxyConn_def
      getAndPopUndealPublicFd_def bindPublicFdToProxyConn_def ProxyConn_start_def AddConn_def counter_defs
      edge_conn_new_def TranConn_new_def tran_conn.defs edge_conn.defs upd_chan_def on_tun_def setProxyID_def getProxyID_def
      Channel_new_def SetEvents_def SetNeedCloseWhenDelete_def on_unclaimed_def)

end
