(* ===== verification/CProxy_Client.thy ===== *)
theory CProxy_Client
  imports CProxy_ProxyConn CProxy_Map CProxy_Threads
begin

text \<open>
  The client program: \<^verbatim>\<open>client/Client\<close>, \<^verbatim>\<open>client/Tunnel\<close> and \<^verbatim>\<open>client/local_conn\<close>, in the same style as
  the server: heaps of objects, handlers as functions on the whole state, answers of the kernel
  and of the random generator as arguments.
\<close>

section \<open>State\<close>

record client_tunnel =
  ct_tun_id :: cstring
  ct_local_server_host :: cstring
  ct_local_server_port :: u32
  ct_proxy_server_host :: cstring
  ct_proxy_server_port :: u32
  ct_proxy_conn_map :: "(cstring, oid) safe_unordered_map"

record client =
  cl_pool :: thread_pool
  cl_proxy_server_host :: cstring
  cl_proxy_server_port :: u32
  cl_local_server_host :: cstring
  cl_local_server_port :: u32
  cl_client_id :: cstring
  cl_tunnel_map :: "(cstring, oid) safe_unordered_map"
  cl_ctl :: "ctl_conn option"
  cl_tuns :: "oid \<Rightarrow> client_tunnel option"
  cl_pxs :: "oid \<Rightarrow> proxy_conn option"
  cl_locs :: "oid \<Rightarrow> edge_conn option"
  cl_px_tun :: "oid \<Rightarrow> oid option"
  cl_next :: oid
  cl_shut_wr :: "int list"

definition cput_tun :: "oid \<Rightarrow> client_tunnel \<Rightarrow> client \<Rightarrow> client" where
  "cput_tun oid x s = s\<lparr>cl_tuns := (cl_tuns s)(oid := Some x)\<rparr>"

definition cput_px :: "oid \<Rightarrow> proxy_conn \<Rightarrow> client \<Rightarrow> client" where
  "cput_px oid x s = s\<lparr>cl_pxs := (cl_pxs s)(oid := Some x)\<rparr>"

definition cput_loc :: "oid \<Rightarrow> edge_conn \<Rightarrow> client \<Rightarrow> client" where
  "cput_loc oid x s = s\<lparr>cl_locs := (cl_locs s)(oid := Some x)\<rparr>"

definition calloc :: "client \<Rightarrow> oid \<times> client" where
  "calloc s = (cl_next s, s\<lparr>cl_next := Suc (cl_next s)\<rparr>)"

lemmas cput_defs = cput_tun_def cput_px_def cput_loc_def calloc_def

definition cdeliver :: "int \<Rightarrow> byte list \<Rightarrow> client \<Rightarrow> client" where
  "cdeliver fd bs s =
     s\<lparr>cl_pxs := (\<lambda>oid. map_option (receive_on fd bs) (cl_pxs s oid)),
       cl_locs := (\<lambda>oid. map_option (receive_on fd bs) (cl_locs s oid))\<rparr>"

section \<open>Requests on the control connection\<close>

definition csend_ctl :: "junk \<Rightarrow> CtlMsgType \<Rightarrow> byte list \<Rightarrow> client \<Rightarrow> client outcome" where
  "csend_ctl j ty body s =
     (case cl_ctl s of
        None \<Rightarrow> Ub NullDeref
      | Some c \<Rightarrow>
          bind_outcome (MakeCtlMsg ty body) (\<lambda>m.
          bind_outcome (CtlConn_SendMsg j m c) (\<lambda>c'. Ok (s\<lparr>cl_ctl := Some c'\<rparr>))))"

text \<open>The empty struct \<^verbatim>\<open>NewCtlReqMsg\<close> is value-initialised: one zero byte.\<close>

definition reqNewCtl :: "junk \<Rightarrow> client \<Rightarrow> client outcome" where
  "reqNewCtl j s = csend_ctl j NewCtlReq (replicate sizeof_NewCtlReqMsg 0) s"

definition reqNewTunnel :: "junk \<Rightarrow> client \<Rightarrow> client outcome" where
  "reqNewTunnel j s =
     bind_outcome (NewTunnelReqMsg j (cl_local_server_host s) (cl_local_server_port s))
       (\<lambda>body. csend_ctl j NewTunnelReq body s)"

definition Client_shutdownFromLocal :: "junk \<Rightarrow> cstring \<Rightarrow> cstring \<Rightarrow> u32 \<Rightarrow> client \<Rightarrow> client outcome" where
  "Client_shutdownFromLocal j tun_id pid count s =
     bind_outcome (NotifyProxyShutdownPeerConnMsg j tun_id pid count)
       (\<lambda>body. csend_ctl j NotifyProxyShutdownPeerConn body s)"

section \<open>Construction\<close>

definition Client_new :: "int \<Rightarrow> cstring \<Rightarrow> u32 \<Rightarrow> cstring \<Rightarrow> u32 \<Rightarrow> client" where
  "Client_new workThreadNum proxy_host proxy_port local_host local_port =
     \<lparr>cl_pool = EventLoopThreadPool_new workThreadNum,
      cl_proxy_server_host = proxy_host, cl_proxy_server_port = proxy_port,
      cl_local_server_host = local_host, cl_local_server_port = local_port,
      cl_client_id = [], cl_tunnel_map = [], cl_ctl = None,
      cl_tuns = (\<lambda>_. None), cl_pxs = (\<lambda>_. None), cl_locs = (\<lambda>_. None), cl_px_tun = (\<lambda>_. None),
      cl_next = 0, cl_shut_wr = []\<rparr>"

definition initCtlConn :: "junk \<Rightarrow> bool \<Rightarrow> connect_env \<Rightarrow> client \<Rightarrow> client outcome" where
  "initCtlConn j pc0 env s =
     (let conn_fd = fst (tcp_connect env (cl_proxy_server_port s))
      in if conn_fd > 0 then Ok (s\<lparr>cl_ctl := Some (AddConn (CtlConn_new j pc0 pc0 conn_fd))\<rparr>) else Abort)"

text \<open>\<^verbatim>\<open>start\<close> up to the main loop.\<close>

definition Client_start :: "junk \<Rightarrow> bool \<Rightarrow> connect_env \<Rightarrow> client \<Rightarrow> client outcome" where
  "Client_start j pc0 env s =
     bind_outcome (initCtlConn j pc0 env (s\<lparr>cl_pool := pool_start (cl_pool s)\<rparr>)) (reqNewCtl j)"

section \<open>Tunnel\<close>

definition ClientTunnel_new :: "cstring \<Rightarrow> cstring \<Rightarrow> u32 \<Rightarrow> cstring \<Rightarrow> u32 \<Rightarrow> client_tunnel" where
  "ClientTunnel_new tun_id local_host local_port proxy_host proxy_port =
     \<lparr>ct_tun_id = tun_id, ct_local_server_host = local_host, ct_local_server_port = local_port,
      ct_proxy_server_host = proxy_host, ct_proxy_server_port = proxy_port, ct_proxy_conn_map = []\<rparr>"

definition getValidProxyID :: "(nat \<Rightarrow> nat) list \<Rightarrow> client_tunnel \<Rightarrow> cstring outcome" where
  "getValidProxyID rnds t =
     bind_outcome (fresh_id (isExist (ct_proxy_conn_map t)) rnds) (\<lambda>(pid, rest). Ok pid)"

text \<open>\<^verbatim>\<open>createProxyConn\<close>: an empty pointer when the connection to the proxy port fails.\<close>

definition createProxyConn ::
    "junk \<Rightarrow> bool \<Rightarrow> int \<Rightarrow> connect_env \<Rightarrow> (nat \<Rightarrow> nat) list \<Rightarrow> oid \<Rightarrow> u32 \<Rightarrow> client \<Rightarrow> (oid option \<times> client) outcome" where
  "createProxyConn j pc0 peer0 env rnds tun proxy_port s =
     (let proxy_conn_fd = fst (tcp_connect env proxy_port)
      in if proxy_conn_fd \<le> 0 then Ok (None, s)
         else bind_outcome (PickRandThread (cl_pool s)) (\<lambda>(threadPicked, pool').
              let (px, s1) = calloc (s\<lparr>cl_pool := pool'\<rparr>);
                  p = AddConn (ProxyConn_new j pc0 pc0 peer0 proxy_conn_fd threadPicked);
                  s2 = s1\<lparr>cl_px_tun := (cl_px_tun s1)(px := Some tun)\<rparr>
              in bind_outcome (deref cl_tuns tun s2) (\<lambda>t.
                 bind_outcome (getValidProxyID rnds t) (\<lambda>pid.
                   Ok (Some px, cput_px px (setProxyID pid p) s2)))))"

definition createLocalConn ::
    "bool \<Rightarrow> int \<Rightarrow> connect_env \<Rightarrow> oid \<Rightarrow> oid \<Rightarrow> client \<Rightarrow> (oid option \<times> client) outcome" where
  "createLocalConn pc0 peer0 env tun px s =
     bind_outcome (deref cl_tuns tun s) (\<lambda>t.
     let local_conn_fd = fst (tcp_connect env (ct_local_server_port t))
     in if local_conn_fd \<le> 0 then Ok (None, s)
        else bind_outcome (deref cl_pxs px s) (\<lambda>p.
             let (loc, s1) = calloc s
             in Ok (Some loc, cput_loc loc (edge_conn_new pc0 pc0 peer0 local_conn_fd (getThread p) tun (getProxyID p)) s1)))"

text \<open>\<^verbatim>\<open>proxyConn->start(localConn)\<close>, which dereferences both pointers.\<close>

definition client_start :: "oid \<Rightarrow> oid option \<Rightarrow> client \<Rightarrow> client outcome" where
  "client_start px loc s =
     bind_outcome (deref cl_pxs px s) (\<lambda>p.
     case loc of
       None \<Rightarrow> Ub NullDeref
     | Some l \<Rightarrow>
         bind_outcome (deref cl_locs l s) (\<lambda>c.
         let (p', c') = ProxyConn_start l (p, c) in Ok (cput_px px p' (cput_loc l c' s))))"

definition Tunnel_shutdownFromLocal :: "junk \<Rightarrow> oid \<Rightarrow> cstring \<Rightarrow> u32 \<Rightarrow> client \<Rightarrow> client outcome" where
  "Tunnel_shutdownFromLocal j tun pid count s =
     bind_outcome (deref cl_tuns tun s) (\<lambda>t.
     case map_of (ct_proxy_conn_map t) pid of
       None \<Rightarrow> Ok s
     | Some px \<Rightarrow>
         bind_outcome (deref cl_pxs px s) (\<lambda>p.
           Client_shutdownFromLocal j (ct_tun_id t) pid count (cput_px px (snd (shutdownFromLocal p)) s)))"

definition handleStartProxyConnReq ::
    "junk \<Rightarrow> bool \<Rightarrow> int \<Rightarrow> connect_env \<Rightarrow> wr_resp \<Rightarrow> oid \<Rightarrow> byte list \<Rightarrow> client \<Rightarrow> client outcome" where
  "handleStartProxyConnReq j pc0 peer0 env w tun msg s =
     bind_outcome (cstr_at msg 4) (\<lambda>pid.
     let public_fd = ntohl (get_u32 msg 0)
     in bind_outcome (deref cl_tuns tun s) (\<lambda>t.
        case map_of (ct_proxy_conn_map t) pid of
          None \<Rightarrow> Ok s
        | Some px \<Rightarrow>
            bind_outcome (deref cl_pxs px s) (\<lambda>p.
            if is_start p then Ok s
            else bind_outcome (createLocalConn pc0 peer0 env tun px s) (\<lambda>(loc, s1).
                 bind_outcome (StartProxyConnRspMsg j public_fd pid) (\<lambda>body.
                 bind_outcome (make_proxy_ctl_msg StartProxyConnRsp body) (\<lambda>m.
                 bind_outcome (deref cl_pxs px s1) (\<lambda>p1.
                 let (ret, p2) = send_msg_dirct w m p1; s2 = cput_px px p2 s1
                 in if ret = -1 then Ok s2 else client_start px loc s2)))))))"

definition shutdonwLocalConn :: "junk \<Rightarrow> oid \<Rightarrow> oid \<Rightarrow> client \<Rightarrow> client outcome" where
  "shutdonwLocalConn j tun px s =
     bind_outcome (deref cl_pxs px s) (\<lambda>p.
     if getTheoreticalTotalRecvCount p \<noteq> getRecvCount p then Ok s
     else let (fd, isFree, p') = shutdownFromRemote p;
              s1 = cput_px px p' (s\<lparr>cl_shut_wr := cl_shut_wr s @ [fd]\<rparr>)
          in if isFree
             then bind_outcome (deref cl_tuns tun s1) (\<lambda>t.
                  bind_outcome (FreeProxyConnReqMsg j (ct_tun_id t) (getProxyID p')) (\<lambda>body.
                    csend_ctl j FreeProxyConnReq body s1))
             else Ok s1)"

section \<open>Messages from the server\<close>

definition handleNewCtlRsp :: "junk \<Rightarrow> byte list \<Rightarrow> client \<Rightarrow> client outcome" where
  "handleNewCtlRsp j msg s =
     bind_outcome (cstr_at msg 0) (\<lambda>i.
     case cl_ctl s of
       None \<Rightarrow> Ub NullDeref
     | Some c \<Rightarrow> reqNewTunnel j (s\<lparr>cl_ctl := Some (SetCtlId i c), cl_client_id := i\<rparr>))"

definition handleNewTunnelRsp :: "byte list \<Rightarrow> client \<Rightarrow> client outcome" where
  "handleNewTunnelRsp msg s =
     bind_outcome (cstr_at msg 0) (\<lambda>tun_id.
     bind_outcome (cstr_at msg 40) (\<lambda>local_server_host.
     bind_outcome (cstr_at msg 20) (\<lambda>proxy_server_host.
     let (tun, s1) = calloc s;
         t = ClientTunnel_new tun_id local_server_host (get_u32 msg 12) proxy_server_host (get_u32 msg 16);
         s2 = cput_tun tun t s1
     in Ok (s2\<lparr>cl_tunnel_map := add (cl_tunnel_map s2) tun_id tun\<rparr>))))"

text \<open>
  The whole reaction to a request for a proxy connection: \<open>env1\<close> answers the connection to the
  proxy port, \<open>env2\<close> the one to the local server, \<open>w\<close> the write of the meta message.
\<close>

definition handleProxyNotify ::
    "junk \<Rightarrow> bool \<Rightarrow> int \<Rightarrow> connect_env \<Rightarrow> (nat \<Rightarrow> nat) list \<Rightarrow> connect_env \<Rightarrow> wr_resp \<Rightarrow> byte list \<Rightarrow> client \<Rightarrow>
     client outcome" where
  "handleProxyNotify j pc0 peer0 env1 rnds env2 w msg s =
     bind_outcome (cstr_at msg 0) (\<lambda>tun_id.
     case map_of (cl_tunnel_map s) tun_id of
       None \<Rightarrow> Ok s
     | Some tun \<Rightarrow>
         bind_outcome (createProxyConn j pc0 peer0 env1 rnds tun (get_u32 msg 12) s) (\<lambda>(proxyConn, s1).
         case proxyConn of
           None \<Rightarrow> Ub NullDeref
         | Some px \<Rightarrow>
             bind_outcome (deref cl_pxs px s1) (\<lambda>p.
             bind_outcome (deref cl_tuns tun s1) (\<lambda>t.
             let s2 = cput_tun tun (t\<lparr>ct_proxy_conn_map := add (ct_proxy_conn_map t) (getProxyID p) px\<rparr>) s1
             in bind_outcome (createLocalConn pc0 peer0 env2 tun px s2) (\<lambda>(loc, s3).
                bind_outcome (ProxyMetaSetMsg (cl_client_id s3) tun_id (getProxyID p)) (\<lambda>body.
                bind_outcome (make_proxy_ctl_msg ProxyMetaSet body) (\<lambda>m.
                bind_outcome (deref cl_pxs px s3) (\<lambda>p3.
                let (ret, p4) = send_msg_dirct w m p3; s4 = cput_px px p4 s3
                in if ret = -1 then Ok s4 else client_start px loc s4))))))))"

definition handleShutdownLocalConn :: "junk \<Rightarrow> byte list \<Rightarrow> client \<Rightarrow> client outcome" where
  "handleShutdownLocalConn j msg s =
     bind_outcome (cstr_at msg 0) (\<lambda>tun_id.
     bind_outcome (cstr_at msg 10) (\<lambda>pid.
     let theoreticalTotalRecvCount = ntohl (get_u32 msg 20)
     in case map_of (cl_tunnel_map s) tun_id of
          None \<Rightarrow> Ok s
        | Some tun \<Rightarrow>
            bind_outcome (deref cl_tuns tun s) (\<lambda>t.
            case map_of (ct_proxy_conn_map t) pid of
              None \<Rightarrow> Ok s
            | Some px \<Rightarrow>
                bind_outcome (deref cl_pxs px s) (\<lambda>p.
                  shutdonwLocalConn j tun px (cput_px px (incrTheoreticalTotalRecvCount theoreticalTotalRecvCount p) s)))))"

text \<open>Losing the control connection aborts the process.\<close>

definition Client_handleCtlConnClose :: "client \<Rightarrow> client outcome" where
  "Client_handleCtlConnClose s = Abort"

section \<open>Events\<close>

definition LocalConn_handleRead :: "junk \<Rightarrow> wr_resp \<Rightarrow> oid \<Rightarrow> client \<Rightarrow> client outcome" where
  "LocalConn_handleRead j w loc s =
     bind_outcome (deref cl_locs loc s) (\<lambda>c.
     let (call, out, c') = edge_handleRead w c;
         s1 = cdeliver (peer_conn_fd c) out (cput_loc loc c' s)
     in case call of
          NoFin \<Rightarrow> Ok s1
        | FinSeen n \<Rightarrow> Tunnel_shutdownFromLocal j (ec_tun c) (ec_proxy_id c) n s1)"

definition LocalConn_postHandle :: "oid \<Rightarrow> client \<Rightarrow> client outcome" where
  "LocalConn_postHandle loc s =
     bind_outcome (deref cl_locs loc s) (\<lambda>c. Ok (cput_loc loc (edge_postHandle c) s))"

text \<open>Read events, with the handlers \<^verbatim>\<open>Client\<close> and \<^verbatim>\<open>Tunnel\<close> installed.\<close>

definition client_proxy_read ::
    "junk \<Rightarrow> bool \<Rightarrow> int \<Rightarrow> connect_env \<Rightarrow> wr_resp \<Rightarrow> wr_resp \<Rightarrow> oid \<Rightarrow> client \<Rightarrow> client outcome" where
  "client_proxy_read j pc0 peer0 env w1 w2 px s =
     bind_outcome (deref cl_pxs px s) (\<lambda>p.
     bind_outcome (ProxyConn_handleRead j w1 p) (\<lambda>(call, out, p').
     let s1 = cdeliver (peer_conn_fd p) out (cput_px px p' s)
     in case cl_px_tun s1 px of
          None \<Rightarrow> Ok s1
        | Some tun \<Rightarrow>
            (case call of
               NoCall \<Rightarrow> Ok s1
             | CloseLocalPeer \<Rightarrow> shutdonwLocalConn j tun px s1
             | ProxyMsg ty body \<Rightarrow>
                 (case ty of
                    StartProxyConnReq \<Rightarrow> handleStartProxyConnReq j pc0 peer0 env w2 tun body s1
                  | _ \<Rightarrow> Ok s1))))"

definition client_ctl_read ::
    "junk \<Rightarrow> bool \<Rightarrow> int \<Rightarrow> connect_env \<Rightarrow> (nat \<Rightarrow> nat) list \<Rightarrow> connect_env \<Rightarrow> wr_resp \<Rightarrow> client \<Rightarrow> client outcome" where
  "client_ctl_read j pc0 peer0 env1 rnds env2 w s =
     (case cl_ctl s of
        None \<Rightarrow> Ub NullDeref
      | Some c \<Rightarrow>
          bind_outcome (CtlConn_handleRead j c) (\<lambda>(ev, c').
          let s1 = s\<lparr>cl_ctl := Some c'\<rparr>
          in case ev of
               None \<Rightarrow> Ok s1
             | Some (ty, body) \<Rightarrow>
                 (case ty of
                    NewCtlRsp \<Rightarrow> handleNewCtlRsp j body s1
                  | NewTunnelRsp \<Rightarrow> handleNewTunnelRsp body s1
                  | NotifyClientNeedProxy \<Rightarrow> handleProxyNotify j pc0 peer0 env1 rnds env2 w body s1
                  | NotifyProxyShutdownPeerConn \<Rightarrow> handleShutdownLocalConn j body s1
                  | _ \<Rightarrow> Ok s1)))"

definition client_ctl_post :: "client \<Rightarrow> client outcome" where
  "client_ctl_post s =
     (case cl_ctl s of
        None \<Rightarrow> Ub NullDeref
      | Some c \<Rightarrow>
          (let (close, c') = CtlConn_postHandle c; s1 = s\<lparr>cl_ctl := Some c'\<rparr>
           in if close then Client_handleCtlConnClose s1 else Ok s1))"

definition client_ctl_write :: "client \<Rightarrow> client outcome" where
  "client_ctl_write s =
     (case cl_ctl s of
        None \<Rightarrow> Ub NullDeref
      | Some c \<Rightarrow> bind_outcome (CtlConn_handleWrite c) (\<lambda>c'. Ok (s\<lparr>cl_ctl := Some c'\<rparr>)))"

definition client_proxy_write :: "oid \<Rightarrow> client \<Rightarrow> client outcome" where
  "client_proxy_write px s =
     bind_outcome (deref cl_pxs px s) (\<lambda>p.
     bind_outcome (ProxyConn_handleWrite p) (\<lambda>p'. Ok (cput_px px p' s)))"

text \<open>The client installs no close handler on its proxy connections: the default does nothing.\<close>

definition client_proxy_post :: "oid \<Rightarrow> client \<Rightarrow> client outcome" where
  "client_proxy_post px s =
     bind_outcome (deref cl_pxs px s) (\<lambda>p. Ok (cput_px px (snd (ProxyConn_postHandle p)) s))"

end
