(* ===== verification/CProxy_ClientInv.thy ===== *)
theory CProxy_ClientInv
  imports CProxy_Client
begin

text \<open>
  The well-formedness of the client's object graph and its preservation by every handler, in the
  style of the server's: every identity in a map or binding is an allocated object, tunnels and proxy
  connections are filed under their own ids, and each started proxy connection is linked in both
  directions with its local connection.
\<close>

section \<open>The invariant\<close>

text \<open>A started proxy connection and its local connection are linked both ways and carry the same id.\<close>

definition linked :: "client \<Rightarrow> proxy_conn \<Rightarrow> bool" where
  "linked s p \<longleftrightarrow> (case peerConn p of None \<Rightarrow> False
     | Some l \<Rightarrow> (case cl_locs s l of None \<Rightarrow> False
        | Some c \<Rightarrow> peer_conn_fd p = conn_fd c \<and> peer_conn_fd c = conn_fd p \<and> ec_proxy_id c = proxy_id p))"

definition cpx_ok :: "client \<Rightarrow> proxy_conn \<Rightarrow> bool" where
  "cpx_ok s p \<longleftrightarrow> px_ok p \<and> (is_start p \<longrightarrow> linked s p)"

definition ctun_ok :: "client \<Rightarrow> oid \<Rightarrow> client_tunnel \<Rightarrow> bool" where
  "ctun_ok s tun t \<longleftrightarrow> map_wf (ct_proxy_conn_map t) \<and>
     (\<forall>i px. map_of (ct_proxy_conn_map t) i = Some px \<longrightarrow>
        cl_px_tun s px = Some tun \<and> (\<exists>p. cl_pxs s px = Some p \<and> proxy_id p = i))"

definition client_inv :: "client \<Rightarrow> bool" where
  "client_inv s \<longleftrightarrow>
     (\<forall>oid. cl_next s \<le> oid \<longrightarrow>
        cl_tuns s oid = None \<and> cl_pxs s oid = None \<and> cl_locs s oid = None \<and> cl_px_tun s oid = None) \<and>
     (\<exists>c. cl_ctl s = Some c \<and> obuf_ok (cc_out_buffer c)) \<and>
     map_wf (cl_tunnel_map s) \<and>
     (\<forall>i tun. map_of (cl_tunnel_map s) i = Some tun \<longrightarrow> (\<exists>t. cl_tuns s tun = Some t \<and> ct_tun_id t = i)) \<and>
     (\<forall>oid t. cl_tuns s oid = Some t \<longrightarrow> ctun_ok s oid t) \<and>
     (\<forall>oid p. cl_pxs s oid = Some p \<longrightarrow> cpx_ok s p) \<and>
     (\<forall>px tun. cl_px_tun s px = Some tun \<longrightarrow> cl_tuns s tun \<noteq> None) \<and>
     (\<forall>oid c. cl_locs s oid = Some c \<longrightarrow> cl_tuns s (ec_tun c) \<noteq> None)"

text \<open>What survives every handler: objects stay, with their identifying fields.\<close>

definition cheap_le :: "client \<Rightarrow> client \<Rightarrow> bool" where
  "cheap_le s s' \<longleftrightarrow> cl_next s \<le> cl_next s' \<and>
     (\<forall>oid t. cl_tuns s oid = Some t \<longrightarrow> (\<exists>t'. cl_tuns s' oid = Some t' \<and> ct_tun_id t' = ct_tun_id t)) \<and>
     (\<forall>oid p. cl_pxs s oid = Some p \<longrightarrow>
        (\<exists>p'. cl_pxs s' oid = Some p' \<and> proxy_id p' = proxy_id p \<and> conn_fd p' = conn_fd p)) \<and>
     (\<forall>oid c. cl_locs s oid = Some c \<longrightarrow>
        (\<exists>c'. cl_locs s' oid = Some c' \<and> conn_fd c' = conn_fd c \<and> peer_conn_fd c' = peer_conn_fd c \<and>
           ec_proxy_id c' = ec_proxy_id c)) \<and>
     (\<forall>px tun. cl_px_tun s px = Some tun \<longrightarrow> cl_px_tun s' px = Some tun)"

lemma cheap_le_refl [simp]: "cheap_le s s"
  by (simp add: cheap_le_def)

lemma cheap_le_trans: "cheap_le s1 s2 \<Longrightarrow> cheap_le s2 s3 \<Longrightarrow> cheap_le s1 s3"
  unfolding cheap_le_def by (intro conjI allI impI; (elim conjE)?) (simp, fastforce+)

interpretation cli: object_graph client_inv cheap_le
  by unfold_locales (simp, rule cheap_le_trans)

abbreviation client_keeps :: "client \<Rightarrow> client outcome \<Rightarrow> bool" where
  "client_keeps \<equiv> keeps client_inv cheap_le"

lemma cheap_leD:
  assumes "cheap_le s s'"
  shows "cl_tuns s oid \<noteq> None \<Longrightarrow> cl_tuns s' oid \<noteq> None" "cl_pxs s oid \<noteq> None \<Longrightarrow> cl_pxs s' oid \<noteq> None"
    "cl_locs s oid \<noteq> None \<Longrightarrow> cl_locs s' oid \<noteq> None"
  using assms unfolding cheap_le_def by (metis option.exhaust option.distinct(1))+

lemma linked_mono: "cheap_le s s' \<Longrightarrow> linked s p \<Longrightarrow> linked s' p"
  unfolding cheap_le_def linked_def by (fastforce split: option.splits)

lemma cpx_ok_mono: "cheap_le s s' \<Longrightarrow> cpx_ok s p \<Longrightarrow> cpx_ok s' p"
  unfolding cpx_ok_def using linked_mono by blast

lemma ctun_ok_mono: "cheap_le s s' \<Longrightarrow> ctun_ok s tun t \<Longrightarrow> ctun_ok s' tun t"
  unfolding cheap_le_def ctun_ok_def by metis

lemma cinvD:
  assumes "client_inv s"
  shows "cl_tuns s oid = Some t \<Longrightarrow> ctun_ok s oid t" "cl_pxs s oid = Some p \<Longrightarrow> cpx_ok s p"
    "cl_px_tun s px = Some tun \<Longrightarrow> cl_tuns s tun \<noteq> None" "cl_locs s oid = Some c \<Longrightarrow> cl_tuns s (ec_tun c) \<noteq> None"
    "cl_next s \<le> oid \<Longrightarrow> cl_tuns s oid = None \<and> cl_pxs s oid = None \<and> cl_locs s oid = None \<and> cl_px_tun s oid = None"
    "map_of (cl_tunnel_map s) i = Some tun \<Longrightarrow> \<exists>t. cl_tuns s tun = Some t \<and> ct_tun_id t = i"
    "\<exists>c. cl_ctl s = Some c \<and> obuf_ok (cc_out_buffer c)" "map_wf (cl_tunnel_map s)"
  using assms unfolding client_inv_def by blast+

lemma callocated_below:
  assumes "client_inv s"
  shows "cl_tuns s oid = Some t \<Longrightarrow> oid < cl_next s" "cl_pxs s oid = Some p \<Longrightarrow> oid < cl_next s"
    "cl_locs s oid = Some c \<Longrightarrow> oid < cl_next s" "cl_px_tun s oid = Some tun \<Longrightarrow> oid < cl_next s"
  using cinvD(5) [OF assms, of oid] by (cases "oid < cl_next s"; simp add: not_less)+

text \<open>A state that extends a well-formed one by well-formed objects is well-formed.\<close>

lemma client_inv_extend:
  assumes "client_inv s" "cheap_le s s'"
    and "\<And>oid. cl_next s' \<le> oid \<Longrightarrow>
          cl_tuns s' oid = None \<and> cl_pxs s' oid = None \<and> cl_locs s' oid = None \<and> cl_px_tun s' oid = None"
    and "cl_ctl s' = cl_ctl s" "cl_tunnel_map s' = cl_tunnel_map s"
    and "\<And>oid t. cl_tuns s' oid = Some t \<Longrightarrow> cl_tuns s oid = Some t \<or> ctun_ok s' oid t"
    and "\<And>oid p. cl_pxs s' oid = Some p \<Longrightarrow> cl_pxs s oid = Some p \<or> cpx_ok s' p"
    and "\<And>px tun. cl_px_tun s' px = Some tun \<Longrightarrow> cl_tuns s' tun \<noteq> None"
    and "\<And>oid c. cl_locs s' oid = Some c \<Longrightarrow> cl_tuns s' (ec_tun c) \<noteq> None"
  shows "client_inv s'"
proof -
  have "\<exists>t. cl_tuns s' tun = Some t \<and> ct_tun_id t = i" if "map_of (cl_tunnel_map s) i = Some tun" for i tun
    using cinvD(6) [OF assms(1) that] assms(2) unfolding cheap_le_def by metis
  moreover have "ctun_ok s' oid t" if "cl_tuns s' oid = Some t" for oid t
    using assms(6) [OF that] ctun_ok_mono [OF assms(2)] cinvD(1) [OF assms(1)] by blast
  moreover have "cpx_ok s' p" if "cl_pxs s' oid = Some p" for oid p
    using assms(7) [OF that] cpx_ok_mono [OF assms(2)] cinvD(2) [OF assms(1)] by blast
  ultimately show ?thesis
    unfolding client_inv_def assms(4,5)
    by (intro conjI allI impI) (use assms(3,8,9) cinvD(7,8) [OF assms(1)] in simp_all)
qed

section \<open>Object updates\<close>

lemma cput_tun_inv:
  assumes "client_inv s" "cl_tuns s oid = Some t0" "ct_tun_id t = ct_tun_id t0" "ctun_ok s oid t"
  shows "client_inv (cput_tun oid t s) \<and> cheap_le s (cput_tun oid t s)"
proof -
  have le: "cheap_le s (cput_tun oid t s)" using assms(2,3) by (simp add: cheap_le_def cput_defs)
  moreover have "client_inv (cput_tun oid t s)"
    by (rule client_inv_extend [OF assms(1) le])
      (use cinvD [OF assms(1)] callocated_below(1) [OF assms(1,2)] ctun_ok_mono [OF le assms(4)]
        in \<open>auto simp: cput_defs split: if_splits\<close>)
  ultimately show ?thesis by simp
qed

lemma cput_px_inv:
  assumes "client_inv s" "cl_pxs s oid = Some p0" "conn_fd p = conn_fd p0" "proxy_id p = proxy_id p0" "cpx_ok s p"
  shows "client_inv (cput_px oid p s) \<and> cheap_le s (cput_px oid p s)"
proof -
  have le: "cheap_le s (cput_px oid p s)" using assms(2,3,4) by (simp add: cheap_le_def cput_defs)
  moreover have "client_inv (cput_px oid p s)"
    by (rule client_inv_extend [OF assms(1) le])
      (use cinvD [OF assms(1)] callocated_below(2) [OF assms(1,2)] cpx_ok_mono [OF le assms(5)]
        in \<open>auto simp: cput_defs split: if_splits\<close>)
  ultimately show ?thesis by simp
qed

lemma cput_loc_inv:
  assumes "client_inv s" "cl_locs s oid = Some c0" "ec_tun c = ec_tun c0" "conn_fd c = conn_fd c0"
    and "peer_conn_fd c = peer_conn_fd c0" "ec_proxy_id c = ec_proxy_id c0"
  shows "client_inv (cput_loc oid c s) \<and> cheap_le s (cput_loc oid c s)"
proof -
  have le: "cheap_le s (cput_loc oid c s)" using assms(2,4-6) by (simp add: cheap_le_def cput_defs)
  moreover have "client_inv (cput_loc oid c s)"
    by (rule client_inv_extend [OF assms(1) le])
      (use cinvD [OF assms(1)] callocated_below(3) [OF assms(1,2)] cinvD(4) [OF assms(1,2)] assms(3)
        in \<open>auto simp: cput_defs split: if_splits\<close>)
  ultimately show ?thesis by simp
qed

lemma cdeliver_inv: "client_inv s \<Longrightarrow> client_inv (cdeliver fd bs s) \<and> cheap_le s (cdeliver fd bs s)"
proof -
  assume inv: "client_inv s"
  have le: "cheap_le s (cdeliver fd bs s)"
    by (auto simp: cheap_le_def cdeliver_def receive_on_def)
  have r: "cpx_ok (cdeliver fd bs s) (receive_on fd bs p)" if "cl_pxs s oid = Some p" for oid p
  proof -
    have "cpx_ok (cdeliver fd bs s) p" by (rule cpx_ok_mono [OF le cinvD(2) [OF inv that]])
    then show ?thesis by (auto simp: cpx_ok_def px_ok_def linked_def receive_on_def split: option.splits)
  qed
  have "client_inv (cdeliver fd bs s)"
    by (rule client_inv_extend [OF inv le])
      (use cinvD [OF inv] r in \<open>auto simp: cdeliver_def receive_on_def\<close>)
  with le show ?thesis by simp
qed

lemma cside_fields_inv:
  assumes "client_inv s"
  shows "client_inv (s\<lparr>cl_shut_wr := x\<rparr>) \<and> cheap_le s (s\<lparr>cl_shut_wr := x\<rparr>)"
    and "client_inv (s\<lparr>cl_pool := pl\<rparr>) \<and> cheap_le s (s\<lparr>cl_pool := pl\<rparr>)"
    and "client_inv (s\<lparr>cl_client_id := i\<rparr>) \<and> cheap_le s (s\<lparr>cl_client_id := i\<rparr>)"
    and "obuf_ok (cc_out_buffer c) \<Longrightarrow> client_inv (s\<lparr>cl_ctl := Some c\<rparr>) \<and> cheap_le s (s\<lparr>cl_ctl := Some c\<rparr>)"
  using assms
  by (simp_all add: client_inv_def cheap_le_def ctun_ok_def cpx_ok_def linked_def cong: option.case_cong)

section \<open>Handlers\<close>

lemma csend_ctl_keeps:
  assumes "client_inv s"
  shows "client_keeps s (csend_ctl j ty body s)"
proof -
  obtain c where c: "cl_ctl s = Some c" "obuf_ok (cc_out_buffer c)" using cinvD(7) [OF assms] by blast
  have "client_keeps s (bind_outcome (MakeCtlMsg ty body) (\<lambda>m.
          bind_outcome (CtlConn_SendMsg j m c) (\<lambda>c'. Ok (s\<lparr>cl_ctl := Some c'\<rparr>))))"
  proof (rule cli.keeps_value [OF body_msg_safe(5)])
    fix m
    assume m: "MakeCtlMsg ty body = Ok m"
    obtain c' where "CtlConn_SendMsg j m c = Ok c'" "obuf_ok (cc_out_buffer c')"
      using CtlConn_SendMsg_safe [OF c(2) m, of j] by auto
    with cside_fields_inv(4) [OF assms] show
      "client_keeps s (bind_outcome (CtlConn_SendMsg j m c) (\<lambda>c'. Ok (s\<lparr>cl_ctl := Some c'\<rparr>)))"
      by (simp add: keeps_def)
  qed
  then show ?thesis by (simp add: csend_ctl_def c(1))
qed

lemma creq_keeps:
  assumes "client_inv s"
  shows "client_keeps s (reqNewCtl j s)" "client_keeps s (reqNewTunnel j s)"
    "client_keeps s (Client_shutdownFromLocal j tid pid n s)"
  unfolding reqNewCtl_def reqNewTunnel_def Client_shutdownFromLocal_def
  by (rule csend_ctl_keeps [OF assms] cli.keeps_value [OF body_msg_safe(9)] cli.keeps_value [OF body_msg_safe(2)]
      | (rule cli.keeps_value [OF body_msg_safe(9)] cli.keeps_value [OF body_msg_safe(2)], rule csend_ctl_keeps [OF assms]))+

lemma shutdown_cpx_ok:
  assumes "cpx_ok s p"
  shows "cpx_ok s (snd (shutdownFromLocal p))" "cpx_ok s (snd (snd (shutdownFromRemote p)))"
    "proxy_id (snd (shutdownFromLocal p)) = proxy_id p" "proxy_id (snd (snd (shutdownFromRemote p))) = proxy_id p"
    "conn_fd (snd (snd (shutdownFromRemote p))) = conn_fd p"
  using assms
  by (auto simp: cpx_ok_def px_ok_def linked_def shutdownFromLocal_def shutdownFromRemote_def resetConn_def counter_defs Let_def
      split: option.splits)

lemma Tunnel_shutdownFromLocal_keeps:
  assumes "client_inv s" "cl_tuns s tun \<noteq> None"
  shows "client_keeps s (Tunnel_shutdownFromLocal j tun pid n s)"
  unfolding Tunnel_shutdownFromLocal_def
proof (rule cli.keeps_deref [where h = cl_tuns, OF assms(2)])
  fix t
  assume t: "cl_tuns s tun = Some t"
  show "client_keeps s (case map_of (ct_proxy_conn_map t) pid of
       None \<Rightarrow> Ok s
     | Some px \<Rightarrow>
         bind_outcome (deref cl_pxs px s) (\<lambda>p.
           Client_shutdownFromLocal j (ct_tun_id t) pid n (cput_px px (snd (shutdownFromLocal p)) s)))"
  proof (cases "map_of (ct_proxy_conn_map t) pid")
    case None
    then show ?thesis using cli.keeps_same [OF assms(1)] by simp
  next
    case (Some px)
    then obtain p where p: "cl_pxs s px = Some p" using cinvD(1) [OF assms(1) t] by (auto simp: ctun_ok_def)
    let ?s = "cput_px px (snd (shutdownFromLocal p)) s"
    have 1: "client_inv ?s" "cheap_le s ?s"
      using cput_px_inv [OF assms(1) p] shutdown_cpx_ok [OF cinvD(2) [OF assms(1) p]] shutdown_px_ok(3) by simp_all
    from cli.keeps_after [OF 1 creq_keeps(3) [OF 1(1)]] Some p show ?thesis by (simp add: deref_def)
  qed
qed

lemma shutdonwLocalConn_keeps:
  assumes "client_inv s" "cl_tuns s tun \<noteq> None" "cl_pxs s px \<noteq> None"
  shows "client_keeps s (shutdonwLocalConn j tun px s)"
proof -
  obtain p where p: "cl_pxs s px = Some p" using assms(3) by auto
  obtain fd fr p' where sh: "shutdownFromRemote p = (fd, fr, p')" by (cases "shutdownFromRemote p")
  let ?s0 = "s\<lparr>cl_shut_wr := cl_shut_wr s @ [fd]\<rparr>"
  let ?s1 = "cput_px px p' ?s0"
  have 0: "client_inv ?s0 \<and> cheap_le s ?s0" by (rule cside_fields_inv(1) [OF assms(1)])
  have p0: "cl_pxs ?s0 px = Some p" using p by simp
  have "client_inv ?s1 \<and> cheap_le ?s0 ?s1"
    using cput_px_inv [OF _ p0, of p'] shutdown_cpx_ok [OF cinvD(2) [OF _ p0]] 0 sh by simp
  with 0 have 1: "client_inv ?s1" "cheap_le s ?s1" using cheap_le_trans by blast+
  obtain t where t: "cl_tuns ?s1 tun = Some t" using cheap_leD(1) [OF 1(2) assms(2)] by blast
  have "client_keeps ?s1 (bind_outcome (FreeProxyConnReqMsg j (ct_tun_id t) (getProxyID p')) (\<lambda>body.
      csend_ctl j FreeProxyConnReq body ?s1))"
    by (rule cli.keeps_value [OF body_msg_safe(8)], rule csend_ctl_keeps [OF 1(1)])
  from cli.keeps_after [OF 1 this] 1 cli.keeps_same [OF assms(1)] p t show ?thesis
    by (simp add: shutdonwLocalConn_def deref_def sh keeps_def Let_def)
qed

section \<open>Starting a session\<close>

text \<open>A connection nobody points to yet.\<close>

definition unlinked :: "client \<Rightarrow> oid \<Rightarrow> bool" where
  "unlinked s l \<longleftrightarrow> (\<forall>oid p. cl_pxs s oid = Some p \<longrightarrow> is_start p \<longrightarrow> peerConn p \<noteq> Some l)"

lemma client_start_inv:
  assumes "client_inv s" "cl_pxs s px = Some p" "cl_locs s l = Some c" "ec_proxy_id c = proxy_id p" "unlinked s l"
    and "cheap_le s0 s" "cl_locs s0 l = None"
  shows "safe (\<lambda>s'. client_inv s' \<and> cheap_le s0 s') (client_start px (Some l) s)"
proof -
  obtain p' c' where st: "ProxyConn_start l (p, c) = (p', c')" by (cases "ProxyConn_start l (p, c)")
  have f: "conn_fd p' = conn_fd p" "proxy_id p' = proxy_id p" "pc_out_buffer p' = pc_out_buffer p" "peerConn p' = Some l"
    "conn_fd c' = conn_fd c" "ec_proxy_id c' = ec_proxy_id c" "ec_tun c' = ec_tun c"
    "peer_conn_fd p' = conn_fd c" "peer_conn_fd c' = conn_fd p"
    using st by (auto simp: ProxyConn_start_def AddConn_def setPeerConnFd_def)
  let ?s' = "cput_px px p' (cput_loc l c' s)"
  have le0: "cheap_le s0 ?s'"
    using assms(6,7) assms(2) f(1,2) unfolding cheap_le_def cput_defs by (auto split: if_splits) force+
  have "px_ok p'" using cinvD(2) [OF assms(1,2)] f(3) by (simp add: cpx_ok_def px_ok_def)
  then have p': "cpx_ok ?s' p'" using f assms(4) by (simp add: cpx_ok_def linked_def cput_defs)
  have other: "cpx_ok ?s' q" if "cl_pxs s oid = Some q" for oid q
    using cinvD(2) [OF assms(1) that] assms(5) that
    by (auto simp: cpx_ok_def linked_def unlinked_def cput_defs split: option.splits if_splits)
  have "ctun_ok ?s' oid t" if "cl_tuns s oid = Some t" for oid t
    using cinvD(1) [OF assms(1) that] assms(2) f(2) by (fastforce simp: ctun_ok_def cput_defs)
  then have "client_inv ?s'"
    using assms(1) p' other callocated_below(2) [OF assms(1,2)] callocated_below(3) [OF assms(1,3)] cinvD(4) [OF assms(1,3)] f(7)
    unfolding client_inv_def by (auto simp: cput_defs)
  with le0 assms(2,3) st show ?thesis by (simp add: client_start_def deref_def)
qed

lemma send_msg_dirct_frame:
  "send_msg_dirct w m p = (r, p') \<Longrightarrow> conn_fd p' = conn_fd p \<and> proxy_id p' = proxy_id p \<and>
     pc_out_buffer p' = pc_out_buffer p \<and> is_start p' = is_start p \<and> peerConn p' = peerConn p \<and> peer_conn_fd p' = peer_conn_fd p"
  by (auto simp: send_msg_dirct_def Let_def split: prod.splits if_splits)

definition connect_ok :: "connect_env \<Rightarrow> bool" where
  "connect_ok env \<longleftrightarrow> (inet_addr_ret env \<noteq> INADDR_NONE \<or> gethostbyname_ret env \<noteq> None) \<and> 0 < csocket_ret env \<and> 0 \<le> connect_ret env"

lemma connect_ok_iff: "0 < fst (tcp_connect env port) \<longleftrightarrow> connect_ok env"
  by (auto simp: tcp_connect_def connect_ok_def Let_def split: option.splits)

lemma createLocalConn_safe:
  assumes "client_inv s" "cl_tuns s tun \<noteq> None" "cl_pxs s px = Some p" "connect_ok env"
  shows "safe (\<lambda>(r, s1). \<exists>l c. r = Some l \<and> client_inv s1 \<and> cheap_le s s1 \<and> cl_pxs s1 = cl_pxs s \<and> cl_locs s l = None \<and>
       cl_locs s1 l = Some c \<and> ec_proxy_id c = proxy_id p)
     (createLocalConn pc0 peer0 env tun px s)"
proof -
  obtain t where t: "cl_tuns s tun = Some t" using assms(2) by auto
  let ?c = "edge_conn_new pc0 pc0 peer0 (fst (tcp_connect env (ct_local_server_port t))) (getThread p) tun (getProxyID p)"
  let ?s1 = "cput_loc (cl_next s) ?c (s\<lparr>cl_next := Suc (cl_next s)\<rparr>)"
  have fd: "0 < fst (tcp_connect env (ct_local_server_port t))" using connect_ok_iff assms(4) by blast
  have new: "cl_locs s (cl_next s) = None" using cinvD(5) [OF assms(1)] by simp
  have le: "cheap_le s ?s1" using new by (auto simp: cheap_le_def cput_defs)
  have c: "ec_tun ?c = tun" "ec_proxy_id ?c = proxy_id p"
    by (simp_all add: edge_conn_new_def TranConn_new_def tran_conn.defs edge_conn.defs upd_chan_def getProxyID_def)
  have "client_inv ?s1"
    by (rule client_inv_extend [OF assms(1) le])
      (use cinvD [OF assms(1)] c(1) t in \<open>auto simp: cput_defs split: if_splits\<close>)
  with le new c(2) t fd assms(3) show ?thesis
    by (simp add: createLocalConn_def deref_def calloc_def Let_def cput_loc_def)
qed

lemma cpx_ok_frame:
  assumes "cpx_ok s p" "conn_fd p' = conn_fd p" "proxy_id p' = proxy_id p" "pc_out_buffer p' = pc_out_buffer p"
    and "is_start p' = is_start p" "peerConn p' = peerConn p" "peer_conn_fd p' = peer_conn_fd p"
  shows "cpx_ok s p'"
  using assms by (auto simp: cpx_ok_def px_ok_def linked_def split: option.splits)

lemma fresh_unlinked:
  assumes "client_inv s" "cl_locs s l = None" "cl_pxs s1 = cl_pxs s"
  shows "unlinked s1 l"
  using assms cinvD(2) [OF assms(1)] by (fastforce simp: unlinked_def cpx_ok_def linked_def)

text \<open>Both ways to start a session end alike: create the local connection, send a frame, link the two.\<close>

lemma start_session_keeps:
  assumes inv: "client_inv s" "cl_tuns s tun \<noteq> None" "cl_pxs s px = Some p" "connect_ok env" and body: "\<And>s3. safe (\<lambda>_. True) (F s3)"
  shows "client_keeps s (bind_outcome (createLocalConn pc0 peer0 env tun px s) (\<lambda>(loc, s3).
     bind_outcome (F s3) (\<lambda>body.
     bind_outcome (make_proxy_ctl_msg ty body) (\<lambda>m.
     bind_outcome (deref cl_pxs px s3) (\<lambda>p3.
     let (ret, p4) = send_msg_dirct w m p3; s4 = cput_px px p4 s3
     in if ret = -1 then Ok s4 else client_start px loc s4)))))"
  unfolding keeps_def
proof (rule safe_bind [OF createLocalConn_safe [OF inv]], clarify)
  fix loc and s3 :: client and l c
  assume s3: "client_inv s3" "cheap_le s s3" "cl_pxs s3 = cl_pxs s" "cl_locs s l = None" "cl_locs s3 l = Some c"
    "ec_proxy_id c = proxy_id p"
  have p3: "cl_pxs s3 px = Some p" using s3(3) inv(3) by simp
  have fin: "safe (\<lambda>s'. client_inv s' \<and> cheap_le s s') (let (ret, p4) = send_msg_dirct w m p; s4 = cput_px px p4 s3
     in if ret = -1 then Ok s4 else client_start px (Some l) s4)" for m
  proof -
    obtain ret p4 where sd: "send_msg_dirct w m p = (ret, p4)" by (cases "send_msg_dirct w m p")
    note fr = send_msg_dirct_frame [OF sd]
    let ?s4 = "cput_px px p4 s3"
    have "cpx_ok s3 p4" by (rule cpx_ok_frame [OF cinvD(2) [OF s3(1) p3]]) (use fr in simp_all)
    then have 4: "client_inv ?s4" "cheap_le s ?s4"
      using cput_px_inv [OF s3(1) p3, of p4] fr cheap_le_trans [OF s3(2)] by blast+
    have "unlinked ?s4 l"
      using fresh_unlinked [OF inv(1) s3(4,3)] fr p3 by (auto simp: unlinked_def cput_px_def)
    then have "safe (\<lambda>s'. client_inv s' \<and> cheap_le s s') (client_start px (Some l) ?s4)"
      by (intro client_start_inv [OF 4(1), of px p4 l c]) (use s3 fr 4(2) in \<open>simp_all add: cput_px_def\<close>)
    with 4 show ?thesis by (simp add: sd Let_def)
  qed
  show "safe (\<lambda>s'. client_inv s' \<and> cheap_le s s') (bind_outcome (F s3) (\<lambda>body.
     bind_outcome (make_proxy_ctl_msg ty body) (\<lambda>m.
     bind_outcome (deref cl_pxs px s3) (\<lambda>p3.
     let (ret, p4) = send_msg_dirct w m p3; s4 = cput_px px p4 s3
     in if ret = -1 then Ok s4 else client_start px (Some l) s4))))"
    using fin p3 by (intro safe_bind [OF body] safe_bind [OF body_msg_safe(6)]) (simp add: deref_def)
qed

lemma handleStartProxyConnReq_keeps:
  assumes "client_inv s" "cl_tuns s tun \<noteq> None" "connect_ok env"
  shows "client_keeps s (handleStartProxyConnReq j pc0 peer0 env w tun msg s)"
proof -
  obtain t where t: "cl_tuns s tun = Some t" using assms(2) by auto
  have "client_keeps s (case map_of (ct_proxy_conn_map t) pid of
          None \<Rightarrow> Ok s
        | Some px \<Rightarrow>
            bind_outcome (deref cl_pxs px s) (\<lambda>p.
            if is_start p then Ok s
            else bind_outcome (createLocalConn pc0 peer0 env tun px s) (\<lambda>(loc, s1).
                 bind_outcome (StartProxyConnRspMsg j fd pid) (\<lambda>body.
                 bind_outcome (make_proxy_ctl_msg StartProxyConnRsp body) (\<lambda>m.
                 bind_outcome (deref cl_pxs px s1) (\<lambda>p1.
                 let (ret, p2) = send_msg_dirct w m p1; s2 = cput_px px p2 s1
                 in if ret = -1 then Ok s2 else client_start px loc s2))))))" for pid fd
  proof (cases "map_of (ct_proxy_conn_map t) pid")
    case None
    then show ?thesis using cli.keeps_same [OF assms(1)] by simp
  next
    case (Some px)
    then obtain p where p: "cl_pxs s px = Some p" using cinvD(1) [OF assms(1) t] by (auto simp: ctun_ok_def)
    from start_session_keeps [OF assms(1,2) p assms(3), of "\<lambda>_. StartProxyConnRspMsg j fd pid"] body_msg_safe(11)
      cli.keeps_same [OF assms(1)] Some p show ?thesis by (simp add: deref_def)
  qed
  then show ?thesis
    unfolding handleStartProxyConnReq_def
    by (intro cli.keeps_value [OF body_msg_safe(7)]) (simp add: deref_def t Let_def)
qed

definition px_created :: "client \<Rightarrow> oid \<Rightarrow> client_tunnel \<Rightarrow> oid option \<times> client \<Rightarrow> bool" where
  "px_created s tun t = (\<lambda>(r, s1). \<exists>px p. r = Some px \<and> client_inv s1 \<and> cheap_le s s1 \<and> cl_tuns s1 tun = Some t \<and>
     cl_pxs s1 px = Some p \<and> cl_px_tun s1 px = Some tun \<and> map_of (ct_proxy_conn_map t) (proxy_id p) = None)"

lemma createProxyConn_safe:
  assumes "client_inv s" "cl_tuns s tun = Some t" "connect_ok env"
  shows "safe (px_created s tun t)
     (createProxyConn j pc0 peer0 env rnds tun port s)"
proof -
  let ?fd = "fst (tcp_connect env port)"
  have fd: "0 < ?fd" using connect_ok_iff assms(3) by blast
  have new: "cl_pxs s (cl_next s) = None" "cl_px_tun s (cl_next s) = None" using cinvD(5) [OF assms(1)] by simp_all
  have "safe (px_created s tun t)
     (bind_outcome (getValidProxyID rnds t) (\<lambda>pid. Ok (Some (cl_next s), cput_px (cl_next s)
        (setProxyID pid (AddConn (ProxyConn_new j pc0 pc0 peer0 ?fd th)))
        (s\<lparr>cl_pool := pool', cl_next := Suc (cl_next s), cl_px_tun := (cl_px_tun s)(cl_next s := Some tun)\<rparr>))))" for th pool'
  proof (rule safe_bind [where Q = "\<lambda>pid. map_of (ct_proxy_conn_map t) pid = None"])
    show "safe (\<lambda>pid. map_of (ct_proxy_conn_map t) pid = None) (getValidProxyID rnds t)"
      unfolding getValidProxyID_def
      by (rule safe_bind [OF fresh_id_safe]) (auto dest: fresh_id_unused simp: map_lookup)
  next
    fix pid
    assume pid: "map_of (ct_proxy_conn_map t) pid = None"
    let ?p = "setProxyID pid (AddConn (ProxyConn_new j pc0 pc0 peer0 ?fd th))"
    let ?s1 = "cput_px (cl_next s) ?p
        (s\<lparr>cl_pool := pool', cl_next := Suc (cl_next s), cl_px_tun := (cl_px_tun s)(cl_next s := Some tun)\<rparr>)"
    have le: "cheap_le s ?s1" using new by (auto simp: cheap_le_def cput_defs)
    have ok: "cpx_ok ?s1 ?p" "proxy_id ?p = pid"
      by (simp_all add: cpx_ok_def px_ok_def setProxyID_def AddConn_def ProxyConn_new_def TranConn_new_def tran_conn.defs proxy_conn.defs)
    have "client_inv ?s1"
      by (rule client_inv_extend [OF assms(1) le])
        (use cinvD [OF assms(1)] ok assms(2) in \<open>auto simp: cput_defs split: if_splits\<close>)
    with le ok pid assms(2) show "safe (px_created s tun t)
      (Ok (Some (cl_next s), ?s1))"
      by (simp add: px_created_def cput_px_def)
  qed
  with fd assms(2) show ?thesis
    unfolding createProxyConn_def
    by (auto simp: calloc_def deref_def Let_def intro!: safe_bind [OF PickRandThread_safe])
qed

lemma handleProxyNotify_keeps:
  assumes "client_inv s" "connect_ok env1" "connect_ok env2"
  shows "client_keeps s (handleProxyNotify j pc0 peer0 env1 rnds env2 w msg s)"
proof -
  have "client_keeps s (case map_of (cl_tunnel_map s) tun_id of
       None \<Rightarrow> Ok s
     | Some tun \<Rightarrow>
         bind_outcome (createProxyConn j pc0 peer0 env1 rnds tun (get_u32 msg 12) s) (\<lambda>(proxyConn, s1).
         case proxyConn of
           None \<Rightarrow> Ub NullDeref
         | Some px \<Rightarrow>
             bind_outcome (deref cl_pxs px s1) (\<lambda>p.
             bind_outcome (deref cl_tuns tun s1) (\<lambda>t.
             let s2 = cput_tun tun (t\<lparr>ct_proxy_conn_map := add (ct_proxy_conn_map t) (getProxyID p) px\<rparr>) s1
             in bind_outcome (createLocalConn pc0 peer0 env2 tun px s2) (\<lambda>(loc, s3).
                bind_outcome (ProxyMetaSetMsg (cl_client_id s3) tun_id (getProxyID p)) (\<lambda>body.
                bind_outcome (make_proxy_ctl_msg ProxyMetaSet body) (\<lambda>m.
                bind_outcome (deref cl_pxs px s3) (\<lambda>p3.
                let (ret, p4) = send_msg_dirct w m p3; s4 = cput_px px p4 s3
                in if ret = -1 then Ok s4 else client_start px loc s4))))))))" (is "client_keeps s (case _ of None \<Rightarrow> _ | Some tun \<Rightarrow> bind_outcome _ (?rest tun))")
    for tun_id
  proof (cases "map_of (cl_tunnel_map s) tun_id")
    case None
    then show ?thesis using cli.keeps_same [OF assms(1)] by simp
  next
    case (Some tun)
    then obtain t where t: "cl_tuns s tun = Some t" using cinvD(6) [OF assms(1)] by blast
    have "client_keeps s (bind_outcome (createProxyConn j pc0 peer0 env1 rnds tun (get_u32 msg 12) s) (?rest tun))"
    proof (rule cli.keeps_value [OF createProxyConn_safe [OF assms(1) t assms(2)]])
      fix r
      assume "px_created s tun t r"
      then obtain s1 px p where s1: "client_inv s1" "cheap_le s s1" "cl_tuns s1 tun = Some t" "cl_pxs s1 px = Some p"
        "cl_px_tun s1 px = Some tun" "map_of (ct_proxy_conn_map t) (proxy_id p) = None" and r: "r = (Some px, s1)"
        by (auto simp: px_created_def)
      let ?t = "t\<lparr>ct_proxy_conn_map := add (ct_proxy_conn_map t) (getProxyID p) px\<rparr>"
      let ?s2 = "cput_tun tun ?t s1"
      have "ctun_ok s1 tun ?t"
        using cinvD(1) [OF s1(1,3)] s1(4-6) by (auto simp: ctun_ok_def map_lookup map_wf_add getProxyID_def split: if_splits)
      then have 2: "client_inv ?s2" "cheap_le s ?s2"
        using cput_tun_inv [OF s1(1,3), of ?t] cheap_le_trans [OF s1(2)] by auto
      have "client_keeps ?s2 (bind_outcome (createLocalConn pc0 peer0 env2 tun px ?s2) (\<lambda>(loc, s3).
                bind_outcome (ProxyMetaSetMsg (cl_client_id s3) tun_id (getProxyID p)) (\<lambda>body.
                bind_outcome (make_proxy_ctl_msg ProxyMetaSet body) (\<lambda>m.
                bind_outcome (deref cl_pxs px s3) (\<lambda>p3.
                let (ret, p4) = send_msg_dirct w m p3; s4 = cput_px px p4 s3
                in if ret = -1 then Ok s4 else client_start px loc s4)))))"
        by (rule start_session_keeps [OF 2(1) _ _ assms(3), of tun px p]) (use s1(4) body_msg_safe(10) in \<open>simp_all add: cput_tun_def\<close>)
      from cli.keeps_after [OF 2 this] s1(3,4) show "client_keeps s (?rest tun r)" by (simp add: r deref_def Let_def)
    qed
    with Some show ?thesis by simp
  qed
  then show ?thesis unfolding handleProxyNotify_def by (intro cli.keeps_value [OF body_msg_safe(7)])
qed

section \<open>Messages from the server\<close>

lemma handleNewCtlRsp_keeps:
  assumes "client_inv s"
  shows "client_keeps s (handleNewCtlRsp j msg s)"
proof -
  obtain c where c: "cl_ctl s = Some c" "obuf_ok (cc_out_buffer c)" using cinvD(7) [OF assms] by blast
  have "client_keeps s (reqNewTunnel j (s\<lparr>cl_ctl := Some (SetCtlId i c), cl_client_id := i\<rparr>))" for i
  proof -
    let ?s1 = "s\<lparr>cl_ctl := Some (SetCtlId i c)\<rparr>"
    have 1: "client_inv ?s1 \<and> cheap_le s ?s1"
      by (rule cside_fields_inv(4) [OF assms]) (use c(2) in \<open>simp add: SetCtlId_def\<close>)
    with cside_fields_inv(3) [of ?s1 i] have 2: "client_inv (?s1\<lparr>cl_client_id := i\<rparr>)" "cheap_le s (?s1\<lparr>cl_client_id := i\<rparr>)"
      using cheap_le_trans by blast+
    from cli.keeps_after [OF 2 creq_keeps(2) [OF 2(1)]] show ?thesis by simp
  qed
  then show ?thesis
    unfolding handleNewCtlRsp_def by (intro cli.keeps_value [OF body_msg_safe(7)]) (simp add: c(1))
qed

lemma handleNewTunnelRsp_keeps:
  assumes "client_inv s"
  shows "client_keeps s (handleNewTunnelRsp msg s)"
proof -
  have "client_inv (s2\<lparr>cl_tunnel_map := add (cl_tunnel_map s2) i (cl_next s)\<rparr>) \<and>
      cheap_le s (s2\<lparr>cl_tunnel_map := add (cl_tunnel_map s2) i (cl_next s)\<rparr>)"
    if s2: "s2 = cput_tun (cl_next s) (ClientTunnel_new i lh lp ph pp) (s\<lparr>cl_next := Suc (cl_next s)\<rparr>)" for s2 i lh lp ph pp
  proof -
    have new: "cl_tuns s (cl_next s) = None" using cinvD(5) [OF assms] by simp
    have le: "cheap_le s s2" using new by (auto simp: s2 cheap_le_def cput_defs)
    have t: "ctun_ok s2 (cl_next s) (ClientTunnel_new i lh lp ph pp)" by (simp add: ctun_ok_def ClientTunnel_new_def map_wf_def)
    have inv: "client_inv s2"
      by (rule client_inv_extend [OF assms le]) (use cinvD [OF assms] t in \<open>auto simp: s2 cput_defs split: if_splits\<close>)
    have "cl_tuns s2 (cl_next s) = Some (ClientTunnel_new i lh lp ph pp)" by (simp add: s2 cput_tun_def)
    with inv have "client_inv (s2\<lparr>cl_tunnel_map := add (cl_tunnel_map s2) i (cl_next s)\<rparr>)"
      by (auto simp: client_inv_def ctun_ok_def cpx_ok_def linked_def map_lookup map_wf_add ClientTunnel_new_def cong: option.case_cong)
    with le show ?thesis by (simp add: cheap_le_def)
  qed
  then show ?thesis
    unfolding handleNewTunnelRsp_def
    by (intro cli.keeps_value [OF body_msg_safe(7)]) (simp add: calloc_def Let_def keeps_def)
qed

lemma handleShutdownLocalConn_keeps:
  assumes "client_inv s"
  shows "client_keeps s (handleShutdownLocalConn j msg s)"
proof -
  have "client_keeps s (case map_of (cl_tunnel_map s) tun_id of
          None \<Rightarrow> Ok s
        | Some tun \<Rightarrow>
            bind_outcome (deref cl_tuns tun s) (\<lambda>t.
            case map_of (ct_proxy_conn_map t) pid of
              None \<Rightarrow> Ok s
            | Some px \<Rightarrow>
                bind_outcome (deref cl_pxs px s) (\<lambda>p.
                  shutdonwLocalConn j tun px (cput_px px (incrTheoreticalTotalRecvCount n p) s))))" for tun_id pid n
  proof (cases "map_of (cl_tunnel_map s) tun_id")
    case None
    then show ?thesis using cli.keeps_same [OF assms] by simp
  next
    case (Some tun)
    then obtain t where t: "cl_tuns s tun = Some t" using cinvD(6) [OF assms] by blast
    show ?thesis
    proof (cases "map_of (ct_proxy_conn_map t) pid")
      case None
      with Some t show ?thesis using cli.keeps_same [OF assms] by (simp add: deref_def)
    next
      case px: (Some px)
      then obtain p where p: "cl_pxs s px = Some p" using cinvD(1) [OF assms t] by (auto simp: ctun_ok_def)
      let ?p = "incrTheoreticalTotalRecvCount n p"
      have "cpx_ok s ?p"
        by (rule cpx_ok_frame [OF cinvD(2) [OF assms p]]) (simp_all add: incrTheoreticalTotalRecvCount_def)
      then have 1: "client_inv (cput_px px ?p s)" "cheap_le s (cput_px px ?p s)"
        using cput_px_inv [OF assms p, of ?p] by (simp_all add: incrTheoreticalTotalRecvCount_def)
      have "client_keeps (cput_px px ?p s) (shutdonwLocalConn j tun px (cput_px px ?p s))"
        by (rule shutdonwLocalConn_keeps [OF 1(1)]) (use t in \<open>simp_all add: cput_px_def\<close>)
      from cli.keeps_after [OF 1 this] Some t px p show ?thesis by (simp add: deref_def)
    qed
  qed
  then show ?thesis
    unfolding handleShutdownLocalConn_def
    by (intro cli.keeps_value [OF body_msg_safe(7)]) (simp add: Let_def)
qed

section \<open>Events\<close>

lemma LocalConn_keeps:
  assumes "client_inv s" "cl_locs s loc \<noteq> None"
  shows "client_keeps s (LocalConn_handleRead j w loc s)" and "client_keeps s (LocalConn_postHandle loc s)"
proof -
  obtain c where c: "cl_locs s loc = Some c" using assms(2) by auto
  obtain call out c' where r: "edge_handleRead w c = (call, out, c')" by (cases "edge_handleRead w c")
  have c': "ec_tun c' = ec_tun c" "conn_fd c' = conn_fd c" "peer_conn_fd c' = peer_conn_fd c" "ec_proxy_id c' = ec_proxy_id c"
    using r by (auto simp: edge_handleRead_def forward_defs Let_def split: prod.splits option.splits if_splits wr_resp.splits)
  have post: "ec_tun (edge_postHandle c) = ec_tun c" "conn_fd (edge_postHandle c) = conn_fd c"
    "peer_conn_fd (edge_postHandle c) = peer_conn_fd c" "ec_proxy_id (edge_postHandle c) = ec_proxy_id c"
    by (simp_all add: edge_postHandle_def rearm_def upd_chan_def split: option.split)
  let ?s1 = "cdeliver (peer_conn_fd c) out (cput_loc loc c' s)"
  have "client_inv (cput_loc loc c' s) \<and> cheap_le s (cput_loc loc c' s)"
    by (rule cput_loc_inv [OF assms(1) c c'])
  with cdeliver_inv have 1: "client_inv ?s1" "cheap_le s ?s1" using cheap_le_trans by blast+
  have "cl_tuns ?s1 (ec_tun c) \<noteq> None" by (rule cheap_leD(1) [OF 1(2) cinvD(4) [OF assms(1) c]])
  from cli.keeps_after [OF 1 Tunnel_shutdownFromLocal_keeps [OF 1(1) this]] 1
  show "client_keeps s (LocalConn_handleRead j w loc s)"
    by (simp add: LocalConn_handleRead_def deref_def c r Let_def keeps_def split: edge_call.split)
  show "client_keeps s (LocalConn_postHandle loc s)"
    using cput_loc_inv [OF assms(1) c post] by (simp add: LocalConn_postHandle_def deref_def c keeps_def)
qed

lemma client_proxy_read_keeps:
  assumes "client_inv s" "cl_pxs s px \<noteq> None" "connect_ok env"
  shows "client_keeps s (client_proxy_read j pc0 peer0 env w1 w2 px s)"
proof -
  obtain p where p: "cl_pxs s px = Some p" using assms(2) by auto
  have "client_keeps s (bind_outcome (ProxyConn_handleRead j w1 p) (\<lambda>(call, out, p').
     let s1 = cdeliver (peer_conn_fd p) out (cput_px px p' s)
     in case cl_px_tun s1 px of
          None \<Rightarrow> Ok s1
        | Some tun \<Rightarrow>
            (case call of
               NoCall \<Rightarrow> Ok s1
             | CloseLocalPeer \<Rightarrow> shutdonwLocalConn j tun px s1
             | ProxyMsg ty body \<Rightarrow>
                 (case ty of
                    StartProxyConnReq \<Rightarrow> handleStartProxyConnReq j pc0 peer0 env w2 tun body s1
                  | _ \<Rightarrow> Ok s1))))"
  proof (rule cli.keeps_value [OF ProxyConn_handleRead_safe], clarify)
    fix call out and p' :: proxy_conn
    assume p': "pc_out_buffer p' = pc_out_buffer p" "conn_fd p' = conn_fd p" "proxy_id p' = proxy_id p"
      "is_start p' = is_start p" "peerConn p' = peerConn p" "peer_conn_fd p' = peer_conn_fd p"
    let ?s1 = "cdeliver (peer_conn_fd p) out (cput_px px p' s)"
    have "cpx_ok s p'" by (rule cpx_ok_frame [OF cinvD(2) [OF assms(1) p]]) (use p' in simp_all)
    then have "client_inv (cput_px px p' s) \<and> cheap_le s (cput_px px p' s)"
      using cput_px_inv [OF assms(1) p p'(2,3)] by simp
    then have 1: "client_inv ?s1" "cheap_le s ?s1" using cdeliver_inv cheap_le_trans by blast+
    have px: "cl_pxs ?s1 px \<noteq> None" by (rule cheap_leD(2) [OF 1(2) assms(2)])
    note keeps1 = cli.keeps_same [OF 1(1)] shutdonwLocalConn_keeps [OF 1(1) _ px]
      handleStartProxyConnReq_keeps [OF 1(1) _ assms(3)]
    show "client_keeps s (let s1 = ?s1
     in case cl_px_tun s1 px of
          None \<Rightarrow> Ok s1
        | Some tun \<Rightarrow>
            (case call of
               NoCall \<Rightarrow> Ok s1
             | CloseLocalPeer \<Rightarrow> shutdonwLocalConn j tun px s1
             | ProxyMsg ty body \<Rightarrow>
                 (case ty of
                    StartProxyConnReq \<Rightarrow> handleStartProxyConnReq j pc0 peer0 env w2 tun body s1
                  | _ \<Rightarrow> Ok s1)))"
      unfolding Let_def
      by (rule cli.keeps_after [OF 1])
        (use keeps1 cinvD(3) [OF 1(1), of px] in \<open>auto split: proxy_call.split ProxyCtlMsgType.split option.split\<close>)
  qed
  then show ?thesis by (simp add: client_proxy_read_def deref_def p)
qed

lemma client_proxy_update:
  assumes "client_inv s" "cl_pxs s px = Some p"
    and "conn_fd p' = conn_fd p" "proxy_id p' = proxy_id p" "obuf_ok (pc_out_buffer p')"
    and "is_start p' = is_start p" "peerConn p' = peerConn p" "peer_conn_fd p' = peer_conn_fd p"
  shows "client_keeps s (Ok (cput_px px p' s))"
proof -
  have "cpx_ok s p'"
    using cinvD(2) [OF assms(1,2)] assms(3-8) by (auto simp: cpx_ok_def px_ok_def linked_def split: option.splits)
  with cput_px_inv [OF assms(1-4)] show ?thesis by (simp add: keeps_def)
qed

lemma client_proxy_write_keeps:
  assumes "client_inv s" "cl_pxs s px \<noteq> None"
  shows "client_keeps s (client_proxy_write px s)"
proof -
  obtain p where p: "cl_pxs s px = Some p" using assms(2) by auto
  have ok: "obuf_ok (pc_out_buffer p)" using cinvD(2) [OF assms(1) p] by (simp add: cpx_ok_def px_ok_def)
  have "client_keeps s (bind_outcome (ProxyConn_handleWrite p) (\<lambda>p'. Ok (cput_px px p' s)))"
    by (rule cli.keeps_value [OF ProxyConn_handleWrite_safe [OF ok]], rule client_proxy_update [OF assms(1) p]) simp_all
  then show ?thesis by (simp add: client_proxy_write_def deref_def p)
qed

lemma client_proxy_post_keeps:
  assumes "client_inv s" "cl_pxs s px \<noteq> None"
  shows "client_keeps s (client_proxy_post px s)"
proof -
  obtain p where p: "cl_pxs s px = Some p" using assms(2) by auto
  obtain b p' where post: "ProxyConn_postHandle p = (b, p')" by (cases "ProxyConn_postHandle p")
  have "client_keeps s (Ok (cput_px px p' s))"
    by (rule client_proxy_update [OF assms(1) p])
      (use ProxyConn_postHandle_frame [OF post] cinvD(2) [OF assms(1) p] in \<open>simp_all add: cpx_ok_def px_ok_def\<close>)
  then show ?thesis by (simp add: client_proxy_post_def deref_def p post)
qed

lemma client_ctl_read_keeps:
  assumes "client_inv s" "connect_ok env1" "connect_ok env2"
  shows "client_keeps s (client_ctl_read j pc0 peer0 env1 rnds env2 w s)"
proof -
  obtain c where c: "cl_ctl s = Some c" "obuf_ok (cc_out_buffer c)" using cinvD(7) [OF assms(1)] by blast
  have "client_keeps s (bind_outcome (CtlConn_handleRead j c) (\<lambda>(ev, c').
          let s1 = s\<lparr>cl_ctl := Some c'\<rparr>
          in case ev of
               None \<Rightarrow> Ok s1
             | Some (ty, body) \<Rightarrow>
                 (case ty of
                    NewCtlRsp \<Rightarrow> handleNewCtlRsp j body s1
                  | NewTunnelRsp \<Rightarrow> handleNewTunnelRsp body s1
                  | NotifyClientNeedProxy \<Rightarrow> handleProxyNotify j pc0 peer0 env1 rnds env2 w body s1
                  | NotifyProxyShutdownPeerConn \<Rightarrow> handleShutdownLocalConn j body s1
                  | _ \<Rightarrow> Ok s1)))"
  proof (rule cli.keeps_value [OF CtlConn_handleRead_safe], clarify)
    fix ev and c' :: ctl_conn
    assume c': "cc_out_buffer c' = cc_out_buffer c"
    let ?s1 = "s\<lparr>cl_ctl := Some c'\<rparr>"
    have 1: "client_inv ?s1" "cheap_le s ?s1" using cside_fields_inv(4) [OF assms(1), of c'] c' c(2) by simp_all
    note keeps1 = cli.keeps_same [OF 1(1)] handleNewCtlRsp_keeps [OF 1(1)] handleNewTunnelRsp_keeps [OF 1(1)]
      handleProxyNotify_keeps [OF 1(1) assms(2,3)] handleShutdownLocalConn_keeps [OF 1(1)]
    show "client_keeps s (let s1 = ?s1
          in case ev of
               None \<Rightarrow> Ok s1
             | Some (ty, body) \<Rightarrow>
                 (case ty of
                    NewCtlRsp \<Rightarrow> handleNewCtlRsp j body s1
                  | NewTunnelRsp \<Rightarrow> handleNewTunnelRsp body s1
                  | NotifyClientNeedProxy \<Rightarrow> handleProxyNotify j pc0 peer0 env1 rnds env2 w body s1
                  | NotifyProxyShutdownPeerConn \<Rightarrow> handleShutdownLocalConn j body s1
                  | _ \<Rightarrow> Ok s1))"
      unfolding Let_def
      by (rule cli.keeps_after [OF 1]) (use keeps1 in \<open>auto split: option.split CtlMsgType.split\<close>)
  qed
  then show ?thesis by (simp add: client_ctl_read_def c(1))
qed

lemma client_ctl_other_keeps:
  assumes "client_inv s"
  shows "client_keeps s (client_ctl_write s)" "client_keeps s (client_ctl_post s)"
proof -
  obtain c where c: "cl_ctl s = Some c" "obuf_ok (cc_out_buffer c)" using cinvD(7) [OF assms] by blast
  have "client_keeps s (bind_outcome (CtlConn_handleWrite c) (\<lambda>c'. Ok (s\<lparr>cl_ctl := Some c'\<rparr>)))"
    by (rule cli.keeps_value [OF CtlConn_handleWrite_safe [OF c(2)]]) (use cside_fields_inv(4) [OF assms] in \<open>simp add: keeps_def\<close>)
  then show "client_keeps s (client_ctl_write s)" by (simp add: client_ctl_write_def c(1))
  obtain b c' where post: "CtlConn_postHandle c = (b, c')" by (cases "CtlConn_postHandle c")
  have "client_keeps s (Ok (s\<lparr>cl_ctl := Some c'\<rparr>))"
    using cside_fields_inv(4) [OF assms, of c'] CtlConn_postHandle_frame [OF post] c(2) by (simp add: keeps_def)
  then show "client_keeps s (client_ctl_post s)"
    by (simp add: client_ctl_post_def c(1) post Let_def Client_handleCtlConnClose_def keeps_def)
qed

section \<open>Runs of the client\<close>

datatype client_event =
    ClCtlRead connect_env "(nat \<Rightarrow> nat) list" connect_env wr_resp
  | ClCtlWrite
  | ClCtlPost
  | ClProxyRead oid connect_env wr_resp wr_resp
  | ClProxyWrite oid
  | ClProxyPost oid
  | ClLocalRead oid wr_resp
  | ClLocalPost oid
  | ClCtlNet "rx_event list" "wr_resp list"      \<comment> \<open>the network: more input and write answers\<close>
  | ClProxyNet oid "rx_event list" "wr_resp list"
  | ClLocalNet oid "rx_event list"

fun client_step :: "junk \<Rightarrow> bool \<Rightarrow> int \<Rightarrow> client_event \<Rightarrow> client \<Rightarrow> client outcome" where
  "client_step j b n (ClCtlRead env1 rnds env2 w) s = client_ctl_read j b n env1 rnds env2 w s"
| "client_step j b n ClCtlWrite s = client_ctl_write s"
| "client_step j b n ClCtlPost s = client_ctl_post s"
| "client_step j b n (ClProxyRead px env w1 w2) s = client_proxy_read j b n env w1 w2 px s"
| "client_step j b n (ClProxyWrite px) s = client_proxy_write px s"
| "client_step j b n (ClProxyPost px) s = client_proxy_post px s"
| "client_step j b n (ClLocalRead loc w) s = LocalConn_handleRead j w loc s"
| "client_step j b n (ClLocalPost loc) s = LocalConn_postHandle loc s"
| "client_step j b n (ClCtlNet rx wr) s =
     (case cl_ctl s of None \<Rightarrow> Ub NullDeref
      | Some c \<Rightarrow> Ok (s\<lparr>cl_ctl := Some (c\<lparr>sock_rx := sock_rx c @ rx, sock_wr := sock_wr c @ wr\<rparr>)\<rparr>))"
| "client_step j b n (ClProxyNet px rx wr) s =
     bind_outcome (deref cl_pxs px s) (\<lambda>p. Ok (cput_px px (p\<lparr>sock_rx := sock_rx p @ rx, sock_wr := sock_wr p @ wr\<rparr>) s))"
| "client_step j b n (ClLocalNet loc rx) s =
     bind_outcome (deref cl_locs loc s) (\<lambda>c. Ok (cput_loc loc (c\<lparr>sock_rx := sock_rx c @ rx\<rparr>) s))"

text \<open>
  An event is enabled when its object exists and the connections its handler may open succeed: both
  handlers that open connections use the result without looking at it.
\<close>

fun client_enabled :: "client \<Rightarrow> client_event \<Rightarrow> bool" where
  "client_enabled s (ClCtlRead env1 rnds env2 w) \<longleftrightarrow> connect_ok env1 \<and> connect_ok env2"
| "client_enabled s (ClProxyRead px env w1 w2) \<longleftrightarrow> cl_pxs s px \<noteq> None \<and> connect_ok env"
| "client_enabled s (ClProxyWrite px) \<longleftrightarrow> cl_pxs s px \<noteq> None"
| "client_enabled s (ClProxyPost px) \<longleftrightarrow> cl_pxs s px \<noteq> None"
| "client_enabled s (ClLocalRead loc w) \<longleftrightarrow> cl_locs s loc \<noteq> None"
| "client_enabled s (ClLocalPost loc) \<longleftrightarrow> cl_locs s loc \<noteq> None"
| "client_enabled s (ClProxyNet px rx wr) \<longleftrightarrow> cl_pxs s px \<noteq> None"
| "client_enabled s (ClLocalNet loc rx) \<longleftrightarrow> cl_locs s loc \<noteq> None"
| "client_enabled s _ \<longleftrightarrow> True"

lemma client_step_keeps:
  assumes "client_inv s" "client_enabled s e"
  shows "client_keeps s (client_step j b n e s)"
proof (cases e)
  case (ClCtlNet rx wr)
  obtain c where c: "cl_ctl s = Some c" "obuf_ok (cc_out_buffer c)" using cinvD(7) [OF assms(1)] by blast
  with ClCtlNet cside_fields_inv(4) [OF assms(1)] show ?thesis by (simp add: keeps_def)
next
  case (ClProxyNet px rx wr)
  then obtain p where p: "cl_pxs s px = Some p" using assms(2) by auto
  with client_proxy_update [OF assms(1) p] cinvD(2) [OF assms(1) p] ClProxyNet show ?thesis
    by (simp add: deref_def cpx_ok_def px_ok_def)
next
  case (ClLocalNet loc rx)
  then obtain c where c: "cl_locs s loc = Some c" using assms(2) by auto
  with ClLocalNet cput_loc_inv [OF assms(1) c] show ?thesis by (simp add: deref_def keeps_def)
qed (use assms in \<open>simp_all add: client_ctl_read_keeps client_ctl_other_keeps client_proxy_read_keeps
    client_proxy_write_keeps client_proxy_post_keeps LocalConn_keeps\<close>)

inductive client_reach :: "client \<Rightarrow> client \<Rightarrow> bool" for s0 where
  cli_init: "client_reach s0 s0"
| cli_step: "client_reach s0 s \<Longrightarrow> client_enabled s e \<Longrightarrow> client_step j b n e s = Ok s' \<Longrightarrow> client_reach s0 s'"

lemma client_reach_inv: "client_reach s0 s \<Longrightarrow> client_inv s0 \<Longrightarrow> client_inv s"
proof (induction rule: client_reach.induct)
  case (cli_step s e j b n s')
  then show ?case using client_step_keeps [of s e j b n] by (simp add: keeps_def)
qed simp

lemma Client_start_inv:
  assumes "Client_start j pc0 env (Client_new thr ph pp lh lp) = Ok s"
  shows "client_inv s"
proof -
  obtain s1 where s1: "initCtlConn j pc0 env ((Client_new thr ph pp lh lp)\<lparr>cl_pool := pool_start (cl_pool (Client_new thr ph pp lh lp))\<rparr>) = Ok s1"
    "reqNewCtl j s1 = Ok s"
    using assms by (auto simp: Client_start_def bind_outcome_Ok_iff)
  have "client_inv s1"
    using s1(1) by (auto simp: initCtlConn_def Client_new_def client_inv_def map_wf_def AddConn_def CtlConn_new_def Let_def split: if_splits)
  from creq_keeps(1) [OF this, of j] s1(2) show ?thesis by (simp add: keeps_def)
qed

section \<open>Properties\<close>


definition demo_connect :: "int \<Rightarrow> connect_env" where
  "demo_connect fd = \<lparr>inet_addr_ret = 1, gethostbyname_ret = None, csocket_ret = fd, connect_ret = 0\<rparr>"


end
