(* ===== verification/CProxy_Session.thy ===== *)
theory CProxy_Session
  imports CProxy_ServerInv CProxy_ClientInv
begin

text \<open>
  Server and client together: how a public connection becomes a running session. The lemmas follow
  the messages from one program to the other; the property composes them.
\<close>

section \<open>The server asks for a proxy connection\<close>

lemma CtlConn_SendMsg_room:
  assumes "obuf_ok (cc_out_buffer c)" "length d \<le> 2048" "capacity (cc_out_buffer c) + int (8 + length d) \<le> 65536"
  shows "\<exists>m c'. MakeCtlMsg ty d = Ok m \<and> CtlConn_SendMsg j m c = Ok c' \<and>
     contents (cc_out_buffer c') = contents (cc_out_buffer c) @ wire_frame (CtlMsgType_code ty) d \<and>
     obuf_ok (cc_out_buffer c')"
  using CtlConn_SendMsg_queues [of c d ty j] assms by (fastforce simp: obuf_ok_def)

lemma accept_notifies:
  assumes "server_inv s" "sv_tuns s tun = Some t" "st_free t = []" "sv_ctls s (st_ctl t) = Some k"
    and "id_ok (st_tun_id t)" "0 < fd" "capacity (cc_out_buffer (k_conn k)) + 24 \<le> 65536"
  shows "\<exists>c body. newPublicConnHandler j tun [fd, -1] s =
       Ok (put_ctl (st_ctl t) (k\<lparr>k_conn := c\<rparr>) (put_tun tun (t\<lparr>st_undeal := st_undeal t @ [fd]\<rparr>) s)) \<and>
     contents (cc_out_buffer c) = contents (cc_out_buffer (k_conn k)) @ wire_frame (CtlMsgType_code NotifyClientNeedProxy) body \<and>
     length body = 16 \<and> cstr_at body 0 = Ok (st_tun_id t) \<and> get_u32 body 12 = word_of_int (sv_proxyPort s)"
proof -
  obtain body where body: "NotifyClientNeedProxyMsg j (st_tun_id t) (word_of_int (sv_proxyPort s)) = Ok body"
      "length body = 16" "cstr_at body 0 = Ok (st_tun_id t)" "get_u32 body 12 = word_of_int (sv_proxyPort s)"
    using NotifyClientNeedProxyMsg_fields [OF assms(5)] by blast
  have ok: "obuf_ok (cc_out_buffer (k_conn k))" using invD(1) [OF assms(1,4)] by (simp add: ctl_ok_def)
  obtain m c where c: "MakeCtlMsg NotifyClientNeedProxy body = Ok m" "CtlConn_SendMsg j m (k_conn k) = Ok c"
      "contents (cc_out_buffer c) = contents (cc_out_buffer (k_conn k)) @ wire_frame (CtlMsgType_code NotifyClientNeedProxy) body"
    using CtlConn_SendMsg_room [OF ok, of body NotifyClientNeedProxy j] body(2) assms(7) by auto
  have "newPublicConnHandler j tun [fd, -1] s =
       Ok (put_ctl (st_ctl t) (k\<lparr>k_conn := c\<rparr>) (put_tun tun (t\<lparr>st_undeal := st_undeal t @ [fd]\<rparr>) s))"
    using assms(2-4,6) body(1) c(1,2)
    by (simp add: deref_def popFreeProxyConn_def notifyClientNeedProxy_def send_ctl_def put_defs)
  with c(3) body show ?thesis by blast
qed

section \<open>The client connects\<close>

lemma client_reads_notify:
  assumes "cl_ctl s = Some c" "rx_data (sock_rx c) = wire_frame (CtlMsgType_code NotifyClientNeedProxy) body @ rest"
    and "length body = 16"
  shows "\<exists>q. client_ctl_read j b n env1 rnds env2 w s =
     handleProxyNotify j b n env1 rnds env2 w body (s\<lparr>cl_ctl := Some (c\<lparr>sock_rx := q\<rparr>)\<rparr>) \<and> rx_data q = rest"
proof -
  obtain q where "CtlConn_handleRead j c = Ok (Some (NotifyClientNeedProxy, body), c\<lparr>sock_rx := q\<rparr>)" "rx_data q = rest"
    using CtlConn_handleRead_wire [OF assms(2), of j] assms(3) by (auto simp: sizeof_defs)
  with assms(1) show ?thesis by (auto simp: client_ctl_read_def Let_def)
qed

lemma handleProxyNotify_connects:
  assumes "cstr_at msg 0 = Ok tid" "map_of (cl_tunnel_map s) tid = Some tun" "cl_tuns s tun = Some t"
    and "fst (tcp_connect env1 (get_u32 msg 12)) = fd1" "0 < fd1"
    and "fst (tcp_connect env2 (ct_local_server_port t)) = fd2" "0 < fd2"
    and "PickRandThread (cl_pool s) = Ok (th, pool')"
    and "\<not> isExist (ct_proxy_conn_map t) (rand_str r 5)"
    and "id_ok (cl_client_id s)" "id_ok tid" "38 \<le> k"
  shows "\<exists>s' p l body. handleProxyNotify j b n env1 (r # rnds) env2 (Accept k) msg s = Ok s' \<and>
     ProxyMetaSetMsg (cl_client_id s) tid (rand_str r 5) = Ok body \<and> length body = 30 \<and>
     cl_pxs s' (cl_next s) = Some p \<and> is_start p \<and> conn_fd p = fd1 \<and> peer_conn_fd p = fd2 \<and>
     proxy_id p = rand_str r 5 \<and> sock_tx p = wire_frame (ProxyCtlMsgType_code ProxyMetaSet) body \<and>
     cl_locs s' (Suc (cl_next s)) = Some l \<and> conn_fd l = fd2 \<and> peer_conn_fd l = fd1 \<and>
     armed l = Some (EPOLLET OR EPOLLIN OR EPOLLRDHUP) \<and>
     cl_tuns s' tun = Some (t\<lparr>ct_proxy_conn_map := add (ct_proxy_conn_map t) (rand_str r 5) (cl_next s)\<rparr>)"
proof -
  have pid: "id_ok (rand_str r 5)" using rand_str_id [of r] by (simp add: id_ok_def)
  obtain body where body: "ProxyMetaSetMsg (cl_client_id s) tid (rand_str r 5) = Ok body" "length body = 30"
    using ProxyMetaSetMsg_fields [OF assms(10,11) pid] by blast
  obtain m where m: "make_proxy_ctl_msg ProxyMetaSet body = Ok m"
    using proxy_wire [of body ProxyMetaSet] body(2) by auto
  have send: "send_msg_dirct (Accept k) m q = (0, q\<lparr>sock_tx := sock_tx q @ wire_frame (ProxyCtlMsgType_code ProxyMetaSet) body\<rparr>)" for q
    by (rule send_msg_dirct_complete [OF _ _ m]) (use body(2) assms(12) in simp_all)
  show ?thesis
    using assms(1-9) body m
    by (simp add: handleProxyNotify_def createProxyConn_def createLocalConn_def deref_def cput_defs
        getValidProxyID_def client_start_def ProxyConn_start_def AddConn_def counter_defs setProxyID_def getProxyID_def
        ProxyConn_new_def edge_conn_new_def TranConn_new_def tran_conn.defs edge_conn.defs proxy_conn.defs upd_chan_def
        Channel_new_def SetEvents_def SetNeedCloseWhenDelete_def Let_def send)
qed

section \<open>The server binds it\<close>

lemma proxy_accept:
  assumes "0 < fd" "PickRandThread (sv_pool s) = Ok (th, pool')" "length (sv_unclaimed s) = 4"
  shows "\<exists>s'. newProxyConnHandler j b n [fd, -1] s = Ok s' \<and>
     s' = put_px (sv_next s) (AddConn (ProxyConn_new j b b n fd th))
       (s\<lparr>sv_pool := pool', sv_next := Suc (sv_next s),
          sv_unclaimed := (sv_unclaimed s)[nat (fd mod 4) := add (sv_unclaimed s ! nat (fd mod 4)) fd (sv_next s)]\<rparr>)"
  using assms shard_index [OF assms(1)]
  by (simp add: on_unclaimed_def put_defs Let_def)


lemma proxy_claim_read:
  assumes "sv_pxs s px = Some p" "\<not> is_start p" "0 < conn_fd p" "length (sv_unclaimed s) = 4"
    and "rx_data (sock_rx p) = wire_frame (ProxyCtlMsgType_code ProxyMetaSet) body"
    and "ProxyMetaSetMsg cid tid pid = Ok body" "id_ok cid" "id_ok tid" "id_ok pid"
    and "map_of (sv_control_map s) cid = Some ctl" "sv_ctls s ctl = Some k" "map_of (k_tunnel_map k) tid = Some tun"
    and "sv_tuns s tun = Some t" "st_undeal t = us @ [fd]"
  shows "\<exists>s' p' c' t'. server_proxy_read j b n w px s = Ok s' \<and>
     sv_pxs s' px = Some p' \<and> is_start p' \<and> proxy_id p' = pid \<and> peer_conn_fd p' = fd \<and>
     sv_pubs s' (sv_next s) = Some c' \<and> conn_fd c' = fd \<and> peer_conn_fd c' = conn_fd p \<and> ec_proxy_id c' = pid \<and>
     sv_tuns s' tun = Some t' \<and> st_undeal t' = us \<and> st_proxy_conn_map t' = add (st_proxy_conn_map t) pid px \<and>
     sv_unclaimed s' = (sv_unclaimed s)[nat (conn_fd p mod 4) := erase (sv_unclaimed s ! nat (conn_fd p mod 4)) (conn_fd p)]"
proof -
  have body: "length body = 30" "cstr_at body 0 = Ok cid" "cstr_at body 10 = Ok tid" "cstr_at body 20 = Ok pid"
    using ProxyMetaSetMsg_fields [OF assms(7-9)] assms(6) by auto
  obtain q where r: "ProxyConn_handleRead j w p = Ok (ProxyMsg ProxyMetaSet body, [], p\<lparr>sock_rx := q\<rparr>)"
    using ProxyConn_handleRead_wire [OF assms(2), of ProxyMetaSet body "[]" j w] assms(5) body(1) by (auto simp: sizeof_defs)
  let ?s1 = "deliver (peer_conn_fd p) [] (put_px px (p\<lparr>sock_rx := q\<rparr>) s)"
  have px1: "sv_pxs ?s1 px = Some (p\<lparr>sock_rx := q\<rparr>)"
    by (simp add: deliver_def put_px_def receive_on_def)
  have same: "sv_control_map ?s1 = sv_control_map s" "sv_ctls ?s1 = sv_ctls s" "sv_tuns ?s1 = sv_tuns s"
      "sv_unclaimed ?s1 = sv_unclaimed s" "sv_next ?s1 = sv_next s"
    by (simp_all add: deliver_def put_px_def)
  from claim_binds [of ?s1 cid ctl k tid tun t us fd px "p\<lparr>sock_rx := q\<rparr>" body pid b n] same px1 assms body
  obtain s' p' c' t' where "Server_claimProxyConn b n body px ?s1 = Ok s'"
     "sv_pxs s' px = Some p' \<and> is_start p' \<and> proxy_id p' = pid \<and> peer_conn_fd p' = fd \<and>
     sv_pubs s' (sv_next s) = Some c' \<and> conn_fd c' = fd \<and> peer_conn_fd c' = conn_fd p \<and> ec_proxy_id c' = pid \<and>
     sv_tuns s' tun = Some t' \<and> st_undeal t' = us \<and> st_proxy_conn_map t' = add (st_proxy_conn_map t) pid px \<and>
     sv_unclaimed s' = (sv_unclaimed s)[nat (conn_fd p mod 4) := erase (sv_unclaimed s ! nat (conn_fd p mod 4)) (conn_fd p)]"
    by auto
  with r assms(1) show ?thesis by (simp add: server_proxy_read_def deref_def Let_def)
qed

section \<open>Properties\<close>

text \<open>C3. Opening a session end to end: a public connection accepted by a tunnel without idle proxy
  connections makes the server queue a request on the control connection; whatever pieces the
  request arrives in, the client connects to the proxy port and to the local server, registers the
  new connection under a fresh id, sends its identity and starts forwarding; when the server has
  accepted the connection and receives that identity, it binds the connection to the waiting public
  descriptor under the same id. Then public descriptor, server proxy connection, client proxy
  connection and local descriptor are linked in both directions.\<close>
theorem session_established:
  assumes inv: "server_inv s" and t: "sv_tuns s tun = Some t" "st_free t = []" and k: "sv_ctls s (st_ctl t) = Some k"
    and maps: "map_of (sv_control_map s) cid = Some (st_ctl t)" "map_of (k_tunnel_map k) tid = Some tun"
    and room: "capacity (cc_out_buffer (k_conn k)) + 24 \<le> 65536" and fds: "0 < fd" "0 < pfd"
    and pool: "PickRandThread (sv_pool s) = Ok (th, pool')"
    and ids: "id_ok cid" "id_ok tid"
    and cl: "cl_ctl c = Some cc" "cl_client_id c = cid" "map_of (cl_tunnel_map c) tid = Some ctun" "cl_tuns c ctun = Some ct"
    and cn: "fst (tcp_connect envp (word_of_int (sv_proxyPort s))) = fdp" "0 < fdp"
      "fst (tcp_connect envl (ct_local_server_port ct)) = fdl" "0 < fdl"
      "PickRandThread (cl_pool c) = Ok (cth, cpool)" "\<not> isExist (ct_proxy_conn_map ct) (rand_str r 5)" "38 \<le> acc"
  shows "\<exists>s1 k1 wire. newPublicConnHandler j tun [fd, -1] s = Ok s1 \<and> sv_ctls s1 (st_ctl t) = Some k1 \<and>
     contents (cc_out_buffer (k_conn k1)) = contents (cc_out_buffer (k_conn k)) @ wire \<and>
     (\<forall>q. rx_data q = wire \<longrightarrow>
        (\<exists>c1 p l s2. client_ctl_read j b n envp (r # rnds) envl (Accept acc) (c\<lparr>cl_ctl := Some (cc\<lparr>sock_rx := q\<rparr>)\<rparr>) = Ok c1 \<and>
           cl_pxs c1 (cl_next c) = Some p \<and> is_start p \<and> conn_fd p = fdp \<and> peer_conn_fd p = fdl \<and>
           cl_locs c1 (Suc (cl_next c)) = Some l \<and> conn_fd l = fdl \<and> peer_conn_fd l = fdp \<and>
           newProxyConnHandler j b n [pfd, -1] s1 = Ok s2 \<and>
           (\<forall>q'. rx_data q' = sock_tx p \<longrightarrow>
              (\<exists>s3 p' pub t'. server_proxy_read j b n w (sv_next s)
                   (put_px (sv_next s) ((AddConn (ProxyConn_new j b b n pfd th))\<lparr>sock_rx := q'\<rparr>) s2) = Ok s3 \<and>
                 sv_pxs s3 (sv_next s) = Some p' \<and> is_start p' \<and> peer_conn_fd p' = fd \<and> proxy_id p' = proxy_id p \<and>
                 sv_pubs s3 (Suc (sv_next s)) = Some pub \<and> conn_fd pub = fd \<and> peer_conn_fd pub = pfd \<and>
                 sv_tuns s3 tun = Some t' \<and> st_undeal t' = st_undeal t))))"
proof -
  have tid: "st_tun_id t = tid" using invD(1) [OF inv k] maps(2) t(1) unfolding ctl_ok_def by force
  have four: "length (sv_unclaimed s) = 4" using inv by (simp add: server_inv_def)
  obtain ck body where n1: "newPublicConnHandler j tun [fd, -1] s =
       Ok (put_ctl (st_ctl t) (k\<lparr>k_conn := ck\<rparr>) (put_tun tun (t\<lparr>st_undeal := st_undeal t @ [fd]\<rparr>) s))" (is "_ = Ok ?s1")
     "contents (cc_out_buffer ck) = contents (cc_out_buffer (k_conn k)) @ wire_frame (CtlMsgType_code NotifyClientNeedProxy) body"
     "length body = 16" "cstr_at body 0 = Ok tid" "get_u32 body 12 = word_of_int (sv_proxyPort s)"
    using accept_notifies [OF inv t k _ fds(1) room] ids(2) tid by metis
  obtain s2 where s2: "newProxyConnHandler j b n [pfd, -1] ?s1 = Ok s2"
     "s2 = put_px (sv_next ?s1) (AddConn (ProxyConn_new j b b n pfd th))
       (?s1\<lparr>sv_pool := pool', sv_next := Suc (sv_next ?s1),
          sv_unclaimed := (sv_unclaimed ?s1)[nat (pfd mod 4) := add (sv_unclaimed ?s1 ! nat (pfd mod 4)) pfd (sv_next ?s1)]\<rparr>)"
    using proxy_accept [OF fds(2), of ?s1 th pool'] pool four by (auto simp: put_defs)
  have client: "\<exists>c1 p l body'. client_ctl_read j b n envp (r # rnds) envl (Accept acc) (c\<lparr>cl_ctl := Some (cc\<lparr>sock_rx := q\<rparr>)\<rparr>) = Ok c1 \<and>
       ProxyMetaSetMsg cid tid (rand_str r 5) = Ok body' \<and>
       cl_pxs c1 (cl_next c) = Some p \<and> is_start p \<and> conn_fd p = fdp \<and> peer_conn_fd p = fdl \<and>
       proxy_id p = rand_str r 5 \<and> sock_tx p = wire_frame (ProxyCtlMsgType_code ProxyMetaSet) body' \<and>
       cl_locs c1 (Suc (cl_next c)) = Some l \<and> conn_fd l = fdl \<and> peer_conn_fd l = fdp"
    if q: "rx_data q = wire_frame (CtlMsgType_code NotifyClientNeedProxy) body" for q
  proof -
    obtain q1 where "client_ctl_read j b n envp (r # rnds) envl (Accept acc) (c\<lparr>cl_ctl := Some (cc\<lparr>sock_rx := q\<rparr>)\<rparr>) =
        handleProxyNotify j b n envp (r # rnds) envl (Accept acc) body (c\<lparr>cl_ctl := Some (cc\<lparr>sock_rx := q1\<rparr>)\<rparr>)"
      using client_reads_notify [of "c\<lparr>cl_ctl := Some (cc\<lparr>sock_rx := q\<rparr>)\<rparr>" "cc\<lparr>sock_rx := q\<rparr>" body "[]" j b n envp "r # rnds" envl "Accept acc"] q n1(3) by auto
    with handleProxyNotify_connects [of body tid "c\<lparr>cl_ctl := Some (cc\<lparr>sock_rx := q1\<rparr>)\<rparr>" ctun ct envp fdp envl fdl cth cpool r acc j b n rnds]
      n1(4,5) cl cn ids show ?thesis by auto
  qed
  have pid: "id_ok (rand_str r 5)" using rand_str_id [of r] by (simp add: id_ok_def)
  have server: "\<exists>s3 p' pub t'. server_proxy_read j b n w (sv_next s)
         (put_px (sv_next s) ((AddConn (ProxyConn_new j b b n pfd th))\<lparr>sock_rx := q'\<rparr>) s2) = Ok s3 \<and>
       sv_pxs s3 (sv_next s) = Some p' \<and> is_start p' \<and> peer_conn_fd p' = fd \<and> proxy_id p' = rand_str r 5 \<and>
       sv_pubs s3 (Suc (sv_next s)) = Some pub \<and> conn_fd pub = fd \<and> peer_conn_fd pub = pfd \<and>
       sv_tuns s3 tun = Some t' \<and> st_undeal t' = st_undeal t"
    if q': "rx_data q' = wire_frame (ProxyCtlMsgType_code ProxyMetaSet) body'" "ProxyMetaSetMsg cid tid (rand_str r 5) = Ok body'" for q' body'
  proof -
    let ?p = "(AddConn (ProxyConn_new j b b n pfd th))\<lparr>sock_rx := q'\<rparr>" and ?s3 = "put_px (sv_next s) ((AddConn (ProxyConn_new j b b n pfd th))\<lparr>sock_rx := q'\<rparr>) s2"
    have p: "\<not> is_start ?p" "conn_fd ?p = pfd" "sock_rx ?p = q'"
      by (simp_all add: AddConn_def ProxyConn_new_def TranConn_new_def tran_conn.defs proxy_conn.defs)
    have s3: "sv_pxs ?s3 (sv_next s) = Some ?p" "length (sv_unclaimed ?s3) = 4" "sv_control_map ?s3 = sv_control_map s"
        "sv_ctls ?s3 (st_ctl t) = Some (k\<lparr>k_conn := ck\<rparr>)" "sv_tuns ?s3 tun = Some (t\<lparr>st_undeal := st_undeal t @ [fd]\<rparr>)"
        "sv_next ?s3 = Suc (sv_next s)"
      using four by (simp_all add: s2(2) put_defs)
    from proxy_claim_read [of ?s3 "sv_next s" ?p body' cid tid "rand_str r 5" "st_ctl t" "k\<lparr>k_conn := ck\<rparr>" tun
        "t\<lparr>st_undeal := st_undeal t @ [fd]\<rparr>" "st_undeal t" fd j b n w] s3 p q' ids pid maps fds
    show ?thesis by auto
  qed
  show ?thesis
    by (rule exI [of _ ?s1], rule exI [of _ "k\<lparr>k_conn := ck\<rparr>"],
        rule exI [of _ "wire_frame (CtlMsgType_code NotifyClientNeedProxy) body"])
      (use n1(1,2) s2(1) client server in \<open>fastforce simp: put_ctl_def\<close>)
qed


definition demo_conn_env :: "int \<Rightarrow> connect_env" where
  "demo_conn_env fd = \<lparr>inet_addr_ret = 1, gethostbyname_ret = None, csocket_ret = fd, connect_ret = 0\<rparr>"

definition demo_client :: client where
  "demo_client = (Client_new 1 [49] 8080 [50] 7777)
     \<lparr>cl_pool := pool_start (EventLoopThreadPool_new 1), cl_client_id := [67], cl_tunnel_map := [([84], 0)],
      cl_ctl := Some (CtlConn_new (\<lambda>_. 0) False False 6),
      cl_tuns := [0 \<mapsto> ClientTunnel_new [84] [50] 7777 [49] 9000], cl_next := 1\<rparr>"

definition waiting_server :: server where
  "waiting_server = demo_server\<lparr>sv_tuns := [1 \<mapsto> demo_tunnel\<lparr>st_free := []\<rparr>]\<rparr>"

lemma waiting_server_inv: "server_inv waiting_server"
  by (auto simp: waiting_server_def demo_server_def demo_tunnel_def server_inv_def ctl_ok_def tun_ok_def px_ok_def
      shard_ok_def Control_new_def SetCtlId_def CtlConn_new_def AddConn_def demo_proxy_def ProxyConn_new_def
      TranConn_new_def tran_conn.defs proxy_conn.defs Tunnel_new_def map_wf_def Let_def nth_Cons' split: if_splits)

theorem session_established_witness:
  "\<exists>s1 k1 wire. newPublicConnHandler (\<lambda>_. 0) 1 [30, -1] waiting_server = Ok s1 \<and> sv_ctls s1 0 = Some k1 \<and>
     contents (cc_out_buffer (k_conn k1)) = wire \<and>
     (\<forall>q. rx_data q = wire \<longrightarrow>
        (\<exists>c1 p. client_ctl_read (\<lambda>_. 0) False 0 (demo_conn_env 11) [\<lambda>_. 7] (demo_conn_env 12) (Accept 100)
           (demo_client\<lparr>cl_ctl := Some ((CtlConn_new (\<lambda>_. 0) False False 6)\<lparr>sock_rx := q\<rparr>)\<rparr>) = Ok c1 \<and>
           cl_pxs c1 1 = Some p \<and> is_start p))"
proof -
  let ?t = "demo_tunnel\<lparr>st_free := []\<rparr>" and ?k = "(Control_new (\<lambda>_. 0) False 5 [67])\<lparr>k_tunnel_map := [([84], 1)]\<rparr>"
    and ?ct = "ClientTunnel_new [84] [50] 7777 [49] 9000"
  have ctl: "st_ctl ?t = 0" "contents (cc_out_buffer (k_conn ?k)) = []"
    by (simp_all add: demo_tunnel_def Tunnel_new_def Let_def Control_new_def SetCtlId_def CtlConn_new_def AddConn_def
        Buffer_new_def contents_def GetUnreadSize_def)
  have s: "sv_tuns waiting_server 1 = Some ?t" "st_free ?t = []" "sv_ctls waiting_server (st_ctl ?t) = Some ?k"
      "map_of (sv_control_map waiting_server) [67] = Some (st_ctl ?t)" "map_of (k_tunnel_map ?k) [84] = Some 1"
      "capacity (cc_out_buffer (k_conn ?k)) + 24 \<le> 65536" "(0 :: int) < 30" "(0 :: int) < 9"
      "PickRandThread (sv_pool waiting_server) = Ok (0, (sv_pool waiting_server)\<lparr>next_work_thread_Idx := 0\<rparr>)"
    unfolding ctl
    by (simp_all add: waiting_server_def demo_server_def PickRandThread_def
        pool_start_def EventLoopThreadPool_new_def Control_new_def SetCtlId_def CtlConn_new_def AddConn_def Buffer_new_def)
  have c: "cl_ctl demo_client = Some (CtlConn_new (\<lambda>_. 0) False False 6)" "cl_client_id demo_client = [67]"
      "map_of (cl_tunnel_map demo_client) [84] = Some 0" "cl_tuns demo_client 0 = Some ?ct" "cl_next demo_client = 1"
      "PickRandThread (cl_pool demo_client) = Ok (0, (cl_pool demo_client)\<lparr>next_work_thread_Idx := 0\<rparr>)"
      "\<not> isExist (ct_proxy_conn_map ?ct) (rand_str (\<lambda>_. 7) 5)"
    by (simp_all add: demo_client_def Client_new_def PickRandThread_def pool_start_def EventLoopThreadPool_new_def
        ClientTunnel_new_def isExist_def)
  have e: "fst (tcp_connect (demo_conn_env 11) port) = 11" "(0 :: int) < 11"
      "fst (tcp_connect (demo_conn_env 12) port) = 12" "(0 :: int) < 12" "38 \<le> (100 :: nat)" for port
    by (simp_all add: tcp_connect_def demo_conn_env_def INADDR_NONE_def)
  have ids: "id_ok [67]" "id_ok [84]" by (simp_all add: id_ok_def is_cstr_def)
  note main = session_established [where rnds = "[]" and j = "\<lambda>_. 0" and b = False and n = 0 and acc = 100 and r = "\<lambda>_. 7" and w = "Accept 1",
      OF waiting_server_inv s ids c(1-4) e(1-4) c(6,7) e(5)]
  from main show ?thesis
    unfolding ctl c(5) append_Nil
    apply (elim exE conjE)
    subgoal for s1 k1 wire
      apply (rule exI [of _ s1], rule exI [of _ k1], rule exI [of _ wire])
      apply (intro conjI, assumption, assumption, assumption, intro allI impI)
      apply (drule spec, drule (1) mp, elim exE conjE)
      subgoal for q c1 p l s2 by (intro exI conjI) assumption+
      done
    done
qed

text \<open>C40. The exception is real: neither result of the two connections is looked at, so when the server
  announces a visitor and the proxy port or the local server does not accept the connection, the client
  dereferences a null pointer.\<close>
theorem failed_connect_derefs_null:
  assumes "cl_ctl s = Some c" "rx_data (sock_rx c) = wire_frame (CtlMsgType_code NotifyClientNeedProxy) body @ rest" "length body = 16"
    and "cstr_at body 0 = Ok tid" "map_of (cl_tunnel_map s) tid = Some tun" "cl_tuns s tun = Some t"
    and "PickRandThread (cl_pool s) = Ok (th, pool')" "\<not> isExist (ct_proxy_conn_map t) (rand_str r 5)"
    and "id_ok (cl_client_id s)" "id_ok tid" "38 \<le> k" and down: "\<not> connect_ok env1 \<or> \<not> connect_ok env2"
  shows "client_ctl_read j b n env1 (r # rnds) env2 (Accept k) s = Ub NullDeref"
proof -
  obtain q where q: "client_ctl_read j b n env1 (r # rnds) env2 (Accept k) s =
     handleProxyNotify j b n env1 (r # rnds) env2 (Accept k) body (s\<lparr>cl_ctl := Some (c\<lparr>sock_rx := q\<rparr>)\<rparr>)"
    using client_reads_notify [OF assms(1-3)] by blast
  have pid: "id_ok (rand_str r 5)" using rand_str_id [of r] by (simp add: id_ok_def)
  obtain mb where mb: "ProxyMetaSetMsg (cl_client_id s) tid (rand_str r 5) = Ok mb" "length mb = 30"
    using ProxyMetaSetMsg_fields [OF assms(9,10) pid] by blast
  obtain m where m: "make_proxy_ctl_msg ProxyMetaSet mb = Ok m"
    using proxy_wire [of mb ProxyMetaSet] mb(2) by auto
  have send: "send_msg_dirct (Accept k) m p = (0, p\<lparr>sock_tx := sock_tx p @ wire_frame (ProxyCtlMsgType_code ProxyMetaSet) mb\<rparr>)" for p
    by (rule send_msg_dirct_complete [OF _ _ m]) (use mb(2) assms(11) in simp_all)
  have fail: "fst (tcp_connect env port) \<le> 0 \<longleftrightarrow> \<not> connect_ok env" for env port
    using connect_ok_iff [of env port] by linarith
  show ?thesis
    unfolding q using assms(4-8) down mb(1) m
    by (auto simp: handleProxyNotify_def createProxyConn_def createLocalConn_def deref_def cput_defs fail
        getValidProxyID_def client_start_def setProxyID_def getProxyID_def Let_def send)
qed

theorem failed_connect_derefs_null_witness:
  "\<exists>body. NotifyClientNeedProxyMsg (\<lambda>_. 0) [84] 8089 = Ok body \<and>
     client_ctl_read (\<lambda>_. 0) False 0 (demo_connect 11) [\<lambda>_. 7] (demo_connect 0) (Accept 100)
       (demo_client\<lparr>cl_ctl := Some ((CtlConn_new (\<lambda>_. 0) False False 6)\<lparr>sock_rx := [Chunk (wire_frame (CtlMsgType_code NotifyClientNeedProxy) body)]\<rparr>)\<rparr>) =
     Ub NullDeref"
proof -
  obtain body where body: "NotifyClientNeedProxyMsg (\<lambda>_. 0) [84] 8089 = Ok body" "length body = 16" "cstr_at body 0 = Ok [84]"
    using NotifyClientNeedProxyMsg_fields [of "[84]" "\<lambda>_. 0" 8089] by (auto simp: id_ok_def is_cstr_def)
  show ?thesis
  proof (intro exI conjI)
    show "NotifyClientNeedProxyMsg (\<lambda>_. 0) [84] 8089 = Ok body" by (rule body)
    show "client_ctl_read (\<lambda>_. 0) False 0 (demo_connect 11) [\<lambda>_. 7] (demo_connect 0) (Accept 100)
       (demo_client\<lparr>cl_ctl := Some ((CtlConn_new (\<lambda>_. 0) False False 6)\<lparr>sock_rx := [Chunk (wire_frame (CtlMsgType_code NotifyClientNeedProxy) body)]\<rparr>)\<rparr>) =
     Ub NullDeref"
      by (rule failed_connect_derefs_null [where tid = "[84]" and rest = "[]" and body = body and tun = 0
            and c = "(CtlConn_new (\<lambda>_. 0) False False 6)\<lparr>sock_rx := [Chunk (wire_frame (CtlMsgType_code NotifyClientNeedProxy) body)]\<rparr>"
            and t = "ClientTunnel_new [84] [50] 7777 [49] 9000" and th = 0 and pool' = "(cl_pool demo_client)\<lparr>next_work_thread_Idx := 0\<rparr>"])
        (use body in \<open>simp_all add: demo_client_def Client_new_def PickRandThread_def pool_start_def EventLoopThreadPool_new_def
          ClientTunnel_new_def isExist_def connect_ok_def demo_connect_def id_ok_def is_cstr_def\<close>)
  qed
qed

end
