(* ===== verification/CProxy_Shutdown.thy ===== *)
theory CProxy_Shutdown
  imports CProxy_Client CProxy_Server
begin

text \<open>
  How a session ends: the messages \<^verbatim>\<open>NotifyProxyShutdownPeerConn\<close> and \<^verbatim>\<open>FreeProxyConnReq\<close> between the two
  tunnels (\<^verbatim>\<open>server/Tunnel.cpp\<close>, \<^verbatim>\<open>server/Control.cpp\<close>, \<^verbatim>\<open>client/Tunnel.cpp\<close>, \<^verbatim>\<open>client/Client.cpp\<close>), as a step
  relation over the interleavings of data, ends of streams and control messages for one proxy
  connection. The steps use the operations of \<open>proxy_conn\<close> themselves; two lemmas show that the
  handlers on the heaps of client and server perform these steps.
\<close>

section \<open>The closing protocol of one session\<close>

datatype close_msg = Notify u32 | FreeReq

record close_sys =
  sp :: proxy_conn            \<comment> \<open>the server's end of the proxy connection\<close>
  cp :: proxy_conn            \<comment> \<open>the client's end\<close>
  s_total :: nat              \<comment> \<open>bytes the public connection has put on the proxy connection\<close>
  c_total :: nat              \<comment> \<open>bytes the local connection has put on it\<close>
  s_infl :: nat               \<comment> \<open>of those, bytes not yet delivered to the local server\<close>
  c_infl :: nat               \<comment> \<open>bytes not yet delivered to the public peer\<close>
  s_fin :: bool               \<comment> \<open>the public connection has seen the end of its stream\<close>
  c_fin :: bool               \<comment> \<open>the local connection has\<close>
  to_client :: "close_msg list"
  to_server :: "close_msg list"
  local_shut :: bool          \<comment> \<open>\<^verbatim>\<open>shutdown(local_fd, SHUT_WR)\<close> was called\<close>
  public_shut :: bool
  s_free :: bool              \<comment> \<open>the server has put the connection into its free list\<close>

definition client_shut :: "close_sys \<Rightarrow> close_sys" where
  "client_shut y =
     (if getTheoreticalTotalRecvCount (cp y) \<noteq> getRecvCount (cp y) then y
      else let (fd, isFree, p) = shutdownFromRemote (cp y)
           in y\<lparr>cp := p, local_shut := True, to_server := to_server y @ (if isFree then [FreeReq] else [])\<rparr>)"

definition server_free :: "close_sys \<Rightarrow> close_sys" where
  "server_free y = (if \<not> s_free y \<and> \<not> is_start (sp y) then y\<lparr>s_free := True\<rparr> else y)"

definition server_shut :: "close_sys \<Rightarrow> close_sys" where
  "server_shut y =
     (if getRecvCount (sp y) \<noteq> getTheoreticalTotalRecvCount (sp y) then y
      else let (fd, isFree, p) = shutdownFromRemote (sp y); y1 = y\<lparr>sp := p, public_shut := True\<rparr>
           in if isFree then server_free y1 else y1)"

inductive close_step :: "close_sys \<Rightarrow> close_sys \<Rightarrow> bool" where
  public_data: "\<not> s_fin y \<Longrightarrow> s_total y + n < 2 ^ 32 - 1 \<Longrightarrow>
     close_step y (y\<lparr>s_total := s_total y + n, s_infl := s_infl y + n\<rparr>)"
| local_data: "\<not> c_fin y \<Longrightarrow> c_total y + n < 2 ^ 32 - 1 \<Longrightarrow>
     close_step y (y\<lparr>c_total := c_total y + n, c_infl := c_infl y + n\<rparr>)"
| public_fin: "\<not> s_fin y \<Longrightarrow>
     close_step y (y\<lparr>sp := snd (shutdownFromLocal (sp y)), s_fin := True,
                     to_client := to_client y @ [Notify (of_nat (s_total y))]\<rparr>)"
| local_fin: "\<not> c_fin y \<Longrightarrow>
     close_step y (y\<lparr>cp := snd (shutdownFromLocal (cp y)), c_fin := True,
                     to_server := to_server y @ [Notify (of_nat (c_total y))]\<rparr>)"
| client_notify: "to_client y = Notify n # ms \<Longrightarrow>
     close_step y (client_shut (y\<lparr>to_client := ms, cp := incrTheoreticalTotalRecvCount n (cp y)\<rparr>))"
| server_notify: "to_server y = Notify n # ms \<Longrightarrow> \<not> s_free y \<Longrightarrow>
     close_step y (server_shut (y\<lparr>to_server := ms, sp := incrTheoreticalTotalRecvCount n (sp y)\<rparr>))"
| server_notify_unknown: "to_server y = Notify n # ms \<Longrightarrow> s_free y \<Longrightarrow> close_step y (y\<lparr>to_server := ms\<rparr>)"
| server_freereq: "to_server y = FreeReq # ms \<Longrightarrow> close_step y (server_free (y\<lparr>to_server := ms\<rparr>))"
| client_data: "is_start (cp y) \<Longrightarrow> 0 < n \<Longrightarrow> n \<le> s_infl y \<Longrightarrow>
     y1 = y\<lparr>s_infl := s_infl y - n, cp := incrRecvCount (of_nat n) (cp y)\<rparr> \<Longrightarrow>
     close_step y (if getRecvCount (cp y1) = getTheoreticalTotalRecvCount (cp y1) then client_shut y1 else y1)"
| server_data: "is_start (sp y) \<Longrightarrow> 0 < n \<Longrightarrow> n \<le> c_infl y \<Longrightarrow>
     y1 = y\<lparr>c_infl := c_infl y - n, sp := incrRecvCount (of_nat n) (sp y)\<rparr> \<Longrightarrow>
     close_step y (if getRecvCount (sp y1) = getTheoreticalTotalRecvCount (sp y1) then server_shut y1 else y1)"

definition session_start :: "proxy_conn \<Rightarrow> bool" where
  "session_start p \<longleftrightarrow> is_start p \<and> \<not> half_close p \<and> recv_count p = 0 \<and> theoretical_total_recv_count p = -1"

definition close_init :: "close_sys \<Rightarrow> bool" where
  "close_init y \<longleftrightarrow> session_start (sp y) \<and> session_start (cp y) \<and> s_total y = 0 \<and> c_total y = 0 \<and> s_infl y = 0 \<and>
     c_infl y = 0 \<and> \<not> s_fin y \<and> \<not> c_fin y \<and> to_client y = [] \<and> to_server y = [] \<and>
     \<not> local_shut y \<and> \<not> public_shut y \<and> \<not> s_free y"

inductive close_reach :: "close_sys \<Rightarrow> bool" where
  close_start: "close_init y \<Longrightarrow> close_reach y"
| close_next: "close_reach y \<Longrightarrow> close_step y y' \<Longrightarrow> close_reach y'"

text \<open>One end of the connection: what it knows of the stream it receives.\<close>

definition end_ok :: "proxy_conn \<Rightarrow> bool \<Rightarrow> bool \<Rightarrow> bool \<Rightarrow> nat \<Rightarrow> nat \<Rightarrow> bool" where
  "end_ok p own_fin shut notified tot infl \<longleftrightarrow>
     tot < 2 ^ 32 - 1 \<and> infl \<le> tot \<and> half_close p = (own_fin \<noteq> shut) \<and> is_start p = (\<not> (own_fin \<and> shut)) \<and>
     (if shut then notified \<and> infl = 0
      else recv_count p = of_nat (tot - infl) \<and>
           theoretical_total_recv_count p = (if notified then of_nat tot else -1) \<and> (notified \<longrightarrow> 0 < infl))"

definition close_inv :: "close_sys \<Rightarrow> bool" where
  "close_inv y \<longleftrightarrow>
     (\<exists>cn sn fr.
        to_client y = (if s_fin y \<and> \<not> cn then [Notify (of_nat (s_total y))] else []) \<and> (cn \<longrightarrow> s_fin y) \<and>
        to_server y = (if c_fin y \<and> \<not> sn then [Notify (of_nat (c_total y))] else []) @ (if fr then [FreeReq] else []) \<and>
        (sn \<longrightarrow> c_fin y) \<and> (fr \<longrightarrow> c_fin y \<and> local_shut y) \<and>
        end_ok (cp y) (c_fin y) (local_shut y) cn (s_total y) (s_infl y) \<and>
        end_ok (sp y) (s_fin y) (public_shut y) sn (c_total y) (c_infl y) \<and>
        (s_free y \<longrightarrow> s_fin y \<and> public_shut y) \<and>
        (public_shut y \<and> s_fin y \<and> \<not> s_free y \<and> local_shut y \<longrightarrow> fr))"

lemma end_ok_local_fin:
  assumes "end_ok p False shut notified tot infl"
  shows "end_ok (snd (shutdownFromLocal p)) True shut notified tot infl"
  using assms by (auto simp: end_ok_def shutdownFromLocal_def resetConn_def counter_defs Let_def split: if_splits)

lemma end_ok_more:
  assumes "end_ok p own_fin shut False tot infl" "tot + n < 2 ^ 32 - 1"
  shows "end_ok p own_fin shut False (tot + n) (infl + n)"
  using assms by (auto simp: end_ok_def split: if_splits)

text \<open>The notification arrives: either the end shuts its peer down now or data is still under way.\<close>

lemma end_ok_notify:
  assumes "end_ok p own_fin False False tot infl"
  shows "if recv_count (incrTheoreticalTotalRecvCount (of_nat tot) p) =
            theoretical_total_recv_count (incrTheoreticalTotalRecvCount (of_nat tot) p)
         then fst (snd (shutdownFromRemote (incrTheoreticalTotalRecvCount (of_nat tot) p))) = own_fin \<and>
              end_ok (snd (snd (shutdownFromRemote (incrTheoreticalTotalRecvCount (of_nat tot) p)))) own_fin True True tot infl
         else end_ok (incrTheoreticalTotalRecvCount (of_nat tot) p) own_fin False True tot infl"
proof -
  have lt: "tot < 2 ^ 32" "tot - infl < 2 ^ 32" "infl \<le> tot" using assms by (auto simp: end_ok_def)
  have "(of_nat (tot - infl) :: u32) = of_nat tot \<longleftrightarrow> infl = 0"
    using of_nat_u32_inject [OF lt(2,1)] lt(3) by auto
  with assms show ?thesis
    by (auto simp: end_ok_def counter_defs shutdownFromRemote_def resetConn_def Let_def)
qed

lemma end_ok_data:
  assumes "end_ok p own_fin shut notified tot infl" "0 < n" "n \<le> infl"
  shows "\<not> shut \<and>
     (if recv_count (incrRecvCount (of_nat n) p) = theoretical_total_recv_count (incrRecvCount (of_nat n) p)
      then notified \<and> fst (snd (shutdownFromRemote (incrRecvCount (of_nat n) p))) = own_fin \<and>
           end_ok (snd (snd (shutdownFromRemote (incrRecvCount (of_nat n) p)))) own_fin True True tot (infl - n)
      else end_ok (incrRecvCount (of_nat n) p) own_fin False notified tot (infl - n))"
proof -
  have ns: "\<not> shut" using assms by (auto simp: end_ok_def)
  obtain e where e: "infl = n + e" using assms(3) by (metis le_Suc_ex)
  have "infl \<le> tot" using assms(1) by (simp add: end_ok_def)
  then obtain d where d: "tot = n + e + d" using e by (metis le_Suc_ex)
  have lt: "n + e + d < 2 ^ 32 - 1" using assms(1) d by (simp add: end_ok_def)
  have z: "(of_nat e :: u32) = 0 \<longleftrightarrow> e = 0"
    using of_nat_u32_inject [of e 0] lt by auto
  have ne: "(of_nat d :: u32) + of_nat n \<noteq> -1"
    using of_nat_u32_sentinel [of "d + n"] lt by simp
  show ?thesis
    using assms(1,2) ns z ne unfolding d e
    by (auto simp: end_ok_def counter_defs shutdownFromRemote_def resetConn_def Let_def)
qed

lemma client_shut_eq:
  "getTheoreticalTotalRecvCount (cp y) = getRecvCount (cp y) \<Longrightarrow>
   client_shut y = y\<lparr>cp := snd (snd (shutdownFromRemote (cp y))), local_shut := True,
     to_server := to_server y @ (if fst (snd (shutdownFromRemote (cp y))) then [FreeReq] else [])\<rparr>"
  by (simp add: client_shut_def case_prod_unfold Let_def)

lemma server_shut_eq:
  "getTheoreticalTotalRecvCount (sp y) = getRecvCount (sp y) \<Longrightarrow>
   server_shut y = (let y1 = y\<lparr>sp := snd (snd (shutdownFromRemote (sp y))), public_shut := True\<rparr>
      in if fst (snd (shutdownFromRemote (sp y))) then server_free y1 else y1)"
  by (simp add: server_shut_def case_prod_unfold Let_def)

lemma close_invI:
  assumes "to_client y = (if s_fin y \<and> \<not> cn then [Notify (of_nat (s_total y))] else [])" "cn \<longrightarrow> s_fin y"
    and "to_server y = (if c_fin y \<and> \<not> sn then [Notify (of_nat (c_total y))] else []) @ (if fr then [FreeReq] else [])"
    and "sn \<longrightarrow> c_fin y" "fr \<longrightarrow> c_fin y \<and> local_shut y"
    and "end_ok (cp y) (c_fin y) (local_shut y) cn (s_total y) (s_infl y)"
    and "end_ok (sp y) (s_fin y) (public_shut y) sn (c_total y) (c_infl y)"
    and "s_free y \<longrightarrow> s_fin y \<and> public_shut y"
    and "public_shut y \<and> s_fin y \<and> \<not> s_free y \<and> local_shut y \<longrightarrow> fr"
  shows "close_inv y"
  unfolding close_inv_def using assms by blast

lemma close_inv_init: "close_init y \<Longrightarrow> close_inv y"
  unfolding close_inv_def
  by (rule exI [of _ False], rule exI [of _ False], rule exI [of _ False])
    (auto simp: close_init_def session_start_def end_ok_def)

lemma close_inv_step:
  assumes "close_step y y'" "close_inv y"
  shows "close_inv y'"
proof -
  from assms(2) obtain cn sn fr where
    tc: "to_client y = (if s_fin y \<and> \<not> cn then [Notify (of_nat (s_total y))] else [])" "cn \<longrightarrow> s_fin y" and
    ts: "to_server y = (if c_fin y \<and> \<not> sn then [Notify (of_nat (c_total y))] else []) @ (if fr then [FreeReq] else [])"
      "sn \<longrightarrow> c_fin y" "fr \<longrightarrow> c_fin y \<and> local_shut y" and
    ec: "end_ok (cp y) (c_fin y) (local_shut y) cn (s_total y) (s_infl y)" and
    es: "end_ok (sp y) (s_fin y) (public_shut y) sn (c_total y) (c_infl y)" and
    fre: "s_free y \<longrightarrow> s_fin y \<and> public_shut y" "public_shut y \<and> s_fin y \<and> \<not> s_free y \<and> local_shut y \<longrightarrow> fr"
    unfolding close_inv_def by blast
  have ls: "local_shut y \<longrightarrow> cn" "public_shut y \<longrightarrow> sn" using ec es by (auto simp: end_ok_def)
  show ?thesis
    using assms(1)
  proof cases
    case (public_data n)
    then have "\<not> cn" using tc by simp
    with ec public_data end_ok_more [of "cp y" "c_fin y" "local_shut y" "s_total y" "s_infl y" n]
    have "end_ok (cp y) (c_fin y) (local_shut y) cn (s_total y + n) (s_infl y + n)" by simp
    then show ?thesis
      unfolding public_data(1) by (intro close_invI [of _ cn sn fr]) (use public_data(2) tc ts es fre in simp_all)
  next
    case (local_data n)
    then have "\<not> sn" using ts by simp
    with es local_data end_ok_more [of "sp y" "s_fin y" "public_shut y" "c_total y" "c_infl y" n]
    have "end_ok (sp y) (s_fin y) (public_shut y) sn (c_total y + n) (c_infl y + n)" by simp
    then show ?thesis
      unfolding local_data(1) by (intro close_invI [of _ cn sn fr]) (use local_data(2) tc ts ec fre in simp_all)
  next
    case public_fin
    then have f: "\<not> cn" "\<not> local_shut y" "\<not> s_free y" using tc ls fre by auto
    have "end_ok (snd (shutdownFromLocal (sp y))) True (public_shut y) sn (c_total y) (c_infl y)"
      by (rule end_ok_local_fin) (use es public_fin in simp)
    then show ?thesis
      unfolding public_fin(1)
      by (intro close_invI [of _ cn sn fr]) (use f public_fin tc ts ec in simp_all)
  next
    case local_fin
    then have f: "\<not> sn" "\<not> public_shut y" "\<not> fr" using ts ls by auto
    have "end_ok (snd (shutdownFromLocal (cp y))) True (local_shut y) cn (s_total y) (s_infl y)"
      by (rule end_ok_local_fin) (use ec local_fin in simp)
    then show ?thesis
      unfolding local_fin(1)
      by (intro close_invI [of _ cn sn fr]) (use f local_fin tc ts es fre in simp_all)
  next
    case (client_notify n ms)
    then have n: "\<not> cn" "s_fin y" "ms = []" "n = of_nat (s_total y)" "\<not> local_shut y" "\<not> fr"
      using tc ls ts(3) by (auto split: if_splits)
    let ?q = "incrTheoreticalTotalRecvCount n (cp y)"
    have no: "if recv_count ?q = theoretical_total_recv_count ?q
       then fst (snd (shutdownFromRemote ?q)) = c_fin y \<and>
            end_ok (snd (snd (shutdownFromRemote ?q))) (c_fin y) True True (s_total y) (s_infl y)
       else end_ok ?q (c_fin y) False True (s_total y) (s_infl y)"
      unfolding n(4) by (rule end_ok_notify) (use ec n in simp)
    show ?thesis
    proof (cases "recv_count ?q = theoretical_total_recv_count ?q")
      case True
      with client_notify n no have y': "y' = y\<lparr>to_client := [], cp := snd (snd (shutdownFromRemote ?q)), local_shut := True,
          to_server := to_server y @ (if c_fin y then [FreeReq] else [])\<rparr>"
        by (simp add: client_shut_eq getRecvCount_def getTheoreticalTotalRecvCount_def)
      from no True show ?thesis
        unfolding y' by (intro close_invI [of _ True sn "c_fin y"]) (use n ts(1,2) es fre ls in auto)
    next
      case False
      with client_notify n have y': "y' = y\<lparr>to_client := [], cp := ?q\<rparr>"
        by (simp add: client_shut_def getRecvCount_def getTheoreticalTotalRecvCount_def)
      from no False show ?thesis
        unfolding y' by (intro close_invI [of _ True sn fr]) (use n ts(1,2) es fre in simp_all)
    qed
  next
    case (server_notify n ms)
    then have n: "\<not> sn" "c_fin y" "ms = (if fr then [FreeReq] else [])" "n = of_nat (c_total y)" "\<not> public_shut y"
      using ts ls by (auto split: if_splits)
    let ?q = "incrTheoreticalTotalRecvCount n (sp y)"
    have no: "if recv_count ?q = theoretical_total_recv_count ?q
       then fst (snd (shutdownFromRemote ?q)) = s_fin y \<and>
            end_ok (snd (snd (shutdownFromRemote ?q))) (s_fin y) True True (c_total y) (c_infl y)
       else end_ok ?q (s_fin y) False True (c_total y) (c_infl y)"
      unfolding n(4) by (rule end_ok_notify) (use es n in simp)
    show ?thesis
    proof (cases "recv_count ?q = theoretical_total_recv_count ?q")
      case True
      then have "is_start (snd (snd (shutdownFromRemote ?q))) = (\<not> s_fin y)"
        using no by (simp add: end_ok_def)
      with server_notify n no True have y': "y' = y\<lparr>to_server := ms, sp := snd (snd (shutdownFromRemote ?q)), public_shut := True,
          s_free := s_fin y\<rparr>"
        by (simp add: server_shut_eq server_free_def getRecvCount_def getTheoreticalTotalRecvCount_def Let_def)
      from no True show ?thesis
        unfolding y' by (intro close_invI [of _ cn True fr]) (use n tc ts(3) ec in auto)
    next
      case False
      with server_notify n have y': "y' = y\<lparr>to_server := ms, sp := ?q\<rparr>"
        by (simp add: server_shut_def getRecvCount_def getTheoreticalTotalRecvCount_def)
      from no False show ?thesis
        unfolding y' by (intro close_invI [of _ cn True fr]) (use n tc ts(3) ec fre in simp_all)
    qed
  next
    case (server_notify_unknown n ms)
    then show ?thesis using ts(1,2) ls fre by (auto split: if_splits)
  next
    case (server_freereq ms)
    then have f: "fr" "ms = []" "c_fin y" "sn" "local_shut y" "s_fin y" using ts ls tc by (auto split: if_splits)
    have "is_start (sp y) = (\<not> public_shut y)" using es f by (simp add: end_ok_def)
    then have y': "y' = y\<lparr>to_server := [], s_free := (s_free y \<or> public_shut y)\<rparr>"
      using server_freereq f by (simp add: server_free_def)
    show ?thesis
      unfolding y' by (intro close_invI [of _ cn sn False]) (use f tc ec es fre in auto)
  next
    case (client_data n y1)
    let ?q = "incrRecvCount (of_nat n) (cp y)"
    have da: "\<not> local_shut y" "if recv_count ?q = theoretical_total_recv_count ?q
       then cn \<and> fst (snd (shutdownFromRemote ?q)) = c_fin y \<and>
            end_ok (snd (snd (shutdownFromRemote ?q))) (c_fin y) True True (s_total y) (s_infl y - n)
       else end_ok ?q (c_fin y) False cn (s_total y) (s_infl y - n)"
      using end_ok_data [OF ec client_data(3,4)] by simp_all
    have nf: "\<not> fr" using da(1) ts(3) by simp
    show ?thesis
    proof (cases "recv_count ?q = theoretical_total_recv_count ?q")
      case True
      with client_data da have y': "y' = y\<lparr>s_infl := s_infl y - n, cp := snd (snd (shutdownFromRemote ?q)), local_shut := True,
          to_server := to_server y @ (if c_fin y then [FreeReq] else [])\<rparr>"
        by (simp add: client_shut_eq getRecvCount_def getTheoreticalTotalRecvCount_def)
      from da True show ?thesis
        unfolding y' by (intro close_invI [of _ True sn "c_fin y"]) (use nf tc ts(1,2) es fre ls in auto)
    next
      case False
      with client_data have y': "y' = y\<lparr>s_infl := s_infl y - n, cp := ?q\<rparr>"
        by (simp add: getRecvCount_def getTheoreticalTotalRecvCount_def)
      from da False show ?thesis
        unfolding y' by (intro close_invI [of _ cn sn fr]) (use nf tc ts es fre in simp_all)
    qed
  next
    case (server_data n y1)
    let ?q = "incrRecvCount (of_nat n) (sp y)"
    have da: "\<not> public_shut y" "if recv_count ?q = theoretical_total_recv_count ?q
       then sn \<and> fst (snd (shutdownFromRemote ?q)) = s_fin y \<and>
            end_ok (snd (snd (shutdownFromRemote ?q))) (s_fin y) True True (c_total y) (c_infl y - n)
       else end_ok ?q (s_fin y) False sn (c_total y) (c_infl y - n)"
      using end_ok_data [OF es server_data(3,4)] by simp_all
    have nf: "\<not> s_free y" using da(1) fre by simp
    show ?thesis
    proof (cases "recv_count ?q = theoretical_total_recv_count ?q")
      case True
      then have "is_start (snd (snd (shutdownFromRemote ?q))) = (\<not> s_fin y)"
        using da by (simp add: end_ok_def)
      with server_data da nf True have y': "y' = y\<lparr>c_infl := c_infl y - n, sp := snd (snd (shutdownFromRemote ?q)), public_shut := True,
          s_free := s_fin y\<rparr>"
        by (simp add: server_shut_eq server_free_def getRecvCount_def getTheoreticalTotalRecvCount_def Let_def)
      from da True show ?thesis
        unfolding y' by (intro close_invI [of _ cn True fr]) (use tc ts ec in auto)
    next
      case False
      with server_data have y': "y' = y\<lparr>c_infl := c_infl y - n, sp := ?q\<rparr>"
        by (simp add: getRecvCount_def getTheoreticalTotalRecvCount_def)
      from da False show ?thesis
        unfolding y' by (intro close_invI [of _ cn sn fr]) (use tc ts ec fre nf in simp_all)
    qed
  qed
qed

lemma close_reach_inv: "close_reach y \<Longrightarrow> close_inv y"
  by (induction rule: close_reach.induct) (auto intro: close_inv_init close_inv_step)


section \<open>The handlers implement the steps\<close>

text \<open>
  \<^verbatim>\<open>shutdonwLocalConn\<close> on the client's heap is \<open>client_shut\<close> on its end of the connection, with the
  free request queued on the control connection exactly when the step sends one.
\<close>

lemma shutdonwLocalConn_refines:
  assumes "cl_pxs s px = Some (cp y)" "cl_tuns s tun = Some t" "cl_ctl s = Some c" "obuf_ok (cc_out_buffer c)"
    and "id_ok (ct_tun_id t)" "id_ok (proxy_id (cp y))" "capacity (cc_out_buffer c) + 28 \<le> 65536"
  shows "\<exists>s' c' body. shutdonwLocalConn j tun px s = Ok s' \<and> cl_pxs s' px = Some (cp (client_shut y)) \<and>
     cl_ctl s' = Some c' \<and> cstr_at body 0 = Ok (ct_tun_id t) \<and> cstr_at body 10 = Ok (proxy_id (cp y)) \<and>
     contents (cc_out_buffer c') = contents (cc_out_buffer c) @
       (if to_server (client_shut y) = to_server y then [] else wire_frame (CtlMsgType_code FreeProxyConnReq) body)"
proof -
  obtain body where body: "FreeProxyConnReqMsg j (ct_tun_id t) (proxy_id (cp y)) = Ok body" "length body = 20"
      "cstr_at body 0 = Ok (ct_tun_id t)" "cstr_at body 10 = Ok (proxy_id (cp y))"
    using FreeProxyConnReqMsg_fields [OF assms(5,6)] by blast
  obtain m c' where m: "MakeCtlMsg FreeProxyConnReq body = Ok m" "CtlConn_SendMsg j m c = Ok c'"
     "contents (cc_out_buffer c') = contents (cc_out_buffer c) @ wire_frame (CtlMsgType_code FreeProxyConnReq) body"
    using CtlConn_SendMsg_queues [of c body FreeProxyConnReq j] assms(4,7) body(2) by (fastforce simp: obuf_ok_def)
  have pid: "proxy_id (snd (snd (shutdownFromRemote (cp y)))) = proxy_id (cp y)"
    by (simp add: shutdownFromRemote_def resetConn_def counter_defs Let_def)
  obtain fd fr p where sh: "shutdownFromRemote (cp y) = (fd, fr, p)" by (cases "shutdownFromRemote (cp y)")
  show ?thesis
  proof (cases "getTheoreticalTotalRecvCount (cp y) = getRecvCount (cp y)")
    case False
    with assms(1,3) body show ?thesis
      by (auto simp: shutdonwLocalConn_def deref_def client_shut_def)
  next
    case True
    with assms(1-3) body m pid sh show ?thesis
      by (cases fr) (auto simp: shutdonwLocalConn_def deref_def client_shut_def cput_px_def csend_ctl_def getProxyID_def Let_def)
  qed
qed

text \<open>\<^verbatim>\<open>shutdownPublicConn\<close> on the server's heap is \<open>server_shut\<close>, for a connection filed under its id.\<close>

lemma shutdownPublicConn_refines:
  assumes "sv_pxs s px = Some (sp y)" "sv_tuns s tun = Some t" "map_of (st_proxy_conn_map t) (proxy_id (sp y)) = Some px"
    and "\<not> s_free y"
  shows "\<exists>s' t'. shutdownPublicConn tun px s = Ok s' \<and> sv_pxs s' px = Some (sp (server_shut y)) \<and> sv_tuns s' tun = Some t' \<and>
     st_free t' = st_free t @ (if s_free (server_shut y) then [Some px] else []) \<and>
     map_of (st_proxy_conn_map t') (proxy_id (sp y)) = (if s_free (server_shut y) then None else Some px)"
proof -
  obtain fd fr p where sh: "shutdownFromRemote (sp y) = (fd, fr, p)" by (cases "shutdownFromRemote (sp y)")
  have p: "proxy_id p = proxy_id (sp y)" "fr \<Longrightarrow> \<not> is_start p"
    using sh by (auto simp: shutdownFromRemote_def resetConn_def counter_defs Let_def split: if_splits)
  show ?thesis
  proof (cases "getRecvCount (sp y) = getTheoreticalTotalRecvCount (sp y)")
    case False
    with assms show ?thesis by (auto simp: shutdownPublicConn_def deref_def server_shut_def)
  next
    case True
    with assms sh p show ?thesis
      by (cases fr) (auto simp: shutdownPublicConn_def deref_def server_shut_def server_free_def freeProxyConn_def
          put_defs getProxyID_def map_lookup Let_def)
  qed
qed

section \<open>A run in which the two closes cross\<close>

definition crossed0 :: close_sys where
  "crossed0 = \<lparr>sp = demo_proxy\<lparr>is_start := True\<rparr>, cp = demo_proxy\<lparr>is_start := True\<rparr>, s_total = 0, c_total = 0,
     s_infl = 0, c_infl = 0, s_fin = False, c_fin = False, to_client = [], to_server = [], local_shut = False,
     public_shut = False, s_free = False\<rparr>"

definition crossed1 :: close_sys where
  "crossed1 = crossed0\<lparr>sp := demo_proxy\<lparr>is_start := True, half_close := True\<rparr>, s_fin := True, to_client := [Notify 0]\<rparr>"

definition crossed2 :: close_sys where
  "crossed2 = crossed1\<lparr>cp := demo_proxy\<lparr>is_start := True, half_close := True\<rparr>, c_fin := True, to_server := [Notify 0]\<rparr>"

definition crossed3 :: close_sys where
  "crossed3 = server_shut (crossed2\<lparr>to_server := [], sp := incrTheoreticalTotalRecvCount 0 (sp crossed2)\<rparr>)"

definition crossed4 :: close_sys where
  "crossed4 = client_shut (crossed3\<lparr>to_client := [], cp := incrTheoreticalTotalRecvCount 0 (cp crossed3)\<rparr>)"

definition crossed5 :: close_sys where
  "crossed5 = server_free (crossed4\<lparr>to_server := []\<rparr>)"

lemmas crossed_defs = crossed0_def crossed1_def crossed2_def crossed3_def crossed4_def crossed5_def proxy_eval
  server_shut_def server_free_def client_shut_def shutdownFromRemote_def shutdownFromLocal_def resetConn_def

lemma crossed_reach:
  "close_reach crossed0" "close_reach crossed1" "close_reach crossed2" "close_reach crossed3" "close_reach crossed4"
  "close_reach crossed5"
proof -
  show 0: "close_reach crossed0"
    by (rule close_start) (simp add: crossed_defs close_init_def session_start_def)
  have "close_step crossed0 crossed1" using public_fin [of crossed0] by (simp add: crossed_defs)
  with 0 show 1: "close_reach crossed1" by (rule close_next)
  have "close_step crossed1 crossed2" using local_fin [of crossed1] by (simp add: crossed_defs)
  with 1 show 2: "close_reach crossed2" by (rule close_next)
  have "close_step crossed2 crossed3"
    unfolding crossed3_def by (rule server_notify) (simp_all add: crossed0_def crossed1_def crossed2_def)
  with 2 show 3: "close_reach crossed3" by (rule close_next)
  have "close_step crossed3 crossed4"
    unfolding crossed4_def by (rule client_notify) (simp add: crossed_defs)
  with 3 show 4: "close_reach crossed4" by (rule close_next)
  have "close_step crossed4 crossed5"
    unfolding crossed5_def by (rule server_freereq) (simp add: crossed_defs)
  with 4 show "close_reach crossed5" by (rule close_next)
qed

section \<open>Properties\<close>







text \<open>When the server has freed a connection whose client end is still started, the two closes have
  crossed: both streams have ended and the client has yet to handle the server's notification or
  data before it.\<close>
theorem early_free_only_when_crossing:
  assumes "close_reach y" "s_free y" "is_start (cp y)"
  shows "s_fin y \<and> c_fin y \<and> (to_client y \<noteq> [] \<or> 0 < s_infl y)"
  using close_reach_inv [OF assms(1)] assms(2,3)
  by (auto simp: close_inv_def end_ok_def split: if_splits)

theorem early_free_only_when_crossing_witness: "s_fin crossed3 \<and> c_fin crossed3 \<and> to_client crossed3 \<noteq> []"
  using early_free_only_when_crossing [OF crossed_reach(4)] by (simp add: crossed_defs)

text \<open>C37. And they can cross: there is a run in which the server has put the connection into its free
  list while the client still forwards, so that a start request sent on it would be taken for data
  (the comment at the call of \<^verbatim>\<open>shutdownFromLocal\<close> claims this cannot happen).\<close>
theorem early_free_reachable:
  "\<exists>y. close_reach y \<and> s_free y \<and> is_start (cp y) \<and> to_client y \<noteq> []"
proof -
  have "s_free crossed3 \<and> is_start (cp crossed3) \<and> to_client crossed3 \<noteq> []"
    by (simp add: crossed_defs)
  with crossed_reach(4) show ?thesis by blast
qed

end
