(* ===== verification/CProxy_Main.thy ===== *)
theory CProxy_Main
  imports CProxy_ServerInv CProxy_Client
begin

text \<open>
  The two \<^verbatim>\<open>main\<close> functions. \<^verbatim>\<open>getopt_long\<close> belongs to the C library: its successive answers are the
  argument, pairs of an option letter and the option's value (the loop stops at the end of the
  list). What follows the option loop, up to the call that starts the event loop, is modelled.
\<close>

type_synonym option_answer = "byte \<times> cstring"

definition opt_c :: byte where "opt_c = 99"
definition opt_p :: byte where "opt_p = 112"
definition opt_t :: byte where "opt_t = 116"
definition opt_l :: byte where "opt_l = 108"
definition opt_s :: byte where "opt_s = 115"

lemmas opt_defs = opt_c_def opt_p_def opt_t_def opt_l_def opt_s_def

section \<open>Server\<close>

record server_options =
  so_ctl_port :: u32
  so_proxy_port :: u32
  so_work_thread_nums :: int

definition server_option :: "option_answer \<Rightarrow> server_options \<Rightarrow> server_options" where
  "server_option = (\<lambda>(opt, optarg) so.
     if opt = opt_c then so\<lparr>so_ctl_port := word_of_int (atoi optarg)\<rparr>
     else if opt = opt_p then so\<lparr>so_proxy_port := word_of_int (atoi optarg)\<rparr>
     else if opt = opt_t then so\<lparr>so_work_thread_nums := atoi optarg\<rparr>
     else so)"

definition server_options_of :: "option_answer list \<Rightarrow> server_options" where
  "server_options_of opts =
     (let so = fold server_option opts \<lparr>so_ctl_port = 0, so_proxy_port = 0, so_work_thread_nums = 0\<rparr>
      in \<lparr>so_ctl_port = (if so_ctl_port so > 0 then so_ctl_port so else 8080),
          so_proxy_port = (if so_proxy_port so > 0 then so_proxy_port so else 8089),
          so_work_thread_nums = (if so_work_thread_nums so > 0 then so_work_thread_nums so else 1)\<rparr>)"

text \<open>The unsigned ports become \<^verbatim>\<open>int\<close> parameters of the constructor.\<close>

definition server_main ::
    "listen_env \<Rightarrow> listen_env \<Rightarrow> int \<times> int \<Rightarrow> int \<times> int \<Rightarrow> bool \<Rightarrow> option_answer list \<Rightarrow> server outcome" where
  "server_main env1 env2 fl1 fl2 pc0 opts =
     (let so = server_options_of opts
      in bind_outcome
           (Server_new env1 env2 fl1 fl2 pc0 (so_work_thread_nums so)
              (to_int32 (uint (so_ctl_port so))) (to_int32 (uint (so_proxy_port so))))
           (\<lambda>s. Ok (Server_start s)))"

section \<open>Client\<close>

text \<open>The port variables start uninitialised; they are read only when the host is set.\<close>

record client_options =
  co_local_server :: "cstring \<times> u32"
  co_cproxy_server :: "cstring \<times> u32"
  co_work_thread_nums :: int

fun client_options_loop :: "option_answer list \<Rightarrow> client_options \<Rightarrow> client_options outcome" where
  "client_options_loop [] co = Ok co"
| "client_options_loop ((opt, optarg) # opts) co =
     bind_outcome
       (if opt = opt_l then bind_outcome (parse_host_port optarg) (\<lambda>hp. Ok (co\<lparr>co_local_server := hp\<rparr>))
        else if opt = opt_s then bind_outcome (parse_host_port optarg) (\<lambda>hp. Ok (co\<lparr>co_cproxy_server := hp\<rparr>))
        else if opt = opt_t then Ok (co\<lparr>co_work_thread_nums := atoi optarg\<rparr>)
        else Ok co)
       (client_options_loop opts)"

definition client_main ::
    "junk \<Rightarrow> bool \<Rightarrow> connect_env \<Rightarrow> u32 \<Rightarrow> u32 \<Rightarrow> option_answer list \<Rightarrow> client outcome" where
  "client_main j pc0 env port0 port1 opts =
     bind_outcome
       (client_options_loop opts
          \<lparr>co_local_server = ([], port0), co_cproxy_server = ([], port1), co_work_thread_nums = 1\<rparr>)
       (\<lambda>co.
          if fst (co_local_server co) = [] \<or> snd (co_local_server co) = 0 then Abort
          else if fst (co_cproxy_server co) = [] \<or> snd (co_cproxy_server co) = 0 then Abort
          else let n = (if co_work_thread_nums co > 0 then co_work_thread_nums co else 1)
               in Client_start j pc0 env
                    (Client_new n (fst (co_cproxy_server co)) (snd (co_cproxy_server co))
                       (fst (co_local_server co)) (snd (co_local_server co))))"

section \<open>Properties\<close>

lemma socketBindListen_port: "fst (socketBindListen env port) \<ge> 0 \<Longrightarrow> 0 \<le> port \<and> port \<le> 65535"
  by (auto simp: socketBindListen_def split: if_splits)

lemma to_int32_u32_zero: "to_int32 (uint (w :: u32)) = 0 \<longleftrightarrow> w = 0"
proof -
  have r: "0 \<le> uint w" "uint w < 2 ^ 32" using uint_lt2p [of w] by simp_all
  have "to_int32 (uint w) = 0 \<longleftrightarrow> uint w = 0"
  proof (cases "uint w < 2 ^ 31")
    case True
    then have "to_int32 (uint w) = uint w" using r by (intro to_int32_id) linarith+
    then show ?thesis by simp
  next
    case False
    have "(uint w + 2 ^ 31) mod 2 ^ 32 = (uint w + 2 ^ 31 - 2 ^ 32) mod 2 ^ 32"
      by (rule minus_mod_self2 [symmetric])
    also have "\<dots> = uint w + 2 ^ 31 - 2 ^ 32"
      using False r by (intro mod_pos_pos_trivial) simp_all
    finally show ?thesis using False r by (simp add: to_int32_def)
  qed
  then show ?thesis using unsigned_eq_0_iff [of w, where ?'a = int] by simp
qed

text \<open>Whatever the command line, a server that starts listens on two valid ports: the conversions
  of \<^verbatim>\<open>atoi\<close> results to unsigned and back to \<^verbatim>\<open>int\<close> never let a port outside 1 to 65535 through (a
  negative or oversized number makes the constructor abort, zero selects the default), and the
  number of worker threads is positive; the state it starts in is well-formed.\<close>
theorem server_main_valid:
  assumes "server_main env1 env2 fl1 fl2 pc0 opts = Ok s"
  shows "1 \<le> sv_ctlPort s \<and> sv_ctlPort s \<le> 65535 \<and> 1 \<le> sv_proxyPort s \<and> sv_proxyPort s \<le> 65535 \<and>
         0 < thread_num (sv_pool s) \<and> threads (sv_pool s) \<noteq> [] \<and> server_inv s"
proof -
  let ?so = "server_options_of opts"
  obtain s0 where s0: "Server_new env1 env2 fl1 fl2 pc0 (so_work_thread_nums ?so)
      (to_int32 (uint (so_ctl_port ?so))) (to_int32 (uint (so_proxy_port ?so))) = Ok s0" "s = Server_start s0"
    using assms by (auto simp: server_main_def bind_outcome_Ok_iff Let_def)
  have pos: "so_ctl_port ?so \<noteq> 0" "so_proxy_port ?so \<noteq> 0" "0 < so_work_thread_nums ?so"
    by (simp_all add: server_options_of_def Let_def word_gt_0)
  have ports: "sv_ctlPort s = to_int32 (uint (so_ctl_port ?so))" "sv_proxyPort s = to_int32 (uint (so_proxy_port ?so))"
      "0 \<le> fst (socketBindListen env1 (sv_ctlPort s))" "0 \<le> fst (socketBindListen env2 (sv_proxyPort s))"
      "sv_pool s = pool_start (EventLoopThreadPool_new (so_work_thread_nums ?so))"
    using s0 by (auto simp: Server_new_def Server_start_def Let_def split: if_splits)
  have "sv_ctlPort s \<noteq> 0" "sv_proxyPort s \<noteq> 0"
    using ports(1,2) pos(1,2) by (simp_all add: to_int32_u32_zero)
  with socketBindListen_port [OF ports(3)] socketBindListen_port [OF ports(4)] pos(3) ports(5) Server_new_inv [OF s0(1)] s0(2)
  show ?thesis
    by (auto simp: pool_start_def EventLoopThreadPool_new_def pool_start_loop_eq)
qed

theorem server_main_valid_witness:
  "\<exists>s. server_main demo_env demo_env (0, 0) (0, 0) False [(opt_p, [56, 48])] = Ok s \<and> sv_proxyPort s \<le> 65535"
proof -
  have "\<exists>s. server_main demo_env demo_env (0, 0) (0, 0) False [(opt_p, [56, 48])] = Ok s"
    by (simp add: server_main_def server_options_of_def server_option_def opt_defs atoi_def is_space_def is_digit_def
        digits_value_def Server_new_def demo_env_def socketBindListen_def setfdNonBlock_def to_int32_def Let_def)
  then show ?thesis using server_main_valid by blast
qed

end
