(* ===== verification/Log_Common.thy ===== *)
theory Log_Common
  imports CProxy_Prelude
begin

text \<open>
  The vocabulary of the logging library: levels and their names (\<^verbatim>\<open>common.h\<close>, \<^verbatim>\<open>common-inl.h\<close>),
  source locations, log messages (\<^verbatim>\<open>details/log_msg.h\<close>) and the broken-down time of libc. Log text is
  a \<open>string\<close>; the growing buffer \<^verbatim>\<open>memory_buf_t\<close> is one too.
\<close>

section \<open>Levels\<close>

datatype level_enum = Trace | Debug | Info | Warn | Err | Critical | Off | NLevels

fun level_code :: "level_enum \<Rightarrow> int" where
  "level_code Trace = 0"
| "level_code Debug = 1"
| "level_code Info = 2"
| "level_code Warn = 3"
| "level_code Err = 4"
| "level_code Critical = 5"
| "level_code Off = 6"
| "level_code NLevels = 7"

text \<open>Levels are compared by their codes, so they form a linear order.\<close>

instantiation level_enum :: linorder
begin

definition less_eq_level_enum :: "level_enum \<Rightarrow> level_enum \<Rightarrow> bool" where
  "less_eq_level_enum a b \<longleftrightarrow> level_code a \<le> level_code b"

definition less_level_enum :: "level_enum \<Rightarrow> level_enum \<Rightarrow> bool" where
  "less_level_enum a b \<longleftrightarrow> level_code a < level_code b"

lemma level_code_inject: "level_code a = level_code b \<Longrightarrow> a = b"
  by (cases a; cases b) simp_all

instance
  by intro_classes (auto simp: less_eq_level_enum_def less_level_enum_def intro: level_code_inject)

end

definition level_string_views :: "string list" where
  "level_string_views = [''trace'', ''debug'', ''info'', ''warning'', ''error'', ''critical'', ''off'']"

definition short_level_names :: "string list" where
  "short_level_names = [''T'', ''D'', ''I'', ''W'', ''E'', ''C'', ''O'']"

text \<open>Array subscripts are unchecked: out of range the behaviour is undefined.\<close>

definition array_at :: "'a list \<Rightarrow> int \<Rightarrow> 'a outcome" where
  "array_at xs i = (if 0 \<le> i \<and> i < int (length xs) then Ok (xs ! nat i) else Ub IndexOut)"

definition to_string_view :: "level_enum \<Rightarrow> string outcome" where
  "to_string_view l = array_at level_string_views (level_code l)"

definition to_short_c_str :: "level_enum \<Rightarrow> string outcome" where
  "to_short_c_str l = array_at short_level_names (level_code l)"

text \<open>\<^verbatim>\<open>std::find\<close> as the index of the first match, the length when there is none.\<close>

definition find_index :: "'a \<Rightarrow> 'a list \<Rightarrow> nat" where
  "find_index x xs = length (takeWhile (\<lambda>y. y \<noteq> x) xs)"

definition level_of_index :: "nat \<Rightarrow> level_enum" where
  "level_of_index i = [Trace, Debug, Info, Warn, Err, Critical, Off, NLevels] ! i"

definition from_str :: "string \<Rightarrow> level_enum" where
  "from_str name =
     (let it = find_index name level_string_views in
      if it \<noteq> length level_string_views then level_of_index it
      else if name = ''warn'' then Warn
      else if name = ''err'' then Err
      else Off)"

section \<open>Messages\<close>

text \<open>A null \<^verbatim>\<open>const char *\<close> is \<open>None\<close>.\<close>

record source_loc =
  filename :: "string option"
  line :: int
  funcname :: "string option"

definition source_loc_empty :: "source_loc \<Rightarrow> bool" where
  "source_loc_empty s \<longleftrightarrow> line s = 0"

definition no_source_loc :: source_loc where
  "no_source_loc = \<lparr>filename = None, line = 0, funcname = None\<rparr>"

text \<open>\<open>time\<close> counts nanoseconds since the epoch.\<close>

record log_msg =
  logger_name :: string
  lvl :: level_enum
  time :: int
  thread_id :: size_t
  color_range_start :: nat
  color_range_end :: nat
  source :: source_loc
  payload :: string

definition log_msg_new :: "size_t \<Rightarrow> int \<Rightarrow> source_loc \<Rightarrow> string \<Rightarrow> level_enum \<Rightarrow> string \<Rightarrow> log_msg" where
  "log_msg_new os_thread_id log_time loc a_logger_name l msg =
     \<lparr>logger_name = a_logger_name, lvl = l, time = log_time, thread_id = os_thread_id,
      color_range_start = 0, color_range_end = 0, source = loc, payload = msg\<rparr>"

record tm =
  tm_sec :: int
  tm_min :: int
  tm_hour :: int
  tm_mday :: int
  tm_mon :: int
  tm_year :: int
  tm_wday :: int
  tm_gmtoff :: int

definition tm_zero :: tm where
  "tm_zero = \<lparr>tm_sec = 0, tm_min = 0, tm_hour = 0, tm_mday = 0, tm_mon = 0, tm_year = 0, tm_wday = 0, tm_gmtoff = 0\<rparr>"

text \<open>
  What the library takes from the system: local and universal time of a \<^verbatim>\<open>time_t\<close>, the process id, and
  the contents of an uninitialised buffer.
\<close>

record log_env =
  os_localtime :: "int \<Rightarrow> tm"
  os_gmtime :: "int \<Rightarrow> tm"
  os_pid :: u32
  os_junk :: string

section \<open>Level names\<close>

lemma from_str_of_name: "l \<noteq> NLevels \<Longrightarrow> \<exists>n. to_string_view l = Ok n \<and> from_str n = l"
  by (cases l) (simp_all add: to_string_view_def array_at_def from_str_def find_index_def level_string_views_def level_of_index_def)

lemma from_str_unknown: "n \<notin> set (level_string_views @ [''warn'', ''err'']) \<Longrightarrow> from_str n = Off"
proof -
  assume n: "n \<notin> set (level_string_views @ [''warn'', ''err''])"
  then have "find_index n level_string_views = length level_string_views"
    unfolding find_index_def by (intro arg_cong [where f = length]) (auto simp: takeWhile_eq_all_conv)
  then show ?thesis using n by (simp add: from_str_def)
qed

end
