(* ===== verification/Log_Digits.thy ===== *)
theory Log_Digits
  imports CProxy_Prelude
begin

text \<open>
  Decimal formatting of integers as the logging library does it: the digit counts and the integer
  writer of the bundled \<^verbatim>\<open>fmt\<close> (\<^verbatim>\<open>fmt/bundled/format.h\<close>) and the padding helpers of
  \<^verbatim>\<open>details/fmt_helper.h\<close>. The bit tricks and tables are kept as they are in the source, over words;
  the writer fills a buffer of bounded size from its end, with every store checked. The theorems
  relate them to plain decimal notation.
\<close>

section \<open>Reference: decimal notation\<close>

definition digit_char :: "nat \<Rightarrow> char" where
  "digit_char d = char_of (48 + d)"

fun decimal :: "nat \<Rightarrow> string" where
  "decimal n = (if n < 10 then [digit_char n] else decimal (n div 10) @ [digit_char (n mod 10)])"

definition decimal_int :: "int \<Rightarrow> string" where
  "decimal_int i = (if i < 0 then CHR ''-'' # decimal (nat (- i)) else decimal (nat i))"

declare decimal.simps [simp del]

section \<open>Counting digits\<close>

text \<open>\<^verbatim>\<open>__builtin_clz\<close>: the number of leading zero bits of a non-zero word.\<close>

definition builtin_clz :: "'a::len word \<Rightarrow> nat" where
  "builtin_clz w = length (takeWhile (\<lambda>i. \<not> bit w i) (rev [0..<LENGTH('a)]))"

text \<open>The loop that divides by 10000, with \<^verbatim>\<open>count\<close> as an argument.\<close>

function count_digits_fallback :: "nat \<Rightarrow> nat \<Rightarrow> nat" where
  "count_digits_fallback count n =
     (if n < 10 then count
      else if n < 100 then count + 1
      else if n < 1000 then count + 2
      else if n < 10000 then count + 3
      else count_digits_fallback (count + 4) (n div 10000))"
  by pat_completeness auto
termination by (relation "measure snd") auto

declare count_digits_fallback.simps [simp del]

definition bsr2log10 :: "nat list" where
  "bsr2log10 = [
      1,  1,  1,  2,  2,  2,  3,  3,  3,  4,  4,  4,  4,  5,  5,  5,
      6,  6,  6,  7,  7,  7,  7,  8,  8,  8,  9,  9,  9,  10, 10, 10,
      10, 11, 11, 11, 12, 12, 12, 13, 13, 13, 13, 14, 14, 14, 15, 15,
      15, 16, 16, 16, 16, 17, 17, 17, 18, 18, 18, 19, 19, 19, 19, 20]"

definition FMT_POWERS_OF_10 :: "size_t \<Rightarrow> size_t list" where
  "FMT_POWERS_OF_10 factor =
     [factor * 10, factor * 100, factor * 1000, factor * 10000, factor * 100000,
      factor * 1000000, factor * 10000000, factor * 100000000, factor * 1000000000]"

definition zero_or_powers_of_10 :: "size_t list" where
  "zero_or_powers_of_10 =
     [0, 0] @ FMT_POWERS_OF_10 1 @ FMT_POWERS_OF_10 1000000000 @ [10000000000000000000]"

definition do_count_digits64 :: "size_t \<Rightarrow> nat" where
  "do_count_digits64 n =
     (let t = bsr2log10 ! (builtin_clz (n OR 1) XOR 63)
      in t - (if n < zero_or_powers_of_10 ! t then 1 else 0))"

text \<open>\<^verbatim>\<open>FMT_INC(T)\<close> takes the length of its argument's spelling, so the spelling is an argument here.\<close>

definition FMT_INC :: "string \<Rightarrow> size_t \<Rightarrow> size_t" where
  "FMT_INC spelling T = push_bit 32 (of_nat (length spelling + 1) - 1) - T"

definition inc_table :: "size_t list" where
  "inc_table = [
      FMT_INC ''0'' 0,          FMT_INC ''0'' 0,          FMT_INC ''0'' 0,
      FMT_INC ''10'' 10,         FMT_INC ''10'' 10,         FMT_INC ''10'' 10,
      FMT_INC ''100'' 100,        FMT_INC ''100'' 100,        FMT_INC ''100'' 100,
      FMT_INC ''1000'' 1000,       FMT_INC ''1000'' 1000,       FMT_INC ''1000'' 1000,
      FMT_INC ''10000'' 10000,      FMT_INC ''10000'' 10000,      FMT_INC ''10000'' 10000,
      FMT_INC ''100000'' 100000,     FMT_INC ''100000'' 100000,     FMT_INC ''100000'' 100000,
      FMT_INC ''1000000'' 1000000,    FMT_INC ''1000000'' 1000000,    FMT_INC ''1000000'' 1000000,
      FMT_INC ''10000000'' 10000000,   FMT_INC ''10000000'' 10000000,   FMT_INC ''10000000'' 10000000,
      FMT_INC ''100000000'' 100000000,  FMT_INC ''100000000'' 100000000,  FMT_INC ''100000000'' 100000000,
      FMT_INC ''1000000000'' 1000000000, FMT_INC ''1000000000'' 1000000000, FMT_INC ''1000000000'' 1000000000,
      FMT_INC ''1000000000'' 1000000000, FMT_INC ''1000000000'' 1000000000]"

definition do_count_digits32 :: "u32 \<Rightarrow> nat" where
  "do_count_digits32 n =
     (let inc = inc_table ! (builtin_clz (n OR 1) XOR 31)
      in unat (drop_bit 32 (ucast n + inc)))"

section \<open>Writing digits\<close>

definition digits2_table :: string where
  "digits2_table =
     ''0001020304050607080910111213141516171819'' @
     ''2021222324252627282930313233343536373839'' @
     ''4041424344454647484950515253545556575859'' @
     ''6061626364656667686970717273747576777879'' @
     ''8081828384858687888990919293949596979899''"

definition digits2 :: "nat \<Rightarrow> string" where
  "digits2 value = drop (value * 2) digits2_table"

text \<open>Stores of one and of two characters through a pointer into the buffer.\<close>

definition put_char :: "int \<Rightarrow> char \<Rightarrow> string \<Rightarrow> string outcome" where
  "put_char out ch buf = (if 0 \<le> out \<and> nat out < length buf then Ok (buf[nat out := ch]) else Ub IndexOut)"

definition copy2 :: "int \<Rightarrow> string \<Rightarrow> string \<Rightarrow> string outcome" where
  "copy2 dst src buf = bind_outcome (put_char dst (src ! 0) buf) (put_char (dst + 1) (src ! 1))"

text \<open>The loop and the tail of \<^verbatim>\<open>format_decimal\<close>: the new position of \<^verbatim>\<open>out\<close> and the buffer.\<close>

function format_decimal_loop :: "int \<Rightarrow> nat \<Rightarrow> string \<Rightarrow> (int \<times> string) outcome" where
  "format_decimal_loop out value buf =
     (if value \<ge> 100 then
        bind_outcome (copy2 (out - 2) (digits2 (value mod 100)) buf)
          (format_decimal_loop (out - 2) (value div 100))
      else if value < 10 then
        bind_outcome (put_char (out - 1) (digit_char value) buf) (\<lambda>buf. Ok (out - 1, buf))
      else bind_outcome (copy2 (out - 2) (digits2 value) buf) (\<lambda>buf. Ok (out - 2, buf)))"
  by pat_completeness auto
termination by (relation "measure (\<lambda>(out, value, buf). value)") auto

declare format_decimal_loop.simps [simp del]

text \<open>The assertion compares with the digit count of the type: \<open>digits\<close> is \<^verbatim>\<open>count_digits(value)\<close>.\<close>

definition format_decimal :: "string \<Rightarrow> nat \<Rightarrow> nat \<Rightarrow> nat \<Rightarrow> (int \<times> string) outcome" where
  "format_decimal buf digits value sz =
     (if digits \<le> sz then format_decimal_loop (int sz) value buf else Abort)"

definition buffer_size :: nat where
  "buffer_size = 19 + 3"

text \<open>
  \<^verbatim>\<open>format_int\<close>: the object is its buffer and the position of \<^verbatim>\<open>str_\<close>. \<open>junk\<close> is the
  uninitialised buffer. The constructors for \<^verbatim>\<open>int\<close>, \<^verbatim>\<open>long\<close>, \<^verbatim>\<open>unsigned\<close> and \<^verbatim>\<open>size_t\<close> differ in the
  width of the unsigned type.
\<close>

definition format_unsigned32 :: "string \<Rightarrow> u32 \<Rightarrow> (int \<times> string) outcome" where
  "format_unsigned32 junk value = format_decimal junk (do_count_digits32 value) (unat value) (buffer_size - 1)"

definition format_unsigned64 :: "string \<Rightarrow> size_t \<Rightarrow> (int \<times> string) outcome" where
  "format_unsigned64 junk value = format_decimal junk (do_count_digits64 value) (unat value) (buffer_size - 1)"

definition put_sign :: "bool \<Rightarrow> int \<times> string \<Rightarrow> (int \<times> string) outcome" where
  "put_sign negative r = (case r of (begin_, buf) \<Rightarrow>
     if negative then bind_outcome (put_char (begin_ - 1) (CHR ''-'') buf) (\<lambda>buf. Ok (begin_ - 1, buf))
     else Ok (begin_, buf))"

definition format_signed32 :: "string \<Rightarrow> u32 \<Rightarrow> (int \<times> string) outcome" where
  "format_signed32 junk value =
     (let negative = sint value < 0;
          abs_value = (if negative then 0 - value else value)
      in bind_outcome (format_unsigned32 junk abs_value) (put_sign negative))"

definition format_signed64 :: "string \<Rightarrow> size_t \<Rightarrow> (int \<times> string) outcome" where
  "format_signed64 junk value =
     (let negative = sint value < 0;
          abs_value = (if negative then 0 - value else value)
      in bind_outcome (format_unsigned64 junk abs_value) (put_sign negative))"

text \<open>\<^verbatim>\<open>data()\<close> up to \<^verbatim>\<open>size()\<close>: \<^verbatim>\<open>buffer_size - 1\<close> minus the position of \<^verbatim>\<open>str_\<close>.\<close>

definition format_int_text :: "int \<times> string \<Rightarrow> string" where
  "format_int_text r = (case r of (str_pos, buf) \<Rightarrow> take (nat (int (buffer_size - 1) - str_pos)) (drop (nat str_pos) buf))"

section \<open>Digit counts\<close>

lemma length_decimal_pos: "0 < length (decimal n)"
  by (subst decimal.simps) simp

lemma decimal_small: "n < 10 \<Longrightarrow> decimal n = [digit_char n]"
  and decimal_step: "10 \<le> n \<Longrightarrow> decimal n = decimal (n div 10) @ [digit_char (n mod 10)]"
  by (subst decimal.simps, simp)+

lemma length_decimal_eqI:
  "n < 10 ^ Suc d \<Longrightarrow> d = 0 \<or> 10 ^ d \<le> n \<Longrightarrow> length (decimal n) = Suc d"
proof (induction d arbitrary: n)
  case (Suc d)
  then have n: "10 ^ Suc d \<le> n" "n < 10 ^ Suc (Suc d)" by auto
  then have ten: "10 \<le> n" using self_le_power [of "10::nat" "Suc d"] by linarith
  from n have "n div 10 < 10 ^ Suc d" "10 ^ d \<le> n div 10" by (auto simp: less_mult_imp_div_less)
  with Suc.IH have "length (decimal (n div 10)) = Suc d" by blast
  then show ?case using ten by (simp add: decimal_step)
qed (simp add: decimal_small)

lemma length_decimal_upper: "n < 10 ^ length (decimal n)"
proof (induction n rule: decimal.induct)
  case (1 n)
  show ?case
  proof (cases "n < 10")
    case False
    with 1 have "n div 10 < 10 ^ length (decimal (n div 10))" by blast
    then have "n < 10 ^ length (decimal (n div 10)) * 10" by linarith
    then show ?thesis using False by (simp add: decimal_step)
  qed (simp add: decimal_small)
qed

lemma length_decimal_less:
  assumes "n < 10 ^ k" "0 < k"
  shows "length (decimal n) \<le> k"
  using assms
proof (induction k arbitrary: n)
  case (Suc k)
  show ?case
  proof (cases "n < 10")
    case False
    with Suc.prems have k: "0 < k" by (cases k) auto
    have "n div 10 < 10 ^ k" using Suc.prems by (simp add: less_mult_imp_div_less)
    with Suc.IH k False show ?thesis by (simp add: decimal_step)
  qed (simp add: decimal_small)
qed simp

text \<open>The loop that divides by 10000 counts the digits.\<close>

lemma count_digits_fallback_decimal: "count_digits_fallback count n + 1 = count + length (decimal n)"
proof (induction count n rule: count_digits_fallback.induct)
  case (1 count n)
  consider "n < 10" | "10 \<le> n" "n < 100" | "100 \<le> n" "n < 1000" | "1000 \<le> n" "n < 10000" | "10000 \<le> n"
    by linarith
  then show ?case
  proof cases
    case 5
    have "length (decimal n) = length (decimal (n div 10000)) + 4"
      using 5 by (simp add: decimal_step div_mult2_eq [symmetric])
    moreover have "count_digits_fallback count n = count_digits_fallback (count + 4) (n div 10000)"
      using 5 by (subst count_digits_fallback.simps) simp
    ultimately show ?thesis using 1 5 by simp
  qed (subst count_digits_fallback.simps, simp add: decimal_step decimal_small)+
qed

text \<open>Leading zeros give the position of the highest bit.\<close>

lemma bit_nat_le: "bit (n :: nat) m \<Longrightarrow> 2 ^ m \<le> n"
  by (metis bit_iff_odd div_less even_zero not_le)

lemma builtin_clz_less: 
  fixes w :: "'a::len word"
  assumes "w \<noteq> 0"
  shows "builtin_clz w < LENGTH('a)"
proof -
  obtain i where i: "bit w i" "i < LENGTH('a)" using assms
    by (metis bit_eq_iff bit_0_eq bot_apply bit_imp_le_length bot_bool_def)
  have "builtin_clz w < length (rev [0..<LENGTH('a)])" unfolding builtin_clz_def
  proof (rule ccontr)
    assume "\<not> length (takeWhile (\<lambda>i. \<not> bit w i) (rev [0..<LENGTH('a)])) < length (rev [0..<LENGTH('a)])"
    then have "takeWhile (\<lambda>i. \<not> bit w i) (rev [0..<LENGTH('a)]) = rev [0..<LENGTH('a)]"
      by (metis length_takeWhile_le linorder_not_less le_antisym takeWhile_eq_take take_all_iff)
    then have "\<forall>i\<in>set (rev [0..<LENGTH('a)]). \<not> bit w i" by (simp only: takeWhile_eq_all_conv)
    with i show False by simp
  qed
  then show ?thesis by simp
qed

lemma builtin_clz_bounds:
  fixes w :: "'a::len word"
  assumes "w \<noteq> 0"
  defines "b \<equiv> LENGTH('a) - 1 - builtin_clz w"
  shows "2 ^ b \<le> unat w" "unat w < 2 ^ Suc b"
proof -
  let ?xs = "rev [0..<LENGTH('a)]" and ?k = "builtin_clz w"
  have k: "?k < LENGTH('a)" by (rule builtin_clz_less [OF assms(1)])
  then have nth: "?xs ! i = LENGTH('a) - 1 - i" if "i \<le> ?k" for i
    using that by (simp add: rev_nth)
  have "bit w (?xs ! ?k)"
    using nth_length_takeWhile [of "\<lambda>i. \<not> bit w i" ?xs] k unfolding builtin_clz_def by simp
  then have "bit (unat w) b" using nth [of ?k] by (simp add: b_def bit_unsigned_iff)
  then show "2 ^ b \<le> unat w" by (rule bit_nat_le)
  have "\<not> bit w m" if "Suc b \<le> m" for m
  proof (cases "m < LENGTH('a)")
    case True
    have "LENGTH('a) - 1 - m < ?k" using that True k unfolding b_def by linarith
    then have "\<not> bit w (?xs ! (LENGTH('a) - 1 - m))"
      unfolding builtin_clz_def by (metis nth_mem set_takeWhileD takeWhile_nth)
    then show ?thesis using True by (simp add: rev_nth)
  next
    case False
    then show ?thesis by (meson bit_imp_le_length)
  qed
  then have hi: "bit w m \<Longrightarrow> m < Suc b" for m by (meson not_less)
  have "take_bit (Suc b) w = w" by (intro bit_eqI) (auto simp: bit_take_bit_iff dest: hi)
  then have "unat w = take_bit (Suc b) (unat w)" by (metis unsigned_take_bit_eq)
  also have "\<dots> < 2 ^ Suc b" by (rule take_bit_nat_less_exp)
  finally show "unat w < 2 ^ Suc b" .
qed

lemma xor_63: "k < 64 \<Longrightarrow> (k :: nat) XOR 63 = 63 - k"
proof -
  have "\<forall>k\<in>set [0..<64]. k XOR 63 = 63 - (k :: nat)" by code_simp
  then show "k < 64 \<Longrightarrow> k XOR 63 = 63 - k" by (simp add: atLeast0LessThan)
qed

lemma xor_31: "k < 32 \<Longrightarrow> (k :: nat) XOR 31 = 31 - k"
proof -
  have "\<forall>k\<in>set [0..<32]. k XOR 31 = 31 - (k :: nat)" by code_simp
  then show "k < 32 \<Longrightarrow> k XOR 31 = 31 - k" by (simp add: atLeast0LessThan)
qed

text \<open>The two tables, entry by entry.\<close>

definition entry64_ok :: "nat \<Rightarrow> nat \<Rightarrow> bool" where
  "entry64_ok b t \<longleftrightarrow> 1 \<le> t \<and> (2::nat) ^ Suc b \<le> 10 ^ t \<and> (t = 1 \<or> (10::nat) ^ (t - 2) \<le> 2 ^ b) \<and>
     unat (zero_or_powers_of_10 ! t) = (if t = 1 then 0 else 10 ^ (t - 1))"

lemma upto_64: "[0..<64] = 0 # 1 # [2..<64::nat]" and upto_32: "[0..<32] = 0 # 1 # [2..<32::nat]"
  by (simp_all add: upt_rec)

lemma bsr2log10_entries: "list_all2 entry64_ok [0..<64] bsr2log10"
  by (simp add: entry64_ok_def bsr2log10_def zero_or_powers_of_10_def FMT_POWERS_OF_10_def upto_64)

definition entry32_ok :: "nat \<Rightarrow> size_t \<Rightarrow> bool" where
  "entry32_ok b inc \<longleftrightarrow> (let d = min 10 (b div 3 + 1); T = (if d = 1 then 0 else 10 ^ (d - 1)) in
     unat inc + T = d * 2 ^ 32 \<and> (2::nat) ^ Suc b \<le> 10 ^ d \<and> (d = 1 \<or> 10 ^ (d - 2) \<le> (2::nat) ^ b))"

lemma inc_table_entries: "list_all2 entry32_ok [0..<32] inc_table"
  by (simp add: entry32_ok_def inc_table_def FMT_INC_def upto_32 push_bit_eq_mult Let_def)

lemma or1_bounds:
  fixes n :: "'a::len word"
  assumes "2 ^ b \<le> unat (n OR 1)" "unat (n OR 1) < 2 ^ Suc b"
  shows "unat n < 2 ^ Suc b" "unat n = 0 \<and> b = 0 \<or> 2 ^ b \<le> unat n"
proof -
  have e: "unat (n OR 1) = unat n + of_bool (even (unat n))"
    using or_one_eq [of "unat n"] unsigned_or_eq [of n 1, where ?'a = nat] by simp
  then show "unat n < 2 ^ Suc b" using assms(2) by linarith
  show "unat n = 0 \<and> b = 0 \<or> 2 ^ b \<le> unat n"
  proof (cases b)
    case 0
    then show ?thesis by (cases "unat n") auto
  next
    case (Suc c)
    then have "even (2 ^ b :: nat)" by simp
    then have "even (unat n) \<Longrightarrow> 2 ^ b \<noteq> Suc (unat n)" by (metis even_Suc)
    then show ?thesis using assms(1) e by (cases "even (unat n)") (auto simp: le_Suc_eq)
  qed
qed

lemma count_case:
  assumes "(2::nat) ^ Suc b \<le> 10 ^ t" "1 \<le> t" "t = 1 \<or> (10::nat) ^ (t - 2) \<le> 2 ^ b"
    and "n < 2 ^ Suc b" "n = 0 \<and> b = 0 \<or> 2 ^ b \<le> n"
  shows "length (decimal n) = (if t \<noteq> 1 \<and> n < 10 ^ (t - 1) then t - 1 else t)"
proof -
  obtain d where t: "t = Suc d" using assms(2) by (cases t) auto
  have up: "n < 10 ^ Suc d" using assms(1,4) t by simp
  show ?thesis
  proof (cases "d = 0 \<or> 10 ^ d \<le> n")
    case True
    with up t show ?thesis using length_decimal_eqI [of n d] by auto
  next
    case False
    then obtain e where d: "d = Suc e" by (cases d) auto
    have "e = 0 \<or> 10 ^ e \<le> n" 
    proof (cases "n = 0 \<and> b = 0")
      case True
      then have "(10::nat) ^ e \<le> 1" using assms(3) t d by simp
      then show ?thesis by (metis one_less_power not_le neq0_conv one_less_numeral_iff semiring_norm(76))
    qed (use assms(3,5) t d in auto)
    with False d t show ?thesis using length_decimal_eqI [of n e] by auto
  qed
qed

lemma or1_nonzero: "(n :: 'a::len word) OR 1 \<noteq> 0"
proof
  assume "n OR 1 = 0"
  then have "bit (n OR 1) 0 = bit (0 :: 'a word) 0" by simp
  then show False by (simp add: bit_or_iff)
qed

lemma do_count_digits64_decimal: "do_count_digits64 n = length (decimal (unat n))"
proof -
  let ?b = "63 - builtin_clz (n OR 1)"
  have b: "builtin_clz (n OR 1) XOR 63 = ?b"
    using builtin_clz_less [OF or1_nonzero, of n] by (simp add: xor_63)
  have "entry64_ok ([0..<64] ! ?b) (bsr2log10 ! ?b)"
    by (rule list_all2_nthD [OF bsr2log10_entries]) simp
  then have e: "entry64_ok ?b (bsr2log10 ! ?b)" by simp
  note bd = or1_bounds [OF builtin_clz_bounds [OF or1_nonzero], of n, simplified]
  from count_case [of ?b "bsr2log10 ! ?b" "unat n"] e bd show ?thesis
    by (simp add: do_count_digits64_def Let_def b entry64_ok_def word_less_nat_alt)
qed

lemma carry_div:
  assumes "n < 2 ^ 32" "T \<le> 10 ^ 9" "1 \<le> d"
  shows "(n + (d * 2 ^ 32 - T)) div 2 ^ 32 = (if n < T then d - 1 else d :: nat)"
proof (cases "n < T")
  case True
  then have "n + (d * 2 ^ 32 - T) = (d - 1) * 2 ^ 32 + (2 ^ 32 - (T - n))"
    using assms by (cases d) auto
  then show ?thesis using True by simp
next
  case False
  then have "n + (d * 2 ^ 32 - T) = d * 2 ^ 32 + (n - T)" using assms by (cases d) auto
  then show ?thesis using False assms(1) by simp
qed

lemma do_count_digits32_decimal: "do_count_digits32 n = length (decimal (unat n))"
proof -
  let ?b = "31 - builtin_clz (n OR 1)"
  let ?d = "min 10 (?b div 3 + 1)"
  let ?T = "if ?d = 1 then 0 else 10 ^ (?d - 1) :: nat"
  have b: "builtin_clz (n OR 1) XOR 31 = ?b"
    using builtin_clz_less [OF or1_nonzero, of n] by (simp add: xor_31)
  have "entry32_ok ([0..<32] ! ?b) (inc_table ! ?b)"
    by (rule list_all2_nthD [OF inc_table_entries]) simp
  then have "entry32_ok ?b (inc_table ! ?b)" by simp
  then have e: "unat (inc_table ! ?b) + ?T = ?d * 2 ^ 32" "(2::nat) ^ Suc ?b \<le> 10 ^ ?d" "?d = 1 \<or> 10 ^ (?d - 2) \<le> (2::nat) ^ ?b"
    unfolding entry32_ok_def Let_def by blast+
  note bd = or1_bounds [OF builtin_clz_bounds [OF or1_nonzero], of n, simplified]
  have n32: "unat n < 2 ^ 32" using unsigned_less [of n] by simp
  have T: "?T \<le> 10 ^ 9" using power_increasing [of "?d - 1" 9 "10::nat"] by auto
  have d: "1 \<le> ?d" "?d \<le> 10" by simp_all
  have "unat (ucast n + inc_table ! ?b :: size_t) = unat n + unat (inc_table ! ?b)"
  proof -
    have c: "unat (ucast n :: size_t) = unat n" using n32 by (simp add: unsigned_ucast_eq take_bit_nat_eq_self)
    have "?d * 2 ^ 32 \<le> 10 * 2 ^ 32" using d(2) by (rule mult_le_mono1)
    then have "unat (inc_table ! ?b) \<le> 10 * 2 ^ 32" 
      using le_add1 [of "unat (inc_table ! ?b)" ?T] unfolding e(1) by (rule order_trans [rotated])
    then have "unat n + unat (inc_table ! ?b) < 2 ^ 64" using n32 by simp
    then show ?thesis by (subst unat_word_ariths) (simp add: c)
  qed
  then have v: "unat (ucast n + inc_table ! ?b :: size_t) = unat n + (?d * 2 ^ 32 - ?T)" using e(1) by linarith
  have "do_count_digits32 n = (unat n + (?d * 2 ^ 32 - ?T)) div 2 ^ 32"
  proof -
    have "unat (drop_bit 32 x) = unat x div 2 ^ 32" for x :: size_t by (simp add: drop_bit_eq_div unat_div)
    then show ?thesis unfolding do_count_digits32_def Let_def b v by (simp only: v)
  qed
  also have "\<dots> = (if ?d \<noteq> 1 \<and> unat n < 10 ^ (?d - 1) then ?d - 1 else ?d)"
    by (subst carry_div [OF n32 T d(1)]) auto
  also have "\<dots> = length (decimal (unat n))"
    by (rule count_case [symmetric, OF e(2) d(1) e(3)]) (use bd in simp_all)
  finally show ?thesis .
qed

section \<open>The integer writer\<close>

lemma digits2_table_nth:
  "v < 100 \<Longrightarrow> digits2 v ! 0 = digit_char (v div 10) \<and> digits2 v ! 1 = digit_char (v mod 10)"
proof -
  have len: "length digits2_table = 200" by (simp add: digits2_table_def)
  have "\<forall>v\<in>set [0..<100]. digits2_table ! (v * 2) = digit_char (v div 10) \<and> digits2_table ! (v * 2 + 1) = digit_char (v mod 10)"
    by code_simp
  then show "v < 100 \<Longrightarrow> ?thesis" by (auto simp: digits2_def len)
qed

text \<open>The text already written: the buffer from \<open>out\<close> to \<open>sz\<close>.\<close>

definition written :: "int \<Rightarrow> nat \<Rightarrow> string \<Rightarrow> string" where
  "written out sz buf = take (sz - nat out) (drop (nat out) buf)"

lemma put_char_written:
  assumes "0 < out" "out \<le> int sz" "sz \<le> length buf"
  shows "\<exists>buf'. put_char (out - 1) c buf = Ok buf' \<and> length buf' = length buf \<and>
    written (out - 1) sz buf' = c # written out sz buf"
proof -
  define k where "k = nat (out - 1)"
  then have k: "out = int (Suc k)" "nat out = Suc k" using assms(1) by simp_all
  have "written (out - 1) sz (buf[k := c]) = c # written out sz buf"
    using k assms by (simp add: written_def Cons_nth_drop_Suc [symmetric] Suc_diff_Suc [symmetric] drop_update_cancel)
  then show ?thesis using k assms by (simp add: put_char_def)
qed

lemma copy2_written:
  assumes "2 \<le> out" "out \<le> int sz" "sz \<le> length buf" 
  shows "\<exists>buf'. copy2 (out - 2) src buf = Ok buf' \<and> length buf' = length buf \<and>
    written (out - 2) sz buf' = src ! 0 # src ! 1 # written out sz buf"
proof -
  define k where "k = nat (out - 2)"
  then have k: "out = int (Suc (Suc k))" "nat out = Suc (Suc k)" using assms(1) by simp_all
  have "written (out - 2) sz (buf[k := src ! 0, Suc k := src ! 1]) = src ! 0 # src ! 1 # written out sz buf"
    using k assms by (simp add: written_def Cons_nth_drop_Suc [symmetric] Suc_diff_Suc [symmetric] drop_update_cancel nat_add_distrib)
  then show ?thesis using k assms by (simp add: copy2_def put_char_def nat_add_distrib)
qed

lemma decimal_div_100: "100 \<le> n \<Longrightarrow> decimal n = decimal (n div 100) @ [digit_char (n mod 100 div 10), digit_char (n mod 100 mod 10)]"
proof -
  assume "100 \<le> n"
  moreover have "n div 10 mod 10 = n mod 100 div 10" "n mod 100 mod 10 = n mod 10"
    using mod_mult2_eq [of n 10 10] by simp_all
  ultimately show ?thesis by (simp add: decimal_step div_mult2_eq [symmetric])
qed

lemma format_decimal_loop_written:
  assumes "int (length (decimal n)) \<le> out" "out \<le> int sz" "sz \<le> length buf"
  shows "\<exists>out' buf'. format_decimal_loop out n buf = Ok (out', buf') \<and> length buf' = length buf \<and>
    out' = out - int (length (decimal n)) \<and> written out' sz buf' = decimal n @ written out sz buf"
  using assms
proof (induction out n buf rule: format_decimal_loop.induct)
  case (1 out n buf)
  show ?case
  proof (cases "100 \<le> n")
    case True
    note d = decimal_div_100 [OF True] and dg = digits2_table_nth [of "n mod 100"]
    have out: "2 \<le> out" using 1(2) d by simp
    obtain buf' where b: "copy2 (out - 2) (digits2 (n mod 100)) buf = Ok buf'" "length buf' = length buf"
      "written (out - 2) sz buf' = digits2 (n mod 100) ! 0 # digits2 (n mod 100) ! 1 # written out sz buf"
      using copy2_written [OF out 1(3,4)] by blast
    have "\<exists>out' buf''. format_decimal_loop (out - 2) (n div 100) buf' = Ok (out', buf'') \<and> length buf'' = length buf' \<and>
        out' = out - 2 - int (length (decimal (n div 100))) \<and> written out' sz buf'' = decimal (n div 100) @ written (out - 2) sz buf'"
      using 1(2-4) b(2) d by (intro "1.IH" [OF True]) simp_all
    then show ?thesis using True b d dg by (subst format_decimal_loop.simps) (auto simp: diff_diff_eq)
  next
    case False
    show ?thesis
    proof (cases "n < 10")
      case True
      have "0 < out" using 1(2) True by (simp add: decimal_small)
      from put_char_written [OF this 1(3,4), of "digit_char n"] show ?thesis
        using True by (subst format_decimal_loop.simps) (auto simp: decimal_small)
    next
      case ge: False
      have d: "decimal n = [digit_char (n div 10), digit_char (n mod 10)]"
        using ge False by (simp add: decimal_step decimal_small)
      have "2 \<le> out" using 1(2) d by simp
      from copy2_written [OF this 1(3,4), of "digits2 n"] show ?thesis
        using ge False digits2_table_nth [of n] d by (subst format_decimal_loop.simps) auto
    qed
  qed
qed

text \<open>Room for every value of the type: 20 digits and a sign fit into the 21 usable characters.\<close>

lemma length_decimal_u64: "length (decimal (unat (w :: size_t))) \<le> 20"
  by (rule length_decimal_less) (use unsigned_less [of w, where ?'a = nat] in simp_all)

lemma length_decimal_u32: "length (decimal (unat (w :: u32))) \<le> 10"
  by (rule length_decimal_less) (use unsigned_less [of w, where ?'a = nat] in simp_all)

definition writes_text :: "nat \<Rightarrow> string \<Rightarrow> (int \<times> string) outcome \<Rightarrow> string \<Rightarrow> bool" where
  "writes_text len junk m txt \<longleftrightarrow> (\<exists>pos buf. m = Ok (pos, buf) \<and> length buf = len \<and> pos = 21 - int (length txt) \<and>
     written pos 21 buf = txt)"

lemma format_unsigned_writes:
  assumes "length junk = buffer_size"
  shows "writes_text buffer_size junk (format_unsigned64 junk w) (decimal (unat w))"
    and "writes_text buffer_size junk (format_unsigned32 junk v) (decimal (unat v))"
proof -
  have "written 21 21 junk = []" by (simp add: written_def)
  then show "writes_text buffer_size junk (format_unsigned64 junk w) (decimal (unat w))"
    and "writes_text buffer_size junk (format_unsigned32 junk v) (decimal (unat v))"
    using assms length_decimal_u64 [of w] length_decimal_u32 [of v]
      format_decimal_loop_written [of "unat w" 21 21 junk] format_decimal_loop_written [of "unat v" 21 21 junk]
    by (auto simp: writes_text_def format_unsigned64_def format_unsigned32_def format_decimal_def buffer_size_def
        do_count_digits64_decimal do_count_digits32_decimal)
qed

lemma put_sign_writes:
  assumes "writes_text buffer_size junk m txt" "length txt \<le> 20"
  shows "writes_text buffer_size junk (bind_outcome m (put_sign True)) (CHR ''-'' # txt)"
    and "writes_text buffer_size junk (bind_outcome m (put_sign False)) txt"
proof -
  from assms(1) obtain pos buf where m: "m = Ok (pos, buf)" "length buf = buffer_size" "pos = 21 - int (length txt)" "written pos 21 buf = txt"
    unfolding writes_text_def by blast
  have p: "0 < pos" "pos \<le> int 21" "21 \<le> length buf" using m assms(2) by (simp_all add: buffer_size_def)
  from put_char_written [OF p, of "CHR ''-''"] m
  show "writes_text buffer_size junk (bind_outcome m (put_sign True)) (CHR ''-'' # txt)"
    by (auto simp: writes_text_def put_sign_def)
  show "writes_text buffer_size junk (bind_outcome m (put_sign False)) txt"
    using assms(1) m by (simp add: put_sign_def)
qed

lemma format_int_text_writes:
  "writes_text buffer_size junk m txt \<Longrightarrow> length txt \<le> 21 \<Longrightarrow> \<exists>r. m = Ok r \<and> format_int_text r = txt"
  by (auto simp: writes_text_def format_int_text_def written_def buffer_size_def nat_diff_distrib)

section \<open>The padding helpers of \<^verbatim>\<open>fmt_helper.h\<close>\<close>

text \<open>
  The helpers append to the destination buffer. \<open>append_int\<close> appends what \<^verbatim>\<open>format_int\<close> has written;
  the index names the width of the argument.
\<close>

definition append_string_view :: "string \<Rightarrow> string \<Rightarrow> string" where
  "append_string_view view dest = dest @ view"

definition append_formatted :: "(int \<times> string) outcome \<Rightarrow> string \<Rightarrow> string outcome" where
  "append_formatted m dest = bind_outcome m (\<lambda>i. Ok (dest @ format_int_text i))"

definition append_int32 :: "string \<Rightarrow> int \<Rightarrow> string \<Rightarrow> string outcome" where
  "append_int32 junk n dest = append_formatted (format_signed32 junk (word_of_int n)) dest"

definition append_int64 :: "string \<Rightarrow> int \<Rightarrow> string \<Rightarrow> string outcome" where
  "append_int64 junk n dest = append_formatted (format_signed64 junk (word_of_int n)) dest"

definition append_uint32 :: "string \<Rightarrow> u32 \<Rightarrow> string \<Rightarrow> string outcome" where
  "append_uint32 junk n dest = append_formatted (format_unsigned32 junk n) dest"

definition append_uint64 :: "string \<Rightarrow> size_t \<Rightarrow> string \<Rightarrow> string outcome" where
  "append_uint64 junk n dest = append_formatted (format_unsigned64 junk n) dest"

text \<open>
  \<^verbatim>\<open>pad2\<close>: outside 0 to 99 the work is left to \<^verbatim>\<open>"{:02}"\<close>, whose zero padding has no effect there
  (a negative number has at least two characters).
\<close>

definition pad2 :: "int \<Rightarrow> string \<Rightarrow> string" where
  "pad2 n dest =
     (if n \<ge> 0 \<and> n < 100 then (dest @ [char_of (48 + nat (n div 10))]) @ [char_of (48 + nat (n mod 10))]
      else dest @ decimal_int n)"

function pad_zeros :: "nat \<Rightarrow> nat \<Rightarrow> string \<Rightarrow> string" where
  "pad_zeros digits width dest = (if digits < width then pad_zeros (digits + 1) width (dest @ ''0'') else dest)"
  by pat_completeness auto
termination by (relation "measure (\<lambda>(digits, width, dest). width - digits)") auto

declare pad_zeros.simps [simp del]

definition pad_uint :: "string \<Rightarrow> size_t \<Rightarrow> nat \<Rightarrow> string \<Rightarrow> string outcome" where
  "pad_uint junk n width dest = append_uint64 junk n (pad_zeros (do_count_digits64 n) width dest)"

definition pad3 :: "string \<Rightarrow> u32 \<Rightarrow> string \<Rightarrow> string outcome" where
  "pad3 junk n dest =
     (if n < 1000 then
        let dest = dest @ [char_of (unat (n div 100) + 48)];
            n = n mod 100;
            dest = dest @ [char_of (unat (n div 10) + 48)];
            dest = dest @ [char_of (unat (n mod 10) + 48)]
        in Ok dest
      else append_uint32 junk n dest)"

definition pad6 :: "string \<Rightarrow> size_t \<Rightarrow> string \<Rightarrow> string outcome" where
  "pad6 junk n dest = pad_uint junk n 6 dest"

definition pad9 :: "string \<Rightarrow> size_t \<Rightarrow> string \<Rightarrow> string outcome" where
  "pad9 junk n dest = pad_uint junk n 9 dest"

text \<open>
  Time points count nanoseconds since the epoch (\<^verbatim>\<open>system_clock\<close> of libstdc++); \<^verbatim>\<open>duration_cast\<close> to a
  coarser unit of \<open>unit\<close> nanoseconds truncates towards zero.
\<close>

definition c_div :: "int \<Rightarrow> int \<Rightarrow> int" where
  "c_div a b = sgn a * sgn b * (\<bar>a\<bar> div \<bar>b\<bar>)"

definition c_mod :: "int \<Rightarrow> int \<Rightarrow> int" where
  "c_mod a b = a - c_div a b * b"

definition duration_cast :: "int \<Rightarrow> int \<Rightarrow> int" where
  "duration_cast unit t = c_div t unit"

definition time_fraction :: "int \<Rightarrow> int \<Rightarrow> int" where
  "time_fraction unit tp =
     (let secs = duration_cast (10 ^ 9) tp
      in duration_cast unit tp - secs * (10 ^ 9 div unit))"

lemma sint_of_int32: "- (2 ^ 31) \<le> n \<Longrightarrow> n < 2 ^ 31 \<Longrightarrow> sint (word_of_int n :: u32) = n"
  by (simp add: signed_of_int signed_take_bit_int_eq_self)

lemma sint_of_int64: "- (2 ^ 63) \<le> n \<Longrightarrow> n < 2 ^ 63 \<Longrightarrow> sint (word_of_int n :: size_t) = n"
  by (simp add: signed_of_int signed_take_bit_int_eq_self)

lemma unat_of_int32: "0 \<le> n \<Longrightarrow> n < 2 ^ 32 \<Longrightarrow> unat (word_of_int n :: u32) = nat n"
  by (simp add: unsigned_of_int take_bit_int_eq_self)

lemma unat_of_int64: "0 \<le> n \<Longrightarrow> n < 2 ^ 64 \<Longrightarrow> unat (word_of_int n :: size_t) = nat n"
  by (simp add: unsigned_of_int take_bit_int_eq_self)

lemma append_formatted_writes:
  "writes_text buffer_size junk m txt \<Longrightarrow> length txt \<le> 21 \<Longrightarrow> append_formatted m dest = Ok (dest @ txt)"
  by (auto simp: append_formatted_def dest: format_int_text_writes)

lemma append_uint [simp]:
  assumes "length junk = buffer_size"
  shows "append_uint64 junk w dest = Ok (dest @ decimal (unat w))" "append_uint32 junk v dest = Ok (dest @ decimal (unat v))"
  unfolding append_uint64_def append_uint32_def
  using length_decimal_u64 [of w] length_decimal_u32 [of v]
  by (simp_all add: append_formatted_writes [OF format_unsigned_writes(1) [OF assms]]
      append_formatted_writes [OF format_unsigned_writes(2) [OF assms]])

lemma append_int32 [simp]:
  assumes "length junk = buffer_size" "- (2 ^ 31) \<le> n" "n < 2 ^ 31"
  shows "append_int32 junk n dest = Ok (dest @ decimal_int n)"
proof -
  let ?w = "word_of_int (if n < 0 then - n else n) :: u32"
  have v: "unat ?w = nat (if n < 0 then - n else n)" using assms(2,3) by (intro unat_of_int32) auto
  have l: "length (decimal (nat (if n < 0 then - n else n))) \<le> 20" using length_decimal_u32 [of ?w] v by simp
  have "writes_text buffer_size junk (format_signed32 junk (word_of_int n)) (decimal_int n)"
    using put_sign_writes [OF format_unsigned_writes(2) [OF assms(1)], of ?w] l v
    by (auto simp: format_signed32_def Let_def sint_of_int32 [OF assms(2,3)] decimal_int_def split: if_splits)
  then show ?thesis unfolding append_int32_def
    by (rule append_formatted_writes) (use l in \<open>auto simp: decimal_int_def\<close>)
qed

lemma append_int64 [simp]:
  assumes "length junk = buffer_size" "- (2 ^ 63) \<le> n" "n < 2 ^ 63"
  shows "append_int64 junk n dest = Ok (dest @ decimal_int n)"
proof -
  let ?w = "word_of_int (if n < 0 then - n else n) :: size_t"
  have v: "unat ?w = nat (if n < 0 then - n else n)" using assms(2,3) by (intro unat_of_int64) auto
  have l: "length (decimal (nat (if n < 0 then - n else n))) \<le> 20" using length_decimal_u64 [of ?w] v by simp
  have "writes_text buffer_size junk (format_signed64 junk (word_of_int n)) (decimal_int n)"
    using put_sign_writes [OF format_unsigned_writes(1) [OF assms(1)], of ?w] l v
    by (auto simp: format_signed64_def Let_def sint_of_int64 [OF assms(2,3)] decimal_int_def split: if_splits)
  then show ?thesis unfolding append_int64_def
    by (rule append_formatted_writes) (use l in \<open>auto simp: decimal_int_def\<close>)
qed

lemma pad_zeros_replicate: "pad_zeros digits width dest = dest @ replicate (width - digits) (CHR ''0'')"
proof (induction digits width dest rule: pad_zeros.induct)
  case (1 digits width dest)
  then show ?case
    by (cases "digits < width") (simp_all add: pad_zeros.simps Suc_diff_Suc [symmetric])
qed

lemma pad_uint [simp]:
  "length junk = buffer_size \<Longrightarrow> pad_uint junk n width dest =
     Ok (dest @ replicate (width - length (decimal (unat n))) (CHR ''0'') @ decimal (unat n))"
  by (simp add: pad_uint_def pad_zeros_replicate do_count_digits64_decimal)

lemma pad2_digits: "0 \<le> n \<Longrightarrow> n < 100 \<Longrightarrow> pad2 n dest = dest @ [digit_char (nat (n div 10)), digit_char (nat (n mod 10))]"
  by (simp add: pad2_def digit_char_def)

lemma pad2_append: "pad2 n dest = dest @ pad2 n []"
  by (simp add: pad2_def)

lemma length_decimal_int_neg: "n < 0 \<Longrightarrow> 2 \<le> length (decimal_int n)"
  using length_decimal_pos [of "nat (- n)"] by (simp add: decimal_int_def Suc_le_eq)

lemma pad3_digits:
  assumes "n < 1000"
  shows "pad3 junk n dest = Ok (dest @ [digit_char (unat n div 100), digit_char (unat n mod 100 div 10), digit_char (unat n mod 10)])"
proof -
  have "unat n mod 100 mod 10 = unat n mod 10" by (rule mod_mod_cancel) simp
  moreover have "unat (100 :: u32) = 100" "unat (10 :: u32) = 10" by simp_all
  ultimately show ?thesis using assms
    by (simp only: pad3_def digit_char_def unat_div_distrib unat_mod_distrib add.commute [of _ 48] Let_def if_True append_assoc append.simps)
qed

section \<open>Properties\<close>

text \<open>C30. All ways of counting digits agree with decimal notation, for every value of their type: the
  table lookup by the highest bit (64 bit), the carry trick of adding a table entry and taking the upper
  half (32 bit), and the loop dividing by 10000.\<close>
theorem count_digits_correct:
  "do_count_digits64 n = length (decimal (unat n)) \<and> do_count_digits32 m = length (decimal (unat m)) \<and>
   count_digits_fallback 1 k = length (decimal k)"
  using count_digits_fallback_decimal [of 1 k] by (simp add: do_count_digits64_decimal do_count_digits32_decimal)

text \<open>The integer writer stays inside its buffer and writes the decimal notation: whatever the
  uninitialised buffer holds, the pairwise writer of \<^verbatim>\<open>format_int\<close>, with the unsigned negation of the
  smallest integer, appends exactly the sign and digits of any \<^verbatim>\<open>int\<close> or \<^verbatim>\<open>long\<close>.\<close>
theorem append_int_decimal:
  assumes "length junk = buffer_size" "- (2 ^ 31) \<le> n" "n < 2 ^ 31" "- (2 ^ 63) \<le> m" "m < 2 ^ 63"
  shows "append_int32 junk n dest = Ok (dest @ decimal_int n) \<and> append_int64 junk m dest = Ok (dest @ decimal_int m)"
  using assms by simp

theorem append_int_decimal_witness:
  "append_int32 (replicate 22 (CHR ''?'')) (- 2147483648) ''n='' = Ok (''n='' @ decimal_int (- 2147483648)) \<and>
   append_int64 (replicate 22 (CHR ''?'')) (- 9223372036854775808) ''n='' = Ok (''n='' @ decimal_int (- 9223372036854775808))"
  using append_int_decimal [of "replicate 22 (CHR ''?'')" "- 2147483648" "- 9223372036854775808" "''n=''"]
  by (simp add: buffer_size_def)

end
