(* ===== verification/Log_Flags.thy ===== *)
theory Log_Flags
  imports Log_Common Log_Digits
begin

text \<open>
  The flag formatters of \<^verbatim>\<open>pattern_formatter-inl.h\<close>: the scoped padder and one definition per
  formatter class. Every class but four appends text to the destination and keeps no state; the
  template parameter \<^verbatim>\<open>ScopedPadder\<close> is the argument \<open>sp\<close> (true for \<^verbatim>\<open>scoped_padder\<close>, false for
  \<^verbatim>\<open>null_scoped_padder\<close>).
\<close>

section \<open>Padding\<close>

datatype pad_side = PadLeft | PadRight | PadCenter

record padding_info =
  width :: nat
  side :: pad_side
  trunc :: bool
  pad_enabled :: bool

definition padding_info_none :: padding_info where
  "padding_info_none = \<lparr>width = 0, side = PadLeft, trunc = False, pad_enabled = False\<rparr>"

definition padding_info_new :: "nat \<Rightarrow> pad_side \<Rightarrow> bool \<Rightarrow> padding_info" where
  "padding_info_new w s t = \<lparr>width = w, side = s, trunc = t, pad_enabled = True\<rparr>"

text \<open>A string of 64 blanks; a longer padding would read past its end.\<close>

definition pad_it :: "int \<Rightarrow> string \<Rightarrow> string outcome" where
  "pad_it count dest =
     (if 0 \<le> count \<and> count \<le> 64 then Ok (append_string_view (replicate (nat count) (CHR '' '')) dest) else Ub Overread)"

text \<open>The constructor: the destination and \<^verbatim>\<open>remaining_pad_\<close>.\<close>

definition scoped_padder_new :: "nat \<Rightarrow> padding_info \<Rightarrow> string \<Rightarrow> (string \<times> int) outcome" where
  "scoped_padder_new wrapped_size padinfo dest =
     (let remaining_pad = int (width padinfo) - int wrapped_size in
      if remaining_pad \<le> 0 then Ok (dest, remaining_pad)
      else case side padinfo of
        PadLeft \<Rightarrow> bind_outcome (pad_it remaining_pad dest) (\<lambda>dest. Ok (dest, 0))
      | PadCenter \<Rightarrow>
          (let half_pad = remaining_pad div 2; reminder = remaining_pad mod 2
           in bind_outcome (pad_it half_pad dest) (\<lambda>dest. Ok (dest, half_pad + reminder)))
      | PadRight \<Rightarrow> Ok (dest, remaining_pad))"

text \<open>The destructor. Resizing to a negative size, converted to \<^verbatim>\<open>size_t\<close>, is an allocation that fails.\<close>

definition scoped_padder_delete :: "padding_info \<Rightarrow> int \<Rightarrow> string \<Rightarrow> string outcome" where
  "scoped_padder_delete padinfo remaining_pad dest =
     (if remaining_pad \<ge> 0 then pad_it remaining_pad dest
      else if trunc padinfo then
        (let new_size = int (length dest) + remaining_pad in
         if 0 \<le> new_size then Ok (take (nat new_size) dest) else Throw)
      else Ok dest)"

text \<open>A block with a padder in scope.\<close>

definition scoped :: "bool \<Rightarrow> padding_info \<Rightarrow> nat \<Rightarrow> (string \<Rightarrow> string outcome) \<Rightarrow> string \<Rightarrow> string outcome" where
  "scoped sp padinfo wrapped_size body dest =
     (if sp then
        bind_outcome (scoped_padder_new wrapped_size padinfo dest)
          (\<lambda>(dest, remaining_pad). bind_outcome (body dest) (scoped_padder_delete padinfo remaining_pad))
      else body dest)"

text \<open>The digit counters of the two padders; the null padder does not count.\<close>

definition sp_count_digits32 :: "bool \<Rightarrow> u32 \<Rightarrow> nat" where
  "sp_count_digits32 sp n = (if sp then do_count_digits32 n else 0)"

definition sp_count_digits64 :: "bool \<Rightarrow> size_t \<Rightarrow> nat" where
  "sp_count_digits64 sp n = (if sp then do_count_digits64 n else 0)"

definition push_back :: "char \<Rightarrow> string \<Rightarrow> string" where
  "push_back c dest = dest @ [c]"

section \<open>Formatters without state\<close>

type_synonym formatter_fn = "bool \<Rightarrow> padding_info \<Rightarrow> log_env \<Rightarrow> log_msg \<Rightarrow> tm \<Rightarrow> string \<Rightarrow> string outcome"

definition name_formatter :: formatter_fn where
  "name_formatter sp padinfo env msg tm_time dest =
     scoped sp padinfo (length (logger_name msg)) (\<lambda>dest. Ok (append_string_view (logger_name msg) dest)) dest"

definition level_formatter :: formatter_fn where
  "level_formatter sp padinfo env msg tm_time dest =
     bind_outcome (to_string_view (lvl msg)) (\<lambda>level_name.
       scoped sp padinfo (length level_name) (\<lambda>dest. Ok (append_string_view level_name dest)) dest)"

definition short_level_formatter :: formatter_fn where
  "short_level_formatter sp padinfo env msg tm_time dest =
     bind_outcome (to_short_c_str (lvl msg)) (\<lambda>level_name.
       scoped sp padinfo (length level_name) (\<lambda>dest. Ok (append_string_view level_name dest)) dest)"

definition ampm :: "tm \<Rightarrow> string" where
  "ampm t = (if tm_hour t \<ge> 12 then ''PM'' else ''AM'')"

definition to12h :: "tm \<Rightarrow> int" where
  "to12h t = (if tm_hour t > 12 then tm_hour t - 12 else tm_hour t)"

definition days :: "string list" where
  "days = [''Sun'', ''Mon'', ''Tue'', ''Wed'', ''Thu'', ''Fri'', ''Sat'']"

definition a_formatter :: formatter_fn where
  "a_formatter sp padinfo env msg tm_time dest =
     bind_outcome (array_at days (tm_wday tm_time)) (\<lambda>field_value.
       scoped sp padinfo (length field_value) (\<lambda>dest. Ok (append_string_view field_value dest)) dest)"

definition full_days :: "string list" where
  "full_days = [''Sunday'', ''Monday'', ''Tuesday'', ''Wednesday'', ''Thursday'', ''Friday'', ''Saturday'']"

definition A_formatter :: formatter_fn where
  "A_formatter sp padinfo env msg tm_time dest =
     bind_outcome (array_at full_days (tm_wday tm_time)) (\<lambda>field_value.
       scoped sp padinfo (length field_value) (\<lambda>dest. Ok (append_string_view field_value dest)) dest)"

definition months :: "string list" where
  "months = [''Jan'', ''Feb'', ''Mar'', ''Apr'', ''May'', ''Jun'', ''Jul'', ''Aug'', ''Sept'', ''Oct'', ''Nov'', ''Dec'']"

definition b_formatter :: formatter_fn where
  "b_formatter sp padinfo env msg tm_time dest =
     bind_outcome (array_at months (tm_mon tm_time)) (\<lambda>field_value.
       scoped sp padinfo (length field_value) (\<lambda>dest. Ok (append_string_view field_value dest)) dest)"

definition full_months :: "string list" where
  "full_months = [''January'', ''February'', ''March'', ''April'', ''May'', ''June'', ''July'', ''August'',
     ''September'', ''October'', ''November'', ''December'']"

definition B_formatter :: formatter_fn where
  "B_formatter sp padinfo env msg tm_time dest =
     bind_outcome (array_at full_months (tm_mon tm_time)) (\<lambda>field_value.
       scoped sp padinfo (length field_value) (\<lambda>dest. Ok (append_string_view field_value dest)) dest)"

definition c_formatter :: formatter_fn where
  "c_formatter sp padinfo env msg tm_time dest =
     scoped sp padinfo 24 (\<lambda>dest.
       bind_outcome (array_at days (tm_wday tm_time)) (\<lambda>day.
       bind_outcome (array_at months (tm_mon tm_time)) (\<lambda>month.
       let dest = push_back (CHR '' '') (append_string_view day dest);
           dest = push_back (CHR '' '') (append_string_view month dest)
       in bind_outcome (append_int32 (os_junk env) (tm_mday tm_time) dest) (\<lambda>dest.
       let dest = push_back (CHR '' '') dest;
           dest = push_back (CHR '':'') (pad2 (tm_hour tm_time) dest);
           dest = push_back (CHR '':'') (pad2 (tm_min tm_time) dest);
           dest = push_back (CHR '' '') (pad2 (tm_sec tm_time) dest)
       in append_int32 (os_junk env) (tm_year tm_time + 1900) dest)))) dest"

definition C_formatter :: formatter_fn where
  "C_formatter sp padinfo env msg tm_time dest =
     scoped sp padinfo 2 (\<lambda>dest. Ok (pad2 (c_mod (tm_year tm_time) 100) dest)) dest"

definition D_formatter :: formatter_fn where
  "D_formatter sp padinfo env msg tm_time dest =
     scoped sp padinfo 10 (\<lambda>dest.
       let dest = push_back (CHR ''/'') (pad2 (tm_mon tm_time + 1) dest);
           dest = push_back (CHR ''/'') (pad2 (tm_mday tm_time) dest)
       in Ok (pad2 (c_mod (tm_year tm_time) 100) dest)) dest"

definition Y_formatter :: formatter_fn where
  "Y_formatter sp padinfo env msg tm_time dest =
     scoped sp padinfo 4 (append_int32 (os_junk env) (tm_year tm_time + 1900)) dest"

definition m_formatter :: formatter_fn where
  "m_formatter sp padinfo env msg tm_time dest =
     scoped sp padinfo 2 (\<lambda>dest. Ok (pad2 (tm_mon tm_time + 1) dest)) dest"

definition d_formatter :: formatter_fn where
  "d_formatter sp padinfo env msg tm_time dest =
     scoped sp padinfo 2 (\<lambda>dest. Ok (pad2 (tm_mday tm_time) dest)) dest"

definition H_formatter :: formatter_fn where
  "H_formatter sp padinfo env msg tm_time dest =
     scoped sp padinfo 2 (\<lambda>dest. Ok (pad2 (tm_hour tm_time) dest)) dest"

definition I_formatter :: formatter_fn where
  "I_formatter sp padinfo env msg tm_time dest =
     scoped sp padinfo 2 (\<lambda>dest. Ok (pad2 (to12h tm_time) dest)) dest"

definition M_formatter :: formatter_fn where
  "M_formatter sp padinfo env msg tm_time dest =
     scoped sp padinfo 2 (\<lambda>dest. Ok (pad2 (tm_min tm_time) dest)) dest"

definition S_formatter :: formatter_fn where
  "S_formatter sp padinfo env msg tm_time dest =
     scoped sp padinfo 2 (\<lambda>dest. Ok (pad2 (tm_sec tm_time) dest)) dest"

text \<open>Nanoseconds in a unit of \<^verbatim>\<open>std::chrono\<close>.\<close>

definition nanoseconds :: int where "nanoseconds = 1"
definition microseconds :: int where "microseconds = 10 ^ 3"
definition milliseconds :: int where "milliseconds = 10 ^ 6"
definition seconds :: int where "seconds = 10 ^ 9"

definition e_formatter :: formatter_fn where
  "e_formatter sp padinfo env msg tm_time dest =
     (let millis = time_fraction milliseconds (time msg)
      in scoped sp padinfo 3 (pad3 (os_junk env) (word_of_int millis)) dest)"

definition f_formatter :: formatter_fn where
  "f_formatter sp padinfo env msg tm_time dest =
     (let micros = time_fraction microseconds (time msg)
      in scoped sp padinfo 6 (pad6 (os_junk env) (word_of_int micros)) dest)"

definition F_formatter :: formatter_fn where
  "F_formatter sp padinfo env msg tm_time dest =
     (let ns = time_fraction nanoseconds (time msg)
      in scoped sp padinfo 9 (pad9 (os_junk env) (word_of_int ns)) dest)"

definition E_formatter :: formatter_fn where
  "E_formatter sp padinfo env msg tm_time dest =
     scoped sp padinfo 10 (append_int64 (os_junk env) (duration_cast seconds (time msg))) dest"

definition p_formatter :: formatter_fn where
  "p_formatter sp padinfo env msg tm_time dest =
     scoped sp padinfo 2 (\<lambda>dest. Ok (append_string_view (ampm tm_time) dest)) dest"

definition r_formatter :: formatter_fn where
  "r_formatter sp padinfo env msg tm_time dest =
     scoped sp padinfo 11 (\<lambda>dest.
       let dest = push_back (CHR '':'') (pad2 (to12h tm_time) dest);
           dest = push_back (CHR '':'') (pad2 (tm_min tm_time) dest);
           dest = push_back (CHR '' '') (pad2 (tm_sec tm_time) dest)
       in Ok (append_string_view (ampm tm_time) dest)) dest"

definition R_formatter :: formatter_fn where
  "R_formatter sp padinfo env msg tm_time dest =
     scoped sp padinfo 5 (\<lambda>dest.
       let dest = push_back (CHR '':'') (pad2 (tm_hour tm_time) dest)
       in Ok (pad2 (tm_min tm_time) dest)) dest"

definition T_formatter :: formatter_fn where
  "T_formatter sp padinfo env msg tm_time dest =
     scoped sp padinfo 8 (\<lambda>dest.
       let dest = push_back (CHR '':'') (pad2 (tm_hour tm_time) dest);
           dest = push_back (CHR '':'') (pad2 (tm_min tm_time) dest)
       in Ok (pad2 (tm_sec tm_time) dest)) dest"

definition t_formatter :: formatter_fn where
  "t_formatter sp padinfo env msg tm_time dest =
     scoped sp padinfo (sp_count_digits64 sp (thread_id msg)) (append_uint64 (os_junk env) (thread_id msg)) dest"

definition pid_formatter :: formatter_fn where
  "pid_formatter sp padinfo env msg tm_time dest =
     (let pid = os_pid env in scoped sp padinfo (sp_count_digits32 sp pid) (append_uint32 (os_junk env) pid) dest)"

definition v_formatter :: formatter_fn where
  "v_formatter sp padinfo env msg tm_time dest =
     scoped sp padinfo (length (payload msg)) (\<lambda>dest. Ok (append_string_view (payload msg) dest)) dest"

section \<open>Source locations\<close>

definition deref_cstr :: "string option \<Rightarrow> string outcome" where
  "deref_cstr p = (case p of None \<Rightarrow> Ub NullDeref | Some s \<Rightarrow> Ok s)"

definition source_location_formatter :: formatter_fn where
  "source_location_formatter sp padinfo env msg tm_time dest =
     (if source_loc_empty (source msg) then scoped sp padinfo 0 Ok dest
      else bind_outcome (deref_cstr (filename (source msg))) (\<lambda>file.
        let text_size = (if pad_enabled padinfo then length file + sp_count_digits32 sp (word_of_int (line (source msg))) + 1 else 0)
        in scoped sp padinfo text_size
             (\<lambda>dest. append_int32 (os_junk env) (line (source msg)) (push_back (CHR '':'') (append_string_view file dest))) dest))"

definition source_filename_formatter :: formatter_fn where
  "source_filename_formatter sp padinfo env msg tm_time dest =
     (if source_loc_empty (source msg) then scoped sp padinfo 0 Ok dest
      else bind_outcome (deref_cstr (filename (source msg))) (\<lambda>file.
        let text_size = (if pad_enabled padinfo then length file else 0)
        in scoped sp padinfo text_size (\<lambda>dest. Ok (append_string_view file dest)) dest))"

text \<open>\<^verbatim>\<open>strrchr\<close> with the one separator of the platform: the part after the last slash.\<close>

definition folder_sep :: char where
  "folder_sep = CHR ''/''"

definition basename :: "string \<Rightarrow> string" where
  "basename path =
     (if folder_sep \<in> set path then rev (takeWhile (\<lambda>c. c \<noteq> folder_sep) (rev path)) else path)"

definition short_filename_formatter :: formatter_fn where
  "short_filename_formatter sp padinfo env msg tm_time dest =
     (if source_loc_empty (source msg) then scoped sp padinfo 0 Ok dest
      else bind_outcome (deref_cstr (filename (source msg))) (\<lambda>path.
        let file = basename path;
            text_size = (if pad_enabled padinfo then length file else 0)
        in scoped sp padinfo text_size (\<lambda>dest. Ok (append_string_view file dest)) dest))"

definition source_linenum_formatter :: formatter_fn where
  "source_linenum_formatter sp padinfo env msg tm_time dest =
     (if source_loc_empty (source msg) then scoped sp padinfo 0 Ok dest
      else scoped sp padinfo (sp_count_digits32 sp (word_of_int (line (source msg))))
             (append_int32 (os_junk env) (line (source msg))) dest)"

definition source_funcname_formatter :: formatter_fn where
  "source_funcname_formatter sp padinfo env msg tm_time dest =
     (if source_loc_empty (source msg) then scoped sp padinfo 0 Ok dest
      else bind_outcome (deref_cstr (funcname (source msg))) (\<lambda>fn.
        let text_size = (if pad_enabled padinfo then length fn else 0)
        in scoped sp padinfo text_size (\<lambda>dest. Ok (append_string_view fn dest)) dest))"

end
