(* ===== verification/Log_Pattern.thy ===== *)
theory Log_Pattern
  imports Log_Flags
begin

text \<open>
  Patterns: the formatters that keep state (\<^verbatim>\<open>z_formatter\<close>, \<^verbatim>\<open>elapsed_formatter\<close>, \<^verbatim>\<open>full_formatter\<close>) or mark
  the colour range, the compilation of a pattern string into a list of formatters, and
  \<^verbatim>\<open>pattern_formatter::format\<close> with its cached broken-down time.
\<close>

section \<open>Formatters with state\<close>

text \<open>The time zone offset is refreshed every ten seconds; the state is \<^verbatim>\<open>last_update_\<close> and \<^verbatim>\<open>offset_minutes_\<close>.\<close>

definition utc_minutes_offset :: "tm \<Rightarrow> int" where
  "utc_minutes_offset t = to_int32 (c_div (tm_gmtoff t) 60)"

definition get_cached_offset :: "log_msg \<Rightarrow> tm \<Rightarrow> int \<times> int \<Rightarrow> int \<times> int" where
  "get_cached_offset msg tm_time st = (case st of (last_update, offset_minutes) \<Rightarrow>
     if time msg - last_update \<ge> 10 * seconds then (time msg, utc_minutes_offset tm_time)
     else (last_update, offset_minutes))"

definition z_formatter :: "bool \<Rightarrow> padding_info \<Rightarrow> log_msg \<Rightarrow> tm \<Rightarrow> int \<times> int \<Rightarrow> string \<Rightarrow> ((int \<times> int) \<times> string) outcome" where
  "z_formatter sp padinfo msg tm_time st dest =
     (let st = get_cached_offset msg tm_time st in
      bind_outcome (scoped sp padinfo 6 (\<lambda>dest.
        let total_minutes = snd st;
            is_negative = total_minutes < 0;
            total_minutes = (if is_negative then - total_minutes else total_minutes);
            dest = push_back (if is_negative then CHR ''-'' else CHR ''+'') dest;
            dest = push_back (CHR '':'') (pad2 (c_div total_minutes 60) dest)
        in Ok (pad2 (c_mod total_minutes 60) dest)) dest) (\<lambda>dest. Ok (st, dest)))"

definition elapsed_formatter :: "bool \<Rightarrow> padding_info \<Rightarrow> int \<Rightarrow> log_env \<Rightarrow> log_msg \<Rightarrow> int \<Rightarrow> string \<Rightarrow> (int \<times> string) outcome" where
  "elapsed_formatter sp padinfo unit env msg last_message_time dest =
     (let delta = max (time msg - last_message_time) 0;
          delta_count = word_of_int (duration_cast unit delta) :: size_t;
          n_digits = sp_count_digits64 sp delta_count
      in bind_outcome (scoped sp padinfo n_digits (append_uint64 (os_junk env) delta_count) dest)
           (\<lambda>dest. Ok (time msg, dest)))"

text \<open>The date and time part of \<^verbatim>\<open>full_formatter\<close>, which is cached for a second.\<close>

definition full_datetime :: "log_env \<Rightarrow> tm \<Rightarrow> string outcome" where
  "full_datetime env tm_time =
     bind_outcome (append_int32 (os_junk env) (tm_year tm_time + 1900) ''['') (\<lambda>d.
       let d = push_back (CHR ''-'') d;
           d = push_back (CHR ''-'') (pad2 (tm_mon tm_time + 1) d);
           d = push_back (CHR '' '') (pad2 (tm_mday tm_time) d);
           d = push_back (CHR '':'') (pad2 (tm_hour tm_time) d);
           d = push_back (CHR '':'') (pad2 (tm_min tm_time) d)
       in Ok (push_back (CHR ''.'') (pad2 (tm_sec tm_time) d)))"

definition full_cache :: "log_env \<Rightarrow> log_msg \<Rightarrow> tm \<Rightarrow> int \<times> string \<Rightarrow> (int \<times> string) outcome" where
  "full_cache env msg tm_time st = (case st of (cache_timestamp, cached_datetime) \<Rightarrow>
     let secs = duration_cast seconds (time msg) in
     if cache_timestamp \<noteq> secs \<or> cached_datetime = []
     then bind_outcome (full_datetime env tm_time) (\<lambda>d. Ok (secs, d))
     else Ok (cache_timestamp, cached_datetime))"

definition full_source :: "log_env \<Rightarrow> log_msg \<Rightarrow> string \<Rightarrow> string outcome" where
  "full_source env msg dest =
     (if source_loc_empty (source msg) then Ok dest
      else bind_outcome (deref_cstr (filename (source msg))) (\<lambda>path.
        let dest = push_back (CHR '':'') (append_string_view (basename path) (push_back (CHR ''['') dest))
        in bind_outcome (append_int32 (os_junk env) (line (source msg)) dest) (\<lambda>dest.
             Ok (push_back (CHR '' '') (push_back (CHR '']'') dest)))))"

definition full_formatter ::
  "log_env \<Rightarrow> log_msg \<Rightarrow> tm \<Rightarrow> int \<times> string \<Rightarrow> string \<Rightarrow> ((int \<times> string) \<times> log_msg \<times> string) outcome" where
  "full_formatter env msg tm_time st dest =
     bind_outcome (full_cache env msg tm_time st) (\<lambda>st.
       let dest = dest @ snd st; millis = time_fraction milliseconds (time msg) in
       bind_outcome (pad3 (os_junk env) (word_of_int millis) dest) (\<lambda>dest.
       let dest = push_back (CHR '' '') (push_back (CHR '']'') dest);
           dest = (if length (logger_name msg) > 0
             then push_back (CHR '' '') (push_back (CHR '']'') (append_string_view (logger_name msg) (push_back (CHR ''['') dest)))
             else dest);
           dest = push_back (CHR ''['') dest;
           msg = msg\<lparr>color_range_start := length dest\<rparr>
       in bind_outcome (to_string_view (lvl msg)) (\<lambda>level_name.
       let dest = append_string_view level_name dest;
           msg = msg\<lparr>color_range_end := length dest\<rparr>;
           dest = push_back (CHR '' '') (push_back (CHR '']'') dest)
       in bind_outcome (full_source env msg dest) (\<lambda>dest.
       Ok (st, msg, append_string_view (payload msg) dest)))))"

section \<open>The formatter objects\<close>

datatype flag_class =
    name_class | level_class | short_level_class | a_class | A_class | b_class | B_class | c_class | C_class
  | D_class | Y_class | m_class | d_class | H_class | I_class | M_class | S_class | e_class | f_class | F_class
  | E_class | p_class | r_class | R_class | T_class | t_class | pid_class | v_class | source_location_class
  | short_filename_class | source_filename_class | source_linenum_class | source_funcname_class

fun format_class :: "flag_class \<Rightarrow> formatter_fn" where
  "format_class name_class = name_formatter"
| "format_class level_class = level_formatter"
| "format_class short_level_class = short_level_formatter"
| "format_class a_class = a_formatter"
| "format_class A_class = A_formatter"
| "format_class b_class = b_formatter"
| "format_class B_class = B_formatter"
| "format_class c_class = c_formatter"
| "format_class C_class = C_formatter"
| "format_class D_class = D_formatter"
| "format_class Y_class = Y_formatter"
| "format_class m_class = m_formatter"
| "format_class d_class = d_formatter"
| "format_class H_class = H_formatter"
| "format_class I_class = I_formatter"
| "format_class M_class = M_formatter"
| "format_class S_class = S_formatter"
| "format_class e_class = e_formatter"
| "format_class f_class = f_formatter"
| "format_class F_class = F_formatter"
| "format_class E_class = E_formatter"
| "format_class p_class = p_formatter"
| "format_class r_class = r_formatter"
| "format_class R_class = R_formatter"
| "format_class T_class = T_formatter"
| "format_class t_class = t_formatter"
| "format_class pid_class = pid_formatter"
| "format_class v_class = v_formatter"
| "format_class source_location_class = source_location_formatter"
| "format_class short_filename_class = short_filename_formatter"
| "format_class source_filename_class = source_filename_formatter"
| "format_class source_linenum_class = source_linenum_formatter"
| "format_class source_funcname_class = source_funcname_formatter"

text \<open>
  An object behind a \<^verbatim>\<open>flag_formatter\<close> pointer. A custom formatter is code of the library's user: a
  function of the padding, the message, the time and the destination.
\<close>

type_synonym custom_fn = "padding_info \<Rightarrow> log_msg \<Rightarrow> tm \<Rightarrow> string \<Rightarrow> string outcome"

datatype flag_formatter =
    PlainFlag flag_class bool padding_info
  | Ch char
  | Aggregate string
  | ColorStart
  | ColorStop
  | ZFlag bool padding_info "int \<times> int"
  | Elapsed bool padding_info int int
  | Full "int \<times> string"
  | Custom custom_fn padding_info

text \<open>The virtual call \<^verbatim>\<open>f->format(msg, tm, dest)\<close>: the object, the message with its colour range, the text.\<close>

fun flag_format :: "log_env \<Rightarrow> tm \<Rightarrow> flag_formatter \<Rightarrow> log_msg \<Rightarrow> string \<Rightarrow> (flag_formatter \<times> log_msg \<times> string) outcome" where
  "flag_format env t (PlainFlag k sp p) msg dest =
     bind_outcome (format_class k sp p env msg t dest) (\<lambda>dest. Ok (PlainFlag k sp p, msg, dest))"
| "flag_format env t (Ch c) msg dest = Ok (Ch c, msg, push_back c dest)"
| "flag_format env t (Aggregate s) msg dest = Ok (Aggregate s, msg, append_string_view s dest)"
| "flag_format env t ColorStart msg dest = Ok (ColorStart, msg\<lparr>color_range_start := length dest\<rparr>, dest)"
| "flag_format env t ColorStop msg dest = Ok (ColorStop, msg\<lparr>color_range_end := length dest\<rparr>, dest)"
| "flag_format env t (ZFlag sp p st) msg dest =
     bind_outcome (z_formatter sp p msg t st dest) (\<lambda>(st, dest). Ok (ZFlag sp p st, msg, dest))"
| "flag_format env t (Elapsed sp p unit lmt) msg dest =
     bind_outcome (elapsed_formatter sp p unit env msg lmt dest) (\<lambda>(lmt, dest). Ok (Elapsed sp p unit lmt, msg, dest))"
| "flag_format env t (Full st) msg dest =
     bind_outcome (full_formatter env msg t st dest) (\<lambda>(st, msg, dest). Ok (Full st, msg, dest))"
| "flag_format env t (Custom fn p) msg dest =
     bind_outcome (fn p msg t dest) (\<lambda>dest. Ok (Custom fn p, msg, dest))"

datatype pattern_time_type = LocalTime | UtcTime

record pattern_formatter =
  pattern :: string
  eol :: string
  time_type :: pattern_time_type
  need_localtime :: bool
  cached_tm :: tm
  last_log_secs :: int
  formatters :: "flag_formatter list"
  custom_handlers :: "char \<rightharpoonup> custom_fn"

section \<open>Compiling a pattern\<close>

text \<open>The built-in flags of one formatter without state: the class and whether it needs the local time.\<close>

definition flag_table :: "(char \<times> flag_class \<times> bool) list" where
  "flag_table = [
     (CHR ''n'', name_class, False), (CHR ''l'', level_class, False), (CHR ''L'', short_level_class, False),
     (CHR ''t'', t_class, False), (CHR ''v'', v_class, False), (CHR ''a'', a_class, True), (CHR ''A'', A_class, True),
     (CHR ''b'', b_class, True), (CHR ''h'', b_class, True), (CHR ''B'', B_class, True), (CHR ''c'', c_class, True),
     (CHR ''C'', C_class, True), (CHR ''Y'', Y_class, True), (CHR ''D'', D_class, True), (CHR ''x'', D_class, True),
     (CHR ''m'', m_class, True), (CHR ''d'', d_class, True), (CHR ''H'', H_class, True), (CHR ''I'', I_class, True),
     (CHR ''M'', M_class, True), (CHR ''S'', S_class, True), (CHR ''e'', e_class, False), (CHR ''f'', f_class, False),
     (CHR ''F'', F_class, False), (CHR ''E'', E_class, False), (CHR ''p'', p_class, True), (CHR ''r'', r_class, True),
     (CHR ''R'', R_class, True), (CHR ''T'', T_class, True), (CHR ''X'', T_class, True), (CHR ''P'', pid_class, False),
     (CHR ''@'', source_location_class, False), (CHR ''s'', short_filename_class, False),
     (CHR ''g'', source_filename_class, False), (CHR ''#'', source_linenum_class, False),
     (CHR ''!'', source_funcname_class, False)]"

text \<open>The flags that print the time since the last message, with their units.\<close>

definition elapsed_table :: "(char \<times> int) list" where
  "elapsed_table = [(CHR ''u'', nanoseconds), (CHR ''i'', microseconds), (CHR ''o'', milliseconds), (CHR ''O'', seconds)]"

definition add_formatter :: "flag_formatter \<Rightarrow> bool \<Rightarrow> pattern_formatter \<Rightarrow> pattern_formatter" where
  "add_formatter f localtime pf =
     pf\<lparr>formatters := formatters pf @ [f], need_localtime := need_localtime pf \<or> localtime\<rparr>"

text \<open>The built-in flags. \<open>now\<close> is the clock at compilation, which \<^verbatim>\<open>elapsed_formatter\<close> starts from.\<close>

definition builtin_flag :: "int \<Rightarrow> bool \<Rightarrow> char \<Rightarrow> padding_info \<Rightarrow> pattern_formatter \<Rightarrow> pattern_formatter" where
  "builtin_flag now sp flag padding pf =
     (if flag = CHR ''+'' then add_formatter (Full (0, [])) True pf
      else if flag = CHR ''z'' then add_formatter (ZFlag sp padding (0, 0)) True pf
      else if flag = CHR ''^'' then add_formatter ColorStart False pf
      else if flag = CHR ''$'' then add_formatter ColorStop False pf
      else if flag = CHR ''%'' then add_formatter (Ch (CHR ''%'')) False pf
      else case map_of flag_table flag of
        Some (k, localtime) \<Rightarrow> add_formatter (PlainFlag k sp padding) localtime pf
      | None \<Rightarrow>
      case map_of elapsed_table flag of
        Some unit \<Rightarrow> add_formatter (Elapsed sp padding unit now) False pf
      | None \<Rightarrow>
      if \<not> trunc padding then add_formatter (Aggregate [CHR ''%'', flag]) False pf
      else add_formatter (Aggregate [flag]) False
             (add_formatter (PlainFlag source_funcname_class sp (padding\<lparr>trunc := False\<rparr>)) False pf))"

text \<open>User-defined flags take precedence.\<close>

definition handle_flag :: "int \<Rightarrow> bool \<Rightarrow> char \<Rightarrow> padding_info \<Rightarrow> pattern_formatter \<Rightarrow> pattern_formatter" where
  "handle_flag now sp flag padding pf =
     (case custom_handlers pf flag of
        Some fn \<Rightarrow> add_formatter (Custom fn padding) False pf
      | None \<Rightarrow> builtin_flag now sp flag padding pf)"

definition isdigit :: "char \<Rightarrow> bool" where
  "isdigit c \<longleftrightarrow> 48 \<le> (of_char c :: nat) \<and> (of_char c :: nat) \<le> 57"

fun read_width :: "size_t \<Rightarrow> string \<Rightarrow> size_t \<times> string" where
  "read_width w [] = (w, [])"
| "read_width w (c # cs) = (if isdigit c then read_width (w * 10 + of_nat (of_char c - 48)) cs else (w, c # cs))"

text \<open>The side and the truncation mark; both advance the iterator.\<close>

definition padspec_side :: "string \<Rightarrow> pad_side \<times> string" where
  "padspec_side it =
     (case it of [] \<Rightarrow> (PadLeft, [])
      | c # cs \<Rightarrow> if c = CHR ''-'' then (PadRight, cs) else if c = CHR ''='' then (PadCenter, cs) else (PadLeft, it))"

definition padspec_truncate :: "string \<Rightarrow> bool \<times> string" where
  "padspec_truncate it =
     (case it of [] \<Rightarrow> (False, []) | c # cs \<Rightarrow> if c = CHR ''!'' then (True, cs) else (False, it))"

text \<open>The padding and the rest of the pattern, from the iterator on.\<close>

definition handle_padspec :: "string \<Rightarrow> padding_info \<times> string" where
  "handle_padspec it =
     (if it = [] then (padding_info_none, it)
      else case padspec_side it of (sd, it) \<Rightarrow>
        (case it of [] \<Rightarrow> (padding_info_none, it)
         | d # ds \<Rightarrow>
           if \<not> isdigit d then (padding_info_none, it)
           else case read_width (of_nat (of_char d - 48)) ds of (w, it) \<Rightarrow>
             (case padspec_truncate it of (tr, it) \<Rightarrow> (padding_info_new (min (unat w) 64) sd tr, it))))"

lemma padspec_length:
  "length (snd (read_width w cs)) \<le> length cs" "length (snd (padspec_side cs)) \<le> length cs"
  "length (snd (padspec_truncate cs)) \<le> length cs"
  by (induction w cs rule: read_width.induct) (auto simp: padspec_side_def padspec_truncate_def split: list.splits)

lemma handle_padspec_length:
  assumes h: "handle_padspec it = (padding, rest)"
  shows "length rest \<le> length it"
proof -
  obtain sd it1 where s: "padspec_side it = (sd, it1)" by (metis surj_pair)
  have l: "length it1 \<le> length it" using padspec_length(2) [of it] s by simp
  show ?thesis
  proof (cases it1)
    case Nil
    then show ?thesis using h s by (auto simp: handle_padspec_def split: if_splits)
  next
    case (Cons d ds)
    obtain w it2 where r: "read_width (of_nat (of_char d - 48)) ds = (w, it2)" by (metis surj_pair)
    obtain tr it3 where t: "padspec_truncate it2 = (tr, it3)" by (metis surj_pair)
    have "length it3 \<le> length ds"
      using padspec_length(1) [of "of_nat (of_char d - 48)" ds] padspec_length(3) [of it2] r t by simp
    then show ?thesis using h s l Cons r t by (auto simp: handle_padspec_def split: if_splits)
  qed
qed

lemma handle_padspec_width: "handle_padspec it = (padding, rest) \<Longrightarrow> width padding \<le> 64"
  by (auto simp: handle_padspec_def padding_info_none_def padding_info_new_def split: list.splits prod.splits if_splits)

text \<open>The loop over the pattern; \<open>user_chars\<close> is the aggregate under construction, if any.\<close>

definition push_user_chars :: "string option \<Rightarrow> pattern_formatter \<Rightarrow> pattern_formatter" where
  "push_user_chars user_chars pf = (case user_chars of None \<Rightarrow> pf | Some s \<Rightarrow> add_formatter (Aggregate s) False pf)"

function compile_loop :: "int \<Rightarrow> string option \<Rightarrow> string \<Rightarrow> pattern_formatter \<Rightarrow> pattern_formatter" where
  "compile_loop now user_chars [] pf = push_user_chars user_chars pf"
| "compile_loop now user_chars (c # cs) pf =
     (if c = CHR ''%'' then
        let pf = push_user_chars user_chars pf in
        (case handle_padspec cs of
           (padding, []) \<Rightarrow> pf
         | (padding, flag # rest) \<Rightarrow> compile_loop now None rest (handle_flag now (pad_enabled padding) flag padding pf))
      else compile_loop now (Some ((case user_chars of None \<Rightarrow> [] | Some s \<Rightarrow> s) @ [c])) cs pf)"
  by pat_completeness auto
termination
  by (relation "measure (\<lambda>(now, user_chars, it, pf). length it)") (auto dest!: handle_padspec_length [OF sym])

definition compile_pattern :: "int \<Rightarrow> string \<Rightarrow> pattern_formatter \<Rightarrow> pattern_formatter" where
  "compile_pattern now pat pf = compile_loop now None pat (pf\<lparr>formatters := []\<rparr>)"

section \<open>The formatter\<close>

definition pattern_formatter_new ::
  "int \<Rightarrow> string \<Rightarrow> pattern_time_type \<Rightarrow> string \<Rightarrow> (char \<rightharpoonup> custom_fn) \<Rightarrow> pattern_formatter" where
  "pattern_formatter_new now pat tt end_of_line custom =
     compile_pattern now pat
       \<lparr>pattern = pat, eol = end_of_line, time_type = tt, need_localtime = False, cached_tm = tm_zero,
        last_log_secs = 0, formatters = [], custom_handlers = custom\<rparr>"

definition pattern_formatter_default :: "pattern_time_type \<Rightarrow> string \<Rightarrow> pattern_formatter" where
  "pattern_formatter_default tt end_of_line =
     \<lparr>pattern = ''%+'', eol = end_of_line, time_type = tt, need_localtime = True, cached_tm = tm_zero,
      last_log_secs = 0, formatters = [Full (0, [])], custom_handlers = Map.empty\<rparr>"

definition pattern_formatter_clone :: "int \<Rightarrow> pattern_formatter \<Rightarrow> pattern_formatter" where
  "pattern_formatter_clone now pf =
     pattern_formatter_new now (pattern pf) (time_type pf) (eol pf) (custom_handlers pf)"

definition add_flag :: "char \<Rightarrow> custom_fn \<Rightarrow> pattern_formatter \<Rightarrow> pattern_formatter" where
  "add_flag flag fn pf = pf\<lparr>custom_handlers := (custom_handlers pf)(flag \<mapsto> fn)\<rparr>"

definition set_pattern :: "int \<Rightarrow> string \<Rightarrow> pattern_formatter \<Rightarrow> pattern_formatter" where
  "set_pattern now pat pf = compile_pattern now pat (pf\<lparr>pattern := pat, need_localtime := False\<rparr>)"

text \<open>\<^verbatim>\<open>to_time_t\<close> of libstdc++ is the cast to seconds.\<close>

definition get_time :: "log_env \<Rightarrow> pattern_formatter \<Rightarrow> log_msg \<Rightarrow> tm" where
  "get_time env pf msg =
     (let t = duration_cast seconds (time msg)
      in case time_type pf of LocalTime \<Rightarrow> os_localtime env t | UtcTime \<Rightarrow> os_gmtime env t)"

definition refresh_time :: "log_env \<Rightarrow> log_msg \<Rightarrow> pattern_formatter \<Rightarrow> pattern_formatter" where
  "refresh_time env msg pf =
     (if need_localtime pf then
        let secs = duration_cast seconds (time msg) in
        if secs \<noteq> last_log_secs pf then pf\<lparr>cached_tm := get_time env pf msg, last_log_secs := secs\<rparr> else pf
      else pf)"

fun format_all :: "log_env \<Rightarrow> tm \<Rightarrow> flag_formatter list \<Rightarrow> log_msg \<Rightarrow> string \<Rightarrow> (flag_formatter list \<times> log_msg \<times> string) outcome" where
  "format_all env t [] msg dest = Ok ([], msg, dest)"
| "format_all env t (f # fs) msg dest =
     bind_outcome (flag_format env t f msg dest) (\<lambda>(f, msg, dest).
     bind_outcome (format_all env t fs msg dest) (\<lambda>(fs, msg, dest). Ok (f # fs, msg, dest)))"

definition format_msg :: "log_env \<Rightarrow> pattern_formatter \<Rightarrow> log_msg \<Rightarrow> string \<Rightarrow> (pattern_formatter \<times> log_msg \<times> string) outcome" where
  "format_msg env pf msg dest =
     (let pf = refresh_time env msg pf in
      bind_outcome (format_all env (cached_tm pf) (formatters pf) msg dest) (\<lambda>(fs, msg, dest).
        Ok (pf\<lparr>formatters := fs\<rparr>, msg, append_string_view (eol pf) dest)))"

end
