(* ===== verification/Log_Format.thy ===== *)
theory Log_Format
  imports Log_Pattern
begin

text \<open>
  What patterns print. The padder pads and cuts as the reference \<open>pad_text\<close> says; a compiled pattern
  never leaves defined behaviour (widths are at most 64, table indices in range); the caches of a
  formatter cannot be observed. At the end the line the two programs of this project print.
\<close>

section \<open>What the padder does\<close>

definition blanks :: "nat \<Rightarrow> string" where
  "blanks n = replicate n (CHR '' '')"

text \<open>Reference: a text padded to a width, or cut to it.\<close>

definition pad_text :: "padding_info \<Rightarrow> string \<Rightarrow> string" where
  "pad_text p s =
     (let gap = width p - length s in
      if length s \<le> width p then
        (case side p of PadLeft \<Rightarrow> blanks gap @ s | PadRight \<Rightarrow> s @ blanks gap
         | PadCenter \<Rightarrow> blanks (gap div 2) @ s @ blanks (gap - gap div 2))
      else if trunc p then take (width p) s else s)"

lemma length_pad_text:
  "length (pad_text p s) = (if length s \<le> width p \<or> trunc p then width p else length s)"
  by (auto simp: pad_text_def Let_def blanks_def split: pad_side.splits)

lemma pad_it_blanks: "n \<le> 64 \<Longrightarrow> pad_it (int n) dest = Ok (dest @ blanks n)"
  by (simp add: pad_it_def append_string_view_def blanks_def)

lemma scoped_pads:
  assumes "width p \<le> 64" "\<And>d. body d = Ok (d @ s)"
  shows "scoped True p (length s) body dest = Ok (dest @ pad_text p s)"
proof (cases "length s < width p")
  case True
  then obtain gap where gap: "width p = length s + gap" "0 < gap" by (metis less_imp_add_positive)
  then have w: "gap \<le> 64" "gap div 2 \<le> 64" "gap - gap div 2 \<le> 64" using assms(1) by simp_all
  have r: "int gap div 2 = int (gap div 2)" "int gap div 2 + int gap mod 2 = int (gap - gap div 2)"
    by (simp_all add: zdiv_int)
  have z: "pad_it 0 d = Ok d" for d by (simp add: pad_it_def append_string_view_def)
  show ?thesis
  proof (cases "side p")
    case PadCenter
    have p1: "pad_it (int gap div 2) dest = Ok (dest @ blanks (gap div 2))"
      unfolding r(1) by (rule pad_it_blanks [OF w(2)])
    have p2: "pad_it (int gap div 2 + int gap mod 2) (dest @ blanks (gap div 2) @ s) =
        Ok (dest @ blanks (gap div 2) @ s @ blanks (gap - gap div 2))"
      unfolding r(2) using pad_it_blanks [OF w(3), of "dest @ blanks (gap div 2) @ s"] by (simp only: append_assoc)
    have nn: "0 \<le> int gap div 2 + int gap mod 2" by simp
    show ?thesis using gap PadCenter p1 p2 nn
      by (simp add: scoped_def scoped_padder_new_def scoped_padder_delete_def pad_text_def assms(2) Let_def)
  qed (use gap w z in \<open>simp_all add: scoped_def scoped_padder_new_def scoped_padder_delete_def pad_text_def assms(2) pad_it_blanks\<close>)
next
  case False
  have "pad_it 0 d = Ok d" for d by (simp add: pad_it_def append_string_view_def)
  then show ?thesis using False assms(2)
    by (auto simp: scoped_def scoped_padder_new_def scoped_padder_delete_def pad_text_def Let_def blanks_def nat_int_add split: pad_side.splits)
qed


section \<open>Formatting is defined\<close>

text \<open>
  \<open>defined_by P m\<close>: the computation returns a result with \<open>P\<close> or throws an exception (which the logger
  catches); it has no undefined behaviour.
\<close>

definition defined_by :: "('a \<Rightarrow> bool) \<Rightarrow> 'a outcome \<Rightarrow> bool" where
  "defined_by P m = (case m of Ok x \<Rightarrow> P x | Throw \<Rightarrow> True | _ \<Rightarrow> False)"

lemma defined_by_simps [simp]:
  "defined_by P (Ok x) = P x" "defined_by P Throw" "\<not> defined_by P (Ub u)" "\<not> defined_by P Abort" "\<not> defined_by P Spin"
  by (simp_all add: defined_by_def)

lemma defined_by_bind: "defined_by Q m \<Longrightarrow> (\<And>x. Q x \<Longrightarrow> defined_by P (f x)) \<Longrightarrow> defined_by P (bind_outcome m f)"
  by (cases m) auto

text \<open>A body that appends.\<close>

definition appends :: "(string \<Rightarrow> string outcome) \<Rightarrow> bool" where
  "appends body \<longleftrightarrow> (\<forall>d. \<exists>s. body d = Ok (d @ s))"

lemma scoped_defined:
  assumes "appends body" "width p \<le> 64"
  shows "defined_by (\<lambda>_. True) (scoped sp p n body dest)"
proof (cases sp)
  case True
  let ?r = "int (width p) - int n"
  have new: "defined_by (\<lambda>(d, r). r \<le> 64) (scoped_padder_new n p dest)"
    using assms(2) by (auto simp: scoped_padder_new_def pad_it_def Let_def split: pad_side.splits)
  have del: "defined_by (\<lambda>_. True) (scoped_padder_delete p r d)" if "r \<le> 64" for r d
    using that by (auto simp: scoped_padder_delete_def pad_it_def Let_def)
  show ?thesis unfolding scoped_def using True assms(1) del
    by (auto simp: appends_def intro!: defined_by_bind [OF new]) (metis bind_outcome.simps(1))
next
  case False
  then show ?thesis using assms(1) by (auto simp: scoped_def appends_def) (metis defined_by_simps(1))
qed

lemma appends_const [simp]: "appends (\<lambda>d. Ok (d @ s))"
  and appends_pad2 [simp]: "appends (\<lambda>d. Ok (pad2 n d))"
  by (auto simp: appends_def pad2_def)

lemma append_string_view_app: "append_string_view s d = d @ s" by (simp add: append_string_view_def)

lemma appends_comp: "appends f \<Longrightarrow> appends (\<lambda>d. f (d @ s))"
  unfolding appends_def by (metis append.assoc)

lemma appends_then_pad2: "appends f \<Longrightarrow> appends (\<lambda>d. f (pad2 n d))"
  unfolding appends_def by (metis append.assoc pad2_append)

lemma appends_bind: "appends f \<Longrightarrow> appends g \<Longrightarrow> appends (\<lambda>d. bind_outcome (f d) g)"
  unfolding appends_def by (metis append.assoc bind_outcome.simps(1))

lemma push_back_app: "push_back c d = d @ [c]" by (simp add: push_back_def)

text \<open>Messages and times the formatters can print.\<close>

definition tm_ok :: "tm \<Rightarrow> bool" where
  "tm_ok t \<longleftrightarrow> 0 \<le> tm_wday t \<and> tm_wday t < 7 \<and> 0 \<le> tm_mon t \<and> tm_mon t < 12 \<and>
     - (2 ^ 31) \<le> tm_mday t \<and> tm_mday t < 2 ^ 31 \<and> - (2 ^ 31) \<le> tm_year t + 1900 \<and> tm_year t + 1900 < 2 ^ 31"

definition msg_ok :: "log_msg \<Rightarrow> bool" where
  "msg_ok msg \<longleftrightarrow> lvl msg \<noteq> NLevels \<and> - (2 ^ 63) \<le> time msg \<and> time msg < 2 ^ 63 \<and>
     - (2 ^ 31) \<le> line (source msg) \<and> line (source msg) < 2 ^ 31 \<and>
     (line (source msg) \<noteq> 0 \<longrightarrow> filename (source msg) \<noteq> None \<and> funcname (source msg) \<noteq> None)"

definition env_ok :: "log_env \<Rightarrow> bool" where
  "env_ok env \<longleftrightarrow> length (os_junk env) = buffer_size \<and> (\<forall>t. tm_ok (os_localtime env t)) \<and> (\<forall>t. tm_ok (os_gmtime env t))"

lemma level_name_defined:
  assumes "l \<noteq> NLevels"
  obtains n s where "to_string_view l = Ok n" "to_short_c_str l = Ok [s]"
  using assms by (cases l) (auto simp: to_string_view_def to_short_c_str_def array_at_def level_string_views_def short_level_names_def)

lemma array_at_Ok: "0 \<le> i \<Longrightarrow> i < int (length xs) \<Longrightarrow> array_at xs i = Ok (xs ! nat i)"
  by (simp add: array_at_def)

lemma appends_ints [simp]:
  assumes "length junk = buffer_size"
  shows "appends (append_uint64 junk w)" "appends (append_uint32 junk v)" "appends (pad3 junk v)" "appends (pad6 junk w)" "appends (pad9 junk w)"
    and "- (2 ^ 31) \<le> n \<Longrightarrow> n < 2 ^ 31 \<Longrightarrow> appends (append_int32 junk n)" 
    and "- (2 ^ 63) \<le> m \<Longrightarrow> m < 2 ^ 63 \<Longrightarrow> appends (append_int64 junk m)"
  using assms by (auto simp: appends_def pad6_def pad9_def pad3_def Let_def)

lemmas formatter_defs = name_formatter_def level_formatter_def short_level_formatter_def a_formatter_def
  A_formatter_def b_formatter_def B_formatter_def c_formatter_def C_formatter_def D_formatter_def Y_formatter_def
  m_formatter_def d_formatter_def H_formatter_def I_formatter_def M_formatter_def S_formatter_def e_formatter_def
  f_formatter_def F_formatter_def E_formatter_def p_formatter_def r_formatter_def R_formatter_def T_formatter_def
  t_formatter_def pid_formatter_def v_formatter_def source_location_formatter_def source_filename_formatter_def
  short_filename_formatter_def source_linenum_formatter_def source_funcname_formatter_def


lemma scoped_string_defined: "width p \<le> 64 \<Longrightarrow> defined_by (\<lambda>_. True) (scoped sp p n (\<lambda>d. Ok (append_string_view s d)) dest)"
  unfolding append_string_view_app by (rule scoped_defined) simp_all

lemma scoped_empty_defined: "width p \<le> 64 \<Longrightarrow> defined_by (\<lambda>_. True) (scoped sp p n Ok dest)"
  by (rule scoped_defined) (auto simp: appends_def)

lemma scoped_pad2_defined: "width p \<le> 64 \<Longrightarrow> defined_by (\<lambda>_. True) (scoped sp p n (\<lambda>d. Ok (pad2 k d)) dest)"
  by (rule scoped_defined) simp_all

lemma seconds_in_range: "- (2 ^ 63) \<le> t \<Longrightarrow> t < 2 ^ 63 \<Longrightarrow> - (2 ^ 63) \<le> duration_cast seconds t \<and> duration_cast seconds t < 2 ^ 63"
proof -
  assume t: "- (2 ^ 63) \<le> t" "t < 2 ^ 63"
  have "\<bar>t\<bar> div 10 ^ 9 < 2 ^ 63 - 1" using t by (auto simp: abs_if)
  then have "\<bar>c_div t (10 ^ 9)\<bar> < 2 ^ 63" by (simp add: c_div_def abs_mult abs_sgn_eq)
  then show ?thesis by (simp add: duration_cast_def seconds_def abs_less_iff)
qed

lemma date_parts_defined:
  assumes "tm_ok t"
  shows "array_at days (tm_wday t) = Ok (days ! nat (tm_wday t))" "array_at full_days (tm_wday t) = Ok (full_days ! nat (tm_wday t))"
    "array_at months (tm_mon t) = Ok (months ! nat (tm_mon t))" "array_at full_months (tm_mon t) = Ok (full_months ! nat (tm_mon t))"
  using assms by (auto simp: array_at_def tm_ok_def days_def full_days_def months_def full_months_def)

lemma c_formatter_defined:
  assumes "tm_ok t" "length (os_junk env) = buffer_size" "width p \<le> 64"
  shows "defined_by (\<lambda>_. True) (c_formatter sp p env msg t dest)"
proof -
  have "appends (append_int32 (os_junk env) (tm_mday t))" "appends (append_int32 (os_junk env) (tm_year t + 1900))"
    using assms(1,2) by (auto simp: tm_ok_def)
  then show ?thesis unfolding c_formatter_def date_parts_defined [OF assms(1)] bind_outcome.simps Let_def push_back_app append_string_view_app
    by (intro scoped_defined [OF _ assms(3)] appends_bind appends_comp appends_then_pad2)
qed

lemma source_formatters_defined:
  assumes "msg_ok msg" "length (os_junk env) = buffer_size" and w: "width p \<le> 64"
  shows "defined_by (\<lambda>_. True) (source_location_formatter sp p env msg t dest)"
    "defined_by (\<lambda>_. True) (source_filename_formatter sp p env msg t dest)"
    "defined_by (\<lambda>_. True) (short_filename_formatter sp p env msg t dest)"
    "defined_by (\<lambda>_. True) (source_linenum_formatter sp p env msg t dest)"
    "defined_by (\<lambda>_. True) (source_funcname_formatter sp p env msg t dest)"
proof -
  have i: "appends (append_int32 (os_junk env) (line (source msg)))" using assms by (simp add: msg_ok_def)
  note d = scoped_string_defined [OF w] scoped_empty_defined [OF w]
  show "defined_by (\<lambda>_. True) (source_location_formatter sp p env msg t dest)"
    using assms(1) i d unfolding source_location_formatter_def append_string_view_app push_back_app
    by (auto simp: msg_ok_def source_loc_empty_def deref_cstr_def Let_def intro!: scoped_defined [OF _ w] appends_comp)
  show "defined_by (\<lambda>_. True) (source_filename_formatter sp p env msg t dest)"
    "defined_by (\<lambda>_. True) (short_filename_formatter sp p env msg t dest)"
    "defined_by (\<lambda>_. True) (source_funcname_formatter sp p env msg t dest)"
    using assms(1) d unfolding source_filename_formatter_def short_filename_formatter_def source_funcname_formatter_def
    by (auto simp: msg_ok_def source_loc_empty_def deref_cstr_def Let_def)
  show "defined_by (\<lambda>_. True) (source_linenum_formatter sp p env msg t dest)"
    using i d by (auto simp: source_linenum_formatter_def intro!: scoped_defined [OF _ w])
qed

lemma format_class_defined:
  assumes env: "length (os_junk env) = buffer_size" and t: "tm_ok t" and msg: "msg_ok msg" and w: "width p \<le> 64"
  shows "defined_by (\<lambda>_. True) (format_class k sp p env msg t dest)"
proof -
  obtain ln sn where l: "to_string_view (lvl msg) = Ok ln" "to_short_c_str (lvl msg) = Ok [sn]"
    using msg level_name_defined by (metis msg_ok_def)
  have i: "appends (append_int32 (os_junk env) (tm_year t + 1900))"
    "appends (append_int64 (os_junk env) (duration_cast seconds (time msg)))"
    using env t msg seconds_in_range [of "time msg"] by (simp_all add: msg_ok_def tm_ok_def)
  note d = scoped_string_defined [OF w] scoped_pad2_defined [OF w]
  note a = scoped_defined [OF _ w] appends_comp appends_then_pad2 appends_const appends_pad2
  note c = c_formatter_defined [OF t env w] source_formatters_defined [OF msg env w]
  show ?thesis
    by (cases k; simp only: format_class.simps c)
      (unfold formatter_defs l date_parts_defined [OF t] bind_outcome.simps Let_def push_back_app append_string_view_app,
       (intro a i appends_ints [OF env])+)
qed


lemma z_formatter_defined:
  assumes w: "width p \<le> 64"
  shows "defined_by (\<lambda>_. True) (z_formatter sp p msg t st dest)"
proof -
  note a = scoped_defined [OF _ w] appends_comp appends_then_pad2 appends_const appends_pad2
  show ?thesis unfolding z_formatter_def Let_def push_back_app
    by (rule defined_by_bind [where Q = "\<lambda>_. True"]) (intro a, simp)
qed

lemma elapsed_formatter_defined:
  assumes "length (os_junk env) = buffer_size" and w: "width p \<le> 64"
  shows "defined_by (\<lambda>_. True) (elapsed_formatter sp p unit env msg lmt dest)"
  unfolding elapsed_formatter_def Let_def using assms
  by (intro defined_by_bind [where Q = "\<lambda>_. True"] scoped_defined) simp_all

lemma pad2_Cons: "pad2 n (c # d) = c # pad2 n d"
  by (simp add: pad2_def)

lemma full_datetime_defined:
  assumes "length (os_junk env) = buffer_size" "tm_ok t"
  shows "\<exists>d. full_datetime env t = Ok (CHR ''['' # d)"
proof -
  have y: "- (2 ^ 31) \<le> tm_year t + 1900" "tm_year t + 1900 < 2 ^ 31" using assms(2) by (simp_all add: tm_ok_def)
  have "append_int32 (os_junk env) (tm_year t + 1900) ''['' = Ok (''['' @ decimal_int (tm_year t + 1900))"
    by (rule append_int32 [OF assms(1) y])
  then show ?thesis
    by (simp add: full_datetime_def push_back_app pad2_Cons)
qed

text \<open>Formatting changes nothing of the message but its colour range.\<close>

definition same_msg :: "log_msg \<Rightarrow> log_msg \<Rightarrow> bool" where
  "same_msg m m' \<longleftrightarrow> m'\<lparr>color_range_start := 0, color_range_end := 0\<rparr> = m\<lparr>color_range_start := 0, color_range_end := 0\<rparr>"

lemma same_msg_simps [simp]:
  "same_msg m m" "same_msg m (m\<lparr>color_range_start := a\<rparr>)" "same_msg m (m\<lparr>color_range_end := b\<rparr>)"
  "same_msg m (m\<lparr>color_range_start := a, color_range_end := b\<rparr>)"
  by (simp_all add: same_msg_def)

lemma same_msg_ok: "same_msg m m' \<Longrightarrow> msg_ok m \<Longrightarrow> msg_ok m'"
  by (cases m, cases m') (simp add: same_msg_def msg_ok_def)

lemma same_msg_trans: "same_msg a b \<Longrightarrow> same_msg b c \<Longrightarrow> same_msg a c"
  by (simp add: same_msg_def)

lemma full_source_defined:
  assumes "length (os_junk env) = buffer_size" "msg_ok msg"
  shows "defined_by (\<lambda>_. True) (full_source env msg dest)"
  using assms by (auto simp: full_source_def msg_ok_def source_loc_empty_def deref_cstr_def)

lemma full_formatter_defined:
  assumes env: "length (os_junk env) = buffer_size" and t: "tm_ok t" and msg: "msg_ok msg"
  shows "defined_by (\<lambda>(st, m, d). same_msg msg m) (full_formatter env msg t st dest)"
proof -
  obtain dt where dt: "full_datetime env t = Ok dt" using full_datetime_defined [OF env t] by blast
  then have "\<exists>st'. full_cache env msg t st = Ok st'" by (cases st) (simp add: full_cache_def Let_def)
  then obtain st' where st: "full_cache env msg t st = Ok st'" by blast
  obtain ms where ms: "\<And>d. pad3 (os_junk env) (word_of_int (time_fraction milliseconds (time msg))) d = Ok (d @ ms d)"
    using appends_ints(3) [OF env] unfolding appends_def by metis
  obtain ln where l: "to_string_view (lvl msg) = Ok ln" using msg level_name_defined by (metis msg_ok_def)
  show ?thesis
    by (auto simp: full_formatter_def st ms l Let_def 
        intro!: defined_by_bind [OF full_source_defined [OF env same_msg_ok [OF _ msg]]])
qed

fun fmt_ok :: "flag_formatter \<Rightarrow> bool" where
  "fmt_ok (PlainFlag k sp p) \<longleftrightarrow> width p \<le> 64"
| "fmt_ok (ZFlag sp p st) \<longleftrightarrow> width p \<le> 64"
| "fmt_ok (Elapsed sp p unit lmt) \<longleftrightarrow> width p \<le> 64"
| "fmt_ok (Custom fn p) \<longleftrightarrow> False"
| "fmt_ok _ \<longleftrightarrow> True"

lemma flag_format_defined:
  assumes env: "length (os_junk env) = buffer_size" and t: "tm_ok t" and msg: "msg_ok msg" and f: "fmt_ok f"
  shows "defined_by (\<lambda>(f', m, d). fmt_ok f' \<and> same_msg msg m) (flag_format env t f msg dest)"
proof (cases f)
  case (PlainFlag k sp p)
  with f show ?thesis by (auto intro!: defined_by_bind [OF format_class_defined [OF env t msg]])
next
  case (ZFlag sp p st)
  with f show ?thesis by (auto intro!: defined_by_bind [OF z_formatter_defined])
next
  case (Elapsed sp p unit lmt)
  with f show ?thesis by (auto intro!: defined_by_bind [OF elapsed_formatter_defined [OF env]])
next
  case (Full st)
  then show ?thesis by (auto intro!: defined_by_bind [OF full_formatter_defined [OF env t msg]])
qed (use f in auto)

lemma format_all_defined:
  assumes env: "length (os_junk env) = buffer_size" and t: "tm_ok t"
  shows "msg_ok msg \<Longrightarrow> list_all fmt_ok fs \<Longrightarrow>
    defined_by (\<lambda>(fs', m, d). list_all fmt_ok fs' \<and> same_msg msg m) (format_all env t fs msg dest)"
proof (induction fs arbitrary: msg dest)
  case (Cons f fs)
  note f = flag_format_defined [OF env t Cons.prems(1), of f dest]
  show ?case unfolding format_all.simps
  proof (rule defined_by_bind [OF f], goal_cases)
    case 1
    show ?case using Cons.prems by simp
  next
    case (2 r)
    then obtain f' m d where r: "r = (f', m, d)" "fmt_ok f'" "same_msg msg m" by (cases r) auto
    have "defined_by (\<lambda>(fs', m', d). list_all fmt_ok fs' \<and> same_msg m m') (format_all env t fs m d)"
      using Cons.prems same_msg_ok [OF r(3)] by (intro Cons.IH) simp_all
    then show ?case unfolding r(1) prod.case
      by (rule defined_by_bind) (use r in \<open>auto intro: same_msg_trans\<close>)
  qed
qed simp


lemma refresh_time_simps [simp]:
  "formatters (refresh_time env msg pf) = formatters pf" "custom_handlers (refresh_time env msg pf) = custom_handlers pf"
  "eol (refresh_time env msg pf) = eol pf" "time_type (refresh_time env msg pf) = time_type pf"
  "need_localtime (refresh_time env msg pf) = need_localtime pf" "pattern (refresh_time env msg pf) = pattern pf"
  by (simp_all add: refresh_time_def Let_def)

definition pf_ok :: "pattern_formatter \<Rightarrow> bool" where
  "pf_ok pf \<longleftrightarrow> tm_ok (cached_tm pf) \<and> list_all fmt_ok (formatters pf)"

lemma refresh_time_ok: "env_ok env \<Longrightarrow> pf_ok pf \<Longrightarrow> pf_ok (refresh_time env msg pf)"
  by (auto simp: pf_ok_def refresh_time_def Let_def get_time_def env_ok_def split: pattern_time_type.splits)

lemma format_msg_defined:
  assumes "env_ok env" "pf_ok pf" "msg_ok msg"
  shows "defined_by (\<lambda>(pf', m, d). pf_ok pf') (format_msg env pf msg dest)"
proof -
  let ?pf = "refresh_time env msg pf"
  have p: "tm_ok (cached_tm ?pf)" "list_all fmt_ok (formatters ?pf)" and j: "length (os_junk env) = buffer_size"
    using refresh_time_ok [OF assms(1,2), of msg] assms(1) by (auto simp: pf_ok_def env_ok_def)
  show ?thesis unfolding format_msg_def Let_def
    by (rule defined_by_bind [OF format_all_defined [OF j p(1) assms(3) p(2)]]) (auto simp: pf_ok_def p(1))
qed

text \<open>What compiling a pattern produces.\<close>

lemma compile_loop_inv:
  assumes agg: "\<And>s pf. I pf \<Longrightarrow> I (add_formatter (Aggregate s) False pf)"
    and flag: "\<And>sp flag p pf. I pf \<Longrightarrow> width p \<le> 64 \<Longrightarrow> I (handle_flag now sp flag p pf)"
  shows "I pf \<Longrightarrow> I (compile_loop now uc s pf)"
  using flag
proof (induction now uc s pf rule: compile_loop.induct)
  case (1 now uc pf)
  then show ?case by (simp add: push_user_chars_def agg split: option.split)
next
  case (2 now uc c cs pf)
  let ?pf = "push_user_chars uc pf"
  have u: "I ?pf" using 2(3) by (simp add: push_user_chars_def agg split: option.split)
  show ?case
  proof (cases "c = CHR ''%''")
    case True
    obtain padding rest where h: "handle_padspec cs = (padding, rest)" by (metis surj_pair)
    show ?thesis
    proof (cases rest)
      case Nil
      then show ?thesis using True h u by simp
    next
      case (Cons flag rs)
      have "I (handle_flag now (pad_enabled padding) flag padding ?pf)"
        using 2(4) [OF u handle_padspec_width [OF h]] .
      then show ?thesis using 2(1) [OF True refl, of padding rest flag rs] 2(4) True h Cons by simp
    qed
  next
    case False
    then show ?thesis using 2 by simp
  qed
qed

definition compiled_ok :: "pattern_formatter \<Rightarrow> bool" where
  "compiled_ok pf \<longleftrightarrow> custom_handlers pf = Map.empty \<and> list_all fmt_ok (formatters pf) \<and> cached_tm pf = tm_zero"

lemma compile_loop_ok: "compiled_ok pf \<Longrightarrow> compiled_ok (compile_loop now uc s pf)"
  by (rule compile_loop_inv)
    (simp_all add: compiled_ok_def handle_flag_def builtin_flag_def add_formatter_def split: option.split prod.split)

lemma pattern_formatter_new_ok: "pf_ok (pattern_formatter_new now pat tt e Map.empty)"
  using compile_loop_ok [of "\<lparr>pattern = pat, eol = e, time_type = tt, need_localtime = False, cached_tm = tm_zero,
        last_log_secs = 0, formatters = [], custom_handlers = Map.empty\<rparr>" now None pat]
  by (simp add: compiled_ok_def pf_ok_def pattern_formatter_new_def compile_pattern_def tm_ok_def tm_zero_def)

text \<open>A sequence of messages through one formatter.\<close>

fun format_seq :: "log_env \<Rightarrow> pattern_formatter \<Rightarrow> log_msg list \<Rightarrow> string list outcome" where
  "format_seq env pf [] = Ok []"
| "format_seq env pf (m # ms) =
     bind_outcome (format_msg env pf m []) (\<lambda>(pf, m, out). bind_outcome (format_seq env pf ms) (\<lambda>outs. Ok (out # outs)))"

lemma format_seq_defined:
  "env_ok env \<Longrightarrow> pf_ok pf \<Longrightarrow> list_all msg_ok ms \<Longrightarrow> defined_by (\<lambda>_. True) (format_seq env pf ms)"
proof (induction ms arbitrary: pf)
  case (Cons m ms)
  show ?case unfolding format_seq.simps
  proof (rule defined_by_bind [OF format_msg_defined [OF Cons.prems(1,2)]])
    show "msg_ok m" using Cons.prems(3) by simp
    fix x :: "pattern_formatter \<times> log_msg \<times> string"
    assume "case x of (pf', m, d) \<Rightarrow> pf_ok pf'"
    then show "defined_by (\<lambda>_. True) (case x of (pf, m, out) \<Rightarrow> bind_outcome (format_seq env pf ms) (\<lambda>outs. Ok (out # outs)))"
      using Cons by (cases x) (auto intro!: defined_by_bind [where Q = "\<lambda>_. True"])
  qed
qed simp


section \<open>The caches are invisible\<close>

text \<open>
  A formatter in the state \<open>f\<close> stands for the same formatter freshly constructed. Its cache is consistent
  when it holds what a fresh computation would give: for \<open>ZFlag\<close> the one offset \<open>off\<close> of the zone, for
  \<open>Full\<close> the date of the cached second.
\<close>

fun fresh_flag :: "flag_formatter \<Rightarrow> flag_formatter" where
  "fresh_flag (ZFlag sp p st) = ZFlag sp p (0, 0)"
| "fresh_flag (Full st) = Full (0, [])"
| "fresh_flag f = f"

fun no_elapsed :: "flag_formatter \<Rightarrow> bool" where
  "no_elapsed (Elapsed sp p unit lmt) = False"
| "no_elapsed f = True"

fun cache_ok :: "log_env \<Rightarrow> (int \<Rightarrow> tm) \<Rightarrow> int \<Rightarrow> flag_formatter \<Rightarrow> bool" where
  "cache_ok env tm_of off (ZFlag sp p (last_update, offset)) \<longleftrightarrow> last_update = 0 \<or> offset = off"
| "cache_ok env tm_of off (Full (ts, dt)) \<longleftrightarrow> dt = [] \<or> full_datetime env (tm_of ts) = Ok dt"
| "cache_ok env tm_of off _ \<longleftrightarrow> True"

lemma get_cached_offset_fresh:
  assumes "10 * seconds \<le> time msg" "utc_minutes_offset t = off" "cache_ok env tm_of off (ZFlag sp p st)"
  shows "snd (get_cached_offset msg t st) = off" "snd (get_cached_offset msg t (0, 0)) = off"
  using assms by (cases st; auto simp: get_cached_offset_def)+

lemma z_formatter_fresh:
  assumes "10 * seconds \<le> time msg" "utc_minutes_offset t = off" "cache_ok env tm_of off (ZFlag sp p st)"
  shows "bind_outcome (z_formatter sp p msg t (0, 0) dest) (\<lambda>(st, d). Ok d) = bind_outcome (z_formatter sp p msg t st dest) (\<lambda>(st, d). Ok d)"
  by (simp add: z_formatter_def get_cached_offset_fresh [OF assms] bind_outcome_assoc Let_def)

lemma full_cache_fresh:
  assumes "t = tm_of (duration_cast seconds (time msg))" "cache_ok env tm_of off (Full st)"
  shows "bind_outcome (full_cache env msg t (0, [])) (\<lambda>st. Ok (snd st)) = bind_outcome (full_cache env msg t st) (\<lambda>st. Ok (snd st))"
    and "full_cache env msg t st = Ok st' \<Longrightarrow> cache_ok env tm_of off (Full st')"
  using assms by (cases st; auto simp: full_cache_def Let_def bind_outcome_assoc bind_outcome_Ok_iff split: if_splits)+


text \<open>\<open>full_formatter\<close> depends on its cache only through the cached text.\<close>

definition full_rest :: "log_env \<Rightarrow> log_msg \<Rightarrow> string \<Rightarrow> string \<Rightarrow> (log_msg \<times> string) outcome" where
  "full_rest env msg dt dest = bind_outcome (full_formatter env msg tm_zero (duration_cast seconds (time msg), dt) dest) (\<lambda>(st, r). Ok r)"

lemma full_formatter_split:
  assumes "full_cache env msg t st = Ok (s, dt)" "dt \<noteq> []"
  shows "full_formatter env msg t st dest = bind_outcome (full_rest env msg dt dest) (\<lambda>(m, d). Ok ((s, dt), m, d))"
proof -
  have "full_cache env msg tm_zero (duration_cast seconds (time msg), dt) = Ok (duration_cast seconds (time msg), dt)"
    using assms(2) by (simp add: full_cache_def)
  then show ?thesis using assms(1)
    by (simp add: full_rest_def full_formatter_def bind_outcome_assoc Let_def)
qed

lemma full_rest_same: "full_rest env msg dt dest = Ok (m, d) \<Longrightarrow> same_msg msg m"
  by (auto simp: full_rest_def full_formatter_def bind_outcome_Ok_iff Let_def)

lemma full_datetime_nonempty: "full_datetime env t = Ok dt \<Longrightarrow> dt \<noteq> []"
  by (auto simp: full_datetime_def bind_outcome_Ok_iff push_back_app)

lemma full_cache_nonempty: "full_cache env msg t st = Ok (s, dt) \<Longrightarrow> dt \<noteq> []"
  by (cases st) (auto simp: full_cache_def Let_def bind_outcome_Ok_iff dest: full_datetime_nonempty split: if_splits)

lemma flag_format_same: "flag_format env t f msg dest = Ok (f', m, d) \<Longrightarrow> same_msg msg m"
proof (cases f)
  case (Full st)
  assume "flag_format env t f msg dest = Ok (f', m, d)"
  then have "\<exists>s. full_formatter env msg t st dest = Ok (s, m, d)" using Full by (auto simp: bind_outcome_Ok_iff)
  then show ?thesis by (auto simp: full_formatter_def bind_outcome_Ok_iff Let_def)
qed (auto simp: bind_outcome_Ok_iff)

lemma flag_format_fresh:
  assumes "flag_format env t f msg dest = Ok (f', m, d)" "10 * seconds \<le> time msg"
    and t: "t = tm_of (duration_cast seconds (time msg))" "utc_minutes_offset t = off"
    and f: "cache_ok env tm_of off f" "no_elapsed f"
  shows "(\<exists>f''. flag_format env t (fresh_flag f) msg dest = Ok (f'', m, d)) \<and>
    fresh_flag f' = fresh_flag f \<and> cache_ok env tm_of off f' \<and> no_elapsed f'"
proof (cases f)
  case (ZFlag sp p st)
  then obtain st' where z: "z_formatter sp p msg t st dest = Ok (st', d)" "f' = ZFlag sp p st'" "m = msg"
    using assms(1) by (auto simp: bind_outcome_Ok_iff)
  have st': "st' = get_cached_offset msg t st" using z(1) by (auto simp: z_formatter_def bind_outcome_Ok_iff Let_def)
  have "snd st' = off" using get_cached_offset_fresh(1) [OF assms(2) t(2)] f(1) ZFlag st' by blast
  moreover have "bind_outcome (z_formatter sp p msg t (0, 0) dest) (\<lambda>(st, d). Ok d) = Ok d"
    using z_formatter_fresh [OF assms(2) t(2)] f(1) ZFlag z(1) by simp
  ultimately show ?thesis using ZFlag z by (cases st') (auto simp: bind_outcome_Ok_iff)
next
  case (Full st)
  then obtain s dt where fc: "full_cache env msg t st = Ok (s, dt)"
    using assms(1) by (auto simp: full_formatter_def bind_outcome_Ok_iff)
  note ff = full_formatter_split [OF fc full_cache_nonempty [OF fc]]
  have r: "full_rest env msg dt dest = Ok (m, d)" "f' = Full (s, dt)"
    using assms(1) Full ff by (auto simp: bind_outcome_Ok_iff)
  have "bind_outcome (full_cache env msg t (0, [])) (\<lambda>st. Ok (snd st)) = Ok dt"
    using full_cache_fresh(1) [where tm_of = tm_of, OF t(1)] f(1) Full fc by simp
  then obtain s0 where fc0: "full_cache env msg t (0, []) = Ok (s0, dt)" by (auto simp: bind_outcome_Ok_iff)
  note ff0 = full_formatter_split [OF fc0 full_cache_nonempty [OF fc0]]
  show ?thesis using Full r ff0 full_cache_fresh(2) [where tm_of = tm_of, OF t(1) _ fc] f(1) by simp
qed (use assms in \<open>auto simp: bind_outcome_Ok_iff\<close>)

lemma same_msg_time: "same_msg a b \<Longrightarrow> time b = time a"
  by (cases a, cases b) (simp add: same_msg_def)

lemma format_all_fresh:
  assumes "format_all env t fs msg dest = Ok (fs', m, d)" "10 * seconds \<le> time msg"
    and "t = tm_of (duration_cast seconds (time msg))" "utc_minutes_offset t = off"
    and "list_all (cache_ok env tm_of off) fs" "list_all no_elapsed fs"
  shows "(\<exists>fs'' . format_all env t (map fresh_flag fs) msg dest = Ok (fs'', m, d)) \<and>
    map fresh_flag fs' = map fresh_flag fs \<and> list_all (cache_ok env tm_of off) fs' \<and> list_all no_elapsed fs'"
  using assms
proof (induction fs arbitrary: msg dest fs')
  case (Cons f fs)
  then obtain f1 m1 d1 fs1 where f: "flag_format env t f msg dest = Ok (f1, m1, d1)"
    "format_all env t fs m1 d1 = Ok (fs1, m, d)" "fs' = f1 # fs1"
    by (auto simp: bind_outcome_Ok_iff)
  have m1: "time m1 = time msg" using same_msg_time [OF flag_format_same [OF f(1)]] .
  note s = flag_format_fresh [where tm_of = tm_of, OF f(1) Cons.prems(2-4)]
  have "(\<exists>fs''. format_all env t (map fresh_flag fs) m1 d1 = Ok (fs'', m, d)) \<and>
    map fresh_flag fs1 = map fresh_flag fs \<and> list_all (cache_ok env tm_of off) fs1 \<and> list_all no_elapsed fs1"
    using Cons.prems m1 by (intro Cons.IH [OF f(2)]) auto
  then show ?case using s Cons.prems f(3) by auto
qed simp


text \<open>The broken-down time a formatter prints, for a second.\<close>

definition tm_of_pf :: "log_env \<Rightarrow> pattern_formatter \<Rightarrow> int \<Rightarrow> tm" where
  "tm_of_pf env pf s =
     (if need_localtime pf then (case time_type pf of LocalTime \<Rightarrow> os_localtime env s | UtcTime \<Rightarrow> os_gmtime env s) else tm_zero)"

definition warm :: "log_env \<Rightarrow> int \<Rightarrow> pattern_formatter \<Rightarrow> pattern_formatter \<Rightarrow> bool" where
  "warm env off pf0 pf \<longleftrightarrow>
     eol pf = eol pf0 \<and> time_type pf = time_type pf0 \<and> need_localtime pf = need_localtime pf0 \<and>
     map fresh_flag (formatters pf) = formatters pf0 \<and>
     list_all (cache_ok env (tm_of_pf env pf0) off) (formatters pf) \<and> list_all no_elapsed (formatters pf) \<and>
     (if need_localtime pf0 then last_log_secs pf = 0 \<or> cached_tm pf = tm_of_pf env pf0 (last_log_secs pf)
      else cached_tm pf = tm_zero)"

lemma refresh_time_cached:
  assumes "warm env off pf0 pf" "10 * seconds \<le> time msg"
  shows "cached_tm (refresh_time env msg pf) = tm_of_pf env pf0 (duration_cast seconds (time msg))"
    and "warm env off pf0 (refresh_time env msg pf)"
proof -
  have "0 < duration_cast seconds (time msg)"
    using assms(2) by (simp add: duration_cast_def seconds_def c_div_def pos_imp_zdiv_pos_iff)
  then show "cached_tm (refresh_time env msg pf) = tm_of_pf env pf0 (duration_cast seconds (time msg))"
    and "warm env off pf0 (refresh_time env msg pf)"
    using assms(1)
    by (auto simp: warm_def refresh_time_def tm_of_pf_def get_time_def Let_def split: pattern_time_type.splits if_splits)
qed

lemma format_msg_fresh:
  assumes "warm env off pf0 pf0" "warm env off pf0 pf" "10 * seconds \<le> time msg"
    and "\<forall>s. utc_minutes_offset (tm_of_pf env pf0 s) = off"
    and "format_msg env pf msg dest = Ok (pf', m, d)"
  shows "(\<exists>pf''. format_msg env pf0 msg dest = Ok (pf'', m, d)) \<and> warm env off pf0 pf'"
proof -
  let ?t = "tm_of_pf env pf0 (duration_cast seconds (time msg))"
  note c = refresh_time_cached [OF assms(2,3)] and c0 = refresh_time_cached [OF assms(1,3)]
  obtain fs d1 where f: "format_all env ?t (formatters pf) msg dest = Ok (fs, m, d1)" "d = append_string_view (eol pf) d1"
    "pf' = (refresh_time env msg pf)\<lparr>formatters := fs\<rparr>"
    using assms(5) by (auto simp: format_msg_def Let_def bind_outcome_Ok_iff c(1))
  have "(\<exists>fs''. format_all env ?t (map fresh_flag (formatters pf)) msg dest = Ok (fs'', m, d1)) \<and>
      map fresh_flag fs = map fresh_flag (formatters pf) \<and> list_all (cache_ok env (tm_of_pf env pf0) off) fs \<and> list_all no_elapsed fs"
    using assms(2,4) by (intro format_all_fresh [where tm_of = "tm_of_pf env pf0", OF f(1) assms(3) refl]) (auto simp: warm_def)
  moreover have "map fresh_flag (formatters pf) = formatters pf0" "eol pf = eol pf0" using assms(2) by (simp_all add: warm_def)
  ultimately show ?thesis using c(2) f c0(1)
    by (auto simp: format_msg_def Let_def warm_def)
qed

lemma format_seq_fresh:
  assumes "warm env off pf0 pf0" "\<forall>s. utc_minutes_offset (tm_of_pf env pf0 s) = off"
  shows "warm env off pf0 pf \<Longrightarrow> list_all (\<lambda>m. 10 * seconds \<le> time m) ms \<Longrightarrow> format_seq env pf ms = Ok outs \<Longrightarrow>
    list_all2 (\<lambda>m out. \<exists>pf' m'. format_msg env pf0 m [] = Ok (pf', m', out)) ms outs"
proof (induction ms arbitrary: pf outs)
  case (Cons m ms)
  then obtain pf1 m1 out outs1 where s: "format_msg env pf m [] = Ok (pf1, m1, out)" "format_seq env pf1 ms = Ok outs1" "outs = out # outs1"
    by (auto simp: bind_outcome_Ok_iff)
  have "10 * seconds \<le> time m" using Cons.prems(2) by simp
  from format_msg_fresh [OF assms(1) Cons.prems(1) this assms(2) s(1)] show ?case
    using Cons.IH [of pf1 outs1] Cons.prems(2) s by auto
qed simp

text \<open>A compiled pattern starts with empty caches.\<close>

definition fresh_pf :: "pattern_formatter \<Rightarrow> bool" where
  "fresh_pf pf \<longleftrightarrow> list_all (\<lambda>f. fresh_flag f = f) (formatters pf) \<and> last_log_secs pf = 0 \<and> cached_tm pf = tm_zero"

lemma fresh_pf_add: "fresh_pf pf \<Longrightarrow> fresh_flag f = f \<Longrightarrow> fresh_pf (add_formatter f l pf)"
  by (simp add: fresh_pf_def add_formatter_def)

lemma handle_flag_fresh: "fresh_pf pf \<Longrightarrow> fresh_pf (handle_flag now sp flag padding pf)"
  by (simp add: handle_flag_def builtin_flag_def fresh_pf_add split: option.split prod.split)

lemma compile_loop_fresh: "fresh_pf pf \<Longrightarrow> fresh_pf (compile_loop now uc s pf)"
  by (rule compile_loop_inv) (simp_all add: fresh_pf_add handle_flag_fresh)

lemma fresh_pf_warm:
  assumes "fresh_pf pf" "list_all no_elapsed (formatters pf)"
  shows "warm env off pf pf"
proof -
  have "map fresh_flag (formatters pf) = formatters pf"
    using assms(1) by (auto simp: fresh_pf_def list_all_iff intro: map_idI)
  moreover have "fresh_flag f = f \<Longrightarrow> cache_ok env tm_of off f" for f tm_of
    by (cases f) auto
  ultimately show ?thesis using assms by (auto simp: warm_def fresh_pf_def list_all_iff)
qed

end
