(* ===== verification/Log_Line.thy ===== *)
theory Log_Line
  imports Log_Format
begin

text \<open>
  The pattern both programs set, compiled and printed: the exact line, with its colour range. The
  properties of padding, definedness and caching follow, for arbitrary patterns.
\<close>

section \<open>The pattern of the programs\<close>

text \<open>A pattern given as its pieces: literal text followed by an unpadded flag.\<close>

definition flat_pattern :: "(string \<times> char) list \<Rightarrow> string" where
  "flat_pattern items = concat (map (\<lambda>(s, flag). s @ [CHR ''%'', flag]) items)"

definition add_item :: "int \<Rightarrow> string \<times> char \<Rightarrow> pattern_formatter \<Rightarrow> pattern_formatter" where
  "add_item now item pf = (case item of (s, flag) \<Rightarrow>
     handle_flag now False flag padding_info_none (if s = [] then pf else add_formatter (Aggregate s) False pf))"

definition item_ok :: "string \<times> char \<Rightarrow> bool" where
  "item_ok item \<longleftrightarrow> CHR ''%'' \<notin> set (fst item) \<and> snd item \<noteq> CHR ''-'' \<and> snd item \<noteq> CHR ''='' \<and> \<not> isdigit (snd item)"

lemma compile_text:
  "CHR ''%'' \<notin> set s \<Longrightarrow> compile_loop now (Some u) (s @ rest) pf = compile_loop now (Some (u @ s)) rest pf"
  by (induction s arbitrary: u) auto

lemma compile_item:
  assumes "item_ok (s, flag)"
  shows "compile_loop now None (s @ CHR ''%'' # flag # rest) pf = compile_loop now None rest (add_item now (s, flag) pf)"
proof -
  have step: "compile_loop now uc (CHR ''%'' # flag # rest) pf =
      compile_loop now None rest (handle_flag now False flag padding_info_none (push_user_chars uc pf))" for uc
    using assms by (simp add: item_ok_def handle_padspec_def padspec_side_def padding_info_none_def)
  show ?thesis
  proof (cases s)
    case Nil
    then show ?thesis by (simp only: append.simps step) (simp add: add_item_def push_user_chars_def)
  next
    case (Cons c cs)
    then have "compile_loop now None (s @ CHR ''%'' # flag # rest) pf = compile_loop now (Some [c]) (cs @ CHR ''%'' # flag # rest) pf"
      using assms by (auto simp: item_ok_def)
    also have "\<dots> = compile_loop now (Some s) (CHR ''%'' # flag # rest) pf"
      using assms Cons by (subst compile_text) (auto simp: item_ok_def)
    also have "\<dots> = compile_loop now None rest (add_item now (s, flag) pf)"
      unfolding step using Cons by (simp add: add_item_def push_user_chars_def)
    finally show ?thesis .
  qed
qed

lemma compile_flat:
  "list_all item_ok items \<Longrightarrow> compile_loop now None (flat_pattern items) pf = fold (add_item now) items pf"
proof (induction items arbitrary: pf)
  case (Cons it items)
  then show ?case
    by (cases it) (simp add: flat_pattern_def compile_item flip: flat_pattern_def [unfolded split_def, simplified])
qed (simp add: flat_pattern_def push_user_chars_def)

text \<open>Both \<^verbatim>\<open>main\<close> functions set this pattern.\<close>

definition cproxy_pattern :: string where
  "cproxy_pattern = ''[%@ %H:%M:%S:%e %z] [%^%L%$] [thread %t] %v''"

abbreviation plain :: "flag_class \<Rightarrow> flag_formatter" where
  "plain k \<equiv> PlainFlag k False padding_info_none"

text \<open>The formatter of an unpadded flag other than the elapsed and unknown ones.\<close>

definition flag_effect :: "char \<Rightarrow> (flag_formatter \<times> bool) option" where
  "flag_effect flag =
     (if flag = CHR ''+'' then Some (Full (0, []), True)
      else if flag = CHR ''z'' then Some (ZFlag False padding_info_none (0, 0), True)
      else if flag = CHR ''^'' then Some (ColorStart, False)
      else if flag = CHR ''$'' then Some (ColorStop, False)
      else if flag = CHR ''%'' then Some (Ch (CHR ''%''), False)
      else map_option (\<lambda>(k, l). (plain k, l)) (map_of flag_table flag))"

lemma handle_flag_effect:
  "custom_handlers pf flag = None \<Longrightarrow> flag_effect flag = Some (f, l) \<Longrightarrow>
   handle_flag now False flag padding_info_none pf = add_formatter f l pf"
  by (simp add: handle_flag_def builtin_flag_def flag_effect_def split: if_splits) auto

definition item_effect :: "string \<times> char \<Rightarrow> flag_formatter list" where
  "item_effect item = (if fst item = [] then [] else [Aggregate (fst item)]) @ [fst (the (flag_effect (snd item)))]"

lemma fold_add_item:
  "custom_handlers pf = Map.empty \<Longrightarrow> list_all (\<lambda>i. flag_effect (snd i) \<noteq> None) items \<Longrightarrow>
   fold (add_item now) items pf =
     pf\<lparr>formatters := formatters pf @ concat (map item_effect items),
        need_localtime := need_localtime pf \<or> list_ex (\<lambda>i. snd (the (flag_effect (snd i)))) items\<rparr>"
proof (induction items arbitrary: pf)
  case (Cons i items)
  obtain s flag where i: "i = (s, flag)" by (cases i)
  then obtain f l where f: "flag_effect flag = Some (f, l)" using Cons.prems(2) by auto
  have "add_item now i pf = pf\<lparr>formatters := formatters pf @ item_effect i, need_localtime := need_localtime pf \<or> l\<rparr>"
    using Cons.prems(1) i f by (simp add: add_item_def item_effect_def handle_flag_effect [of _ flag f l] add_formatter_def)
  then show ?case using Cons i f by (simp add: disj_assoc)
qed simp

lemma cproxy_effects:
  "flag_effect (CHR ''@'') = Some (plain source_location_class, False)" "flag_effect (CHR ''H'') = Some (plain H_class, True)"
  "flag_effect (CHR ''M'') = Some (plain M_class, True)" "flag_effect (CHR ''S'') = Some (plain S_class, True)"
  "flag_effect (CHR ''e'') = Some (plain e_class, False)" "flag_effect (CHR ''L'') = Some (plain short_level_class, False)"
  "flag_effect (CHR ''t'') = Some (plain t_class, False)" "flag_effect (CHR ''v'') = Some (plain v_class, False)"
  "flag_effect (CHR ''z'') = Some (ZFlag False padding_info_none (0, 0), True)"
  "flag_effect (CHR ''^'') = Some (ColorStart, False)" "flag_effect (CHR ''$'') = Some (ColorStop, False)"
  by (simp_all add: flag_effect_def flag_table_def)

definition cproxy_items :: "(string \<times> char) list" where
  "cproxy_items = [(''['', CHR ''@''), ('' '', CHR ''H''), ('':'', CHR ''M''), ('':'', CHR ''S''), ('':'', CHR ''e''),
     ('' '', CHR ''z''), (''] ['', CHR ''^''), ([], CHR ''L''), ([], CHR ''$''), (''] [thread '', CHR ''t''), (''] '', CHR ''v'')]"

lemma cproxy_compiled:
  "pattern_formatter_new now cproxy_pattern tt e Map.empty =
     \<lparr>pattern = cproxy_pattern, eol = e, time_type = tt, need_localtime = True, cached_tm = tm_zero, last_log_secs = 0,
      formatters = [Aggregate ''['', plain source_location_class, Aggregate '' '', plain H_class, Aggregate '':'', plain M_class,
        Aggregate '':'', plain S_class, Aggregate '':'', plain e_class, Aggregate '' '', ZFlag False padding_info_none (0, 0),
        Aggregate ''] ['', ColorStart, plain short_level_class, ColorStop, Aggregate ''] [thread '', plain t_class,
        Aggregate ''] '', plain v_class],
      custom_handlers = Map.empty\<rparr>"
proof -
  have p: "cproxy_pattern = flat_pattern cproxy_items" by (simp add: cproxy_pattern_def flat_pattern_def cproxy_items_def)
  have ok: "list_all item_ok cproxy_items" by (simp add: cproxy_items_def item_ok_def isdigit_def)
  have ef: "list_all (\<lambda>i. flag_effect (snd i) \<noteq> None) cproxy_items" by (auto simp: cproxy_items_def cproxy_effects)
  show ?thesis unfolding pattern_formatter_new_def compile_pattern_def compile_flat [OF ok, folded p]
    by (subst fold_add_item [OF _ ef]) (simp_all add: cproxy_items_def item_effect_def cproxy_effects)
qed


section \<open>The line\<close>

definition two_digits :: "int \<Rightarrow> string" where
  "two_digits n = [digit_char (nat (n div 10)), digit_char (nat (n mod 10))]"

definition three_digits :: "int \<Rightarrow> string" where
  "three_digits n = [digit_char (nat (n div 100)), digit_char (nat (n mod 100 div 10)), digit_char (nat (n mod 10))]"

lemma digit_chars [simp]:
  "digit_char 0 = CHR ''0''" "digit_char (Suc 0) = CHR ''1''" "digit_char 2 = CHR ''2''" "digit_char 3 = CHR ''3''"
  "digit_char 4 = CHR ''4''" "digit_char 5 = CHR ''5''" "digit_char 6 = CHR ''6''" "digit_char 7 = CHR ''7''"
  "digit_char 8 = CHR ''8''" "digit_char 9 = CHR ''9''"
  by (simp_all add: digit_char_def char_of_def bit_0)

lemma pad2_two: "0 \<le> n \<Longrightarrow> n < 100 \<Longrightarrow> pad2 n dest = dest @ two_digits n"
  by (simp add: pad2_digits two_digits_def)

lemma time_fraction_millis: "0 \<le> t \<Longrightarrow> time_fraction milliseconds t = t div 10 ^ 6 mod 1000"
proof -
  assume t: "0 \<le> t"
  have "t div 10 ^ 9 = t div 10 ^ 6 div 1000" by (simp add: zdiv_zmult2_eq [symmetric])
  then have "t div 10 ^ 6 - t div 10 ^ 9 * 1000 = t div 10 ^ 6 mod 1000"
    by (simp add: minus_div_mult_eq_mod)
  then show ?thesis using t
    by (cases "t = 0") (simp_all add: time_fraction_def duration_cast_def milliseconds_def c_div_def Let_def)
qed

lemma pad3_millis:
  assumes "0 \<le> t"
  shows "pad3 junk (word_of_int (time_fraction milliseconds t)) dest = Ok (dest @ three_digits (t div 10 ^ 6 mod 1000))"
proof -
  let ?m = "t div 10 ^ 6 mod 1000"
  have m: "0 \<le> ?m" "?m < 1000" by simp_all
  have u: "unat (word_of_int ?m :: u32) = nat ?m" using m by (intro unat_of_int32) simp_all
  have "(word_of_int ?m :: u32) < 1000" unfolding word_less_nat_alt u using m by simp
  then show ?thesis unfolding time_fraction_millis [OF assms] pad3_digits [OF \<open>word_of_int ?m < 1000\<close>] u three_digits_def
    using m(1) by (simp add: nat_div_distrib nat_mod_distrib)
qed

definition tm_clock_ok :: "tm \<Rightarrow> bool" where
  "tm_clock_ok t \<longleftrightarrow> 0 \<le> tm_hour t \<and> tm_hour t < 24 \<and> 0 \<le> tm_min t \<and> tm_min t < 60 \<and> 0 \<le> tm_sec t \<and> tm_sec t < 62 \<and>
     \<bar>tm_gmtoff t\<bar> < 100 * 3600"

lemma utc_minutes_small: "\<bar>g\<bar> < 360000 \<Longrightarrow> to_int32 (c_div g 60) = c_div g 60 \<and> \<bar>c_div g 60\<bar> < 6000"
proof -
  assume g: "\<bar>g\<bar> < 360000"
  then have "\<bar>g\<bar> div 60 < 6000" by simp
  then have "\<bar>c_div g 60\<bar> < 6000" by (simp add: c_div_def abs_mult abs_sgn_eq)
  then show ?thesis by (auto simp: abs_less_iff intro!: to_int32_id)
qed

text \<open>The zone as it is printed, from an offset in minutes.\<close>

definition zone_text :: "int \<Rightarrow> string" where
  "zone_text off = (if off < 0 then ''-'' else ''+'') @ two_digits (\<bar>off\<bar> div 60) @ '':'' @ two_digits (\<bar>off\<bar> mod 60)"

lemma c_div_mod_nonneg: "0 \<le> a \<Longrightarrow> c_div a 60 = a div 60 \<and> c_mod a 60 = a mod 60"
  by (cases "a = 0") (simp_all add: c_div_def c_mod_def minus_div_mult_eq_mod)

lemma z_formatter_text:
  assumes "tm_clock_ok t" "10 * seconds \<le> time msg"
  shows "z_formatter False p msg t (0, 0) dest = Ok ((time msg, utc_minutes_offset t), dest @ zone_text (utc_minutes_offset t))"
proof -
  let ?o = "utc_minutes_offset t"
  have o: "\<bar>?o\<bar> < 6000" using utc_minutes_small [of "tm_gmtoff t"] assms(1) by (simp add: tm_clock_ok_def utc_minutes_offset_def)
  have d: "0 \<le> \<bar>?o\<bar> div 60" "\<bar>?o\<bar> div 60 < 100" "0 \<le> \<bar>?o\<bar> mod 60" "\<bar>?o\<bar> mod 60 < 100" using o by auto
  have a: "(if ?o < 0 then - ?o else ?o) = \<bar>?o\<bar>" by simp
  show ?thesis using assms(2) d
    by (simp add: z_formatter_def get_cached_offset_def scoped_def Let_def a c_div_mod_nonneg pad2_two push_back_app zone_text_def)
qed


text \<open>The line both programs print, with the part before the level.\<close>

definition line_head :: "log_msg \<Rightarrow> tm \<Rightarrow> string" where
  "line_head msg t =
     ''['' @ the (filename (source msg)) @ '':'' @ decimal_int (line (source msg)) @ '' '' @
     two_digits (tm_hour t) @ '':'' @ two_digits (tm_min t) @ '':'' @ two_digits (tm_sec t) @ '':'' @
     three_digits (time msg div 10 ^ 6 mod 1000) @ '' '' @ zone_text (utc_minutes_offset t) @ ''] [''"

definition line_tail :: "log_msg \<Rightarrow> string" where
  "line_tail msg = ''] [thread '' @ decimal (unat (thread_id msg)) @ ''] '' @ payload msg"

lemma source_location_text:
  assumes "length (os_junk env) = buffer_size" "msg_ok msg" "line (source msg) \<noteq> 0"
  shows "source_location_formatter False padding_info_none env msg t dest =
    Ok (dest @ the (filename (source msg)) @ '':'' @ decimal_int (line (source msg)))"
proof -
  have l: "- (2 ^ 31) \<le> line (source msg)" "line (source msg) < 2 ^ 31" using assms(2) by (simp_all add: msg_ok_def)
  note ai = append_int32 [OF assms(1) l]
  show ?thesis using assms(2,3)
    by (auto simp: source_location_formatter_def source_loc_empty_def deref_cstr_def msg_ok_def scoped_def
        append_string_view_app push_back_app ai padding_info_none_def)
qed

lemma clock_texts:
  assumes "tm_clock_ok t"
  shows "H_formatter False p env msg t dest = Ok (dest @ two_digits (tm_hour t))"
    "M_formatter False p env msg t dest = Ok (dest @ two_digits (tm_min t))"
    "S_formatter False p env msg t dest = Ok (dest @ two_digits (tm_sec t))"
  using assms by (simp_all add: H_formatter_def M_formatter_def S_formatter_def scoped_def tm_clock_ok_def pad2_two)

lemma e_formatter_text: "0 \<le> time msg \<Longrightarrow>
  e_formatter False p env msg t dest = Ok (dest @ three_digits (time msg div 10 ^ 6 mod 1000))"
  by (simp add: e_formatter_def scoped_def pad3_millis)

lemma message_texts:
  "length (os_junk env) = buffer_size \<Longrightarrow> t_formatter False p env msg t dest = Ok (dest @ decimal (unat (thread_id msg)))"
  "v_formatter False p env msg t dest = Ok (dest @ payload msg)"
  "to_short_c_str (lvl msg) = Ok s \<Longrightarrow> short_level_formatter False p env msg t dest = Ok (dest @ s)"
  by (simp_all add: t_formatter_def v_formatter_def short_level_formatter_def scoped_def append_string_view_app)

lemma cproxy_format:
  assumes env: "length (os_junk env) = buffer_size" and msg: "msg_ok msg" "line (source msg) \<noteq> 0" "10 * seconds \<le> time msg"
    and t: "t = os_localtime env (duration_cast seconds (time msg))" "tm_clock_ok t"
  obtains pf' c where "to_short_c_str (lvl msg) = Ok [c]"
    "format_msg env (pattern_formatter_new now cproxy_pattern LocalTime e Map.empty) msg [] =
       Ok (pf', msg\<lparr>color_range_start := length (line_head msg t), color_range_end := length (line_head msg t) + 1\<rparr>,
           line_head msg t @ c # line_tail msg @ e)"
proof -
  obtain n c where c: "to_string_view (lvl msg) = Ok n" "to_short_c_str (lvl msg) = Ok [c]"
    using msg(1) level_name_defined by (metis msg_ok_def)
  have secs: "duration_cast seconds (time msg) \<noteq> 0" and nn: "0 \<le> time msg"
    using msg(3) by (auto simp: duration_cast_def seconds_def c_div_def)
  have r: "cached_tm (refresh_time env msg (pattern_formatter_new now cproxy_pattern LocalTime e Map.empty)) = t"
    using secs t(1) by (simp add: cproxy_compiled refresh_time_def get_time_def Let_def)
  have fs: "formatters (refresh_time env msg (pattern_formatter_new now cproxy_pattern LocalTime e Map.empty)) =
     formatters (pattern_formatter_new now cproxy_pattern LocalTime e Map.empty)" by simp
  have "\<exists>fs'. format_all env t (formatters (pattern_formatter_new now cproxy_pattern LocalTime e Map.empty)) msg [] =
     Ok (fs', msg\<lparr>color_range_start := length (line_head msg t), color_range_end := length (line_head msg t) + 1\<rparr>,
         line_head msg t @ c # line_tail msg)"
    unfolding cproxy_compiled pattern_formatter.simps
    using c(2) by (simp add: source_location_text [OF env msg(1,2)] clock_texts [OF t(2)] e_formatter_text [OF nn]
        message_texts(1) [OF env] message_texts(2,3) z_formatter_text [OF t(2) msg(3)] append_string_view_app line_head_def line_tail_def)
  then obtain fs' where "format_all env t (formatters (pattern_formatter_new now cproxy_pattern LocalTime e Map.empty)) msg [] =
     Ok (fs', msg\<lparr>color_range_start := length (line_head msg t), color_range_end := length (line_head msg t) + 1\<rparr>,
         line_head msg t @ c # line_tail msg)" by blast
  moreover have "eol (pattern_formatter_new now cproxy_pattern LocalTime e Map.empty) = e" by (simp add: cproxy_compiled)
  ultimately show thesis using that [OF c(2)] by (simp add: format_msg_def Let_def r append_string_view_app)
qed

section \<open>Properties\<close>

text \<open>A padded field has the width the pattern asks for: for every padding a pattern can specify, the
  logger name, the message, the thread id and the level are padded left, right or centred to the width
  and cut to it only when the pattern says so; at most 64 blanks are ever taken from the blank string.\<close>
theorem field_padding_exact:
  assumes "handle_padspec spec = (p, rest)" "length (os_junk env) = buffer_size" "to_string_view (lvl msg) = Ok n"
  shows "name_formatter True p env msg t dest = Ok (dest @ pad_text p (logger_name msg)) \<and>
    v_formatter True p env msg t dest = Ok (dest @ pad_text p (payload msg)) \<and>
    t_formatter True p env msg t dest = Ok (dest @ pad_text p (decimal (unat (thread_id msg)))) \<and>
    level_formatter True p env msg t dest = Ok (dest @ pad_text p n) \<and>
    (\<forall>s. length (pad_text p s) = (if length s \<le> width p \<or> trunc p then width p else length s))"
proof (intro conjI allI)
  note w = handle_padspec_width [OF assms(1)]
  show "name_formatter True p env msg t dest = Ok (dest @ pad_text p (logger_name msg))"
    unfolding name_formatter_def append_string_view_app by (rule scoped_pads [OF w]) simp
  show "v_formatter True p env msg t dest = Ok (dest @ pad_text p (payload msg))"
    unfolding v_formatter_def append_string_view_app by (rule scoped_pads [OF w]) simp
  show "t_formatter True p env msg t dest = Ok (dest @ pad_text p (decimal (unat (thread_id msg))))"
    using scoped_pads [OF w append_uint(1) [OF assms(2)], where dest = dest]
    by (simp add: t_formatter_def sp_count_digits64_def do_count_digits64_decimal)
  show "level_formatter True p env msg t dest = Ok (dest @ pad_text p n)"
    unfolding level_formatter_def assms(3) bind_outcome.simps append_string_view_app by (rule scoped_pads [OF w]) simp
qed (rule length_pad_text)

text \<open>A system for the examples: a clock that runs through the day in a zone half an hour off, and a message.\<close>

definition demo_log_env :: log_env where
  "demo_log_env =
     (let clock = (\<lambda>off s. \<lparr>tm_sec = s mod 60, tm_min = s div 60 mod 60, tm_hour = s div 3600 mod 24, tm_mday = 23, tm_mon = 7,
          tm_year = 101, tm_wday = 4, tm_gmtoff = off\<rparr>)
      in \<lparr>os_localtime = clock 19800, os_gmtime = clock 0, os_pid = 77, os_junk = replicate 22 (CHR ''?'')\<rparr>)"

definition demo_msg :: log_msg where
  "demo_msg = log_msg_new 42 (12345 * 10 ^ 9 + 67 * 10 ^ 6) \<lparr>filename = Some ''a/b.cpp'', line = 9, funcname = Some ''run''\<rparr> ''net'' Warn ''hello''"

theorem field_padding_exact_witness:
  "v_formatter True \<lparr>width = 8, side = PadCenter, trunc = False, pad_enabled = True\<rparr> demo_log_env demo_msg tm_zero ''>'' = Ok ''> hello  ''"
proof -
  have h: "handle_padspec ''=8v'' = (\<lparr>width = 8, side = PadCenter, trunc = False, pad_enabled = True\<rparr>, ''v'')"
    by (simp add: handle_padspec_def padspec_side_def isdigit_def padspec_truncate_def padding_info_new_def)
  have j: "length (os_junk demo_log_env) = buffer_size" by (simp add: demo_log_env_def buffer_size_def)
  have n: "to_string_view (lvl demo_msg) = Ok ''warning''"
    by (simp add: demo_msg_def log_msg_new_def to_string_view_def array_at_def level_string_views_def)
  let ?p = "\<lparr>width = 8, side = PadCenter, trunc = False, pad_enabled = True\<rparr>"
  have "v_formatter True ?p demo_log_env demo_msg tm_zero ''>'' = Ok (''>'' @ pad_text ?p (payload demo_msg))"
    using field_padding_exact [OF h j n, of tm_zero "''>''"] by blast
  moreover have "replicate 2 (CHR '' '') = ''  ''" by (simp add: numeral_2_eq_2)
  then have "pad_text ?p ''hello'' = '' hello  ''" by (simp add: pad_text_def blanks_def)
  ultimately show ?thesis by (simp add: demo_msg_def log_msg_new_def)
qed

text \<open>The date field declares ten characters but writes eight, so cutting it to a width removes two
  characters too many; with nothing else in front, a width below two asks for a negative size and the
  message is lost to an exception.\<close>
theorem date_truncation_off_by_two:
  assumes "0 \<le> tm_mon t" "tm_mon t < 12" "0 \<le> tm_mday t" "tm_mday t < 100" "0 \<le> tm_year t" "w < 10"
  shows "D_formatter True (padding_info_new w sd True) env msg t dest =
    (if 2 \<le> length dest + w
     then Ok (take (length dest + w - 2) (dest @ two_digits (tm_mon t + 1) @ ''/'' @ two_digits (tm_mday t) @ ''/'' @ two_digits (tm_year t mod 100)))
     else Throw)"
proof -
  have y: "c_mod (tm_year t) 100 = tm_year t mod 100"
    using assms(5) by (cases "tm_year t = 0") (simp_all add: c_mod_def c_div_def minus_div_mult_eq_mod)
  have r: "\<not> 0 < int w - 10" "\<not> 0 \<le> int w - 10" using assms(6) by simp_all
  show ?thesis using assms r
    by (auto simp: D_formatter_def scoped_def scoped_padder_new_def scoped_padder_delete_def padding_info_new_def Let_def
        pad2_two push_back_app y two_digits_def nat_diff_distrib nat_int_add)
qed


theorem date_truncation_off_by_two_witness:
  "D_formatter True (padding_info_new 8 PadLeft True) demo_log_env demo_msg (os_localtime demo_log_env 0) [] = Ok ''08/23/'' \<and>
   D_formatter True (padding_info_new 0 PadLeft True) demo_log_env demo_msg (os_localtime demo_log_env 0) [] = Throw"
  using date_truncation_off_by_two [of "os_localtime demo_log_env 0" 8 PadLeft demo_log_env demo_msg "[]"]
    date_truncation_off_by_two [of "os_localtime demo_log_env 0" 0 PadLeft demo_log_env demo_msg "[]"]
  by (simp add: demo_log_env_def two_digits_def)


lemma demo_env_ok: "env_ok demo_log_env"
  by (simp add: env_ok_def demo_log_env_def buffer_size_def tm_ok_def Let_def)

lemma demo_msg_ok: "msg_ok demo_msg"
  by (simp add: msg_ok_def demo_msg_def log_msg_new_def)



lemma clock_zone_compiled:
  "pattern_formatter_new now ''%H%z'' tt e Map.empty =
     \<lparr>pattern = ''%H%z'', eol = e, time_type = tt, need_localtime = True, cached_tm = tm_zero, last_log_secs = 0,
      formatters = [plain H_class, ZFlag False padding_info_none (0, 0)], custom_handlers = Map.empty\<rparr>"
proof -
  let ?items = "[([], CHR ''H''), ([], CHR ''z'')]"
  have p: "''%H%z'' = flat_pattern ?items" by (simp add: flat_pattern_def)
  have ok: "list_all item_ok ?items" "list_all (\<lambda>i. flag_effect (snd i) \<noteq> None) ?items"
    by (auto simp: item_ok_def isdigit_def cproxy_effects)
  show ?thesis unfolding pattern_formatter_new_def compile_pattern_def compile_flat [OF ok(1), folded p]
    by (subst fold_add_item [OF _ ok(2)]) (simp_all add: item_effect_def cproxy_effects)
qed


text \<open>The line both programs print, character by character: location, time of day with milliseconds,
  time zone, level letter, thread id and message; and the range marked for colouring is exactly the
  level letter.\<close>
theorem cproxy_log_line:
  assumes "length (os_junk env) = buffer_size" "msg_ok msg" "line (source msg) \<noteq> 0" "10 * seconds \<le> time msg"
    and "t = os_localtime env (duration_cast seconds (time msg))" "tm_clock_ok t"
  shows "\<exists>pf' m' c. format_msg env (pattern_formatter_new now cproxy_pattern LocalTime e Map.empty) msg [] =
      Ok (pf', m', line_head msg t @ [c] @ line_tail msg @ e) \<and>
    to_short_c_str (lvl msg) = Ok [c] \<and> color_range_start m' = length (line_head msg t) \<and> color_range_end m' = color_range_start m' + 1"
proof -
  from assms obtain pf' c where "to_short_c_str (lvl msg) = Ok [c]"
    "format_msg env (pattern_formatter_new now cproxy_pattern LocalTime e Map.empty) msg [] =
       Ok (pf', msg\<lparr>color_range_start := length (line_head msg t), color_range_end := length (line_head msg t) + 1\<rparr>,
           line_head msg t @ c # line_tail msg @ e)" by (rule cproxy_format)
  then show ?thesis by simp
qed

theorem cproxy_log_line_witness:
  "\<exists>pf' m'. format_msg demo_log_env (pattern_formatter_new 0 cproxy_pattern LocalTime [] Map.empty) demo_msg [] =
     Ok (pf', m', ''[a/b.cpp:9 03:25:45:067 +05:30] [W] [thread 42] hello'')"
proof -
  define t where "t = os_localtime demo_log_env (duration_cast seconds (time demo_msg))"
  have c: "tm_clock_ok t" "length (os_junk demo_log_env) = buffer_size" "line (source demo_msg) \<noteq> 0" "10 * seconds \<le> time demo_msg"
    by (simp_all add: t_def tm_clock_ok_def demo_log_env_def demo_msg_def log_msg_new_def buffer_size_def seconds_def Let_def)
  have t: "t = \<lparr>tm_sec = 45, tm_min = 25, tm_hour = 3, tm_mday = 23, tm_mon = 7, tm_year = 101, tm_wday = 4, tm_gmtoff = 19800\<rparr>"
    by (simp add: t_def demo_log_env_def demo_msg_def log_msg_new_def duration_cast_def seconds_def c_div_def)
  have h: "line_head demo_msg t = ''[a/b.cpp:9 03:25:45:067 +05:30] [''"
    by (simp add: t line_head_def demo_msg_def log_msg_new_def decimal_int_def decimal_small two_digits_def three_digits_def
        zone_text_def utc_minutes_offset_def c_div_def to_int32_def)
  have tl: "line_tail demo_msg = ''] [thread 42] hello''"
    by (simp add: line_tail_def demo_msg_def log_msg_new_def decimal_small decimal_step)
  have w: "to_short_c_str (lvl demo_msg) = Ok ''W''"
    by (simp add: demo_msg_def log_msg_new_def to_short_c_str_def array_at_def short_level_names_def)
  show ?thesis using cproxy_log_line [OF c(2) demo_msg_ok c(3,4) t_def c(1), of 0 "[]"] by (auto simp: h tl w)
qed

end
