(* ===== verification/Log_Queue.thy ===== *)
theory Log_Queue
  imports Log_Common
begin

text \<open>
  Bounded buffers that overwrite their oldest entry: \<^verbatim>\<open>circular_q\<close>, with its reserved slot and its
  wrapping indices, the \<^verbatim>\<open>backtracer\<close> and the \<^verbatim>\<open>ringbuffer_sink\<close> built on it. The interface the two
  clients rely on is the locale \<open>overrun_queue\<close>; the circular queue is its interpretation.
\<close>

section \<open>The circular queue\<close>

record 'a circular_q =
  max_items :: nat
  head :: nat
  tail :: nat
  overrun_counter :: size_t
  v :: "'a list"

definition circular_q_none :: "'a circular_q" where
  "circular_q_none = \<lparr>max_items = 0, head = 0, tail = 0, overrun_counter = 0, v = []\<rparr>"

text \<open>One slot more than asked for, in \<^verbatim>\<open>size_t\<close> arithmetic; \<open>x0\<close> is the value-initialised item.\<close>

definition circular_q_new :: "'a \<Rightarrow> nat \<Rightarrow> 'a circular_q" where
  "circular_q_new x0 n =
     (let m = (n + 1) mod 2 ^ 64
      in \<lparr>max_items = m, head = 0, tail = 0, overrun_counter = 0, v = replicate m x0\<rparr>)"

text \<open>Moving leaves the source disabled: the new object and the old one.\<close>

definition copy_moveable :: "'a circular_q \<Rightarrow> 'a circular_q \<times> 'a circular_q" where
  "copy_moveable other =
     (other, other\<lparr>max_items := 0, head := 0, tail := 0, overrun_counter := 0, v := []\<rparr>)"

definition cq_push_back :: "'a \<Rightarrow> 'a circular_q \<Rightarrow> 'a circular_q outcome" where
  "cq_push_back item q =
     (if max_items q > 0 then
        if tail q < length (v q) then
          let q = q\<lparr>v := (v q)[tail q := item], tail := (tail q + 1) mod max_items q\<rparr>
          in Ok (if tail q = head q
                 then q\<lparr>head := (head q + 1) mod max_items q, overrun_counter := overrun_counter q + 1\<rparr>
                 else q)
        else Ub IndexOut
      else Ok q)"

definition cq_front :: "'a circular_q \<Rightarrow> 'a outcome" where
  "cq_front q = (if head q < length (v q) then Ok (v q ! head q) else Ub IndexOut)"

definition cq_size :: "'a circular_q \<Rightarrow> nat" where
  "cq_size q = (if tail q \<ge> head q then tail q - head q else max_items q - (head q - tail q))"

definition cq_at :: "nat \<Rightarrow> 'a circular_q \<Rightarrow> 'a outcome" where
  "cq_at i q =
     (if i < cq_size q then
        if max_items q = 0 then Ub DivZero
        else let k = (head q + i) mod max_items q in if k < length (v q) then Ok (v q ! k) else Ub IndexOut
      else Abort)"

definition cq_pop_front :: "'a circular_q \<Rightarrow> 'a circular_q outcome" where
  "cq_pop_front q = (if max_items q = 0 then Ub DivZero else Ok (q\<lparr>head := (head q + 1) mod max_items q\<rparr>))"

definition cq_empty :: "'a circular_q \<Rightarrow> bool" where
  "cq_empty q \<longleftrightarrow> tail q = head q"

definition cq_full :: "'a circular_q \<Rightarrow> bool" where
  "cq_full q \<longleftrightarrow> (if max_items q > 0 then (tail q + 1) mod max_items q = head q else False)"

section \<open>Its contents\<close>

text \<open>Indices inside the vector; a disabled queue has no vector.\<close>

definition cq_wf :: "'a circular_q \<Rightarrow> bool" where
  "cq_wf q \<longleftrightarrow> length (v q) = max_items q \<and> (if max_items q = 0 then head q = 0 \<and> tail q = 0
     else head q < max_items q \<and> tail q < max_items q)"

definition cq_list :: "'a circular_q \<Rightarrow> 'a list" where
  "cq_list q = map (\<lambda>i. v q ! ((head q + i) mod max_items q)) [0..<cq_size q]"

text \<open>The capacity of an enabled queue.\<close>

definition cq_cap :: "'a circular_q \<Rightarrow> nat" where
  "cq_cap q = max_items q - 1"

lemma length_cq_list [simp]: "length (cq_list q) = cq_size q"
  by (simp add: cq_list_def)

lemma cq_size_mod:
  assumes "cq_wf q" "0 < max_items q"
  shows "(head q + cq_size q) mod max_items q = tail q" "cq_size q < max_items q"
  using assms by (auto simp: cq_wf_def cq_size_def)

lemma wrap_mod: "a < m \<Longrightarrow> n < m \<Longrightarrow> (a + n) mod m = (if a + n < m then a + n else a + n - (m :: nat))"
  by (simp add: le_mod_geq)

lemma cq_size_eqI:
  assumes "cq_wf q" "0 < max_items q" "(head q + n) mod max_items q = tail q" "n < max_items q"
  shows "cq_size q = n"
  using assms by (cases "head q + n < max_items q") (auto simp: cq_size_def cq_wf_def le_mod_geq)

lemma cq_wf_new: "cq_wf (circular_q_new x n)" and cq_wf_none: "cq_wf circular_q_none"
  by (auto simp: circular_q_new_def circular_q_none_def cq_wf_def Let_def)

lemma cq_list_new [simp]: "cq_list (circular_q_new x n) = []" "n < 2 ^ 64 - 1 \<Longrightarrow> cq_cap (circular_q_new x n) = n"
  "n < 2 ^ 64 - 1 \<Longrightarrow> 0 < max_items (circular_q_new x n)"
  by (simp_all add: circular_q_new_def cq_list_def cq_size_def cq_cap_def Let_def)

lemma nth_cq_list: "i < cq_size q \<Longrightarrow> cq_list q ! i = v q ! ((head q + i) mod max_items q)"
  by (simp add: cq_list_def)

text \<open>Pushing appends, and drops the oldest item when the capacity is reached.\<close>

lemma cq_push_list:
  assumes wf: "cq_wf q" and m: "0 < max_items q"
  shows "\<exists>q'. cq_push_back x q = Ok q' \<and> cq_wf q' \<and> max_items q' = max_items q \<and>
    cq_list q' = (if cq_size q < cq_cap q then cq_list q @ [x] else tl (cq_list q @ [x])) \<and>
    overrun_counter q' = (if cq_size q < cq_cap q then overrun_counter q else overrun_counter q + 1)"
proof -
  let ?m = "max_items q" and ?n = "cq_size q"
  let ?q1 = "q\<lparr>v := (v q)[tail q := x], tail := (tail q + 1) mod ?m\<rparr>"
  have t: "tail q < length (v q)" "length (v q) = ?m" "head q < ?m" using wf m by (auto simp: cq_wf_def)
  note sz = cq_size_mod [OF wf m]
  have nxt: "(tail q + 1) mod ?m = (head q + (?n + 1)) mod ?m" 
    by (metis sz(1) add.assoc mod_add_left_eq)
  have item: "v ?q1 ! ((head q + i) mod ?m) = (cq_list q @ [x]) ! i" if "i \<le> ?n" for i
  proof (cases "i = ?n")
    case True
    then show ?thesis using t sz by (simp add: nth_append)
  next
    case False
    with that have i: "i < ?n" by simp
    then have "(head q + i) mod ?m \<noteq> tail q"
      using sz t(3) wrap_mod [of "head q" ?m i] wrap_mod [of "head q" ?m ?n] by (auto split: if_splits)
    then show ?thesis using i by (simp add: nth_append nth_cq_list)
  qed
  show ?thesis
  proof (cases "?n < cq_cap q")
    case True
    then have n: "?n + 1 < ?m" by (simp add: cq_cap_def)
    have wf1: "cq_wf ?q1" using t m by (simp add: cq_wf_def)
    have s1: "cq_size ?q1 = ?n + 1" using n m nxt by (intro cq_size_eqI [OF wf1]) simp_all
    have "(tail q + 1) mod ?m \<noteq> head q"
      unfolding nxt using wrap_mod [OF t(3) n] n by (auto split: if_splits)
    moreover have "cq_list ?q1 = cq_list q @ [x]"
    proof (rule nth_equalityI)
      fix i assume "i < length (cq_list ?q1)"
      then have i: "i < ?n + 1" using s1 by simp
      show "cq_list ?q1 ! i = (cq_list q @ [x]) ! i" using item [of i] i s1 by (simp add: nth_cq_list)
    qed (use s1 in simp)
    ultimately show ?thesis using True m t wf1 by (simp add: cq_push_back_def Let_def)
  next
    case False
    then have n: "?n + 1 = ?m" using sz(2) by (simp add: cq_cap_def)
    have eq: "(tail q + 1) mod ?m = head q" unfolding nxt n using t(3) by simp
    let ?q2 = "?q1\<lparr>head := (head q + 1) mod ?m, overrun_counter := overrun_counter q + 1\<rparr>"
    have wf2: "cq_wf ?q2" using t m by (simp add: cq_wf_def)
    have hd2: "(head q + 1) mod ?m + i = (head q + 1) mod ?m + i" for i by simp
    have s2: "cq_size ?q2 = ?n"
    proof (rule cq_size_eqI [OF wf2])
      have "((head q + 1) mod ?m + ?n) mod ?m = (head q + (?n + 1)) mod ?m" unfolding mod_add_left_eq by (simp add: ac_simps)
      then show "(head ?q2 + ?n) mod max_items ?q2 = tail ?q2" using nxt by simp
    qed (use m sz in simp_all)
    have "cq_list ?q2 = tl (cq_list q @ [x])"
    proof (rule nth_equalityI)
      fix i assume "i < length (cq_list ?q2)"
      then have i: "i < ?n" using s2 by simp
      have "((head q + 1) mod ?m + i) mod ?m = (head q + (i + 1)) mod ?m" unfolding mod_add_left_eq by (simp add: ac_simps)
      then have "cq_list ?q2 ! i = v ?q1 ! ((head q + (i + 1)) mod ?m)" using i s2 by (simp add: nth_cq_list)
      also have "\<dots> = (cq_list q @ [x]) ! (i + 1)" using item [of "i + 1"] i by simp
      also have "\<dots> = tl (cq_list q @ [x]) ! i" using i by (simp add: nth_tl)
      finally show "cq_list ?q2 ! i = tl (cq_list q @ [x]) ! i" .
    qed (use s2 in simp)
    then show ?thesis using False m t wf2 eq by (simp add: cq_push_back_def Let_def)
  qed
qed

lemma cq_pop_list:
  assumes wf: "cq_wf q" and ne: "\<not> cq_empty q"
  shows "\<exists>q'. cq_front q = Ok (hd (cq_list q)) \<and> cq_pop_front q = Ok q' \<and> cq_wf q' \<and> max_items q' = max_items q \<and>
    cq_list q' = tl (cq_list q) \<and> cq_list q \<noteq> []"
proof -
  let ?m = "max_items q" and ?n = "cq_size q"
  have m: "0 < ?m" "head q < ?m" "length (v q) = ?m" using wf ne by (auto simp: cq_wf_def cq_empty_def split: if_splits)
  have n: "0 < ?n" using wf ne m by (auto simp: cq_wf_def cq_empty_def cq_size_def)
  let ?q1 = "q\<lparr>head := (head q + 1) mod ?m\<rparr>"
  have wf1: "cq_wf ?q1" using wf m by (auto simp: cq_wf_def)
  have hd1: "((head q + 1) mod ?m + i) mod ?m = (head q + (i + 1)) mod ?m" for i
    unfolding mod_add_left_eq by (simp add: ac_simps)
  have s1: "cq_size ?q1 = ?n - 1"
    using m hd1 [of "?n - 1"] cq_size_mod [OF wf m(1)] n by (intro cq_size_eqI [OF wf1]) simp_all
  have l: "cq_list ?q1 = tl (cq_list q)"
  proof (rule nth_equalityI)
    fix i assume "i < length (cq_list ?q1)"
    then show "cq_list ?q1 ! i = tl (cq_list q) ! i" using s1 hd1 [of i] by (simp add: nth_cq_list nth_tl)
  qed (use s1 in simp)
  have "cq_list q \<noteq> []" using n by (metis length_0_conv length_cq_list neq0_conv)
  moreover have "hd (cq_list q) = v q ! head q" using n m by (simp add: hd_conv_nth \<open>cq_list q \<noteq> []\<close> nth_cq_list)
  ultimately show ?thesis using m wf1 l by (simp add: cq_front_def cq_pop_front_def)
qed

lemma cq_empty_list: "cq_wf q \<Longrightarrow> cq_empty q \<longleftrightarrow> cq_list q = []"
  by (auto simp: cq_wf_def cq_empty_def cq_list_def cq_size_def split: if_splits)

lemma cq_full_iff: "cq_wf q \<Longrightarrow> 0 < max_items q \<Longrightarrow> cq_full q \<longleftrightarrow> cq_size q = cq_cap q"
  by (auto simp: cq_wf_def cq_full_def cq_size_def cq_cap_def mod_Suc split: if_splits)

lemma cq_at_list: "cq_wf q \<Longrightarrow> i < cq_size q \<Longrightarrow> cq_at i q = Ok (cq_list q ! i)"
  by (auto simp: cq_at_def nth_cq_list cq_wf_def Let_def cq_size_def split: if_splits)

section \<open>The interface\<close>

text \<open>
  A buffer that keeps the last \<open>cap\<close> items: what its clients know of it. \<open>run_push\<close> pushes a list of
  items, \<open>drain\<close> is the loop that pops all items and hands them to a function.
\<close>

primrec pushes :: "('x \<Rightarrow> 'q \<Rightarrow> 'q outcome) \<Rightarrow> 'x list \<Rightarrow> 'q \<Rightarrow> 'q outcome" where
  "pushes push [] q = Ok q"
| "pushes push (x # xs) q = bind_outcome (push x q) (pushes push xs)"

definition last_n :: "nat \<Rightarrow> 'a list \<Rightarrow> 'a list" where
  "last_n n xs = drop (length xs - n) xs"

lemma last_n_last_n: "last_n n (last_n n zs @ xs) = last_n n (zs @ xs)"
proof (cases "length zs \<le> n")
  case False
  then have "last_n n zs @ xs = drop (length zs - n) (zs @ xs)" by (simp add: last_n_def)
  then show ?thesis using False by (simp add: last_n_def add.commute del: drop_append)
qed (simp add: last_n_def)

lemma length_last_n: "length (last_n n xs) = min n (length xs)"
  by (simp add: last_n_def)

locale overrun_queue =
  fixes push :: "'x \<Rightarrow> 'q \<Rightarrow> 'q outcome" and front :: "'q \<Rightarrow> 'x outcome" and pop :: "'q \<Rightarrow> 'q outcome"
    and is_empty :: "'q \<Rightarrow> bool" and wf :: "'q \<Rightarrow> bool" and items :: "'q \<Rightarrow> 'x list" and cap :: "'q \<Rightarrow> nat"
  assumes push_law: "wf q \<Longrightarrow> \<exists>q'. push x q = Ok q' \<and> wf q' \<and> cap q' = cap q \<and> items q' = last_n (cap q) (items q @ [x])"
    and pop_law: "wf q \<Longrightarrow> \<not> is_empty q \<Longrightarrow>
      \<exists>x q' xs. front q = Ok x \<and> pop q = Ok q' \<and> wf q' \<and> cap q' = cap q \<and> items q = x # xs \<and> items q' = xs"
    and empty_law: "wf q \<Longrightarrow> is_empty q \<longleftrightarrow> items q = []"
    and bounded: "wf q \<Longrightarrow> length (items q) \<le> cap q"
begin

lemma pushes_last:
  "wf q \<Longrightarrow> \<exists>q'. pushes push xs q = Ok q' \<and> wf q' \<and> cap q' = cap q \<and> items q' = last_n (cap q) (items q @ xs)"
proof (induction xs arbitrary: q)
  case Nil
  then show ?case using bounded by (simp add: last_n_def)
next
  case (Cons x xs)
  from push_law [OF Cons.prems, of x] obtain q1 where q1: "push x q = Ok q1" "wf q1" "cap q1 = cap q" "items q1 = last_n (cap q) (items q @ [x])"
    by blast
  then show ?case using Cons.IH [OF q1(2)] last_n_last_n [of "cap q" "items q @ [x]" xs] by simp
qed

end

interpretation cq: overrun_queue cq_push_back cq_front cq_pop_front cq_empty "\<lambda>q. cq_wf q \<and> 0 < max_items q" cq_list cq_cap
proof
  fix q :: "'a circular_q" and x
  assume wf: "cq_wf q \<and> 0 < max_items q"
  then have cap: "cq_size q \<le> cq_cap q" using cq_size_mod(2) [of q] by (simp add: cq_cap_def)
  have "(if cq_size q < cq_cap q then cq_list q @ [x] else tl (cq_list q @ [x])) = last_n (cq_cap q) (cq_list q @ [x])"
    using cap by (auto simp: last_n_def drop_Suc simp del: drop_append)
  with cq_push_list [of q x] wf
  show "\<exists>q'. cq_push_back x q = Ok q' \<and> (cq_wf q' \<and> 0 < max_items q') \<and> cq_cap q' = cq_cap q \<and> cq_list q' = last_n (cq_cap q) (cq_list q @ [x])"
    by (auto simp: cq_cap_def)
  show "cq_empty q \<longleftrightarrow> cq_list q = []" using wf cq_empty_list by blast
  show "length (cq_list q) \<le> cq_cap q" using cap by simp
  assume "\<not> cq_empty q"
  with cq_pop_list [of q] wf
  show "\<exists>x q' xs. cq_front q = Ok x \<and> cq_pop_front q = Ok q' \<and> (cq_wf q' \<and> 0 < max_items q') \<and> cq_cap q' = cq_cap q \<and>
      cq_list q = x # xs \<and> cq_list q' = xs"
    by (metis cq_cap_def list.collapse)
qed

section \<open>The backtracer\<close>

text \<open>
  The lock makes every method atomic. A \<^verbatim>\<open>log_msg_buffer\<close> is a message that owns its text: here a message.
\<close>

record 'm backtracer =
  bt_enabled :: bool
  bt_messages :: "'m circular_q"

definition backtracer_none :: "'m backtracer" where
  "backtracer_none = \<lparr>bt_enabled = False, bt_messages = circular_q_none\<rparr>"

definition bt_enable :: "'m \<Rightarrow> nat \<Rightarrow> 'm backtracer \<Rightarrow> 'm backtracer" where
  "bt_enable x0 n b = b\<lparr>bt_enabled := True, bt_messages := circular_q_new x0 n\<rparr>"

definition bt_disable :: "'m backtracer \<Rightarrow> 'm backtracer" where
  "bt_disable b = b\<lparr>bt_enabled := False\<rparr>"

text \<open>Copying and moving: the new object, and what is left of the moved one.\<close>

definition bt_copy :: "'m backtracer \<Rightarrow> 'm backtracer" where
  "bt_copy other = \<lparr>bt_enabled = bt_enabled other, bt_messages = bt_messages other\<rparr>"

definition bt_move :: "'m backtracer \<Rightarrow> 'm backtracer \<times> 'm backtracer" where
  "bt_move other = (case copy_moveable (bt_messages other) of (q, q') \<Rightarrow>
     (\<lparr>bt_enabled = bt_enabled other, bt_messages = q\<rparr>, other\<lparr>bt_messages := q'\<rparr>))"

definition bt_push_back :: "'m \<Rightarrow> 'm backtracer \<Rightarrow> 'm backtracer outcome" where
  "bt_push_back msg b = bind_outcome (cq_push_back msg (bt_messages b)) (\<lambda>q. Ok (b\<lparr>bt_messages := q\<rparr>))"

text \<open>The loop of \<^verbatim>\<open>foreach_pop\<close>: no result as long as it runs.\<close>

partial_function (option) pop_loop :: "('m \<Rightarrow> 's \<Rightarrow> 's outcome) \<Rightarrow> 'm circular_q \<Rightarrow> 's \<Rightarrow> ('m circular_q \<times> 's) outcome option" where
  "pop_loop fn q s =
     (if cq_empty q then Some (Ok (q, s))
      else case bind_outcome (cq_front q) (\<lambda>m. bind_outcome (fn m s) (\<lambda>s. bind_outcome (cq_pop_front q) (\<lambda>q. Ok (q, s)))) of
        Ok r \<Rightarrow> pop_loop fn (fst r) (snd r)
      | Throw \<Rightarrow> Some Throw | Ub u \<Rightarrow> Some (Ub u) | Abort \<Rightarrow> Some Abort | Spin \<Rightarrow> Some Spin)"

definition foreach_pop :: "('m \<Rightarrow> 's \<Rightarrow> 's outcome) \<Rightarrow> 'm backtracer \<Rightarrow> 's \<Rightarrow> ('m backtracer \<times> 's) outcome option" where
  "foreach_pop fn b s =
     map_option (\<lambda>r. bind_outcome r (\<lambda>(q, s). Ok (b\<lparr>bt_messages := q\<rparr>, s))) (pop_loop fn (bt_messages b) s)"

text \<open>Visiting a list of messages in order.\<close>

primrec visit :: "('m \<Rightarrow> 's \<Rightarrow> 's outcome) \<Rightarrow> 'm list \<Rightarrow> 's \<Rightarrow> 's outcome" where
  "visit fn [] s = Ok s"
| "visit fn (m # ms) s = bind_outcome (fn m s) (visit fn ms)"

lemma pop_loop_visits:
  assumes "cq_wf q" "0 < max_items q" "visit fn (cq_list q) s = Ok s'"
  shows "\<exists>q'. pop_loop fn q s = Some (Ok (q', s')) \<and> cq_wf q' \<and> max_items q' = max_items q \<and> cq_list q' = []"
  using assms
proof (induction "cq_list q" arbitrary: q s)
  case Nil
  then have "cq_empty q" by (simp add: cq_empty_list)
  then show ?case using Nil by (subst pop_loop.simps) simp
next
  case (Cons x xs)
  then have ne: "\<not> cq_empty q" using cq_empty_list by force
  obtain q1 where q1: "cq_front q = Ok x" "cq_pop_front q = Ok q1" "cq_wf q1" "max_items q1 = max_items q" "cq_list q1 = xs"
    using cq_pop_list [OF Cons.prems(1) ne] Cons.hyps(2) by (metis list.sel(1,3))
  obtain s1 where s1: "fn x s = Ok s1" "visit fn xs s1 = Ok s'"
    using Cons.prems(3) Cons.hyps(2) by (metis bind_outcome_Ok_iff visit.simps(2))
  have "\<exists>q'. pop_loop fn q1 s1 = Some (Ok (q', s')) \<and> cq_wf q' \<and> max_items q' = max_items q1 \<and> cq_list q' = []"
    using Cons.hyps(1) [of q1 s1] q1 s1 Cons.prems by simp
  then show ?case using ne q1 s1 by (subst pop_loop.simps) simp
qed

section \<open>The ring buffer sink\<close>

definition items_wanted :: "nat \<Rightarrow> 'm circular_q \<Rightarrow> nat" where
  "items_wanted lim q = (if lim > 0 then min lim (cq_size q) else cq_size q)"

primrec collect_at :: "'m circular_q \<Rightarrow> nat list \<Rightarrow> 'm list outcome" where
  "collect_at q [] = Ok []"
| "collect_at q (i # is) = bind_outcome (cq_at i q) (\<lambda>x. bind_outcome (collect_at q is) (\<lambda>xs. Ok (x # xs)))"

definition last_raw :: "nat \<Rightarrow> 'm circular_q \<Rightarrow> 'm list outcome" where
  "last_raw lim q = collect_at q [cq_size q - items_wanted lim q ..< cq_size q]"

lemma collect_at_list: "cq_wf q \<Longrightarrow> list_all (\<lambda>i. i < cq_size q) is \<Longrightarrow> collect_at q is = Ok (map ((!) (cq_list q)) is)"
  by (induction "is") (auto simp: cq_at_list)

lemma last_raw_list:
  assumes "cq_wf q"
  shows "last_raw lim q = Ok (if lim = 0 then cq_list q else last_n lim (cq_list q))"
proof -
  have "map ((!) (cq_list q)) [cq_size q - items_wanted lim q ..< cq_size q] = drop (cq_size q - items_wanted lim q) (cq_list q)"
    by (rule nth_equalityI) (auto simp: items_wanted_def)
  then show ?thesis using assms
    by (auto simp: last_raw_def collect_at_list list_all_iff items_wanted_def last_n_def min_def)
qed

section \<open>Properties\<close>

text \<open>The circular queue keeps the last items: after any pushes it holds the last \<open>n\<close> of them in
  order, whatever wrap-around the indices went through, and the ring buffer sink returns exactly these, or
  the last \<open>lim\<close> of them.\<close>
theorem circular_q_keeps_last:
  assumes "n < 2 ^ 64 - 1" "0 < lim"
  shows "\<exists>q. pushes cq_push_back xs (circular_q_new x0 n) = Ok q \<and> cq_list q = last_n n xs \<and>
    cq_size q = min n (length xs) \<and> last_raw 0 q = Ok (last_n n xs) \<and> last_raw lim q = Ok (last_n lim (last_n n xs))"
proof -
  have "\<exists>q'. pushes cq_push_back xs (circular_q_new x0 n) = Ok q' \<and> (cq_wf q' \<and> 0 < max_items q') \<and>
      cq_cap q' = cq_cap (circular_q_new x0 n) \<and> cq_list q' = last_n (cq_cap (circular_q_new x0 n)) (cq_list (circular_q_new x0 n) @ xs)"
    by (rule cq.pushes_last) (use assms cq_wf_new in auto)
  then obtain q where q: "pushes cq_push_back xs (circular_q_new x0 n) = Ok q" "cq_wf q" "cq_list q = last_n n xs"
    using assms(1) by auto
  then have "cq_size q = min n (length xs)" using length_cq_list [of q] by (simp add: length_last_n)
  then show ?thesis using q assms(2) by (simp add: last_raw_list)
qed

theorem circular_q_keeps_last_witness:
  "\<exists>q. pushes cq_push_back [1, 2, 3, 4, 5 :: int] (circular_q_new 0 3) = Ok q \<and> cq_list q = [3, 4, 5] \<and> last_raw 2 q = Ok [4, 5]"
  using circular_q_keeps_last [of 3 2 "[1, 2, 3, 4, 5 :: int]" 0] by (auto simp: last_n_def)

end
