(* ===== verification/Log_Logger.thy ===== *)
theory Log_Logger
  imports Log_Line Log_Queue
begin

text \<open>
  Loggers and the colour console sink: \<^verbatim>\<open>ansicolor_sink-inl.h\<close>, \<^verbatim>\<open>sink-inl.h\<close>, \<^verbatim>\<open>logger-inl.h\<close> and the
  non-template part of \<^verbatim>\<open>logger.h\<close>. Sinks are shared between loggers, so they live in a heap; the text a
  sink has written is part of its state. What \<^verbatim>\<open>fmt\<close> makes of a format string and its arguments is an
  argument of \<open>logger_log\<close>.
\<close>

section \<open>The colour console sink\<close>

definition esc :: char where
  "esc = CHR 0x1B"

definition reset :: string where "reset = esc # ''[m''"
definition green :: string where "green = esc # ''[32m''"
definition cyan :: string where "cyan = esc # ''[36m''"
definition white :: string where "white = esc # ''[37m''"
definition yellow_bold :: string where "yellow_bold = (esc # ''[33m'') @ (esc # ''[1m'')"
definition red_bold :: string where "red_bold = (esc # ''[31m'') @ (esc # ''[1m'')"
definition bold_on_red :: string where "bold_on_red = (esc # ''[1m'') @ (esc # ''[41m'')"

datatype color_mode = ColorAlways | ColorAutomatic | ColorNever

text \<open>\<open>target_file\<close> is what has been written to the stream, \<open>flushes\<close> the number of \<^verbatim>\<open>fflush\<close> calls.\<close>

record ansicolor_sink =
  sink_level :: level_enum
  should_do_colors :: bool
  sink_formatter :: pattern_formatter
  colors :: "string list"
  target_file :: string
  flushes :: nat

definition default_eol :: string where
  "default_eol = [CHR 0x0A]"

text \<open>\<open>terminal\<close> tells whether the stream is a terminal that is known to understand colours.\<close>

definition set_color_mode :: "bool \<Rightarrow> color_mode \<Rightarrow> ansicolor_sink \<Rightarrow> ansicolor_sink" where
  "set_color_mode terminal mode sk =
     sk\<lparr>should_do_colors := (case mode of ColorAlways \<Rightarrow> True | ColorAutomatic \<Rightarrow> terminal | ColorNever \<Rightarrow> False)\<rparr>"

definition ansicolor_sink_new :: "bool \<Rightarrow> color_mode \<Rightarrow> ansicolor_sink" where
  "ansicolor_sink_new terminal mode =
     set_color_mode terminal mode
       \<lparr>sink_level = Trace, should_do_colors = False, sink_formatter = pattern_formatter_default LocalTime default_eol,
        colors = [white, cyan, green, yellow_bold, red_bold, bold_on_red, reset], target_file = [], flushes = 0\<rparr>"

definition set_color :: "level_enum \<Rightarrow> string \<Rightarrow> ansicolor_sink \<Rightarrow> ansicolor_sink outcome" where
  "set_color l color sk =
     (if nat (level_code l) < length (colors sk) then Ok (sk\<lparr>colors := (colors sk)[nat (level_code l) := color]\<rparr>) else Ub IndexOut)"

definition print_ccode :: "string \<Rightarrow> ansicolor_sink \<Rightarrow> ansicolor_sink" where
  "print_ccode code sk = sk\<lparr>target_file := target_file sk @ code\<rparr>"

definition print_range :: "string \<Rightarrow> nat \<Rightarrow> nat \<Rightarrow> ansicolor_sink \<Rightarrow> ansicolor_sink outcome" where
  "print_range formatted a b sk =
     (if a \<le> b \<and> b \<le> length formatted
      then Ok (sk\<lparr>target_file := target_file sk @ take (b - a) (drop a formatted)\<rparr>) else Ub Overread)"

definition sink_flush :: "ansicolor_sink \<Rightarrow> ansicolor_sink" where
  "sink_flush sk = sk\<lparr>flushes := flushes sk + 1\<rparr>"

definition sink_log :: "log_env \<Rightarrow> log_msg \<Rightarrow> ansicolor_sink \<Rightarrow> ansicolor_sink outcome" where
  "sink_log env msg sk =
     (let msg = msg\<lparr>color_range_start := 0, color_range_end := 0\<rparr> in
      bind_outcome (format_msg env (sink_formatter sk) msg []) (\<lambda>(pf, msg, formatted).
      let sk = sk\<lparr>sink_formatter := pf\<rparr> in
      bind_outcome
        (if should_do_colors sk \<and> color_range_end msg > color_range_start msg then
           bind_outcome (print_range formatted 0 (color_range_start msg) sk) (\<lambda>sk.
           bind_outcome (array_at (colors sk) (level_code (lvl msg))) (\<lambda>code.
           bind_outcome (print_range formatted (color_range_start msg) (color_range_end msg) (print_ccode code sk)) (\<lambda>sk.
           print_range formatted (color_range_end msg) (length formatted) (print_ccode reset sk))))
         else print_range formatted 0 (length formatted) sk)
        (\<lambda>sk. Ok (sink_flush sk))))"

definition sink_set_pattern :: "int \<Rightarrow> string \<Rightarrow> ansicolor_sink \<Rightarrow> ansicolor_sink" where
  "sink_set_pattern now pat sk = sk\<lparr>sink_formatter := pattern_formatter_new now pat LocalTime default_eol Map.empty\<rparr>"

definition sink_set_formatter :: "pattern_formatter \<Rightarrow> ansicolor_sink \<Rightarrow> ansicolor_sink" where
  "sink_set_formatter pf sk = sk\<lparr>sink_formatter := pf\<rparr>"

definition sink_should_log :: "level_enum \<Rightarrow> ansicolor_sink \<Rightarrow> bool" where
  "sink_should_log msg_level sk \<longleftrightarrow> msg_level \<ge> sink_level sk"

definition sink_set_level :: "level_enum \<Rightarrow> ansicolor_sink \<Rightarrow> ansicolor_sink" where
  "sink_set_level l sk = sk\<lparr>sink_level := l\<rparr>"

section \<open>Loggers\<close>

record logger =
  name :: string
  sinks :: "oid list"
  level :: level_enum
  flush_level :: level_enum
  custom_err_handler :: bool
  tracer :: "log_msg backtracer"

text \<open>
  The heap of sinks, with the static variables of \<^verbatim>\<open>err_handler_\<close>: the error counter, the time of the last
  report, the reports written to \<^verbatim>\<open>stderr\<close> (counter and logger name) and the calls of a custom handler.
\<close>

record log_world =
  w_sinks :: "oid \<rightharpoonup> ansicolor_sink"
  err_counter :: size_t
  last_report_time :: int
  reports :: "(size_t \<times> string) list"
  custom_reports :: "string list"

definition logger_new :: "string \<Rightarrow> oid list \<Rightarrow> logger" where
  "logger_new n ss = \<lparr>name = n, sinks = ss, level = Info, flush_level = Off, custom_err_handler = False, tracer = backtracer_none\<rparr>"

definition logger_copy :: "logger \<Rightarrow> logger" where
  "logger_copy other = other\<lparr>tracer := bt_copy (tracer other)\<rparr>"

definition logger_clone :: "string \<Rightarrow> logger \<Rightarrow> logger" where
  "logger_clone n l = (logger_copy l)\<lparr>name := n\<rparr>"

definition logger_swap :: "logger \<Rightarrow> logger \<Rightarrow> logger \<times> logger" where
  "logger_swap a b =
     (a\<lparr>name := name b, sinks := sinks b, level := level b, flush_level := flush_level b,
        custom_err_handler := custom_err_handler b, tracer := tracer b\<rparr>,
      b\<lparr>name := name a, sinks := sinks a, level := level a, flush_level := flush_level a,
        custom_err_handler := custom_err_handler a, tracer := tracer a\<rparr>)"

definition logger_set_level :: "level_enum \<Rightarrow> logger \<Rightarrow> logger" where
  "logger_set_level l lg = lg\<lparr>level := l\<rparr>"

definition logger_flush_on :: "level_enum \<Rightarrow> logger \<Rightarrow> logger" where
  "logger_flush_on l lg = lg\<lparr>flush_level := l\<rparr>"

definition logger_enable_backtrace :: "log_msg \<Rightarrow> nat \<Rightarrow> logger \<Rightarrow> logger" where
  "logger_enable_backtrace x0 n lg = lg\<lparr>tracer := bt_enable x0 n (tracer lg)\<rparr>"

definition logger_disable_backtrace :: "logger \<Rightarrow> logger" where
  "logger_disable_backtrace lg = lg\<lparr>tracer := bt_disable (tracer lg)\<rparr>"

definition logger_set_error_handler :: "logger \<Rightarrow> logger" where
  "logger_set_error_handler lg = lg\<lparr>custom_err_handler := True\<rparr>"

definition should_log :: "level_enum \<Rightarrow> logger \<Rightarrow> bool" where
  "should_log msg_level lg \<longleftrightarrow> msg_level \<ge> level lg"

definition should_backtrace :: "logger \<Rightarrow> bool" where
  "should_backtrace lg \<longleftrightarrow> bt_enabled (tracer lg)"

definition should_flush :: "log_msg \<Rightarrow> logger \<Rightarrow> bool" where
  "should_flush msg lg \<longleftrightarrow> lvl msg \<ge> flush_level lg \<and> lvl msg \<noteq> Off"

text \<open>At most one report per second reaches \<^verbatim>\<open>stderr\<close>; \<open>now\<close> is the clock.\<close>

definition err_handler :: "int \<Rightarrow> logger \<Rightarrow> log_world \<Rightarrow> log_world" where
  "err_handler now lg w =
     (if custom_err_handler lg then w\<lparr>custom_reports := custom_reports w @ [name lg]\<rparr>
      else let w = w\<lparr>err_counter := err_counter w + 1\<rparr> in
        if now - last_report_time w < seconds then w
        else w\<lparr>last_report_time := now, reports := reports w @ [(err_counter w, name lg)]\<rparr>)"

definition with_sink :: "oid \<Rightarrow> (ansicolor_sink \<Rightarrow> 'a outcome) \<Rightarrow> log_world \<Rightarrow> 'a outcome" where
  "with_sink s f w = (case w_sinks w s of None \<Rightarrow> Ub NullDeref | Some sk \<Rightarrow> f sk)"

text \<open>Each sink gets its own formatter; the last one gets the original, the others clones.\<close>

fun set_formatters :: "int \<Rightarrow> pattern_formatter \<Rightarrow> oid list \<Rightarrow> log_world \<Rightarrow> log_world outcome" where
  "set_formatters now f [] w = Ok w"
| "set_formatters now f (s # ss) w =
     with_sink s (\<lambda>sk.
       let f' = (if ss = [] then f else pattern_formatter_clone now f);
           w = w\<lparr>w_sinks := (w_sinks w)(s \<mapsto> sink_set_formatter f' sk)\<rparr>
       in set_formatters now f ss w) w"

definition logger_set_formatter :: "int \<Rightarrow> pattern_formatter \<Rightarrow> logger \<Rightarrow> log_world \<Rightarrow> log_world outcome" where
  "logger_set_formatter now f lg w = set_formatters now f (sinks lg) w"

definition logger_set_pattern :: "int \<Rightarrow> string \<Rightarrow> pattern_time_type \<Rightarrow> logger \<Rightarrow> log_world \<Rightarrow> log_world outcome" where
  "logger_set_pattern now pat tt lg w =
     logger_set_formatter now (pattern_formatter_new now pat tt default_eol Map.empty) lg w"

fun flush_sinks :: "oid list \<Rightarrow> log_world \<Rightarrow> log_world outcome" where
  "flush_sinks [] w = Ok w"
| "flush_sinks (s # ss) w =
     with_sink s (\<lambda>sk. flush_sinks ss (w\<lparr>w_sinks := (w_sinks w)(s \<mapsto> sink_flush sk)\<rparr>)) w"

definition logger_flush :: "logger \<Rightarrow> log_world \<Rightarrow> log_world outcome" where
  "logger_flush lg w = flush_sinks (sinks lg) w"

text \<open>
  The loop of \<^verbatim>\<open>sink_it_\<close>. An exception of one sink goes to the error handler and the next sink follows; the
  sink that threw has written nothing.
\<close>

fun log_sinks :: "log_env \<Rightarrow> int \<Rightarrow> logger \<Rightarrow> oid list \<Rightarrow> log_msg \<Rightarrow> log_world \<Rightarrow> log_world outcome" where
  "log_sinks env now lg [] msg w = Ok w"
| "log_sinks env now lg (s # ss) msg w =
     with_sink s (\<lambda>sk.
       if sink_should_log (lvl msg) sk then
         (case sink_log env msg sk of
            Ok sk \<Rightarrow> log_sinks env now lg ss msg (w\<lparr>w_sinks := (w_sinks w)(s \<mapsto> sk)\<rparr>)
          | Throw \<Rightarrow> log_sinks env now lg ss msg (err_handler now lg w)
          | Ub u \<Rightarrow> Ub u | Abort \<Rightarrow> Abort | Spin \<Rightarrow> Spin)
       else log_sinks env now lg ss msg w) w"

definition sink_it :: "log_env \<Rightarrow> int \<Rightarrow> logger \<Rightarrow> log_msg \<Rightarrow> log_world \<Rightarrow> log_world outcome" where
  "sink_it env now lg msg w =
     bind_outcome (log_sinks env now lg (sinks lg) msg w) (\<lambda>w.
       if should_flush msg lg then logger_flush lg w else Ok w)"

definition log_it :: "log_env \<Rightarrow> int \<Rightarrow> log_msg \<Rightarrow> bool \<Rightarrow> bool \<Rightarrow> logger \<Rightarrow> log_world \<Rightarrow> (logger \<times> log_world) outcome" where
  "log_it env now msg log_enabled traceback_enabled lg w =
     bind_outcome (if log_enabled then sink_it env now lg msg w else Ok w) (\<lambda>w.
       if traceback_enabled then bind_outcome (bt_push_back msg (tracer lg)) (\<lambda>t. Ok (lg\<lparr>tracer := t\<rparr>, w))
       else Ok (lg, w))"

text \<open>
  \<^verbatim>\<open>log_\<close>: \<open>formatted\<close> is the result of formatting the payload, with \<open>Throw\<close> for a format error; \<open>tid\<close> and
  \<open>t\<close> are the thread id and the time the message is stamped with.
\<close>

definition logger_log ::
  "log_env \<Rightarrow> int \<Rightarrow> size_t \<Rightarrow> int \<Rightarrow> source_loc \<Rightarrow> level_enum \<Rightarrow> string outcome \<Rightarrow> logger \<Rightarrow> log_world \<Rightarrow> (logger \<times> log_world) outcome" where
  "logger_log env now tid t loc l formatted lg w =
     (let log_enabled = should_log l lg; traceback_enabled = bt_enabled (tracer lg) in
      if \<not> log_enabled \<and> \<not> traceback_enabled then Ok (lg, w)
      else case formatted of
        Ok body \<Rightarrow> log_it env now (log_msg_new tid t loc (name lg) l body) log_enabled traceback_enabled lg w
      | Throw \<Rightarrow> Ok (lg, err_handler now lg w)
      | Ub u \<Rightarrow> Ub u | Abort \<Rightarrow> Abort | Spin \<Rightarrow> Spin)"

definition backtrace_start :: string where
  "backtrace_start = ''****************** Backtrace Start ******************''"

definition backtrace_end :: string where
  "backtrace_end = ''****************** Backtrace End ********************''"

definition dump_backtrace :: "log_env \<Rightarrow> int \<Rightarrow> size_t \<Rightarrow> int \<Rightarrow> int \<Rightarrow> logger \<Rightarrow> log_world \<Rightarrow> (logger \<times> log_world) outcome option" where
  "dump_backtrace env now tid t1 t2 lg w =
     (if bt_enabled (tracer lg) then
        case sink_it env now lg (log_msg_new tid t1 no_source_loc (name lg) Info backtrace_start) w of
          Ok w \<Rightarrow> map_option (\<lambda>r. bind_outcome r (\<lambda>(t, w).
              let lg = lg\<lparr>tracer := t\<rparr> in
              bind_outcome (sink_it env now lg (log_msg_new tid t2 no_source_loc (name lg) Info backtrace_end) w) (\<lambda>w. Ok (lg, w))))
            (foreach_pop (sink_it env now lg) (tracer lg) w)
        | Throw \<Rightarrow> Some Throw | Ub u \<Rightarrow> Some (Ub u) | Abort \<Rightarrow> Some Abort | Spin \<Rightarrow> Some Spin
      else Some (Ok (lg, w)))"

section \<open>Backtraces\<close>

lemma err_handler_tracer [simp]: "err_handler now (lg\<lparr>tracer := t\<rparr>) w = err_handler now lg w"
  by (simp add: err_handler_def Let_def)

lemma log_sinks_tracer: "log_sinks env now (lg\<lparr>tracer := t\<rparr>) ss msg w = log_sinks env now lg ss msg w"
  by (induction ss arbitrary: w) (simp_all add: with_sink_def split: option.split outcome.split)

lemma sink_it_tracer [simp]: "sink_it env now (lg\<lparr>tracer := t\<rparr>) = sink_it env now lg"
  by (intro ext) (simp add: sink_it_def log_sinks_tracer should_flush_def logger_flush_def cong: if_cong)

text \<open>A sequence of calls of \<^verbatim>\<open>log\<close>: thread, time, location, level and text.\<close>

type_synonym log_call = "size_t \<times> int \<times> source_loc \<times> level_enum \<times> string"

fun call_msg :: "string \<Rightarrow> log_call \<Rightarrow> log_msg" where
  "call_msg n (tid, t, loc, l, body) = log_msg_new tid t loc n l body"

fun call_level :: "log_call \<Rightarrow> level_enum" where
  "call_level (tid, t, loc, l, body) = l"

fun log_all :: "log_env \<Rightarrow> int \<Rightarrow> log_call list \<Rightarrow> logger \<Rightarrow> log_world \<Rightarrow> (logger \<times> log_world) outcome" where
  "log_all env now [] lg w = Ok (lg, w)"
| "log_all env now ((tid, t, loc, l, body) # cs) lg w =
     bind_outcome (logger_log env now tid t loc l (Ok body) lg w) (\<lambda>(lg, w). log_all env now cs lg w)"

lemma log_all_quiet:
  assumes "bt_enabled (tracer lg)" "list_all (\<lambda>c. call_level c < level lg) cs"
    and "pushes cq_push_back (map (call_msg (name lg)) cs) (bt_messages (tracer lg)) = Ok q"
  shows "log_all env now cs lg w = Ok (lg\<lparr>tracer := (tracer lg)\<lparr>bt_messages := q\<rparr>\<rparr>, w)"
  using assms
proof (induction cs arbitrary: lg)
  case (Cons c cs)
  obtain tid t loc l body where c: "c = (tid, t, loc, l, body)" by (cases c)
  from Cons.prems(3) c obtain q1 where q1: "cq_push_back (log_msg_new tid t loc (name lg) l body) (bt_messages (tracer lg)) = Ok q1"
    "pushes cq_push_back (map (call_msg (name lg)) cs) q1 = Ok q" by (auto simp: bind_outcome_Ok_iff)
  let ?lg = "lg\<lparr>tracer := (tracer lg)\<lparr>bt_messages := q1\<rparr>\<rparr>"
  have "logger_log env now tid t loc l (Ok body) lg w = Ok (?lg, w)"
    using Cons.prems(1,2) c q1(1) by (auto simp: logger_log_def log_it_def should_log_def bt_push_back_def Let_def)
  then show ?case using Cons.IH [of ?lg] Cons.prems q1(2) c by simp
qed simp

lemma dump_backtrace_visits:
  assumes "bt_enabled (tracer lg)" "cq_wf (bt_messages (tracer lg))" "0 < max_items (bt_messages (tracer lg))"
    and "visit (sink_it env now lg) (log_msg_new tid t1 no_source_loc (name lg) Info backtrace_start # cq_list (bt_messages (tracer lg)) @
          [log_msg_new tid t2 no_source_loc (name lg) Info backtrace_end]) w = Ok w'"
  shows "\<exists>q. dump_backtrace env now tid t1 t2 lg w = Some (Ok (lg\<lparr>tracer := (tracer lg)\<lparr>bt_messages := q\<rparr>\<rparr>, w')) \<and> cq_list q = []"
proof -
  have va: "visit fn (xs @ ys) s = bind_outcome (visit fn xs s) (visit fn ys)" for fn :: "log_msg \<Rightarrow> log_world \<Rightarrow> log_world outcome" and xs ys s
    by (induction xs arbitrary: s) (auto simp: bind_outcome_assoc intro!: bind_outcome_cong)
  obtain w1 w2 where w: "sink_it env now lg (log_msg_new tid t1 no_source_loc (name lg) Info backtrace_start) w = Ok w1"
    "visit (sink_it env now lg) (cq_list (bt_messages (tracer lg))) w1 = Ok w2"
    "sink_it env now lg (log_msg_new tid t2 no_source_loc (name lg) Info backtrace_end) w2 = Ok w'"
    using assms(4) by (auto simp: va bind_outcome_Ok_iff)
  obtain q where q: "pop_loop (sink_it env now lg) (bt_messages (tracer lg)) w1 = Some (Ok (q, w2))" "cq_list q = []"
    using pop_loop_visits [OF assms(2,3) w(2)] by blast
  show ?thesis by (rule exI [of _ q]) (use assms(1) w q in \<open>simp add: dump_backtrace_def foreach_pop_def Let_def\<close>)
qed

section \<open>The console output of the programs\<close>

text \<open>The formatter of the programs after any messages: only two caches have changed.\<close>

definition cproxy_pf :: "string \<Rightarrow> int \<times> int \<Rightarrow> tm \<Rightarrow> int \<Rightarrow> pattern_formatter" where
  "cproxy_pf e st t secs =
     \<lparr>pattern = cproxy_pattern, eol = e, time_type = LocalTime, need_localtime = True, cached_tm = t, last_log_secs = secs,
      formatters = [Aggregate ''['', plain source_location_class, Aggregate '' '', plain H_class, Aggregate '':'', plain M_class,
        Aggregate '':'', plain S_class, Aggregate '':'', plain e_class, Aggregate '' '', ZFlag False padding_info_none st,
        Aggregate ''] ['', ColorStart, plain short_level_class, ColorStop, Aggregate ''] [thread '', plain t_class,
        Aggregate ''] '', plain v_class],
      custom_handlers = Map.empty\<rparr>"

definition cproxy_warm :: "log_env \<Rightarrow> int \<Rightarrow> string \<Rightarrow> pattern_formatter \<Rightarrow> bool" where
  "cproxy_warm env off e pf \<longleftrightarrow> (\<exists>st t secs. pf = cproxy_pf e st t secs \<and> (fst st = 0 \<or> snd st = off) \<and> (secs = 0 \<or> t = os_localtime env secs))"

text \<open>A zone with the constant offset \<open>off\<close> and clock fields in their ranges.\<close>

definition zone_ok :: "log_env \<Rightarrow> int \<Rightarrow> bool" where
  "zone_ok env off \<longleftrightarrow> length (os_junk env) = buffer_size \<and>
     (\<forall>s. tm_clock_ok (os_localtime env s) \<and> utc_minutes_offset (os_localtime env s) = off)"

text \<open>A message with a location, stamped after the first ten seconds of the epoch.\<close>

definition printable :: "log_msg \<Rightarrow> bool" where
  "printable msg \<longleftrightarrow> msg_ok msg \<and> line (source msg) \<noteq> 0 \<and> 10 * seconds \<le> time msg"

lemma z_formatter_warm:
  assumes "tm_clock_ok t" "utc_minutes_offset t = off" "10 * seconds \<le> time msg" "fst st = 0 \<or> snd st = off"
  shows "\<exists>st'. z_formatter False p msg t st dest = Ok (st', dest @ zone_text off) \<and> snd st' = off"
proof -
  have o: "\<bar>off\<bar> < 6000" using utc_minutes_small [of "tm_gmtoff t"] assms(1,2) by (auto simp: tm_clock_ok_def utc_minutes_offset_def)
  have d: "0 \<le> \<bar>off\<bar> div 60" "\<bar>off\<bar> div 60 < 100" "0 \<le> \<bar>off\<bar> mod 60" "\<bar>off\<bar> mod 60 < 100" using o by auto
  have a: "(if off < 0 then - off else off) = \<bar>off\<bar>" by simp
  have g: "snd (get_cached_offset msg t st) = off" using assms by (cases st) (auto simp: get_cached_offset_def)
  show ?thesis using d g
    by (simp add: z_formatter_def scoped_def Let_def g a c_div_mod_nonneg pad2_two push_back_app zone_text_def)
qed

lemma cproxy_format_warm:
  assumes z: "zone_ok env off" and msg: "printable msg" and pf: "cproxy_warm env off e pf" and c: "to_short_c_str (lvl msg) = Ok [c]"
  defines "t \<equiv> os_localtime env (duration_cast seconds (time msg))"
  shows "\<exists>pf'. format_msg env pf msg [] =
      Ok (pf', msg\<lparr>color_range_start := length (line_head msg t), color_range_end := length (line_head msg t) + 1\<rparr>,
          line_head msg t @ c # line_tail msg @ e) \<and> cproxy_warm env off e pf'"
proof -
  obtain st t0 secs where p: "pf = cproxy_pf e st t0 secs" "fst st = 0 \<or> snd st = off" "secs = 0 \<or> t0 = os_localtime env secs"
    using pf unfolding cproxy_warm_def by blast
  have m: "msg_ok msg" "line (source msg) \<noteq> 0" "10 * seconds \<le> time msg" using msg by (simp_all add: printable_def)
  have env: "length (os_junk env) = buffer_size" and t: "tm_clock_ok t" "utc_minutes_offset t = off"
    using z by (simp_all add: zone_ok_def t_def)
  have nz: "duration_cast seconds (time msg) \<noteq> 0" and nn: "0 \<le> time msg"
    using m(3) by (auto simp: duration_cast_def seconds_def c_div_def)
  have r: "refresh_time env msg pf = cproxy_pf e st t (duration_cast seconds (time msg))"
    using p(1,3) nz by (auto simp: refresh_time_def get_time_def cproxy_pf_def Let_def t_def)
  let ?d = "''['' @ the (filename (source msg)) @ '':'' @ decimal_int (line (source msg)) @ '' '' @
     two_digits (tm_hour t) @ '':'' @ two_digits (tm_min t) @ '':'' @ two_digits (tm_sec t) @ '':'' @
     three_digits (time msg div 10 ^ 6 mod 1000) @ '' ''"
  obtain st' where st': "z_formatter False padding_info_none msg t st ?d = Ok (st', ?d @ zone_text off)" "snd st' = off"
    using z_formatter_warm [OF t m(3) p(2), where dest = ?d] by blast
  have "format_all env t (formatters (cproxy_pf e st t (duration_cast seconds (time msg)))) msg [] =
     Ok (formatters (cproxy_pf e st' t (duration_cast seconds (time msg))),
         msg\<lparr>color_range_start := length (line_head msg t), color_range_end := length (line_head msg t) + 1\<rparr>,
         line_head msg t @ c # line_tail msg)"
    unfolding cproxy_pf_def pattern_formatter.simps
    using c st'(1) by (simp add: source_location_text [OF env m(1,2)] clock_texts [OF t(1)] e_formatter_text [OF nn]
        message_texts(1) [OF env] message_texts(2,3) append_string_view_app line_head_def line_tail_def t(2))
  then have "format_msg env pf msg [] =
      Ok (cproxy_pf e st' t (duration_cast seconds (time msg)),
          msg\<lparr>color_range_start := length (line_head msg t), color_range_end := length (line_head msg t) + 1\<rparr>,
          line_head msg t @ c # line_tail msg @ e)"
    by (simp add: format_msg_def Let_def r append_string_view_app) (simp add: cproxy_pf_def)
  moreover have "cproxy_warm env off e (cproxy_pf e st' t (duration_cast seconds (time msg)))"
    unfolding cproxy_warm_def using st'(2) t_def by blast
  ultimately show ?thesis by blast
qed

text \<open>What the console sink writes for a message.\<close>

definition console_line :: "log_env \<Rightarrow> ansicolor_sink \<Rightarrow> log_msg \<Rightarrow> string" where
  "console_line env sk msg =
     (let t = os_localtime env (duration_cast seconds (time msg));
          c = short_level_names ! nat (level_code (lvl msg))
      in line_head msg t @
         (if should_do_colors sk then colors sk ! nat (level_code (lvl msg)) @ c @ reset else c) @ line_tail msg @ default_eol)"

lemma console_line_update: "console_line env (sk\<lparr>sink_formatter := pf, target_file := out, flushes := n\<rparr>) = console_line env sk"
  by (intro ext) (simp add: console_line_def Let_def cong: if_cong)

lemma sink_log_console:
  assumes "zone_ok env off" "printable msg" "cproxy_warm env off default_eol (sink_formatter sk)" "length (colors sk) = 7"
  shows "\<exists>pf. sink_log env msg sk = Ok (sk\<lparr>sink_formatter := pf, target_file := target_file sk @ console_line env sk msg,
      flushes := flushes sk + 1\<rparr>) \<and> cproxy_warm env off default_eol pf"
proof -
  let ?m = "msg\<lparr>color_range_start := 0, color_range_end := 0\<rparr>"
  let ?t = "os_localtime env (duration_cast seconds (time msg))"
  have l: "lvl msg \<noteq> NLevels" using assms(2) by (simp add: printable_def msg_ok_def)
  then obtain n c where c: "to_short_c_str (lvl msg) = Ok [c]" using level_name_defined by metis
  then have cs: "short_level_names ! nat (level_code (lvl msg)) = [c]" by (auto simp: to_short_c_str_def array_at_def split: if_splits)
  have code: "array_at (colors sk) (level_code (lvl msg)) = Ok (colors sk ! nat (level_code (lvl msg)))"
    using l assms(4) by (cases "lvl msg") (auto simp: array_at_def)
  have pm: "printable ?m" using assms(2) by (simp add: printable_def msg_ok_def)
  have hl: "line_head ?m ?t = line_head msg ?t" "line_tail ?m = line_tail msg" by (simp_all add: line_head_def line_tail_def)
  obtain pf where pf: "format_msg env (sink_formatter sk) ?m [] =
      Ok (pf, msg\<lparr>color_range_start := length (line_head msg ?t), color_range_end := length (line_head msg ?t) + 1\<rparr>,
          line_head msg ?t @ c # line_tail msg @ default_eol)" "cproxy_warm env off default_eol pf"
    using cproxy_format_warm [OF assms(1) pm assms(3), of c] c hl by auto
  show ?thesis using pf code
    by (auto simp: sink_log_def print_range_def print_ccode_def sink_flush_def console_line_def Let_def cs)
qed


lemma sink_it_console:
  assumes "zone_ok env off" "printable msg" "sinks lg = [s]" "flush_level lg = Off" "w_sinks w s = Some sk" "sink_level sk = Trace"
    and "cproxy_warm env off default_eol (sink_formatter sk)" "length (colors sk) = 7"
  shows "\<exists>pf. sink_it env now lg msg w = Ok (w\<lparr>w_sinks := (w_sinks w)(s \<mapsto> sk\<lparr>sink_formatter := pf,
      target_file := target_file sk @ console_line env sk msg, flushes := flushes sk + 1\<rparr>)\<rparr>) \<and> cproxy_warm env off default_eol pf"
proof -
  have "sink_should_log (lvl msg) sk" using assms(6) by (cases "lvl msg") (simp_all add: sink_should_log_def less_eq_level_enum_def)
  moreover have "\<not> should_flush msg lg"
    using assms(2,4) by (cases "lvl msg") (auto simp: should_flush_def less_eq_level_enum_def printable_def msg_ok_def)
  ultimately show ?thesis using sink_log_console [OF assms(1,2,7,8)] assms(3,5)
    by (auto simp: sink_it_def with_sink_def)
qed

lemma log_all_console:
  assumes env: "zone_ok env off" and lg: "sinks lg = [s]" "flush_level lg = Off" "\<not> bt_enabled (tracer lg)"
  shows "list_all (\<lambda>c. printable (call_msg (name lg) c)) cs \<Longrightarrow> w_sinks w s = Some sk \<Longrightarrow> sink_level sk = Trace \<Longrightarrow>
    cproxy_warm env off default_eol (sink_formatter sk) \<Longrightarrow> length (colors sk) = 7 \<Longrightarrow>
    \<exists>w' sk'. log_all env now cs lg w = Ok (lg, w') \<and> w_sinks w' s = Some sk' \<and> err_counter w' = err_counter w \<and>
      target_file sk' = target_file sk @ concat (map (\<lambda>c. console_line env sk (call_msg (name lg) c)) (filter (\<lambda>c. level lg \<le> call_level c) cs))"
proof (induction cs arbitrary: w sk)
  case (Cons c cs)
  obtain tid t loc l body where c: "c = (tid, t, loc, l, body)" by (cases c)
  show ?case
  proof (cases "level lg \<le> l")
    case True
    obtain pf where pf: "sink_it env now lg (call_msg (name lg) c) w = Ok (w\<lparr>w_sinks := (w_sinks w)(s \<mapsto> sk\<lparr>sink_formatter := pf,
        target_file := target_file sk @ console_line env sk (call_msg (name lg) c), flushes := flushes sk + 1\<rparr>)\<rparr>)"
      "cproxy_warm env off default_eol pf"
      using sink_it_console [OF env _ lg(1,2) Cons.prems(2-5), of "call_msg (name lg) c" now] Cons.prems(1) by auto
    let ?sk = "sk\<lparr>sink_formatter := pf, target_file := target_file sk @ console_line env sk (call_msg (name lg) c), flushes := flushes sk + 1\<rparr>"
    let ?w = "w\<lparr>w_sinks := (w_sinks w)(s \<mapsto> ?sk)\<rparr>"
    have "logger_log env now tid t loc l (Ok body) lg w = Ok (lg, ?w)"
      using True lg(3) pf(1) c by (simp add: logger_log_def log_it_def should_log_def Let_def)
    moreover have "console_line env ?sk = console_line env sk" by (rule console_line_update)
    ultimately show ?thesis using Cons.IH [of ?w ?sk] Cons.prems pf(2) c True by simp
  next
    case False
    then have "logger_log env now tid t loc l (Ok body) lg w = Ok (lg, w)"
      using lg(3) by (simp add: logger_log_def should_log_def Let_def)
    then show ?thesis using Cons.IH [of w sk] Cons.prems c False by simp
  qed
qed simp

section \<open>Properties\<close>

text \<open>C24. A backtrace is the last messages: with backtracing enabled for \<open>n\<close> messages, any number of
  messages below the logger's level reaches no sink; dumping them sends exactly the last \<open>n\<close>, in order and
  between the two banners, to the sinks, and leaves the backtrace empty.\<close>
theorem backtrace_dumps_last:
  assumes "n < 2 ^ 64 - 1" "list_all (\<lambda>c. call_level c < level lg) calls"
    and "visit (sink_it env now lg) (log_msg_new tid t1 no_source_loc (name lg) Info backtrace_start #
        last_n n (map (call_msg (name lg)) calls) @ [log_msg_new tid t2 no_source_loc (name lg) Info backtrace_end]) w = Ok w'"
  shows "\<exists>lg1 lg2. log_all env now calls (logger_enable_backtrace x0 n lg) w = Ok (lg1, w) \<and>
    dump_backtrace env now tid t1 t2 lg1 w = Some (Ok (lg2, w')) \<and> cq_list (bt_messages (tracer lg2)) = []"
proof -
  let ?lg = "logger_enable_backtrace x0 n lg"
  have q0: "bt_messages (tracer ?lg) = circular_q_new x0 n" "bt_enabled (tracer ?lg)" "name ?lg = name lg" "level ?lg = level lg"
    by (simp_all add: logger_enable_backtrace_def bt_enable_def)
  have "\<exists>q'. pushes cq_push_back (map (call_msg (name lg)) calls) (circular_q_new x0 n) = Ok q' \<and> (cq_wf q' \<and> 0 < max_items q') \<and>
      cq_cap q' = cq_cap (circular_q_new x0 n) \<and>
      cq_list q' = last_n (cq_cap (circular_q_new x0 n)) (cq_list (circular_q_new x0 n) @ map (call_msg (name lg)) calls)"
    by (rule cq.pushes_last) (use assms(1) cq_wf_new in auto)
  then obtain q where q: "pushes cq_push_back (map (call_msg (name lg)) calls) (circular_q_new x0 n) = Ok q" "cq_wf q" "0 < max_items q"
    "cq_list q = last_n n (map (call_msg (name lg)) calls)" using assms(1) by auto
  let ?lg1 = "?lg\<lparr>tracer := (tracer ?lg)\<lparr>bt_messages := q\<rparr>\<rparr>"
  have l1: "log_all env now calls ?lg w = Ok (?lg1, w)"
    by (rule log_all_quiet) (use assms(2) q(1) q0 in simp_all)
  have si: "sink_it env now ?lg1 = sink_it env now lg" "name ?lg1 = name lg" by (simp_all add: logger_enable_backtrace_def)
  have "\<exists>q'. dump_backtrace env now tid t1 t2 ?lg1 w = Some (Ok (?lg1\<lparr>tracer := (tracer ?lg1)\<lparr>bt_messages := q'\<rparr>\<rparr>, w')) \<and> cq_list q' = []"
    by (rule dump_backtrace_visits) (unfold si, use assms(3) q q0 in simp_all)
  then show ?thesis using l1 by auto
qed


definition demo_world :: log_world where
  "demo_world = \<lparr>w_sinks = Map.empty, err_counter = 0, last_report_time = 0, reports = [], custom_reports = []\<rparr>"

definition demo_call :: "string \<Rightarrow> log_call" where
  "demo_call s = (1, 0, no_source_loc, Debug, s)"

theorem backtrace_dumps_last_witness:
  "\<exists>lg1 lg2. log_all demo_log_env 0 [demo_call ''a'', demo_call ''b'', demo_call ''c''] (logger_enable_backtrace demo_msg 2 (logger_new ''net'' [])) demo_world =
       Ok (lg1, demo_world) \<and> map payload (cq_list (bt_messages (tracer lg1))) = [''b'', ''c''] \<and>
     dump_backtrace demo_log_env 0 1 0 0 lg1 demo_world = Some (Ok (lg2, demo_world)) \<and> cq_list (bt_messages (tracer lg2)) = []"
proof -
  let ?cs = "[demo_call ''a'', demo_call ''b'', demo_call ''c'']" and ?lg = "logger_new ''net'' []"
  have v: "visit (sink_it demo_log_env 0 ?lg) ms demo_world = Ok demo_world" for ms
    by (induction ms) (simp_all add: sink_it_def logger_new_def logger_flush_def)
  have l: "list_all (\<lambda>c. call_level c < level ?lg) ?cs" by (simp add: demo_call_def logger_new_def less_level_enum_def)
  have q: "\<exists>q. pushes cq_push_back (map (call_msg ''net'') ?cs) (circular_q_new demo_msg 2) = Ok q \<and> map payload (cq_list q) = [''b'', ''c'']"
    by (simp add: circular_q_new_def cq_push_back_def demo_call_def log_msg_new_def cq_list_def cq_size_def upt_rec Let_def)
  have "\<exists>lg1. log_all demo_log_env 0 ?cs (logger_enable_backtrace demo_msg 2 ?lg) demo_world = Ok (lg1, demo_world) \<and>
      map payload (cq_list (bt_messages (tracer lg1))) = [''b'', ''c'']"
    using q log_all_quiet [of "logger_enable_backtrace demo_msg 2 ?lg" ?cs _ demo_log_env 0 demo_world] l
    by (auto simp: logger_enable_backtrace_def bt_enable_def logger_new_def)
  then show ?thesis
    using backtrace_dumps_last [OF _ l v, where n = 2 and ?x0.0 = demo_msg and tid = 1 and ?t1.0 = 0 and ?t2.0 = 0] by auto
qed

end
