(* ===== verification/Log_Async.thy ===== *)
theory Log_Async
  imports Log_Logger "HOL-Library.Sublist" "HOL-Library.Multiset"
begin

text \<open>
  Asynchronous loggers: \<^verbatim>\<open>log_msg_buffer-inl.h\<close>, \<^verbatim>\<open>mpmc_blocking_q.h\<close>, \<^verbatim>\<open>thread_pool-inl.h\<close> and
  \<^verbatim>\<open>async_logger-inl.h\<close>. The pool is a step relation on the threads that post and the worker threads, cut at the
  mutex and at the condition variables; time-outs and wake-ups without reason are steps of their own. The
  invariants say that no wake-up is lost, what has been posted, taken and processed, and that requests to stop
  survive overruns. The interface to the loggers is the locale \<open>log_backend\<close>, interpreted on \<open>async_handle\<close>
  with the console sink of the programs. The hooks that run when a thread starts or stops, and the factory in
  \<^verbatim>\<open>async.h\<close>, which only builds these objects, are left out.
\<close>

section \<open>Messages that own their text\<close>

text \<open>
  \<^verbatim>\<open>log_msg_buffer\<close>: name and text of the message are views into the object's own buffer. A view past the
  end of the buffer would be undefined.
\<close>

record log_msg_buffer = log_msg +
  mb_buffer :: string

definition update_string_views :: "'a log_msg_buffer_scheme \<Rightarrow> 'a log_msg_buffer_scheme outcome" where
  "update_string_views m =
     (if length (logger_name m) + length (payload m) \<le> length (mb_buffer m)
      then Ok (m\<lparr>logger_name := take (length (logger_name m)) (mb_buffer m),
                 payload := take (length (payload m)) (drop (length (logger_name m)) (mb_buffer m))\<rparr>)
      else Ub Overread)"

definition log_msg_buffer_new :: "log_msg \<Rightarrow> log_msg_buffer outcome" where
  "log_msg_buffer_new orig_msg =
     update_string_views (log_msg.extend orig_msg (log_msg_buffer.fields (logger_name orig_msg @ payload orig_msg)))"

definition log_msg_buffer_copy :: "log_msg_buffer \<Rightarrow> log_msg_buffer outcome" where
  "log_msg_buffer_copy other = log_msg_buffer_new (log_msg.truncate other)"

text \<open>Moving takes the buffer and leaves the source without one.\<close>

definition log_msg_buffer_move :: "log_msg_buffer \<Rightarrow> (log_msg_buffer \<times> log_msg_buffer) outcome" where
  "log_msg_buffer_move other =
     bind_outcome (update_string_views other) (\<lambda>m. Ok (m, other\<lparr>mb_buffer := []\<rparr>))"

definition log_msg_buffer_assign :: "log_msg_buffer \<Rightarrow> log_msg_buffer outcome" where
  "log_msg_buffer_assign other = update_string_views other"

lemma log_msg_buffer_new_same:
  "\<exists>b. log_msg_buffer_new m = Ok b \<and> log_msg.truncate b = m \<and> mb_buffer b = logger_name m @ payload m"
  by (cases m) (simp add: log_msg_buffer_new_def update_string_views_def log_msg.defs log_msg_buffer.defs)

lemma log_msg_buffer_copy_same:
  "\<exists>b. log_msg_buffer_copy m = Ok b \<and> log_msg.truncate b = log_msg.truncate m \<and> mb_buffer b = logger_name m @ payload m"
  using log_msg_buffer_new_same [of "log_msg.truncate m"] by (auto simp: log_msg_buffer_copy_def log_msg.defs)

section \<open>The blocking queue\<close>

text \<open>
  \<^verbatim>\<open>mpmc_blocking_queue\<close>: each operation runs under the mutex; \<open>None\<close> means that the predicate of the
  condition variable is false, so that the caller has to wait.
\<close>

definition enqueue :: "'a \<Rightarrow> 'a circular_q \<Rightarrow> 'a circular_q option outcome" where
  "enqueue item q = (if \<not> cq_full q then bind_outcome (cq_push_back item q) (\<lambda>q. Ok (Some q)) else Ok None)"

definition enqueue_nowait :: "'a \<Rightarrow> 'a circular_q \<Rightarrow> 'a circular_q option outcome" where
  "enqueue_nowait item q = bind_outcome (cq_push_back item q) (\<lambda>q. Ok (Some q))"

definition dequeue :: "'a circular_q \<Rightarrow> ('a \<times> 'a circular_q) option outcome" where
  "dequeue q =
     (if \<not> cq_empty q then bind_outcome (cq_front q) (\<lambda>x. bind_outcome (cq_pop_front q) (\<lambda>q. Ok (Some (x, q)))) else Ok None)"

text \<open>What the two ends do to the contents.\<close>

lemma enqueue_list:
  assumes "cq_wf q" "0 < max_items q" "enqueue x q = Ok (Some q')"
  shows "cq_wf q' \<and> max_items q' = max_items q \<and> cq_list q' = cq_list q @ [x] \<and> overrun_counter q' = overrun_counter q \<and>
    cq_size q' = Suc (cq_size q) \<and> cq_size q < cq_cap q"
proof -
  have nf: "\<not> cq_full q" using assms(3) by (auto simp: enqueue_def split: if_splits)
  then have lt: "cq_size q < cq_cap q" using cq_full_iff [OF assms(1,2)] cq_size_mod(2) [OF assms(1,2)] by (simp add: cq_cap_def)
  from cq_push_list [OF assms(1,2), of x] lt nf assms(3) show ?thesis
    by (auto simp: enqueue_def length_cq_list [symmetric] simp del: length_cq_list)
qed

lemma enqueue_nowait_list:
  assumes "cq_wf q" "0 < max_items q" "enqueue_nowait x q = Ok (Some q')"
  shows "cq_wf q' \<and> max_items q' = max_items q \<and>
    (if cq_size q < cq_cap q then cq_list q' = cq_list q @ [x] \<and> overrun_counter q' = overrun_counter q \<and> cq_size q' = Suc (cq_size q)
     else cq_list q' = tl (cq_list q @ [x]) \<and> overrun_counter q' = overrun_counter q + 1 \<and> cq_size q' = cq_size q)"
  using cq_push_list [OF assms(1,2), of x] assms(3)
  by (auto simp: enqueue_nowait_def length_cq_list [symmetric] bind_outcome_Ok_iff simp del: length_cq_list)

lemma dequeue_list:
  assumes "cq_wf q" "0 < max_items q" "dequeue q = Ok (Some (x, q'))"
  shows "cq_wf q' \<and> max_items q' = max_items q \<and> cq_list q = x # cq_list q' \<and> overrun_counter q' = overrun_counter q \<and>
    cq_size q = Suc (cq_size q')"
proof -
  have ne: "\<not> cq_empty q" using assms(3) by (auto simp: dequeue_def split: if_splits)
  obtain y q1 where q1: "cq_front q = Ok y" "cq_pop_front q = Ok q1" "cq_wf q1" "max_items q1 = max_items q" "cq_list q = y # cq_list q1"
    using cq_pop_list [OF assms(1) ne] assms(2) by (metis list.collapse)
  moreover have "overrun_counter q1 = overrun_counter q" using q1(2) by (auto simp: cq_pop_front_def split: if_splits)
  moreover have "cq_size q = Suc (cq_size q1)" using q1(5) length_cq_list [of q] length_cq_list [of q1] by simp
  ultimately show ?thesis using assms(3) ne by (auto simp: dequeue_def)
qed

lemma queue_waits:
  assumes "cq_wf q" "0 < max_items q"
  shows "(\<exists>q'. enqueue x q = Ok (Some q')) \<longleftrightarrow> cq_size q < cq_cap q"
    and "enqueue x q = Ok None \<longleftrightarrow> cq_size q = cq_cap q"
    and "(\<exists>q'. enqueue_nowait x q = Ok (Some q'))"
    and "(\<exists>y q'. dequeue q = Ok (Some (y, q'))) \<longleftrightarrow> 0 < cq_size q"
    and "dequeue q = Ok None \<longleftrightarrow> cq_size q = 0"
proof -
  obtain q1 where q1: "cq_push_back x q = Ok q1" using cq_push_list [OF assms] by blast
  have le: "cq_size q \<le> cq_cap q" using cq_size_mod(2) [OF assms] by (simp add: cq_cap_def)
  have e: "cq_empty q \<longleftrightarrow> cq_size q = 0" using cq_empty_list [OF assms(1)] length_cq_list [of q] by (metis length_0_conv)
  show "(\<exists>q'. enqueue x q = Ok (Some q')) \<longleftrightarrow> cq_size q < cq_cap q" "enqueue x q = Ok None \<longleftrightarrow> cq_size q = cq_cap q"
    "(\<exists>q'. enqueue_nowait x q = Ok (Some q'))"
    using q1 le cq_full_iff [OF assms] by (auto simp: enqueue_def enqueue_nowait_def)
  have "\<not> cq_empty q \<Longrightarrow> \<exists>y q'. dequeue q = Ok (Some (y, q'))"
    using cq_pop_list [OF assms(1)] assms(2) by (fastforce simp: dequeue_def)
  with e show "(\<exists>y q'. dequeue q = Ok (Some (y, q'))) \<longleftrightarrow> 0 < cq_size q" "dequeue q = Ok None \<longleftrightarrow> cq_size q = 0"
    by (auto simp: dequeue_def split: if_splits)
qed

section \<open>Messages of the pool\<close>

datatype async_msg_type = AmLog | AmFlush | AmTerminate

datatype async_overflow_policy = Block | OverrunOldest

record async_msg = log_msg_buffer +
  msg_type :: async_msg_type
  worker_ptr :: "oid option"

text \<open>The three constructors: a log message, a message without text, and one without a logger.\<close>

definition async_msg_log :: "oid \<Rightarrow> async_msg_type \<Rightarrow> log_msg \<Rightarrow> async_msg outcome" where
  "async_msg_log worker the_type m =
     bind_outcome (log_msg_buffer_new m) (\<lambda>b. Ok (log_msg_buffer.extend b (async_msg.fields the_type (Some worker))))"

definition async_msg_bare :: "oid option \<Rightarrow> async_msg_type \<Rightarrow> async_msg" where
  "async_msg_bare worker the_type =
     log_msg_buffer.extend (log_msg.extend (log_msg_new 0 0 no_source_loc [] Off []) (log_msg_buffer.fields []))
       (async_msg.fields the_type worker)"

definition async_msg_of_type :: "async_msg_type \<Rightarrow> async_msg" where
  "async_msg_of_type the_type = async_msg_bare None the_type"

type_synonym job = "async_msg \<times> async_overflow_policy"

definition post_log :: "oid \<Rightarrow> log_msg \<Rightarrow> async_overflow_policy \<Rightarrow> job outcome" where
  "post_log worker msg policy = bind_outcome (async_msg_log worker AmLog msg) (\<lambda>m. Ok (m, policy))"

definition post_flush :: "oid \<Rightarrow> async_overflow_policy \<Rightarrow> job" where
  "post_flush worker policy = (async_msg_bare (Some worker) AmFlush, policy)"

definition post_async_msg :: "async_msg \<Rightarrow> async_overflow_policy \<Rightarrow> async_msg circular_q \<Rightarrow> async_msg circular_q option outcome" where
  "post_async_msg m policy q = (if policy = Block then enqueue m q else enqueue_nowait m q)"

text \<open>What the destructor posts: a request to stop for each thread.\<close>

definition terminate_jobs :: "nat \<Rightarrow> job list" where
  "terminate_jobs n = replicate n (async_msg_of_type AmTerminate, Block)"

text \<open>
  The switch of \<^verbatim>\<open>process_next_msg_\<close>. What a logger does with a message (log or flush) is the argument
  \<open>handle\<close>; the result tells whether the thread goes on.
\<close>

definition process_msg :: "(async_msg \<Rightarrow> 'w \<Rightarrow> 'w outcome) \<Rightarrow> async_msg \<Rightarrow> 'w \<Rightarrow> (bool \<times> 'w) outcome" where
  "process_msg handle m w =
     (case msg_type m of
        AmTerminate \<Rightarrow> Ok (False, w)
      | _ \<Rightarrow> bind_outcome (handle m w) (\<lambda>w. Ok (True, w)))"

section \<open>Threads\<close>

text \<open>
  Threads that post (\<^verbatim>\<open>enqueue\<close>) and worker threads (\<^verbatim>\<open>dequeue_for\<close>), cut where the mutex is taken or a
  condition variable is used: a poster is about to enter, sleeps in \<^verbatim>\<open>pop_cv_\<close>, has been woken, or has
  pushed and still has to notify; a worker likewise with \<^verbatim>\<open>push_cv_\<close>, where the flag of a woken one says
  that its time was up, and it processes what it took after notifying.
\<close>

datatype poster_pc = PostCall | PostWait | PostWoken | PostNotify

record poster =
  po_jobs :: "job list"
  po_pc :: poster_pc

datatype worker_pc = WkCall | WkWait | WkWoken bool | WkNotify async_msg | WkProcess async_msg | WkDone

text \<open>
  The last four fields record the run: what was pushed by whom, taken, and processed, and whether the
  destructor has begun.
\<close>

record 'w log_pool =
  lp_q :: "async_msg circular_q"
  lp_posters :: "poster list"
  lp_workers :: "worker_pc list"
  lp_world :: 'w
  lp_pushed :: "(nat \<times> job) list"
  lp_popped :: "async_msg list"
  lp_done :: "async_msg list"
  lp_closing :: bool

definition pool_new :: "nat \<Rightarrow> nat \<Rightarrow> job list list \<Rightarrow> 'w \<Rightarrow> 'w log_pool outcome" where
  "pool_new q_max_items threads_n jobs w =
     (if threads_n = 0 \<or> threads_n > 1000 then Throw
      else Ok \<lparr>lp_q = circular_q_new (async_msg_of_type AmLog) q_max_items,
               lp_posters = map (\<lambda>js. \<lparr>po_jobs = js, po_pc = PostCall\<rparr>) jobs,
               lp_workers = replicate threads_n WkCall, lp_world = w,
               lp_pushed = [], lp_popped = [], lp_done = [], lp_closing = False\<rparr>)"

definition set_poster :: "nat \<Rightarrow> poster \<Rightarrow> 'w log_pool \<Rightarrow> 'w log_pool" where
  "set_poster i p s = s\<lparr>lp_posters := (lp_posters s)[i := p]\<rparr>"

definition set_worker :: "nat \<Rightarrow> worker_pc \<Rightarrow> 'w log_pool \<Rightarrow> 'w log_pool" where
  "set_worker k pc s = s\<lparr>lp_workers := (lp_workers s)[k := pc]\<rparr>"

lemmas set_defs = set_poster_def set_worker_def

definition poster_is :: "'w log_pool \<Rightarrow> nat \<Rightarrow> job list \<Rightarrow> poster_pc \<Rightarrow> bool" where
  "poster_is s i js pc \<longleftrightarrow> i < length (lp_posters s) \<and> lp_posters s ! i = \<lparr>po_jobs = js, po_pc = pc\<rparr>"

definition worker_is :: "'w log_pool \<Rightarrow> nat \<Rightarrow> worker_pc \<Rightarrow> bool" where
  "worker_is s k pc \<longleftrightarrow> k < length (lp_workers s) \<and> lp_workers s ! k = pc"

text \<open>The flag marks the steps that do work; the others are time-outs and wake-ups without reason.\<close>

inductive pool_step :: "(async_msg \<Rightarrow> 'w \<Rightarrow> 'w outcome) \<Rightarrow> bool \<Rightarrow> 'w log_pool \<Rightarrow> 'w log_pool \<Rightarrow> bool" for handle where
  post_push: "poster_is s i ((m, pol) # js) pc \<Longrightarrow> pc = PostCall \<or> pc = PostWoken \<Longrightarrow> post_async_msg m pol (lp_q s) = Ok (Some q) \<Longrightarrow>
    pool_step handle True s (set_poster i \<lparr>po_jobs = js, po_pc = PostNotify\<rparr> (s\<lparr>lp_q := q, lp_pushed := lp_pushed s @ [(i, m, pol)]\<rparr>))"
| post_wait: "poster_is s i ((m, pol) # js) pc \<Longrightarrow> pc = PostCall \<or> pc = PostWoken \<Longrightarrow> post_async_msg m pol (lp_q s) = Ok None \<Longrightarrow>
    pool_step handle True s (set_poster i \<lparr>po_jobs = (m, pol) # js, po_pc = PostWait\<rparr> s)"
| post_notify_one: "poster_is s i js PostNotify \<Longrightarrow> worker_is s k WkWait \<Longrightarrow>
    pool_step handle True s (set_worker k (WkWoken False) (set_poster i \<lparr>po_jobs = js, po_pc = PostCall\<rparr> s))"
| post_notify_none: "poster_is s i js PostNotify \<Longrightarrow> WkWait \<notin> set (lp_workers s) \<Longrightarrow>
    pool_step handle True s (set_poster i \<lparr>po_jobs = js, po_pc = PostCall\<rparr> s)"
| post_spurious: "poster_is s i js PostWait \<Longrightarrow> pool_step handle False s (set_poster i \<lparr>po_jobs = js, po_pc = PostWoken\<rparr> s)"
| wk_take: "worker_is s k pc \<Longrightarrow> pc = WkCall \<or> pc = WkWoken b \<Longrightarrow> dequeue (lp_q s) = Ok (Some (m, q)) \<Longrightarrow>
    pool_step handle True s (set_worker k (WkNotify m) (s\<lparr>lp_q := q, lp_popped := lp_popped s @ [m]\<rparr>))"
| wk_wait: "worker_is s k pc \<Longrightarrow> pc = WkCall \<or> pc = WkWoken False \<Longrightarrow> dequeue (lp_q s) = Ok None \<Longrightarrow>
    pool_step handle True s (set_worker k WkWait s)"
| wk_return: "worker_is s k (WkWoken True) \<Longrightarrow> dequeue (lp_q s) = Ok None \<Longrightarrow> pool_step handle True s (set_worker k WkCall s)"
| wk_timeout: "worker_is s k WkWait \<Longrightarrow> pool_step handle False s (set_worker k (WkWoken timed_out) s)"
| wk_notify_one: "worker_is s k (WkNotify m) \<Longrightarrow> poster_is s i js PostWait \<Longrightarrow>
    pool_step handle True s (set_worker k (WkProcess m) (set_poster i \<lparr>po_jobs = js, po_pc = PostWoken\<rparr> s))"
| wk_notify_none: "worker_is s k (WkNotify m) \<Longrightarrow> list_all (\<lambda>p. po_pc p \<noteq> PostWait) (lp_posters s) \<Longrightarrow>
    pool_step handle True s (set_worker k (WkProcess m) s)"
| wk_process: "worker_is s k (WkProcess m) \<Longrightarrow> process_msg handle m (lp_world s) = Ok (go, w) \<Longrightarrow>
    pool_step handle True s (set_worker k (if go then WkCall else WkDone) (s\<lparr>lp_world := w, lp_done := lp_done s @ [m]\<rparr>))"
| destroy: "\<not> lp_closing s \<Longrightarrow> list_all (\<lambda>p. p = \<lparr>po_jobs = [], po_pc = PostCall\<rparr>) (lp_posters s) \<Longrightarrow>
    pool_step handle True s (s\<lparr>lp_closing := True,
      lp_posters := lp_posters s @ [\<lparr>po_jobs = terminate_jobs (length (lp_workers s)), po_pc = PostCall\<rparr>]\<rparr>)"

inductive pool_reach :: "(async_msg \<Rightarrow> 'w \<Rightarrow> 'w outcome) \<Rightarrow> 'w log_pool \<Rightarrow> 'w log_pool \<Rightarrow> bool" for handle s0 where
  pool_init: "pool_reach handle s0 s0"
| pool_next: "pool_reach handle s0 s \<Longrightarrow> pool_step handle b s s' \<Longrightarrow> pool_reach handle s0 s'"

section \<open>Counting threads\<close>

definition num :: "('a \<Rightarrow> bool) \<Rightarrow> 'a list \<Rightarrow> nat" where
  "num P xs = length (filter P xs)"

lemma num_simps [simp]: "num P [] = 0" "num P (x # xs) = (if P x then 1 else 0) + num P xs" "num P (xs @ ys) = num P xs + num P ys"
  by (simp_all add: num_def)

lemma num_update: "i < length xs \<Longrightarrow> num P (xs[i := y]) + (if P (xs ! i) then 1 else 0) = num P xs + (if P y then 1 else 0)"
proof (induction xs arbitrary: i)
  case (Cons x xs)
  then show ?case using Cons.IH [of "i - 1"] by (cases i) (auto split: if_splits)
qed simp

lemma num_zero_iff: "num P xs = 0 \<longleftrightarrow> list_all (\<lambda>x. \<not> P x) xs"
  by (simp add: num_def filter_empty_conv list_all_iff)

lemma num_pos_iff: "0 < num P xs \<longleftrightarrow> (\<exists>i<length xs. P (xs ! i))"
  using num_zero_iff [of P xs] by (auto simp: list_all_length)

abbreviation "posters_at pc s \<equiv> num (\<lambda>p. po_pc p = pc) (lp_posters s)"

fun is_woken :: "worker_pc \<Rightarrow> bool" where
  "is_woken (WkWoken b) = True" | "is_woken _ = False"

fun is_notify :: "worker_pc \<Rightarrow> bool" where
  "is_notify (WkNotify m) = True" | "is_notify _ = False"

text \<open>
  No wake-up is lost: while a poster sleeps, for each free slot a notification or a woken poster is under way;
  while a worker sleeps, the same holds for each message in the queue.
\<close>

definition wakeups_ok :: "'w log_pool \<Rightarrow> bool" where
  "wakeups_ok s \<longleftrightarrow>
     (0 < posters_at PostWait s \<longrightarrow> cq_cap (lp_q s) - cq_size (lp_q s) \<le> num is_notify (lp_workers s) + posters_at PostWoken s) \<and>
     (0 < num (\<lambda>w. w = WkWait) (lp_workers s) \<longrightarrow> cq_size (lp_q s) \<le> posters_at PostNotify s + num is_woken (lp_workers s))"

definition queue_ok :: "'w log_pool \<Rightarrow> bool" where
  "queue_ok s \<longleftrightarrow> cq_wf (lp_q s) \<and> 0 < max_items (lp_q s) \<and>
     list_all (\<lambda>p. po_pc p = PostWait \<or> po_pc p = PostWoken \<longrightarrow> po_jobs p \<noteq> [] \<and> snd (hd (po_jobs p)) = Block) (lp_posters s)"


lemma poster_counts:
  assumes "poster_is s i js pc"
  shows "posters_at x (set_poster i \<lparr>po_jobs = js', po_pc = pc'\<rparr> s) + (if pc = x then 1 else 0) = posters_at x s + (if pc' = x then 1 else 0)"
    and "lp_workers (set_poster i p s) = lp_workers s" "lp_q (set_poster i p s) = lp_q s"
  using num_update [of i "lp_posters s" "\<lambda>p. po_pc p = x" "\<lparr>po_jobs = js', po_pc = pc'\<rparr>"] assms
  by (auto simp: poster_is_def set_poster_def)

lemma worker_counts:
  assumes "worker_is s k pc"
  shows "num P (lp_workers (set_worker k pc' s)) + (if P pc then 1 else 0) = num P (lp_workers s) + (if P pc' then 1 else 0)"
    and "lp_posters (set_worker k pc' s) = lp_posters s" "lp_q (set_worker k pc' s) = lp_q s"
  using num_update [of k "lp_workers s" P pc'] assms by (auto simp: worker_is_def set_worker_def)

lemma post_async_msg_list:
  assumes "cq_wf q" "0 < max_items q" "post_async_msg m pol q = Ok (Some q')"
  shows "cq_wf q' \<and> max_items q' = max_items q \<and>
    (cq_size q < cq_cap q \<and> cq_list q' = cq_list q @ [m] \<and> overrun_counter q' = overrun_counter q \<and> cq_size q' = Suc (cq_size q) \<or>
     pol \<noteq> Block \<and> cq_size q = cq_cap q \<and> cq_list q' = tl (cq_list q @ [m]) \<and> overrun_counter q' = overrun_counter q + 1 \<and> cq_size q' = cq_size q)"
  using enqueue_list [OF assms(1,2), of m q'] enqueue_nowait_list [OF assms(1,2), of m q'] assms(3) cq_size_mod(2) [OF assms(1,2)]
  by (auto simp: post_async_msg_def cq_cap_def split: if_splits)

lemma queue_ok_step:
  assumes "pool_step handle b s s'" "queue_ok s"
  shows "queue_ok s'"
proof -
  have up: "list_all P xs \<Longrightarrow> P y \<Longrightarrow> list_all P (xs[i := y])" for P :: "poster \<Rightarrow> bool" and xs i y
    by (auto simp: list_all_iff dest: set_update_subset_insert [THEN subsetD])
  note jobs = list_all_length [of _ "lp_posters s"]
  show ?thesis using assms
  proof (cases rule: pool_step.cases)
    case (post_push i m pol js pc q)
    then show ?thesis using assms(2) post_async_msg_list [of "lp_q s" m pol q]
      by (auto simp: queue_ok_def set_defs intro!: up)
  next
    case (post_wait i m pol js pc)
    then have "pol = Block" by (auto simp: post_async_msg_def enqueue_nowait_def bind_outcome_Ok_iff split: if_splits)
    then show ?thesis using post_wait assms(2) by (auto simp: queue_ok_def set_defs intro!: up)
  next
    case (wk_take k pc b m q)
    then show ?thesis using assms(2) dequeue_list [of "lp_q s" m q] by (auto simp: queue_ok_def set_defs)
  next
    case (post_spurious i js)
    then show ?thesis using assms(2) by (auto simp: queue_ok_def set_defs poster_is_def jobs intro!: up)
  next
    case (wk_notify_one k m i js)
    then show ?thesis using assms(2) by (auto simp: queue_ok_def set_defs poster_is_def jobs intro!: up)
  qed (auto simp: queue_ok_def set_defs intro!: up)
qed

lemma wakeups_ok_step:
  assumes "pool_step handle b s s'" "queue_ok s" "wakeups_ok s"
  shows "wakeups_ok s'"
proof -
  have q: "cq_wf (lp_q s)" "0 < max_items (lp_q s)" using assms(2) by (simp_all add: queue_ok_def)
  have le: "cq_size (lp_q s) \<le> cq_cap (lp_q s)" using cq_size_mod(2) [OF q] by (simp add: cq_cap_def)
  from assms(1) show ?thesis
  proof (cases rule: pool_step.cases)
    case (post_push i m pol js pc q')
    note n = post_async_msg_list [OF q post_push(5)]
    have cap: "cq_cap q' = cq_cap (lp_q s)" using n by (simp add: cq_cap_def)
    let ?s = "s\<lparr>lp_q := q', lp_pushed := lp_pushed s @ [(i, m, pol)]\<rparr>"
    have p: "poster_is ?s i ((m, pol) # js) pc" using post_push(3) by (simp add: poster_is_def)
    note c = poster_counts(1) [OF p, where js' = js and pc' = PostNotify]
    show ?thesis using assms(3) c [of PostWait] c [of PostWoken] c [of PostNotify] n cap post_push(4) le
      unfolding wakeups_ok_def post_push(2) poster_counts(2,3) [OF p] by (auto split: if_splits)
  next
    case (post_wait i m pol js pc)
    have "cq_size (lp_q s) = cq_cap (lp_q s)"
      using post_wait(5) queue_waits(2,3) [OF q, of m] by (auto simp: post_async_msg_def split: if_splits)
    then show ?thesis using assms(3) poster_counts(1) [OF post_wait(3), where js' = "(m, pol) # js" and pc' = PostWait and x = PostNotify] post_wait(4)
      unfolding wakeups_ok_def post_wait(2) poster_counts(2,3) [OF post_wait(3)] by (auto split: if_splits)
  next
    case (post_notify_one i js k)
    let ?s = "set_poster i \<lparr>po_jobs = js, po_pc = PostCall\<rparr> s"
    have w: "worker_is ?s k WkWait" using post_notify_one(4) by (simp add: worker_is_def set_poster_def)
    note c = poster_counts(1) [OF post_notify_one(3), where js' = js and pc' = PostCall]
    note d = worker_counts(1) [OF w, where pc' = "WkWoken False"]
    show ?thesis using assms(3) c [of PostWait] c [of PostWoken] c [of PostNotify] d [of is_notify] d [of is_woken] d [of "\<lambda>w. w = WkWait"]
      unfolding wakeups_ok_def post_notify_one(2) worker_counts(2,3) [OF w] poster_counts(2,3) [OF post_notify_one(3)] by auto
  next
    case (post_notify_none i js)
    note c = poster_counts(1) [OF post_notify_none(3), where js' = js and pc' = PostCall]
    have "num (\<lambda>w. w = WkWait) (lp_workers s) = 0" using post_notify_none(4) by (auto simp: num_zero_iff list_all_iff)
    then show ?thesis using assms(3) c [of PostWait] c [of PostWoken]
      unfolding wakeups_ok_def post_notify_none(2) poster_counts(2,3) [OF post_notify_none(3)] by auto
  next
    case (post_spurious i js)
    note c = poster_counts(1) [OF post_spurious(3), where js' = js and pc' = PostWoken]
    show ?thesis using assms(3) c [of PostWait] c [of PostWoken] c [of PostNotify]
      unfolding wakeups_ok_def post_spurious(2) poster_counts(2,3) [OF post_spurious(3)] by auto
  next
    case (wk_take k pc b' m q')
    note n = dequeue_list [OF q wk_take(5)]
    have cap: "cq_cap q' = cq_cap (lp_q s)" using n by (simp add: cq_cap_def)
    let ?s = "s\<lparr>lp_q := q', lp_popped := lp_popped s @ [m]\<rparr>"
    have w: "worker_is ?s k pc" using wk_take(3) by (simp add: worker_is_def)
    note d = worker_counts(1) [OF w, where pc' = "WkNotify m"]
    show ?thesis using assms(3) d [of is_notify] d [of is_woken] d [of "\<lambda>w. w = WkWait"] n cap wk_take(4) le
      unfolding wakeups_ok_def wk_take(2) worker_counts(2,3) [OF w] by auto
  next
    case (wk_wait k pc)
    have "cq_size (lp_q s) = 0" using wk_wait(5) queue_waits(5) [OF q] by simp
    then show ?thesis using assms(3) worker_counts(1) [OF wk_wait(3), where pc' = WkWait and P = is_notify] wk_wait(4)
      unfolding wakeups_ok_def wk_wait(2) worker_counts(2,3) [OF wk_wait(3)] by auto
  next
    case (wk_return k)
    have "cq_size (lp_q s) = 0" using wk_return(4) queue_waits(5) [OF q] by simp
    then show ?thesis using assms(3) worker_counts(1) [OF wk_return(3), where pc' = WkCall and P = is_notify]
      unfolding wakeups_ok_def wk_return(2) worker_counts(2,3) [OF wk_return(3)] by auto
  next
    case (wk_timeout k t)
    note d = worker_counts(1) [OF wk_timeout(3), where pc' = "WkWoken t"]
    show ?thesis using assms(3) d [of is_notify] d [of is_woken] d [of "\<lambda>w. w = WkWait"]
      unfolding wakeups_ok_def wk_timeout(2) worker_counts(2,3) [OF wk_timeout(3)] by auto
  next
    case (wk_notify_one k m i js)
    let ?s = "set_poster i \<lparr>po_jobs = js, po_pc = PostWoken\<rparr> s"
    have w: "worker_is ?s k (WkNotify m)" using wk_notify_one(3) by (simp add: worker_is_def set_poster_def)
    note c = poster_counts(1) [OF wk_notify_one(4), where js' = js and pc' = PostWoken]
    note d = worker_counts(1) [OF w, where pc' = "WkProcess m"]
    show ?thesis using assms(3) c [of PostWait] c [of PostWoken] c [of PostNotify] d [of is_notify] d [of is_woken] d [of "\<lambda>w. w = WkWait"]
      unfolding wakeups_ok_def wk_notify_one(2) worker_counts(2,3) [OF w] poster_counts(2,3) [OF wk_notify_one(4)] by auto
  next
    case (wk_notify_none k m)
    note d = worker_counts(1) [OF wk_notify_none(3), where pc' = "WkProcess m"]
    have "posters_at PostWait s = 0" using wk_notify_none(4) by (simp add: num_zero_iff)
    then show ?thesis using assms(3) d [of is_woken] d [of "\<lambda>w. w = WkWait"]
      unfolding wakeups_ok_def wk_notify_none(2) worker_counts(2,3) [OF wk_notify_none(3)] by auto
  next
    case (wk_process k m go w)
    let ?s = "s\<lparr>lp_world := w, lp_done := lp_done s @ [m]\<rparr>"
    have w: "worker_is ?s k (WkProcess m)" using wk_process(3) by (simp add: worker_is_def)
    note d = worker_counts(1) [OF w, where pc' = "if go then WkCall else WkDone"]
    show ?thesis using assms(3) d [of is_notify] d [of is_woken] d [of "\<lambda>w. w = WkWait"]
      unfolding wakeups_ok_def wk_process(2) worker_counts(2,3) [OF w] by (auto split: if_splits)
  next
    case destroy
    then show ?thesis using assms(3) by (simp add: wakeups_ok_def)
  qed
qed

section \<open>What was posted\<close>

definition terminate_job :: job where
  "terminate_job = (async_msg_of_type AmTerminate, Block)"

text \<open>
  Each thread's jobs are pushed in their order; once the destructor has begun (the poster after the others) no
  other job is left, and its requests come last.
\<close>

definition posted_ok :: "job list list \<Rightarrow> 'w log_pool \<Rightarrow> bool" where
  "posted_ok jobs s \<longleftrightarrow>
     length (lp_posters s) = length jobs + (if lp_closing s then 1 else 0) \<and>
     (\<forall>i<length (lp_posters s). map snd (filter (\<lambda>x. fst x = i) (lp_pushed s)) @ po_jobs (lp_posters s ! i) =
        (jobs @ [terminate_jobs (length (lp_workers s))]) ! i) \<and>
     (lp_closing s \<longrightarrow> (\<forall>i<length jobs. po_jobs (lp_posters s ! i) = [])) \<and>
     (\<exists>pre k. lp_pushed s = pre @ replicate k (length jobs, terminate_job) \<and> (\<forall>x\<in>set pre. fst x < length jobs) \<and>
        (\<not> lp_closing s \<longrightarrow> k = 0))"

lemma posted_ok_frame:
  assumes "posted_ok jobs s" "lp_pushed s' = lp_pushed s" "lp_closing s' = lp_closing s"
    and "length (lp_workers s') = length (lp_workers s)" "map po_jobs (lp_posters s') = map po_jobs (lp_posters s)"
  shows "posted_ok jobs s'"
proof -
  have len: "length (lp_posters s') = length (lp_posters s)" using assms(5) by (metis length_map)
  have j: "po_jobs (lp_posters s' ! i) = po_jobs (lp_posters s ! i)" if "i < length (lp_posters s)" for i
    using assms(5) that len by (metis nth_map)
  have "i < length jobs \<Longrightarrow> i < length (lp_posters s)" for i using assms(1) by (simp add: posted_ok_def split: if_splits)
  then show ?thesis using assms(1-4) len j unfolding posted_ok_def by simp
qed

lemma jobs_same: "poster_is s i js pc \<Longrightarrow> map po_jobs ((lp_posters s)[i := \<lparr>po_jobs = js, po_pc = pc'\<rparr>]) = map po_jobs (lp_posters s)"
  by (auto simp: poster_is_def map_update list_update_same_conv)

lemma posted_ok_push:
  assumes ok: "posted_ok jobs s" and p: "poster_is s i (job # js) pc"
  shows "posted_ok jobs (set_poster i \<lparr>po_jobs = js, po_pc = PostNotify\<rparr> (s\<lparr>lp_q := q, lp_pushed := lp_pushed s @ [(i, job)]\<rparr>))"
proof -
  have i: "i < length (lp_posters s)" "po_jobs (lp_posters s ! i) = job # js" using p by (simp_all add: poster_is_def)
  have len: "length (lp_posters s) = length jobs + (if lp_closing s then 1 else 0)" using ok by (simp add: posted_ok_def)
  have eq: "map snd (filter (\<lambda>x. fst x = k) (lp_pushed s)) @ po_jobs (lp_posters s ! k) =
        (jobs @ [terminate_jobs (length (lp_workers s))]) ! k" if "k < length (lp_posters s)" for k
    using ok that by (simp add: posted_ok_def)
  obtain pre k where pre: "lp_pushed s = pre @ replicate k (length jobs, terminate_job)" "\<forall>x\<in>set pre. fst x < length jobs"
      "\<not> lp_closing s \<Longrightarrow> k = 0"
    using ok by (auto simp: posted_ok_def)
  have last: "\<exists>pre k. lp_pushed s @ [(i, job)] = pre @ replicate k (length jobs, terminate_job) \<and>
      (\<forall>x\<in>set pre. fst x < length jobs) \<and> (\<not> lp_closing s \<longrightarrow> k = 0)"
  proof (cases "i < length jobs")
    case True
    then have "\<not> lp_closing s" using ok i(2) by (auto simp: posted_ok_def)
    with pre True show ?thesis by (intro exI [of _ "pre @ [(i, job)]"] exI [of _ 0]) auto
  next
    case False
    then have cl: "lp_closing s" "i = length jobs" using i(1) len by (auto split: if_splits)
    then have "map snd (filter (\<lambda>x. fst x = i) (lp_pushed s)) @ job # js = terminate_jobs (length (lp_workers s))"
      using eq [OF i(1)] i(2) by simp
    then have "job \<in> set (terminate_jobs (length (lp_workers s)))" by (metis in_set_conv_decomp)
    then have "job = terminate_job" by (auto simp: terminate_jobs_def terminate_job_def)
    with pre cl show ?thesis by (intro exI [of _ pre] exI [of _ "Suc k"]) (simp add: replicate_append_same)
  qed
  have "po_jobs ((lp_posters s)[i := \<lparr>po_jobs = js, po_pc = PostNotify\<rparr>] ! k) =
      (if k = i then js else po_jobs (lp_posters s ! k))" if "k < length (lp_posters s)" for k
    using that by (simp add: nth_list_update)
  moreover have "lp_closing s \<longrightarrow> (\<forall>k<length jobs. po_jobs ((lp_posters s)[i := \<lparr>po_jobs = js, po_pc = PostNotify\<rparr>] ! k) = [])"
  proof (intro impI allI)
    fix k
    assume k: "lp_closing s" "k < length jobs"
    then have e: "po_jobs (lp_posters s ! k) = []" using ok by (simp add: posted_ok_def)
    with i(2) have "k \<noteq> i" by auto
    then show "po_jobs ((lp_posters s)[i := \<lparr>po_jobs = js, po_pc = PostNotify\<rparr>] ! k) = []" using e by simp
  qed
  moreover have "map snd (filter (\<lambda>x. fst x = k) (lp_pushed s @ [(i, job)])) @ (if k = i then js else po_jobs (lp_posters s ! k)) =
      (jobs @ [terminate_jobs (length (lp_workers s))]) ! k" if "k < length (lp_posters s)" for k
    using eq [OF that] i(2) by (cases "k = i") auto
  ultimately show ?thesis
    using len last unfolding posted_ok_def by (simp add: set_poster_def)
qed

lemma posted_ok_step:
  assumes "pool_step handle b s s'" "posted_ok jobs s"
  shows "posted_ok jobs s'"
  using assms(1)
proof (cases rule: pool_step.cases)
  case (post_push i m pol js pc q)
  then show ?thesis using posted_ok_push [OF assms(2) post_push(3), of q] by simp
next
  case destroy
  then have "\<forall>i<length jobs. po_jobs (lp_posters s ! i) = []" "length (lp_posters s) = length jobs"
    using assms(2) by (auto simp: posted_ok_def list_all_length)
  moreover have "\<forall>x\<in>set (lp_pushed s). fst x < length jobs" using assms(2) destroy by (auto simp: posted_ok_def)
  then have "\<exists>pre k. lp_pushed s = pre @ replicate k (length jobs, terminate_job) \<and> (\<forall>x\<in>set pre. fst x < length jobs)"
    by (intro exI [of _ "lp_pushed s"] exI [of _ 0]) simp
  ultimately show ?thesis using assms(2) destroy by (auto simp: posted_ok_def nth_append less_Suc_eq filter_empty_conv)
qed (rule posted_ok_frame [OF assms(2)]; simp add: set_defs jobs_same)+

section \<open>What was taken\<close>

abbreviation pushed_msgs :: "'w log_pool \<Rightarrow> async_msg list" where
  "pushed_msgs s \<equiv> map (\<lambda>x. fst (snd x)) (lp_pushed s)"

definition taken_ok :: "'w log_pool \<Rightarrow> bool" where
  "taken_ok s \<longleftrightarrow>
     subseq (lp_popped s @ cq_list (lp_q s)) (pushed_msgs s) \<and>
     overrun_counter (lp_q s) + of_nat (length (lp_popped s)) + of_nat (cq_size (lp_q s)) = of_nat (length (lp_pushed s)) \<and>
     (list_all (\<lambda>x. snd (snd x) = Block) (lp_pushed s) \<longrightarrow> pushed_msgs s = lp_popped s @ cq_list (lp_q s))"

lemma taken_ok_step:
  assumes "pool_step handle b s s'" "queue_ok s" "taken_ok s"
  shows "taken_ok s'"
proof -
  have q: "cq_wf (lp_q s)" "0 < max_items (lp_q s)" using assms(2) by (simp_all add: queue_ok_def)
  have sub: "subseq (lp_popped s @ cq_list (lp_q s)) (pushed_msgs s)"
    and cnt: "overrun_counter (lp_q s) + of_nat (length (lp_popped s)) + of_nat (cq_size (lp_q s)) = of_nat (length (lp_pushed s))"
    and all: "list_all (\<lambda>x. snd (snd x) = Block) (lp_pushed s) \<Longrightarrow> pushed_msgs s = lp_popped s @ cq_list (lp_q s)"
    using assms(3) by (simp_all add: taken_ok_def)
  from assms(1) show ?thesis
  proof (cases rule: pool_step.cases)
    case (post_push i m pol js pc q')
    have long: "subseq ((lp_popped s @ cq_list (lp_q s)) @ [m]) (pushed_msgs s @ [m])"
      by (rule list_emb_append_mono [OF sub]) simp
    from post_async_msg_list [OF q post_push(5)] consider
      (room) "cq_list q' = cq_list (lp_q s) @ [m]" "overrun_counter q' = overrun_counter (lp_q s)" "cq_size q' = Suc (cq_size (lp_q s))"
      | (over) "pol \<noteq> Block" "cq_list q' = tl (cq_list (lp_q s) @ [m])" "overrun_counter q' = overrun_counter (lp_q s) + 1" "cq_size q' = cq_size (lp_q s)"
      by blast
    then show ?thesis
    proof cases
      case room
      have "overrun_counter (lp_q s) + of_nat (length (lp_popped s)) + of_nat (Suc (cq_size (lp_q s))) = of_nat (Suc (length (lp_pushed s)))"
        by (simp only: of_nat_Suc cnt [symmetric] ac_simps)
      then show ?thesis using long all room unfolding taken_ok_def post_push(2) set_defs by simp
    next
      case over
      have "subseq (lp_popped s @ tl (cq_list (lp_q s) @ [m])) (lp_popped s @ (cq_list (lp_q s) @ [m]))"
        by (rule list_emb_append_mono [OF subseq_order.refl]) (cases "cq_list (lp_q s) @ [m]", simp_all add: list_emb_Cons)
      then have "subseq (lp_popped s @ tl (cq_list (lp_q s) @ [m])) (pushed_msgs s @ [m])"
        by (rule subseq_order.trans) (use long in simp)
      moreover have "overrun_counter (lp_q s) + 1 + of_nat (length (lp_popped s)) + of_nat (cq_size (lp_q s)) = of_nat (Suc (length (lp_pushed s)))"
        by (simp only: of_nat_Suc cnt [symmetric] ac_simps)
      ultimately show ?thesis using over unfolding taken_ok_def post_push(2) set_defs by simp
    qed
  next
    case (wk_take k pc b m q')
    note n = dequeue_list [OF q wk_take(5)]
    have "overrun_counter q' + of_nat (Suc (length (lp_popped s))) + of_nat (cq_size q') = of_nat (length (lp_pushed s))"
      using n by (simp only: of_nat_Suc cnt [symmetric] ac_simps)
    then show ?thesis using sub all n unfolding taken_ok_def wk_take(2) set_defs by simp
  qed (use assms(3) in \<open>simp_all add: taken_ok_def set_defs\<close>)
qed

section \<open>What was processed\<close>

fun hand :: "worker_pc \<Rightarrow> async_msg list" where
  "hand (WkNotify m) = [m]" | "hand (WkProcess m) = [m]" | "hand _ = []"

definition run_msg :: "(async_msg \<Rightarrow> 'w \<Rightarrow> 'w outcome) \<Rightarrow> async_msg \<Rightarrow> 'w \<Rightarrow> 'w outcome" where
  "run_msg handle m w = bind_outcome (process_msg handle m w) (\<lambda>(go, w). Ok w)"

definition is_term :: "async_msg \<Rightarrow> bool" where
  "is_term m \<longleftrightarrow> msg_type m = AmTerminate"

definition done_ok :: "(async_msg \<Rightarrow> 'w \<Rightarrow> 'w outcome) \<Rightarrow> 'w \<Rightarrow> 'w log_pool \<Rightarrow> bool" where
  "done_ok handle w0 s \<longleftrightarrow>
     mset (lp_popped s) = mset (lp_done s) + mset (concat (map hand (lp_workers s))) \<and>
     (length (lp_workers s) = 1 \<longrightarrow> lp_popped s = lp_done s @ concat (map hand (lp_workers s))) \<and>
     visit (run_msg handle) (lp_done s) w0 = Ok (lp_world s) \<and>
     num is_term (lp_done s) = num (\<lambda>w. w = WkDone) (lp_workers s)"

lemma mset_hand_update:
  "k < length ws \<Longrightarrow> mset (concat (map hand (ws[k := pc]))) + mset (hand (ws ! k)) = mset (concat (map hand ws)) + mset (hand pc)"
proof (induction ws arbitrary: k)
  case (Cons w ws)
  then show ?case using Cons.IH [of "k - 1"] by (cases k) (auto simp: algebra_simps)
qed simp

lemma visit_append: "visit fn (xs @ ys) w = bind_outcome (visit fn xs w) (visit fn ys)"
  by (induction xs arbitrary: w) (auto simp: bind_outcome_assoc intro!: bind_outcome_cong)

lemma done_ok_quiet:
  assumes "done_ok handle w0 s" "worker_is s k pc" "hand pc' = hand pc" "pc \<noteq> WkDone" "pc' \<noteq> WkDone"
    and "lp_workers s' = (lp_workers s)[k := pc']" "lp_popped s' = lp_popped s" "lp_done s' = lp_done s" "lp_world s' = lp_world s"
  shows "done_ok handle w0 s'"
proof -
  have k: "k < length (lp_workers s)" "lp_workers s ! k = pc" using assms(2) by (simp_all add: worker_is_def)
  have h: "map hand ((lp_workers s)[k := pc']) = map hand (lp_workers s)"
    using k assms(3) by (simp add: map_update list_update_same_conv)
  have n: "num (\<lambda>w. w = WkDone) ((lp_workers s)[k := pc']) = num (\<lambda>w. w = WkDone) (lp_workers s)"
    using num_update [OF k(1), of "\<lambda>w. w = WkDone" pc'] k(2) assms(4,5) by simp
  show ?thesis using assms(1) unfolding done_ok_def assms(6-9) h n by simp
qed

lemma done_ok_step:
  assumes "pool_step handle b s s'" "done_ok handle w0 s"
  shows "done_ok handle w0 s'"
  using assms(1)
proof (cases rule: pool_step.cases)
  case (wk_take k pc b m q)
  have k: "k < length (lp_workers s)" "hand (lp_workers s ! k) = []" "lp_workers s ! k \<noteq> WkDone"
    using wk_take(3,4) by (auto simp: worker_is_def)
  note h = mset_hand_update [OF k(1), of "WkNotify m"] num_update [OF k(1), of "\<lambda>w. w = WkDone" "WkNotify m"]
  have "length (lp_workers s) = 1 \<Longrightarrow> lp_workers s = [lp_workers s ! k]" using k(1) by (cases "lp_workers s") auto
  then have one: "length (lp_workers s) = 1 \<longrightarrow> lp_popped s @ [m] = lp_done s @ concat (map hand ((lp_workers s)[k := WkNotify m]))"
    using assms(2) k by (cases "lp_workers s") (auto simp: done_ok_def)
  then show ?thesis using assms(2) h k wk_take(2) by (auto simp: done_ok_def set_defs)
next
  case (wk_process k m go w)
  have k: "k < length (lp_workers s)" "lp_workers s ! k = WkProcess m" using wk_process(3) by (auto simp: worker_is_def)
  let ?pc = "if go then WkCall else WkDone"
  have go: "go \<longleftrightarrow> \<not> is_term m"
    using wk_process(4) by (auto simp: process_msg_def is_term_def bind_outcome_Ok_iff split: async_msg_type.splits)
  note h = mset_hand_update [OF k(1), of ?pc] num_update [OF k(1), of "\<lambda>w. w = WkDone" ?pc]
  have one: "length (lp_workers s) = 1 \<longrightarrow> lp_popped s = (lp_done s @ [m]) @ concat (map hand ((lp_workers s)[k := ?pc]))"
    using assms(2) k by (cases "lp_workers s") (auto simp: done_ok_def)
  have v: "visit (run_msg handle) (lp_done s @ [m]) w0 = Ok w"
    using assms(2) wk_process(4) by (simp add: visit_append done_ok_def run_msg_def)
  have "mset (concat (map hand ((lp_workers s)[k := ?pc]))) + {#m#} = mset (concat (map hand (lp_workers s)))"
    using h(1) k(2) by (auto split: if_splits)
  then have m: "mset (lp_popped s) = mset (lp_done s @ [m]) + mset (concat (map hand ((lp_workers s)[k := ?pc])))"
    using assms(2) by (auto simp: done_ok_def)
  have n: "num is_term (lp_done s @ [m]) = num (\<lambda>w. w = WkDone) ((lp_workers s)[k := ?pc])"
    using h(2) k(2) go assms(2) by (auto simp: done_ok_def)
  show ?thesis using one v m n unfolding done_ok_def wk_process(2) by (simp add: set_defs)
next
  case (post_notify_one i js k)
  then show ?thesis by (intro done_ok_quiet [OF assms(2) post_notify_one(4)]) (simp_all add: set_defs)
next
  case (wk_wait k pc)
  then show ?thesis by (intro done_ok_quiet [OF assms(2) wk_wait(3)]) (auto simp: set_defs)
next
  case (wk_return k)
  then show ?thesis by (intro done_ok_quiet [OF assms(2) wk_return(3)]) (auto simp: set_defs)
next
  case (wk_timeout k t)
  then show ?thesis by (intro done_ok_quiet [OF assms(2) wk_timeout(3)]) (auto simp: set_defs)
next
  case (wk_notify_one k m i js)
  then show ?thesis by (intro done_ok_quiet [OF assms(2) wk_notify_one(3)]) (auto simp: set_defs)
next
  case (wk_notify_none k m)
  then show ?thesis by (intro done_ok_quiet [OF assms(2) wk_notify_none(3)]) (auto simp: set_defs)
qed (use assms(2) in \<open>simp_all add: done_ok_def set_defs\<close>)


section \<open>Requests to stop\<close>

definition no_terms :: "job list list \<Rightarrow> bool" where
  "no_terms jobs \<longleftrightarrow> list_all (list_all (\<lambda>j. \<not> is_term (fst j))) jobs"

text \<open>Overrunning never drops one: they are posted last, and never with that policy.\<close>

definition terms_ok :: "'w log_pool \<Rightarrow> bool" where
  "terms_ok s \<longleftrightarrow> num is_term (lp_popped s @ cq_list (lp_q s)) = num is_term (pushed_msgs s)"

lemma is_term_job [simp]: "is_term (fst terminate_job)" "snd terminate_job = Block"
  by (simp_all add: terminate_job_def is_term_def async_msg_of_type_def async_msg_bare_def async_msg.defs log_msg_buffer.defs)

lemma no_termsD: "no_terms jobs \<Longrightarrow> i < length jobs \<Longrightarrow> j \<in> set (jobs ! i) \<Longrightarrow> \<not> is_term (fst j)"
  by (auto simp: no_terms_def list_all_iff)

lemma pushed_from:
  assumes "posted_ok jobs s" "(i, j) \<in> set (lp_pushed s)"
  shows "i < length jobs \<and> j \<in> set (jobs ! i) \<or> lp_closing s \<and> j = terminate_job"
proof -
  obtain pre k where pre: "lp_pushed s = pre @ replicate k (length jobs, terminate_job)" "\<forall>x\<in>set pre. fst x < length jobs"
      "\<not> lp_closing s \<longrightarrow> k = 0"
    using assms(1) by (auto simp: posted_ok_def)
  show ?thesis
  proof (cases "(i, j) \<in> set pre")
    case True
    then have i: "i < length jobs" using pre(2) by auto
    then have "map snd (filter (\<lambda>x. fst x = i) (lp_pushed s)) @ po_jobs (lp_posters s ! i) = jobs ! i"
      using assms(1) by (auto simp: posted_ok_def nth_append split: if_splits)
    moreover have "j \<in> set (map snd (filter (\<lambda>x. fst x = i) (lp_pushed s)))" using assms(2) by force
    ultimately show ?thesis using i by (metis Un_iff set_append)
  next
    case False
    then show ?thesis using pre assms(2) by (cases "lp_closing s") auto
  qed
qed

lemma job_from:
  assumes "posted_ok jobs s" "poster_is s i (j # js) pc"
  shows "if lp_closing s then j = terminate_job else i < length jobs \<and> j \<in> set (jobs ! i)"
proof -
  have i: "i < length (lp_posters s)" "po_jobs (lp_posters s ! i) = j # js" using assms(2) by (simp_all add: poster_is_def)
  then have eq: "map snd (filter (\<lambda>x. fst x = i) (lp_pushed s)) @ j # js = (jobs @ [terminate_jobs (length (lp_workers s))]) ! i"
    using assms(1) by (metis posted_ok_def)
  then have mem: "j \<in> set ((jobs @ [terminate_jobs (length (lp_workers s))]) ! i)" by (metis in_set_conv_decomp)
  show ?thesis
  proof (cases "lp_closing s")
    case True
    then have "i = length jobs" using i assms(1) by (auto simp: posted_ok_def less_Suc_eq)
    then show ?thesis using True mem by (simp add: terminate_jobs_def terminate_job_def)
  next
    case False
    then have "i < length jobs" using i assms(1) by (simp add: posted_ok_def)
    then show ?thesis using False mem by (simp add: nth_append)
  qed
qed

lemma subseq_subset: "subseq xs ys \<Longrightarrow> set xs \<subseteq> set ys"
  by (auto elim: list_emb_set)

lemma no_terms_queued:
  assumes "posted_ok jobs s" "taken_ok s" "no_terms jobs" "\<not> lp_closing s"
  shows "num is_term (pushed_msgs s) = 0" "num is_term (lp_popped s @ cq_list (lp_q s)) = 0"
proof -
  have p: "\<forall>m\<in>set (pushed_msgs s). \<not> is_term m"
  proof
    fix m
    assume "m \<in> set (pushed_msgs s)"
    then obtain i j where j: "(i, j) \<in> set (lp_pushed s)" "m = fst j" by auto
    then show "\<not> is_term m" using pushed_from [OF assms(1) j(1)] assms(3,4) no_termsD by blast
  qed
  moreover have "set (lp_popped s @ cq_list (lp_q s)) \<subseteq> set (pushed_msgs s)"
    using assms(2) by (intro subseq_subset) (simp add: taken_ok_def)
  ultimately show "num is_term (pushed_msgs s) = 0" "num is_term (lp_popped s @ cq_list (lp_q s)) = 0"
    unfolding num_zero_iff list_all_iff by blast+
qed

lemma terms_ok_step:
  assumes "pool_step handle b s s'" "queue_ok s" "posted_ok jobs s" "taken_ok s" "no_terms jobs" "terms_ok s"
  shows "terms_ok s'"
proof -
  have q: "cq_wf (lp_q s)" "0 < max_items (lp_q s)" using assms(2) by (simp_all add: queue_ok_def)
  from assms(1) show ?thesis
  proof (cases rule: pool_step.cases)
    case (post_push i m pol js pc q')
    note from_j = job_from [OF assms(3) post_push(3)]
    from post_async_msg_list [OF q post_push(5)] consider
      (room) "cq_list q' = cq_list (lp_q s) @ [m]" | (over) "pol \<noteq> Block" "cq_list q' = tl (cq_list (lp_q s) @ [m])" by blast
    then show ?thesis
    proof cases
      case room
      then show ?thesis using assms(6) post_push(2) by (simp add: terms_ok_def set_defs)
    next
      case over
      then have cl: "\<not> lp_closing s" using from_j is_term_job(2) by (metis snd_conv)
      then have "\<not> is_term m" using from_j assms(5) no_termsD by fastforce
      moreover note no_terms_queued [OF assms(3-5) cl]
      moreover have "set (tl (cq_list (lp_q s) @ [m])) \<subseteq> insert m (set (cq_list (lp_q s)))" by (cases "cq_list (lp_q s)") auto
      ultimately have "num is_term (lp_popped s @ tl (cq_list (lp_q s) @ [m])) = 0" "num is_term (pushed_msgs s @ [m]) = 0"
        unfolding num_zero_iff list_all_iff by auto
      then show ?thesis unfolding terms_ok_def post_push(2) set_defs using over(2) by simp
    qed
  next
    case (wk_take k pc b m q')
    then show ?thesis using assms(6) dequeue_list [OF q wk_take(5)] by (simp add: terms_ok_def set_defs)
  qed (use assms(6) in \<open>simp_all add: terms_ok_def set_defs\<close>)
qed

section \<open>Reachable states\<close>

definition pool_inv :: "(async_msg \<Rightarrow> 'w \<Rightarrow> 'w outcome) \<Rightarrow> job list list \<Rightarrow> nat \<Rightarrow> 'w \<Rightarrow> 'w log_pool \<Rightarrow> bool" where
  "pool_inv handle jobs n w0 s \<longleftrightarrow> length (lp_workers s) = n \<and> queue_ok s \<and> wakeups_ok s \<and> posted_ok jobs s \<and> taken_ok s \<and>
     done_ok handle w0 s \<and> terms_ok s"

lemma pool_inv_new:
  assumes "pool_new q_max n jobs w0 = Ok s" "q_max < 2 ^ 64 - 1"
  shows "pool_inv handle jobs n w0 s" "cq_cap (lp_q s) = q_max" "0 < n"
proof -
  have n: "0 < n" and s: "s = \<lparr>lp_q = circular_q_new (async_msg_of_type AmLog) q_max,
               lp_posters = map (\<lambda>js. \<lparr>po_jobs = js, po_pc = PostCall\<rparr>) jobs,
               lp_workers = replicate n WkCall, lp_world = w0, lp_pushed = [], lp_popped = [], lp_done = [], lp_closing = False\<rparr>"
    using assms(1) by (auto simp: pool_new_def split: if_splits)
  have sz: "cq_size (circular_q_new (async_msg_of_type AmLog) q_max) = 0"
    using length_cq_list [of "circular_q_new (async_msg_of_type AmLog) q_max"] by simp
  have c0: "overrun_counter (circular_q_new (async_msg_of_type AmLog) q_max) = 0" by (simp add: circular_q_new_def Let_def)
  have ps: "posters_at PostWait s = 0" "num (\<lambda>w. w = WkWait) (lp_workers s) = 0" "num (\<lambda>w. w = WkDone) (lp_workers s) = 0"
    by (simp_all add: s num_zero_iff list_all_iff)
  have hs: "concat (map hand (lp_workers s)) = []" by (simp add: s)
  show "pool_inv handle jobs n w0 s"
    unfolding pool_inv_def
  proof (intro conjI)
    show "queue_ok s" using assms(2) cq_wf_new by (auto simp: s queue_ok_def list_all_iff)
    show "wakeups_ok s" using ps by (simp add: wakeups_ok_def)
    show "posted_ok jobs s" by (simp add: s posted_ok_def nth_append)
    show "taken_ok s" using sz c0 by (simp add: s taken_ok_def)
    show "done_ok handle w0 s" using ps hs by (simp add: done_ok_def s)
    show "terms_ok s" by (simp add: s terms_ok_def)
  qed (simp add: s)
  show "cq_cap (lp_q s) = q_max" "0 < n" using assms(2) n by (simp_all add: s)
qed

lemma workers_length: "pool_step handle b s s' \<Longrightarrow> length (lp_workers s') = length (lp_workers s)"
  by (erule pool_step.cases) (simp_all add: set_defs)

lemma capacity_step:
  assumes "pool_step handle b s s'" "queue_ok s"
  shows "cq_cap (lp_q s') = cq_cap (lp_q s)"
proof -
  have q: "cq_wf (lp_q s)" "0 < max_items (lp_q s)" using assms(2) by (simp_all add: queue_ok_def)
  from assms(1) show ?thesis
  proof (cases rule: pool_step.cases)
    case (post_push i m pol js pc q')
    then show ?thesis using post_async_msg_list [OF q post_push(5)] by (simp add: set_defs cq_cap_def)
  next
    case (wk_take k pc b m q')
    then show ?thesis using dequeue_list [OF q wk_take(5)] by (simp add: set_defs cq_cap_def)
  qed (simp_all add: set_defs)
qed

lemma pool_inv_step: "pool_step handle b s s' \<Longrightarrow> no_terms jobs \<Longrightarrow> pool_inv handle jobs n w0 s \<Longrightarrow> pool_inv handle jobs n w0 s'"
  unfolding pool_inv_def
  using workers_length queue_ok_step wakeups_ok_step posted_ok_step taken_ok_step done_ok_step terms_ok_step by metis

lemma pool_inv_reach:
  assumes "pool_reach handle s0 s" "pool_inv handle jobs n w0 s0" "no_terms jobs"
  shows "pool_inv handle jobs n w0 s \<and> cq_cap (lp_q s) = cq_cap (lp_q s0)"
  using assms
proof (induction rule: pool_reach.induct)
  case (pool_next s b s')
  then show ?case using pool_inv_step capacity_step by (metis pool_inv_def)
qed simp

section \<open>A pool on a backend\<close>

definition fit_jobs :: "(async_msg \<Rightarrow> bool) \<Rightarrow> job list list \<Rightarrow> bool" where
  "fit_jobs fit jobs \<longleftrightarrow> list_all (list_all (\<lambda>j. fit (fst j))) jobs"

text \<open>
  What the pool relies on: in a \<open>good\<close> world the backend handles a \<open>fit\<close> message and keeps the world good,
  appending the message's text to the output. Stopping requests are the pool's own.
\<close>

locale log_backend =
  fixes handle :: "async_msg \<Rightarrow> 'w \<Rightarrow> 'w outcome" and good :: "'w \<Rightarrow> bool" and fit :: "async_msg \<Rightarrow> bool"
    and written :: "'w \<Rightarrow> string" and entry :: "async_msg \<Rightarrow> string"
  assumes handles: "good w \<Longrightarrow> fit m \<Longrightarrow> \<exists>w'. handle m w = Ok w' \<and> good w' \<and> written w' = written w @ entry m"
    and fit_no_term: "fit m \<Longrightarrow> \<not> is_term m"
begin

lemma fit_jobs_no_terms: "fit_jobs fit jobs \<Longrightarrow> no_terms jobs"
  using fit_no_term by (auto simp: fit_jobs_def no_terms_def list_all_iff)

lemma fit_pushed:
  assumes "posted_ok jobs s" "fit_jobs fit jobs" "m \<in> set (pushed_msgs s)"
  shows "fit m \<or> m = fst terminate_job"
proof -
  obtain i j where j: "(i, j) \<in> set (lp_pushed s)" "m = fst j" using assms(3) by auto
  then show ?thesis using pushed_from [OF assms(1) j(1)] assms(2) by (auto simp: fit_jobs_def list_all_iff)
qed

lemma fit_popped:
  assumes "pool_inv handle jobs n w0 s" "fit_jobs fit jobs" "m \<in> set (lp_popped s)"
  shows "fit m \<or> m = fst terminate_job"
proof (rule fit_pushed [OF _ assms(2)])
  have t: "subseq (lp_popped s @ cq_list (lp_q s)) (pushed_msgs s)" using assms(1) by (simp add: pool_inv_def taken_ok_def)
  show "m \<in> set (pushed_msgs s)" using subseq_subset [OF t] assms(3) by auto
qed (use assms(1) in \<open>simp add: pool_inv_def\<close>)

lemma run_fit:
  assumes "good w" "fit m \<or> m = fst terminate_job"
  shows "\<exists>go w'. process_msg handle m w = Ok (go, w') \<and> good w' \<and> written w' = written w @ (if is_term m then [] else entry m)"
proof (cases "is_term m")
  case False
  then have "fit m" using assms(2) by auto
  then obtain w' where "handle m w = Ok w'" "good w'" "written w' = written w @ entry m" using handles assms(1) by blast
  then show ?thesis using False by (auto simp: process_msg_def is_term_def split: async_msg_type.split)
qed (use assms(1) in \<open>auto simp: process_msg_def is_term_def\<close>)

lemma run_all_fit:
  assumes "good w" "\<forall>m\<in>set ms. fit m \<or> m = fst terminate_job" "visit (run_msg handle) ms w = Ok w'"
  shows "good w' \<and> written w' = written w @ concat (map (\<lambda>m. if is_term m then [] else entry m) ms)"
  using assms
proof (induction ms arbitrary: w)
  case (Cons m ms)
  obtain go w1 where w1: "process_msg handle m w = Ok (go, w1)" "good w1" "written w1 = written w @ (if is_term m then [] else entry m)"
    using run_fit [OF Cons.prems(1), of m] Cons.prems(2) by auto
  then have "visit (run_msg handle) ms w1 = Ok w'" using Cons.prems(3) by (simp add: run_msg_def [of handle m])
  then show ?case using Cons.IH [OF w1(2)] Cons.prems(2) w1(3) by simp
qed simp

lemma world_good:
  assumes "pool_inv handle jobs n w0 s" "fit_jobs fit jobs" "good w0"
  shows "good (lp_world s) \<and> written (lp_world s) = written w0 @ concat (map (\<lambda>m. if is_term m then [] else entry m) (lp_done s))"
proof (rule run_all_fit [OF assms(3)])
  have "mset (lp_popped s) = mset (lp_done s) + mset (concat (map hand (lp_workers s)))" using assms(1) by (simp add: pool_inv_def done_ok_def)
  then have "set (lp_done s) \<subseteq> set (lp_popped s)" by (metis set_mset_mset set_mset_union sup_ge1)
  then show "\<forall>m\<in>set (lp_done s). fit m \<or> m = fst terminate_job" using fit_popped [OF assms(1,2)] by blast
  show "visit (run_msg handle) (lp_done s) w0 = Ok (lp_world s)" using assms(1) by (simp add: pool_inv_def done_ok_def)
qed

text \<open>A thread that is neither asleep nor finished can go on.\<close>

lemma worker_goes_on:
  assumes inv: "pool_inv handle jobs n w0 s" and "fit_jobs fit jobs" "good w0"
    and k: "worker_is s k pc" "pc \<noteq> WkWait" "pc \<noteq> WkDone"
  shows "\<exists>s'. pool_step handle True s s'"
proof -
  have q: "cq_wf (lp_q s)" "0 < max_items (lp_q s)" using inv by (simp_all add: pool_inv_def queue_ok_def)
  consider (get) "pc = WkCall \<or> pc = WkWoken False" | (late) "pc = WkWoken True" | (notify) m where "pc = WkNotify m" | (process) m where "pc = WkProcess m"
    using k(2,3) by (metis (full_types) worker_pc.exhaust)
  then show ?thesis
  proof cases
    case get
    show ?thesis
    proof (cases "cq_size (lp_q s) = 0")
      case True
      then show ?thesis using wk_wait [OF k(1) get] queue_waits(5) [OF q] by blast
    next
      case False
      then obtain m q' where "dequeue (lp_q s) = Ok (Some (m, q'))" using queue_waits(4) [OF q] by auto
      then show ?thesis using wk_take [OF k(1), of False] get by blast
    qed
  next
    case late
    show ?thesis
    proof (cases "cq_size (lp_q s) = 0")
      case True
      then show ?thesis using wk_return k(1) late queue_waits(5) [OF q] by blast
    next
      case False
      then obtain m q' where "dequeue (lp_q s) = Ok (Some (m, q'))" using queue_waits(4) [OF q] by auto
      then show ?thesis using wk_take [OF k(1), of True] late by blast
    qed
  next
    case (notify m)
    show ?thesis
    proof (cases "list_all (\<lambda>p. po_pc p \<noteq> PostWait) (lp_posters s)")
      case True
      then show ?thesis using wk_notify_none k(1) notify by blast
    next
      case False
      then obtain i where i: "i < length (lp_posters s)" "po_pc (lp_posters s ! i) = PostWait" by (auto simp: list_all_length)
      then have "poster_is s i (po_jobs (lp_posters s ! i)) PostWait" by (simp add: poster_is_def)
      then show ?thesis using wk_notify_one k(1) notify by blast
    qed
  next
    case (process m)
    have "m \<in> set (concat (map hand (lp_workers s)))"
      using k(1) process by (force simp: worker_is_def in_set_conv_nth)
    moreover have "mset (lp_popped s) = mset (lp_done s) + mset (concat (map hand (lp_workers s)))" using inv by (simp add: pool_inv_def done_ok_def)
    ultimately have "m \<in> set (lp_popped s)" by (metis Un_iff set_mset_mset set_mset_union)
    then obtain go w' where "process_msg handle m (lp_world s) = Ok (go, w')"
      using run_fit world_good [OF inv assms(2,3)] fit_popped [OF inv assms(2)] by blast
    then show ?thesis using wk_process [of s k m handle go w'] k(1) process by blast
  qed
qed

end

lemma poster_goes_on:
  assumes inv: "queue_ok s" and i: "poster_is s i js pc" "pc \<noteq> PostWait" "js \<noteq> [] \<or> pc = PostNotify"
  shows "\<exists>s'. pool_step handle True s s'"
proof (cases "pc = PostNotify")
  case True
  show ?thesis
  proof (cases "WkWait \<in> set (lp_workers s)")
    case True
    then obtain k where "worker_is s k WkWait" by (auto simp: in_set_conv_nth worker_is_def)
    then show ?thesis using post_notify_one i(1) \<open>pc = PostNotify\<close> by blast
  next
    case False
    then show ?thesis using post_notify_none i(1) \<open>pc = PostNotify\<close> by blast
  qed
next
  case False
  then have pc: "pc = PostCall \<or> pc = PostWoken" using i(2) by (cases pc) auto
  obtain m pol js' where js: "js = (m, pol) # js'" using False i(3) by (metis neq_Nil_conv surj_pair)
  have q: "cq_wf (lp_q s)" "0 < max_items (lp_q s)" using inv by (simp_all add: queue_ok_def)
  have "cq_size (lp_q s) \<le> cq_cap (lp_q s)" using cq_size_mod(2) [OF q] by (simp add: cq_cap_def)
  then consider q' where "post_async_msg m pol (lp_q s) = Ok (Some q')" | "post_async_msg m pol (lp_q s) = Ok None"
    using queue_waits(1,2,3) [OF q, of m] by (cases "pol = Block") (auto simp: post_async_msg_def le_less)
  then show ?thesis using post_push [of s i m pol js' pc] post_wait [of s i m pol js' pc] i(1) pc js by cases blast+
qed

context log_backend
begin

lemma all_pushed_stopped:
  assumes inv: "pool_inv handle jobs n w0 s" and "fit_jobs fit jobs" and cl: "lp_closing s"
    and idle: "list_all (\<lambda>p. po_jobs p = []) (lp_posters s)" and empty: "cq_size (lp_q s) = 0"
    and hands: "list_all (\<lambda>w. hand w = []) (lp_workers s)"
  shows "list_all (\<lambda>w. w = WkDone) (lp_workers s)"
proof -
  have po: "posted_ok jobs s" and n: "length (lp_workers s) = n" using inv by (simp_all add: pool_inv_def)
  have len: "length (lp_posters s) = Suc (length jobs)" using po cl by (simp add: posted_ok_def)
  then have "map snd (filter (\<lambda>x. fst x = length jobs) (lp_pushed s)) @ po_jobs (lp_posters s ! length jobs) = terminate_jobs n"
    using po n by (metis lessI nth_append_length posted_ok_def)
  moreover have "po_jobs (lp_posters s ! length jobs) = []" using idle len by (simp add: list_all_length)
  ultimately have "map snd (filter (\<lambda>x. fst x = length jobs) (lp_pushed s)) = replicate n terminate_job"
    by (simp add: terminate_jobs_def terminate_job_def)
  then have "num is_term (map (\<lambda>x. fst (snd x)) (filter (\<lambda>x. fst x = length jobs) (lp_pushed s))) = num is_term (map fst (replicate n terminate_job))"
    by (metis (no_types, lifting) map_map comp_apply map_eq_conv)
  also have "\<dots> = n" by (simp add: num_def)
  finally have "n \<le> num is_term (pushed_msgs s)"
    unfolding num_def by (simp add: filter_map comp_def) (metis (no_types, lifting) filter_filter length_filter_le filter_cong)
  moreover have "cq_list (lp_q s) = []" using empty by (metis length_0_conv length_cq_list)
  ultimately have p: "n \<le> num is_term (lp_popped s)" using inv by (simp add: pool_inv_def terms_ok_def)
  have "concat (map hand (lp_workers s)) = []" using hands by (auto simp: list_all_iff)
  then have "mset (lp_popped s) = mset (lp_done s)" using inv by (simp add: pool_inv_def done_ok_def)
  then have "num is_term (lp_popped s) = num is_term (lp_done s)" unfolding num_def by (metis mset_filter size_mset)
  then have "length (lp_workers s) \<le> num (\<lambda>w. w = WkDone) (lp_workers s)" using p inv n by (simp add: pool_inv_def done_ok_def)
  then show ?thesis unfolding num_def by (metis (full_types) filter_id_conv length_filter_less list_all_iff not_le)
qed

text \<open>Until every worker has ended, some thread has work to do: no wake-up is lost.\<close>

lemma pool_goes_on:
  assumes inv: "pool_inv handle jobs n w0 s" and fit: "fit_jobs fit jobs" "good w0" and cap: "0 < cq_cap (lp_q s)"
    and live: "\<not> list_all (\<lambda>w. w = WkDone) (lp_workers s)"
  shows "\<exists>s'. pool_step handle True s s'"
proof (rule ccontr)
  assume stuck: "\<not> ?thesis"
  have q: "cq_wf (lp_q s)" "0 < max_items (lp_q s)" "queue_ok s" using inv by (simp_all add: pool_inv_def queue_ok_def)
  have wk: "list_all (\<lambda>w. w = WkWait \<or> w = WkDone) (lp_workers s)"
    unfolding list_all_length using worker_goes_on [OF inv fit] stuck by (auto simp: worker_is_def)
  then have "\<exists>k<length (lp_workers s). lp_workers s ! k = WkWait" using live by (auto simp: list_all_length)
  then have waits: "0 < num (\<lambda>w. w = WkWait) (lp_workers s)" by (simp add: num_pos_iff)
  have none: "num is_woken (lp_workers s) = 0" "num is_notify (lp_workers s) = 0" "list_all (\<lambda>w. hand w = []) (lp_workers s)"
    using wk by (auto simp: num_zero_iff list_all_iff)
  have po: "po_pc p = PostWait \<or> po_jobs p = [] \<and> po_pc p = PostCall" if p: "p \<in> set (lp_posters s)" for p
  proof -
    obtain i where i: "i < length (lp_posters s)" "lp_posters s ! i = p" using p by (auto simp: in_set_conv_nth)
    then have "poster_is s i (po_jobs p) (po_pc p)" by (simp add: poster_is_def)
    then have "po_pc p = PostWait \<or> po_jobs p = [] \<and> po_pc p \<noteq> PostNotify" using poster_goes_on [OF q(3)] stuck by blast
    moreover have "po_pc p = PostWoken \<longrightarrow> po_jobs p \<noteq> []" using q(3) p by (auto simp: queue_ok_def list_all_iff)
    ultimately show ?thesis by (cases "po_pc p") auto
  qed
  then have nn: "posters_at PostNotify s = 0" "posters_at PostWoken s = 0" by (fastforce simp: num_zero_iff list_all_iff)+
  have wu: "wakeups_ok s" using inv by (simp add: pool_inv_def)
  then have sz: "cq_size (lp_q s) = 0" using waits nn none by (simp add: wakeups_ok_def)
  then have "posters_at PostWait s = 0" using wu nn none cap by (auto simp: wakeups_ok_def)
  then have idle: "list_all (\<lambda>p. p = \<lparr>po_jobs = [], po_pc = PostCall\<rparr>) (lp_posters s)"
    using po by (force simp: num_zero_iff list_all_iff)
  show False
  proof (cases "lp_closing s")
    case True
    have "list_all (\<lambda>p. po_jobs p = []) (lp_posters s)" using idle by (auto simp: list_all_iff)
    then show False using all_pushed_stopped [OF inv fit(1) True _ sz none(3)] live by simp
  next
    case False
    then show False using destroy idle stuck by blast
  qed
qed

end

section \<open>How much work is left\<close>

fun poster_work :: "poster \<Rightarrow> nat" where
  "poster_work \<lparr>po_jobs = js, po_pc = pc\<rparr> =
     8 * length js + (case pc of PostCall \<Rightarrow> 1 | PostWait \<Rightarrow> 0 | PostWoken \<Rightarrow> 1 | PostNotify \<Rightarrow> 4)"

fun worker_work :: "worker_pc \<Rightarrow> nat" where
  "worker_work WkCall = 1" | "worker_work WkWait = 0" | "worker_work (WkWoken b) = 2" | "worker_work (WkNotify m) = 4"
| "worker_work (WkProcess m) = 2" | "worker_work WkDone = 0"

definition pool_work :: "'w log_pool \<Rightarrow> nat" where
  "pool_work s = sum_list (map poster_work (lp_posters s)) + sum_list (map worker_work (lp_workers s)) + 4 * cq_size (lp_q s) +
     (if lp_closing s then 0 else 8 * length (lp_workers s) + 2)"

lemma sum_map_update: "i < length xs \<Longrightarrow> sum_list (map f (xs[i := y])) + f (xs ! i) = sum_list (map f xs) + (f y :: nat)"
  by (induction xs arbitrary: i) (auto simp: nth_Cons split: nat.split)

lemma pool_work_step:
  assumes "pool_step handle True s s'" "queue_ok s"
  shows "pool_work s' < pool_work s"
proof -
  have q: "cq_wf (lp_q s)" "0 < max_items (lp_q s)" using assms(2) by (simp_all add: queue_ok_def)
  have po: "sum_list (map poster_work ((lp_posters s)[i := p])) + poster_work \<lparr>po_jobs = js, po_pc = pc\<rparr> =
      sum_list (map poster_work (lp_posters s)) + poster_work p" if "poster_is s i js pc" for i js pc p
    using sum_map_update [of i "lp_posters s" poster_work p] that by (simp add: poster_is_def)
  have wk: "sum_list (map worker_work ((lp_workers s)[k := w])) + worker_work pc = sum_list (map worker_work (lp_workers s)) + worker_work w"
    if "worker_is s k pc" for k pc w
    using sum_map_update [of k "lp_workers s" worker_work w] that by (simp add: worker_is_def)
  from assms(1) show ?thesis
  proof (cases rule: pool_step.cases)
    case (post_push i m pol js pc q')
    then show ?thesis using po [OF post_push(2), of "\<lparr>po_jobs = js, po_pc = PostNotify\<rparr>"] post_async_msg_list [OF q post_push(4)]
      by (auto simp: pool_work_def set_defs)
  next
    case (post_wait i m pol js pc)
    then show ?thesis using po [OF post_wait(2), of "\<lparr>po_jobs = (m, pol) # js, po_pc = PostWait\<rparr>"] by (auto simp: pool_work_def set_defs)
  next
    case (post_notify_one i js k)
    then show ?thesis using po [OF post_notify_one(2), of "\<lparr>po_jobs = js, po_pc = PostCall\<rparr>"] wk [OF post_notify_one(3), of "WkWoken False"]
      by (simp add: pool_work_def set_defs)
  next
    case (post_notify_none i js)
    then show ?thesis using po [OF post_notify_none(2), of "\<lparr>po_jobs = js, po_pc = PostCall\<rparr>"] by (simp add: pool_work_def set_defs)
  next
    case (wk_take k pc b m q')
    then show ?thesis using wk [OF wk_take(2), of "WkNotify m"] dequeue_list [OF q wk_take(4)] by (auto simp: pool_work_def set_defs)
  next
    case (wk_wait k pc)
    then show ?thesis using wk [OF wk_wait(2), of WkWait] by (auto simp: pool_work_def set_defs)
  next
    case (wk_return k)
    then show ?thesis using wk [OF wk_return(2), of WkCall] by (simp add: pool_work_def set_defs)
  next
    case (wk_notify_one k m i js)
    then show ?thesis using po [OF wk_notify_one(3), of "\<lparr>po_jobs = js, po_pc = PostWoken\<rparr>"] wk [OF wk_notify_one(2), of "WkProcess m"]
      by (simp add: pool_work_def set_defs)
  next
    case (wk_notify_none k m)
    then show ?thesis using wk [OF wk_notify_none(2), of "WkProcess m"] by (simp add: pool_work_def set_defs)
  next
    case (wk_process k m go w)
    then show ?thesis using wk [OF wk_process(2), of "if go then WkCall else WkDone"] by (auto simp: pool_work_def set_defs)
  next
    case destroy
    then show ?thesis by (simp add: pool_work_def terminate_jobs_def)
  qed simp_all
qed

section \<open>When all threads have ended\<close>

text \<open>A sequence that runs through several lists at once, each in its order; its elements carry the number of their list.\<close>

definition interleaves :: "'a list list \<Rightarrow> (nat \<times> 'a) list \<Rightarrow> bool" where
  "interleaves yss order \<longleftrightarrow> (\<forall>x\<in>set order. fst x < length yss) \<and>
     (\<forall>i<length yss. map snd (filter (\<lambda>x. fst x = i) order) = yss ! i)"

abbreviation all_done :: "'w log_pool \<Rightarrow> bool" where
  "all_done s \<equiv> list_all (\<lambda>w. w = WkDone) (lp_workers s)"

lemma pushed_terms:
  assumes "posted_ok jobs s" "no_terms jobs"
  obtains pre k where "lp_pushed s = pre @ replicate k (length jobs, terminate_job)" "k \<le> length (lp_workers s)"
    "\<forall>x\<in>set pre. fst x < length jobs \<and> \<not> is_term (fst (snd x))" "num is_term (pushed_msgs s) = k"
    "0 < k \<Longrightarrow> interleaves jobs pre"
proof -
  obtain pre k where pre: "lp_pushed s = pre @ replicate k (length jobs, terminate_job)" "\<forall>x\<in>set pre. fst x < length jobs"
      "\<not> lp_closing s \<longrightarrow> k = 0"
    using assms(1) by (auto simp: posted_ok_def)
  have eq: "map snd (filter (\<lambda>x. fst x = i) (lp_pushed s)) @ po_jobs (lp_posters s ! i) = (jobs @ [terminate_jobs (length (lp_workers s))]) ! i"
    if "i < length (lp_posters s)" for i using assms(1) that by (simp add: posted_ok_def)
  have nt: "\<not> is_term (fst (snd x))" if "x \<in> set pre" for x
  proof -
    have i: "fst x < length jobs" "fst x < length (lp_posters s)" using that pre(2) assms(1) by (auto simp: posted_ok_def)
    then have "snd x \<in> set (map snd (filter (\<lambda>y. fst y = fst x) (lp_pushed s)))" using that pre(1) by auto
    then have "snd x \<in> set (jobs ! fst x)" using eq [OF i(2)] i(1) by (metis Un_iff nth_append set_append)
    then show ?thesis using no_termsD [OF assms(2) i(1)] by simp
  qed
  have k: "k \<le> length (lp_workers s)"
  proof (cases "lp_closing s")
    case True
    then have "length jobs < length (lp_posters s)" using assms(1) by (simp add: posted_ok_def)
    then have "map snd (filter (\<lambda>x. fst x = length jobs) (lp_pushed s)) @ po_jobs (lp_posters s ! length jobs) = terminate_jobs (length (lp_workers s))"
      using eq by simp
    then have "length (filter (\<lambda>x. fst x = length jobs) (lp_pushed s)) \<le> length (lp_workers s)"
      by (metis le_add1 length_append length_map length_replicate terminate_jobs_def)
    then show ?thesis using pre(1) by simp
  qed (use pre(3) in simp)
  have "interleaves jobs pre" if "0 < k"
    unfolding interleaves_def
  proof (intro conjI allI impI pre(2))
    fix i assume i: "i < length jobs"
    have cl: "lp_closing s" using that pre(3) by auto
    then have "po_jobs (lp_posters s ! i) = []" "i < length (lp_posters s)" using i assms(1) by (simp_all add: posted_ok_def)
    then show "map snd (filter (\<lambda>x. fst x = i) pre) = jobs ! i" using eq [of i] pre(1) i by (simp add: nth_append)
  qed
  moreover have "num is_term (map (\<lambda>x. fst (snd x)) pre) = 0" using nt by (auto simp: num_zero_iff list_all_iff)
  then have "num is_term (pushed_msgs s) = k" using pre(1) by (simp add: num_def)
  ultimately show thesis using that pre k nt by blast
qed

lemma done_delivers:
  assumes inv: "pool_inv handle jobs n w0 s" "0 < n" "no_terms jobs" "all_done s"
    and block: "list_all (list_all (\<lambda>j. snd j = Block)) jobs"
  shows "\<exists>order. interleaves jobs order \<and> cq_list (lp_q s) = [] \<and>
    mset (filter (\<lambda>m. \<not> is_term m) (lp_done s)) = mset (map (\<lambda>x. fst (snd x)) order) \<and>
    (n = 1 \<longrightarrow> filter (\<lambda>m. \<not> is_term m) (lp_done s) = map (\<lambda>x. fst (snd x)) order)"
proof -
  have po: "posted_ok jobs s" and n: "length (lp_workers s) = n" using inv(1) by (simp_all add: pool_inv_def)
  obtain pre k where pre: "lp_pushed s = pre @ replicate k (length jobs, terminate_job)" "k \<le> length (lp_workers s)"
    "\<forall>x\<in>set pre. fst x < length jobs \<and> \<not> is_term (fst (snd x))" "num is_term (pushed_msgs s) = k" "0 < k \<Longrightarrow> interleaves jobs pre"
    using pushed_terms [OF po inv(3)] by blast
  have "snd (snd x) = Block" if "x \<in> set (lp_pushed s)" for x
    using pushed_from [OF po, of "fst x" "snd x"] that block by (auto simp: list_all_iff)
  then have pushed: "pushed_msgs s = lp_popped s @ cq_list (lp_q s)" using inv(1) by (simp add: pool_inv_def taken_ok_def list_all_iff)
  have hands: "concat (map hand (lp_workers s)) = []" using inv(4) by (auto simp: list_all_iff)
  then have ms: "mset (lp_popped s) = mset (lp_done s)" "n = 1 \<longrightarrow> lp_popped s = lp_done s"
    using inv(1) by (auto simp: pool_inv_def done_ok_def)
  have "num (\<lambda>w. w = WkDone) (lp_workers s) = n" using inv(4) n by (simp add: num_def list_all_iff)
  then have "num is_term (lp_done s) = n" using inv(1) by (simp add: pool_inv_def done_ok_def)
  moreover have "num is_term (lp_popped s) = num is_term (lp_done s)" using ms(1) unfolding num_def by (metis mset_filter size_mset)
  moreover have "num is_term (lp_popped s) + num is_term (cq_list (lp_q s)) = k" using pushed pre(4) by simp
  ultimately have k: "k = n" "num is_term (cq_list (lp_q s)) = 0" using pre(2) n by auto
  have msgs: "lp_popped s @ cq_list (lp_q s) = map (\<lambda>x. fst (snd x)) pre @ replicate n (fst terminate_job)"
    using pushed pre(1) k(1) by (simp add: map_replicate)
  have empty: "cq_list (lp_q s) = []"
  proof (rule ccontr)
    assume ne: "cq_list (lp_q s) \<noteq> []"
    have "last (lp_popped s @ cq_list (lp_q s)) = fst terminate_job" using msgs inv(2) by simp
    then have "last (cq_list (lp_q s)) = fst terminate_job" using ne by simp
    then show False using k(2) last_in_set [OF ne] by (auto simp: num_zero_iff list_all_iff)
  qed
  have "filter (\<lambda>m. \<not> is_term m) (map (\<lambda>x. fst (snd x)) pre) = map (\<lambda>x. fst (snd x)) pre" using pre(3) by (auto simp: filter_id_conv)
  then have f: "filter (\<lambda>m. \<not> is_term m) (lp_popped s) = map (\<lambda>x. fst (snd x)) pre" using msgs empty by simp
  then have "mset (filter (\<lambda>m. \<not> is_term m) (lp_done s)) = mset (map (\<lambda>x. fst (snd x)) pre)" using ms(1) by (metis mset_filter)
  then show ?thesis using pre(5) k(1) inv(2) empty f ms(2) by auto
qed

context log_backend
begin

lemma work_ends:
  assumes inv: "pool_inv handle jobs n w0 s" and fit: "fit_jobs fit jobs" "good w0" and cap: "0 < cq_cap (lp_q s)"
    and run: "(pool_step handle True ^^ k) s s'"
  shows "k + pool_work s' \<le> pool_work s \<and> pool_inv handle jobs n w0 s' \<and> 0 < cq_cap (lp_q s')"
  using run
proof (induction k arbitrary: s')
  case (Suc k)
  then obtain s1 where s1: "(pool_step handle True ^^ k) s s1" "pool_step handle True s1 s'" by auto
  have i1: "k + pool_work s1 \<le> pool_work s" "pool_inv handle jobs n w0 s1" "0 < cq_cap (lp_q s1)" using Suc.IH [OF s1(1)] by auto
  then have "queue_ok s1" by (simp add: pool_inv_def)
  then show ?case using pool_work_step [OF s1(2)] pool_inv_step [OF s1(2) fit_jobs_no_terms [OF fit(1)] i1(2)] capacity_step [OF s1(2)] i1 by simp
qed (use inv cap in simp)

lemma work_reaches_end:
  assumes "pool_inv handle jobs n w0 s" "fit_jobs fit jobs" "good w0" "0 < cq_cap (lp_q s)"
  shows "\<exists>k s'. (pool_step handle True ^^ k) s s' \<and> all_done s'"
  using assms
proof (induction "pool_work s" arbitrary: s rule: less_induct)
  case less
  show ?case
  proof (cases "all_done s")
    case True
    then show ?thesis by (intro exI [of _ 0] exI [of _ s]) simp
  next
    case False
    then obtain s1 where s1: "pool_step handle True s s1" using pool_goes_on [OF less.prems] by blast
    have "queue_ok s" using less.prems(1) by (simp add: pool_inv_def)
    then have "pool_work s1 < pool_work s" "cq_cap (lp_q s1) = cq_cap (lp_q s)" using pool_work_step [OF s1] capacity_step [OF s1] by simp_all
    moreover have "pool_inv handle jobs n w0 s1" using pool_inv_step [OF s1 fit_jobs_no_terms [OF less.prems(2)] less.prems(1)] .
    ultimately obtain k s' where "(pool_step handle True ^^ k) s1 s'" "all_done s'" using less.hyps less.prems by metis
    then show ?thesis using relpowp_Suc_I2 [of "pool_step handle True", OF s1] by blast
  qed
qed

text \<open>What the pool promises its users.\<close>

lemma pool_finishes:
  assumes new: "pool_new q_max n jobs w0 = Ok s0" "0 < q_max" "q_max < 2 ^ 64 - 1" and fit: "fit_jobs fit jobs" "good w0"
    and s: "pool_reach handle s0 s"
  shows "\<exists>k s'. (pool_step handle True ^^ k) s s' \<and> all_done s'"
    and "(pool_step handle True ^^ k) s s' \<Longrightarrow> k \<le> pool_work s \<and> (all_done s' \<or> (\<exists>s''. pool_step handle True s' s''))"
proof -
  note i0 = pool_inv_new [OF new(1,3)]
  have i: "pool_inv handle jobs n w0 s" "0 < cq_cap (lp_q s)"
    using pool_inv_reach [OF s i0(1) fit_jobs_no_terms [OF fit(1)]] i0(2) new(2) by auto
  show "\<exists>k s'. (pool_step handle True ^^ k) s s' \<and> all_done s'" by (rule work_reaches_end [OF i(1) fit i(2)])
  assume run: "(pool_step handle True ^^ k) s s'"
  then show "k \<le> pool_work s \<and> (all_done s' \<or> (\<exists>s''. pool_step handle True s' s''))"
    using work_ends [OF i(1) fit i(2) run] pool_goes_on [of jobs n w0 s', OF _ fit] by fastforce
qed

lemma pool_delivers:
  assumes new: "pool_new q_max n jobs w0 = Ok s0" "q_max < 2 ^ 64 - 1" and fit: "fit_jobs fit jobs" "good w0"
    and s: "pool_reach handle s0 s" "all_done s" and block: "list_all (list_all (\<lambda>j. snd j = Block)) jobs"
  shows "\<exists>order msgs. interleaves jobs order \<and> mset msgs = mset (map (\<lambda>x. fst (snd x)) order) \<and>
    (n = 1 \<longrightarrow> msgs = map (\<lambda>x. fst (snd x)) order) \<and> cq_list (lp_q s) = [] \<and>
    written (lp_world s) = written w0 @ concat (map entry msgs)"
proof -
  note i0 = pool_inv_new [OF new]
  have i: "pool_inv handle jobs n w0 s" using pool_inv_reach [OF s(1) i0(1) fit_jobs_no_terms [OF fit(1)]] by auto
  have "concat (map (\<lambda>m. if is_term m then [] else entry m) ms) = concat (map entry (filter (\<lambda>m. \<not> is_term m) ms))" for ms
    by (induction ms) auto
  then have w: "written (lp_world s) = written w0 @ concat (map entry (filter (\<lambda>m. \<not> is_term m) (lp_done s)))"
    using world_good [OF i fit] by simp
  obtain order where "interleaves jobs order" "cq_list (lp_q s) = []"
      "mset (filter (\<lambda>m. \<not> is_term m) (lp_done s)) = mset (map (\<lambda>x. fst (snd x)) order)"
      "n = 1 \<longrightarrow> filter (\<lambda>m. \<not> is_term m) (lp_done s) = map (\<lambda>x. fst (snd x)) order"
    using done_delivers [OF i i0(3) fit_jobs_no_terms [OF fit(1)] s(2) block] by blast
  then show ?thesis using w by (intro exI [of _ order] exI [of _ "filter (\<lambda>m. \<not> is_term m) (lp_done s)"]) simp
qed

end

section \<open>Asynchronous loggers\<close>

record async_logger = logger +
  al_policy :: async_overflow_policy

text \<open>
  The front end posts to the pool; \<open>alive\<close> tells whether the weak pointer to it can still be locked. \<open>self\<close> is
  the logger's own object. The caller \<^verbatim>\<open>log_\<close> hands the exception to the error handler.
\<close>

definition async_sink_it :: "bool \<Rightarrow> oid \<Rightarrow> async_logger \<Rightarrow> log_msg \<Rightarrow> job outcome" where
  "async_sink_it alive self lg msg = (if alive then post_log self msg (al_policy lg) else Throw)"

definition async_flush :: "bool \<Rightarrow> oid \<Rightarrow> async_logger \<Rightarrow> job outcome" where
  "async_flush alive self lg = (if alive then Ok (post_flush self (al_policy lg)) else Throw)"

definition async_clone :: "string \<Rightarrow> async_logger \<Rightarrow> async_logger" where
  "async_clone new_name lg = lg\<lparr>tracer := bt_copy (tracer lg), name := new_name\<rparr>"

definition backend_flush :: "async_logger \<Rightarrow> log_world \<Rightarrow> log_world outcome" where
  "backend_flush lg w = flush_sinks (sinks lg) w"

definition backend_sink_it :: "log_env \<Rightarrow> int \<Rightarrow> async_logger \<Rightarrow> log_msg \<Rightarrow> log_world \<Rightarrow> log_world outcome" where
  "backend_sink_it env now lg msg w =
     bind_outcome (log_sinks env now (logger.truncate lg) (sinks lg) msg w) (\<lambda>w.
       if should_flush msg (logger.truncate lg) then backend_flush lg w else Ok w)"

text \<open>The two calls of \<^verbatim>\<open>process_next_msg_\<close>, on the loggers \<open>loggers\<close>.\<close>

definition async_handle :: "log_env \<Rightarrow> int \<Rightarrow> (oid \<rightharpoonup> async_logger) \<Rightarrow> async_msg \<Rightarrow> log_world \<Rightarrow> log_world outcome" where
  "async_handle env now loggers m w =
     (case worker_ptr m of None \<Rightarrow> Ub NullDeref
      | Some l \<Rightarrow> (case loggers l of None \<Rightarrow> Ub NullDeref
        | Some lg \<Rightarrow> (case msg_type m of
             AmLog \<Rightarrow> backend_sink_it env now lg (log_msg.truncate m) w
           | AmFlush \<Rightarrow> backend_flush lg w
           | AmTerminate \<Rightarrow> Ok w)))"

text \<open>The back end does what a synchronous logger does.\<close>

lemma backend_sync:
  "backend_sink_it env now lg msg w = sink_it env now (logger.truncate lg) msg w"
  "backend_flush lg w = logger_flush (logger.truncate lg) w"
  by (simp_all add: backend_sink_it_def backend_flush_def sink_it_def logger_flush_def logger.defs cong: if_cong)

section \<open>A pool that writes to the console\<close>

text \<open>The logger \<open>l\<close> has the console sink \<open>s\<close> with the formatter of the programs; \<open>sk0\<close> has its colours.\<close>

definition console_ready :: "log_env \<Rightarrow> int \<Rightarrow> (oid \<rightharpoonup> async_logger) \<Rightarrow> oid \<Rightarrow> oid \<Rightarrow> ansicolor_sink \<Rightarrow> log_world \<Rightarrow> bool" where
  "console_ready env off loggers l s sk0 w \<longleftrightarrow> zone_ok env off \<and>
     (\<exists>lg. loggers l = Some lg \<and> sinks lg = [s] \<and> flush_level lg = Off) \<and>
     (\<exists>sk. w_sinks w s = Some sk \<and> sink_level sk = Trace \<and> cproxy_warm env off default_eol (sink_formatter sk) \<and>
        length (colors sk) = 7 \<and> colors sk = colors sk0 \<and> should_do_colors sk = should_do_colors sk0)"

definition console_fit :: "oid \<Rightarrow> async_msg \<Rightarrow> bool" where
  "console_fit l m \<longleftrightarrow> worker_ptr m = Some l \<and> (msg_type m = AmFlush \<or> msg_type m = AmLog \<and> printable (log_msg.truncate m))"

definition console_text :: "oid \<Rightarrow> log_world \<Rightarrow> string" where
  "console_text s w = (case w_sinks w s of None \<Rightarrow> [] | Some sk \<Rightarrow> target_file sk)"

definition console_entry :: "log_env \<Rightarrow> ansicolor_sink \<Rightarrow> async_msg \<Rightarrow> string" where
  "console_entry env sk0 m = (if msg_type m = AmLog then console_line env sk0 (log_msg.truncate m) else [])"

lemma console_line_colors: "colors sk = colors sk0 \<Longrightarrow> should_do_colors sk = should_do_colors sk0 \<Longrightarrow> console_line env sk = console_line env sk0"
  by (intro ext) (simp add: console_line_def Let_def cong: if_cong)

lemma console_handles:
  assumes "console_ready env off loggers l s sk0 w" "console_fit l m"
  shows "\<exists>w'. async_handle env now loggers m w = Ok w' \<and> console_ready env off loggers l s sk0 w' \<and>
    console_text s w' = console_text s w @ console_entry env sk0 m"
proof -
  obtain lg sk where lg: "zone_ok env off" "loggers l = Some lg" "sinks lg = [s]" "flush_level lg = Off"
    and sk: "w_sinks w s = Some sk" "sink_level sk = Trace" "cproxy_warm env off default_eol (sink_formatter sk)" "length (colors sk) = 7"
    and c: "colors sk = colors sk0" "should_do_colors sk = should_do_colors sk0"
    using assms(1) by (auto simp: console_ready_def)
  have t: "sinks (logger.truncate lg) = [s]" "flush_level (logger.truncate lg) = Off" using lg by (simp_all add: logger.defs)
  show ?thesis
  proof (cases "msg_type m = AmFlush")
    case True
    let ?w = "w\<lparr>w_sinks := (w_sinks w)(s \<mapsto> sink_flush sk)\<rparr>"
    have "async_handle env now loggers m w = Ok ?w"
      using True lg assms(2) sk(1) by (simp add: async_handle_def console_fit_def backend_flush_def with_sink_def)
    moreover have "console_ready env off loggers l s sk0 ?w" using lg sk c by (simp add: console_ready_def sink_flush_def)
    ultimately show ?thesis using True sk(1) by (simp add: console_text_def console_entry_def sink_flush_def)
  next
    case False
    then have m: "msg_type m = AmLog" "printable (log_msg.truncate m)" using assms(2) by (auto simp: console_fit_def)
    obtain pf where pf: "sink_it env now (logger.truncate lg) (log_msg.truncate m) w = Ok (w\<lparr>w_sinks := (w_sinks w)(s \<mapsto> sk\<lparr>sink_formatter := pf,
        target_file := target_file sk @ console_line env sk (log_msg.truncate m), flushes := flushes sk + 1\<rparr>)\<rparr>)" "cproxy_warm env off default_eol pf"
      using sink_it_console [OF lg(1) m(2) t sk] by blast
    let ?sk = "sk\<lparr>sink_formatter := pf, target_file := target_file sk @ console_line env sk (log_msg.truncate m), flushes := flushes sk + 1\<rparr>"
    let ?w = "w\<lparr>w_sinks := (w_sinks w)(s \<mapsto> ?sk)\<rparr>"
    have "async_handle env now loggers m w = Ok ?w"
      using m lg assms(2) pf(1) by (simp add: async_handle_def console_fit_def backend_sync)
    moreover have "console_ready env off loggers l s sk0 ?w" using lg sk c pf(2) by (simp add: console_ready_def)
    ultimately show ?thesis using m(1) sk(1) console_line_colors [OF c] by (simp add: console_text_def console_entry_def)
  qed
qed

interpretation console: log_backend "async_handle env now loggers" "console_ready env off loggers l s sk0" "console_fit l" "console_text s" "console_entry env sk0"
  by unfold_locales (use console_handles in blast, auto simp: console_fit_def is_term_def)

text \<open>What the threads of the program do with the logger.\<close>

datatype async_call = CallLog log_msg | CallFlush

fun async_post :: "oid \<Rightarrow> async_logger \<Rightarrow> async_call \<Rightarrow> job outcome" where
  "async_post self lg (CallLog msg) = async_sink_it True self lg msg"
| "async_post self lg CallFlush = async_flush True self lg"

fun call_fit :: "async_call \<Rightarrow> bool" where
  "call_fit (CallLog msg) = printable msg" | "call_fit CallFlush = True"

fun async_call_text :: "log_env \<Rightarrow> ansicolor_sink \<Rightarrow> async_call \<Rightarrow> string" where
  "async_call_text env sk0 (CallLog msg) = console_line env sk0 msg" | "async_call_text env sk0 CallFlush = []"

lemma async_post_job:
  assumes "async_post l lg c = Ok j"
  shows "snd j = al_policy lg" "call_fit c \<Longrightarrow> console_fit l (fst j)" "console_entry env sk0 (fst j) = async_call_text env sk0 c"
proof -
  obtain b where b: "log_msg_buffer_new m = Ok b" "log_msg.truncate b = m" if "c = CallLog m" for m
    using log_msg_buffer_new_same by (cases c) auto
  have t: "log_msg.truncate (log_msg_buffer.extend b x) = log_msg.truncate b" for x :: "\<lparr>msg_type :: async_msg_type, worker_ptr :: oid option\<rparr>"
    by (simp add: log_msg.defs log_msg_buffer.defs)
  have f: "msg_type (log_msg_buffer.extend b (async_msg.fields ty p)) = ty" "worker_ptr (log_msg_buffer.extend b (async_msg.fields ty p)) = p"
    for b ty p by (simp_all add: log_msg_buffer.defs async_msg.defs)
  show "snd j = al_policy lg" "call_fit c \<Longrightarrow> console_fit l (fst j)" "console_entry env sk0 (fst j) = async_call_text env sk0 c"
    using assms b t by (cases c; auto simp: async_sink_it_def async_flush_def post_log_def post_flush_def async_msg_log_def async_msg_bare_def
        console_fit_def console_entry_def f)+
qed

lemma posted_jobs:
  assumes "list_all2 (list_all2 (\<lambda>c j. async_post l lg c = Ok j)) calls jobs" "list_all (list_all call_fit) calls"
  shows "fit_jobs (console_fit l) jobs" "list_all (list_all (\<lambda>j. snd j = al_policy lg)) jobs"
    "map (map (\<lambda>j. console_entry env sk0 (fst j))) jobs = map (map (async_call_text env sk0)) calls"
proof -
  have r: "list_all (\<lambda>j. console_fit l (fst j)) js \<and> list_all (\<lambda>j. snd j = al_policy lg) js \<and>
      map (\<lambda>j. console_entry env sk0 (fst j)) js = map (async_call_text env sk0) cs"
    if "list_all2 (\<lambda>c j. async_post l lg c = Ok j) cs js" "list_all call_fit cs" for cs js
    using that by (induction rule: list_all2_induct) (auto simp: async_post_job)
  show "fit_jobs (console_fit l) jobs" "list_all (list_all (\<lambda>j. snd j = al_policy lg)) jobs"
    "map (map (\<lambda>j. console_entry env sk0 (fst j))) jobs = map (map (async_call_text env sk0)) calls"
    using assms unfolding fit_jobs_def by (induction rule: list_all2_induct) (auto simp: r)
qed

lemma interleaves_map:
  assumes "interleaves yss order"
  shows "interleaves (map (map f) yss) (map (apsnd f) order)"
proof -
  have "map snd (filter (\<lambda>x. fst x = i) (map (apsnd f) order)) = map f (map snd (filter (\<lambda>x. fst x = i) order))" for i
    by (simp add: filter_map comp_def)
  then show ?thesis using assms unfolding interleaves_def by (simp del: map_map)
qed

section \<open>Properties\<close>

text \<open>C11. The logging pool always finishes: any number of threads log and flush through an asynchronous console
  logger, with either policy and a queue of any non-zero size. Whatever has happened so far (any interleaving,
  time-outs and wake-ups without reason included), at most \<open>pool_work\<close> further steps of work can be done, as long
  as some worker has not ended one of them is possible, and so the destructor's join returns.\<close>
theorem async_pool_finishes:
  assumes "pool_new q_max n jobs w0 = Ok s0" "0 < q_max" "q_max < 2 ^ 64 - 1"
    and "list_all2 (list_all2 (\<lambda>c j. async_post l lg c = Ok j)) calls jobs" "list_all (list_all call_fit) calls"
    and "console_ready env off loggers l s sk0 w0" "pool_reach (async_handle env now loggers) s0 p"
  shows "(\<exists>k p'. (pool_step (async_handle env now loggers) True ^^ k) p p' \<and> all_done p') \<and>
    (\<forall>k p'. (pool_step (async_handle env now loggers) True ^^ k) p p' \<longrightarrow>
       k \<le> pool_work p \<and> (all_done p' \<or> (\<exists>p''. pool_step (async_handle env now loggers) True p' p'')))"
  using console.pool_finishes [OF assms(1-3) posted_jobs(1) [OF assms(4,5)] assms(6,7)] by blast

text \<open>C12. A blocking pool delivers: once all workers have ended, the queue is empty and the console has received
  the line of every message logged, exactly once; with one worker thread the lines come in an order that keeps
  each thread's own.\<close>
theorem async_pool_delivers:
  assumes "pool_new q_max n jobs w0 = Ok s0" "q_max < 2 ^ 64 - 1" "al_policy lg = Block"
    and "list_all2 (list_all2 (\<lambda>c j. async_post l lg c = Ok j)) calls jobs" "list_all (list_all call_fit) calls"
    and "console_ready env off loggers l s sk0 w0" "pool_reach (async_handle env now loggers) s0 p" "all_done p"
  shows "\<exists>order lines. interleaves (map (map (async_call_text env sk0)) calls) order \<and> mset lines = mset (map snd order) \<and>
    (n = 1 \<longrightarrow> lines = map snd order) \<and> cq_list (lp_q p) = [] \<and>
    console_text s (lp_world p) = console_text s w0 @ concat lines"
proof -
  note j = posted_jobs [OF assms(4,5)]
  have block: "list_all (list_all (\<lambda>j. snd j = Block)) jobs" using j(2) assms(3) by simp
  obtain order msgs where o: "interleaves jobs order" "mset msgs = mset (map (\<lambda>x. fst (snd x)) order)"
      "n = 1 \<longrightarrow> msgs = map (\<lambda>x. fst (snd x)) order" "cq_list (lp_q p) = []"
      "console_text s (lp_world p) = console_text s w0 @ concat (map (console_entry env sk0) msgs)"
    using console.pool_delivers [OF assms(1,2) j(1) assms(6-8) block] by blast
  let ?f = "\<lambda>j. console_entry env sk0 (fst j)"
  have "interleaves (map (map (async_call_text env sk0)) calls) (map (apsnd ?f) order)"
    using interleaves_map [OF o(1), of ?f] j(3) by simp
  moreover have s: "map snd (map (apsnd ?f) order) = map (console_entry env sk0) (map (\<lambda>x. fst (snd x)) order)" by simp
  moreover have "mset (map (console_entry env sk0) msgs) = mset (map snd (map (apsnd ?f) order))" using o(2) unfolding s by (metis mset_map)
  ultimately show ?thesis using o(3-5) by (intro exI [of _ "map (apsnd ?f) order"] exI [of _ "map (console_entry env sk0) msgs"]) auto
qed

text \<open>An overrunning queue loses only the oldest, and says how many: at every moment what the workers have taken
  and what is queued is a subsequence of what was pushed, in order, and the counter is the number of the
  missing ones (as a 64-bit number); if every message was posted with the blocking policy none is missing.\<close>
theorem async_queue_accounts:
  assumes "pool_new q_max n jobs w0 = Ok s0" "q_max < 2 ^ 64 - 1" "no_terms jobs" "pool_reach handle s0 p"
  shows "subseq (lp_popped p @ cq_list (lp_q p)) (pushed_msgs p) \<and> length (cq_list (lp_q p)) \<le> q_max \<and>
    overrun_counter (lp_q p) = of_nat (length (lp_pushed p) - length (lp_popped p @ cq_list (lp_q p))) \<and>
    (list_all (list_all (\<lambda>j. snd j = Block)) jobs \<longrightarrow> pushed_msgs p = lp_popped p @ cq_list (lp_q p))"
proof -
  have i0: "pool_inv handle jobs n w0 s0" "cq_cap (lp_q s0) = q_max" using pool_inv_new [OF assms(1,2)] by auto
  have i: "pool_inv handle jobs n w0 p" "cq_cap (lp_q p) = q_max" using pool_inv_reach [OF assms(4) i0(1) assms(3)] i0(2) by auto
  have t: "taken_ok p" "posted_ok jobs p" using i(1) by (simp_all add: pool_inv_def)
  then have sub: "subseq (lp_popped p @ cq_list (lp_q p)) (pushed_msgs p)"
    and cnt: "overrun_counter (lp_q p) + of_nat (length (lp_popped p)) + of_nat (cq_size (lp_q p)) = of_nat (length (lp_pushed p))"
    and all: "list_all (\<lambda>x. snd (snd x) = Block) (lp_pushed p) \<Longrightarrow> pushed_msgs p = lp_popped p @ cq_list (lp_q p)"
    by (simp_all add: taken_ok_def)
  have q: "cq_wf (lp_q p)" "0 < max_items (lp_q p)" using i(1) by (simp_all add: pool_inv_def queue_ok_def)
  have "cq_size (lp_q p) \<le> q_max" using cq_size_mod(2) [OF q] i(2) by (simp add: cq_cap_def)
  moreover have le: "length (lp_popped p @ cq_list (lp_q p)) \<le> length (lp_pushed p)" using list_emb_length [OF sub] by simp
  have "overrun_counter (lp_q p) = of_nat (length (lp_pushed p)) - of_nat (length (lp_popped p @ cq_list (lp_q p)))"
    unfolding cnt [symmetric] by simp
  then have "overrun_counter (lp_q p) = of_nat (length (lp_pushed p) - length (lp_popped p @ cq_list (lp_q p)))"
    using le by (simp only: of_nat_diff)
  moreover have "pushed_msgs p = lp_popped p @ cq_list (lp_q p)" if b: "list_all (list_all (\<lambda>j. snd j = Block)) jobs"
  proof (rule all)
    show "list_all (\<lambda>x. snd (snd x) = Block) (lp_pushed p)"
      using pushed_from [OF t(2)] b is_term_job(2) by (fastforce simp: list_all_iff)
  qed
  ultimately show ?thesis using sub by simp
qed

definition demo_console :: ansicolor_sink where
  "demo_console = (ansicolor_sink_new True ColorAutomatic)\<lparr>sink_formatter := cproxy_pf default_eol (0, 0) tm_zero 0\<rparr>"

definition demo_async_logger :: async_logger where
  "demo_async_logger = logger.extend (logger_new ''net'' [0]) (async_logger.fields Block)"

abbreviation demo_async_world :: log_world where
  "demo_async_world \<equiv> demo_world\<lparr>w_sinks := [0 \<mapsto> demo_console]\<rparr>"

abbreviation demo_handle :: "async_msg \<Rightarrow> log_world \<Rightarrow> log_world outcome" where
  "demo_handle \<equiv> async_handle demo_log_env 0 [7 \<mapsto> demo_async_logger]"

lemma demo_ready: "console_ready demo_log_env 330 [7 \<mapsto> demo_async_logger] 7 0 demo_console demo_async_world"
proof -
  have "s mod 60 < 62" for s :: int using pos_mod_bound [of 60 s] by simp
  then have z: "zone_ok demo_log_env 330"
    by (simp add: zone_ok_def demo_log_env_def buffer_size_def tm_clock_ok_def utc_minutes_offset_def c_div_def to_int32_def Let_def)
  have "cproxy_warm demo_log_env 330 default_eol (cproxy_pf default_eol (0, 0) tm_zero 0)" unfolding cproxy_warm_def by (metis fst_conv)
  then show ?thesis using z
    by (simp add: console_ready_def demo_async_logger_def logger.defs logger_new_def demo_console_def ansicolor_sink_new_def set_color_mode_def)
qed

lemma demo_calls_posted:
  "\<exists>j1 j2. async_post 7 demo_async_logger (CallLog demo_msg) = Ok j1 \<and> async_post 7 demo_async_logger CallFlush = Ok j2"
  using log_msg_buffer_new_same [of demo_msg] by (auto simp: async_sink_it_def async_flush_def post_log_def async_msg_log_def)

lemma demo_call_fit: "call_fit (CallLog demo_msg)"
  by (simp add: printable_def demo_msg_ok) (simp add: demo_msg_def log_msg_new_def seconds_def)

lemma pool_reach_work: "(pool_step handle True ^^ k) s s' \<Longrightarrow> pool_reach handle s s'"
  by (induction k arbitrary: s') (auto intro: pool_reach.intros)

theorem async_pool_finishes_witness:
  "\<exists>jobs s0 p. pool_new 1 2 jobs demo_async_world = Ok s0 \<and> map length jobs = [2, 1] \<and> pool_reach demo_handle s0 p \<and> all_done p"
proof -
  obtain j1 j2 where j: "async_post 7 demo_async_logger (CallLog demo_msg) = Ok j1" "async_post 7 demo_async_logger CallFlush = Ok j2"
    using demo_calls_posted by blast
  let ?jobs = "[[j1, j2], [j1]]" and ?calls = "[[CallLog demo_msg, CallFlush], [CallLog demo_msg]]"
  obtain s0 where s0: "pool_new 1 2 ?jobs demo_async_world = Ok s0" by (simp add: pool_new_def)
  have l: "list_all2 (list_all2 (\<lambda>c j. async_post 7 demo_async_logger c = Ok j)) ?calls ?jobs" "list_all (list_all call_fit) ?calls"
    using j demo_call_fit by (simp_all del: async_post.simps call_fit.simps(1))
  obtain k p where "(pool_step demo_handle True ^^ k) s0 p" "all_done p"
    using async_pool_finishes [OF s0 _ _ l demo_ready pool_init, where now = 0] by auto
  then show ?thesis using s0 pool_reach_work by fastforce
qed

lemma interleaves_one: "interleaves [ys] order \<Longrightarrow> map snd order = ys"
  by (metis (mono_tags, lifting) filter_True interleaves_def length_Cons less_Suc0 list.size(3) nth_Cons_0)

theorem async_pool_delivers_witness:
  "\<exists>jobs s0 p. pool_new 1 1 jobs demo_async_world = Ok s0 \<and> pool_reach demo_handle s0 p \<and> all_done p \<and> cq_list (lp_q p) = [] \<and>
     console_text 0 (lp_world p) = console_line demo_log_env demo_console demo_msg @ console_line demo_log_env demo_console demo_msg"
proof -
  obtain j1 j2 where j: "async_post 7 demo_async_logger (CallLog demo_msg) = Ok j1" "async_post 7 demo_async_logger CallFlush = Ok j2"
    using demo_calls_posted by blast
  let ?jobs = "[[j1, j2, j1]]" and ?calls = "[[CallLog demo_msg, CallFlush, CallLog demo_msg]]"
  obtain s0 where s0: "pool_new 1 1 ?jobs demo_async_world = Ok s0" by (simp add: pool_new_def)
  have l: "list_all2 (list_all2 (\<lambda>c j. async_post 7 demo_async_logger c = Ok j)) ?calls ?jobs" "list_all (list_all call_fit) ?calls"
    using j demo_call_fit by (simp_all del: async_post.simps call_fit.simps(1))
  obtain k p where "(pool_step demo_handle True ^^ k) s0 p" and d: "all_done p"
    using console.pool_finishes(1) [OF s0 _ _ posted_jobs(1) [OF l] demo_ready pool_init, where now = 0] by auto
  then have r: "pool_reach demo_handle s0 p" using pool_reach_work by blast
  have b: "al_policy demo_async_logger = Block" by (simp add: demo_async_logger_def logger.defs async_logger.defs)
  obtain order where o: "interleaves (map (map (async_call_text demo_log_env demo_console)) ?calls) order" "cq_list (lp_q p) = []"
      "console_text 0 (lp_world p) = console_text 0 demo_async_world @ concat (map snd order)"
    using async_pool_delivers [OF s0 _ b l demo_ready r d] by auto
  have "map snd order = map (async_call_text demo_log_env demo_console) (hd ?calls)" using o(1) interleaves_one by fastforce
  moreover have "console_text 0 demo_async_world = []" by (simp add: console_text_def demo_console_def ansicolor_sink_new_def set_color_mode_def)
  ultimately have "console_text 0 (lp_world p) = console_line demo_log_env demo_console demo_msg @ console_line demo_log_env demo_console demo_msg"
    using o(3) by simp
  then show ?thesis using s0 r d o(2) by blast
qed

theorem async_queue_accounts_witness:
  "\<exists>s0 p. pool_new 1 1 [[post_flush 7 OverrunOldest, post_flush 7 OverrunOldest]] demo_async_world = Ok s0 \<and> pool_reach demo_handle s0 p \<and>
     length (lp_pushed p) = 2 \<and> subseq (cq_list (lp_q p)) (pushed_msgs p) \<and> length (cq_list (lp_q p)) \<le> 1 \<and> overrun_counter (lp_q p) = 1"
proof -
  let ?m = "async_msg_bare (Some 7) AmFlush"
  have pf: "post_flush 7 OverrunOldest = (?m, OverrunOldest)" by (simp add: post_flush_def)
  obtain s0 where s0: "pool_new 1 1 [[(?m, OverrunOldest), (?m, OverrunOldest)]] demo_async_world = Ok s0" by (simp add: pool_new_def)
  then have s0': "s0 = \<lparr>lp_q = circular_q_new (async_msg_of_type AmLog) 1,
      lp_posters = [\<lparr>po_jobs = [(?m, OverrunOldest), (?m, OverrunOldest)], po_pc = PostCall\<rparr>], lp_workers = [WkCall],
      lp_world = demo_async_world, lp_pushed = [], lp_popped = [], lp_done = [], lp_closing = False\<rparr>" by (simp add: pool_new_def)
  have wf: "cq_wf (lp_q s0)" "0 < max_items (lp_q s0)" "cq_size (lp_q s0) = 0" "cq_cap (lp_q s0) = 1"
    using cq_wf_new by (simp_all add: s0' circular_q_new_def cq_size_def cq_cap_def cq_wf_def Let_def)
  obtain q1 where q1: "enqueue_nowait ?m (lp_q s0) = Ok (Some q1)" using queue_waits(3) [OF wf(1,2)] by blast
  have wf1: "cq_wf q1" "0 < max_items q1" "cq_size q1 = 1" "cq_cap q1 = 1"
    using enqueue_nowait_list [OF wf(1,2) q1] wf by (simp_all add: cq_cap_def)
  obtain q2 where q2: "enqueue_nowait ?m q1 = Ok (Some q2)" using queue_waits(3) [OF wf1(1,2)] by blast
  define s1 where "s1 = set_poster 0 \<lparr>po_jobs = [(?m, OverrunOldest)], po_pc = PostNotify\<rparr> (s0\<lparr>lp_q := q1, lp_pushed := [(0, ?m, OverrunOldest)]\<rparr>)"
  define s2 where "s2 = set_poster 0 \<lparr>po_jobs = [(?m, OverrunOldest)], po_pc = PostCall\<rparr> s1"
  define s3 where "s3 = set_poster 0 \<lparr>po_jobs = [], po_pc = PostNotify\<rparr> (s2\<lparr>lp_q := q2, lp_pushed := [(0, ?m, OverrunOldest), (0, ?m, OverrunOldest)]\<rparr>)"
  have "pool_step demo_handle True s0 s1"
    using post_push [of s0 0 ?m OverrunOldest "[(?m, OverrunOldest)]" PostCall q1] q1 by (simp add: s1_def s0' poster_is_def post_async_msg_def)
  moreover have "pool_step demo_handle True s1 s2"
    unfolding s2_def by (rule post_notify_none) (simp_all add: s1_def s0' poster_is_def set_poster_def)
  moreover have "pool_step demo_handle True s2 s3"
    using post_push [of s2 0 ?m OverrunOldest "[]" PostCall q2] q2 by (simp add: s3_def s2_def s1_def s0' poster_is_def post_async_msg_def set_poster_def)
  ultimately have r: "pool_reach demo_handle s0 s3" by (meson pool_reach.intros)
  have nt: "no_terms [[(?m, OverrunOldest), (?m, OverrunOldest)]]"
    by (simp add: no_terms_def is_term_def async_msg_bare_def log_msg_buffer.defs async_msg.defs)
  have "length (cq_list q2) = 1" using enqueue_nowait_list [OF wf1(1,2) q2] wf1 by simp
  moreover have f: "lp_q s3 = q2" "lp_popped s3 = []" "length (lp_pushed s3) = 2" by (simp_all add: s3_def s2_def s1_def s0' set_poster_def)
  ultimately have "subseq (cq_list (lp_q s3)) (pushed_msgs s3)" "overrun_counter (lp_q s3) = 1" "length (cq_list (lp_q s3)) \<le> 1"
    using async_queue_accounts [OF s0 _ nt r] by simp_all
  then show ?thesis unfolding pf using s0 r f(3) by blast
qed

end
