(* ===== verification/Log_Files.thy ===== *)
theory Log_Files
  imports Log_Logger
begin

text \<open>
  Log files: the file functions of \<^verbatim>\<open>os-inl.h\<close>, \<^verbatim>\<open>file_helper-inl.h\<close> and \<^verbatim>\<open>rotating_file_sink-inl.h\<close>. The
  record of a sink carries the file system it works on. Every system call that may fail asks the environment; an
  operation returns the state also when it throws, because loggers go on after an exception. The specification of
  a rotating sink (\<open>spec_put\<close>) works on the texts of the files alone; \<open>rotating_put_ok\<close> is the refinement. The
  event handlers of \<^verbatim>\<open>file_helper\<close> are not set.
\<close>

section \<open>The file system\<close>

text \<open>
  Contents of the regular files by name, the directories, and the number of system calls made so far. Paths that
  are spelled differently (other than by slashes at the end) count as different, and a directory with the name
  of a log file is not empty, so that it can be neither removed nor renamed over.
\<close>

record file_sys =
  fs_files :: "string \<rightharpoonup> string"
  fs_dirs :: "string set"
  fs_calls :: nat

text \<open>What the system decides: which calls fail, and how much of a stream stays in its buffer after a write.\<close>

record io_env =
  io_fault :: "nat \<Rightarrow> bool"
  io_keep :: "nat \<Rightarrow> nat"

definition tick :: "'a file_sys_scheme \<Rightarrow> 'a file_sys_scheme" where
  "tick s = s\<lparr>fs_calls := fs_calls s + 1\<rparr>"

definition faulty :: "io_env \<Rightarrow> 'a file_sys_scheme \<Rightarrow> bool" where
  "faulty io s = io_fault io (fs_calls s)"

definition slash :: char where
  "slash = CHR ''/''"

definition strip_slashes :: "string \<Rightarrow> string" where
  "strip_slashes p = rev (dropWhile (\<lambda>c. c = slash) (rev p))"

definition is_dir :: "string \<Rightarrow> 'a file_sys_scheme \<Rightarrow> bool" where
  "is_dir d s \<longleftrightarrow> d \<noteq> [] \<and> (strip_slashes d = [] \<or> strip_slashes d \<in> fs_dirs s)"

definition path_exists :: "string \<Rightarrow> 'a file_sys_scheme \<Rightarrow> bool" where
  "path_exists p s \<longleftrightarrow> fs_files s p \<noteq> None \<or> is_dir p s"

text \<open>\<open>find_last_of\<close> and \<open>find_first_of\<close>: the index of an occurrence, if there is one.\<close>

definition find_last :: "char \<Rightarrow> string \<Rightarrow> nat option" where
  "find_last c p = (if c \<in> set p then Some (length p - 1 - length (takeWhile (\<lambda>x. x \<noteq> c) (rev p))) else None)"

definition find_from :: "char \<Rightarrow> string \<Rightarrow> nat \<Rightarrow> nat option" where
  "find_from c p k = (if c \<in> set (drop k p) then Some (k + length (takeWhile (\<lambda>x. x \<noteq> c) (drop k p))) else None)"

definition dir_name :: "string \<Rightarrow> string" where
  "dir_name path = (case find_last slash path of Some pos \<Rightarrow> take pos path | None \<Rightarrow> [])"

text \<open>The directory a name lives in exists: the working directory and the root always do.\<close>

definition parent_ok :: "string \<Rightarrow> 'a file_sys_scheme \<Rightarrow> bool" where
  "parent_ok p s \<longleftrightarrow> (let d = dir_name (strip_slashes p) in d = [] \<or> is_dir d s)"

definition mkdir :: "io_env \<Rightarrow> string \<Rightarrow> 'a file_sys_scheme \<Rightarrow> bool \<times> 'a file_sys_scheme" where
  "mkdir io p s =
     (if faulty io s \<or> path_exists p s \<or> p = [] \<or> \<not> parent_ok p s then (False, tick s)
      else (True, (tick s)\<lparr>fs_dirs := insert (strip_slashes p) (fs_dirs s)\<rparr>))"

text \<open>Opening for appending (\<^verbatim>\<open>ab\<close>), or for writing after emptying the file (\<^verbatim>\<open>wb\<close>); True means opened.\<close>

definition fopen_s :: "io_env \<Rightarrow> bool \<Rightarrow> string \<Rightarrow> 'a file_sys_scheme \<Rightarrow> bool \<times> 'a file_sys_scheme" where
  "fopen_s io wb fname s =
     (if faulty io s \<or> fname = [] \<or> \<not> parent_ok fname s \<or> is_dir fname s then (False, tick s)
      else let c = (case fs_files s fname of Some c \<Rightarrow> if wb then [] else c | None \<Rightarrow> [])
        in (True, (tick s)\<lparr>fs_files := (fs_files s)(fname \<mapsto> c)\<rparr>))"

definition os_remove :: "io_env \<Rightarrow> string \<Rightarrow> 'a file_sys_scheme \<Rightarrow> bool \<times> 'a file_sys_scheme" where
  "os_remove io p s =
     (if faulty io s \<or> fs_files s p = None then (False, tick s) else (True, (tick s)\<lparr>fs_files := (fs_files s)(p := None)\<rparr>))"

definition remove_if_exists :: "io_env \<Rightarrow> string \<Rightarrow> 'a file_sys_scheme \<Rightarrow> bool \<times> 'a file_sys_scheme" where
  "remove_if_exists io p s = (if path_exists p s then os_remove io p s else (True, s))"

definition os_rename :: "io_env \<Rightarrow> string \<Rightarrow> string \<Rightarrow> 'a file_sys_scheme \<Rightarrow> bool \<times> 'a file_sys_scheme" where
  "os_rename io a b s =
     (case fs_files s a of
        None \<Rightarrow> (False, tick s)
      | Some c \<Rightarrow>
          if faulty io s \<or> \<not> parent_ok b s \<or> is_dir b s then (False, tick s)
          else (True, (tick s)\<lparr>fs_files := (fs_files s)(a := None, b \<mapsto> c)\<rparr>))"

lemma find_from_ge: "find_from c p k = Some j \<Longrightarrow> k \<le> j"
  by (auto simp: find_from_def split: if_splits)

text \<open>The loop of \<^verbatim>\<open>create_dir\<close> over the prefixes of the path.\<close>

function create_dirs :: "io_env \<Rightarrow> string \<Rightarrow> nat \<Rightarrow> 'a file_sys_scheme \<Rightarrow> bool \<times> 'a file_sys_scheme" where
  "create_dirs io path search_offset s =
     (let token_pos = (case find_from slash path search_offset of Some k \<Rightarrow> k | None \<Rightarrow> length path);
          subdir = take token_pos path;
          (ok, s) = (if subdir \<noteq> [] \<and> \<not> path_exists subdir s then mkdir io subdir s else (True, s))
      in if \<not> ok then (False, s)
         else if token_pos + 1 < length path then create_dirs io path (token_pos + 1) s else (True, s))"
  by pat_completeness auto

termination
  by (relation "measure (\<lambda>(io, path, k, s). length path - k)") (auto dest: find_from_ge split: option.splits)

declare create_dirs.simps [simp del]

definition create_dir :: "io_env \<Rightarrow> string \<Rightarrow> 'a file_sys_scheme \<Rightarrow> bool \<times> 'a file_sys_scheme" where
  "create_dir io path s =
     (if path_exists path s then (True, s) else if path = [] then (False, s) else create_dirs io path 0 s)"

section \<open>The file helper\<close>

text \<open>The open stream: the file's name and what is still in the stream's buffer.\<close>

record file_helper = file_sys +
  fd :: "(string \<times> string) option"
  fh_filename :: string

text \<open>
  An operation returns a value, or \<open>None\<close> when it throws \<^verbatim>\<open>spdlog_ex\<close>, and the state either way, because the
  callers go on after an exception; \<open>Ub\<close> is a use of a null stream.
\<close>

type_synonym ('a, 's) io = "('a option \<times> 's) outcome"

definition io_bind :: "('a, 's) io \<Rightarrow> ('a \<Rightarrow> 's \<Rightarrow> ('b, 's) io) \<Rightarrow> ('b, 's) io" where
  "io_bind m f = bind_outcome m (\<lambda>(r, s). case r of None \<Rightarrow> Ok (None, s) | Some x \<Rightarrow> f x s)"

abbreviation io_ret :: "'a \<Rightarrow> 's \<Rightarrow> ('a, 's) io" where
  "io_ret x s \<equiv> Ok (Some x, s)"

abbreviation io_throw :: "'s \<Rightarrow> ('a, 's) io" where
  "io_throw s \<equiv> Ok (None, s)"

text \<open>What reaches the file; nothing does when it has been removed under the open stream.\<close>

definition drain :: "string \<Rightarrow> string \<Rightarrow> 'a file_sys_scheme \<Rightarrow> 'a file_sys_scheme" where
  "drain fname tx s =
     (case fs_files s fname of None \<Rightarrow> s | Some c \<Rightarrow> s\<lparr>fs_files := (fs_files s)(fname \<mapsto> c @ tx)\<rparr>)"

definition file_close :: "io_env \<Rightarrow> 'a file_helper_scheme \<Rightarrow> 'a file_helper_scheme" where
  "file_close io s =
     (case fd s of None \<Rightarrow> s
      | Some (f, pending) \<Rightarrow> (tick (if faulty io s then s else drain f pending s))\<lparr>fd := None\<rparr>)"

text \<open>The loop of \<^verbatim>\<open>open\<close>, with the tries left.\<close>

fun open_tries :: "io_env \<Rightarrow> nat \<Rightarrow> string \<Rightarrow> bool \<Rightarrow> 'a file_helper_scheme \<Rightarrow> (unit, 'a file_helper_scheme) io" where
  "open_tries io 0 fname truncated s = io_throw s"
| "open_tries io (Suc n) fname truncated s =
     (let (made, s) = create_dir io (dir_name fname) s;
          (emptied, s) = (if truncated then fopen_s io True fname s else (True, s))
      in if \<not> emptied then open_tries io n fname truncated s
         else let (opened, s) = fopen_s io False fname s
           in if opened then io_ret () (s\<lparr>fd := Some (fname, [])\<rparr>) else open_tries io n fname truncated (s\<lparr>fd := None\<rparr>))"

definition file_open :: "io_env \<Rightarrow> string \<Rightarrow> bool \<Rightarrow> 'a file_helper_scheme \<Rightarrow> (unit, 'a file_helper_scheme) io" where
  "file_open io fname truncated s = open_tries io 5 fname truncated ((file_close io s)\<lparr>fh_filename := fname\<rparr>)"

definition file_reopen :: "io_env \<Rightarrow> bool \<Rightarrow> 'a file_helper_scheme \<Rightarrow> (unit, 'a file_helper_scheme) io" where
  "file_reopen io truncated s = (if fh_filename s = [] then io_throw s else file_open io (fh_filename s) truncated s)"

text \<open>\<^verbatim>\<open>fflush\<close> of a null stream flushes every open one and succeeds.\<close>

definition file_flush :: "io_env \<Rightarrow> 'a file_helper_scheme \<Rightarrow> (unit, 'a file_helper_scheme) io" where
  "file_flush io s =
     (case fd s of None \<Rightarrow> io_ret () (tick s)
      | Some (f, pending) \<Rightarrow>
          if faulty io s then io_throw (tick s) else io_ret () ((tick (drain f pending s))\<lparr>fd := Some (f, [])\<rparr>))"

definition file_write :: "io_env \<Rightarrow> string \<Rightarrow> 'a file_helper_scheme \<Rightarrow> (unit, 'a file_helper_scheme) io" where
  "file_write io buf s =
     (case fd s of None \<Rightarrow> Ub NullDeref
      | Some (f, pending) \<Rightarrow>
          if faulty io s then io_throw (tick s)
          else let all = pending @ buf; n = length all - io_keep io (fs_calls s)
            in io_ret () ((tick (drain f (take n all) s))\<lparr>fd := Some (f, drop n all)\<rparr>))"

definition file_size :: "io_env \<Rightarrow> 'a file_helper_scheme \<Rightarrow> (nat, 'a file_helper_scheme) io" where
  "file_size io s =
     (case fd s of None \<Rightarrow> io_throw s
      | Some (f, pending) \<Rightarrow>
          if faulty io s then io_throw (tick s)
          else io_ret (case fs_files s f of None \<Rightarrow> 0 | Some c \<Rightarrow> length c) (tick s))"

definition split_by_extension :: "string \<Rightarrow> string \<times> string" where
  "split_by_extension fname =
     (case find_last CHR ''.'' fname of
        None \<Rightarrow> (fname, [])
      | Some ext_index \<Rightarrow>
          if ext_index = 0 \<or> ext_index = length fname - 1 then (fname, [])
          else if (case find_last slash fname of None \<Rightarrow> False | Some folder_index \<Rightarrow> folder_index \<ge> ext_index - 1) then (fname, [])
          else (take ext_index fname, drop ext_index fname))"

section \<open>File names\<close>

lemma find_last_Some: "find_last c p = Some i \<longleftrightarrow> i < length p \<and> p ! i = c \<and> c \<notin> set (drop (Suc i) p)"
proof -
  have aux: "c \<in> set q \<Longrightarrow> length (takeWhile (\<lambda>x. x \<noteq> c) q) < length q \<and> q ! length (takeWhile (\<lambda>x. x \<noteq> c) q) = c" for q
    by (induction q) auto
  have tw: "c \<notin> set xs \<Longrightarrow> takeWhile (\<lambda>x. x \<noteq> c) (xs @ c # ys) = xs" for xs ys by (induction xs) auto
  have uniq: "i = length p - 1 - length (takeWhile (\<lambda>x. x \<noteq> c) (rev p))"
    if i: "i < length p" "p ! i = c" "c \<notin> set (drop (Suc i) p)" for i
  proof -
    have "p = take i p @ c # drop (Suc i) p" using i id_take_nth_drop by metis
    then have "rev p = rev (drop (Suc i) p) @ c # rev (take i p)" by (metis append.assoc append_Cons append_Nil rev.simps(2) rev_append)
    then have "takeWhile (\<lambda>x. x \<noteq> c) (rev p) = rev (drop (Suc i) p)" using i(3) tw [of "rev (drop (Suc i) p)"] by simp
    then show ?thesis using i(1) by simp
  qed
  have ex: "\<exists>i<length p. p ! i = c \<and> c \<notin> set (drop (Suc i) p)" if "c \<in> set p"
  proof -
    obtain ys zs where "p = ys @ c # zs" "c \<notin> set zs" using \<open>c \<in> set p\<close> by (metis split_list_last)
    then show ?thesis by (intro exI [of _ "length ys"]) (simp add: nth_append)
  qed
  show ?thesis
  proof
    assume "find_last c p = Some i"
    then have "c \<in> set p" "i = length p - 1 - length (takeWhile (\<lambda>x. x \<noteq> c) (rev p))" by (auto simp: find_last_def split: if_splits)
    then show "i < length p \<and> p ! i = c \<and> c \<notin> set (drop (Suc i) p)" using ex uniq by metis
  next
    assume i: "i < length p \<and> p ! i = c \<and> c \<notin> set (drop (Suc i) p)"
    then have "c \<in> set p" by (metis nth_mem)
    then show "find_last c p = Some i" using uniq i by (auto simp: find_last_def)
  qed
qed

lemma find_last_None: "find_last c p = None \<longleftrightarrow> c \<notin> set p"
  by (simp add: find_last_def)

text \<open>What an extension is: a last dot with something behind it and a name before it, all in the last folder.\<close>

definition has_extension :: "string \<Rightarrow> string \<Rightarrow> string \<Rightarrow> bool" where
  "has_extension fname base e \<longleftrightarrow> fname = base @ CHR ''.'' # e \<and> CHR ''.'' \<notin> set e \<and> slash \<notin> set e \<and> e \<noteq> [] \<and>
     base \<noteq> [] \<and> last base \<noteq> slash"

lemma slash_dot [simp]: "slash \<noteq> CHR ''.''" "CHR ''.'' \<noteq> slash"
  by (simp_all add: slash_def)

lemma split_by_extension_cases:
  "(\<exists>base e. has_extension fname base e \<and> split_by_extension fname = (base, CHR ''.'' # e)) \<or>
   (\<nexists>base e. has_extension fname base e) \<and> split_by_extension fname = (fname, [])"
proof (cases "find_last CHR ''.'' fname")
  case None
  then have "split_by_extension fname = (fname, [])" by (simp add: split_by_extension_def)
  moreover have "\<not> has_extension fname base e" for base e using None by (auto simp: has_extension_def find_last_None)
  ultimately show ?thesis by blast
next
  case (Some i)
  then have i: "i < length fname" "fname ! i = CHR ''.''" "CHR ''.'' \<notin> set (drop (Suc i) fname)" by (simp_all add: find_last_Some)
  have d: "fname = take i fname @ CHR ''.'' # drop (Suc i) fname" using i id_take_nth_drop by metis
  have u: "length base = i" if "has_extension fname base e" for base e
  proof -
    have "find_last CHR ''.'' fname = Some (length base)" using that by (simp add: has_extension_def find_last_Some)
    then show ?thesis using Some by simp
  qed
  have eq: "has_extension fname (take i fname) (drop (Suc i) fname)" if "has_extension fname base e" for base e
    using that u [OF that] by (auto simp: has_extension_def)
  let ?late = "case find_last slash fname of None \<Rightarrow> False | Some k \<Rightarrow> k \<ge> i - 1"
  have late: "\<not> ?late \<longleftrightarrow> slash \<notin> set (drop (i - 1) fname)"
  proof (cases "find_last slash fname")
    case None
    then have "slash \<notin> set (drop (i - 1) fname)" by (metis find_last_None in_set_dropD)
    then show ?thesis using None by simp
  next
    case (Some k)
    then have k: "k < length fname" "fname ! k = slash" "slash \<notin> set (drop (Suc k) fname)" by (simp_all add: find_last_Some)
    show ?thesis
    proof (cases "k \<ge> i - 1")
      case True
      have "drop (i - 1) fname ! (k - (i - 1)) = slash" "k - (i - 1) < length (drop (i - 1) fname)" using True k i(1) by auto
      then show ?thesis using True Some by (metis nth_mem option.simps(5))
    next
      case False
      then have "set (drop (i - 1) fname) \<subseteq> set (drop (Suc k) fname)" by (intro set_drop_subset_set_drop) simp
      then show ?thesis using False Some k(3) by auto
    qed
  qed
  show ?thesis
  proof (cases "i = 0 \<or> i = length fname - 1 \<or> ?late")
    case True
    have "\<not> has_extension fname base e" for base e
    proof
      assume h: "has_extension fname base e"
      then have h': "has_extension fname (take i fname) (drop (Suc i) fname)" by (rule eq)
      then have ii: "i \<noteq> 0" "i \<noteq> length fname - 1" using i(1) by (auto simp: has_extension_def)
      then have l: "slash \<in> set (drop (i - 1) fname)" using True late by auto
      have "drop (i - 1) fname = fname ! (i - 1) # fname ! i # drop (Suc i) fname" using ii i(1) by (metis Cons_nth_drop_Suc Suc_pred' gr0I less_imp_diff_less)
      moreover have "fname ! (i - 1) = last (take i fname)" using ii i(1) by (subst last_conv_nth) (auto simp: min_def)
      ultimately show False using h' l i(2) unfolding has_extension_def by (metis set_ConsD slash_dot(1))
    qed
    then show ?thesis using True Some by (auto simp: split_by_extension_def)
  next
    case False
    then have ii: "i \<noteq> 0" "i \<noteq> length fname - 1" "slash \<notin> set (drop (i - 1) fname)" using late by auto
    have c: "drop (i - 1) fname = fname ! (i - 1) # fname ! i # drop (Suc i) fname" using ii i(1) by (metis Cons_nth_drop_Suc Suc_pred' gr0I less_imp_diff_less)
    have "last (take i fname) = fname ! (i - 1)" using ii i(1) by (subst last_conv_nth) (auto simp: min_def)
    then have "has_extension fname (take i fname) (drop (Suc i) fname)"
      using c ii i d unfolding has_extension_def by auto
    moreover have "split_by_extension fname = (take i fname, drop i fname)" using False Some by (auto simp: split_by_extension_def split: option.splits)
    moreover have "drop i fname = CHR ''.'' # drop (Suc i) fname" using i by (metis Cons_nth_drop_Suc)
    ultimately show ?thesis by auto
  qed
qed

section \<open>The rotating file sink\<close>

record rotating_sink = file_helper +
  base_filename :: string
  max_size :: nat
  max_files :: nat
  current_size :: nat
  rs_formatter :: pattern_formatter

definition calc_filename :: "string \<Rightarrow> nat \<Rightarrow> string" where
  "calc_filename fname index =
     (if index = 0 then fname
      else let (basename, ext) = split_by_extension fname in basename @ ''.'' @ decimal index @ ext)"

text \<open>Removing the target may fail; the result is that of the renaming.\<close>

definition rename_file :: "io_env \<Rightarrow> string \<Rightarrow> string \<Rightarrow> 'a file_sys_scheme \<Rightarrow> bool \<times> 'a file_sys_scheme" where
  "rename_file io src target s = os_rename io src target (snd (os_remove io target s))"

fun rotate_loop :: "io_env \<Rightarrow> nat \<Rightarrow> rotating_sink \<Rightarrow> (unit, rotating_sink) io" where
  "rotate_loop io 0 s = io_ret () s"
| "rotate_loop io (Suc k) s =
     (let src = calc_filename (base_filename s) k; target = calc_filename (base_filename s) (Suc k) in
      if \<not> path_exists src s then rotate_loop io k s
      else let (ok, s) = rename_file io src target s
        in if ok then rotate_loop io k s
           else let (ok, s) = rename_file io src target s
             in if ok then rotate_loop io k s
                else io_bind (file_reopen io True s) (\<lambda>_ s. io_throw (s\<lparr>current_size := 0\<rparr>)))"

definition rotate :: "io_env \<Rightarrow> rotating_sink \<Rightarrow> (unit, rotating_sink) io" where
  "rotate io s = io_bind (rotate_loop io (max_files s) (file_close io s)) (\<lambda>_ s. file_reopen io True s)"

definition rotating_new :: "io_env \<Rightarrow> string \<Rightarrow> nat \<Rightarrow> nat \<Rightarrow> bool \<Rightarrow> pattern_formatter \<Rightarrow> file_sys \<Rightarrow> (unit, rotating_sink) io" where
  "rotating_new io base m_size m_files rotate_on_open pf sys =
     (let s = \<lparr>fs_files = fs_files sys, fs_dirs = fs_dirs sys, fs_calls = fs_calls sys, fd = None, fh_filename = [],
               base_filename = base, max_size = m_size, max_files = m_files, current_size = 0, rs_formatter = pf\<rparr>
      in if m_size = 0 \<or> m_files > 200000 then io_throw s
         else io_bind (file_open io (calc_filename base 0) False s) (\<lambda>_ s.
              io_bind (file_size io s) (\<lambda>n s.
              let s = s\<lparr>current_size := n\<rparr>
              in if rotate_on_open \<and> n > 0 then io_bind (rotate io s) (\<lambda>_ s. io_ret () (s\<lparr>current_size := 0\<rparr>)) else io_ret () s)))"

text \<open>\<^verbatim>\<open>sink_it_\<close> after formatting; sizes are 64-bit numbers.\<close>

definition rotating_put :: "io_env \<Rightarrow> string \<Rightarrow> rotating_sink \<Rightarrow> (unit, rotating_sink) io" where
  "rotating_put io formatted s =
     (let new_size = (current_size s + length formatted) mod 2 ^ 64 in
      io_bind
        (if new_size > max_size s then
           io_bind (file_flush io s) (\<lambda>_ s.
           io_bind (file_size io s) (\<lambda>n s.
             if n > 0 then io_bind (rotate io s) (\<lambda>_ s. io_ret (length formatted) s) else io_ret new_size s))
         else io_ret new_size s)
        (\<lambda>new_size s. io_bind (file_write io formatted s) (\<lambda>_ s. io_ret () (s\<lparr>current_size := new_size\<rparr>))))"

definition rotating_sink_it :: "log_env \<Rightarrow> io_env \<Rightarrow> log_msg \<Rightarrow> rotating_sink \<Rightarrow> (unit, rotating_sink) io" where
  "rotating_sink_it env io msg s =
     bind_outcome (format_msg env (rs_formatter s) msg []) (\<lambda>(pf, msg, formatted).
       rotating_put io formatted (s\<lparr>rs_formatter := pf\<rparr>))"

definition rotating_flush :: "io_env \<Rightarrow> rotating_sink \<Rightarrow> (unit, rotating_sink) io" where
  "rotating_flush io s = file_flush io s"

text \<open>Messages one after the other; an exception goes to the logger's error handler and the next message follows.\<close>

fun rotating_all :: "log_env \<Rightarrow> io_env \<Rightarrow> log_msg list \<Rightarrow> rotating_sink \<Rightarrow> rotating_sink outcome" where
  "rotating_all env io [] s = Ok s"
| "rotating_all env io (m # ms) s = bind_outcome (rotating_sink_it env io m s) (\<lambda>(r, s). rotating_all env io ms s)"

section \<open>The names of the files\<close>

lemma find_last_append: "c \<notin> set q \<Longrightarrow> find_last c (p @ q) = find_last c p"
proof (cases "find_last c p")
  case (Some i)
  assume "c \<notin> set q"
  then show ?thesis using Some find_last_Some [of c p i] find_last_Some [of c "p @ q" i] by (simp add: nth_append)
next
  case None
  assume "c \<notin> set q"
  then have "c \<notin> set (p @ q)" using None by (simp add: find_last_None)
  then show ?thesis using None by (simp add: find_last_def)
qed

lemma dir_name_append: "slash \<notin> set q \<Longrightarrow> dir_name (p @ q) = dir_name p"
proof (cases "find_last slash p")
  case (Some i)
  assume "slash \<notin> set q"
  moreover have "i < length p" using Some by (simp add: find_last_Some)
  ultimately show ?thesis using Some by (simp add: dir_name_def find_last_append)
qed (simp add: dir_name_def find_last_append)

lemma strip_slashes_id: "p \<noteq> [] \<Longrightarrow> last p \<noteq> slash \<Longrightarrow> strip_slashes p = p"
  by (cases p rule: rev_cases) (simp_all add: strip_slashes_def)

lemma of_char_digit: "k < 10 \<Longrightarrow> of_char (digit_char k) = 48 + k"
  by (simp add: digit_char_def)

lemma digit_char_inj: "j < 10 \<Longrightarrow> k < 10 \<Longrightarrow> digit_char j = digit_char k \<Longrightarrow> j = k"
  by (metis add_left_imp_eq of_char_digit)

lemma decimal_digits: "c \<in> set (decimal n) \<Longrightarrow> c \<noteq> slash \<and> c \<noteq> CHR ''.''"
proof (induction n rule: less_induct)
  case (less n)
  have d: "digit_char k \<noteq> slash \<and> digit_char k \<noteq> CHR ''.''" if "k < 10" for k
    using of_char_digit [OF that] by (auto simp: slash_def)
  show ?case
  proof (cases "n < 10")
    case True
    then show ?thesis using d less.prems by (auto simp: decimal_small)
  next
    case False
    then show ?thesis using d [of "n mod 10"] less.IH [of "n div 10"] less.prems by (auto simp: decimal_step)
  qed
qed

lemma decimal_inj: "decimal m = decimal n \<Longrightarrow> m = n"
proof (induction m arbitrary: n rule: less_induct)
  case (less m)
  consider "m < 10" "n < 10" | "m < 10" "10 \<le> n" | "10 \<le> m" "n < 10" | (big) "10 \<le> m" "10 \<le> n" by linarith
  then show ?case
  proof cases
    case big
    then have "decimal (m div 10) = decimal (n div 10)" "digit_char (m mod 10) = digit_char (n mod 10)"
      using less.prems by (simp_all add: decimal_step)
    then have "m div 10 = n div 10" "m mod 10 = n mod 10" using less.IH [of "m div 10"] big digit_char_inj by auto
    then show ?thesis by (metis mult_div_mod_eq)
  qed (use less.prems digit_char_inj length_decimal_pos [of "m div 10"] length_decimal_pos [of "n div 10"] in \<open>auto simp: decimal_small decimal_step\<close>)
qed

lemma calc_filename_shape:
  assumes "fname \<noteq> []" "last fname \<noteq> slash"
  shows "dir_name (calc_filename fname i) = dir_name fname" "calc_filename fname i \<noteq> []" "last (calc_filename fname i) \<noteq> slash"
proof -
  have dec: "slash \<notin> set (decimal i)" "decimal i \<noteq> []" using decimal_digits length_decimal_pos [of i] by auto
  then have ld: "last (decimal i) \<noteq> slash" by (metis last_in_set)
  from split_by_extension_cases [of fname] consider
    (ext) b e where "has_extension fname b e" "split_by_extension fname = (b, CHR ''.'' # e)" | (none) "split_by_extension fname = (fname, [])" by blast
  then have "dir_name (calc_filename fname i) = dir_name fname \<and> calc_filename fname i \<noteq> [] \<and> last (calc_filename fname i) \<noteq> slash"
  proof cases
    case (ext b e)
    then have e: "fname = b @ CHR ''.'' # e" "slash \<notin> set e" "e \<noteq> []" by (simp_all add: has_extension_def)
    have "dir_name (b @ ''.'' @ decimal i @ CHR ''.'' # e) = dir_name b" "dir_name fname = dir_name b"
      using e dec by (simp_all add: dir_name_append)
    moreover have "last e \<noteq> slash" using e by (metis last_in_set)
    ultimately show ?thesis using assms ext e by (simp add: calc_filename_def)
  next
    case none
    have "dir_name (fname @ ''.'' @ decimal i) = dir_name fname" using dec by (simp add: dir_name_append)
    then show ?thesis using assms none dec ld by (simp add: calc_filename_def)
  qed
  then show "dir_name (calc_filename fname i) = dir_name fname" "calc_filename fname i \<noteq> []" "last (calc_filename fname i) \<noteq> slash" by auto
qed

lemma calc_filename_inj: "calc_filename fname i = calc_filename fname j \<longleftrightarrow> i = j"
proof
  assume eq: "calc_filename fname i = calc_filename fname j"
  obtain b e where sp: "split_by_extension fname = (b, e)" by (metis surj_pair)
  have f: "fname = b @ e" using split_by_extension_cases [of fname] sp by (auto simp: has_extension_def)
  have len: "length (calc_filename fname k) = length fname + (if k = 0 then 0 else 1 + length (decimal k))" for k
    using sp f by (simp add: calc_filename_def)
  show "i = j"
  proof (cases "i = 0 \<or> j = 0")
    case True
    then show ?thesis using arg_cong [OF eq, of length] unfolding len by (cases "i = 0"; cases "j = 0") simp_all
  next
    case False
    then have "decimal i = decimal j" using eq sp by (simp add: calc_filename_def)
    then show ?thesis by (rule decimal_inj)
  qed
qed simp

section \<open>Rotation\<close>

text \<open>Files that can be created: a proper name in an existing directory, not the name of a directory.\<close>

definition file_ok :: "string \<Rightarrow> 'a file_sys_scheme \<Rightarrow> bool" where
  "file_ok p s \<longleftrightarrow> p \<noteq> [] \<and> last p \<noteq> slash \<and> parent_ok p s \<and> \<not> is_dir p s"

definition faultless :: "io_env \<Rightarrow> bool" where
  "faultless io \<longleftrightarrow> (\<forall>n. \<not> io_fault io n)"

lemma faultless_not [simp]: "faultless io \<Longrightarrow> \<not> faulty io s"
  by (simp add: faultless_def faulty_def)

lemma tick_simps [simp]: "fs_files (tick s) = fs_files s" "fs_dirs (tick s) = fs_dirs s" "is_dir p (tick s) = is_dir p s" "parent_ok p (tick s) = parent_ok p s"
  by (simp_all add: tick_def is_dir_def parent_ok_def Let_def)

lemma tick_fields [simp]: "fd (tick s) = fd s" "fh_filename (tick s) = fh_filename s"
  "base_filename (tick t) = base_filename t" "max_files (tick t) = max_files t" "max_size (tick t) = max_size t" "current_size (tick t) = current_size t"
  "rs_formatter (tick t) = rs_formatter t"
  by (simp_all add: tick_def)

lemma dirs_only: "fs_dirs s' = fs_dirs s \<Longrightarrow> is_dir p s' = is_dir p s" "fs_dirs s' = fs_dirs s \<Longrightarrow> parent_ok p s' = parent_ok p s"
  by (simp_all add: is_dir_def parent_ok_def Let_def)

lemma file_ok_dirs: "fs_dirs s' = fs_dirs s \<Longrightarrow> file_ok p s' = file_ok p s"
  by (simp add: file_ok_def is_dir_def parent_ok_def Let_def)

lemma create_parent: "file_ok p s \<Longrightarrow> snd (create_dir io (dir_name p) s) = s"
  by (auto simp: file_ok_def parent_ok_def create_dir_def path_exists_def strip_slashes_id Let_def)

lemma fopen_ok:
  assumes "faultless io" "file_ok p s"
  shows "fopen_s io wb p s = (True, (tick s)\<lparr>fs_files := (fs_files s)(p \<mapsto> case fs_files s p of Some c \<Rightarrow> if wb then [] else c | None \<Rightarrow> [])\<rparr>)"
  using assms by (simp add: fopen_s_def file_ok_def Let_def)

lemma file_open_ok:
  assumes "faultless io" "file_ok p s" "fd s = None"
  shows "\<exists>n. file_open io p t s = io_ret () (s\<lparr>fs_files := (fs_files s)(p \<mapsto> case fs_files s p of Some c \<Rightarrow> if t then [] else c | None \<Rightarrow> []),
    fs_calls := n, fd := Some (p, []), fh_filename := p\<rparr>)"
proof -
  let ?s = "s\<lparr>fh_filename := p\<rparr>"
  have ok: "file_ok p ?s" using assms(2) by (subst file_ok_dirs [of _ s]) simp_all
  obtain made where cd: "create_dir io (dir_name p) ?s = (made, ?s)" using create_parent [OF ok, of io] by (metis prod.collapse)
  have o: "file_open io p t s = open_tries io (Suc 4) p t ?s"
    unfolding file_open_def file_close_def assms(3) option.case by (simp only: eval_nat_numeral)
  define c where "c = (case fs_files s p of Some c \<Rightarrow> c | None \<Rightarrow> [])"
  define s1 where "s1 = (tick ?s)\<lparr>fs_files := (fs_files s)(p \<mapsto> [])\<rparr>"
  have ok1: "file_ok p s1" using ok unfolding s1_def by (subst file_ok_dirs [of _ ?s]) simp_all
  have w: "fopen_s io True p ?s = (True, s1)" using fopen_ok [OF assms(1) ok, of True] by (simp add: s1_def split: option.splits)
  have a: "fopen_s io False p s1 = (True, (tick s1)\<lparr>fs_files := (fs_files s)(p \<mapsto> [])\<rparr>)"
    using fopen_ok [OF assms(1) ok1, of False] by (simp add: s1_def)
  have a0: "fopen_s io False p ?s = (True, (tick ?s)\<lparr>fs_files := (fs_files s)(p \<mapsto> c)\<rparr>)"
    using fopen_ok [OF assms(1) ok, of False] by (simp add: c_def split: option.splits)
  have c: "(case fs_files s p of Some c \<Rightarrow> if t then [] else c | None \<Rightarrow> []) = (if t then [] else c)" by (simp add: c_def split: option.split)
  show ?thesis
  proof (cases t)
    case True
    then show ?thesis unfolding o open_tries.simps c using cd w a
      by (intro exI [of _ "fs_calls s + 2"]) (simp add: s1_def tick_def)
  next
    case False
    then show ?thesis unfolding o open_tries.simps c using cd a0
      by (intro exI [of _ "fs_calls s + 1"]) (simp add: tick_def)
  qed
qed

text \<open>What the loop does to the sequence of files.\<close>

primrec shift :: "nat \<Rightarrow> (nat \<Rightarrow> string option) \<Rightarrow> nat \<Rightarrow> string option" where
  "shift 0 f = f"
| "shift (Suc k) f = shift k (case f k of None \<Rightarrow> f | Some c \<Rightarrow> f(k := None, Suc k := Some c))"

lemma shift_above: "n < i \<Longrightarrow> shift n f i = f i"
  by (induction n arbitrary: f) (auto split: option.split)

lemma shift_closed:
  "shift n f i = (if n < i then f i else if i = n then (if n = 0 \<or> f (n - 1) = None then f n else f (n - 1)) else if i = 0 then None else f (i - 1))"
proof (induction n arbitrary: f)
  case (Suc n)
  show ?case unfolding shift.simps Suc.IH by (cases "f n") (auto split: if_splits)
qed simp

text \<open>The sink's files, newest first, and everything else.\<close>

abbreviation files_of :: "string \<Rightarrow> 'a file_sys_scheme \<Rightarrow> nat \<Rightarrow> string option" where
  "files_of base s i \<equiv> fs_files s (calc_filename base i)"

definition other_files :: "string \<Rightarrow> 'a file_sys_scheme \<Rightarrow> 'b file_sys_scheme \<Rightarrow> bool" where
  "other_files base s s' \<longleftrightarrow> (\<forall>p. p \<notin> range (calc_filename base) \<longrightarrow> fs_files s' p = fs_files s p) \<and> fs_dirs s' = fs_dirs s"

definition names_ok :: "string \<Rightarrow> 'a file_sys_scheme \<Rightarrow> bool" where
  "names_ok base s \<longleftrightarrow> (\<forall>i. file_ok (calc_filename base i) s)"

lemma names_ok_dirs: "fs_dirs s' = fs_dirs s \<Longrightarrow> names_ok base s' = names_ok base s"
  by (simp add: names_ok_def file_ok_def is_dir_def parent_ok_def Let_def)

lemma rename_file_ok:
  assumes "faultless io" "file_ok b s" "fs_files s a = Some c" "a \<noteq> b"
  shows "\<exists>n. rename_file io a b s = (True, s\<lparr>fs_files := (fs_files s)(a := None, b \<mapsto> c), fs_calls := n\<rparr>)"
proof -
  have d: "\<not> is_dir b s" "parent_ok b s" using assms(2) by (simp_all add: file_ok_def)
  show ?thesis
  proof (cases "fs_files s b")
    case None
    then show ?thesis using assms d by (intro exI [of _ "fs_calls s + 2"]) (simp add: rename_file_def os_remove_def os_rename_def, simp add: tick_def)
  next
    case (Some x)
    let ?s = "(tick s)\<lparr>fs_files := (fs_files s)(b := None)\<rparr>"
    have r: "os_remove io b s = (True, ?s)" using Some assms(1) by (simp add: os_remove_def)
    have "is_dir b ?s = is_dir b s" "parent_ok b ?s = parent_ok b s" by (simp_all add: is_dir_def parent_ok_def Let_def)
    then have "os_rename io a b ?s = (True, (tick ?s)\<lparr>fs_files := (fs_files s)(a := None, b \<mapsto> c)\<rparr>)"
      using assms d by (simp add: os_rename_def fun_upd_twist)
    then show ?thesis using r by (intro exI [of _ "fs_calls s + 2"]) (simp add: rename_file_def tick_def)
  qed
qed

lemma rotate_loop_ok:
  assumes "faultless io" "names_ok (base_filename s) s"
  shows "\<exists>F n. rotate_loop io k s = io_ret () (s\<lparr>fs_files := F, fs_calls := n\<rparr>) \<and>
    (\<forall>i. F (calc_filename (base_filename s) i) = shift k (files_of (base_filename s) s) i) \<and>
    (\<forall>p. p \<notin> range (calc_filename (base_filename s)) \<longrightarrow> F p = fs_files s p)"
  using assms
proof (induction k arbitrary: s)
  case 0
  show ?case by (intro exI [of _ "fs_files s"] exI [of _ "fs_calls s"]) simp
next
  case (Suc k)
  let ?b = "base_filename s"
  have ok: "file_ok (calc_filename ?b k) s" "file_ok (calc_filename ?b (Suc k)) s" using Suc.prems(2) by (simp_all add: names_ok_def)
  have ne: "calc_filename ?b k \<noteq> calc_filename ?b (Suc k)" by (simp add: calc_filename_inj)
  show ?case
  proof (cases "fs_files s (calc_filename ?b k)")
    case None
    then have "\<not> path_exists (calc_filename ?b k) s" using ok by (simp add: path_exists_def file_ok_def)
    then show ?thesis using Suc.IH [OF Suc.prems] None by simp
  next
    case (Some c)
    then have ex: "path_exists (calc_filename ?b k) s" by (simp add: path_exists_def)
    obtain n where n: "rename_file io (calc_filename ?b k) (calc_filename ?b (Suc k)) s =
        (True, s\<lparr>fs_files := (fs_files s)(calc_filename ?b k := None, calc_filename ?b (Suc k) \<mapsto> c), fs_calls := n\<rparr>)"
      using rename_file_ok [OF Suc.prems(1) ok(2) Some ne] by blast
    let ?s = "s\<lparr>fs_files := (fs_files s)(calc_filename ?b k := None, calc_filename ?b (Suc k) \<mapsto> c), fs_calls := n\<rparr>"
    have v: "files_of ?b ?s = (files_of ?b s)(k := None, Suc k := Some c)"
      by (rule ext) (simp add: calc_filename_inj)
    have nk: "names_ok (base_filename ?s) ?s" using Suc.prems(2) by (subst names_ok_dirs [of _ s]) simp_all
    obtain F m where F: "rotate_loop io k ?s = io_ret () (?s\<lparr>fs_files := F, fs_calls := m\<rparr>)"
      "\<forall>i. F (calc_filename ?b i) = shift k (files_of ?b ?s) i" "\<forall>p. p \<notin> range (calc_filename ?b) \<longrightarrow> F p = fs_files ?s p"
      using Suc.IH [OF Suc.prems(1) nk] by auto
    have "rotate_loop io (Suc k) s = io_ret () (s\<lparr>fs_files := F, fs_calls := m\<rparr>)" using ex n F(1) by simp
    moreover have "F (calc_filename ?b i) = shift (Suc k) (files_of ?b s) i" for i using F(2) unfolding v using Some by simp
    moreover have "F p = fs_files s p" if "p \<notin> range (calc_filename ?b)" for p using F(3) that by auto
    ultimately show ?thesis by blast
  qed
qed

text \<open>The state between two messages when nothing has failed.\<close>

definition rot_ok :: "rotating_sink \<Rightarrow> bool" where
  "rot_ok s \<longleftrightarrow> names_ok (base_filename s) s \<and> fh_filename s = base_filename s \<and>
     (\<exists>c pending. fd s = Some (base_filename s, pending) \<and> fs_files s (base_filename s) = Some c \<and>
        current_size s = length (c @ pending))"

text \<open>The text of the current file, what the stream has not passed on included, and the older files.\<close>

definition rot_abs :: "rotating_sink \<Rightarrow> string \<times> (nat \<Rightarrow> string option)" where
  "rot_abs s =
     ((case fs_files s (base_filename s) of Some c \<Rightarrow> c | None \<Rightarrow> []) @ (case fd s of Some (f, pending) \<Rightarrow> pending | None \<Rightarrow> []),
      (files_of (base_filename s) s)(0 := None))"

definition spec_rotate :: "nat \<Rightarrow> string \<times> (nat \<Rightarrow> string option) \<Rightarrow> string \<times> (nat \<Rightarrow> string option)" where
  "spec_rotate n = (\<lambda>(cur, old). ([], (shift n (old(0 := Some cur)))(0 := None)))"

definition spec_put :: "nat \<Rightarrow> nat \<Rightarrow> string \<Rightarrow> string \<times> (nat \<Rightarrow> string option) \<Rightarrow> string \<times> (nat \<Rightarrow> string option)" where
  "spec_put limit n tx x =
     (let (cur, old) = (if fst x \<noteq> [] \<and> limit < length (fst x) + length tx then spec_rotate n x else x) in (cur @ tx, old))"

lemma calc_zero [simp]: "calc_filename b 0 = b"
  by (simp add: calc_filename_def)

lemma rotate_ok:
  assumes "faultless io" "names_ok (base_filename s) s" "fh_filename s = base_filename s" "fd s = Some (base_filename s, [])"
    and "fs_files s (base_filename s) = Some c"
  shows "\<exists>F n. rotate io s = io_ret () (s\<lparr>fs_files := F, fs_calls := n, fd := Some (base_filename s, [])\<rparr>) \<and>
    F (base_filename s) = Some [] \<and> (\<lambda>i. F (calc_filename (base_filename s) i))(0 := None) = snd (spec_rotate (max_files s) (c, (files_of (base_filename s) s)(0 := None))) \<and>
    (\<forall>p. p \<notin> range (calc_filename (base_filename s)) \<longrightarrow> F p = fs_files s p)"
proof -
  let ?b = "base_filename s"
  let ?s = "s\<lparr>fs_calls := Suc (fs_calls s), fd := None\<rparr>"
  have cl: "file_close io s = ?s" using assms by (simp add: file_close_def drain_def) (simp add: tick_def fun_upd_idem)
  have nk: "names_ok (base_filename ?s) ?s" using assms(2) by (subst names_ok_dirs [of _ s]) simp_all
  obtain F n where F: "rotate_loop io (max_files s) ?s = io_ret () (?s\<lparr>fs_files := F, fs_calls := n\<rparr>)"
    "\<forall>i. F (calc_filename ?b i) = shift (max_files s) (files_of ?b s) i" "\<forall>p. p \<notin> range (calc_filename ?b) \<longrightarrow> F p = fs_files s p"
    using rotate_loop_ok [OF assms(1) nk, of "max_files s"] by auto
  let ?s1 = "?s\<lparr>fs_files := F, fs_calls := n\<rparr>"
  have ok1: "file_ok ?b ?s1"
  proof -
    have "file_ok (calc_filename ?b 0) s" using assms(2) unfolding names_ok_def by blast
    then show ?thesis by (subst file_ok_dirs [of _ s]) simp_all
  qed
  obtain m where m: "file_open io ?b True ?s1 = io_ret () (?s1\<lparr>fs_files := F(?b \<mapsto> []), fs_calls := m, fd := Some (?b, []), fh_filename := ?b\<rparr>)"
    using file_open_ok [OF assms(1) ok1, of True] by (auto split: option.splits)
  have ne: "?b \<noteq> []" using ok1 by (simp add: file_ok_def)
  have r: "rotate io s = io_ret () (s\<lparr>fs_files := F(?b \<mapsto> []), fs_calls := m, fd := Some (?b, [])\<rparr>)"
  proof -
    have "rotate io s = file_open io ?b True ?s1" using ne assms(3) by (simp add: rotate_def cl F(1) io_bind_def file_reopen_def)
    also have "\<dots> = io_ret () (s\<lparr>fs_files := F(?b \<mapsto> []), fs_calls := m, fd := Some (?b, [])\<rparr>)"
      unfolding m using assms(3) by simp
    finally show ?thesis .
  qed
  have old: "((files_of ?b s)(0 := None))(0 := Some c) = files_of ?b s" using assms(5) by (auto simp: fun_eq_iff)
  have "(\<lambda>i. (F(?b \<mapsto> [])) (calc_filename ?b i))(0 := None) = snd (spec_rotate (max_files s) (c, (files_of ?b s)(0 := None)))"
    unfolding spec_rotate_def split snd_conv old using F(2) calc_filename_inj [of ?b _ 0] by (auto simp: fun_eq_iff)
  moreover have "(F(?b \<mapsto> [])) p = fs_files s p" if "p \<notin> range (calc_filename ?b)" for p
    using F(3) that by (metis calc_zero fun_upd_other rangeI)
  ultimately show ?thesis using r by (intro exI [of _ "F(?b \<mapsto> [])"] exI [of _ m]) simp
qed

lemma file_write_ok:
  assumes "faultless io" "fd s = Some (f, pending)" "fs_files s f = Some c"
  shows "\<exists>c' pending' n. file_write io tx s = io_ret () (s\<lparr>fs_files := (fs_files s)(f \<mapsto> c'), fs_calls := n, fd := Some (f, pending')\<rparr>) \<and>
    c' @ pending' = c @ pending @ tx"
proof -
  let ?all = "pending @ tx" and ?n = "length (pending @ tx) - io_keep io (fs_calls s)"
  have "file_write io tx s = io_ret () (s\<lparr>fs_files := (fs_files s)(f \<mapsto> c @ take ?n ?all), fs_calls := Suc (fs_calls s), fd := Some (f, drop ?n ?all)\<rparr>)"
    using assms by (simp add: file_write_def drain_def Let_def tick_def)
  moreover have "(c @ take ?n ?all) @ drop ?n ?all = c @ pending @ tx" by (metis append.assoc append_take_drop_id)
  ultimately show ?thesis by blast
qed

lemma file_flush_ok:
  assumes "faultless io" "fd s = Some (f, pending)" "fs_files s f = Some c"
  shows "file_flush io s = io_ret () (s\<lparr>fs_files := (fs_files s)(f \<mapsto> c @ pending), fs_calls := Suc (fs_calls s), fd := Some (f, [])\<rparr>)"
  using assms by (simp add: file_flush_def drain_def tick_def)

text \<open>The second half of \<open>rotating_put\<close>: the line is written and the size recorded.\<close>

lemma rot_write_ok:
  assumes "faultless io" "names_ok (base_filename s) s" "fh_filename s = base_filename s"
    and "fd s = Some (base_filename s, pending)" "fs_files s (base_filename s) = Some c" "n = length (c @ pending @ tx)"
  shows "\<exists>s'. io_bind (file_write io tx s) (\<lambda>_ s. io_ret () (s\<lparr>current_size := n\<rparr>)) = io_ret () s' \<and> rot_ok s' \<and>
    rot_abs s' = (fst (rot_abs s) @ tx, snd (rot_abs s)) \<and> base_filename s' = base_filename s \<and> max_size s' = max_size s \<and> max_files s' = max_files s \<and>
    rs_formatter s' = rs_formatter s \<and> other_files (base_filename s) s s'"
proof -
  let ?b = "base_filename s"
  obtain c' pending' k where w: "file_write io tx s = io_ret () (s\<lparr>fs_files := (fs_files s)(?b \<mapsto> c'), fs_calls := k, fd := Some (?b, pending')\<rparr>)"
    "c' @ pending' = c @ pending @ tx"
    using file_write_ok [OF assms(1,4,5)] by blast
  let ?s = "s\<lparr>fs_files := (fs_files s)(?b \<mapsto> c'), fs_calls := k, fd := Some (?b, pending'), current_size := n\<rparr>"
  have nk: "names_ok ?b ?s" using assms(2) by (subst names_ok_dirs [of _ s]) simp_all
  have len: "length (c' @ pending') = n" using w(2) assms(6) by simp
  have "rot_ok ?s" using nk assms(3) len by (simp add: rot_ok_def)
  moreover have "(files_of ?b ?s)(0 := None) = (files_of ?b s)(0 := None)"
    using calc_filename_inj [of ?b _ 0] by (auto simp: fun_eq_iff)
  then have "rot_abs ?s = (fst (rot_abs s) @ tx, snd (rot_abs s))" using w(2) assms(4,5) by (simp add: rot_abs_def)
  moreover have "other_files ?b s ?s" by (auto simp: other_files_def) (metis calc_zero rangeI)
  ultimately show ?thesis using w(1) by (intro exI [of _ ?s]) (simp add: io_bind_def)
qed

lemma rotating_put_ok:
  assumes io: "faultless io" and s: "rot_ok s" and small: "current_size s + length tx < 2 ^ 64"
  shows "\<exists>s'. rotating_put io tx s = io_ret () s' \<and> rot_ok s' \<and> rot_abs s' = spec_put (max_size s) (max_files s) tx (rot_abs s) \<and>
    base_filename s' = base_filename s \<and> max_size s' = max_size s \<and> max_files s' = max_files s \<and> rs_formatter s' = rs_formatter s \<and>
    other_files (base_filename s) s s'"
proof -
  let ?b = "base_filename s"
  obtain c pending where a: "names_ok ?b s" "fh_filename s = ?b" "fd s = Some (?b, pending)" "fs_files s ?b = Some c" "current_size s = length (c @ pending)"
    using s by (auto simp: rot_ok_def)
  have abs: "rot_abs s = (c @ pending, (files_of ?b s)(0 := None))" using a by (simp add: rot_abs_def)
  have sz: "(current_size s + length tx) mod 2 ^ 64 = length (c @ pending @ tx)" using small a(5) by simp
  let ?n = "length (c @ pending @ tx)"
  show ?thesis
  proof (cases "max_size s < ?n")
    case False
    then have "rotating_put io tx s = io_bind (file_write io tx s) (\<lambda>_ s. io_ret () (s\<lparr>current_size := ?n\<rparr>))"
      unfolding rotating_put_def sz Let_def by (simp add: io_bind_def)
    moreover have "spec_put (max_size s) (max_files s) tx (rot_abs s) = (fst (rot_abs s) @ tx, snd (rot_abs s))"
      using False abs by (simp add: spec_put_def)
    ultimately show ?thesis using rot_write_ok [OF io a(1-4), of ?n tx] by simp
  next
    case True
    let ?s1 = "s\<lparr>fs_files := (fs_files s)(?b \<mapsto> c @ pending), fd := Some (?b, []), fs_calls := Suc (Suc (fs_calls s))\<rparr>"
    have fl: "io_bind (file_flush io s) (\<lambda>_ s. io_bind (file_size io s) g) = g (length (c @ pending)) ?s1" for g :: "nat \<Rightarrow> rotating_sink \<Rightarrow> (nat, rotating_sink) io"
      using file_flush_ok [OF io a(3,4)] io by (simp add: io_bind_def file_size_def tick_def)
    have n1: "names_ok (base_filename ?s1) ?s1" using a(1) by (subst names_ok_dirs [of _ s]) simp_all
    have o1: "other_files ?b s ?s1" by (auto simp: other_files_def) (metis calc_zero rangeI)
    have v1: "(files_of ?b ?s1)(0 := None) = (files_of ?b s)(0 := None)" using calc_filename_inj [of ?b _ 0] by (auto simp: fun_eq_iff)
    have put: "rotating_put io tx s = io_bind
        (if length (c @ pending) > 0 then io_bind (rotate io ?s1) (\<lambda>_ s. io_ret (length tx) s) else io_ret ?n ?s1)
        (\<lambda>n s. io_bind (file_write io tx s) (\<lambda>_ s. io_ret () (s\<lparr>current_size := n\<rparr>)))"
      unfolding rotating_put_def sz Let_def if_P [OF True] fl ..
    show ?thesis
    proof (cases "c @ pending = []")
      case empty: True
      then have "rotating_put io tx s = io_bind (file_write io tx ?s1) (\<lambda>_ s. io_ret () (s\<lparr>current_size := ?n\<rparr>))"
        unfolding put by (simp add: io_bind_def)
      moreover have "rot_abs ?s1 = rot_abs s" using v1 by (simp add: rot_abs_def a)
      moreover have "spec_put (max_size s) (max_files s) tx (rot_abs s) = (fst (rot_abs s) @ tx, snd (rot_abs s))"
        using empty abs by (simp add: spec_put_def)
      ultimately show ?thesis using rot_write_ok [OF io n1, of "[]" "c @ pending" ?n tx] a(2) o1 by (simp add: other_files_def)
    next
      case full: False
      obtain F k where F: "rotate io ?s1 = io_ret () (?s1\<lparr>fs_files := F, fs_calls := k, fd := Some (?b, [])\<rparr>)" "F ?b = Some []"
        "(\<lambda>i. F (calc_filename ?b i))(0 := None) = snd (spec_rotate (max_files s) (c @ pending, (files_of ?b ?s1)(0 := None)))"
        "\<forall>p. p \<notin> range (calc_filename ?b) \<longrightarrow> F p = fs_files ?s1 p"
        using rotate_ok [OF io n1, of "c @ pending"] a(2) by auto
      let ?s2 = "?s1\<lparr>fs_files := F, fs_calls := k, fd := Some (?b, [])\<rparr>"
      have n2: "names_ok (base_filename ?s2) ?s2" using a(1) by (subst names_ok_dirs [of _ s]) simp_all
      have "rotating_put io tx s = io_bind (file_write io tx ?s2) (\<lambda>_ s. io_ret () (s\<lparr>current_size := length tx\<rparr>))"
        unfolding put using full F(1) by (simp add: io_bind_def)
      moreover have "rot_abs ?s2 = spec_rotate (max_files s) (rot_abs s)"
        using F(2) F(3) [unfolded v1] unfolding abs by (simp add: rot_abs_def spec_rotate_def)
      then have "(fst (rot_abs ?s2) @ tx, snd (rot_abs ?s2)) = spec_put (max_size s) (max_files s) tx (rot_abs s)"
        using full True abs by (simp add: spec_put_def split_beta)
      moreover have "other_files ?b s ?s2" using F(4) by (auto simp: other_files_def) (metis calc_zero rangeI)
      ultimately show ?thesis using rot_write_ok [OF io n2, of "[]" "[]" "length tx" tx] a(2) F(2) by (simp add: other_files_def)
    qed
  qed
qed

section \<open>Many messages\<close>

lemma spec_put_length:
  assumes "length (fst x) < b" "limit < b" "length tx < b"
  shows "length (fst (spec_put limit n tx x)) < b"
  using assms by (auto simp: spec_put_def spec_rotate_def split_beta Let_def)

lemma rot_abs_length: "rot_ok s \<Longrightarrow> length (fst (rot_abs s)) = current_size s"
  by (auto simp: rot_ok_def rot_abs_def)

lemma rotating_all_ok:
  assumes "faultless io" "rot_ok s" "current_size s < 2 ^ 63" "max_size s < 2 ^ 63"
    and "format_seq env (rs_formatter s) msgs = Ok lines" "list_all (\<lambda>l. length l < 2 ^ 63) lines"
  shows "\<exists>s'. rotating_all env io msgs s = Ok s' \<and> rot_ok s' \<and>
    rot_abs s' = fold (spec_put (max_size s) (max_files s)) lines (rot_abs s) \<and> other_files (base_filename s) s s' \<and>
    base_filename s' = base_filename s \<and> max_size s' = max_size s \<and> max_files s' = max_files s"
  using assms
proof (induction msgs arbitrary: s lines)
  case Nil
  then show ?case by (simp add: other_files_def)
next
  case (Cons m ms)
  obtain pf m' l ls where f: "format_msg env (rs_formatter s) m [] = Ok (pf, m', l)" "format_seq env pf ms = Ok ls" "lines = l # ls"
    using Cons.prems(5) by (auto simp: bind_outcome_Ok_iff)
  let ?s = "s\<lparr>rs_formatter := pf\<rparr>"
  have s: "rot_ok ?s" "rot_abs ?s = rot_abs s" "current_size ?s + length l < 2 ^ 64"
    using Cons.prems f(3) names_ok_dirs [of ?s s] by (auto simp: rot_ok_def rot_abs_def)
  obtain s1 where s1: "rotating_put io l ?s = io_ret () s1" "rot_ok s1" "rot_abs s1 = spec_put (max_size s) (max_files s) l (rot_abs s)"
    "base_filename s1 = base_filename s" "max_size s1 = max_size s" "max_files s1 = max_files s" "rs_formatter s1 = pf" "other_files (base_filename s) ?s s1"
    using rotating_put_ok [OF Cons.prems(1) s(1,3)] s(2) by auto
  have "current_size s1 < 2 ^ 63"
    using spec_put_length [of "rot_abs s" "2 ^ 63" "max_size s" l "max_files s"] Cons.prems(2-4,6) f(3) rot_abs_length [OF s1(2)] rot_abs_length [OF Cons.prems(2)] s1(3)
    by simp
  then obtain s' where s': "rotating_all env io ms s1 = Ok s'" "rot_ok s'" "rot_abs s' = fold (spec_put (max_size s) (max_files s)) ls (rot_abs s1)"
    "other_files (base_filename s) s1 s'" "base_filename s' = base_filename s" "max_size s' = max_size s" "max_files s' = max_files s"
    using Cons.IH [OF Cons.prems(1) s1(2), of ls] Cons.prems(4,6) f s1 by auto
  have "rotating_all env io (m # ms) s = Ok s'" using f(1) s1(1) s'(1) by (simp add: rotating_sink_it_def)
  moreover have "other_files (base_filename s) s s'" using s1(8) s'(4) by (simp add: other_files_def)
  ultimately show ?case using s' s1(3) f(3) by simp
qed

text \<open>
  What the files hold after a sequence of lines: \<open>chunks\<close>, newest first, partition the lines; a new chunk begins
  exactly when a line does not fit into a file that has something in it.
\<close>

definition rot_history :: "nat \<Rightarrow> nat \<Rightarrow> string list list \<Rightarrow> string \<times> (nat \<Rightarrow> string option) \<Rightarrow> bool" where
  "rot_history limit n chunks x \<longleftrightarrow> chunks \<noteq> [] \<and> fst x = concat (hd chunks) \<and>
     (\<forall>i. snd x i = (if 1 \<le> i \<and> i \<le> n \<and> i < length chunks then Some (concat (chunks ! i)) else None)) \<and>
     (\<forall>c\<in>set chunks. length (concat c) \<le> limit \<or> concat c \<in> set c) \<and>
     (\<forall>i. Suc i < length chunks \<longrightarrow> chunks ! i \<noteq> [] \<and> limit < length (concat (chunks ! Suc i)) + length (hd (chunks ! i)))"

lemma rot_history_put:
  assumes h: "rot_history limit n chunks x"
  shows "\<exists>chunks'. rot_history limit n chunks' (spec_put limit n tx x) \<and> concat (rev chunks') = concat (rev chunks) @ [tx]"
proof -
  obtain c cs where c: "chunks = c # cs" using h by (cases chunks) (auto simp: rot_history_def)
  have old: "snd x i = (if 1 \<le> i \<and> i \<le> n \<and> i < length chunks then Some (concat (chunks ! i)) else None)" and cur: "fst x = concat c" for i
    using h c by (simp_all add: rot_history_def)
  have big: "\<forall>c\<in>set chunks. length (concat c) \<le> limit \<or> concat c \<in> set c"
    and next_big: "\<And>i. Suc i < length chunks \<Longrightarrow> chunks ! i \<noteq> [] \<and> limit < length (concat (chunks ! Suc i)) + length (hd (chunks ! i))"
    using h by (auto simp: rot_history_def)
  show ?thesis
  proof (cases "fst x \<noteq> [] \<and> limit < length (fst x) + length tx")
    case True
    have "((shift n ((snd x)(0 := Some (fst x))))(0 := None)) i =
        (if 1 \<le> i \<and> i \<le> n \<and> i < length ([tx] # chunks) then Some (concat (([tx] # chunks) ! i)) else None)" for i
      unfolding shift_closed by (cases i) (auto simp: old cur c nth_Cons' split: if_splits)
    moreover have "([tx] # chunks) ! i \<noteq> [] \<and> limit < length (concat (([tx] # chunks) ! Suc i)) + length (hd (([tx] # chunks) ! i))"
      if "Suc i < length ([tx] # chunks)" for i
      using that next_big [of "i - 1"] True cur c by (cases i) auto
    moreover have "spec_put limit n tx x = (tx, (shift n ((snd x)(0 := Some (fst x))))(0 := None))"
      using True by (simp add: spec_put_def spec_rotate_def split_beta)
    moreover have "\<forall>d\<in>set ([tx] # chunks). length (concat d) \<le> limit \<or> concat d \<in> set d" using big by simp
    ultimately have "rot_history limit n ([tx] # chunks) (spec_put limit n tx x)" unfolding rot_history_def by simp
    then show ?thesis by (intro exI [of _ "[tx] # chunks"]) simp
  next
    case False
    have "spec_put limit n tx x = (fst x @ tx, snd x)" using False by (auto simp: spec_put_def split_beta)
    moreover have "\<forall>d\<in>set ((c @ [tx]) # cs). length (concat d) \<le> limit \<or> concat d \<in> set d" using False cur big c by auto
    moreover have "((c @ [tx]) # cs) ! i \<noteq> [] \<and> limit < length (concat (((c @ [tx]) # cs) ! Suc i)) + length (hd (((c @ [tx]) # cs) ! i))"
      if "Suc i < length ((c @ [tx]) # cs)" for i
    proof -
      have "Suc i < length chunks" using that c by simp
      from next_big [OF this] show ?thesis using c by (cases i) auto
    qed
    moreover have "snd x i = (if 1 \<le> i \<and> i \<le> n \<and> i < length ((c @ [tx]) # cs) then Some (concat (((c @ [tx]) # cs) ! i)) else None)" for i
      using old c by (cases i) simp_all
    ultimately have "rot_history limit n ((c @ [tx]) # cs) (spec_put limit n tx x)"
      using cur unfolding rot_history_def by simp
    then show ?thesis using c by (intro exI [of _ "(c @ [tx]) # cs"]) simp
  qed
qed

lemma rot_history_fold:
  "rot_history limit n chunks x \<Longrightarrow>
   \<exists>chunks'. rot_history limit n chunks' (fold (spec_put limit n) lines x) \<and> concat (rev chunks') = concat (rev chunks) @ lines"
proof (induction lines arbitrary: chunks x)
  case (Cons l ls)
  obtain chunks1 where "rot_history limit n chunks1 (spec_put limit n l x)" "concat (rev chunks1) = concat (rev chunks) @ [l]"
    using rot_history_put [OF Cons.prems] by blast
  then show ?case using Cons.IH [of chunks1] by fastforce
qed auto

lemma rotating_new_ok:
  assumes "faultless io" "0 < m_size" "m_files \<le> 200000" "names_ok base sys" "\<forall>i. files_of base sys i = None"
  shows "\<exists>s. rotating_new io base m_size m_files r pf sys = io_ret () s \<and> rot_ok s \<and> rot_abs s = ([], Map.empty) \<and> other_files base sys s \<and>
    base_filename s = base \<and> max_size s = m_size \<and> max_files s = m_files \<and> rs_formatter s = pf \<and> current_size s = 0"
proof -
  let ?s = "\<lparr>fs_files = fs_files sys, fs_dirs = fs_dirs sys, fs_calls = fs_calls sys, fd = None, fh_filename = [],
               base_filename = base, max_size = m_size, max_files = m_files, current_size = 0, rs_formatter = pf\<rparr>"
  have nk: "names_ok base ?s" using assms(4) by (subst names_ok_dirs [of _ sys]) simp_all
  then have "file_ok (calc_filename base 0) ?s" unfolding names_ok_def by blast
  then have ok: "file_ok base ?s" by simp
  have none: "fs_files sys base = None" using assms(5) by (metis calc_zero)
  obtain n where n: "file_open io base False ?s = io_ret () (?s\<lparr>fs_files := (fs_files sys)(base \<mapsto> []), fs_calls := n, fd := Some (base, []), fh_filename := base\<rparr>)"
    using file_open_ok [OF assms(1) ok, of False] none by auto
  let ?s1 = "?s\<lparr>fs_files := (fs_files sys)(base \<mapsto> []), fs_calls := Suc n, fd := Some (base, []), fh_filename := base\<rparr>"
  have "rotating_new io base m_size m_files r pf sys = io_ret () ?s1"
    using assms(1-3) n by (simp add: rotating_new_def io_bind_def file_size_def tick_def Let_def)
  moreover have "names_ok base ?s1" using nk by (subst names_ok_dirs [of _ ?s]) simp_all
  then have "rot_ok ?s1" by (simp add: rot_ok_def)
  moreover have "rot_abs ?s1 = ([], Map.empty)" using assms(5) calc_filename_inj [of base _ 0] by (auto simp: rot_abs_def fun_eq_iff)
  moreover have "other_files base sys ?s1" by (auto simp: other_files_def) (metis calc_zero rangeI)
  ultimately show ?thesis by (intro exI [of _ ?s1]) simp
qed

text \<open>What is on disk once the stream is closed.\<close>

lemma rot_closed:
  assumes "faultless io" "rot_ok s" "rot_history limit n chunks (rot_abs s)"
  shows "files_of (base_filename s) (file_close io s) i = (if i \<le> n \<and> i < length chunks then Some (concat (chunks ! i)) else None)"
proof -
  let ?b = "base_filename s"
  obtain c pending where a: "fd s = Some (?b, pending)" "fs_files s ?b = Some c" using assms(2) by (auto simp: rot_ok_def)
  have f: "fs_files (file_close io s) = (fs_files s)(?b \<mapsto> c @ pending)" using a assms(1) by (simp add: file_close_def drain_def)
  have abs: "rot_abs s = (c @ pending, (files_of ?b s)(0 := None))" using a by (simp add: rot_abs_def)
  have h: "chunks \<noteq> []" "c @ pending = concat (hd chunks)"
    "((files_of ?b s)(0 := None)) j = (if 1 \<le> j \<and> j \<le> n \<and> j < length chunks then Some (concat (chunks ! j)) else None)" for j
    using assms(3) unfolding abs rot_history_def by simp_all
  show ?thesis
  proof (cases "i = 0")
    case True
    then show ?thesis using f h(1,2) by (simp add: hd_conv_nth)
  next
    case False
    then have "calc_filename ?b i \<noteq> ?b" using calc_filename_inj [of ?b i 0] by simp
    then show ?thesis using f h(3) [of i] False by simp
  qed
qed

section \<open>When opening fails\<close>

definition faulty_from :: "io_env \<Rightarrow> nat \<Rightarrow> bool" where
  "faulty_from io n \<longleftrightarrow> (\<forall>k\<ge>n. io_fault io k)"

lemma faulty_fromD: "faulty_from io n \<Longrightarrow> n \<le> fs_calls s \<Longrightarrow> faulty io s"
  by (simp add: faulty_from_def faulty_def)

lemma open_tries_fails:
  assumes "faulty_from io n" "n \<le> fs_calls s" "file_ok p s" "fd s = None"
  shows "\<exists>m. open_tries io k p t s = io_throw (s\<lparr>fs_calls := m\<rparr>) \<and> n \<le> m"
  using assms
proof (induction k arbitrary: s)
  case 0
  then show ?case by (intro exI [of _ "fs_calls s"]) simp
next
  case (Suc k)
  obtain made where cd: "create_dir io (dir_name p) s = (made, s)" using create_parent [OF Suc.prems(3), of io] by (metis prod.collapse)
  have f: "fopen_s io wb p s = (False, tick s)" for wb using faulty_fromD [OF Suc.prems(1,2)] by (simp add: fopen_s_def)
  let ?s = "s\<lparr>fs_calls := Suc (fs_calls s)\<rparr>"
  have ts: "tick s = ?s" "?s\<lparr>fd := None\<rparr> = ?s" using Suc.prems(4) by (simp_all add: tick_def)
  have "file_ok p ?s" using Suc.prems(3) by (subst file_ok_dirs [of _ s]) simp_all
  then obtain m where "open_tries io k p t ?s = io_throw (?s\<lparr>fs_calls := m\<rparr>)" "n \<le> m" using Suc.IH [of ?s] Suc.prems by auto
  then show ?case using cd f ts by (cases t) auto
qed

lemma file_open_fails:
  assumes "faulty_from io n" "n \<le> fs_calls s" "file_ok p s" "fd s = None" "fh_filename s = p"
  shows "\<exists>m. file_open io p t s = io_throw (s\<lparr>fs_calls := m\<rparr>) \<and> n \<le> m"
proof -
  have "s\<lparr>fh_filename := p\<rparr> = s" using assms(5) by simp
  then show ?thesis using open_tries_fails [OF assms(1-4)] by (simp add: file_open_def file_close_def assms(4))
qed

lemma rename_fails: "faulty_from io n \<Longrightarrow> n \<le> fs_calls s \<Longrightarrow> rename_file io a b s = (False, s\<lparr>fs_calls := Suc (Suc (fs_calls s))\<rparr>)"
  by (cases "fs_files s a") (simp_all add: rename_file_def os_remove_def os_rename_def faulty_from_def faulty_def tick_def)

lemma rotate_loop_fails:
  assumes "faulty_from io n" "n \<le> fs_calls s" "file_ok (base_filename s) s" "fd s = None" "fh_filename s = base_filename s"
  shows "\<exists>r m. rotate_loop io k s = Ok (r, s\<lparr>fs_calls := m\<rparr>) \<and> n \<le> m"
  using assms
proof (induction k)
  case 0
  then show ?case by (intro exI [of _ "Some ()"] exI [of _ "fs_calls s"]) simp
next
  case (Suc k)
  show ?case
  proof (cases "path_exists (calc_filename (base_filename s) k) s")
    case False
    then show ?thesis using Suc by simp
  next
    case True
    let ?s = "s\<lparr>fs_calls := Suc (Suc (Suc (Suc (fs_calls s))))\<rparr>"
    have ok: "file_ok (base_filename s) ?s" using Suc.prems(3) by (subst file_ok_dirs [of _ s]) simp_all
    have "base_filename s \<noteq> []" using Suc.prems(3) by (simp add: file_ok_def)
    then obtain m where m: "file_reopen io True ?s = io_throw (?s\<lparr>fs_calls := m\<rparr>)" "n \<le> m"
      using file_open_fails [OF Suc.prems(1) _ ok, of True] Suc.prems by (auto simp: file_reopen_def)
    have r: "rename_file io a b s = (False, s\<lparr>fs_calls := Suc (Suc (fs_calls s))\<rparr>)"
      "rename_file io a b (s\<lparr>fs_calls := Suc (Suc (fs_calls s))\<rparr>) = (False, ?s)" for a b
      using rename_fails [OF Suc.prems(1,2)] rename_fails [OF Suc.prems(1), of "s\<lparr>fs_calls := Suc (Suc (fs_calls s))\<rparr>"] Suc.prems(2) by simp_all
    have "rotate_loop io (Suc k) s = io_throw (s\<lparr>fs_calls := m\<rparr>)" using True r m(1) by (simp add: io_bind_def Let_def)
    then show ?thesis using m(2) by blast
  qed
qed

lemma rotate_fails:
  assumes "faulty_from io n" "n \<le> fs_calls s" "file_ok (base_filename s) s" "fd s = Some (base_filename s, pending)" "fh_filename s = base_filename s"
  shows "\<exists>s'. rotate io s = io_throw s' \<and> fd s' = None \<and> current_size s' = current_size s \<and> max_size s' = max_size s"
proof -
  let ?s = "s\<lparr>fs_calls := Suc (fs_calls s), fd := None\<rparr>"
  have cl: "file_close io s = ?s" using assms(4) faulty_fromD [OF assms(1,2)] by (simp add: file_close_def tick_def)
  have ok: "file_ok (base_filename ?s) ?s" using assms(3) by (subst file_ok_dirs [of _ s]) simp_all
  obtain r m where r: "rotate_loop io (max_files s) ?s = Ok (r, ?s\<lparr>fs_calls := m\<rparr>)" "n \<le> m"
    using rotate_loop_fails [OF assms(1) _ ok, of "max_files s"] assms(2,5) by auto
  show ?thesis
  proof (cases r)
    case None
    then show ?thesis using r(1) by (simp add: rotate_def cl io_bind_def)
  next
    case (Some u)
    let ?s1 = "?s\<lparr>fs_calls := m\<rparr>"
    have ok1: "file_ok (base_filename s) ?s1" using assms(3) by (subst file_ok_dirs [of _ s]) simp_all
    obtain m' where "file_open io (base_filename s) True ?s1 = io_throw (?s1\<lparr>fs_calls := m'\<rparr>)"
      using file_open_fails [OF assms(1) _ ok1, of True] r(2) assms(5) by auto
    then have "rotate io s = io_throw (?s1\<lparr>fs_calls := m'\<rparr>)"
      using Some r(1) assms(3,5) by (simp add: rotate_def cl io_bind_def file_reopen_def file_ok_def)
    then show ?thesis by simp
  qed
qed

section \<open>Properties\<close>

text \<open>Splitting off the extension, in full: when the part behind the last folder separator has a dot that
  is neither its first nor its last character, the name is cut at the last dot; in every other case the
  extension is empty. The parts always make up the name again, and the rotated names made from them are different
  for different indices and stay in the folder of the base name.\<close>
theorem split_by_extension_names:
  "(case split_by_extension fname of (base, ext) \<Rightarrow> base @ ext = fname \<and>
      (if ext = [] then \<nexists>b e. has_extension fname b e else has_extension fname base (tl ext))) \<and>
   (calc_filename fname i = calc_filename fname j \<longleftrightarrow> i = j) \<and>
   (fname \<noteq> [] \<and> last fname \<noteq> slash \<longrightarrow> dir_name (calc_filename fname i) = dir_name fname)"
proof -
  have "case split_by_extension fname of (base, ext) \<Rightarrow> base @ ext = fname \<and>
      (if ext = [] then \<nexists>b e. has_extension fname b e else has_extension fname base (tl ext))"
    using split_by_extension_cases [of fname] by (auto simp: has_extension_def)
  then show ?thesis using calc_filename_inj calc_filename_shape(1) by blast
qed

theorem split_by_extension_names_witness:
  "split_by_extension ''logs/.app.d/my.log.txt'' = (''logs/.app.d/my.log'', ''.txt'') \<and>
   split_by_extension ''logs/.app.d/.mylog'' = (''logs/.app.d/.mylog'', []) \<and>
   dir_name (calc_filename ''logs/app.txt'' 12) = dir_name ''logs/app.txt''"
proof -
  have "split_by_extension ''logs/.app.d/my.log.txt'' = (''logs/.app.d/my.log'', ''.txt'')" "split_by_extension ''logs/.app.d/.mylog'' = (''logs/.app.d/.mylog'', [])"
    by (simp_all add: split_by_extension_def find_last_def slash_def)
  moreover have "dir_name (calc_filename ''logs/app.txt'' 12) = dir_name ''logs/app.txt''"
    using split_by_extension_names [of "''logs/app.txt''" 12] by (simp add: slash_def)
  ultimately show ?thesis by blast
qed

text \<open>C13. Rotation keeps the most recent output. On a system where no call fails, a new rotating sink that has been
  given any messages and is then closed has left on disk exactly this: the formatted lines are cut into chunks,
  a new one whenever the next line would take a non-empty file over the limit; file number \<open>i\<close> holds the \<open>i\<close>-th
  newest chunk, for \<open>i\<close> up to the number of files; older chunks are gone. So no file is longer than the limit,
  but for a single line that is longer itself, and no other file has changed. How much the streams hold back in
  their buffers makes no difference.\<close>
theorem rotating_keeps_recent:
  assumes "faultless io" "0 < m_size" "m_size < 2 ^ 63" "m_files \<le> 200000" "names_ok base sys" "\<forall>i. files_of base sys i = None"
    and "format_seq env pf msgs = Ok lines" "list_all (\<lambda>l. length l < 2 ^ 63) lines"
  shows "\<exists>s s' chunks. rotating_new io base m_size m_files r pf sys = io_ret () s \<and> rotating_all env io msgs s = Ok s' \<and>
    concat (rev chunks) = lines \<and>
    (\<forall>i. files_of base (file_close io s') i = (if i \<le> m_files \<and> i < length chunks then Some (concat (chunks ! i)) else None)) \<and>
    (\<forall>c\<in>set chunks. length (concat c) \<le> m_size \<or> concat c \<in> set c) \<and>
    (\<forall>i. Suc i < length chunks \<longrightarrow> m_size < length (concat (chunks ! Suc i)) + length (hd (chunks ! i))) \<and>
    other_files base sys (file_close io s')"
proof -
  obtain s where s: "rotating_new io base m_size m_files r pf sys = io_ret () s" "rot_ok s" "rot_abs s = ([], Map.empty)" "other_files base sys s"
    "base_filename s = base" "max_size s = m_size" "max_files s = m_files" "rs_formatter s = pf" "current_size s = 0"
    using rotating_new_ok [OF assms(1,2,4-6)] by blast
  have "format_seq env (rs_formatter s) msgs = Ok lines" using s(8) assms(7) by simp
  then obtain s' where s': "rotating_all env io msgs s = Ok s'" "rot_ok s'" "rot_abs s' = fold (spec_put m_size m_files) lines (rot_abs s)"
    "other_files base s s'" "base_filename s' = base"
    using rotating_all_ok [OF assms(1) s(2) _ _ _ assms(8)] s(5-9) assms(3) by auto
  have "rot_history m_size m_files [[]] (rot_abs s)" using s(3) by (simp add: rot_history_def)
  then obtain chunks where ch: "rot_history m_size m_files chunks (rot_abs s')" "concat (rev chunks) = lines"
    using rot_history_fold [of m_size m_files "[[]]" "rot_abs s" lines] s'(3) by auto
  have "other_files base sys s'" using s(4) s'(4) by (simp add: other_files_def)
  moreover obtain c pending where "fd s' = Some (base, pending)" "fs_files s' base = Some c" using s'(2,5) by (auto simp: rot_ok_def)
  ultimately have "other_files base sys (file_close io s')"
    using assms(1) by (auto simp: other_files_def file_close_def drain_def) (metis calc_zero rangeI)
  moreover have "files_of base (file_close io s') i = (if i \<le> m_files \<and> i < length chunks then Some (concat (chunks ! i)) else None)" for i
    using rot_closed [OF assms(1) s'(2) ch(1), of i] s'(5) by simp
  ultimately show ?thesis using s(1) s'(1) ch by (intro exI [of _ s] exI [of _ s'] exI [of _ chunks]) (simp add: rot_history_def)
qed

text \<open>A failed rotation leaves a sink that crashes: when the files cannot be renamed or opened again during a
  rotation, the exception reaches the logger's error handler, but the sink is left without a stream and
  with its old size, so the next message that fits is written through a null pointer.\<close>
theorem failed_rotation_writes_null:
  assumes "rot_ok s" "0 < current_size s" "max_size s < current_size s + length big" "current_size s + length big < 2 ^ 64"
    and "\<not> io_fault io (fs_calls s)" "\<not> io_fault io (Suc (fs_calls s))" "faulty_from io (Suc (Suc (fs_calls s)))"
  shows "\<exists>s'. rotating_put io big s = io_throw s' \<and>
    (\<forall>io' small. current_size s + length small \<le> max_size s \<and> max_size s < 2 ^ 64 \<longrightarrow> rotating_put io' small s' = Ub NullDeref)"
proof -
  let ?b = "base_filename s"
  obtain c pending where a: "names_ok ?b s" "fh_filename s = ?b" "fd s = Some (?b, pending)" "fs_files s ?b = Some c" "current_size s = length (c @ pending)"
    using assms(1) by (auto simp: rot_ok_def)
  let ?s1 = "s\<lparr>fs_files := (fs_files s)(?b \<mapsto> c @ pending), fd := Some (?b, []), fs_calls := Suc (Suc (fs_calls s))\<rparr>"
  have "file_ok (calc_filename ?b 0) s" using a(1) unfolding names_ok_def by blast
  then have ok: "file_ok (base_filename ?s1) ?s1" by (subst file_ok_dirs [of _ s]) simp_all
  obtain s' where s': "rotate io ?s1 = io_throw s'" "fd s' = None" "current_size s' = current_size s" "max_size s' = max_size s"
    using rotate_fails [OF assms(7) _ ok, of "[]"] a(2) by auto
  have "rotating_put io big s = io_throw s'"
    using assms(2-6) a s'(1) by (simp add: rotating_put_def io_bind_def file_flush_def file_size_def faulty_def drain_def tick_def Let_def)
  moreover have "rotating_put io' small s' = Ub NullDeref" if "current_size s + length small \<le> max_size s \<and> max_size s < 2 ^ 64" for io' small
    using that s'(2-4) by (simp add: rotating_put_def io_bind_def file_write_def Let_def)
  ultimately show ?thesis by blast
qed

lemma names_ok_plain:
  assumes "base \<noteq> []" "slash \<notin> set base" "fs_dirs sys = {}"
  shows "names_ok base sys"
proof -
  have l: "last base \<noteq> slash" using assms(1,2) by (metis last_in_set)
  have "dir_name base = []" using assms(2) by (simp add: dir_name_def find_last_None [THEN iffD2])
  then show ?thesis using calc_filename_shape [OF assms(1) l] assms(3)
    by (simp add: names_ok_def file_ok_def parent_ok_def is_dir_def strip_slashes_id Let_def)
qed

definition demo_io :: io_env where
  "demo_io = \<lparr>io_fault = \<lambda>n. False, io_keep = \<lambda>n. 2\<rparr>"

definition demo_lines :: "log_msg list" where
  "demo_lines = map (\<lambda>t. demo_msg\<lparr>payload := t\<rparr>) [''aaa'', ''bb'', ''cc'', ''dd'']"

definition demo_pf :: pattern_formatter where
  "demo_pf = \<lparr>pattern = ''%v'', eol = [], time_type = LocalTime, need_localtime = False, cached_tm = tm_zero, last_log_secs = 0,
     formatters = [plain v_class], custom_handlers = Map.empty\<rparr>"

lemma demo_pf_format: "format_msg env demo_pf m [] = Ok (demo_pf, m, payload m)"
  by (simp add: format_msg_def refresh_time_def demo_pf_def message_texts append_string_view_app Let_def)

lemma demo_lines_format: "format_seq env demo_pf demo_lines = Ok [''aaa'', ''bb'', ''cc'', ''dd'']"
  by (simp add: demo_lines_def demo_pf_format)

theorem rotating_keeps_recent_witness:
  "\<exists>s s' chunks. rotating_new demo_io ''a.log'' 4 1 False demo_pf \<lparr>fs_files = Map.empty, fs_dirs = {}, fs_calls = 0\<rparr> = io_ret () s \<and>
     rotating_all demo_log_env demo_io demo_lines s = Ok s' \<and> concat (rev chunks) = [''aaa'', ''bb'', ''cc'', ''dd''] \<and>
     (\<forall>i. files_of ''a.log'' (file_close demo_io s') i = (if i \<le> 1 \<and> i < length chunks then Some (concat (chunks ! i)) else None))"
proof -
  have n: "names_ok ''a.log'' \<lparr>fs_files = Map.empty, fs_dirs = {}, fs_calls = 0\<rparr>" by (rule names_ok_plain) (simp_all add: slash_def)
  show ?thesis
    using rotating_keeps_recent [of demo_io 4 1 "''a.log''", OF _ _ _ _ n _ demo_lines_format, of False demo_log_env] by (fastforce simp: faultless_def demo_io_def)
qed

definition demo_rotating :: rotating_sink where
  "demo_rotating = \<lparr>fs_files = [''a.log'' \<mapsto> ''xxx''], fs_dirs = {}, fs_calls = 0, fd = Some (''a.log'', []), fh_filename = ''a.log'',
     base_filename = ''a.log'', max_size = 4, max_files = 1, current_size = 3, rs_formatter = demo_pf\<rparr>"

theorem failed_rotation_writes_null_witness:
  "\<exists>s'. rotating_put \<lparr>io_fault = \<lambda>n. 2 \<le> n, io_keep = \<lambda>n. 0\<rparr> ''yy'' demo_rotating = io_throw s' \<and> rotating_put demo_io ''z'' s' = Ub NullDeref"
proof -
  have "names_ok ''a.log'' demo_rotating" by (rule names_ok_plain) (simp_all add: slash_def demo_rotating_def)
  then have r: "rot_ok demo_rotating" by (simp add: rot_ok_def demo_rotating_def)
  show ?thesis
    using failed_rotation_writes_null [OF r, of "''yy''" "\<lparr>io_fault = \<lambda>n. 2 \<le> n, io_keep = \<lambda>n. 0\<rparr>"]
    by (auto simp: demo_rotating_def faulty_from_def)
qed

end
