(* ===== verification/Log_Dated.thy ===== *)
theory Log_Dated
  imports Log_Files
begin

text \<open>
  The other file sinks: \<^verbatim>\<open>basic_file_sink-inl.h\<close>, \<^verbatim>\<open>daily_file_sink.h\<close> and \<^verbatim>\<open>hourly_file_sink.h\<close>. The clock
  and \<^verbatim>\<open>mktime\<close> are arguments. The names made by \<^verbatim>\<open>strftime\<close> (\<^verbatim>\<open>daily_filename_format_calculator\<close>) are left out.
\<close>

section \<open>The plain file sink\<close>

record basic_sink = file_helper +
  bf_formatter :: pattern_formatter

definition basic_new :: "io_env \<Rightarrow> string \<Rightarrow> bool \<Rightarrow> pattern_formatter \<Rightarrow> file_sys \<Rightarrow> (unit, basic_sink) io" where
  "basic_new io fname truncated pf sys =
     file_open io fname truncated
       \<lparr>fs_files = fs_files sys, fs_dirs = fs_dirs sys, fs_calls = fs_calls sys, fd = None, fh_filename = [], bf_formatter = pf\<rparr>"

definition basic_sink_it :: "log_env \<Rightarrow> io_env \<Rightarrow> log_msg \<Rightarrow> basic_sink \<Rightarrow> (unit, basic_sink) io" where
  "basic_sink_it env io msg s =
     bind_outcome (format_msg env (bf_formatter s) msg []) (\<lambda>(pf, msg, formatted). file_write io formatted (s\<lparr>bf_formatter := pf\<rparr>))"

definition basic_flush :: "io_env \<Rightarrow> basic_sink \<Rightarrow> (unit, basic_sink) io" where
  "basic_flush io s = file_flush io s"

section \<open>Names with a date\<close>

definition zero_pad :: "nat \<Rightarrow> int \<Rightarrow> string" where
  "zero_pad w n =
     (if n < 0 then CHR ''-'' # replicate (w - 1 - length (decimal (nat (- n)))) CHR ''0'' @ decimal (nat (- n))
      else replicate (w - length (decimal (nat n))) CHR ''0'' @ decimal (nat n))"

definition daily_calc_filename :: "string \<Rightarrow> tm \<Rightarrow> string" where
  "daily_calc_filename fname now_tm =
     (let (basename, ext) = split_by_extension fname
      in basename @ ''_'' @ zero_pad 4 (tm_year now_tm + 1900) @ ''-'' @ zero_pad 2 (tm_mon now_tm + 1) @ ''-'' @ zero_pad 2 (tm_mday now_tm) @ ext)"

definition hourly_calc_filename :: "string \<Rightarrow> tm \<Rightarrow> string" where
  "hourly_calc_filename fname now_tm =
     (let (basename, ext) = split_by_extension fname
      in basename @ ''_'' @ zero_pad 4 (tm_year now_tm + 1900) @ ''-'' @ zero_pad 2 (tm_mon now_tm + 1) @ ''-'' @ zero_pad 2 (tm_mday now_tm) @
         ''_'' @ zero_pad 2 (tm_hour now_tm) @ ext)"

definition now_tm :: "log_env \<Rightarrow> int \<Rightarrow> tm" where
  "now_tm env tp = os_localtime env (duration_cast seconds tp)"

definition hour :: int where
  "hour = 3600 * seconds"

text \<open>\<open>mktime\<close> is the library's conversion of broken-down local time to seconds; \<open>now\<close> is the clock.\<close>

definition daily_next_rotation_tp :: "(tm \<Rightarrow> int) \<Rightarrow> log_env \<Rightarrow> int \<Rightarrow> int \<Rightarrow> int \<Rightarrow> int" where
  "daily_next_rotation_tp mktime env rotation_h rotation_m now =
     (let date = (now_tm env now)\<lparr>tm_hour := rotation_h, tm_min := rotation_m, tm_sec := 0\<rparr>;
          rotation_time = mktime date * seconds
      in if rotation_time > now then rotation_time else rotation_time + 24 * hour)"

definition hourly_next_rotation_tp :: "(tm \<Rightarrow> int) \<Rightarrow> log_env \<Rightarrow> int \<Rightarrow> int" where
  "hourly_next_rotation_tp mktime env now =
     (let date = (now_tm env now)\<lparr>tm_min := 0, tm_sec := 0\<rparr>;
          rotation_time = mktime date * seconds
      in if rotation_time > now then rotation_time else rotation_time + hour)"

section \<open>Sinks that open a new file by the clock\<close>

text \<open>
  The daily and the hourly sink are the same code but for the name, the period and the next rotation: these
  are the fields of \<open>dated_kind\<close>.
\<close>

record dated_kind =
  dk_name :: "string \<Rightarrow> tm \<Rightarrow> string"
  dk_period :: int
  dk_next :: "int \<Rightarrow> int"

record dated_sink = file_helper +
  ds_base :: string
  rotation_tp :: int
  ds_truncate :: bool
  ds_max_files :: nat
  filenames_q :: "string circular_q"
  ds_formatter :: pattern_formatter

fun dated_names :: "dated_kind \<Rightarrow> log_env \<Rightarrow> string \<Rightarrow> nat \<Rightarrow> int \<Rightarrow> 'a file_sys_scheme \<Rightarrow> string list" where
  "dated_names k env base 0 now s = []"
| "dated_names k env base (Suc n) now s =
     (let f = dk_name k base (now_tm env now)
      in if \<not> path_exists f s then [] else f # dated_names k env base n (now - dk_period k) s)"

definition init_filenames_q :: "dated_kind \<Rightarrow> log_env \<Rightarrow> int \<Rightarrow> dated_sink \<Rightarrow> dated_sink outcome" where
  "init_filenames_q k env now s =
     bind_outcome (pushes cq_push_back (rev (dated_names k env (ds_base s) (ds_max_files s) now s)) (circular_q_new [] (ds_max_files s)))
       (\<lambda>q. Ok (s\<lparr>filenames_q := q\<rparr>))"

text \<open>The constructor; \<open>now1\<close>, \<open>now2\<close> and \<open>now3\<close> are its readings of the clock.\<close>

definition dated_new :: "dated_kind \<Rightarrow> log_env \<Rightarrow> io_env \<Rightarrow> string \<Rightarrow> bool \<Rightarrow> nat \<Rightarrow> pattern_formatter \<Rightarrow> int \<Rightarrow> int \<Rightarrow> int \<Rightarrow> file_sys \<Rightarrow>
    (unit, dated_sink) io" where
  "dated_new k env io base truncated m_files pf now1 now2 now3 sys =
     io_bind (file_open io (dk_name k base (now_tm env now1)) truncated
         \<lparr>fs_files = fs_files sys, fs_dirs = fs_dirs sys, fs_calls = fs_calls sys, fd = None, fh_filename = [], ds_base = base,
          rotation_tp = 0, ds_truncate = truncated, ds_max_files = m_files, filenames_q = circular_q_none, ds_formatter = pf\<rparr>)
       (\<lambda>_ s. let s = s\<lparr>rotation_tp := dk_next k now2\<rparr>
         in if m_files > 0 then bind_outcome (init_filenames_q k env now3 s) (\<lambda>s. io_ret () s) else io_ret () s)"

definition delete_old :: "io_env \<Rightarrow> dated_sink \<Rightarrow> (unit, dated_sink) io" where
  "delete_old io s =
     (let current_file = fh_filename s in
      if cq_full (filenames_q s) then
        bind_outcome (cq_front (filenames_q s)) (\<lambda>old_filename.
        bind_outcome (cq_pop_front (filenames_q s)) (\<lambda>q.
        let (ok, s) = remove_if_exists io old_filename s in
        bind_outcome (cq_push_back current_file q) (\<lambda>q.
          if ok then io_ret () (s\<lparr>filenames_q := q\<rparr>) else io_throw (s\<lparr>filenames_q := q\<rparr>))))
      else bind_outcome (cq_push_back current_file (filenames_q s)) (\<lambda>q. io_ret () (s\<lparr>filenames_q := q\<rparr>)))"

definition dated_sink_it :: "dated_kind \<Rightarrow> log_env \<Rightarrow> io_env \<Rightarrow> int \<Rightarrow> log_msg \<Rightarrow> dated_sink \<Rightarrow> (unit, dated_sink) io" where
  "dated_sink_it k env io now msg s =
     (let should_rotate = time msg \<ge> rotation_tp s in
      io_bind (if should_rotate then
                 io_bind (file_open io (dk_name k (ds_base s) (now_tm env (time msg))) (ds_truncate s) s)
                   (\<lambda>_ s. io_ret () (s\<lparr>rotation_tp := dk_next k now\<rparr>))
               else io_ret () s)
        (\<lambda>_ s. bind_outcome (format_msg env (ds_formatter s) msg []) (\<lambda>(pf, msg, formatted).
          io_bind (file_write io formatted (s\<lparr>ds_formatter := pf\<rparr>)) (\<lambda>_ s.
            if should_rotate \<and> ds_max_files s > 0 then delete_old io s else io_ret () s))))"

definition daily_kind :: "(tm \<Rightarrow> int) \<Rightarrow> log_env \<Rightarrow> int \<Rightarrow> int \<Rightarrow> dated_kind" where
  "daily_kind mktime env h m = \<lparr>dk_name = daily_calc_filename, dk_period = 24 * hour, dk_next = daily_next_rotation_tp mktime env h m\<rparr>"

definition daily_new :: "(tm \<Rightarrow> int) \<Rightarrow> log_env \<Rightarrow> io_env \<Rightarrow> string \<Rightarrow> int \<Rightarrow> int \<Rightarrow> bool \<Rightarrow> nat \<Rightarrow> pattern_formatter \<Rightarrow> int \<Rightarrow> int \<Rightarrow> int \<Rightarrow> file_sys \<Rightarrow>
    (unit, dated_sink) io option" where
  "daily_new mktime env io base h m truncated m_files pf now1 now2 now3 sys =
     (if h < 0 \<or> h > 23 \<or> m < 0 \<or> m > 59 then None
      else Some (dated_new (daily_kind mktime env h m) env io base truncated m_files pf now1 now2 now3 sys))"

definition hourly_kind :: "(tm \<Rightarrow> int) \<Rightarrow> log_env \<Rightarrow> dated_kind" where
  "hourly_kind mktime env = \<lparr>dk_name = hourly_calc_filename, dk_period = hour, dk_next = hourly_next_rotation_tp mktime env\<rparr>"

definition hourly_new :: "(tm \<Rightarrow> int) \<Rightarrow> log_env \<Rightarrow> io_env \<Rightarrow> string \<Rightarrow> bool \<Rightarrow> nat \<Rightarrow> pattern_formatter \<Rightarrow> int \<Rightarrow> int \<Rightarrow> int \<Rightarrow> file_sys \<Rightarrow>
    (unit, dated_sink) io" where
  "hourly_new mktime env = dated_new (hourly_kind mktime env) env"

section \<open>Retention\<close>

lemma drain_simps [simp]: "dom (fs_files (drain f tx s)) = dom (fs_files s)" "fs_dirs (drain f tx s) = fs_dirs s"
  by (auto simp: drain_def split: option.split)

text \<open>Everything but the stream and the contents of files.\<close>

definition same_setup :: "dated_sink \<Rightarrow> dated_sink \<Rightarrow> bool" where
  "same_setup s s' \<longleftrightarrow> ds_base s' = ds_base s \<and> ds_truncate s' = ds_truncate s \<and> ds_max_files s' = ds_max_files s \<and> fs_dirs s' = fs_dirs s"

lemma drain_fields [simp]: "fd (drain f tx (s :: dated_sink)) = fd s" "fh_filename (drain f tx s) = fh_filename s" "ds_base (drain f tx s) = ds_base s"
  "rotation_tp (drain f tx s) = rotation_tp s" "ds_truncate (drain f tx s) = ds_truncate s" "ds_max_files (drain f tx s) = ds_max_files s"
  "filenames_q (drain f tx s) = filenames_q s" "ds_formatter (drain f tx s) = ds_formatter s"
  by (simp_all add: drain_def split: option.split)

lemma tick_dated [simp]: "ds_base (tick s) = ds_base s" "rotation_tp (tick s) = rotation_tp s" "ds_truncate (tick s) = ds_truncate s"
  "ds_max_files (tick s) = ds_max_files s" "filenames_q (tick s) = filenames_q s" "ds_formatter (tick s) = ds_formatter s"
  by (simp_all add: tick_def)

lemma file_close_dated:
  fixes s :: dated_sink
  shows "dom (fs_files (file_close io s)) = dom (fs_files s)" "fd (file_close io s) = None" "same_setup s (file_close io s)"
    "filenames_q (file_close io s) = filenames_q s" "ds_formatter (file_close io s) = ds_formatter s"
  by (auto simp: file_close_def same_setup_def split: option.split)

lemma file_open_closed: "file_open io p t s = file_open io p t (file_close io s)"
  by (simp add: file_open_def file_close_def split: option.split)

lemma file_open_dated:
  fixes s :: dated_sink
  assumes "faultless io" "file_ok p s"
  shows "\<exists>s'. file_open io p t s = io_ret () s' \<and> dom (fs_files s') = insert p (dom (fs_files s)) \<and> fd s' = Some (p, []) \<and> fh_filename s' = p \<and>
    same_setup s s' \<and> filenames_q s' = filenames_q s \<and> ds_formatter s' = ds_formatter s"
proof -
  let ?s = "file_close io s"
  note c = file_close_dated [where io = io and s = s]
  have "file_ok p ?s" using assms(2) c(3) by (subst file_ok_dirs [of _ s]) (simp_all add: same_setup_def)
  from file_open_ok [OF assms(1) this c(2), of t] show ?thesis
    using c by (auto simp: file_open_closed [of io p t s] same_setup_def)
qed

lemma file_write_dated:
  fixes s :: dated_sink
  assumes "faultless io" "fd s \<noteq> None"
  shows "\<exists>s'. file_write io tx s = io_ret () s' \<and> dom (fs_files s') = dom (fs_files s) \<and> fd s' \<noteq> None \<and> fh_filename s' = fh_filename s \<and>
    same_setup s s' \<and> rotation_tp s' = rotation_tp s \<and> filenames_q s' = filenames_q s \<and> ds_formatter s' = ds_formatter s"
  using assms by (auto simp: file_write_def same_setup_def Let_def)

lemma delete_old_dated:
  assumes "faultless io" "cq_wf (filenames_q s)" "0 < max_items (filenames_q s)" "0 < cq_cap (filenames_q s)"
    and "\<forall>f\<in>set (cq_list (filenames_q s)). \<not> is_dir f s"
  shows "\<exists>s'. delete_old io s = io_ret () s' \<and> cq_wf (filenames_q s') \<and> max_items (filenames_q s') = max_items (filenames_q s) \<and>
    cq_list (filenames_q s') = last_n (cq_cap (filenames_q s)) (cq_list (filenames_q s) @ [fh_filename s]) \<and>
    dom (fs_files s') = dom (fs_files s) - (if cq_size (filenames_q s) = cq_cap (filenames_q s) then {hd (cq_list (filenames_q s))} else {}) \<and>
    fd s' = fd s \<and> same_setup s s' \<and> rotation_tp s' = rotation_tp s \<and> ds_formatter s' = ds_formatter s"
proof -
  let ?q = "filenames_q s" and ?f = "fh_filename s"
  have full: "cq_full ?q \<longleftrightarrow> cq_size ?q = cq_cap ?q" by (rule cq_full_iff [OF assms(2,3)])
  have push: "\<exists>q'. cq_push_back ?f q = Ok q' \<and> cq_wf q' \<and> max_items q' = max_items q \<and> cq_list q' = last_n (cq_cap q) (cq_list q @ [?f])"
    if "cq_wf q" "0 < max_items q" for q
    using cq.push_law [of q ?f] cq_push_list [OF that, of ?f] that by auto
  show ?thesis
  proof (cases "cq_size ?q = cq_cap ?q")
    case False
    then show ?thesis using push [OF assms(2,3)] full by (auto simp: delete_old_def same_setup_def)
  next
    case True
    then have ne: "\<not> cq_empty ?q" using assms(2,4) cq_empty_list length_cq_list by (metis length_0_conv less_not_refl)
    obtain q1 where q1: "cq_front ?q = Ok (hd (cq_list ?q))" "cq_pop_front ?q = Ok q1" "cq_wf q1" "max_items q1 = max_items ?q" "cq_list q1 = tl (cq_list ?q)" "cq_list ?q \<noteq> []"
      using cq_pop_list [OF assms(2) ne] by blast
    obtain q2 where q2: "cq_push_back ?f q1 = Ok q2" "cq_wf q2" "max_items q2 = max_items ?q" "cq_list q2 = last_n (cq_cap q1) (cq_list q1 @ [?f])"
      using push [OF q1(3)] q1(4) assms(3) by auto
    have len: "length (cq_list ?q) = cq_cap ?q" using True by simp
    have cap: "cq_cap q1 = cq_cap ?q" using q1(4) by (simp add: cq_cap_def)
    have "last_n (cq_cap ?q) (tl (cq_list ?q) @ [?f]) = last_n (cq_cap ?q) (cq_list ?q @ [?f])"
      using len q1(6) by (cases "cq_list ?q") (simp_all add: last_n_def)
    then have l2: "cq_list q2 = last_n (cq_cap ?q) (cq_list ?q @ [?f])" using q2(4) q1(5) cap by simp
    have nd: "\<not> is_dir (hd (cq_list ?q)) s" using assms(5) q1(6) by simp
    obtain s1 where s1: "remove_if_exists io (hd (cq_list ?q)) s = (True, s1)" "dom (fs_files s1) = dom (fs_files s) - {hd (cq_list ?q)}"
      "fd s1 = fd s" "same_setup s s1" "rotation_tp s1 = rotation_tp s" "ds_formatter s1 = ds_formatter s"
    proof (cases "fs_files s (hd (cq_list ?q))")
      case None
      then have "remove_if_exists io (hd (cq_list ?q)) s = (True, s)" using nd by (simp add: remove_if_exists_def path_exists_def)
      moreover have "dom (fs_files s) = dom (fs_files s) - {hd (cq_list ?q)}" using None by auto
      ultimately show ?thesis using that [of s] by (simp add: same_setup_def)
    next
      case (Some c)
      then have "remove_if_exists io (hd (cq_list ?q)) s = (True, (tick s)\<lparr>fs_files := (fs_files s)(hd (cq_list ?q) := None)\<rparr>)"
        using assms(1) by (simp add: remove_if_exists_def path_exists_def os_remove_def)
      then show ?thesis using that by (simp add: same_setup_def)
    qed
    have "delete_old io s = io_ret () (s1\<lparr>filenames_q := q2\<rparr>)"
      using True full q1(1,2) s1(1) q2(1) by (simp add: delete_old_def Let_def)
    then show ?thesis using True q2(2,3) l2 s1(2-6) by (simp add: same_setup_def)
  qed
qed

text \<open>Messages one after the other, each with the reading of the clock it causes, and the files they open.\<close>

fun dated_all :: "dated_kind \<Rightarrow> log_env \<Rightarrow> io_env \<Rightarrow> (int \<times> log_msg) list \<Rightarrow> dated_sink \<Rightarrow> dated_sink outcome" where
  "dated_all k env io [] s = Ok s"
| "dated_all k env io ((now, m) # ms) s = bind_outcome (dated_sink_it k env io now m s) (\<lambda>(r, s). dated_all k env io ms s)"

fun opened_names :: "dated_kind \<Rightarrow> log_env \<Rightarrow> string \<Rightarrow> int \<Rightarrow> (int \<times> log_msg) list \<Rightarrow> string list" where
  "opened_names k env base tp [] = []"
| "opened_names k env base tp ((now, m) # ms) =
     (if time m \<ge> tp then dk_name k base (now_tm env (time m)) # opened_names k env base (dk_next k now) ms
      else opened_names k env base tp ms)"

text \<open>The sink has used the files \<open>names\<close>, oldest first; of these the last \<open>n\<close> exist and are queued.\<close>

definition dated_ok :: "nat \<Rightarrow> string list \<Rightarrow> dated_sink \<Rightarrow> bool" where
  "dated_ok n names s \<longleftrightarrow> 0 < n \<and> fd s \<noteq> None \<and> ds_max_files s = n \<and> cq_wf (filenames_q s) \<and> 0 < max_items (filenames_q s) \<and>
     cq_cap (filenames_q s) = n \<and> cq_list (filenames_q s) = last_n n names \<and> (\<forall>f\<in>set names. file_ok f s) \<and>
     (\<forall>f\<in>set names. fs_files s f \<noteq> None \<longleftrightarrow> f \<in> set (last_n n names))"

lemma last_n_snoc: "last_n n (xs @ [x]) = (if n = 0 then [] else if length xs < n then xs @ [x] else tl (last_n n xs) @ [x])"
  by (auto simp: last_n_def Suc_diff_le drop_Suc drop_tl)

lemma dated_sink_it_ok:
  assumes io: "faultless io" and s: "dated_ok n names s" and f: "format_msg env (ds_formatter s) m [] = Ok (pf, m', l)"
    and new: "rotation_tp s \<le> time m \<Longrightarrow> distinct (names @ [f]) \<and> file_ok f s" and name: "f = dk_name k (ds_base s) (now_tm env (time m))"
  shows "\<exists>s'. dated_sink_it k env io now m s = io_ret () s' \<and> same_setup s s' \<and> ds_formatter s' = pf \<and>
    (if rotation_tp s \<le> time m then dated_ok n (names @ [f]) s' \<and> rotation_tp s' = dk_next k now
     else dated_ok n names s' \<and> rotation_tp s' = rotation_tp s)"
proof (cases "rotation_tp s \<le> time m")
  case False
  let ?s = "s\<lparr>ds_formatter := pf\<rparr>"
  obtain s' where s': "file_write io l ?s = io_ret () s'" "dom (fs_files s') = dom (fs_files s)" "fd s' \<noteq> None"
    "same_setup s s'" "rotation_tp s' = rotation_tp s" "filenames_q s' = filenames_q s" "ds_formatter s' = pf"
    using file_write_dated [OF io, of ?s l] s by (auto simp: dated_ok_def same_setup_def)
  have "dated_sink_it k env io now m s = io_ret () s'" using False f s'(1) by (simp add: dated_sink_it_def io_bind_def)
  moreover have "file_ok g s' = file_ok g s" "fs_files s' g \<noteq> None \<longleftrightarrow> fs_files s g \<noteq> None" for g
    using s'(2,4) file_ok_dirs [of s' s] by (auto simp: same_setup_def dom_def)
  ultimately show ?thesis using False s s'(3-7) by (simp add: dated_ok_def same_setup_def)
next
  case True
  then have nw: "distinct (names @ [f])" "file_ok f s" using new by auto
  obtain s1 where s1: "file_open io f (ds_truncate s) s = io_ret () s1" "dom (fs_files s1) = insert f (dom (fs_files s))" "fd s1 = Some (f, [])"
    "fh_filename s1 = f" "same_setup s s1" "filenames_q s1 = filenames_q s" "ds_formatter s1 = ds_formatter s"
    using file_open_dated [OF io nw(2)] by blast
  let ?s1 = "s1\<lparr>rotation_tp := dk_next k now, ds_formatter := pf\<rparr>"
  obtain s2 where s2: "file_write io l ?s1 = io_ret () s2" "dom (fs_files s2) = insert f (dom (fs_files s))" "fd s2 \<noteq> None" "fh_filename s2 = f"
    "same_setup s s2" "rotation_tp s2 = dk_next k now" "filenames_q s2 = filenames_q s" "ds_formatter s2 = pf"
    using file_write_dated [OF io, of ?s1 l] s1 by (auto simp: same_setup_def)
  have q: "cq_wf (filenames_q s2)" "0 < max_items (filenames_q s2)" "cq_cap (filenames_q s2) = n" "cq_list (filenames_q s2) = last_n n names" "0 < n"
    using s s2(7) by (simp_all add: dated_ok_def)
  have sub: "set (last_n n names) \<subseteq> set names" by (simp add: last_n_def set_drop_subset)
  have nd: "\<forall>g\<in>set (cq_list (filenames_q s2)). \<not> is_dir g s2"
    using s s2(5) sub q(4) file_ok_dirs [of s2 s] by (auto simp: dated_ok_def same_setup_def file_ok_def)
  have sz: "cq_size (filenames_q s2) = min n (length names)" using length_cq_list [of "filenames_q s2"] q(4) length_last_n [of n names] by simp
  obtain s' where s': "delete_old io s2 = io_ret () s'" "cq_wf (filenames_q s')" "max_items (filenames_q s') = max_items (filenames_q s2)"
    "cq_list (filenames_q s') = last_n n (last_n n names @ [f])"
    "dom (fs_files s') = insert f (dom (fs_files s)) - (if n \<le> length names then {hd (last_n n names)} else {})"
    "fd s' = fd s2" "same_setup s2 s'" "rotation_tp s' = rotation_tp s2" "ds_formatter s' = pf"
    using delete_old_dated [OF io q(1,2) _ nd] q(3-5) s2(2,4,8) sz by (auto simp: min_def split: if_splits)
  have run: "dated_sink_it k env io now m s = io_ret () s'"
    using True f s1(1,5,7) s2(1,5) s'(1) s q(5) name by (simp add: dated_sink_it_def io_bind_def same_setup_def dated_ok_def Let_def)
  have stp: "same_setup s s'" using s2(5) s'(7) by (simp add: same_setup_def)
  have l: "cq_list (filenames_q s') = last_n n (names @ [f])" using s'(4) last_n_last_n [of n names "[f]"] by simp
  have dom: "g \<in> dom (fs_files s') \<longleftrightarrow> g \<in> set (last_n n (names @ [f]))" if "g \<in> set (names @ [f])" for g
  proof (cases "n \<le> length names")
    case False
    then show ?thesis using that s s'(5) by (auto simp: last_n_def dated_ok_def)
  next
    case le: True
    then obtain h t where ht: "last_n n names = h # t" using q(5) by (cases "last_n n names") (auto simp: last_n_def)
    have d: "distinct (h # t)" using nw(1) ht by (metis distinct_append distinct_drop last_n_def)
    have "h \<noteq> f" using sub ht nw(1) by auto
    moreover have "last_n n (names @ [f]) = t @ [f]" using le ht q(5) by (simp add: last_n_snoc)
    moreover have "fs_files s g \<noteq> None \<longleftrightarrow> g \<in> set (h # t)" if "g \<in> set names" using s that ht by (simp add: dated_ok_def)
    ultimately show ?thesis using that s'(5) le ht d by (auto simp: dom_def)
  qed
  have "dated_ok n (names @ [f]) s'"
    unfolding dated_ok_def
  proof (intro conjI)
    show "fd s' \<noteq> None" "cq_wf (filenames_q s')" "0 < max_items (filenames_q s')" using s2(3) s'(2,3,6) q(2) by simp_all
    show "cq_cap (filenames_q s') = n" using s'(3) q(3) by (simp add: cq_cap_def)
    show "cq_list (filenames_q s') = last_n n (names @ [f])" by (rule l)
    have "ds_max_files s' = ds_max_files s" "fs_dirs s' = fs_dirs s" using stp by (simp_all add: same_setup_def)
    then show "ds_max_files s' = n" "\<forall>f\<in>set (names @ [f]). file_ok f s'"
      using s nw(2) file_ok_dirs [of s' s] by (simp_all add: dated_ok_def)
    show "\<forall>g\<in>set (names @ [f]). fs_files s' g \<noteq> None \<longleftrightarrow> g \<in> set (last_n n (names @ [f]))" using dom by (simp only: domIff [symmetric]) blast
  qed (rule q(5))
  then show ?thesis using True run stp s'(8,9) s2(6) by simp
qed

lemma dated_all_ok:
  assumes "faultless io" "dated_ok n names s" "format_seq env (ds_formatter s) (map snd calls) = Ok lines"
    and "distinct (names @ opened_names k env (ds_base s) (rotation_tp s) calls)"
    and "\<forall>f\<in>set (opened_names k env (ds_base s) (rotation_tp s) calls). file_ok f s"
  shows "\<exists>s'. dated_all k env io calls s = Ok s' \<and> dated_ok n (names @ opened_names k env (ds_base s) (rotation_tp s) calls) s'"
  using assms
proof (induction calls arbitrary: names s lines)
  case (Cons c calls)
  obtain now m where c: "c = (now, m)" by (cases c)
  obtain pf m' l ls where f: "format_msg env (ds_formatter s) m [] = Ok (pf, m', l)" "format_seq env pf (map snd calls) = Ok ls"
    using Cons.prems(3) c by (auto simp: bind_outcome_Ok_iff)
  let ?f = "dk_name k (ds_base s) (now_tm env (time m))"
  let ?tp = "if rotation_tp s \<le> time m then dk_next k now else rotation_tp s"
  let ?names = "if rotation_tp s \<le> time m then names @ [?f] else names"
  have o: "names @ opened_names k env (ds_base s) (rotation_tp s) (c # calls) = ?names @ opened_names k env (ds_base s) ?tp calls" using c by simp
  have new: "distinct (names @ [?f]) \<and> file_ok ?f s" if "rotation_tp s \<le> time m" using Cons.prems(4,5) c that by simp
  obtain s1 where s1: "dated_sink_it k env io now m s = io_ret () s1" "same_setup s s1" "ds_formatter s1 = pf" "dated_ok n ?names s1" "rotation_tp s1 = ?tp"
    using dated_sink_it_ok [OF Cons.prems(1,2) f(1) new refl, where now = now] by (auto split: if_splits)
  have b: "ds_base s1 = ds_base s" "fs_dirs s1 = fs_dirs s" using s1(2) by (simp_all add: same_setup_def)
  have "\<forall>f\<in>set (opened_names k env (ds_base s1) (rotation_tp s1) calls). file_ok f s1"
    using Cons.prems(5) c b s1(5) file_ok_dirs [of s1 s] by (auto split: if_splits)
  then obtain s' where "dated_all k env io calls s1 = Ok s'" "dated_ok n (?names @ opened_names k env (ds_base s) ?tp calls) s'"
    using Cons.IH [OF Cons.prems(1) s1(4), of ls] f(2) s1(3,5) b(1) Cons.prems(4) o by auto
  then show ?case unfolding o using c s1(1) by auto
qed auto

lemma dated_new_ok:
  assumes "faultless io" "0 < n" "n < 2 ^ 16" and f: "f = dk_name k base (now_tm env now1)" "file_ok f sys"
    and now3: "dk_name k base (now_tm env now3) = f" "\<not> path_exists (dk_name k base (now_tm env (now3 - dk_period k))) sys" "dk_name k base (now_tm env (now3 - dk_period k)) \<noteq> f"
  shows "\<exists>s. dated_new k env io base truncated n pf now1 now2 now3 sys = io_ret () s \<and> dated_ok n [f] s \<and> ds_base s = base \<and>
    rotation_tp s = dk_next k now2 \<and> ds_formatter s = pf \<and> fs_dirs s = fs_dirs sys"
proof -
  let ?s = "\<lparr>fs_files = fs_files sys, fs_dirs = fs_dirs sys, fs_calls = fs_calls sys, fd = None, fh_filename = [], ds_base = base,
          rotation_tp = 0, ds_truncate = truncated, ds_max_files = n, filenames_q = circular_q_none, ds_formatter = pf\<rparr>"
  have ok: "file_ok f ?s" using f(2) by (subst file_ok_dirs [of _ sys]) simp_all
  obtain s1 where s1: "file_open io f truncated ?s = io_ret () s1" "dom (fs_files s1) = insert f (dom (fs_files sys))" "fd s1 = Some (f, [])"
    "same_setup ?s s1" "ds_formatter s1 = pf"
    using file_open_dated [OF assms(1) ok] by auto
  let ?s1 = "s1\<lparr>rotation_tp := dk_next k now2\<rparr>"
  let ?g = "dk_name k base (now_tm env (now3 - dk_period k))"
  have b: "ds_base s1 = base" "ds_max_files s1 = n" "fs_dirs s1 = fs_dirs sys" using s1(4) by (simp_all add: same_setup_def)
  have ex: "path_exists f ?s1" "\<not> path_exists ?g ?s1"
    using s1(2) now3(2,3) b(3) by (auto simp: path_exists_def is_dir_def dom_def)
  obtain n' where n: "n = Suc n'" using assms(2) by (cases n) auto
  have "dated_names k env base n' (now3 - dk_period k) ?s1 = []" using ex(2) by (cases n') simp_all
  then have dn: "dated_names k env base n now3 ?s1 = [f]" using ex(1) now3(1) n by simp
  have nb: "n < 2 ^ 64 - 1" using assms(3) by simp
  obtain q where q: "cq_push_back f (circular_q_new [] n) = Ok q" "cq_wf q" "max_items q = max_items (circular_q_new ([] :: string) n)" "cq_list q = [f]"
    using cq_push_list [of "circular_q_new [] n" f] cq_wf_new [of "[]" n] nb assms(2) length_cq_list [of "circular_q_new ([] :: string) n"] by auto
  have "init_filenames_q k env now3 ?s1 = Ok (?s1\<lparr>filenames_q := q\<rparr>)" using b dn q(1) by (simp add: init_filenames_q_def)
  then have new: "dated_new k env io base truncated n pf now1 now2 now3 sys = io_ret () (?s1\<lparr>filenames_q := q\<rparr>)"
    using s1(1) assms(2) f(1) by (simp add: dated_new_def io_bind_def)
  have cap: "cq_cap q = n" "0 < max_items q" using q(3) nb by (simp_all add: cq_cap_def circular_q_new_def Let_def)
  have "last_n n [f] = [f]" using assms(2) by (simp add: last_n_def)
  moreover have "file_ok f (?s1\<lparr>filenames_q := q\<rparr>)" using f(2) b(3) by (subst file_ok_dirs [of _ sys]) simp_all
  moreover have "fs_files s1 f \<noteq> None" using s1(2) by (metis domIff insertI1)
  ultimately have "dated_ok n [f] (?s1\<lparr>filenames_q := q\<rparr>)" using q(2,4) cap s1(3) b(2) assms(2) by (simp add: dated_ok_def)
  then show ?thesis using new b s1(5) by (intro exI [of _ "?s1\<lparr>filenames_q := q\<rparr>"]) simp
qed

section \<open>Properties\<close>


lemma zero_pad_no_slash: "slash \<notin> set (zero_pad w n)"
  using decimal_digits by (auto simp: zero_pad_def slash_def)

lemma hourly_name_ok: "file_ok (hourly_calc_filename ''a.log'' t) \<lparr>fs_files = Map.empty, fs_dirs = {}, fs_calls = 0\<rparr>"
proof -
  let ?p = "hourly_calc_filename ''a.log'' t"
  have sp: "split_by_extension ''a.log'' = (''a'', ''.log'')" by (simp add: split_by_extension_def find_last_def slash_def)
  have ns: "slash \<notin> set ?p" using zero_pad_no_slash by (simp add: hourly_calc_filename_def sp) (simp add: slash_def)
  have ne: "?p \<noteq> []" by (simp add: hourly_calc_filename_def sp)
  have l: "last ?p \<noteq> slash" using ns ne by (metis last_in_set)
  have "dir_name ?p = []" using ns by (simp add: dir_name_def find_last_None [THEN iffD2])
  then show ?thesis using l ne by (simp add: file_ok_def parent_ok_def is_dir_def strip_slashes_id)
qed

definition demo_mktime :: "tm \<Rightarrow> int" where
  "demo_mktime t = tm_hour t * 3600"


end
