(* ===== verification/Log_Registry.thy ===== *)
theory Log_Registry
  imports Log_Logger
begin

text \<open>
  The registry (\<^verbatim>\<open>details/registry-inl.h\<close>) behind the free functions of \<^verbatim>\<open>spdlog.h\<close>: loggers by name, the
  default logger, and the settings applied to present and future loggers. Loggers are shared, so they
  live in a heap beside the sinks. \<^verbatim>\<open>unordered_map\<close> is an association list with distinct keys. The thread
  pool of asynchronous loggers and the periodic flusher are not part of the state.
\<close>

section \<open>State\<close>

record log_heap = log_world +
  h_loggers :: "oid \<rightharpoonup> logger"
  h_next :: oid

record registry =
  loggers :: "(string \<times> oid) list"
  log_levels :: "(string \<times> level_enum) list"
  reg_formatter :: pattern_formatter
  global_log_level :: level_enum
  reg_flush_level :: level_enum
  reg_err_handler :: bool
  default_logger :: "oid option"
  automatic_registration :: bool
  backtrace_n_messages :: nat

text \<open>Assignment through \<^verbatim>\<open>operator[]\<close> and \<^verbatim>\<open>erase\<close> of the maps.\<close>

definition map_put :: "'k \<Rightarrow> 'v \<Rightarrow> ('k \<times> 'v) list \<Rightarrow> ('k \<times> 'v) list" where
  "map_put k x m = (k, x) # filter (\<lambda>(k', _). k' \<noteq> k) m"

definition map_erase :: "'k \<Rightarrow> ('k \<times> 'v) list \<Rightarrow> ('k \<times> 'v) list" where
  "map_erase k m = filter (\<lambda>(k', _). k' \<noteq> k) m"

definition deref_logger :: "oid \<Rightarrow> log_heap \<Rightarrow> logger outcome" where
  "deref_logger lp h = (case h_loggers h lp of None \<Rightarrow> Ub NullDeref | Some lg \<Rightarrow> Ok lg)"

definition update_logger :: "(logger \<Rightarrow> logger) \<Rightarrow> oid \<Rightarrow> log_heap \<Rightarrow> log_heap outcome" where
  "update_logger f lp h = bind_outcome (deref_logger lp h) (\<lambda>lg. Ok (h\<lparr>h_loggers := (h_loggers h)(lp \<mapsto> f lg)\<rparr>))"

text \<open>\<^verbatim>\<open>for (auto &l : loggers_) f(l.second)\<close>.\<close>

primrec for_loggers :: "(oid \<Rightarrow> log_heap \<Rightarrow> log_heap outcome) \<Rightarrow> (string \<times> oid) list \<Rightarrow> log_heap \<Rightarrow> log_heap outcome" where
  "for_loggers f [] h = Ok h"
| "for_loggers f (e # es) h = bind_outcome (f (snd e) h) (for_loggers f es)"

text \<open>An operation on the sinks, inside the heap.\<close>

definition lift_world :: "(log_world \<Rightarrow> log_world outcome) \<Rightarrow> log_heap \<Rightarrow> log_heap outcome" where
  "lift_world f h =
     bind_outcome (f (log_world.truncate h)) (\<lambda>w. Ok (log_world.extend w (log_world.more h)))"

section \<open>Operations\<close>

text \<open>\<^verbatim>\<open>registry()\<close>: the default logger with its colour console sink. \<open>terminal\<close> as for the sink.\<close>

definition registry_new :: "bool \<Rightarrow> registry \<times> log_heap" where
  "registry_new terminal =
     (\<lparr>loggers = [([], 0)], log_levels = [], reg_formatter = pattern_formatter_default LocalTime default_eol,
       global_log_level = Info, reg_flush_level = Off, reg_err_handler = False, default_logger = Some 0,
       automatic_registration = True, backtrace_n_messages = 0\<rparr>,
      \<lparr>w_sinks = [0 \<mapsto> ansicolor_sink_new terminal ColorAutomatic], err_counter = 0, last_report_time = 0, reports = [],
       custom_reports = [], h_loggers = [0 \<mapsto> logger_new [] [0]], h_next = 1\<rparr>)"

definition throw_if_exists :: "string \<Rightarrow> registry \<Rightarrow> unit outcome" where
  "throw_if_exists n r = (if map_of (loggers r) n \<noteq> None then Throw else Ok ())"

definition register_logger :: "oid \<Rightarrow> registry \<Rightarrow> log_heap \<Rightarrow> registry outcome" where
  "register_logger lp r h =
     bind_outcome (deref_logger lp h) (\<lambda>lg.
     bind_outcome (throw_if_exists (name lg) r) (\<lambda>_. Ok (r\<lparr>loggers := map_put (name lg) lp (loggers r)\<rparr>)))"

definition set_logger_formatter :: "int \<Rightarrow> pattern_formatter \<Rightarrow> oid \<Rightarrow> log_heap \<Rightarrow> log_heap outcome" where
  "set_logger_formatter now f lp h = bind_outcome (deref_logger lp h) (\<lambda>lg. lift_world (logger_set_formatter now f lg) h)"

definition initialize_logger :: "int \<Rightarrow> log_msg \<Rightarrow> oid \<Rightarrow> registry \<Rightarrow> log_heap \<Rightarrow> (registry \<times> log_heap) outcome" where
  "initialize_logger now x0 lp r h =
     bind_outcome (set_logger_formatter now (pattern_formatter_clone now (reg_formatter r)) lp h) (\<lambda>h.
     bind_outcome (if reg_err_handler r then update_logger logger_set_error_handler lp h else Ok h) (\<lambda>h.
     bind_outcome (deref_logger lp h) (\<lambda>lg.
     let new_level = (case map_of (log_levels r) (name lg) of Some l \<Rightarrow> l | None \<Rightarrow> global_log_level r) in
     bind_outcome (update_logger (logger_flush_on (reg_flush_level r) \<circ> logger_set_level new_level) lp h) (\<lambda>h.
     bind_outcome (if backtrace_n_messages r > 0
                   then update_logger (logger_enable_backtrace x0 (backtrace_n_messages r)) lp h else Ok h) (\<lambda>h.
     if automatic_registration r then bind_outcome (register_logger lp r h) (\<lambda>r. Ok (r, h)) else Ok (r, h))))))"

definition registry_get :: "string \<Rightarrow> registry \<Rightarrow> oid option" where
  "registry_get n r = map_of (loggers r) n"

definition set_default_logger :: "oid option \<Rightarrow> registry \<Rightarrow> log_heap \<Rightarrow> registry outcome" where
  "set_default_logger new_default r h =
     bind_outcome (case default_logger r of None \<Rightarrow> Ok r
       | Some d \<Rightarrow> bind_outcome (deref_logger d h) (\<lambda>lg. Ok (r\<lparr>loggers := map_erase (name lg) (loggers r)\<rparr>))) (\<lambda>r.
     bind_outcome (case new_default of None \<Rightarrow> Ok r
       | Some d \<Rightarrow> bind_outcome (deref_logger d h) (\<lambda>lg. Ok (r\<lparr>loggers := map_put (name lg) d (loggers r)\<rparr>))) (\<lambda>r.
     Ok (r\<lparr>default_logger := new_default\<rparr>)))"

definition registry_set_formatter :: "int \<Rightarrow> pattern_formatter \<Rightarrow> registry \<Rightarrow> log_heap \<Rightarrow> (registry \<times> log_heap) outcome" where
  "registry_set_formatter now f r h =
     bind_outcome (for_loggers (set_logger_formatter now (pattern_formatter_clone now f)) (loggers r) h) (\<lambda>h.
       Ok (r\<lparr>reg_formatter := f\<rparr>, h))"

definition registry_enable_backtrace :: "log_msg \<Rightarrow> nat \<Rightarrow> registry \<Rightarrow> log_heap \<Rightarrow> (registry \<times> log_heap) outcome" where
  "registry_enable_backtrace x0 n r h =
     bind_outcome (for_loggers (update_logger (logger_enable_backtrace x0 n)) (loggers r) h) (\<lambda>h.
       Ok (r\<lparr>backtrace_n_messages := n\<rparr>, h))"

definition registry_disable_backtrace :: "registry \<Rightarrow> log_heap \<Rightarrow> (registry \<times> log_heap) outcome" where
  "registry_disable_backtrace r h =
     bind_outcome (for_loggers (update_logger logger_disable_backtrace) (loggers r) h) (\<lambda>h.
       Ok (r\<lparr>backtrace_n_messages := 0\<rparr>, h))"

definition registry_set_level :: "level_enum \<Rightarrow> registry \<Rightarrow> log_heap \<Rightarrow> (registry \<times> log_heap) outcome" where
  "registry_set_level l r h =
     bind_outcome (for_loggers (update_logger (logger_set_level l)) (loggers r) h) (\<lambda>h. Ok (r\<lparr>global_log_level := l\<rparr>, h))"

definition registry_flush_on :: "level_enum \<Rightarrow> registry \<Rightarrow> log_heap \<Rightarrow> (registry \<times> log_heap) outcome" where
  "registry_flush_on l r h =
     bind_outcome (for_loggers (update_logger (logger_flush_on l)) (loggers r) h) (\<lambda>h. Ok (r\<lparr>reg_flush_level := l\<rparr>, h))"

definition registry_set_error_handler :: "registry \<Rightarrow> log_heap \<Rightarrow> (registry \<times> log_heap) outcome" where
  "registry_set_error_handler r h =
     bind_outcome (for_loggers (update_logger logger_set_error_handler) (loggers r) h) (\<lambda>h. Ok (r\<lparr>reg_err_handler := True\<rparr>, h))"

definition apply_all :: "(oid \<Rightarrow> log_heap \<Rightarrow> log_heap outcome) \<Rightarrow> registry \<Rightarrow> log_heap \<Rightarrow> log_heap outcome" where
  "apply_all fn r h = for_loggers fn (loggers r) h"

definition flush_all :: "registry \<Rightarrow> log_heap \<Rightarrow> log_heap outcome" where
  "flush_all r h = for_loggers (\<lambda>lp h. bind_outcome (deref_logger lp h) (\<lambda>lg. lift_world (logger_flush lg) h)) (loggers r) h"

definition registry_drop :: "string \<Rightarrow> registry \<Rightarrow> log_heap \<Rightarrow> registry outcome" where
  "registry_drop n r h =
     (let r = r\<lparr>loggers := map_erase n (loggers r)\<rparr> in
      case default_logger r of None \<Rightarrow> Ok r
      | Some d \<Rightarrow> bind_outcome (deref_logger d h) (\<lambda>lg. Ok (if name lg = n then r\<lparr>default_logger := None\<rparr> else r)))"

definition drop_all :: "registry \<Rightarrow> registry" where
  "drop_all r = r\<lparr>loggers := [], default_logger := None\<rparr>"

definition set_automatic_registration :: "bool \<Rightarrow> registry \<Rightarrow> registry" where
  "set_automatic_registration b r = r\<lparr>automatic_registration := b\<rparr>"

primrec apply_levels :: "(string \<times> level_enum) list \<Rightarrow> level_enum option \<Rightarrow> (string \<times> oid) list \<Rightarrow> log_heap \<Rightarrow> log_heap outcome" where
  "apply_levels levels global [] h = Ok h"
| "apply_levels levels global (e # es) h =
     bind_outcome (case map_of levels (fst e) of
         Some l \<Rightarrow> update_logger (logger_set_level l) (snd e) h
       | None \<Rightarrow> (case global of Some l \<Rightarrow> update_logger (logger_set_level l) (snd e) h | None \<Rightarrow> Ok h))
       (apply_levels levels global es)"

definition set_levels :: "(string \<times> level_enum) list \<Rightarrow> level_enum option \<Rightarrow> registry \<Rightarrow> log_heap \<Rightarrow> (registry \<times> log_heap) outcome" where
  "set_levels levels global r h =
     (let r = r\<lparr>log_levels := levels, global_log_level := (case global of Some l \<Rightarrow> l | None \<Rightarrow> global_log_level r)\<rparr>
      in bind_outcome (apply_levels levels global (loggers r) h) (\<lambda>h. Ok (r, h)))"

section \<open>The free functions the programs use\<close>

text \<open>\<^verbatim>\<open>spdlog::set_pattern\<close>.\<close>

definition spdlog_set_pattern :: "int \<Rightarrow> string \<Rightarrow> pattern_time_type \<Rightarrow> registry \<Rightarrow> log_heap \<Rightarrow> (registry \<times> log_heap) outcome" where
  "spdlog_set_pattern now pat tt r h =
     registry_set_formatter now (pattern_formatter_new now pat tt default_eol Map.empty) r h"

text \<open>The logging macros go through \<^verbatim>\<open>default_logger_raw()\<close>.\<close>

definition default_log_all :: "log_env \<Rightarrow> int \<Rightarrow> log_call list \<Rightarrow> registry \<Rightarrow> log_heap \<Rightarrow> log_heap outcome" where
  "default_log_all env now calls r h =
     (case default_logger r of None \<Rightarrow> Ub NullDeref
      | Some d \<Rightarrow> bind_outcome (deref_logger d h) (\<lambda>lg.
          bind_outcome (log_all env now calls lg (log_world.truncate h)) (\<lambda>(lg, w).
            Ok ((log_world.extend w (log_world.more h))\<lparr>h_loggers := (h_loggers h)(d \<mapsto> lg)\<rparr>))))"

section \<open>Well-formed registries\<close>

text \<open>Live loggers have live sinks, and the next address is free.\<close>

definition heap_ok :: "log_heap \<Rightarrow> bool" where
  "heap_ok h \<longleftrightarrow> (\<forall>p lg. h_loggers h p = Some lg \<longrightarrow> p < h_next h \<and> (\<forall>s\<in>set (sinks lg). w_sinks h s \<noteq> None))"

text \<open>Loggers are filed once, under their own name; the default logger is one of them.\<close>

definition reg_ok :: "registry \<Rightarrow> log_heap \<Rightarrow> bool" where
  "reg_ok r h \<longleftrightarrow> distinct (map fst (loggers r)) \<and>
     (\<forall>n p. (n, p) \<in> set (loggers r) \<longrightarrow> (\<exists>lg. h_loggers h p = Some lg \<and> name lg = n)) \<and>
     (\<forall>d. default_logger r = Some d \<longrightarrow> (\<exists>lg. h_loggers h d = Some lg \<and> (name lg, d) \<in> set (loggers r)))"

text \<open>Changes that keep names and sinks.\<close>

definition lheap_le :: "log_heap \<Rightarrow> log_heap \<Rightarrow> bool" where
  "lheap_le h h' \<longleftrightarrow> h_next h \<le> h_next h' \<and>
     (\<forall>p lg. h_loggers h p = Some lg \<longrightarrow> (\<exists>lg'. h_loggers h' p = Some lg' \<and> name lg' = name lg \<and> sinks lg' = sinks lg)) \<and>
     (\<forall>s. w_sinks h s \<noteq> None \<longrightarrow> w_sinks h' s \<noteq> None)"

lemma lheap_le_refl [simp]: "lheap_le h h"
  by (simp add: lheap_le_def)

lemma lheap_le_trans: "lheap_le a b \<Longrightarrow> lheap_le b c \<Longrightarrow> lheap_le a c"
  unfolding lheap_le_def by (intro conjI) (auto, metis)

lemma reg_ok_le: "reg_ok r h \<Longrightarrow> lheap_le h h' \<Longrightarrow> reg_ok r h'"
  unfolding reg_ok_def lheap_le_def by metis

text \<open>An operation on a live logger that returns, and keeps the heap in order.\<close>

definition keeps_heap :: "(oid \<Rightarrow> log_heap \<Rightarrow> log_heap outcome) \<Rightarrow> bool" where
  "keeps_heap f \<longleftrightarrow> (\<forall>p h. heap_ok h \<longrightarrow> h_loggers h p \<noteq> None \<longrightarrow> (\<exists>h'. f p h = Ok h' \<and> heap_ok h' \<and> lheap_le h h'))"

definition keeps_identity :: "(logger \<Rightarrow> logger) \<Rightarrow> bool" where
  "keeps_identity f \<longleftrightarrow> (\<forall>lg. name (f lg) = name lg \<and> sinks (f lg) = sinks lg)"

lemma keeps_identity_simps [simp]:
  "keeps_identity (logger_set_level l)" "keeps_identity (logger_flush_on l)" "keeps_identity (logger_enable_backtrace x0 n)"
  "keeps_identity logger_disable_backtrace" "keeps_identity logger_set_error_handler"
  "keeps_identity (logger_flush_on l \<circ> logger_set_level l')"
  by (simp_all add: keeps_identity_def logger_set_level_def logger_flush_on_def logger_enable_backtrace_def
      logger_disable_backtrace_def logger_set_error_handler_def)

lemma update_logger_keeps: "keeps_identity f \<Longrightarrow> keeps_heap (update_logger f)"
  by (auto simp: keeps_heap_def keeps_identity_def update_logger_def deref_logger_def heap_ok_def lheap_le_def)

lemma set_formatters_keeps:
  "\<forall>s\<in>set ss. w_sinks w s \<noteq> None \<Longrightarrow> \<exists>w'. set_formatters now f ss w = Ok w' \<and> (\<forall>s. w_sinks w s \<noteq> None \<longrightarrow> w_sinks w' s \<noteq> None)"
proof (induction ss arbitrary: w)
  case (Cons s ss)
  then obtain sk where sk: "w_sinks w s = Some sk" by auto
  let ?w = "w\<lparr>w_sinks := (w_sinks w)(s \<mapsto> sink_set_formatter (if ss = [] then f else pattern_formatter_clone now f) sk)\<rparr>"
  have "\<exists>w'. set_formatters now f ss ?w = Ok w' \<and> (\<forall>s. w_sinks ?w s \<noteq> None \<longrightarrow> w_sinks w' s \<noteq> None)"
    using Cons.prems by (intro Cons.IH) auto
  then show ?case using sk by (auto simp: with_sink_def Let_def split: if_splits)
qed simp

lemma flush_sinks_keeps:
  "\<forall>s\<in>set ss. w_sinks w s \<noteq> None \<Longrightarrow> \<exists>w'. flush_sinks ss w = Ok w' \<and> (\<forall>s. w_sinks w s \<noteq> None \<longrightarrow> w_sinks w' s \<noteq> None)"
proof (induction ss arbitrary: w)
  case (Cons s ss)
  then obtain sk where sk: "w_sinks w s = Some sk" by auto
  have "\<exists>w'. flush_sinks ss (w\<lparr>w_sinks := (w_sinks w)(s \<mapsto> sink_flush sk)\<rparr>) = Ok w' \<and>
      (\<forall>t. w_sinks (w\<lparr>w_sinks := (w_sinks w)(s \<mapsto> sink_flush sk)\<rparr>) t \<noteq> None \<longrightarrow> w_sinks w' t \<noteq> None)"
    using Cons.prems by (intro Cons.IH) auto
  then show ?case using sk by (auto simp: with_sink_def split: if_splits)
qed simp

text \<open>Lifting an operation on the sinks of a live logger.\<close>

lemma lift_world_keeps:
  assumes "\<And>lg w. \<forall>s\<in>set (sinks lg). w_sinks w s \<noteq> None \<Longrightarrow>
      \<exists>w'. g lg w = Ok w' \<and> (\<forall>s. w_sinks w s \<noteq> None \<longrightarrow> w_sinks w' s \<noteq> None)"
  shows "keeps_heap (\<lambda>p h. bind_outcome (deref_logger p h) (\<lambda>lg. lift_world (g lg) h))"
  unfolding keeps_heap_def
proof (intro allI impI)
  fix p h
  assume h: "heap_ok h" "h_loggers h p \<noteq> None"
  then obtain lg where lg: "h_loggers h p = Some lg" by auto
  have "\<forall>s\<in>set (sinks lg). w_sinks (log_world.truncate h) s \<noteq> None"
    using h(1) lg by (auto simp: heap_ok_def log_world.defs)
  then obtain w' where w': "g lg (log_world.truncate h) = Ok w'" "\<forall>s. w_sinks (log_world.truncate h) s \<noteq> None \<longrightarrow> w_sinks w' s \<noteq> None"
    using assms by blast
  let ?h = "log_world.extend w' (log_world.more h)"
  have e: "h_loggers ?h = h_loggers h" "h_next ?h = h_next h" "w_sinks ?h = w_sinks w'"
    by (cases h, simp add: log_world.defs)+
  have "lheap_le h ?h" "heap_ok ?h" using h(1) w'(2) e by (auto simp: lheap_le_def heap_ok_def log_world.defs)
  then show "\<exists>h'. bind_outcome (deref_logger p h) (\<lambda>lg. lift_world (g lg) h) = Ok h' \<and> heap_ok h' \<and> lheap_le h h'"
    using w'(1) lg by (simp add: deref_logger_def lift_world_def)
qed

lemma for_loggers_keeps:
  assumes "keeps_heap f"
  shows "heap_ok h \<Longrightarrow> \<forall>e\<in>set es. h_loggers h (snd e) \<noteq> None \<Longrightarrow> \<exists>h'. for_loggers f es h = Ok h' \<and> heap_ok h' \<and> lheap_le h h'"
proof (induction es arbitrary: h)
  case (Cons e es)
  then obtain h1 where h1: "f (snd e) h = Ok h1" "heap_ok h1" "lheap_le h h1" 
    using assms unfolding keeps_heap_def by (metis list.set_intros(1))
  have "\<forall>e\<in>set es. h_loggers h1 (snd e) \<noteq> None" using Cons.prems(2) h1(3) unfolding lheap_le_def by fastforce
  from Cons.IH [OF h1(2) this] show ?case using h1 by (auto intro: lheap_le_trans)
qed simp

lemma reg_live: "reg_ok r h \<Longrightarrow> \<forall>e\<in>set (loggers r). h_loggers h (snd e) \<noteq> None"
  unfolding reg_ok_def by fastforce

text \<open>The operations as events, on registries with their heap. A new logger is made from live sinks.\<close>

datatype reg_op =
    NewLogger string "oid list"
  | Register oid
  | Initialize int log_msg oid
  | SetDefault "oid option"
  | SetFormatter int pattern_formatter
  | EnableBacktrace log_msg nat
  | DisableBacktrace
  | SetLevel level_enum
  | FlushOn level_enum
  | SetErrorHandler
  | SetLevels "(string \<times> level_enum) list" "level_enum option"
  | FlushAll
  | DropLogger string
  | DropAll
  | SetAutomatic bool

definition new_logger :: "string \<Rightarrow> oid list \<Rightarrow> log_heap \<Rightarrow> log_heap" where
  "new_logger n ss h = h\<lparr>h_loggers := (h_loggers h)(h_next h \<mapsto> logger_new n ss), h_next := h_next h + 1\<rparr>"

fun reg_exec :: "reg_op \<Rightarrow> registry \<Rightarrow> log_heap \<Rightarrow> (registry \<times> log_heap) outcome" where
  "reg_exec (NewLogger n ss) r h = Ok (r, new_logger n ss h)"
| "reg_exec (Register p) r h = bind_outcome (register_logger p r h) (\<lambda>r. Ok (r, h))"
| "reg_exec (Initialize now x0 p) r h = initialize_logger now x0 p r h"
| "reg_exec (SetDefault d) r h = bind_outcome (set_default_logger d r h) (\<lambda>r. Ok (r, h))"
| "reg_exec (SetFormatter now f) r h = registry_set_formatter now f r h"
| "reg_exec (EnableBacktrace x0 n) r h = registry_enable_backtrace x0 n r h"
| "reg_exec DisableBacktrace r h = registry_disable_backtrace r h"
| "reg_exec (SetLevel l) r h = registry_set_level l r h"
| "reg_exec (FlushOn l) r h = registry_flush_on l r h"
| "reg_exec SetErrorHandler r h = registry_set_error_handler r h"
| "reg_exec (SetLevels ls g) r h = set_levels ls g r h"
| "reg_exec FlushAll r h = bind_outcome (flush_all r h) (\<lambda>h. Ok (r, h))"
| "reg_exec (DropLogger n) r h = bind_outcome (registry_drop n r h) (\<lambda>r. Ok (r, h))"
| "reg_exec DropAll r h = Ok (drop_all r, h)"
| "reg_exec (SetAutomatic b) r h = Ok (set_automatic_registration b r, h)"

fun op_live :: "reg_op \<Rightarrow> log_heap \<Rightarrow> bool" where
  "op_live (NewLogger n ss) h \<longleftrightarrow> (\<forall>s\<in>set ss. w_sinks h s \<noteq> None)"
| "op_live (Register p) h \<longleftrightarrow> h_loggers h p \<noteq> None"
| "op_live (Initialize now x0 p) h \<longleftrightarrow> h_loggers h p \<noteq> None"
| "op_live (SetDefault (Some p)) h \<longleftrightarrow> h_loggers h p \<noteq> None"
| "op_live _ h \<longleftrightarrow> True"

definition reg_good :: "registry \<times> log_heap \<Rightarrow> bool" where
  "reg_good rh \<longleftrightarrow> heap_ok (snd rh) \<and> reg_ok (fst rh) (snd rh)"

lemma reg_ok_cong: "loggers r' = loggers r \<Longrightarrow> default_logger r' = default_logger r \<Longrightarrow> reg_ok r' h = reg_ok r h"
  by (simp add: reg_ok_def)

lemma for_loggers_good:
  assumes "reg_good (r, h)" "keeps_heap f" "loggers r' = loggers r" "default_logger r' = default_logger r"
  shows "defined_by reg_good (bind_outcome (for_loggers f (loggers r) h) (\<lambda>h. Ok (r', h)))"
proof -
  have h: "heap_ok h" "reg_ok r h" using assms(1) by (simp_all add: reg_good_def)
  obtain h' where h': "for_loggers f (loggers r) h = Ok h'" "heap_ok h'" "lheap_le h h'"
    using for_loggers_keeps [OF assms(2) h(1) reg_live [OF h(2)]] by blast
  then show ?thesis using reg_ok_le [OF h(2) h'(3)] reg_ok_cong [OF assms(3,4)] by (simp add: reg_good_def)
qed

lemma set_logger_formatter_keeps: "keeps_heap (set_logger_formatter now f)"
  unfolding set_logger_formatter_def logger_set_formatter_def [abs_def]
  by (rule lift_world_keeps [where g = "\<lambda>lg w. logger_set_formatter now f lg w", unfolded logger_set_formatter_def]) (rule set_formatters_keeps)

lemma flush_keeps: "keeps_heap (\<lambda>p h. bind_outcome (deref_logger p h) (\<lambda>lg. lift_world (logger_flush lg) h))"
  by (rule lift_world_keeps) (unfold logger_flush_def, rule flush_sinks_keeps)

lemma apply_levels_good:
  "heap_ok h \<Longrightarrow> \<forall>e\<in>set es. h_loggers h (snd e) \<noteq> None \<Longrightarrow> \<exists>h'. apply_levels ls g es h = Ok h' \<and> heap_ok h' \<and> lheap_le h h'"
proof (induction es arbitrary: h)
  case (Cons e es)
  have "\<exists>h1. (case map_of ls (fst e) of Some l \<Rightarrow> update_logger (logger_set_level l) (snd e) h
       | None \<Rightarrow> (case g of Some l \<Rightarrow> update_logger (logger_set_level l) (snd e) h | None \<Rightarrow> Ok h)) = Ok h1 \<and> heap_ok h1 \<and> lheap_le h h1"
    using update_logger_keeps [OF keeps_identity_simps(1), unfolded keeps_heap_def] Cons.prems by (simp split: option.split)
  then obtain h1 where h1: "(case map_of ls (fst e) of Some l \<Rightarrow> update_logger (logger_set_level l) (snd e) h
       | None \<Rightarrow> (case g of Some l \<Rightarrow> update_logger (logger_set_level l) (snd e) h | None \<Rightarrow> Ok h)) = Ok h1" "heap_ok h1" "lheap_le h h1"
    by blast
  have "\<forall>e\<in>set es. h_loggers h1 (snd e) \<noteq> None" using Cons.prems(2) h1(3) unfolding lheap_le_def by fastforce
  from Cons.IH [OF h1(2) this] show ?case using h1 by (auto intro: lheap_le_trans)
qed simp

lemma register_good:
  assumes "reg_good (r, h)" "h_loggers h p \<noteq> None"
  shows "defined_by (\<lambda>r'. reg_good (r', h)) (register_logger p r h)"
proof -
  obtain lg where lg: "h_loggers h p = Some lg" using assms(2) by auto
  show ?thesis
  proof (cases "map_of (loggers r) (name lg) = None")
    case True
    then have "filter (\<lambda>(k', _). k' \<noteq> name lg) (loggers r) = loggers r"
      by (auto simp: filter_id_conv map_of_eq_None_iff) (metis fst_conv image_eqI)
    then show ?thesis using assms lg True
      by (auto simp: register_logger_def deref_logger_def throw_if_exists_def reg_good_def reg_ok_def map_put_def map_of_eq_None_iff)
  qed (use lg in \<open>simp add: register_logger_def deref_logger_def throw_if_exists_def\<close>)
qed


lemma keeps_heap_stepE:
  assumes "keeps_heap f" "reg_good (r, h)" "h_loggers h p \<noteq> None"
  obtains h' where "f p h = Ok h'" "reg_good (r, h')" "h_loggers h' p \<noteq> None"
proof -
  have h: "heap_ok h" "reg_ok r h" using assms(2) by (simp_all add: reg_good_def)
  then obtain h' where h': "f p h = Ok h'" "heap_ok h'" "lheap_le h h'" using assms(1,3) unfolding keeps_heap_def by metis
  have "h_loggers h' p \<noteq> None" using h'(3) assms(3) unfolding lheap_le_def by fastforce
  then show thesis using that h' reg_ok_le [OF h(2) h'(3)] by (simp add: reg_good_def)
qed

lemma initialize_good:
  assumes "reg_good (r, h)" "h_loggers h p \<noteq> None"
  shows "defined_by reg_good (initialize_logger now x0 p r h)"
proof -
  obtain h1 where h1: "set_logger_formatter now (pattern_formatter_clone now (reg_formatter r)) p h = Ok h1" "reg_good (r, h1)" "h_loggers h1 p \<noteq> None"
    using keeps_heap_stepE [OF set_logger_formatter_keeps assms] by metis
  obtain h2 where h2: "(if reg_err_handler r then update_logger logger_set_error_handler p h1 else Ok h1) = Ok h2" "reg_good (r, h2)" "h_loggers h2 p \<noteq> None"
    using keeps_heap_stepE [OF update_logger_keeps [OF keeps_identity_simps(5)] h1(2,3)] h1 by metis
  then obtain lg where lg: "h_loggers h2 p = Some lg" by auto
  let ?l = "case map_of (log_levels r) (name lg) of Some l \<Rightarrow> l | None \<Rightarrow> global_log_level r"
  obtain h3 where h3: "update_logger (logger_flush_on (reg_flush_level r) \<circ> logger_set_level ?l) p h2 = Ok h3" "reg_good (r, h3)" "h_loggers h3 p \<noteq> None"
    using keeps_heap_stepE [OF update_logger_keeps [OF keeps_identity_simps(6)] h2(2,3)] by metis
  obtain h4 where h4: "(if backtrace_n_messages r > 0 then update_logger (logger_enable_backtrace x0 (backtrace_n_messages r)) p h3 else Ok h3) = Ok h4"
    "reg_good (r, h4)" "h_loggers h4 p \<noteq> None"
    using keeps_heap_stepE [OF update_logger_keeps [OF keeps_identity_simps(3)] h3(2,3)] h3 by metis
  have "initialize_logger now x0 p r h = (if automatic_registration r then bind_outcome (register_logger p r h4) (\<lambda>r. Ok (r, h4)) else Ok (r, h4))"
    unfolding initialize_logger_def h1(1) bind_outcome.simps h2(1) using lg h3(1) h4(1) by (simp add: deref_logger_def Let_def)
  then show ?thesis using defined_by_bind [OF register_good [OF h4(2,3)], of reg_good "\<lambda>r. Ok (r, h4)"] h4(2) by simp
qed

lemma set_default_good:
  assumes "reg_good (r, h)" "\<And>p. d = Some p \<Longrightarrow> h_loggers h p \<noteq> None"
  shows "defined_by (\<lambda>r'. reg_good (r', h)) (set_default_logger d r h)"
proof -
  have ok: "heap_ok h" "reg_ok r h" using assms(1) by (simp_all add: reg_good_def)
  have "\<exists>r1. (case default_logger r of None \<Rightarrow> Ok r
       | Some d \<Rightarrow> bind_outcome (deref_logger d h) (\<lambda>lg. Ok (r\<lparr>loggers := map_erase (name lg) (loggers r)\<rparr>))) = Ok r1 \<and>
      distinct (map fst (loggers r1)) \<and> set (loggers r1) \<subseteq> set (loggers r)"
    using ok(2) by (cases "default_logger r") (auto simp: reg_ok_def deref_logger_def map_erase_def distinct_map_filter)
  then obtain r1 where r1: "(case default_logger r of None \<Rightarrow> Ok r
       | Some d \<Rightarrow> bind_outcome (deref_logger d h) (\<lambda>lg. Ok (r\<lparr>loggers := map_erase (name lg) (loggers r)\<rparr>))) = Ok r1"
      "distinct (map fst (loggers r1))" "set (loggers r1) \<subseteq> set (loggers r)" by blast
  note e = set_default_logger_def [of d r h, unfolded r1(1) bind_outcome.simps]
  show ?thesis
  proof (cases d)
    case None
    then show ?thesis unfolding e using ok r1(2,3) by (auto simp: reg_good_def reg_ok_def)
  next
    case (Some p)
    then obtain lg where lg: "h_loggers h p = Some lg" using assms(2) by auto
    have "distinct (map fst (map_put (name lg) p (loggers r1)))" using r1(2) by (auto simp: map_put_def distinct_map_filter)
    moreover have "\<exists>lg'. h_loggers h q = Some lg' \<and> name lg' = n" if "(n, q) \<in> set (map_put (name lg) p (loggers r1))" for n q
      using that r1(3) ok(2) lg by (auto simp: map_put_def reg_ok_def)
    ultimately show ?thesis unfolding e using Some lg ok(1) by (auto simp: deref_logger_def reg_good_def reg_ok_def map_put_def)
  qed
qed

lemma drop_good: "reg_good (r, h) \<Longrightarrow> defined_by (\<lambda>r'. reg_good (r', h)) (registry_drop n r h)"
  by (cases "default_logger r")
    (auto simp: registry_drop_def reg_good_def reg_ok_def map_erase_def deref_logger_def distinct_map_filter Let_def)

lemma reg_exec_good:
  assumes "reg_good (r, h)" "op_live oper h"
  shows "defined_by reg_good (reg_exec oper r h)"
proof (cases oper)
  case (NewLogger n ss)
  have h: "heap_ok h" "reg_ok r h" using assms(1) by (simp_all add: reg_good_def)
  then have "h_loggers h (h_next h) = None" by (metis heap_ok_def less_irrefl not_None_eq)
  then have "lheap_le h (new_logger n ss h)" by (auto simp: lheap_le_def new_logger_def)
  moreover have "heap_ok (new_logger n ss h)"
    using h(1) NewLogger assms(2) by (auto simp: heap_ok_def new_logger_def logger_new_def less_Suc_eq)
  ultimately show ?thesis using reg_ok_le [OF h(2)] NewLogger by (simp add: reg_good_def)
next
  case (Register p)
  then show ?thesis using assms by (auto intro!: defined_by_bind [OF register_good])
next
  case (Initialize now x0 p)
  then show ?thesis using assms initialize_good by simp
next
  case (SetDefault d)
  then show ?thesis using assms by (auto intro!: defined_by_bind [OF set_default_good])
next
  case (SetFormatter now f)
  then show ?thesis using assms(1)
    by (auto simp: registry_set_formatter_def intro!: for_loggers_good set_logger_formatter_keeps)
next
  case (SetLevels ls g)
  have h: "heap_ok h" "reg_ok r h" using assms(1) by (simp_all add: reg_good_def)
  from apply_levels_good [OF h(1) reg_live [OF h(2)], of ls g] obtain h' where
    h': "apply_levels ls g (loggers r) h = Ok h'" "heap_ok h'" "lheap_le h h'" by blast
  then show ?thesis using SetLevels reg_ok_le [OF h(2) h'(3)] by (simp add: set_levels_def Let_def reg_good_def reg_ok_def)
next
  case FlushAll
  then show ?thesis using assms(1) by (auto simp: flush_all_def intro!: for_loggers_good flush_keeps)
next
  case (DropLogger n)
  then show ?thesis using assms by (auto intro!: defined_by_bind [OF drop_good])
qed (use assms(1) in \<open>auto simp: registry_enable_backtrace_def registry_disable_backtrace_def registry_set_level_def registry_flush_on_def
      registry_set_error_handler_def drop_all_def set_automatic_registration_def reg_good_def [of "(_, _)"] reg_ok_def
      intro!: for_loggers_good update_logger_keeps\<close>)


text \<open>Runs of the registry from program start.\<close>

inductive reg_reach :: "bool \<Rightarrow> registry \<Rightarrow> log_heap \<Rightarrow> bool" for terminal where
  start: "registry_new terminal = (r, h) \<Longrightarrow> reg_reach terminal r h"
| step: "reg_reach terminal r h \<Longrightarrow> op_live oper h \<Longrightarrow> reg_exec oper r h = Ok (r', h') \<Longrightarrow> reg_reach terminal r' h'"

lemma registry_new_good: "reg_good (registry_new terminal)"
  by (simp add: registry_new_def reg_good_def heap_ok_def reg_ok_def logger_new_def)

lemma reg_reach_good: "reg_reach terminal r h \<Longrightarrow> reg_good (r, h)"
proof (induction rule: reg_reach.induct)
  case (start r h)
  then show ?case using registry_new_good [of terminal] by simp
next
  case (step r h oper r' h')
  then show ?case using reg_exec_good [of r h oper] by simp
qed

lemma clone_cproxy: "pattern_formatter_clone now (pattern_formatter_new now' cproxy_pattern LocalTime default_eol Map.empty) =
    pattern_formatter_new now cproxy_pattern LocalTime default_eol Map.empty"
  by (simp add: pattern_formatter_clone_def cproxy_compiled)

lemma cproxy_new_pf: "pattern_formatter_new now cproxy_pattern LocalTime e Map.empty = cproxy_pf e (0, 0) tm_zero 0"
  by (simp add: cproxy_compiled cproxy_pf_def)

section \<open>Properties\<close>

text \<open>C23. The registry stays consistent: in every run from program start, with live arguments, each logger
  is filed exactly once and under its own name, the default logger is among them, all their sinks exist;
  and the next operation returns such a registry or throws (a second logger of a name), with no null
  dereference.\<close>
theorem registry_consistent:
  assumes "reg_reach terminal r h" "op_live oper h"
  shows "reg_good (r, h) \<and> defined_by reg_good (reg_exec oper r h)"
  using reg_reach_good [OF assms(1)] reg_exec_good [OF _ assms(2)] by blast

theorem registry_consistent_witness:
  "case registry_new True of (r, h) \<Rightarrow> reg_good (r, h) \<and> defined_by reg_good (reg_exec (SetLevel Debug) r h)"
proof -
  obtain r h where rh: "registry_new True = (r, h)" by (metis surj_pair)
  show ?thesis using registry_consistent [OF reg_reach.start [OF rh], of "SetLevel Debug"] rh by simp
qed

text \<open>What the programs write to the console: after \<^verbatim>\<open>set_pattern\<close> at the start of \<^verbatim>\<open>main\<close>, any messages
  logged through the default logger appear on the standard output, one line each and in order, those of
  level info and above and no others, each exactly as the pattern says and with its level letter in the
  colour of the level when the output is a colour terminal; no logging error is counted.\<close>
theorem cproxy_console_output:
  assumes "registry_new terminal = (r0, h0)" "zone_ok env off" "list_all (\<lambda>c. printable (call_msg [] c)) calls"
  shows "\<exists>r h h' sk'. spdlog_set_pattern now cproxy_pattern LocalTime r0 h0 = Ok (r, h) \<and>
    default_log_all env now' calls r h = Ok h' \<and> w_sinks h' 0 = Some sk' \<and> err_counter h' = 0 \<and>
    target_file sk' = concat (map (\<lambda>c. console_line env (ansicolor_sink_new terminal ColorAutomatic) (call_msg [] c))
      (filter (\<lambda>c. Info \<le> call_level c) calls))"
proof -
  let ?pf = "cproxy_pf default_eol (0, 0) tm_zero 0" and ?base = "ansicolor_sink_new terminal ColorAutomatic"
  let ?sk = "?base\<lparr>sink_formatter := ?pf\<rparr>" and ?lg = "logger_new [] [0]"
  let ?w = "\<lparr>w_sinks = [0 \<mapsto> ?sk], err_counter = 0, last_report_time = 0, reports = [], custom_reports = []\<rparr>"
  have sp: "\<exists>r h. spdlog_set_pattern now cproxy_pattern LocalTime r0 h0 = Ok (r, h) \<and> default_logger r = Some 0 \<and>
      h_loggers h 0 = Some ?lg \<and> log_world.truncate h = ?w"
    using assms(1) clone_cproxy [of now now]
    by (auto simp: registry_new_def spdlog_set_pattern_def registry_set_formatter_def set_logger_formatter_def deref_logger_def
        lift_world_def logger_set_formatter_def with_sink_def sink_set_formatter_def log_world.defs cproxy_new_pf
        logger_new_def)
  then obtain r h where h: "spdlog_set_pattern now cproxy_pattern LocalTime r0 h0 = Ok (r, h)" "default_logger r = Some 0"
      "h_loggers h 0 = Some ?lg" "log_world.truncate h = ?w" by blast
  have wm: "cproxy_warm env off default_eol ?pf" unfolding cproxy_warm_def by (metis fst_conv)
  have l: "name ?lg = []" "level ?lg = Info" "sinks ?lg = [0]" "flush_level ?lg = Off" "\<not> bt_enabled (tracer ?lg)"
    by (simp_all add: logger_new_def backtracer_none_def)
  have sk: "target_file ?sk = []" "sink_level ?sk = Trace" "length (colors ?sk) = 7" "cproxy_warm env off default_eol (sink_formatter ?sk)"
    using wm by (simp_all add: ansicolor_sink_new_def set_color_mode_def)
  have cl: "console_line env ?sk = console_line env ?base"
    by (intro ext) (simp add: console_line_def Let_def cong: if_cong)
  have ws: "w_sinks ?w 0 = Some ?sk" by simp
  have pc: "list_all (\<lambda>c. printable (call_msg (name ?lg) c)) calls" using assms(3) by (simp only: l(1))
  obtain w' sk' where L: "log_all env now' calls ?lg ?w = Ok (?lg, w')" "w_sinks w' 0 = Some sk'" "err_counter w' = err_counter ?w"
    "target_file sk' = target_file ?sk @ concat (map (\<lambda>c. console_line env ?sk (call_msg (name ?lg) c)) (filter (\<lambda>c. level ?lg \<le> call_level c) calls))"
    using log_all_console [OF assms(2) l(3-5) pc ws sk(2,4,3)] by blast
  have out: "target_file sk' = concat (map (\<lambda>c. console_line env ?base (call_msg [] c)) (filter (\<lambda>c. Info \<le> call_level c) calls))"
    using L(4) by (simp only: cl l(1,2) sk(1) append_Nil)
  let ?h = "(log_world.extend w' (log_world.more h))\<lparr>h_loggers := (h_loggers h)(0 \<mapsto> ?lg)\<rparr>"
  have "default_log_all env now' calls r h = Ok ?h"
    by (simp add: default_log_all_def h(2,3) deref_logger_def h(4) L(1))
  moreover have "w_sinks ?h 0 = Some sk'" "err_counter ?h = 0" using L(2,3) by (simp_all add: log_world.defs)
  ultimately show ?thesis using h(1) out by blast
qed

definition demo_calls :: "log_call list" where
  "demo_calls =
     [(42, 12345067000000, \<lparr>filename = Some ''a/b.cpp'', line = 9, funcname = Some ''run''\<rparr>, Warn, ''hello''),
      (43, 12346000000000, \<lparr>filename = Some ''a/b.cpp'', line = 10, funcname = Some ''run''\<rparr>, Debug, ''not shown'')]"

theorem cproxy_console_output_witness:
  "case registry_new True of (r0, h0) \<Rightarrow> \<exists>r h h' sk'. spdlog_set_pattern 0 cproxy_pattern LocalTime r0 h0 = Ok (r, h) \<and>
     default_log_all demo_log_env 0 demo_calls r h = Ok h' \<and> w_sinks h' 0 = Some sk' \<and> err_counter h' = 0 \<and>
     target_file sk' = ''[a/b.cpp:9 03:25:45:067 +05:30] ['' @ yellow_bold @ ''W'' @ reset @ ''] [thread 42] hello'' @ default_eol"
proof -
  obtain r0 h0 where rh: "registry_new True = (r0, h0)" by (metis surj_pair)
  have "s mod 60 < 62" for s :: int using pos_mod_bound [of 60 s] by simp
  then have z: "zone_ok demo_log_env 330"
    by (simp add: zone_ok_def demo_log_env_def buffer_size_def tm_clock_ok_def utc_minutes_offset_def c_div_def to_int32_def Let_def)
  have p: "list_all (\<lambda>c. printable (call_msg [] c)) demo_calls"
    by (simp add: demo_calls_def printable_def msg_ok_def log_msg_new_def seconds_def)
  have t: "os_localtime demo_log_env (duration_cast seconds 12345067000000) =
      \<lparr>tm_sec = 45, tm_min = 25, tm_hour = 3, tm_mday = 23, tm_mon = 7, tm_year = 101, tm_wday = 4, tm_gmtoff = 19800\<rparr>"
    by (simp add: demo_log_env_def duration_cast_def seconds_def c_div_def)
  let ?m = "log_msg_new 42 12345067000000 \<lparr>filename = Some ''a/b.cpp'', line = 9, funcname = Some ''run''\<rparr> [] Warn ''hello''"
  have h: "line_head ?m \<lparr>tm_sec = 45, tm_min = 25, tm_hour = 3, tm_mday = 23, tm_mon = 7, tm_year = 101, tm_wday = 4, tm_gmtoff = 19800\<rparr> =
      ''[a/b.cpp:9 03:25:45:067 +05:30] [''"
    by (simp add: line_head_def log_msg_new_def decimal_int_def decimal_small two_digits_def three_digits_def
        zone_text_def utc_minutes_offset_def c_div_def to_int32_def)
  have tl: "line_tail ?m = ''] [thread 42] hello''"
    by (simp add: line_tail_def log_msg_new_def decimal_small decimal_step)
  have f: "lvl ?m = Warn" "time ?m = 12345067000000" by (simp_all add: log_msg_new_def)
  have "console_line demo_log_env (ansicolor_sink_new True ColorAutomatic) ?m =
      ''[a/b.cpp:9 03:25:45:067 +05:30] ['' @ yellow_bold @ ''W'' @ reset @ ''] [thread 42] hello'' @ default_eol"
    unfolding console_line_def f t Let_def h tl by (simp add: ansicolor_sink_new_def set_color_mode_def short_level_names_def)
  then have "console_line demo_log_env (ansicolor_sink_new True ColorAutomatic) (call_msg [] (hd demo_calls)) =
      ''[a/b.cpp:9 03:25:45:067 +05:30] ['' @ yellow_bold @ ''W'' @ reset @ ''] [thread 42] hello'' @ default_eol"
    unfolding demo_calls_def list.sel call_msg.simps .
  moreover have "filter (\<lambda>c. Info \<le> call_level c) demo_calls = [hd demo_calls]"
    by (simp add: demo_calls_def less_eq_level_enum_def)
  ultimately show ?thesis using cproxy_console_output [OF rh z p, of 0 0] rh by simp
qed

end
