(* ===== verification/Log_Cfg.thy ===== *)
theory Log_Cfg
  imports Log_Registry
begin

text \<open>
  Levels from the environment or the command line: \<^verbatim>\<open>cfg/helpers-inl.h\<close>, \<^verbatim>\<open>cfg/env.h\<close> and \<^verbatim>\<open>cfg/argv.h\<close>. The
  unordered maps are association lists, as in the registry; the order of their entries has no influence.
\<close>

section \<open>Parsing\<close>

definition to_lower :: "string \<Rightarrow> string" where
  "to_lower str = map (\<lambda>ch. if of_char CHR ''A'' \<le> (of_char ch :: nat) \<and> (of_char ch :: nat) \<le> of_char CHR ''Z'' then char_of (of_char ch + 32 :: nat) else ch) str"

definition is_space :: "char \<Rightarrow> bool" where
  "is_space ch \<longleftrightarrow> ch \<in> {CHR '' '', CHR 0x0A, CHR 0x0D, CHR 0x09}"

text \<open>The end first, then the beginning.\<close>

definition trim :: "string \<Rightarrow> string" where
  "trim str = dropWhile is_space (rev (dropWhile is_space (rev str)))"

definition extract_kv :: "char \<Rightarrow> string \<Rightarrow> string \<times> string" where
  "extract_kv sep str =
     (if sep \<in> set str then (trim (takeWhile (\<lambda>c. c \<noteq> sep) str), trim (tl (dropWhile (\<lambda>c. c \<noteq> sep) str))) else (trim [], trim str))"

text \<open>The reads of \<^verbatim>\<open>getline\<close> up to the end of the stream.\<close>

function getlines :: "char \<Rightarrow> string \<Rightarrow> string list" where
  "getlines sep [] = []"
| "getlines sep (c # cs) = takeWhile (\<lambda>x. x \<noteq> sep) (c # cs) # getlines sep (tl (dropWhile (\<lambda>x. x \<noteq> sep) (c # cs)))"
  by pat_completeness auto
termination
  by (relation "measure (\<lambda>(sep, s). length s)") (auto simp: less_Suc_eq_le intro: le_trans [OF diff_le_self] length_dropWhile_le)
definition extract_key_vals :: "string \<Rightarrow> (string \<times> string) list" where
  "extract_key_vals str =
     fold (\<lambda>token rv. if token = [] then rv else let (k, v) = extract_kv CHR ''='' token in map_put k v rv) (getlines CHR '','' str) []"

text \<open>The loop over the pairs: the levels by name and the global one.\<close>

definition add_level :: "string \<times> string \<Rightarrow> (string \<times> level_enum) list \<times> level_enum option \<Rightarrow> (string \<times> level_enum) list \<times> level_enum option" where
  "add_level name_level acc =
     (let level_name = to_lower (snd name_level); l = from_str level_name in
      if l = Off \<and> level_name \<noteq> ''off'' then acc
      else if fst name_level = [] then (fst acc, Some l)
      else (map_put (fst name_level) l (fst acc), snd acc))"

definition load_levels :: "string \<Rightarrow> registry \<Rightarrow> log_heap \<Rightarrow> (registry \<times> log_heap) outcome" where
  "load_levels input r h =
     (if input = [] \<or> length input > 512 then Ok (r, h)
      else let (levels, global_level) = fold add_level (extract_key_vals input) ([], None) in set_levels levels global_level r h)"

text \<open>\<open>env_val\<close> is the value of the variable, empty when it is not set.\<close>

definition load_env_levels :: "string \<Rightarrow> registry \<Rightarrow> log_heap \<Rightarrow> (registry \<times> log_heap) outcome" where
  "load_env_levels env_val r h = (if env_val \<noteq> [] then load_levels env_val r h else Ok (r, h))"

definition spdlog_level_prefix :: string where
  "spdlog_level_prefix = ''SPDLOG_LEVEL=''"

fun load_args :: "string list \<Rightarrow> registry \<Rightarrow> log_heap \<Rightarrow> (registry \<times> log_heap) outcome" where
  "load_args [] r h = Ok (r, h)"
| "load_args (arg # args) r h =
     bind_outcome (if take (length spdlog_level_prefix) arg = spdlog_level_prefix
                   then load_levels (drop (length spdlog_level_prefix) arg) r h else Ok (r, h)) (\<lambda>(r, h). load_args args r h)"

definition load_argv_levels :: "string list \<Rightarrow> registry \<Rightarrow> log_heap \<Rightarrow> (registry \<times> log_heap) outcome" where
  "load_argv_levels argv r h = load_args (tl argv) r h"

section \<open>Printing\<close>

text \<open>A configuration: levels by logger name, the empty name standing for the global level.\<close>

definition level_text :: "level_enum \<Rightarrow> string" where
  "level_text l = (if l = NLevels then [] else level_string_views ! nat (level_code l))"

fun print_entry :: "string \<times> level_enum \<Rightarrow> string" where
  "print_entry (n, l) = (if n = [] then [] else n @ ''='') @ level_text l"

fun print_levels :: "(string \<times> level_enum) list \<Rightarrow> string" where
  "print_levels [] = []"
| "print_levels [e] = print_entry e"
| "print_levels (e # es) = print_entry e @ '','' @ print_levels es"

text \<open>Names that can be written: without separators, and without blanks at either end.\<close>

definition name_ok :: "string \<Rightarrow> bool" where
  "name_ok n \<longleftrightarrow> CHR '','' \<notin> set n \<and> CHR ''='' \<notin> set n \<and> (n \<noteq> [] \<longrightarrow> \<not> is_space (hd n) \<and> \<not> is_space (last n))"

lemma trim_id: "(n \<noteq> [] \<longrightarrow> \<not> is_space (hd n) \<and> \<not> is_space (last n)) \<Longrightarrow> trim n = n"
proof (cases "n = []")
  case False
  assume a: "n \<noteq> [] \<longrightarrow> \<not> is_space (hd n) \<and> \<not> is_space (last n)"
  have "dropWhile is_space (rev n) = rev n" using a False by (cases "rev n") (auto simp: last_rev [symmetric] hd_rev)
  moreover have "dropWhile is_space n = n" using a False by (cases n) auto
  ultimately show ?thesis by (simp add: trim_def)
qed (simp add: trim_def)

lemma level_text_ok:
  assumes "l \<noteq> NLevels"
  shows "trim (level_text l) = level_text l" "CHR '','' \<notin> set (level_text l)" "CHR ''='' \<notin> set (level_text l)" "level_text l \<noteq> []"
    "to_lower (level_text l) = level_text l" "from_str (level_text l) = l" "l = Off \<longleftrightarrow> level_text l = ''off''"
proof -
  have "trim (level_text l) = level_text l"
    by (rule trim_id) (cases l; simp add: level_text_def level_string_views_def is_space_def)
  then show "trim (level_text l) = level_text l" "CHR '','' \<notin> set (level_text l)" "CHR ''='' \<notin> set (level_text l)" "level_text l \<noteq> []"
      "to_lower (level_text l) = level_text l" "from_str (level_text l) = l" "l = Off \<longleftrightarrow> level_text l = ''off''"
    using assms by (cases l; simp add: level_text_def level_string_views_def to_lower_def from_str_def find_index_def level_of_index_def)+
qed

lemma cut_at:
  "c \<notin> set xs \<Longrightarrow> takeWhile (\<lambda>x. x \<noteq> c) (xs @ c # ys) = xs" "c \<notin> set xs \<Longrightarrow> dropWhile (\<lambda>x. x \<noteq> c) (xs @ c # ys) = c # ys"
  "c \<notin> set xs \<Longrightarrow> takeWhile (\<lambda>x. x \<noteq> c) xs = xs" "c \<notin> set xs \<Longrightarrow> dropWhile (\<lambda>x. x \<noteq> c) xs = []"
  by (induction xs) auto

lemma extract_entry:
  assumes "name_ok n" "l \<noteq> NLevels"
  shows "extract_kv CHR ''='' (print_entry (n, l)) = (n, level_text l)" "print_entry (n, l) \<noteq> []" "CHR '','' \<notin> set (print_entry (n, l))"
proof -
  have n: "CHR ''='' \<notin> set n" "CHR '','' \<notin> set n" "trim n = n" using assms(1) trim_id by (auto simp: name_ok_def)
  note t = level_text_ok [OF assms(2)]
  show "extract_kv CHR ''='' (print_entry (n, l)) = (n, level_text l)" "print_entry (n, l) \<noteq> []" "CHR '','' \<notin> set (print_entry (n, l))"
    using n t by (auto simp: extract_kv_def cut_at trim_def [of "[]"])
qed

lemma getlines_none: "sep \<notin> set s \<Longrightarrow> s \<noteq> [] \<Longrightarrow> getlines sep s = [s]"
proof -
  assume "sep \<notin> set s" "s \<noteq> []"
  moreover from this obtain c cs where "s = c # cs" by (cases s) auto
  ultimately show ?thesis using cut_at(3,4) [of sep s] by (metis getlines.simps list.sel(2))
qed

lemma getlines_cons:
  assumes "sep \<notin> set s" "s \<noteq> []"
  shows "getlines sep (s @ sep # rest) = s # getlines sep rest"
proof -
  obtain c cs where s: "s = c # cs" using assms(2) by (cases s) auto
  have "takeWhile (\<lambda>x. x \<noteq> sep) (s @ sep # rest) = s" "dropWhile (\<lambda>x. x \<noteq> sep) (s @ sep # rest) = sep # rest"
    using assms(1) by (simp_all add: cut_at)
  then show ?thesis using s by (simp del: takeWhile.simps dropWhile.simps)
qed

lemma getlines_print:
  assumes "list_all (\<lambda>(n, l). name_ok n \<and> l \<noteq> NLevels) es"
  shows "getlines CHR '','' (print_levels es) = map print_entry es"
  using assms
proof (induction es rule: print_levels.induct)
  case (2 e)
  then show ?case using extract_entry by (cases e) (simp add: getlines_none del: print_entry.simps)
next
  case (3 e e' es)
  then show ?case using extract_entry by (cases e) (simp add: getlines_cons del: print_entry.simps)
qed simp

lemma map_put_new: "k \<notin> fst ` set m \<Longrightarrow> map_put k x m = (k, x) # m"
  by (force simp: map_put_def intro: filter_True)

lemma extract_print:
  assumes "list_all (\<lambda>(n, l). name_ok n \<and> l \<noteq> NLevels) es" "distinct (map fst es)"
  shows "extract_key_vals (print_levels es) = rev (map (apsnd level_text) es)"
proof -
  let ?f = "\<lambda>token rv. if token = [] then rv else let (k, v) = extract_kv CHR ''='' token in map_put k v rv"
  have "fold ?f (map print_entry es) rv = rev (map (apsnd level_text) es) @ rv" if "fst ` set rv \<inter> fst ` set es = {}" for rv
    using assms that
  proof (induction es arbitrary: rv)
    case (Cons e es)
    obtain n l where e: "e = (n, l)" by (cases e)
    have "?f (print_entry e) rv = (n, level_text l) # rv"
      using extract_entry [of n l] Cons.prems(1,3) e map_put_new [of n rv] by (simp del: print_entry.simps)
    then show ?case using Cons.IH [of "(n, level_text l) # rv"] Cons.prems e by (simp del: print_entry.simps) force
  qed simp
  from this [of "[]"] show ?thesis using getlines_print [OF assms(1)] by (simp add: extract_key_vals_def)
qed

lemma add_levels_print:
  assumes "list_all (\<lambda>(n, l). name_ok n \<and> l \<noteq> NLevels) es" "distinct (map fst es)"
  shows "fold add_level (rev (map (apsnd level_text) es)) ([], None) = (filter (\<lambda>e. fst e \<noteq> []) es, map_of es [])"
  using assms
proof (induction es)
  case (Cons e es)
  obtain n l where e: "e = (n, l)" by (cases e)
  have IH: "fold add_level (rev (map (apsnd level_text) es)) ([], None) = (filter (\<lambda>e. fst e \<noteq> []) es, map_of es [])" using Cons by simp
  have l: "l \<noteq> NLevels" and new: "n \<notin> fst ` set es" using Cons.prems e by auto
  have "add_level (n, level_text l) (filter (\<lambda>e. fst e \<noteq> []) es, map_of es []) =
      (filter (\<lambda>e. fst e \<noteq> []) (e # es), map_of (e # es) [])"
    using level_text_ok [OF l] new map_put_new [of n "filter (\<lambda>e. fst e \<noteq> []) es" l] e by (auto simp: add_level_def Let_def)
  then show ?case using IH e by simp
qed simp

section \<open>Properties\<close>

text \<open>C26. Configuration strings are read back: a configuration of distinct names and levels, with the empty name
  for the global level, printed as \<^verbatim>\<open>level,name=level,\<dots>\<close>, sets exactly these levels in the registry.\<close>
theorem load_levels_reads_print:
  assumes "list_all (\<lambda>(n, l). name_ok n \<and> l \<noteq> NLevels) es" "distinct (map fst es)" "es \<noteq> []" "length (print_levels es) \<le> 512"
  shows "load_levels (print_levels es) r h = set_levels (filter (\<lambda>e. fst e \<noteq> []) es) (map_of es []) r h"
proof -
  have "print_levels es \<noteq> []" using extract_entry(2) assms(1,3) by (cases es rule: print_levels.cases) (auto simp del: print_entry.simps)
  then show ?thesis using assms(4) by (simp add: load_levels_def extract_print [OF assms(1,2)] add_levels_print [OF assms(1,2)])
qed

theorem load_levels_reads_print_witness:
  "\<forall>r h. load_levels ''off,net=debug,my db=error'' r h = set_levels [(''net'', Debug), (''my db'', Err)] (Some Off) r h"
proof (intro allI)
  fix r h
  show "load_levels ''off,net=debug,my db=error'' r h = set_levels [(''net'', Debug), (''my db'', Err)] (Some Off) r h"
    using load_levels_reads_print [of "[([], Off), (''net'', Debug), (''my db'', Err)]" r h]
    by (simp add: name_ok_def is_space_def level_text_def level_string_views_def)
qed

text \<open>The documented way to turn off all loggers but one does not: \<^verbatim>\<open>*=off,logger1=debug\<close> gives a level to a
  logger whose name is a star and leaves every other logger, and those registered later, at their level.\<close>
theorem star_is_not_global:
  "case registry_new True of (r, h) \<Rightarrow> \<exists>r' h' lg. load_levels ''*=off,logger1=debug'' r h = Ok (r', h') \<and>
     h_loggers h' 0 = Some lg \<and> level lg = Info \<and> global_log_level r' = Info \<and> map_of (log_levels r') ''*'' = Some Off"
proof -
  have es: "list_all (\<lambda>(n, l). name_ok n \<and> l \<noteq> NLevels) [(''*'', Off), (''logger1'', Debug)]" "distinct (map fst [(''*'', Off), (''logger1'', Debug)])"
    by (simp_all add: name_ok_def is_space_def)
  have p: "''*=off,logger1=debug'' = print_levels [(''*'', Off), (''logger1'', Debug)]" by (simp add: level_text_def level_string_views_def)
  have "extract_key_vals ''*=off,logger1=debug'' = rev (map (apsnd level_text) [(''*'', Off), (''logger1'', Debug)])"
    unfolding p by (rule extract_print [OF es])
  then have "load_levels ''*=off,logger1=debug'' r h = set_levels [(''*'', Off), (''logger1'', Debug)] None r h" for r h
    using add_levels_print [OF es] by (simp add: load_levels_def)
  then show ?thesis by (simp add: registry_new_def set_levels_def logger_new_def)
qed

end
