(* ===== verification/Log_Sinks.thy ===== *)
theory Log_Sinks
  imports Log_Files
begin

text \<open>
  Further sinks: \<^verbatim>\<open>dist_sink.h\<close>, \<^verbatim>\<open>dup_filter_sink.h\<close>, \<^verbatim>\<open>ostream_sink.h\<close>, \<^verbatim>\<open>stdout_sinks-inl.h\<close>, \<^verbatim>\<open>tcp_sink.h\<close>
  and \<^verbatim>\<open>details/tcp_client.h\<close>. What the sockets answer is an argument. The sinks a distribution sink holds are
  console sinks, in the heap of \<open>Log_Logger\<close>.
\<close>

section \<open>The distribution sink\<close>

text \<open>Each sink that wants the message's level gets it; an exception of one of them ends the loop.\<close>

fun dist_sink_it :: "log_env \<Rightarrow> oid list \<Rightarrow> log_msg \<Rightarrow> log_world \<Rightarrow> (unit, log_world) io" where
  "dist_sink_it env [] msg w = io_ret () w"
| "dist_sink_it env (s # ss) msg w =
     with_sink s (\<lambda>sk.
       if sink_should_log (lvl msg) sk then
         (case sink_log env msg sk of
            Ok sk \<Rightarrow> dist_sink_it env ss msg (w\<lparr>w_sinks := (w_sinks w)(s \<mapsto> sk)\<rparr>)
          | Throw \<Rightarrow> io_throw w
          | Ub u \<Rightarrow> Ub u | Abort \<Rightarrow> Abort | Spin \<Rightarrow> Spin)
       else dist_sink_it env ss msg w) w"

definition dist_flush :: "oid list \<Rightarrow> log_world \<Rightarrow> log_world outcome" where
  "dist_flush ss w = flush_sinks ss w"

fun dist_set_formatter :: "int \<Rightarrow> pattern_formatter \<Rightarrow> oid list \<Rightarrow> log_world \<Rightarrow> log_world outcome" where
  "dist_set_formatter now pf [] w = Ok w"
| "dist_set_formatter now pf (s # ss) w =
     with_sink s (\<lambda>sk. dist_set_formatter now pf ss
       (w\<lparr>w_sinks := (w_sinks w)(s \<mapsto> sink_set_formatter (pattern_formatter_clone now pf) sk)\<rparr>)) w"

definition dist_set_pattern :: "int \<Rightarrow> string \<Rightarrow> oid list \<Rightarrow> log_world \<Rightarrow> log_world outcome" where
  "dist_set_pattern now pat ss w = dist_set_formatter now (pattern_formatter_new now pat LocalTime default_eol Map.empty) ss w"

definition dist_add_sink :: "oid \<Rightarrow> oid list \<Rightarrow> oid list" where
  "dist_add_sink s ss = ss @ [s]"

definition dist_remove_sink :: "oid \<Rightarrow> oid list \<Rightarrow> oid list" where
  "dist_remove_sink s ss = removeAll s ss"

section \<open>The duplicate filter\<close>

text \<open>\<open>max_skip\<close> is in microseconds, times are in nanoseconds.\<close>

record dup_filter =
  max_skip :: int
  last_msg_time :: int
  last_msg_payload :: string
  skip_counter :: nat

definition dup_filter_new :: "int \<Rightarrow> dup_filter" where
  "dup_filter_new max_skip_duration = \<lparr>max_skip = max_skip_duration, last_msg_time = 0, last_msg_payload = [], skip_counter = 0\<rparr>"

definition dup_shows :: "log_msg \<Rightarrow> dup_filter \<Rightarrow> bool" where
  "dup_shows msg d \<longleftrightarrow> time msg - last_msg_time d > 1000 * max_skip d \<or> payload msg \<noteq> last_msg_payload d"

definition skipped_text :: "nat \<Rightarrow> string" where
  "skipped_text n = ''Skipped '' @ decimal (n mod 2 ^ 32) @ '' duplicate messages..''"

text \<open>\<open>put\<close> is the \<^verbatim>\<open>sink_it_\<close> of the base class; \<open>tid\<close> and \<open>now\<close> stamp the message about the skipped ones.\<close>

definition skipped_msg :: "size_t \<Rightarrow> int \<Rightarrow> nat \<Rightarrow> log_msg \<Rightarrow> log_msg" where
  "skipped_msg tid now n msg = log_msg_new tid now no_source_loc (logger_name msg) Info (skipped_text n)"

definition dup_sink_it :: "(log_msg \<Rightarrow> 'w \<Rightarrow> (unit, 'w) io) \<Rightarrow> size_t \<Rightarrow> int \<Rightarrow> log_msg \<Rightarrow> dup_filter \<times> 'w \<Rightarrow> (unit, dup_filter \<times> 'w) io" where
  "dup_sink_it put tid now msg = (\<lambda>(d, w).
     if \<not> dup_shows msg d then io_ret () (d\<lparr>skip_counter := (skip_counter d + 1) mod 2 ^ 64\<rparr>, w)
     else bind_outcome
       (if skip_counter d > 0 \<and> length (skipped_text (skip_counter d)) < 64 then put (skipped_msg tid now (skip_counter d) msg) w else io_ret () w)
       (\<lambda>(r, w). if r = None then io_throw (d, w)
         else bind_outcome (put msg w) (\<lambda>(r, w). if r = None then io_throw (d, w)
           else io_ret () (d\<lparr>last_msg_time := time msg, skip_counter := 0, last_msg_payload := payload msg\<rparr>, w))))"

definition dup_filter_sink_it :: "log_env \<Rightarrow> oid list \<Rightarrow> size_t \<Rightarrow> int \<Rightarrow> log_msg \<Rightarrow> dup_filter \<times> log_world \<Rightarrow> (unit, dup_filter \<times> log_world) io" where
  "dup_filter_sink_it env ss = dup_sink_it (dist_sink_it env ss)"

section \<open>Streams\<close>

record stream_sink =
  ss_formatter :: pattern_formatter
  ss_stream :: string
  ss_flushes :: nat
  force_flush :: bool

definition ostream_sink_it :: "log_env \<Rightarrow> log_msg \<Rightarrow> stream_sink \<Rightarrow> stream_sink outcome" where
  "ostream_sink_it env msg s =
     bind_outcome (format_msg env (ss_formatter s) msg []) (\<lambda>(pf, msg, formatted).
       let s = s\<lparr>ss_formatter := pf, ss_stream := ss_stream s @ formatted\<rparr>
       in Ok (if force_flush s then s\<lparr>ss_flushes := ss_flushes s + 1\<rparr> else s))"

definition stdout_log :: "log_env \<Rightarrow> log_msg \<Rightarrow> stream_sink \<Rightarrow> stream_sink outcome" where
  "stdout_log env msg s =
     bind_outcome (format_msg env (ss_formatter s) msg []) (\<lambda>(pf, msg, formatted).
       Ok (s\<lparr>ss_formatter := pf, ss_stream := ss_stream s @ formatted, ss_flushes := ss_flushes s + 1\<rparr>))"

definition stream_flush :: "stream_sink \<Rightarrow> stream_sink" where
  "stream_flush s = s\<lparr>ss_flushes := ss_flushes s + 1\<rparr>"

section \<open>The TCP sink\<close>

record tcp_client =
  tc_socket :: int
  tc_sent :: string

definition is_connected :: "'a tcp_client_scheme \<Rightarrow> bool" where
  "is_connected c \<longleftrightarrow> tc_socket c \<noteq> -1"

definition tcp_close :: "'a tcp_client_scheme \<Rightarrow> 'a tcp_client_scheme" where
  "tcp_close c = (if is_connected c then c\<lparr>tc_socket := -1\<rparr> else c)"

text \<open>The addresses in turn: what \<^verbatim>\<open>socket\<close> and \<^verbatim>\<open>connect\<close> return for each.\<close>

fun try_addresses :: "(int \<times> int) list \<Rightarrow> 'a tcp_client_scheme \<Rightarrow> 'a tcp_client_scheme" where
  "try_addresses [] c = c"
| "try_addresses ((sock, rv) # as) c =
     (if sock = -1 then try_addresses as (c\<lparr>tc_socket := sock\<rparr>)
      else if rv = 0 then c\<lparr>tc_socket := sock\<rparr>
      else try_addresses as (c\<lparr>tc_socket := -1\<rparr>))"

definition tcp_client_connect :: "int \<Rightarrow> (int \<times> int) list \<Rightarrow> 'a tcp_client_scheme \<Rightarrow> (unit, 'a tcp_client_scheme) io" where
  "tcp_client_connect rv addresses c =
     (let c = tcp_close c in
      if rv \<noteq> 0 then io_throw c
      else let c = try_addresses addresses c in if tc_socket c = -1 then io_throw c else io_ret () c)"

text \<open>
  What \<^verbatim>\<open>send\<close> returns, call by call: it takes at most what is left; a call that never answers blocks. The
  bytes that have been taken are the field \<open>tc_sent\<close>.
\<close>

fun tcp_send_loop :: "int list \<Rightarrow> string \<Rightarrow> nat \<Rightarrow> 'a tcp_client_scheme \<Rightarrow> (unit, 'a tcp_client_scheme) io" where
  "tcp_send_loop rs data bytes_sent c =
     (if bytes_sent < length data then
        (case rs of [] \<Rightarrow> Spin
         | r # rs \<Rightarrow>
             if r < 0 then io_throw (tcp_close c)
             else if r = 0 then io_ret () c
             else let k = min (nat r) (length data - bytes_sent)
               in tcp_send_loop rs data (bytes_sent + k) (c\<lparr>tc_sent := tc_sent c @ take k (drop bytes_sent data)\<rparr>))
      else io_ret () c)"

definition tcp_send :: "int list \<Rightarrow> string \<Rightarrow> 'a tcp_client_scheme \<Rightarrow> (unit, 'a tcp_client_scheme) io" where
  "tcp_send rs data c = tcp_send_loop rs data 0 c"

record tcp_sink = tcp_client +
  tcp_formatter :: pattern_formatter

definition tcp_sink_new :: "bool \<Rightarrow> int \<Rightarrow> (int \<times> int) list \<Rightarrow> pattern_formatter \<Rightarrow> (unit, tcp_sink) io" where
  "tcp_sink_new lazy_connect rv addresses pf =
     (let c = \<lparr>tc_socket = -1, tc_sent = [], tcp_formatter = pf\<rparr>
      in if \<not> lazy_connect then tcp_client_connect rv addresses c else io_ret () c)"

definition tcp_sink_it :: "log_env \<Rightarrow> int \<Rightarrow> (int \<times> int) list \<Rightarrow> int list \<Rightarrow> log_msg \<Rightarrow> tcp_sink \<Rightarrow> (unit, tcp_sink) io" where
  "tcp_sink_it env rv addresses rs msg s =
     bind_outcome (format_msg env (tcp_formatter s) msg []) (\<lambda>(pf, msg, formatted).
     let s = s\<lparr>tcp_formatter := pf\<rparr> in
     io_bind (if \<not> is_connected s then tcp_client_connect rv addresses s else io_ret () s) (\<lambda>_ s. tcp_send rs formatted s))"

declare tcp_send_loop.simps [simp del]

section \<open>What the filter lets through\<close>

text \<open>Messages one after the other; each comes with the stamp for a message about skipped ones.\<close>

fun dup_all :: "(log_msg \<Rightarrow> 'w \<Rightarrow> (unit, 'w) io) \<Rightarrow> (size_t \<times> int \<times> log_msg) list \<Rightarrow> dup_filter \<times> 'w \<Rightarrow> (dup_filter \<times> 'w) outcome" where
  "dup_all put [] s = Ok s"
| "dup_all put ((tid, now, m) # ms) s = bind_outcome (dup_sink_it put tid now m s) (\<lambda>(r, s). dup_all put ms s)"

text \<open>The messages shown, each with the number skipped before it; and the texts these stand for.\<close>

fun emitted :: "(nat \<times> size_t \<times> int \<times> log_msg) list \<Rightarrow> log_msg list" where
  "emitted [] = []"
| "emitted ((n, tid, now, m) # ts) = (if n > 0 then [skipped_msg tid now n m] else []) @ m # emitted ts"

fun replay :: "string \<Rightarrow> (nat \<times> size_t \<times> int \<times> log_msg) list \<Rightarrow> nat \<Rightarrow> string list" where
  "replay p [] k = replicate k p"
| "replay p ((n, tid, now, m) # ts) k = replicate n p @ payload m # replay (payload m) ts k"

lemma dup_all_replays:
  assumes put: "\<And>m w. put m w = io_ret () (f m w)" and "skip_counter d + length msgs < 2 ^ 64"
  shows "\<exists>ts d'. dup_all put msgs (d, w) = Ok (d', fold f (emitted ts) w) \<and>
    replay (last_msg_payload d) ts (skip_counter d') = replicate (skip_counter d) (last_msg_payload d) @ map (\<lambda>(tid, now, m). payload m) msgs"
  using assms(2)
proof (induction msgs arbitrary: d w)
  case Nil
  then show ?case by (intro exI [of _ "[]"] exI [of _ d]) simp
next
  case (Cons c msgs)
  obtain tid now m where c: "c = (tid, now, m)" by (cases c)
  show ?case
  proof (cases "dup_shows m d")
    case False
    then have p: "payload m = last_msg_payload d" by (auto simp: dup_shows_def)
    let ?d = "d\<lparr>skip_counter := skip_counter d + 1\<rparr>"
    have "dup_sink_it put tid now m (d, w) = io_ret () (?d, w)" using False Cons.prems by (simp add: dup_sink_it_def)
    moreover obtain ts d' where "dup_all put msgs (?d, w) = Ok (d', fold f (emitted ts) w)"
      "replay (last_msg_payload d) ts (skip_counter d') = replicate (skip_counter d + 1) (last_msg_payload d) @ map (\<lambda>(tid, now, m). payload m) msgs"
      using Cons.IH [of ?d w] Cons.prems by auto
    ultimately show ?thesis using c p by (intro exI [of _ ts] exI [of _ d']) (simp add: replicate_append_same [symmetric])
  next
    case True
    let ?d = "d\<lparr>last_msg_time := time m, skip_counter := 0, last_msg_payload := payload m\<rparr>"
    let ?t = "(skip_counter d, tid, now, m)"
    have "skip_counter d mod 2 ^ 32 < 10 ^ 10" using mod_less_divisor [of "2 ^ 32" "skip_counter d"] by simp
    then have "length (skipped_text (skip_counter d)) < 64" using length_decimal_less [of "skip_counter d mod 2 ^ 32" 10] by (simp add: skipped_text_def)
    then have "dup_sink_it put tid now m (d, w) = io_ret () (?d, fold f (emitted [?t]) w)" using True put by (simp add: dup_sink_it_def)
    moreover obtain ts d' where "dup_all put msgs (?d, fold f (emitted [?t]) w) = Ok (d', fold f (emitted ts) (fold f (emitted [?t]) w))"
      "replay (payload m) ts (skip_counter d') = map (\<lambda>(tid, now, m). payload m) msgs"
      using Cons.IH [of ?d "fold f (emitted [?t]) w"] Cons.prems by auto
    ultimately show ?thesis using c by (intro exI [of _ "?t # ts"] exI [of _ d']) simp
  qed
qed

section \<open>Sending\<close>

lemma tcp_send_loop_result:
  assumes "tcp_send_loop rs data k c = Ok (r, c')" "k \<le> length data"
  shows "\<exists>n. n \<le> length data - k \<and> tc_sent c' = tc_sent c @ take n (drop k data) \<and>
    (r = None \<longrightarrow> tc_socket c' = -1 \<and> k + n < length data) \<and> (r \<noteq> None \<longrightarrow> tc_socket c' = tc_socket c \<and> (0 \<in> set rs \<or> k + n = length data))"
  using assms
proof (induction rs data k c rule: tcp_send_loop.induct)
  case (1 rs data k c)
  show ?case
  proof (cases "k < length data")
    case False
    then have "r = Some ()" "c' = c" "k = length data" using 1(2,3) by (simp_all add: tcp_send_loop.simps [of rs data])
    then show ?thesis by (intro exI [of _ 0]) simp
  next
    case True
    then obtain x xs where rs: "rs = x # xs" using 1(2) by (cases rs) (auto simp: tcp_send_loop.simps [of "[]"])
    consider (neg) "x < 0" | (zero) "x = 0" | (pos) "0 < x" by linarith
    then show ?thesis
    proof cases
      case neg
      then have "r = None" "c' = tcp_close c" using 1(2) True rs by (simp_all add: tcp_send_loop.simps [of "x # xs"])
      then show ?thesis using True by (intro exI [of _ 0]) (simp add: tcp_close_def is_connected_def)
    next
      case zero
      then have "r = Some ()" "c' = c" using 1(2) True rs by (simp_all add: tcp_send_loop.simps [of "0 # xs"])
      then show ?thesis using zero rs by (intro exI [of _ 0]) simp
    next
      case pos
      let ?j = "min (nat x) (length data - k)"
      let ?c = "c\<lparr>tc_sent := tc_sent c @ take ?j (drop k data)\<rparr>"
      have step: "tcp_send_loop xs data (k + ?j) ?c = Ok (r, c')" using 1(2) True rs pos by (simp add: tcp_send_loop.simps [of "x # xs"] Let_def)
      have le: "k + ?j \<le> length data" using True by simp
      have np: "\<not> x < 0" "x \<noteq> 0" using pos by auto
      note IH = 1(1) [OF True rs np refl step le]
      obtain n where n: "n \<le> length data - (k + ?j)" "tc_sent c' = tc_sent ?c @ take n (drop (k + ?j) data)"
        "r = None \<longrightarrow> tc_socket c' = -1 \<and> k + ?j + n < length data" "r \<noteq> None \<longrightarrow> tc_socket c' = tc_socket ?c \<and> (0 \<in> set xs \<or> k + ?j + n = length data)"
        using IH by blast
      have "take ?j (drop k data) @ take n (drop (k + ?j) data) = take (?j + n) (drop k data)" by (simp only: take_add drop_drop add.commute [of k])
      then show ?thesis using n rs by (intro exI [of _ "?j + n"]) (auto simp: add.assoc)
    qed
  qed
qed

section \<open>Properties\<close>



text \<open>Sending over TCP is all or close: when \<^verbatim>\<open>send\<close> returns normally, the connection is as before and exactly the
  text has been sent, unless the system took zero bytes; when it throws, the connection is closed, so that the next
  message connects again, and a proper prefix has been sent.\<close>
theorem tcp_send_exact:
  assumes "tcp_send rs data c = Ok (r, c')"
  shows "\<exists>n. tc_sent c' = tc_sent c @ take n data \<and>
    (if r = None then \<not> is_connected c' \<and> n < length data
     else tc_socket c' = tc_socket c \<and> (0 \<notin> set rs \<longrightarrow> tc_sent c' = tc_sent c @ data))"
  using tcp_send_loop_result [of rs data 0 c r c'] assms by (auto simp: tcp_send_def is_connected_def)

theorem tcp_send_exact_witness:
  "tcp_send [2, 5] ''hello'' \<lparr>tc_socket = 4, tc_sent = []\<rparr> = Ok (Some (), \<lparr>tc_socket = 4, tc_sent = ''hello''\<rparr>) \<and>
   tcp_send [2, -1] ''hello'' \<lparr>tc_socket = 4, tc_sent = []\<rparr> = Ok (None, \<lparr>tc_socket = -1, tc_sent = ''he''\<rparr>) \<and>
   (\<exists>n. ''he'' = take n ''hello'' \<and> n < 5)"
proof -
  have a: "tcp_send [2, 5] ''hello'' \<lparr>tc_socket = 4, tc_sent = []\<rparr> = Ok (Some (), \<lparr>tc_socket = 4, tc_sent = ''hello''\<rparr>)"
    "tcp_send [2, -1] ''hello'' \<lparr>tc_socket = 4, tc_sent = []\<rparr> = Ok (None, \<lparr>tc_socket = -1, tc_sent = ''he''\<rparr>)"
    by (simp_all add: tcp_send_def tcp_send_loop.simps tcp_close_def is_connected_def numeral_eq_Suc)
  show ?thesis using a tcp_send_exact [OF a(2)] by auto
qed

end
