(* ===== verification/Fmt_Utf8.thy ===== *)
theory Fmt_Utf8
  imports Log_Digits
begin

text \<open>
  The UTF-8 decoder of the bundled fmt library (\<^verbatim>\<open>core.h\<close>, \<^verbatim>\<open>format.h\<close>) and the display width computed with it
  when a string is padded. A pointer into a string is the suffix that starts there; the decoder reads four
  bytes at a time whatever the length of the character, and \<open>Ub Overread\<close> marks a read behind the end of its
  buffer.
\<close>

section \<open>The decoder\<close>

definition lengths :: "nat list" where
  "lengths = [1, 1, 1, 1, 1, 1, 1, 1, 1, 1, 1, 1, 1, 1, 1, 1, 0, 0, 0, 0, 0, 0, 0, 0, 2, 2, 2, 2, 3, 3, 4, 0]"

definition code_point_length :: "char \<Rightarrow> nat" where
  "code_point_length c = (let len = lengths ! (of_char c div 8) in len + (if len = 0 then 1 else 0))"

definition masks :: "u32 list" where "masks = [0x00, 0x7f, 0x1f, 0x0f, 0x07]"
definition mins :: "u32 list" where "mins = [4194304, 0, 128, 2048, 65536]"
definition shiftc :: "nat list" where "shiftc = [0, 18, 12, 6, 0]"
definition shifte :: "nat list" where "shifte = [0, 6, 4, 2, 0]"

text \<open>The shifted conditions and the bits of the tail bytes in the error word.\<close>

definition utf8_code :: "nat \<Rightarrow> u32 \<Rightarrow> u32 \<Rightarrow> u32 \<Rightarrow> u32 \<Rightarrow> u32" where
  "utf8_code len b0 b1 b2 b3 =
     drop_bit (shiftc ! len)
       (push_bit 18 (b0 AND masks ! len) OR push_bit 12 (b1 AND 0x3f) OR push_bit 6 (b2 AND 0x3f) OR (b3 AND 0x3f))"

definition utf8_error :: "nat \<Rightarrow> u32 \<Rightarrow> u32 \<Rightarrow> u32 \<Rightarrow> u32 \<Rightarrow> u32" where
  "utf8_error len c b1 b2 b3 =
     drop_bit (shifte ! len)
       ((push_bit 6 (of_bool (c < mins ! len)) OR push_bit 7 (of_bool (drop_bit 11 c = 0x1b)) OR
         push_bit 8 (of_bool (c > 0x10FFFF)) OR drop_bit 2 (b1 AND 0xc0) OR drop_bit 4 (b2 AND 0xc0) OR drop_bit 6 b3)
        XOR 0x2a)"

text \<open>The rest of the buffer, the code point and the error word.\<close>

definition utf8_decode :: "string \<Rightarrow> (string \<times> u32 \<times> u32) outcome" where
  "utf8_decode s =
     (if length s < 4 then Ub Overread
      else let b = (\<lambda>i. of_char (s ! i) :: u32);
               len = code_point_length (s ! 0);
               c = utf8_code len (b 0) (b 1) (b 2) (b 3)
           in Ok (drop len s, c, utf8_error len c (b 1) (b 2) (b 3)))"

definition invalid_code_point :: u32 where
  "invalid_code_point = NOT 0"

section \<open>Iteration over code points\<close>

text \<open>
  The callback gets the code point, the pointer and the size of its view; it returns its new state and whether to go on.
\<close>

type_synonym 'a code_point_fn = "u32 \<Rightarrow> string \<Rightarrow> nat \<Rightarrow> 'a \<Rightarrow> 'a \<times> bool"

definition decode_one :: "'a code_point_fn \<Rightarrow> string \<Rightarrow> string \<Rightarrow> 'a \<Rightarrow> ('a \<times> string option) outcome" where
  "decode_one f buf_ptr ptr st =
     bind_outcome (utf8_decode buf_ptr) (\<lambda>(end_ptr, cp, err).
       let (st, result) = f (if err \<noteq> 0 then invalid_code_point else cp) ptr (length buf_ptr - length end_ptr) st
       in Ok (st, if result then Some end_ptr else None))"

lemma code_point_length_bounds: "0 < code_point_length c \<and> code_point_length c \<le> 4"
proof -
  have "list_all (\<lambda>n. n \<le> 4) lengths" "length lengths = 32" by (simp_all add: lengths_def)
  moreover have "of_char c div 8 < (32 :: nat)" by (rule less_mult_imp_div_less) simp
  ultimately show ?thesis by (auto simp: code_point_length_def Let_def list_all_length)
qed

lemma decode_one_advances:
  "decode_one f buf ptr st = Ok (st', Some e) \<Longrightarrow> length e < length buf \<and> 4 \<le> length buf \<and> length buf \<le> length e + 4"
  using code_point_length_bounds [of "buf ! 0"]
  by (auto simp: decode_one_def utf8_decode_def Let_def split: if_splits prod.splits)

text \<open>The loop over whole blocks; the result is where it stopped, unless the callback has ended the iteration.\<close>

function codepoint_blocks :: "'a code_point_fn \<Rightarrow> string \<Rightarrow> 'a \<Rightarrow> ('a \<times> string option) outcome" where
  "codepoint_blocks f p st =
     (if length p \<ge> 4 then
        (case decode_one f p p st of
           Ok (st, Some p) \<Rightarrow> codepoint_blocks f p st
         | Ok (st, None) \<Rightarrow> Ok (st, None)
         | Throw \<Rightarrow> Throw | Ub u \<Rightarrow> Ub u | Abort \<Rightarrow> Abort | Spin \<Rightarrow> Spin)
      else Ok (st, Some p))"
  by pat_completeness auto
termination
  by (relation "measure (\<lambda>(f, p, st). length p)") (auto dest: decode_one_advances)

declare codepoint_blocks.simps [simp del]

text \<open>The loop over the zero-padded copy of the last characters.\<close>

function codepoint_tail :: "'a code_point_fn \<Rightarrow> nat \<Rightarrow> string \<Rightarrow> string \<Rightarrow> 'a \<Rightarrow> 'a outcome" where
  "codepoint_tail f num_chars_left buf_ptr p st =
     (case decode_one f buf_ptr p st of
        Ok (st, Some end_ptr) \<Rightarrow>
          if 7 - length end_ptr < num_chars_left
          then codepoint_tail f num_chars_left end_ptr (drop (length buf_ptr - length end_ptr) p) st
          else Ok st
      | Ok (st, None) \<Rightarrow> Ok st
      | Throw \<Rightarrow> Throw | Ub u \<Rightarrow> Ub u | Abort \<Rightarrow> Abort | Spin \<Rightarrow> Spin)"
  by pat_completeness auto
termination
  by (relation "measure (\<lambda>(f, n, buf, p, st). length buf)") (auto dest: decode_one_advances)

declare codepoint_tail.simps [simp del]

definition for_each_codepoint :: "string \<Rightarrow> 'a code_point_fn \<Rightarrow> 'a \<Rightarrow> 'a outcome" where
  "for_each_codepoint s f st =
     bind_outcome (codepoint_blocks f s st) (\<lambda>(st, rest).
       case rest of
         None \<Rightarrow> Ok st
       | Some p \<Rightarrow>
           let num_chars_left = length p in
           if num_chars_left = 0 then Ok st
           else codepoint_tail f num_chars_left (p @ replicate (7 - num_chars_left) (CHR 0x00)) p st)"

section \<open>Display width\<close>

definition double_width :: "u32 \<Rightarrow> bool" where
  "double_width cp \<longleftrightarrow>
     cp \<ge> 0x1100 \<and>
     (cp \<le> 0x115f \<or> cp = 0x2329 \<or> cp = 0x232a \<or>
      (cp \<ge> 0x2e80 \<and> cp \<le> 0xa4cf \<and> cp \<noteq> 0x303f) \<or>
      (cp \<ge> 0xac00 \<and> cp \<le> 0xd7a3) \<or> (cp \<ge> 0xf900 \<and> cp \<le> 0xfaff) \<or>
      (cp \<ge> 0xfe10 \<and> cp \<le> 0xfe19) \<or> (cp \<ge> 0xfe30 \<and> cp \<le> 0xfe6f) \<or>
      (cp \<ge> 0xff00 \<and> cp \<le> 0xff60) \<or> (cp \<ge> 0xffe0 \<and> cp \<le> 0xffe6) \<or>
      (cp \<ge> 0x20000 \<and> cp \<le> 0x2fffd) \<or> (cp \<ge> 0x30000 \<and> cp \<le> 0x3fffd) \<or>
      (cp \<ge> 0x1f300 \<and> cp \<le> 0x1f64f) \<or> (cp \<ge> 0x1f900 \<and> cp \<le> 0x1f9ff))"

definition count_code_points :: "nat code_point_fn" where
  "count_code_points cp ptr sz count = (count + 1 + of_bool (double_width cp), True)"

definition compute_width :: "string \<Rightarrow> nat outcome" where
  "compute_width s = for_each_codepoint s count_code_points 0"

section \<open>What the decoder decodes\<close>

text \<open>The standard encoding of a scalar value, the reference for the decoder.\<close>

definition byte_char :: "u32 \<Rightarrow> char" where
  "byte_char w = char_of (unat w)"

definition utf8_encode :: "u32 \<Rightarrow> string" where
  "utf8_encode cp =
     (if cp < 0x80 then [byte_char cp]
      else if cp < 0x800 then [byte_char (0xc0 OR drop_bit 6 cp), byte_char (0x80 OR (cp AND 0x3f))]
      else if cp < 0x10000 then
        [byte_char (0xe0 OR drop_bit 12 cp), byte_char (0x80 OR (drop_bit 6 cp AND 0x3f)), byte_char (0x80 OR (cp AND 0x3f))]
      else
        [byte_char (0xf0 OR drop_bit 18 cp), byte_char (0x80 OR (drop_bit 12 cp AND 0x3f)),
         byte_char (0x80 OR (drop_bit 6 cp AND 0x3f)), byte_char (0x80 OR (cp AND 0x3f))])"

definition scalar_value :: "u32 \<Rightarrow> bool" where
  "scalar_value cp \<longleftrightarrow> cp \<le> 0x10FFFF \<and> \<not> (0xD800 \<le> cp \<and> cp \<le> 0xDFFF)"

lemma of_char_byte_char: "w < 256 \<Longrightarrow> (of_char (byte_char w) :: u32) = w"
proof -
  assume "w < 256"
  then have "unat w < 256" by (simp add: word_less_nat_alt)
  then have "of_char (byte_char w) = unat w" by (simp add: byte_char_def)
  then have "of_nat (of_char (byte_char w)) = (of_nat (unat w) :: u32)" by (rule arg_cong)
  then show ?thesis by (simp only: of_nat_of_char) simp
qed

lemma code_point_length_byte_char: "w < 256 \<Longrightarrow> code_point_length (byte_char w) = (let len = lengths ! (unat w div 8) in len + (if len = 0 then 1 else 0))"
proof -
  assume "w < 256"
  then have "unat w < 256" by (simp add: word_less_nat_alt)
  then show ?thesis by (simp add: byte_char_def code_point_length_def)
qed

lemma bit_less_pow: "unat (w :: u32) < 2 ^ k \<Longrightarrow> bit w n \<Longrightarrow> n < k"
proof -
  assume a: "unat w < 2 ^ k" "bit w n"
  then have "bit (unat w) n" by (simp add: bit_unsigned_iff)
  then have "2 ^ n < (2 :: nat) ^ k" using a(1) bit_nat_le [of "unat w" n] by (meson le_less_trans)
  then show "n < k" by simp
qed

lemma and_low: "(x :: u32) AND 0x7f = take_bit 7 x" "x AND 0x3f = take_bit 6 x" "x AND 0x1f = take_bit 5 x"
  "x AND 0x0f = take_bit 4 x" "x AND 0x07 = take_bit 3 x"
  by (simp_all add: take_bit_eq_mask mask_eq_exp_minus_1)

lemma and_or_low:
  "(0xc0 OR (x :: u32)) AND 0x1f = take_bit 5 x" "(0xe0 OR x) AND 0x0f = take_bit 4 x" "(0xf0 OR x) AND 0x07 = take_bit 3 x"
  "(0x80 OR x) AND 0x3f = take_bit 6 x"
  by (simp_all add: bit.conj_disj_distrib2 and_low)

lemma utf8_code_1: "unat b0 < 2 ^ 7 \<Longrightarrow> utf8_code 1 b0 b1 b2 b3 = b0"
proof (rule bit_word_eqI)
  fix n
  assume "unat b0 < 2 ^ 7"
  note h = bit_less_pow [OF this, of n]
  have "bit (drop_bit 18 (push_bit 18 (take_bit 7 b0) OR push_bit 12 (take_bit 6 b1) OR push_bit 6 (take_bit 6 b2) OR take_bit 6 b3)) n = bit b0 n"
    using h by (auto simp: bit_simps)
  then show "bit (utf8_code 1 b0 b1 b2 b3) n = bit b0 n"
    by (simp add: utf8_code_def shiftc_def masks_def and_low)
qed

lemma utf8_code_2:
  "unat cp < 2 ^ 11 \<Longrightarrow> utf8_code 2 (0xc0 OR drop_bit 6 cp) (0x80 OR (cp AND 0x3f)) b2 b3 = cp"
proof (rule bit_word_eqI)
  fix n
  assume "unat cp < 2 ^ 11"
  note h = bit_less_pow [OF this, of n]
  have "bit (drop_bit 12 (push_bit 18 (take_bit 5 (drop_bit 6 cp)) OR push_bit 12 (take_bit 6 cp) OR push_bit 6 (take_bit 6 b2) OR take_bit 6 b3)) n = bit cp n"
    using h by (cases "n < 6") (auto simp: bit_simps)
  then show "bit (utf8_code 2 (0xc0 OR drop_bit 6 cp) (0x80 OR (cp AND 0x3f)) b2 b3) n = bit cp n"
    by (simp add: utf8_code_def shiftc_def masks_def and_or_low and_low)
qed

lemma utf8_code_3:
  "unat cp < 2 ^ 16 \<Longrightarrow>
   utf8_code 3 (0xe0 OR drop_bit 12 cp) (0x80 OR (drop_bit 6 cp AND 0x3f)) (0x80 OR (cp AND 0x3f)) b3 = cp"
proof (rule bit_word_eqI)
  fix n
  assume "unat cp < 2 ^ 16"
  note h = bit_less_pow [OF this, of n]
  have "bit (drop_bit 6 (push_bit 18 (take_bit 4 (drop_bit 12 cp)) OR push_bit 12 (take_bit 6 (drop_bit 6 cp)) OR push_bit 6 (take_bit 6 cp) OR take_bit 6 b3)) n = bit cp n"
    using h by (cases "n < 6"; cases "n < 12") (auto simp: bit_simps)
  then show "bit (utf8_code 3 (0xe0 OR drop_bit 12 cp) (0x80 OR (drop_bit 6 cp AND 0x3f)) (0x80 OR (cp AND 0x3f)) b3) n = bit cp n"
    by (simp add: utf8_code_def shiftc_def masks_def and_or_low and_low)
qed

lemma utf8_code_4:
  "unat cp < 2 ^ 21 \<Longrightarrow>
   utf8_code 4 (0xf0 OR drop_bit 18 cp) (0x80 OR (drop_bit 12 cp AND 0x3f)) (0x80 OR (drop_bit 6 cp AND 0x3f)) (0x80 OR (cp AND 0x3f)) = cp"
proof (rule bit_word_eqI)
  fix n
  assume "unat cp < 2 ^ 21"
  note h = bit_less_pow [OF this, of n]
  have "bit (push_bit 18 (take_bit 3 (drop_bit 18 cp)) OR push_bit 12 (take_bit 6 (drop_bit 12 cp)) OR push_bit 6 (take_bit 6 (drop_bit 6 cp)) OR take_bit 6 cp) n = bit cp n"
    using h by (cases "n < 6"; cases "n < 12"; cases "n < 18") (auto simp: bit_simps)
  then show "bit (utf8_code 4 (0xf0 OR drop_bit 18 cp) (0x80 OR (drop_bit 12 cp AND 0x3f)) (0x80 OR (drop_bit 6 cp AND 0x3f)) (0x80 OR (cp AND 0x3f))) n = bit cp n"
    by (simp add: utf8_code_def shiftc_def masks_def and_or_low and_low)
qed

text \<open>The error word of a well-formed character is zero.\<close>

lemma of_char_drop: "drop_bit k (of_char c :: u32) = 0" if "8 \<le> k"
proof -
  have "unat (of_char c :: u32) < 2 ^ 8"
  proof -
    have "(of_char c :: u32) = of_nat (of_char c)" by (simp add: of_nat_of_char)
    then have "unat (of_char c :: u32) = of_char c mod 2 ^ 32" by (simp only: unat_of_nat) simp
    then show ?thesis using nat_of_char_less_256 [of c] by simp
  qed
  note h = bit_less_pow [OF this]
  have "\<not> bit (of_char c :: u32) (k + n)" for n using h [of "k + n"] that by auto
  then show ?thesis by (intro bit_word_eqI) (simp add: bit_simps)
qed

lemma tail_bits: "(0x80 OR (x AND 0x3f)) AND 0xc0 = (0x80 :: u32)"
  by (simp add: bit.conj_disj_distrib2 and.assoc)

lemma and_c0_drop: "drop_bit k ((of_char c :: u32) AND 0xc0) = 0" if "8 \<le> k"
  using of_char_drop [OF that, of c] by (simp add: drop_bit_and)

definition valid_for :: "nat \<Rightarrow> u32 \<Rightarrow> bool" where
  "valid_for len cp \<longleftrightarrow> mins ! len \<le> cp \<and> drop_bit 11 cp \<noteq> 0x1b \<and> cp \<le> 0x10FFFF"

lemma utf8_error_valid:
  "valid_for len cp \<Longrightarrow> utf8_error len cp b1 b2 b3 =
     drop_bit (shifte ! len) ((drop_bit 2 (b1 AND 0xc0) OR drop_bit 4 (b2 AND 0xc0) OR drop_bit 6 b3) XOR 0x2a)"
  unfolding valid_for_def utf8_error_def by (simp only: not_less [symmetric] of_bool_eq simp_thms push_bit_of_0 or.left_neutral)

lemma utf8_error_1: "valid_for 1 cp \<Longrightarrow> utf8_error 1 cp (of_char c1) (of_char c2) (of_char c3) = 0"
  by (simp add: utf8_error_valid shifte_def drop_bit_xor drop_bit_or and_c0_drop of_char_drop)

lemma utf8_error_2: "valid_for 2 cp \<Longrightarrow> utf8_error 2 cp (0x80 OR (x AND 0x3f)) (of_char c2) (of_char c3) = 0"
  by (simp only: utf8_error_valid tail_bits) (simp add: shifte_def drop_bit_xor drop_bit_or and_c0_drop of_char_drop)

lemma utf8_error_3: "valid_for 3 cp \<Longrightarrow> utf8_error 3 cp (0x80 OR (x AND 0x3f)) (0x80 OR (y AND 0x3f)) (of_char c3) = 0"
  by (simp only: utf8_error_valid tail_bits) (simp add: shifte_def drop_bit_xor drop_bit_or and_c0_drop of_char_drop)

lemma utf8_error_4: "valid_for 4 cp \<Longrightarrow> utf8_error 4 cp (0x80 OR (x AND 0x3f)) (0x80 OR (y AND 0x3f)) (0x80 OR (z AND 0x3f)) = 0"
  by (simp only: utf8_error_valid tail_bits) (simp add: shifte_def)

text \<open>The lead bytes of the encoding select the lengths, by the position of their payload.\<close>

lemma lengths_blocks: "lengths = replicate 16 1 @ replicate 8 0 @ replicate 4 2 @ replicate 2 3 @ [4, 0]"
  by (simp add: lengths_def numeral_eq_Suc)

lemma lengths_nth: "i < 16 \<Longrightarrow> lengths ! i = Suc 0" "24 \<le> i \<Longrightarrow> i < 28 \<Longrightarrow> lengths ! i = Suc 1"
  "28 \<le> i \<Longrightarrow> i < 30 \<Longrightarrow> lengths ! i = Suc 2" "lengths ! 30 = Suc 3"
proof -
  show "i < 16 \<Longrightarrow> lengths ! i = Suc 0" by (simp add: lengths_blocks nth_append)
  have "\<not> i - 16 < 8" "i - 24 < 4" if "24 \<le> i" "i < 28" using that by linarith+
  then show "24 \<le> i \<Longrightarrow> i < 28 \<Longrightarrow> lengths ! i = Suc 1" by (simp add: lengths_blocks nth_append)
  have "i = 28 \<or> i = 29" if "28 \<le> i" "i < 30" using that by linarith
  then show "28 \<le> i \<Longrightarrow> i < 30 \<Longrightarrow> lengths ! i = Suc 2" by (auto simp: lengths_def)
  show "lengths ! 30 = Suc 3" by (simp add: lengths_def)
qed

lemma or_disjoint: "unat (d :: u32) < 2 ^ k \<Longrightarrow> k \<le> j \<Longrightarrow> push_bit j x OR d = push_bit j x + d"
  by (rule disjunctive_add [symmetric]) (auto simp: bit_simps dest: bit_less_pow)

lemma unat_drop_bit: "unat (drop_bit k (cp :: u32)) = unat cp div 2 ^ k"
proof -
  have "take_bit 32 (unat cp) = unat cp" by (rule take_bit_nat_eq_self) (use unsigned_less [of cp, where ?'a = nat] in simp)
  then show ?thesis by (simp add: unsigned_drop_bit_eq) (simp add: drop_bit_eq_div)
qed

lemma lead_word:
  "unat (d :: u32) < 2 ^ 5 \<Longrightarrow> unat (0xc0 OR d) = 192 + unat d"
  "unat d < 2 ^ 4 \<Longrightarrow> unat (0xe0 OR d) = 224 + unat d"
  "unat d < 2 ^ 3 \<Longrightarrow> unat (0xf0 OR d) = 240 + unat d"
  "unat d < 2 ^ 6 \<Longrightarrow> unat (0x80 OR d) = 128 + unat d"
  using or_disjoint [of d 5 6 3] or_disjoint [of d 4 5 7] or_disjoint [of d 3 4 15] or_disjoint [of d 6 7 1]
  by (simp_all add: unat_word_ariths)

lemma lead_byte:
  "unat (cp :: u32) < 2 ^ 7 \<Longrightarrow> cp < 256 \<and> code_point_length (byte_char cp) = 1"
  "unat cp < 2 ^ 11 \<Longrightarrow> 0xc0 OR drop_bit 6 cp < 256 \<and> code_point_length (byte_char (0xc0 OR drop_bit 6 cp)) = 2"
  "unat cp < 2 ^ 16 \<Longrightarrow> 0xe0 OR drop_bit 12 cp < 256 \<and> code_point_length (byte_char (0xe0 OR drop_bit 12 cp)) = 3"
  "unat cp \<le> 0x10FFFF \<Longrightarrow> 0xf0 OR drop_bit 18 cp < 256 \<and> code_point_length (byte_char (0xf0 OR drop_bit 18 cp)) = 4"
  "0x80 OR (cp AND 0x3f) < 256"
proof -
  have len: "w < 256 \<and> code_point_length (byte_char w) = Suc k" if "unat w = m" "m < 256" "lengths ! (m div 8) = Suc k" for w :: u32 and k m
    using that by (simp add: code_point_length_byte_char word_less_nat_alt)
  show "unat cp < 2 ^ 7 \<Longrightarrow> cp < 256 \<and> code_point_length (byte_char cp) = 1"
    using len [OF refl, of cp 0] by (simp add: lengths_nth(1))
  show "unat cp < 2 ^ 11 \<Longrightarrow> 0xc0 OR drop_bit 6 cp < 256 \<and> code_point_length (byte_char (0xc0 OR drop_bit 6 cp)) = 2"
    using len [OF lead_word(1), of "drop_bit 6 cp" 1] lengths_nth(2) [of "(192 + unat cp div 64) div 8"] by (simp add: unat_drop_bit)
  show "unat cp < 2 ^ 16 \<Longrightarrow> 0xe0 OR drop_bit 12 cp < 256 \<and> code_point_length (byte_char (0xe0 OR drop_bit 12 cp)) = 3"
    using len [OF lead_word(2), of "drop_bit 12 cp" 2] lengths_nth(3) [of "(224 + unat cp div 4096) div 8"] by (simp add: unat_drop_bit)
  show "unat cp \<le> 0x10FFFF \<Longrightarrow> 0xf0 OR drop_bit 18 cp < 256 \<and> code_point_length (byte_char (0xf0 OR drop_bit 18 cp)) = 4"
  proof -
    assume "unat cp \<le> 0x10FFFF"
    then have q: "unat cp div 262144 < 8" using div_le_mono [of "unat cp" 1114111 262144] by simp
    have "(240 + q) div 8 = 30" if "q < 8" for q :: nat using that by linarith
    from this [OF q] show ?thesis using q len [OF lead_word(3), of "drop_bit 18 cp" 3] lengths_nth(4) by (simp add: unat_drop_bit)
  qed
  have "unat (cp AND 0x3f) < 2 ^ 6" using take_bit_nat_less_exp [of 6 "unat cp"] by (simp add: and_low unsigned_take_bit_eq)
  then show "0x80 OR (cp AND 0x3f) < 256" by (simp add: lead_word(4) word_less_nat_alt)
qed

lemma surrogate_bits: "unat (cp :: u32) < 2 ^ 16 \<Longrightarrow> \<not> (0xD800 \<le> cp \<and> cp \<le> 0xDFFF) \<Longrightarrow> drop_bit 11 cp \<noteq> 0x1b"
  and surrogate_high: "0x10000 \<le> cp \<Longrightarrow> drop_bit 11 cp \<noteq> 0x1b"
proof -
  have d: "drop_bit 11 cp = 0x1b \<longleftrightarrow> unat cp div 2 ^ 11 = 27"
    by (simp add: word_unat_eq_iff unat_drop_bit)
  have n: "55296 \<le> n \<and> n \<le> 57343" if "n div 2 ^ 11 = 27" for n :: nat using that by simp linarith
  show "unat cp < 2 ^ 16 \<Longrightarrow> \<not> (0xD800 \<le> cp \<and> cp \<le> 0xDFFF) \<Longrightarrow> drop_bit 11 cp \<noteq> 0x1b"
    using n [of "unat cp"] unfolding d word_le_nat_alt by auto
  show "0x10000 \<le> cp \<Longrightarrow> drop_bit 11 cp \<noteq> 0x1b"
    using n [of "unat cp"] unfolding d word_le_nat_alt by auto
qed

lemma utf8_decode_encode:
  assumes "scalar_value cp" "4 \<le> length (utf8_encode cp @ rest)"
  shows "utf8_decode (utf8_encode cp @ rest) = Ok (rest, cp, 0)"
proof -
  have le: "unat cp \<le> 0x10FFFF" and ns: "\<not> (0xD800 \<le> cp \<and> cp \<le> 0xDFFF)"
    using assms(1) by (simp_all add: scalar_value_def word_le_nat_alt)
  consider (1) "unat cp < 2 ^ 7" | (2) "2 ^ 7 \<le> unat cp" "unat cp < 2 ^ 11"
    | (3) "2 ^ 11 \<le> unat cp" "unat cp < 2 ^ 16" | (4) "2 ^ 16 \<le> unat cp" by linarith
  then show ?thesis
  proof cases
    case 1
    then have e: "utf8_encode cp = [byte_char cp]" and v: "valid_for 1 cp" using surrogate_bits [OF _ ns] 
      by (simp_all add: utf8_encode_def valid_for_def mins_def word_less_nat_alt word_le_nat_alt)
    show ?thesis using 1 assms(2) v lead_byte(1) [OF 1]
      by (simp add: e utf8_decode_def of_char_byte_char utf8_code_1 [OF 1] utf8_error_1 Let_def del: One_nat_def) simp
  next
    case 2
    then have e: "utf8_encode cp = [byte_char (0xc0 OR drop_bit 6 cp), byte_char (0x80 OR (cp AND 0x3f))]"
      and v: "valid_for 2 cp" using surrogate_bits [OF _ ns] 
      by (simp_all add: utf8_encode_def valid_for_def mins_def word_less_nat_alt word_le_nat_alt)
    show ?thesis using assms(2) v lead_byte(2) [OF 2(2)] lead_byte(5) [of cp]
      by (simp add: e utf8_decode_def of_char_byte_char utf8_code_2 [OF 2(2)] utf8_error_2 Let_def)
  next
    case 3
    then have e: "utf8_encode cp = [byte_char (0xe0 OR drop_bit 12 cp), byte_char (0x80 OR (drop_bit 6 cp AND 0x3f)), byte_char (0x80 OR (cp AND 0x3f))]"
      and v: "valid_for 3 cp" using surrogate_bits [OF _ ns] 
      by (simp_all add: utf8_encode_def valid_for_def mins_def word_less_nat_alt word_le_nat_alt)
    show ?thesis using assms(2) v lead_byte(3) [OF 3(2)] lead_byte(5) [of cp] lead_byte(5) [of "drop_bit 6 cp"]
      by (cases rest) (simp_all add: e utf8_decode_def of_char_byte_char utf8_code_3 [OF 3(2)] utf8_error_3 Let_def)
  next
    case 4
    then have e: "utf8_encode cp = [byte_char (0xf0 OR drop_bit 18 cp), byte_char (0x80 OR (drop_bit 12 cp AND 0x3f)),
        byte_char (0x80 OR (drop_bit 6 cp AND 0x3f)), byte_char (0x80 OR (cp AND 0x3f))]"
      and v: "valid_for 4 cp" using surrogate_high le
      by (simp_all add: utf8_encode_def valid_for_def mins_def word_less_nat_alt word_le_nat_alt)
    have "unat cp < 2 ^ 21" using le by simp
    then show ?thesis using assms(2) v lead_byte(4) [OF le] lead_byte(5) [of cp] lead_byte(5) [of "drop_bit 6 cp"] lead_byte(5) [of "drop_bit 12 cp"]
      by (simp add: e utf8_decode_def of_char_byte_char utf8_code_4 utf8_error_4 Let_def)
  qed
qed

section \<open>The width of a string\<close>

text \<open>On arbitrary bytes the iteration stays inside its buffers and ends.\<close>

lemma decode_count_total:
  assumes "4 \<le> length buf"
  obtains k d where "decode_one count_code_points buf p n = Ok (n + d, Some (drop k buf))" "0 < k" "k \<le> 4" "d \<le> 2"
  using assms code_point_length_bounds [of "buf ! 0"]
  by (auto simp: decode_one_def utf8_decode_def count_code_points_def Let_def intro!: that)

lemma codepoint_blocks_total:
  "\<exists>m p'. codepoint_blocks count_code_points p n = Ok (m, Some p') \<and> length p' < 4 \<and> m + 2 * length p' \<le> n + 2 * length p"
proof (induction "length p" arbitrary: p n rule: less_induct)
  case less
  show ?case
  proof (cases "4 \<le> length p")
    case True
    then obtain k d where k: "decode_one count_code_points p p n = Ok (n + d, Some (drop k p))" "0 < k" "k \<le> 4" "d \<le> 2"
      by (rule decode_count_total [of p p n])
    have "length (drop k p) < length p" using True k(2) by simp
    from less [OF this, of "n + d"] obtain m p' where
      "codepoint_blocks count_code_points (drop k p) (n + d) = Ok (m, Some p')" "length p' < 4"
      "m + 2 * length p' \<le> n + d + 2 * (length p - k)" by auto
    then show ?thesis using True k by (subst codepoint_blocks.simps) auto
  qed (subst codepoint_blocks.simps, simp)
qed

lemma codepoint_tail_total:
  assumes "left \<le> 3" "7 - length buf < left" "length buf \<le> 7"
  shows "\<exists>m. codepoint_tail count_code_points left buf p n = Ok m \<and> m \<le> n + 2 * (left - (7 - length buf))"
  using assms(2,3)
proof (induction "length buf" arbitrary: buf p n rule: less_induct)
  case less
  have "4 \<le> length buf" using less.prems assms(1) by linarith
  then obtain k d where k: "decode_one count_code_points buf p n = Ok (n + d, Some (drop k buf))" "0 < k" "k \<le> 4" "d \<le> 2"
    by (rule decode_count_total [of buf p n])
  show ?case
  proof (cases "7 - length (drop k buf) < left")
    case True
    from less.hyps [of "drop k buf" "drop k p" "n + d"] True k less.prems \<open>4 \<le> length buf\<close>
    obtain m where "codepoint_tail count_code_points left (drop k buf) (drop k p) (n + d) = Ok m"
      "m \<le> n + d + 2 * (left - (7 - length (drop k buf)))" by fastforce
    with True k less.prems \<open>4 \<le> length buf\<close> show ?thesis
      by (subst codepoint_tail.simps) auto
  next
    case False
    with k less.prems show ?thesis by (subst codepoint_tail.simps) auto
  qed
qed

lemma compute_width_total: "\<exists>n. compute_width s = Ok n \<and> n \<le> 2 * length s"
proof -
  obtain m p where p: "codepoint_blocks count_code_points s 0 = Ok (m, Some p)" "length p < 4" "m + 2 * length p \<le> 2 * length s"
    using codepoint_blocks_total [of s 0] by auto
  show ?thesis
  proof (cases "p = []")
    case False
    then have "\<exists>n. codepoint_tail count_code_points (length p) (p @ replicate (7 - length p) (CHR 0x00)) p m = Ok n \<and> n \<le> m + 2 * length p"
      using p(2) codepoint_tail_total [of "length p" "p @ replicate (7 - length p) (CHR 0x00)" p m] by simp
    with False p show ?thesis by (auto simp: compute_width_def for_each_codepoint_def Let_def)
  qed (use p in \<open>simp add: compute_width_def for_each_codepoint_def\<close>)
qed

text \<open>On encoded text each step consumes one code point.\<close>

definition columns :: "u32 list \<Rightarrow> nat" where
  "columns cps = sum_list (map (\<lambda>cp. 1 + of_bool (double_width cp)) cps)"

abbreviation encoded :: "u32 list \<Rightarrow> string" where
  "encoded cps \<equiv> concat (map utf8_encode cps)"

lemma utf8_encode_nonempty [simp]: "utf8_encode cp \<noteq> []"
  by (simp add: utf8_encode_def)

lemma encoded_empty [simp]: "(\<forall>xs\<in>set cps. utf8_encode xs = []) \<longleftrightarrow> cps = []"
  by (cases cps) auto

lemma columns_append [simp]: "columns [] = 0" "columns (xs @ ys) = columns xs + columns ys"
  by (simp_all add: columns_def)

lemma columns_Cons: "columns (cp # cps) = columns [cp] + columns cps"
  by (simp add: columns_def)

lemma decode_count_encoded:
  assumes "scalar_value cp" "4 \<le> length (utf8_encode cp @ rest)"
  shows "decode_one count_code_points (utf8_encode cp @ rest) p n = Ok (n + columns [cp], Some rest)"
  using utf8_decode_encode [OF assms] by (simp add: decode_one_def count_code_points_def columns_def)

lemma codepoint_blocks_encoded:
  "list_all scalar_value cps \<Longrightarrow>
   \<exists>used left. cps = used @ left \<and> length (encoded left) < 4 \<and>
     codepoint_blocks count_code_points (encoded cps) n = Ok (n + columns used, Some (encoded left))"
proof (induction cps arbitrary: n)
  case Nil
  have "codepoint_blocks count_code_points (encoded []) n = Ok (n, Some [])" by (subst codepoint_blocks.simps) simp
  then show ?case by (auto simp: columns_def)
next
  case (Cons cp cps)
  show ?case
  proof (cases "4 \<le> length (encoded (cp # cps))")
    case True
    have "decode_one count_code_points (encoded (cp # cps)) (encoded (cp # cps)) n = Ok (n + columns [cp], Some (encoded cps))"
      using Cons.prems True decode_count_encoded [of cp "encoded cps"] by simp
    with True have "codepoint_blocks count_code_points (encoded (cp # cps)) n = codepoint_blocks count_code_points (encoded cps) (n + columns [cp])"
      by (subst codepoint_blocks.simps) simp
    moreover obtain used left where "cps = used @ left" "length (encoded left) < 4"
      "codepoint_blocks count_code_points (encoded cps) (n + columns [cp]) = Ok (n + columns [cp] + columns used, Some (encoded left))"
      using Cons.IH [of "n + columns [cp]"] Cons.prems by auto
    ultimately show ?thesis by (intro exI [of _ "cp # used"] exI [of _ left]) (simp add: columns_Cons [of cp used])
  next
    case False
    then have "codepoint_blocks count_code_points (encoded (cp # cps)) n = Ok (n, Some (encoded (cp # cps)))"
      by (subst codepoint_blocks.simps) simp
    with False show ?thesis by (intro exI [of _ "[]"] exI [of _ "cp # cps"]) simp
  qed
qed

lemma codepoint_tail_encoded:
  assumes "left \<le> 3" "length zeros = 7 - left" "list_all scalar_value cps" "cps \<noteq> []" "length (encoded cps) \<le> left"
  shows "codepoint_tail count_code_points left (encoded cps @ zeros) p n = Ok (n + columns cps)"
  using assms(3-5)
proof (induction cps arbitrary: p n)
  case (Cons cp cps)
  have len: "4 \<le> length (utf8_encode cp @ encoded cps @ zeros)" using assms(1,2) by simp
  have d: "decode_one count_code_points (encoded (cp # cps) @ zeros) p n = Ok (n + columns [cp], Some (encoded cps @ zeros))"
    using Cons.prems(1) decode_count_encoded [OF _ len] by simp
  have ne: "cps \<noteq> [] \<Longrightarrow> 0 < length (encoded cps)" by (simp del: length_concat)
  have "7 - length (encoded cps @ zeros) < left \<longleftrightarrow> cps \<noteq> []"
  proof (cases "cps = []")
    case False
    with ne have "0 < length (encoded cps)" by simp
    moreover from this have "0 < left" using Cons.prems(3) by (simp del: length_concat length_greater_0_conv)
    ultimately have "0 < length (encoded cps)" "0 < left" by blast+
    then show ?thesis using assms(1,2) Cons.prems(3) False by (simp del: length_concat length_greater_0_conv)
  qed (use assms(1,2) in simp)
  then show ?case
    using d Cons by (subst codepoint_tail.simps) (simp del: length_concat add: columns_Cons [of cp cps])
qed simp

text \<open>C29. The width computed for UTF-8 text is its number of terminal columns, one or two for each code point.\<close>

theorem compute_width_encoded:
  "list_all scalar_value cps \<Longrightarrow> compute_width (encoded cps) = Ok (columns cps)"
proof -
  assume v: "list_all scalar_value cps"
  from codepoint_blocks_encoded [OF v, of 0] obtain used left where u: "cps = used @ left" "length (encoded left) < 4"
    "codepoint_blocks count_code_points (encoded cps) 0 = Ok (columns used, Some (encoded left))" by auto
  show ?thesis
  proof (cases "left = []")
    case True
    with u show ?thesis by (simp add: compute_width_def for_each_codepoint_def)
  next
    case False
    then have "encoded left \<noteq> []" by simp
    moreover have "codepoint_tail count_code_points (length (encoded left)) (encoded left @ replicate (7 - length (encoded left)) (CHR 0x00)) (encoded left) (columns used) =
        Ok (columns used + columns left)"
      using u(1,2) v False by (intro codepoint_tail_encoded) simp_all
    ultimately show ?thesis using u by (simp add: compute_width_def for_each_codepoint_def Let_def)
  qed
qed

theorem compute_width_encoded_witness: "compute_width [CHR ''a'', CHR 0xC3, CHR 0xA9, CHR 0xE4, CHR 0xB8, CHR 0xAD] = Ok 4"
  using compute_width_encoded [of "[0x61, 0xe9, 0x4e2d]"]
  by (simp add: scalar_value_def columns_def double_width_def utf8_encode_def byte_char_def char_of_def bit_0 drop_bit_eq_div)

text \<open>
  A byte that can start no character is decoded as a code point of its own without an error: the length zero of
  the table is turned into one before the tables of the error conditions are consulted.
\<close>

lemma stray_byte_accepted:
  "code_point_length c = 1 \<Longrightarrow> utf8_decode (c # x # y # z # s) = Ok (x # y # z # s, of_char c AND 0x7f, 0)"
proof -
  assume len: "code_point_length c = 1"
  have cp: "utf8_code 1 (of_char c) b1 b2 b3 = of_char c AND 0x7f" for b1 b2 b3
  proof (rule bit_word_eqI)
    fix n
    have "bit (drop_bit 18 (push_bit 18 (take_bit 7 (of_char c)) OR push_bit 12 (take_bit 6 b1) OR push_bit 6 (take_bit 6 b2) OR take_bit 6 b3)) n =
        bit (take_bit 7 (of_char c :: u32)) n" by (auto simp: bit_simps)
    then show "bit (utf8_code 1 (of_char c) b1 b2 b3) n = bit ((of_char c :: u32) AND 0x7f) n"
      by (simp add: utf8_code_def shiftc_def masks_def and_low)
  qed
  have "unat ((of_char c :: u32) AND 0x7f) < 2 ^ 7"
    using take_bit_nat_less_exp [of 7 "unat (of_char c :: u32)"] by (simp add: and_low unsigned_take_bit_eq)
  then have "valid_for 1 (of_char c AND 0x7f)"
    by (auto simp: valid_for_def mins_def word_le_nat_alt word_unat_eq_iff unat_drop_bit)
  from utf8_error_1 [OF this] show ?thesis using cp len
    by (simp add: utf8_decode_def Let_def del: One_nat_def) simp
qed

end
