(* ===== verification/Fmt_Spec.thy ===== *)
theory Fmt_Spec
  imports Fmt_Utf8
begin

text \<open>
  Format specifications of the bundled fmt library: the data of \<^verbatim>\<open>core.h\<close> that a specification is parsed into,
  the argument list, and the parser from \<^verbatim>\<open>parse_nonnegative_int\<close> to \<^verbatim>\<open>parse_format_specs\<close> with the handler
  \<^verbatim>\<open>specs_checker<specs_handler<char>>\<close> that \<^verbatim>\<open>vformat_to\<close> installs. A pointer into the format string is the
  suffix that starts there, so \<^verbatim>\<open>begin == end\<close> is the empty suffix. A computation returns a value or the message
  of the \<^verbatim>\<open>format_error\<close> it throws; reads behind the end are \<open>Ub Overread\<close> and failed assertions \<open>Abort\<close>.
\<close>

section \<open>Results and errors\<close>

type_synonym 'a fmt = "(string + 'a) outcome"

abbreviation fmt_ret :: "'a \<Rightarrow> 'a fmt" where
  "fmt_ret x \<equiv> Ok (Inr x)"

abbreviation on_error :: "string \<Rightarrow> 'a fmt" where
  "on_error message \<equiv> Ok (Inl message)"

definition fmt_bind :: "'a fmt \<Rightarrow> ('a \<Rightarrow> 'b fmt) \<Rightarrow> 'b fmt" where
  "fmt_bind m f = (case m of
     Ok (Inr x) \<Rightarrow> f x | Ok (Inl e) \<Rightarrow> Ok (Inl e) | Throw \<Rightarrow> Throw | Ub u \<Rightarrow> Ub u | Abort \<Rightarrow> Abort | Spin \<Rightarrow> Spin)"

definition fmt_lift :: "'a outcome \<Rightarrow> 'a fmt" where
  "fmt_lift m = bind_outcome m (\<lambda>x. fmt_ret x)"

section \<open>Specifications\<close>

datatype align_t = Align_none | Align_left | Align_right | Align_center | Align_numeric

datatype sign_t = Sign_none | Sign_minus | Sign_plus | Sign_space

datatype presentation_type = Pres_none | Pres_dec | Pres_oct | Pres_hex_lower | Pres_hex_upper | Pres_bin_lower | Pres_bin_upper
  | Pres_hexfloat_lower | Pres_hexfloat_upper | Pres_exp_lower | Pres_exp_upper | Pres_fixed_lower | Pres_fixed_upper | Pres_general_lower | Pres_general_upper
  | Pres_chr | Pres_string | Pres_pointer

record fill_t =
  fill_data :: string
  fill_size :: nat

definition fill_default :: fill_t where
  "fill_default = \<lparr>fill_data = [CHR '' '', CHR 0x00, CHR 0x00, CHR 0x00], fill_size = 1\<rparr>"

definition fill_assign :: "string \<Rightarrow> fill_t \<Rightarrow> fill_t fmt" where
  "fill_assign s f =
     (if length s > 4 then on_error ''invalid fill''
      else fmt_ret (f\<lparr>fill_data := s @ drop (length s) (fill_data f), fill_size := length s\<rparr>))"

record format_specs =
  spec_width :: int
  spec_precision :: int
  spec_type :: presentation_type
  spec_align :: align_t
  spec_sign :: sign_t
  spec_alt :: bool
  spec_localized :: bool
  spec_fill :: fill_t

definition format_specs_default :: format_specs where
  "format_specs_default =
     \<lparr>spec_width = 0, spec_precision = -1, spec_type = Pres_none, spec_align = Align_none, spec_sign = Sign_none,
      spec_alt = False, spec_localized = False, spec_fill = fill_default\<rparr>"

section \<open>Arguments\<close>

text \<open>
  The built-in argument types the programs pass. A C string is its address and the text there, and is null when
  the address is 0.
\<close>

datatype format_arg =
    Int_arg u32 | Uint_arg u32 | Long_long_arg size_t | Ulong_long_arg size_t | Bool_arg bool | Char_arg char
  | Cstring_arg size_t string | String_arg string | Pointer_arg size_t

datatype arg_type = None_type | Int_type | Uint_type | Long_long_type | Ulong_long_type | Int128_type | Uint128_type
  | Bool_type | Char_type | Float_type | Double_type | Long_double_type | Cstring_type | String_type | Pointer_type | Custom_type

fun arg_type_of :: "format_arg \<Rightarrow> arg_type" where
  "arg_type_of (Int_arg _) = Int_type"
| "arg_type_of (Uint_arg _) = Uint_type"
| "arg_type_of (Long_long_arg _) = Long_long_type"
| "arg_type_of (Ulong_long_arg _) = Ulong_long_type"
| "arg_type_of (Bool_arg _) = Bool_type"
| "arg_type_of (Char_arg _) = Char_type"
| "arg_type_of (Cstring_arg _ _) = Cstring_type"
| "arg_type_of (String_arg _) = String_type"
| "arg_type_of (Pointer_arg _) = Pointer_type"

definition is_integral_type :: "arg_type \<Rightarrow> bool" where
  "is_integral_type t \<longleftrightarrow>
     t \<in> {Int_type, Uint_type, Long_long_type, Ulong_long_type, Int128_type, Uint128_type, Bool_type, Char_type}"

definition is_arithmetic_type :: "arg_type \<Rightarrow> bool" where
  "is_arithmetic_type t \<longleftrightarrow> is_integral_type t \<or> t \<in> {Float_type, Double_type, Long_double_type}"

record format_args =
  arg_values :: "format_arg list"
  named_args :: "(string \<times> int) list"

definition max_packed_args :: nat where
  "max_packed_args = 62 div 4"

text \<open>
  \<^verbatim>\<open>basic_format_args::get\<close>: up to \<open>max_packed_args\<close> arguments are packed, with the types in the bits of one word, where
  the type of a missing argument reads as \<^verbatim>\<open>none_type\<close>.
\<close>

definition args_get :: "format_args \<Rightarrow> int \<Rightarrow> format_arg option outcome" where
  "args_get args i =
     (if i < 0 then Ub IndexOut
      else if length (arg_values args) > max_packed_args then
        Ok (if nat i < length (arg_values args) then Some (arg_values args ! nat i) else None)
      else if nat i \<ge> max_packed_args then Ok None
      else Ok (if nat i < length (arg_values args) then Some (arg_values args ! nat i) else None))"

fun find_named :: "string \<Rightarrow> (string \<times> int) list \<Rightarrow> int" where
  "find_named s [] = -1"
| "find_named s ((n, i) # ns) = (if n = s then i else find_named s ns)"

definition get_id :: "format_args \<Rightarrow> string \<Rightarrow> int" where
  "get_id args s = find_named s (named_args args)"

definition args_get_named :: "format_args \<Rightarrow> string \<Rightarrow> format_arg option outcome" where
  "args_get_named args s = (let i = get_id args s in if i \<ge> 0 then args_get args i else Ok None)"

definition found_arg :: "format_arg option outcome \<Rightarrow> format_arg fmt" where
  "found_arg m = bind_outcome m (\<lambda>a. case a of None \<Rightarrow> on_error ''argument not found'' | Some a \<Rightarrow> fmt_ret a)"

text \<open>The parse context: the counter for automatic indexing, negative once an index has been given.\<close>

definition next_arg_id :: "int \<Rightarrow> (int \<times> int) fmt" where
  "next_arg_id n =
     (if n \<ge> 0 then fmt_ret (n, n + 1) else on_error ''cannot switch from manual to automatic argument indexing'')"

definition check_arg_id :: "int \<Rightarrow> int fmt" where
  "check_arg_id n =
     (if n > 0 then on_error ''cannot switch from automatic to manual argument indexing'' else fmt_ret (-1))"

section \<open>The handler\<close>

text \<open>The specifications being filled and the argument counter of the parse context.\<close>

record spec_state =
  st_specs :: format_specs
  st_next :: int

abbreviation set_specs :: "(format_specs \<Rightarrow> format_specs) \<Rightarrow> spec_state \<Rightarrow> spec_state fmt" where
  "set_specs f s \<equiv> fmt_ret (s\<lparr>st_specs := f (st_specs s)\<rparr>)"

datatype arg_id = Auto_id | Index_id int | Name_id string

text \<open>\<^verbatim>\<open>specs_handler::get_arg\<close> in its three overloads: the argument and the new counter.\<close>

fun spec_get_arg :: "format_args \<Rightarrow> arg_id \<Rightarrow> int \<Rightarrow> (format_arg \<times> int) fmt" where
  "spec_get_arg args Auto_id n =
     fmt_bind (next_arg_id n) (\<lambda>(i, n). fmt_bind (found_arg (args_get args i)) (\<lambda>a. fmt_ret (a, n)))"
| "spec_get_arg args (Index_id i) n =
     fmt_bind (check_arg_id n) (\<lambda>n. fmt_bind (found_arg (args_get args i)) (\<lambda>a. fmt_ret (a, n)))"
| "spec_get_arg args (Name_id s) n = fmt_bind (found_arg (args_get_named args s)) (\<lambda>a. fmt_ret (a, n))"

text \<open>\<^verbatim>\<open>width_checker\<close> and \<^verbatim>\<open>precision_checker\<close> differ in the word in their messages; the value is an \<^verbatim>\<open>unsigned long long\<close>.\<close>

fun dynamic_checker :: "string \<Rightarrow> format_arg \<Rightarrow> size_t fmt" where
  "dynamic_checker what (Int_arg w) = (if sint w < 0 then on_error (''negative '' @ what) else fmt_ret (scast w))"
| "dynamic_checker what (Uint_arg w) = fmt_ret (ucast w)"
| "dynamic_checker what (Long_long_arg w) = (if sint w < 0 then on_error (''negative '' @ what) else fmt_ret w)"
| "dynamic_checker what (Ulong_long_arg w) = fmt_ret w"
| "dynamic_checker what a = on_error (what @ '' is not integer'')"

definition get_dynamic_spec :: "string \<Rightarrow> format_arg \<Rightarrow> int fmt" where
  "get_dynamic_spec what a = fmt_bind (dynamic_checker what a) (\<lambda>v.
     if v > 0x7fffffff then on_error ''number is too big'' else fmt_ret (uint v))"

definition on_dynamic_width :: "format_args \<Rightarrow> arg_id \<Rightarrow> spec_state \<Rightarrow> spec_state fmt" where
  "on_dynamic_width args i s =
     fmt_bind (spec_get_arg args i (st_next s)) (\<lambda>(a, n).
       fmt_bind (get_dynamic_spec ''width'' a) (\<lambda>w.
         fmt_ret \<lparr>st_specs = (st_specs s)\<lparr>spec_width := w\<rparr>, st_next = n\<rparr>))"

definition on_dynamic_precision :: "format_args \<Rightarrow> arg_id \<Rightarrow> spec_state \<Rightarrow> spec_state fmt" where
  "on_dynamic_precision args i s =
     fmt_bind (spec_get_arg args i (st_next s)) (\<lambda>(a, n).
       fmt_bind (get_dynamic_spec ''precision'' a) (\<lambda>w.
         fmt_ret \<lparr>st_specs = (st_specs s)\<lparr>spec_precision := w\<rparr>, st_next = n\<rparr>))"

definition require_numeric_argument :: "arg_type \<Rightarrow> unit fmt" where
  "require_numeric_argument t =
     (if \<not> is_arithmetic_type t then on_error ''format specifier requires numeric argument'' else fmt_ret ())"

definition on_align :: "arg_type \<Rightarrow> align_t \<Rightarrow> spec_state \<Rightarrow> spec_state fmt" where
  "on_align t a s =
     fmt_bind (if a = Align_numeric then require_numeric_argument t else fmt_ret ()) (\<lambda>_.
       set_specs (\<lambda>sp. sp\<lparr>spec_align := a\<rparr>) s)"

definition on_fill :: "string \<Rightarrow> spec_state \<Rightarrow> spec_state fmt" where
  "on_fill f s = fmt_bind (fill_assign f (spec_fill (st_specs s))) (\<lambda>f. set_specs (\<lambda>sp. sp\<lparr>spec_fill := f\<rparr>) s)"

definition on_sign :: "arg_type \<Rightarrow> sign_t \<Rightarrow> spec_state \<Rightarrow> spec_state fmt" where
  "on_sign t sg s =
     fmt_bind (require_numeric_argument t) (\<lambda>_.
       if is_integral_type t \<and> t \<noteq> Int_type \<and> t \<noteq> Long_long_type \<and> t \<noteq> Char_type
       then on_error ''format specifier requires signed argument''
       else set_specs (\<lambda>sp. sp\<lparr>spec_sign := sg\<rparr>) s)"

definition on_hash :: "arg_type \<Rightarrow> spec_state \<Rightarrow> spec_state fmt" where
  "on_hash t s = fmt_bind (require_numeric_argument t) (\<lambda>_. set_specs (\<lambda>sp. sp\<lparr>spec_alt := True\<rparr>) s)"

definition on_localized :: "arg_type \<Rightarrow> spec_state \<Rightarrow> spec_state fmt" where
  "on_localized t s = fmt_bind (require_numeric_argument t) (\<lambda>_. set_specs (\<lambda>sp. sp\<lparr>spec_localized := True\<rparr>) s)"

definition zero_specs :: "format_specs \<Rightarrow> format_specs" where
  "zero_specs sp =
     sp\<lparr>spec_align := (if spec_align sp = Align_none then Align_numeric else spec_align sp),
        spec_fill := (spec_fill sp)\<lparr>fill_data := (fill_data (spec_fill sp))[0 := CHR ''0'']\<rparr>\<rparr>"

definition on_zero :: "arg_type \<Rightarrow> spec_state \<Rightarrow> spec_state fmt" where
  "on_zero t s = fmt_bind (require_numeric_argument t) (\<lambda>_. set_specs zero_specs s)"

definition on_width :: "int \<Rightarrow> spec_state \<Rightarrow> spec_state fmt" where
  "on_width w s = set_specs (\<lambda>sp. sp\<lparr>spec_width := w\<rparr>) s"

definition on_precision :: "int \<Rightarrow> spec_state \<Rightarrow> spec_state fmt" where
  "on_precision p s = set_specs (\<lambda>sp. sp\<lparr>spec_precision := p\<rparr>) s"

definition end_precision :: "arg_type \<Rightarrow> spec_state \<Rightarrow> spec_state fmt" where
  "end_precision t s =
     (if is_integral_type t \<or> t = Pointer_type then on_error ''precision not allowed for this argument type'' else fmt_ret s)"

definition on_type :: "presentation_type \<Rightarrow> spec_state \<Rightarrow> spec_state fmt" where
  "on_type p s = set_specs (\<lambda>sp. sp\<lparr>spec_type := p\<rparr>) s"

section \<open>The parser\<close>

definition fmt_digit :: "char \<Rightarrow> bool" where
  "fmt_digit c \<longleftrightarrow> 48 \<le> (of_char c :: nat) \<and> (of_char c :: nat) \<le> 57"

definition is_ascii_letter :: "char \<Rightarrow> bool" where
  "is_ascii_letter c \<longleftrightarrow>
     (97 \<le> (of_char c :: nat) \<and> (of_char c :: nat) \<le> 122) \<or> (65 \<le> (of_char c :: nat) \<and> (of_char c :: nat) \<le> 90)"

definition is_name_start :: "char \<Rightarrow> bool" where
  "is_name_start c \<longleftrightarrow> is_ascii_letter c \<or> c = CHR ''_''"

text \<open>The text between two pointers.\<close>

definition between :: "string \<Rightarrow> string \<Rightarrow> string" where
  "between b e = take (length b - length e) b"

text \<open>The loop on unsigned values: the value before the last digit, the value and the position behind the digits.\<close>

fun parse_digits :: "u32 \<Rightarrow> u32 \<Rightarrow> string \<Rightarrow> u32 \<times> u32 \<times> string" where
  "parse_digits prev value [] = (prev, value, [])"
| "parse_digits prev value (c # p) =
     (if fmt_digit c then parse_digits value (value * 10 + (of_char c - 48)) p else (prev, value, c # p))"

definition parse_nonnegative_int :: "string \<Rightarrow> int \<Rightarrow> (int \<times> string) outcome" where
  "parse_nonnegative_int b error_value =
     (if b = [] \<or> \<not> fmt_digit (hd b) then Abort
      else let (prev, value, p) = parse_digits 0 0 b;
               num_digits = length b - length p
           in if num_digits \<le> 9 then Ok (sint value, p)
              else if num_digits = 10 \<and> (ucast prev * 10 + ucast (of_char (b ! (num_digits - 1)) - 48 :: u32) :: size_t) \<le> 0x7fffffff
              then Ok (sint value, p) else Ok (error_value, p))"

definition align_of_char :: "char \<Rightarrow> align_t" where
  "align_of_char c =
     (if c = CHR ''<'' then Align_left else if c = CHR ''>'' then Align_right else if c = CHR ''^'' then Align_center else Align_none)"

text \<open>
  The loop of \<^verbatim>\<open>parse_align\<close> looks behind the first code point for an alignment, and then at it when there is none.
\<close>

definition parse_align :: "arg_type \<Rightarrow> string \<Rightarrow> spec_state \<Rightarrow> (string \<times> spec_state) fmt" where
  "parse_align t b s =
     (if b = [] then Abort
      else let n = code_point_length (hd b);
               p = (if length b \<le> n then b else drop n b)
           in if align_of_char (hd p) \<noteq> Align_none then
                if length p \<noteq> length b then
                  (if hd b = CHR ''{'' then on_error (''invalid fill character '' @ [CHR 0x27, CHR ''{'', CHR 0x27])
                   else fmt_bind (on_fill (between b p) s) (\<lambda>s.
                     fmt_bind (on_align t (align_of_char (hd p)) s) (\<lambda>s. fmt_ret (tl p, s))))
                else fmt_bind (on_align t (align_of_char (hd p)) s) (\<lambda>s. fmt_ret (tl b, s))
              else if align_of_char (hd b) \<noteq> Align_none then
                fmt_bind (on_align t (align_of_char (hd b)) s) (\<lambda>s. fmt_ret (tl b, s))
              else fmt_ret (b, s))"

text \<open>The identifier handlers are functions of the identifier and the state.\<close>

definition do_parse_arg_id :: "(arg_id \<Rightarrow> 's \<Rightarrow> 's fmt) \<Rightarrow> string \<Rightarrow> 's \<Rightarrow> (string \<times> 's) fmt" where
  "do_parse_arg_id handler b s =
     (if b = [] then Abort
      else if fmt_digit (hd b) then
        fmt_bind (if hd b \<noteq> CHR ''0'' then fmt_lift (parse_nonnegative_int b 2147483647) else fmt_ret (0, tl b)) (\<lambda>(index, b).
          if b = [] \<or> (hd b \<noteq> CHR ''}'' \<and> hd b \<noteq> CHR '':'') then on_error ''invalid format string''
          else fmt_bind (handler (Index_id index) s) (\<lambda>s. fmt_ret (b, s)))
      else if \<not> is_name_start (hd b) then on_error ''invalid format string''
      else let it = dropWhile (\<lambda>c. is_name_start c \<or> fmt_digit c) (tl b)
           in fmt_bind (handler (Name_id (between b it)) s) (\<lambda>s. fmt_ret (it, s)))"

definition parse_arg_id :: "(arg_id \<Rightarrow> 's \<Rightarrow> 's fmt) \<Rightarrow> string \<Rightarrow> 's \<Rightarrow> (string \<times> 's) fmt" where
  "parse_arg_id handler b s =
     (if b = [] then Ub Overread
      else if hd b \<noteq> CHR ''}'' \<and> hd b \<noteq> CHR '':'' then do_parse_arg_id handler b s
      else fmt_bind (handler Auto_id s) (\<lambda>s. fmt_ret (b, s)))"

definition parse_width :: "format_args \<Rightarrow> string \<Rightarrow> spec_state \<Rightarrow> (string \<times> spec_state) fmt" where
  "parse_width args b s =
     (if b = [] then Abort
      else if fmt_digit (hd b) then
        fmt_bind (fmt_lift (parse_nonnegative_int b (-1))) (\<lambda>(w, b).
          if w \<noteq> -1 then fmt_bind (on_width w s) (\<lambda>s. fmt_ret (b, s)) else on_error ''number is too big'')
      else if hd b = CHR ''{'' then
        fmt_bind (if tl b \<noteq> [] then parse_arg_id (on_dynamic_width args) (tl b) s else fmt_ret (tl b, s)) (\<lambda>(b, s).
          if b = [] \<or> hd b \<noteq> CHR ''}'' then on_error ''invalid format string'' else fmt_ret (tl b, s))
      else fmt_ret (b, s))"

definition parse_precision :: "format_args \<Rightarrow> arg_type \<Rightarrow> string \<Rightarrow> spec_state \<Rightarrow> (string \<times> spec_state) fmt" where
  "parse_precision args t b s =
     (let b = tl b; c = (if b \<noteq> [] then hd b else CHR 0x00) in
      fmt_bind
        (if fmt_digit c then
           fmt_bind (fmt_lift (parse_nonnegative_int b (-1))) (\<lambda>(p, b).
             if p \<noteq> -1 then fmt_bind (on_precision p s) (\<lambda>s. fmt_ret (b, s)) else on_error ''number is too big'')
         else if c = CHR ''{'' then
           fmt_bind (if tl b \<noteq> [] then parse_arg_id (on_dynamic_precision args) (tl b) s else fmt_ret (tl b, s)) (\<lambda>(b, s).
             if b = [] \<or> hd b \<noteq> CHR ''}'' then on_error ''invalid format string'' else fmt_ret (tl b, s))
         else on_error ''missing precision specifier'')
        (\<lambda>(b, s). fmt_bind (end_precision t s) (\<lambda>s. fmt_ret (b, s))))"

definition presentation_table :: "(char \<times> presentation_type) list" where
  "presentation_table =
     [(CHR ''d'', Pres_dec), (CHR ''o'', Pres_oct), (CHR ''x'', Pres_hex_lower), (CHR ''X'', Pres_hex_upper),
      (CHR ''b'', Pres_bin_lower), (CHR ''B'', Pres_bin_upper), (CHR ''a'', Pres_hexfloat_lower), (CHR ''A'', Pres_hexfloat_upper),
      (CHR ''e'', Pres_exp_lower), (CHR ''E'', Pres_exp_upper), (CHR ''f'', Pres_fixed_lower), (CHR ''F'', Pres_fixed_upper),
      (CHR ''g'', Pres_general_lower), (CHR ''G'', Pres_general_upper), (CHR ''c'', Pres_chr), (CHR ''s'', Pres_string),
      (CHR ''p'', Pres_pointer)]"

definition parse_presentation_type :: "char \<Rightarrow> presentation_type" where
  "parse_presentation_type c = (case map_of presentation_table c of Some p \<Rightarrow> p | None \<Rightarrow> Pres_none)"

definition parse_type :: "string \<Rightarrow> spec_state \<Rightarrow> (string \<times> spec_state) fmt" where
  "parse_type b s =
     (let ty = parse_presentation_type (hd b) in
      if ty = Pres_none then on_error ''invalid type specifier''
      else fmt_bind (on_type ty s) (\<lambda>s. fmt_ret (tl b, s)))"

definition parse_sign :: "arg_type \<Rightarrow> string \<Rightarrow> spec_state \<Rightarrow> (string \<times> spec_state) fmt" where
  "parse_sign t b s =
     (if hd b = CHR ''+'' then fmt_bind (on_sign t Sign_plus s) (\<lambda>s. fmt_ret (tl b, s))
      else if hd b = CHR ''-'' then fmt_bind (on_sign t Sign_minus s) (\<lambda>s. fmt_ret (tl b, s))
      else if hd b = CHR '' '' then fmt_bind (on_sign t Sign_space s) (\<lambda>s. fmt_ret (tl b, s))
      else fmt_ret (b, s))"

text \<open>Every step of \<^verbatim>\<open>parse_format_specs\<close> is followed by a return when the end is reached.\<close>

definition unless_end :: "(string \<Rightarrow> spec_state \<Rightarrow> (string \<times> spec_state) fmt) \<Rightarrow> string \<times> spec_state \<Rightarrow> (string \<times> spec_state) fmt" where
  "unless_end f x = (case x of (b, s) \<Rightarrow> if b = [] then fmt_ret (b, s) else f b s)"

definition parse_format_specs :: "format_args \<Rightarrow> arg_type \<Rightarrow> string \<Rightarrow> spec_state \<Rightarrow> (string \<times> spec_state) fmt" where
  "parse_format_specs args t b s =
     (if 1 < length b \<and> b ! 1 = CHR ''}'' \<and> is_ascii_letter (hd b) \<and> hd b \<noteq> CHR ''L'' then parse_type b s
      else if b = [] then fmt_ret (b, s)
      else fmt_bind (parse_align t b s) (unless_end (\<lambda>b s.
        fmt_bind (parse_sign t b s) (unless_end (\<lambda>b s.
        fmt_bind (if hd b = CHR ''#'' then fmt_bind (on_hash t s) (\<lambda>s. fmt_ret (tl b, s)) else fmt_ret (b, s)) (unless_end (\<lambda>b s.
        fmt_bind (if hd b = CHR ''0'' then fmt_bind (on_zero t s) (\<lambda>s. fmt_ret (tl b, s)) else fmt_ret (b, s)) (unless_end (\<lambda>b s.
        fmt_bind (parse_width args b s) (unless_end (\<lambda>b s.
        fmt_bind (if hd b = CHR ''.'' then parse_precision args t b s else fmt_ret (b, s)) (unless_end (\<lambda>b s.
        fmt_bind (if hd b = CHR ''L'' then fmt_bind (on_localized t s) (\<lambda>s. fmt_ret (tl b, s)) else fmt_ret (b, s)) (\<lambda>(b, s).
          if b \<noteq> [] \<and> hd b \<noteq> CHR ''}'' then parse_type b s else fmt_ret (b, s)))))))))))))))"

section \<open>Reading numbers\<close>

definition decimal_value :: "nat \<Rightarrow> string \<Rightarrow> nat" where
  "decimal_value v ds = foldl (\<lambda>v c. v * 10 + (of_char c - 48)) v ds"

lemma decimal_value_simps [simp]:
  "decimal_value v [] = v" "decimal_value v (c # ds) = decimal_value (v * 10 + (of_char c - 48)) ds"
  "decimal_value v (ds @ [c]) = decimal_value v ds * 10 + (of_char c - 48)"
  by (simp_all add: decimal_value_def)

lemma decimal_value_less:
  "list_all fmt_digit ds \<Longrightarrow> decimal_value v ds < (v + 1) * 10 ^ length ds"
proof (induction ds arbitrary: v)
  case (Cons c ds)
  then have "decimal_value (v * 10 + (of_char c - 48)) ds < (v * 10 + (of_char c - 48) + 1) * 10 ^ length ds" by simp
  also have "\<dots> \<le> (v * 10 + 10) * 10 ^ length ds" using Cons.prems by (intro mult_right_mono) (auto simp: fmt_digit_def)
  finally show ?case by (simp add: algebra_simps)
qed simp

lemma word_of_digit: "fmt_digit c \<Longrightarrow> (of_char c - 48 :: u32) = of_nat (of_char c - 48)"
  by (simp add: fmt_digit_def of_nat_diff of_nat_of_char)

lemma parse_digits_value:
  "parse_digits prev (of_nat v) b =
     (let ds = takeWhile fmt_digit b in
      (if ds = [] then prev else of_nat (decimal_value v (butlast ds)), of_nat (decimal_value v ds), dropWhile fmt_digit b))"
proof (induction b arbitrary: prev v)
  case (Cons c b)
  show ?case
  proof (cases "fmt_digit c")
    case True
    then have "of_nat v * 10 + (of_char c - 48) = (of_nat (v * 10 + (of_char c - 48)) :: u32)"
      by (simp add: word_of_digit)
    then show ?thesis using True Cons [of "of_nat v" "v * 10 + (of_char c - 48)"] by (simp add: Let_def)
  qed simp
qed simp

lemma sint_of_nat_u32: "n < 2 ^ 31 \<Longrightarrow> sint (of_nat n :: u32) = int n"
  using sint_of_int32 [of "int n"] by simp

text \<open>The result is the value of the digits when it is an \<^verbatim>\<open>int\<close>; more than ten digits are refused even if the value is small.\<close>

definition int_digits :: "string \<Rightarrow> bool" where
  "int_digits ds \<longleftrightarrow> length ds \<le> 9 \<or> length ds = 10 \<and> decimal_value 0 ds < 2 ^ 31"

lemma parse_nonnegative_int_value:
  assumes "b \<noteq> []" "fmt_digit (hd b)"
  shows "parse_nonnegative_int b e =
    Ok (if int_digits (takeWhile fmt_digit b) then int (decimal_value 0 (takeWhile fmt_digit b)) else e, dropWhile fmt_digit b)"
proof -
  let ?ds = "takeWhile fmt_digit b"
  have ne: "?ds \<noteq> []" using assms by (cases b) auto
  have all: "list_all fmt_digit ?ds" by (auto simp: list_all_iff dest: set_takeWhileD)
  have len: "length b - length (dropWhile fmt_digit b) = length ?ds"
    by (metis add_diff_cancel_right' length_append takeWhile_dropWhile_id)
  have last: "b ! (length ?ds - 1) = last ?ds"
    using ne by (metis last_conv_nth takeWhile_nth diff_less length_greater_0_conv zero_less_one)
  have d: "parse_digits 0 0 b = (of_nat (decimal_value 0 (butlast ?ds)), of_nat (decimal_value 0 ?ds), dropWhile fmt_digit b)"
    using parse_digits_value [of 0 0 b] ne by (simp add: Let_def)
  have small: "decimal_value 0 ?ds < 2 ^ 31" if "length ?ds \<le> 9"
  proof -
    have "decimal_value 0 ?ds < 10 ^ length ?ds" using decimal_value_less [OF all, of 0] by simp
    also have "\<dots> \<le> 10 ^ 9" using that by (intro power_increasing) simp_all
    finally show ?thesis by simp
  qed
  have ten: "(ucast (of_nat (decimal_value 0 (butlast ?ds)) :: u32) * 10 + ucast (of_char (last ?ds) - 48 :: u32) :: size_t) \<le> 0x7fffffff
      \<longleftrightarrow> decimal_value 0 ?ds < 2 ^ 31" if "length ?ds = 10"
  proof -
    have bl: "decimal_value 0 (butlast ?ds) < 10 ^ 9"
      using decimal_value_less [of "butlast ?ds" 0] all that by (simp add: list_all_iff in_set_butlastD)
    have lst: "fmt_digit (last ?ds)" using ne all by (simp add: list_all_iff)
    then have l9: "of_char (last ?ds) - 48 < (10 :: nat)" by (auto simp: fmt_digit_def)
    have w: "(ucast (of_nat (decimal_value 0 (butlast ?ds)) :: u32) * 10 + ucast (of_char (last ?ds) - 48 :: u32) :: size_t) =
        of_nat (decimal_value 0 (butlast ?ds) * 10 + (of_char (last ?ds) - 48))"
      using bl l9 by (simp add: word_of_digit [OF lst] unsigned_of_nat take_bit_nat_eq_self)
    have "decimal_value 0 ?ds = decimal_value 0 (butlast ?ds) * 10 + (of_char (last ?ds) - 48)"
      using ne decimal_value_simps(3) [of 0 "butlast ?ds" "last ?ds"] by (simp del: decimal_value_simps)
    moreover have "unat (of_nat (v * 10 + d) :: size_t) = v * 10 + d" if "v < 10 ^ 9" "d < 10" for v d
      using that by (simp only: unat_of_nat) simp
    note this [OF bl l9]
    ultimately show ?thesis unfolding w word_le_nat_alt by (simp del: of_nat_add of_nat_mult) linarith
  qed
  show ?thesis
    using assms small ten sint_of_nat_u32 [of "decimal_value 0 ?ds"] len last
    by (auto simp: parse_nonnegative_int_def d int_digits_def Let_def)
qed

section \<open>The parser stays inside the format string\<close>

text \<open>
  \<open>fmt_sat P m\<close>: the computation throws a format error or returns a value with \<open>P\<close>; it never leaves the defined
  behaviour and fails no assertion.
\<close>

definition fmt_sat :: "('a \<Rightarrow> bool) \<Rightarrow> 'a fmt \<Rightarrow> bool" where
  "fmt_sat P m = (case m of Ok (Inr x) \<Rightarrow> P x | Ok (Inl e) \<Rightarrow> True | _ \<Rightarrow> False)"

lemma fmt_bind_simps [simp]:
  "fmt_bind (fmt_ret x) f = f x" "fmt_bind (on_error e) f = on_error e" "fmt_bind (Ub u) f = Ub u"
  "fmt_bind Throw f = Throw" "fmt_bind Abort f = Abort" "fmt_bind Spin f = Spin"
  by (simp_all add: fmt_bind_def)

lemma fmt_sat_simps [simp]:
  "fmt_sat P (fmt_ret x) = P x" "fmt_sat P (on_error e)" "\<not> fmt_sat P (Ub u)" "\<not> fmt_sat P Throw" "\<not> fmt_sat P Abort" "\<not> fmt_sat P Spin"
  by (simp_all add: fmt_sat_def)

lemma fmt_cases [case_names ret error ub throw abort spin]:
  obtains (ret) x where "m = fmt_ret x" | (error) e where "m = on_error e" | (ub) u where "m = Ub u"
  | (throw) "m = Throw" | (abort) "m = Abort" | (spin) "m = Spin"
proof (cases m)
  case (Ok r)
  with that(1,2) show ?thesis by (cases r) auto
qed (use that in auto)

lemma fmt_bind_cong [fundef_cong]:
  "m = m' \<Longrightarrow> (\<And>x. m' = fmt_ret x \<Longrightarrow> f x = f' x) \<Longrightarrow> fmt_bind m f = fmt_bind m' f'"
  by (cases m rule: fmt_cases) auto

lemma fmt_bind_assoc: "fmt_bind (fmt_bind m f) g = fmt_bind m (\<lambda>x. fmt_bind (f x) g)"
  by (cases m rule: fmt_cases) auto

lemma fmt_sat_bind: "fmt_sat Q m \<Longrightarrow> (\<And>x. m = fmt_ret x \<Longrightarrow> Q x \<Longrightarrow> fmt_sat P (f x)) \<Longrightarrow> fmt_sat P (fmt_bind m f)"
  by (cases m rule: fmt_cases) auto

lemma fmt_sat_mono: "fmt_sat Q m \<Longrightarrow> (\<And>x. Q x \<Longrightarrow> P x) \<Longrightarrow> fmt_sat P m"
  by (cases m rule: fmt_cases) auto

lemma fmt_satD: "fmt_sat P m \<Longrightarrow> m = fmt_ret x \<Longrightarrow> P x"
  by simp

lemma fmt_lift_simps [simp]: "fmt_lift (Ok x) = fmt_ret x" "fmt_lift (Ub u) = Ub u" "fmt_lift Abort = Abort"
  by (simp_all add: fmt_lift_def)

lemma found_arg_sat: "0 \<le> i \<Longrightarrow> fmt_sat (\<lambda>a. a \<in> set (arg_values args)) (found_arg (args_get args i))"
  by (auto simp: found_arg_def args_get_def)

lemma found_named_sat: "fmt_sat (\<lambda>a. a \<in> set (arg_values args)) (found_arg (args_get_named args s))"
  by (auto simp: args_get_named_def Let_def found_arg_sat) (simp add: found_arg_def)

fun arg_id_ok :: "arg_id \<Rightarrow> bool" where
  "arg_id_ok (Index_id i) = (0 \<le> i)"
| "arg_id_ok _ = True"

lemma spec_get_arg_sat: "arg_id_ok i \<Longrightarrow> fmt_sat (\<lambda>(a, n). a \<in> set (arg_values args)) (spec_get_arg args i n)"
  by (cases i) (auto simp: next_arg_id_def check_arg_id_def intro!: fmt_sat_bind [OF found_arg_sat] fmt_sat_bind [OF found_named_sat])

lemma get_dynamic_spec_sat: "fmt_sat (\<lambda>w. 0 \<le> w \<and> w < 2 ^ 31) (get_dynamic_spec what a)"
proof -
  have u: "uint (v :: size_t) < 2 ^ 31" if "\<not> v > 0x7fffffff" for v
    using that by (simp add: word_less_def)
  have "fmt_sat (\<lambda>_. True) (dynamic_checker what a)" by (cases a) simp_all
  then show ?thesis unfolding get_dynamic_spec_def by (rule fmt_sat_bind) (use u in auto)
qed

definition fill_ok :: "fill_t \<Rightarrow> bool" where
  "fill_ok f \<longleftrightarrow> length (fill_data f) = 4 \<and> 1 \<le> fill_size f \<and> fill_size f \<le> 4"

definition specs_ok :: "format_specs \<Rightarrow> bool" where
  "specs_ok sp \<longleftrightarrow> 0 \<le> spec_width sp \<and> spec_width sp < 2 ^ 31 \<and> -1 \<le> spec_precision sp \<and> spec_precision sp < 2 ^ 31 \<and> fill_ok (spec_fill sp)"

definition spec_wf :: "arg_type \<Rightarrow> spec_state \<Rightarrow> bool" where
  "spec_wf t s \<longleftrightarrow> specs_ok (st_specs s) \<and> (is_integral_type t \<or> t = Pointer_type \<longrightarrow> spec_precision (st_specs s) = -1)"

lemma on_dynamic_width_sat: "arg_id_ok i \<Longrightarrow> spec_wf t s \<Longrightarrow> fmt_sat (spec_wf t) (on_dynamic_width args i s)"
  unfolding on_dynamic_width_def
  by (rule fmt_sat_bind [OF spec_get_arg_sat], assumption)
    (auto simp: spec_wf_def specs_ok_def intro!: fmt_sat_bind [OF get_dynamic_spec_sat])

lemma on_dynamic_precision_sat:
  "arg_id_ok i \<Longrightarrow> specs_ok (st_specs s) \<Longrightarrow> fmt_sat (\<lambda>s. specs_ok (st_specs s)) (on_dynamic_precision args i s)"
  unfolding on_dynamic_precision_def
  by (rule fmt_sat_bind [OF spec_get_arg_sat], assumption)
    (auto simp: specs_ok_def intro!: fmt_sat_bind [OF get_dynamic_spec_sat])

lemma require_numeric_sat: "fmt_sat (\<lambda>_. is_arithmetic_type t) (require_numeric_argument t)"
  by (simp add: require_numeric_argument_def)

lemma handler_sat:
  "spec_wf t s \<Longrightarrow> fmt_sat (spec_wf t) (on_align t a s)" "spec_wf t s \<Longrightarrow> fmt_sat (spec_wf t) (on_sign t sg s)"
  "spec_wf t s \<Longrightarrow> fmt_sat (spec_wf t) (on_hash t s)" "spec_wf t s \<Longrightarrow> fmt_sat (spec_wf t) (on_localized t s)"
  "spec_wf t s \<Longrightarrow> fmt_sat (spec_wf t) (on_zero t s)" "spec_wf t s \<Longrightarrow> fmt_sat (spec_wf t) (on_type p s)"
  unfolding on_align_def on_sign_def on_hash_def on_localized_def on_zero_def on_type_def
  by (auto simp: spec_wf_def specs_ok_def zero_specs_def fill_ok_def intro!: fmt_sat_bind [OF require_numeric_sat])

lemma on_fill_sat: "spec_wf t s \<Longrightarrow> 1 \<le> length f \<Longrightarrow> fmt_sat (spec_wf t) (on_fill f s)"
  by (auto simp: on_fill_def fill_assign_def spec_wf_def specs_ok_def fill_ok_def)

text \<open>A step of the parser returns a pointer that is not before the one it got, and keeps the specifications well-formed.\<close>

abbreviation forward :: "arg_type \<Rightarrow> string \<Rightarrow> (string \<times> spec_state) \<Rightarrow> bool" where
  "forward t b x \<equiv> length (fst x) \<le> length b \<and> spec_wf t (snd x)"

lemma forward_bind:
  assumes "fmt_sat (spec_wf t) m" "length b' \<le> length b"
  shows "fmt_sat (forward t b) (fmt_bind m (\<lambda>s. fmt_ret (b', s)))"
  by (rule fmt_sat_bind [OF assms(1)]) (use assms(2) in simp)

lemma parse_align_sat: "b \<noteq> [] \<Longrightarrow> spec_wf t s \<Longrightarrow> fmt_sat (forward t b) (parse_align t b s)"
proof -
  assume b: "b \<noteq> []" and s: "spec_wf t s"
  define n where "n = code_point_length (hd b)"
  have n: "1 \<le> n" using code_point_length_bounds [of "hd b"] by (simp add: n_def)
  have "fmt_sat (forward t b) (fmt_bind (on_fill (between b (drop n b)) s) (\<lambda>s. fmt_bind (on_align t a s) (\<lambda>s. fmt_ret (tl (drop n b), s))))"
    if "\<not> length b \<le> n" for a
    by (rule fmt_sat_bind [OF on_fill_sat [OF s]]) (use that n in \<open>auto simp: between_def intro!: forward_bind handler_sat\<close>)
  then show ?thesis using b s n
    by (auto simp: parse_align_def Let_def n_def [symmetric] intro!: forward_bind handler_sat)
qed

lemma parse_number_sat:
  assumes "b \<noteq> []" "fmt_digit (hd b)"
  shows "fmt_sat (\<lambda>(v, b'). (v = e \<or> 0 \<le> v \<and> v < 2 ^ 31) \<and> length b' \<le> length b) (fmt_lift (parse_nonnegative_int b e))"
proof -
  have "decimal_value 0 ds < 2 ^ 31" if "int_digits ds" "list_all fmt_digit ds" for ds
  proof -
    have "decimal_value 0 ds < 10 ^ length ds" using decimal_value_less [OF that(2), of 0] by simp
    moreover have "(10 :: nat) ^ length ds \<le> 10 ^ 9" if "length ds \<le> 9" using that by (intro power_increasing) simp_all
    ultimately show ?thesis using that(1) unfolding int_digits_def by auto
  qed
  moreover have "list_all fmt_digit (takeWhile fmt_digit b)" by (auto simp: list_all_iff dest: set_takeWhileD)
  ultimately show ?thesis using parse_nonnegative_int_value [OF assms, of e] length_dropWhile_le [of fmt_digit b] by simp
qed

lemma do_parse_arg_id_sat:
  assumes "b \<noteq> []" "P s" and h: "\<And>i s. arg_id_ok i \<Longrightarrow> P s \<Longrightarrow> fmt_sat P (handler i s)"
  shows "fmt_sat (\<lambda>(b', s'). length b' \<le> length b \<and> P s') (do_parse_arg_id handler b s)"
proof -
  let ?P = "\<lambda>(b', s'). length b' \<le> length b \<and> P s'"
  have len: "length (dropWhile Q (tl b)) \<le> length b" for Q using length_dropWhile_le [of Q "tl b"] by simp
  have name: "fmt_sat ?P (fmt_bind (handler (Name_id n) s) (\<lambda>s. fmt_ret (dropWhile Q (tl b), s)))" for n Q
    by (rule fmt_sat_bind [OF h]) (use assms(2) len in simp_all)
  have index: "fmt_sat ?P (fmt_bind (handler (Index_id i) s) (\<lambda>s. fmt_ret (b', s)))" if "0 \<le> i" "length b' \<le> length b" for i b'
    by (rule fmt_sat_bind [OF h]) (use assms(2) that in simp_all)
  show ?thesis
  proof (cases "fmt_digit (hd b)")
    case True
    have "fmt_sat (\<lambda>(i, b'). 0 \<le> i \<and> length b' \<le> length b) (fmt_lift (parse_nonnegative_int b 2147483647))"
      by (rule fmt_sat_mono [OF parse_number_sat [OF assms(1) True, of 2147483647]]) auto
    then have "fmt_sat (\<lambda>(i, b'). 0 \<le> i \<and> length b' \<le> length b)
        (if hd b \<noteq> CHR ''0'' then fmt_lift (parse_nonnegative_int b 2147483647) else fmt_ret (0, tl b))" by simp
    then show ?thesis using assms(1) True unfolding do_parse_arg_id_def
      by (simp only: if_False if_True) (erule fmt_sat_bind, use index in auto)
  next
    case False
    then show ?thesis using assms(1) name by (simp add: do_parse_arg_id_def Let_def)
  qed
qed

lemma parse_arg_id_sat:
  assumes "b \<noteq> []" "P s" and h: "\<And>i s. arg_id_ok i \<Longrightarrow> P s \<Longrightarrow> fmt_sat P (handler i s)"
  shows "fmt_sat (\<lambda>(b', s'). length b' \<le> length b \<and> P s') (parse_arg_id handler b s)"
proof -
  have "fmt_sat (\<lambda>(b', s'). length b' \<le> length b \<and> P s') (fmt_bind (handler Auto_id s) (\<lambda>s. fmt_ret (b, s)))"
    by (rule fmt_sat_bind [OF h]) (use assms(2) in simp_all)
  moreover have "fmt_sat (\<lambda>(b', s'). length b' \<le> length b \<and> P s') (do_parse_arg_id handler b s)"
    using assms by (rule do_parse_arg_id_sat)
  ultimately show ?thesis using assms(1) by (simp add: parse_arg_id_def)
qed

lemma parse_braced_sat:
  assumes "P s" and h: "\<And>i s. arg_id_ok i \<Longrightarrow> P s \<Longrightarrow> fmt_sat P (handler i s)"
  shows "fmt_sat (\<lambda>(b', s'). length b' \<le> length b \<and> P s')
    (fmt_bind (if b \<noteq> [] then parse_arg_id handler b s else fmt_ret (b, s)) (\<lambda>(b, s).
       if b = [] \<or> hd b \<noteq> CHR ''}'' then on_error ''invalid format string'' else fmt_ret (tl b, s)))"
proof -
  have "fmt_sat (\<lambda>(b', s'). length b' \<le> length b \<and> P s') (if b \<noteq> [] then parse_arg_id handler b s else fmt_ret (b, s))"
    using parse_arg_id_sat [OF _ assms(1) h] assms(1) by simp
  then show ?thesis by (rule fmt_sat_bind) auto
qed

lemma parse_width_sat: "b \<noteq> [] \<Longrightarrow> spec_wf t s \<Longrightarrow> fmt_sat (forward t b) (parse_width args b s)"
proof -
  assume b: "b \<noteq> []" and s: "spec_wf t s"
  have dyn: "fmt_sat (forward t b) (fmt_bind (if tl b \<noteq> [] then parse_arg_id (on_dynamic_width args) (tl b) s else fmt_ret (tl b, s)) (\<lambda>(b, s).
          if b = [] \<or> hd b \<noteq> CHR ''}'' then on_error ''invalid format string'' else fmt_ret (tl b, s)))"
    by (rule fmt_sat_mono [OF parse_braced_sat [OF s on_dynamic_width_sat]]) auto
  have num: "fmt_sat (forward t b) (fmt_bind (fmt_lift (parse_nonnegative_int b (-1))) (\<lambda>(w, b).
          if w \<noteq> -1 then fmt_bind (on_width w s) (\<lambda>s. fmt_ret (b, s)) else on_error ''number is too big''))" if "fmt_digit (hd b)"
    by (rule fmt_sat_bind [OF parse_number_sat [OF b that]]) (use s in \<open>auto simp: on_width_def spec_wf_def specs_ok_def\<close>)
  show ?thesis using b s dyn num by (simp add: parse_width_def)
qed

lemma parse_precision_sat: "b \<noteq> [] \<Longrightarrow> spec_wf t s \<Longrightarrow> fmt_sat (forward t b) (parse_precision args t b s)"
proof -
  assume b: "b \<noteq> []" and s: "spec_wf t s"
  let ?Q = "\<lambda>(b', s'). length b' \<le> length (tl b) \<and> specs_ok (st_specs s')"
  define c where "c = (if tl b \<noteq> [] then hd (tl b) else CHR 0x00)"
  have c: "tl b \<noteq> [] \<and> c = hd (tl b)" if "fmt_digit c" using that by (auto simp: c_def fmt_digit_def split: if_splits)
  have ok: "specs_ok (st_specs s)" using s by (simp add: spec_wf_def)
  have dyn: "fmt_sat ?Q (fmt_bind (if tl (tl b) \<noteq> [] then parse_arg_id (on_dynamic_precision args) (tl (tl b)) s else fmt_ret (tl (tl b), s)) (\<lambda>(b, s).
          if b = [] \<or> hd b \<noteq> CHR ''}'' then on_error ''invalid format string'' else fmt_ret (tl b, s)))"
    by (rule fmt_sat_mono [OF parse_braced_sat [OF ok on_dynamic_precision_sat]]) auto
  have num: "fmt_sat ?Q (fmt_bind (fmt_lift (parse_nonnegative_int (tl b) (-1))) (\<lambda>(w, b).
          if w \<noteq> -1 then fmt_bind (on_precision w s) (\<lambda>s. fmt_ret (b, s)) else on_error ''number is too big''))" if "fmt_digit c"
    by (rule fmt_sat_bind [OF parse_number_sat]) (use c [OF that] that ok in \<open>auto simp: on_precision_def specs_ok_def\<close>)
  have fin: "fmt_sat (forward t b) (case x of (b, s) \<Rightarrow> fmt_bind (end_precision t s) (\<lambda>s. fmt_ret (b, s)))" if "?Q x" for x
    using that by (cases x) (auto simp: end_precision_def spec_wf_def)
  show ?thesis unfolding parse_precision_def Let_def c_def [symmetric]
    by (rule fmt_sat_bind [of ?Q, OF _ fin]) (use dyn num in simp_all)
qed

lemma parse_type_sat: "b \<noteq> [] \<Longrightarrow> spec_wf t s \<Longrightarrow> fmt_sat (forward t b) (parse_type b s)"
  unfolding parse_type_def Let_def by (auto intro!: forward_bind handler_sat)

lemma parse_sign_sat: "b \<noteq> [] \<Longrightarrow> spec_wf t s \<Longrightarrow> fmt_sat (forward t b) (parse_sign t b s)"
  unfolding parse_sign_def by (auto intro!: forward_bind handler_sat)

lemma unless_end_sat:
  assumes "fmt_sat (forward t b) m" "length b \<le> length b0"
    and "\<And>b' s'. b' \<noteq> [] \<Longrightarrow> length b' \<le> length b0 \<Longrightarrow> spec_wf t s' \<Longrightarrow> fmt_sat (forward t b0) (f b' s')"
  shows "fmt_sat (forward t b0) (fmt_bind m (unless_end f))"
  by (rule fmt_sat_bind [OF assms(1)]) (use assms(2,3) in \<open>auto simp: unless_end_def split: prod.split\<close>)

lemma parse_flag_sat:
  "b \<noteq> [] \<Longrightarrow> spec_wf t s \<Longrightarrow> fmt_sat (spec_wf t) m \<Longrightarrow>
   fmt_sat (forward t b) (if c then fmt_bind m (\<lambda>s. fmt_ret (tl b, s)) else fmt_ret (b, s))"
  by (auto intro!: forward_bind)

lemma parse_format_specs_sat: "spec_wf t s \<Longrightarrow> fmt_sat (forward t b) (parse_format_specs args t b s)"
proof (cases "b = []")
  case True
  assume "spec_wf t s"
  with True show ?thesis by (simp add: parse_format_specs_def)
next
  case False
  assume s: "spec_wf t s"
  have prec: "fmt_sat (forward t b') (if hd b' = CHR ''.'' then parse_precision args t b' s' else fmt_ret (b', s'))"
    if "b' \<noteq> []" "spec_wf t s'" for b' s' using that parse_precision_sat by simp
  have fin: "fmt_sat (forward t b0) (case x of (b, s) \<Rightarrow> if b \<noteq> [] \<and> hd b \<noteq> CHR ''}'' then parse_type b s else fmt_ret (b, s))"
    if "forward t b' x" "length b' \<le> length b0" for x b' b0
    using that by (auto intro!: fmt_sat_mono [OF parse_type_sat] split: prod.split)
  have specs: "fmt_sat (forward t b) (fmt_bind (parse_align t b s) (unless_end (\<lambda>b s.
        fmt_bind (parse_sign t b s) (unless_end (\<lambda>b s.
        fmt_bind (if hd b = CHR ''#'' then fmt_bind (on_hash t s) (\<lambda>s. fmt_ret (tl b, s)) else fmt_ret (b, s)) (unless_end (\<lambda>b s.
        fmt_bind (if hd b = CHR ''0'' then fmt_bind (on_zero t s) (\<lambda>s. fmt_ret (tl b, s)) else fmt_ret (b, s)) (unless_end (\<lambda>b s.
        fmt_bind (parse_width args b s) (unless_end (\<lambda>b s.
        fmt_bind (if hd b = CHR ''.'' then parse_precision args t b s else fmt_ret (b, s)) (unless_end (\<lambda>b s.
        fmt_bind (if hd b = CHR ''L'' then fmt_bind (on_localized t s) (\<lambda>s. fmt_ret (tl b, s)) else fmt_ret (b, s)) (\<lambda>(b, s).
          if b \<noteq> [] \<and> hd b \<noteq> CHR ''}'' then parse_type b s else fmt_ret (b, s)))))))))))))))"
    apply (rule unless_end_sat [OF parse_align_sat [OF False s] le_refl])
    apply (rule unless_end_sat [OF parse_sign_sat], assumption, assumption, assumption)
    apply (rule unless_end_sat [OF parse_flag_sat], assumption, assumption, erule handler_sat, assumption)
    apply (rule unless_end_sat [OF parse_flag_sat], assumption, assumption, erule handler_sat, assumption)
    apply (rule unless_end_sat [OF parse_width_sat], assumption, assumption, assumption)
    apply (rule unless_end_sat [OF prec], assumption, assumption, assumption)
    apply (rule fmt_sat_bind [OF parse_flag_sat], assumption, assumption, erule handler_sat)
    apply (rule fin, assumption, assumption)
    done
  show ?thesis using False s parse_type_sat [OF False s] specs by (simp add: parse_format_specs_def)
qed

end
