(* ===== verification/Fmt_Print.thy ===== *)
theory Fmt_Print
  imports Fmt_Spec
begin

text \<open>
  The text of a format specification: the shortcut of \<^verbatim>\<open>parse_format_specs\<close> agrees with its general steps, and
  reading a printed specification gives it back.
\<close>


section \<open>The shortcut for a lone type\<close>

text \<open>The steps of the parser without the shortcut that the code takes for a specification of one letter.\<close>

definition parse_specs_steps :: "format_args \<Rightarrow> arg_type \<Rightarrow> string \<Rightarrow> spec_state \<Rightarrow> (string \<times> spec_state) fmt" where
  "parse_specs_steps args t b s = fmt_bind (parse_align t b s) (unless_end (\<lambda>b s.
        fmt_bind (parse_sign t b s) (unless_end (\<lambda>b s.
        fmt_bind (if hd b = CHR ''#'' then fmt_bind (on_hash t s) (\<lambda>s. fmt_ret (tl b, s)) else fmt_ret (b, s)) (unless_end (\<lambda>b s.
        fmt_bind (if hd b = CHR ''0'' then fmt_bind (on_zero t s) (\<lambda>s. fmt_ret (tl b, s)) else fmt_ret (b, s)) (unless_end (\<lambda>b s.
        fmt_bind (parse_width args b s) (unless_end (\<lambda>b s.
        fmt_bind (if hd b = CHR ''.'' then parse_precision args t b s else fmt_ret (b, s)) (unless_end (\<lambda>b s.
        fmt_bind (if hd b = CHR ''L'' then fmt_bind (on_localized t s) (\<lambda>s. fmt_ret (tl b, s)) else fmt_ret (b, s)) (\<lambda>(b, s).
          if b \<noteq> [] \<and> hd b \<noteq> CHR ''}'' then parse_type b s else fmt_ret (b, s))))))))))))))"

lemma unless_end_ret: "b \<noteq> [] \<Longrightarrow> fmt_bind (fmt_ret (b, s)) (unless_end f) = f b s"
  by (simp add: unless_end_def)

lemma code_point_length_ascii: "of_char c < (128 :: nat) \<Longrightarrow> code_point_length c = 1"
  using lengths_nth(1) [of "of_char c div 8"] by (simp add: code_point_length_def)

lemma parse_format_specs_steps:
  assumes "b \<noteq> []"
  shows "parse_format_specs args t b s = parse_specs_steps args t b s"
proof (cases "1 < length b \<and> b ! 1 = CHR ''}'' \<and> is_ascii_letter (hd b) \<and> hd b \<noteq> CHR ''L''")
  case True
  then obtain c r where b: "b = c # CHR ''}'' # r" by (cases b; cases "tl b") auto
  have c: "is_ascii_letter c" "c \<noteq> CHR ''L''" using True b by auto
  then have "c \<notin> {CHR ''<'', CHR ''>'', CHR ''^'', CHR ''+'', CHR ''-'', CHR '' '', CHR ''#'', CHR ''0'', CHR ''.'', CHR ''{'', CHR ''}''}"
    "\<not> fmt_digit c" "code_point_length c = 1"
    by (auto simp: is_ascii_letter_def fmt_digit_def code_point_length_ascii)
  then have "parse_align t b s = fmt_ret (b, s)" "parse_sign t b s = fmt_ret (b, s)" "parse_width args b s = fmt_ret (b, s)"
    "hd b \<noteq> CHR ''#''" "hd b \<noteq> CHR ''0''" "hd b \<noteq> CHR ''.''" "hd b \<noteq> CHR ''L''" "hd b \<noteq> CHR ''}''"
    using c(2) by (simp_all add: b parse_align_def align_of_char_def parse_sign_def parse_width_def)
  then have "parse_specs_steps args t b s = parse_type b s"
    using assms by (simp add: parse_specs_steps_def unless_end_def)
  then show ?thesis using True by (simp add: parse_format_specs_def)
qed (use assms in \<open>auto simp: parse_format_specs_def parse_specs_steps_def\<close>)

section \<open>Printing specifications\<close>

fun print_align :: "align_t \<Rightarrow> fill_t \<Rightarrow> string" where
  "print_align Align_left f = take (fill_size f) (fill_data f) @ ''<''"
| "print_align Align_right f = take (fill_size f) (fill_data f) @ ''>''"
| "print_align Align_center f = take (fill_size f) (fill_data f) @ ''^''"
| "print_align _ f = []"

fun print_sign :: "sign_t \<Rightarrow> string" where
  "print_sign Sign_none = []" | "print_sign Sign_minus = ''-''" | "print_sign Sign_plus = ''+''" | "print_sign Sign_space = '' ''"

definition print_type :: "presentation_type \<Rightarrow> string" where
  "print_type p = map fst (filter (\<lambda>e. snd e = p) presentation_table)"

definition print_width :: "int \<Rightarrow> string" where
  "print_width w = (if w = 0 then [] else decimal (nat w))"

definition print_precision :: "int \<Rightarrow> string" where
  "print_precision p = (if p = -1 then [] else CHR ''.'' # decimal (nat p))"

definition print_specs :: "format_specs \<Rightarrow> string" where
  "print_specs sp =
     print_align (spec_align sp) (spec_fill sp) @ print_sign (spec_sign sp) @ (if spec_alt sp then ''#'' else []) @
     (if spec_align sp = Align_numeric then ''0'' else []) @ print_width (spec_width sp) @
     print_precision (spec_precision sp) @ (if spec_localized sp then ''L'' else []) @ print_type (spec_type sp)"

text \<open>The specifications that some text expresses for an argument of type \<open>t\<close>: the fill is one code point other than a brace.\<close>

definition fill_expressible :: "align_t \<Rightarrow> fill_t \<Rightarrow> bool" where
  "fill_expressible a f \<longleftrightarrow> (case a of
     Align_none \<Rightarrow> f = fill_default
   | Align_numeric \<Rightarrow> f = fill_default\<lparr>fill_data := [CHR ''0'', CHR 0x00, CHR 0x00, CHR 0x00]\<rparr>
   | _ \<Rightarrow> length (fill_data f) = 4 \<and> fill_size f = code_point_length (hd (fill_data f)) \<and> hd (fill_data f) \<noteq> CHR ''{'' \<and>
       drop (fill_size f) (fill_data f) = drop (fill_size f) (fill_data fill_default))"

definition expressible :: "arg_type \<Rightarrow> format_specs \<Rightarrow> bool" where
  "expressible t sp \<longleftrightarrow>
     fill_expressible (spec_align sp) (spec_fill sp) \<and>
     0 \<le> spec_width sp \<and> spec_width sp < 2 ^ 31 \<and> -1 \<le> spec_precision sp \<and> spec_precision sp < 2 ^ 31 \<and>
     (spec_sign sp \<noteq> Sign_none \<or> spec_alt sp \<or> spec_localized sp \<or> spec_align sp = Align_numeric \<longrightarrow> is_arithmetic_type t) \<and>
     (spec_sign sp \<noteq> Sign_none \<and> is_integral_type t \<longrightarrow> t \<in> {Int_type, Long_long_type, Char_type}) \<and>
     (spec_precision sp \<noteq> -1 \<longrightarrow> \<not> is_integral_type t \<and> t \<noteq> Pointer_type)"

text \<open>The position of the characters in a specification, after fill and alignment.\<close>

definition rank :: "char \<Rightarrow> nat" where
  "rank c =
     (if c \<in> {CHR ''+'', CHR ''-'', CHR '' ''} then 1 else if c = CHR ''#'' then 2 else if c = CHR ''0'' then 3
      else if fmt_digit c then 4 else if c = CHR ''.'' then 5 else if c = CHR ''L'' then 6
      else if c \<in> fst ` set presentation_table then 7 else if c = CHR ''}'' then 8 else 0)"

lemma rank_simps [simp]: "rank (CHR ''+'') = 1" "rank (CHR ''-'') = 1" "rank (CHR '' '') = 1" "rank (CHR ''#'') = 2"
  "rank (CHR ''0'') = 3" "rank (CHR ''.'') = 5" "rank (CHR ''L'') = 6" "rank (CHR ''}'') = 8"
  by (simp_all add: rank_def fmt_digit_def presentation_table_def)

lemma rank_zero: "rank (CHR ''<'') = 0" "rank (CHR ''>'') = 0" "rank (CHR ''^'') = 0" "rank (CHR ''{'') = 0"
  by (simp_all add: rank_def fmt_digit_def presentation_table_def)

lemma rank_ascii: "128 \<le> (of_char c :: nat) \<Longrightarrow> rank c = 0"
proof -
  assume c: "128 \<le> (of_char c :: nat)"
  then have "c \<noteq> d" if "of_char d < (128 :: nat)" for d using that by auto
  with c show ?thesis by (simp add: rank_def fmt_digit_def presentation_table_def)
qed

lemma rank_digit: "fmt_digit c \<Longrightarrow> 3 \<le> rank c \<and> rank c \<le> 4"
  by (auto simp: rank_def fmt_digit_def)

lemma rank_not:
  "0 < rank c \<Longrightarrow> align_of_char c = Align_none" "0 < rank c \<Longrightarrow> code_point_length c = 1" "0 < rank c \<Longrightarrow> c \<noteq> CHR ''{''"
  "1 < rank c \<Longrightarrow> c \<noteq> CHR ''+'' \<and> c \<noteq> CHR ''-'' \<and> c \<noteq> CHR '' ''" "2 < rank c \<Longrightarrow> c \<noteq> CHR ''#''" "3 < rank c \<Longrightarrow> c \<noteq> CHR ''0''"
  "4 < rank c \<Longrightarrow> \<not> fmt_digit c" "5 < rank c \<Longrightarrow> c \<noteq> CHR ''.''" "6 < rank c \<Longrightarrow> c \<noteq> CHR ''L''"
proof -
  show "0 < rank c \<Longrightarrow> align_of_char c = Align_none" using rank_zero(1-3) by (auto simp: align_of_char_def split: if_splits)
  show "0 < rank c \<Longrightarrow> code_point_length c = 1" using rank_ascii [of c] code_point_length_ascii [of c] by fastforce
  show "4 < rank c \<Longrightarrow> \<not> fmt_digit c" using rank_digit [of c] by auto
qed (use rank_zero(4) in auto)

section \<open>Parsing inverts printing\<close>

lemma digits_decimal: "list_all fmt_digit (decimal n)" "decimal_value 0 (decimal n) = n"
proof (induction n rule: decimal.induct)
  case (1 n)
  have d: "fmt_digit (digit_char k)" "of_char (digit_char k) - 48 = k" if "k < 10" for k
    using that by (simp_all add: fmt_digit_def digit_char_def)
  { case 1 show ?case using "1.IH"(1) d(1) [of "n mod 10"] d(1) [of n] by (subst decimal.simps) simp }
  { case 2 show ?case using "1.IH"(2) d(2) [of "n mod 10"] d(2) [of n] by (subst decimal.simps) simp }
qed

lemma decimal_int_digits: "n < 2 ^ 31 \<Longrightarrow> int_digits (decimal n)"
  using length_decimal_less [of n 10] by (auto simp: int_digits_def digits_decimal)

lemma decimal_nonempty [simp]: "decimal n \<noteq> []"
  using length_decimal_pos [of n] by simp

lemma decimal_hd: "fmt_digit (hd (decimal n))"
  using digits_decimal(1) [of n] by (cases "decimal n") (simp_all add: list_all_iff)

lemma decimal_hd_nonzero: "0 < n \<Longrightarrow> hd (decimal n) \<noteq> CHR ''0''"
proof (induction n rule: decimal.induct)
  case (1 n)
  have "digit_char n \<noteq> CHR ''0''" if "n < 10"
  proof
    assume "digit_char n = CHR ''0''"
    then have "(of_char (digit_char n) :: nat) = 48" by simp
    then show False using that 1(2) by (simp add: digit_char_def)
  qed
  then show ?case using 1 by (subst decimal.simps) simp
qed

lemma parse_decimal:
  assumes "n < 2 ^ 31" "r \<noteq> []" "\<not> fmt_digit (hd r)"
  shows "parse_nonnegative_int (decimal n @ r) e = Ok (int n, r)"
proof -
  have tw: "takeWhile fmt_digit (decimal n @ r) = decimal n" "dropWhile fmt_digit (decimal n @ r) = r"
    using digits_decimal(1) [of n] assms(2,3) by (cases r; simp add: list_all_iff takeWhile_append2 dropWhile_append2)+
  have "fmt_digit (hd (decimal n @ r))" using decimal_hd by simp
  then show ?thesis using parse_nonnegative_int_value [of "decimal n @ r" e] tw decimal_int_digits [OF assms(1)] digits_decimal(2)
    by simp
qed

text \<open>Each step reads its piece when the rest starts with a character of a later one.\<close>

abbreviation st_with :: "spec_state \<Rightarrow> (format_specs \<Rightarrow> format_specs) \<Rightarrow> spec_state" where
  "st_with s f \<equiv> s\<lparr>st_specs := f (st_specs s)\<rparr>"

lemma parse_sign_print:
  assumes "r \<noteq> []" "1 < rank (hd r)" "sg \<noteq> Sign_none \<longrightarrow> is_arithmetic_type t"
    "sg \<noteq> Sign_none \<and> is_integral_type t \<longrightarrow> t \<in> {Int_type, Long_long_type, Char_type}" "spec_sign (st_specs s) = Sign_none"
  shows "parse_sign t (print_sign sg @ r) s = fmt_ret (r, st_with s (\<lambda>sp. sp\<lparr>spec_sign := sg\<rparr>))"
  using assms rank_not(4) [OF assms(2)]
  by (cases sg) (auto simp: parse_sign_def on_sign_def require_numeric_argument_def)

lemma parse_width_print:
  assumes "r \<noteq> []" "4 < rank (hd r)" "0 \<le> w" "w < 2 ^ 31" "spec_width (st_specs s) = 0"
  shows "parse_width args (print_width w @ r) s = fmt_ret (r, st_with s (\<lambda>sp. sp\<lparr>spec_width := w\<rparr>))"
proof (cases "w = 0")
  case True
  then show ?thesis using assms rank_not(7) [OF assms(2)] rank_not(3) [of "hd r"] by (simp add: parse_width_def print_width_def)
next
  case False
  then have "parse_nonnegative_int (decimal (nat w) @ r) (-1) = Ok (w, r)"
    using parse_decimal [of "nat w" r] assms rank_not(7) [OF assms(2)] by (simp add: nat_less_iff)
  then show ?thesis using False assms(3) decimal_hd [of "nat w"] by (simp add: parse_width_def print_width_def on_width_def)
qed

lemma parse_precision_print:
  assumes "r \<noteq> []" "5 < rank (hd r)" "-1 \<le> p" "p < 2 ^ 31" "spec_precision (st_specs s) = -1"
    "p \<noteq> -1 \<longrightarrow> \<not> is_integral_type t \<and> t \<noteq> Pointer_type"
  defines "b \<equiv> print_precision p @ r"
  shows "(if hd b = CHR ''.'' then parse_precision args t b s else fmt_ret (b, s)) =
    fmt_ret (r, st_with s (\<lambda>sp. sp\<lparr>spec_precision := p\<rparr>))"
proof (cases "p = -1")
  case True
  then show ?thesis using assms rank_not(8) [OF assms(2)] by (simp add: print_precision_def)
next
  case False
  then have "parse_nonnegative_int (decimal (nat p) @ r) (-1) = Ok (p, r)"
    using parse_decimal [of "nat p" r] assms rank_not(7) [of "hd r"] by (simp add: nat_less_iff)
  then show ?thesis using False assms decimal_hd [of "nat p"]
    by (simp add: parse_precision_def print_precision_def on_precision_def end_precision_def)
qed

lemma parse_flag_print:
  assumes "r \<noteq> []" "hd r \<noteq> c" "m = fmt_ret s'" "\<not> x \<longrightarrow> s' = s"
  defines "b \<equiv> (if x then [c] else []) @ r"
  shows "(if hd b = c then fmt_bind (if x then m else m') (\<lambda>s. fmt_ret (tl b, s)) else fmt_ret (b, s)) = fmt_ret (r, s')"
  using assms by simp

lemma print_type_cases: "print_type p = [] \<and> p = Pres_none \<or> (\<exists>c. print_type p = [c] \<and> rank c = 7 \<and> parse_presentation_type c = p)"
  by (cases p) (simp_all add: print_type_def presentation_table_def parse_presentation_type_def rank_def fmt_digit_def)

lemma parse_type_print:
  assumes "spec_type (st_specs s) = Pres_none" "r = CHR ''}'' # rest"
    and b: "b = print_type p @ r"
  shows "(if b \<noteq> [] \<and> hd b \<noteq> CHR ''}'' then parse_type b s else fmt_ret (b, s)) = fmt_ret (r, st_with s (\<lambda>sp. sp\<lparr>spec_type := p\<rparr>))"
proof -
  consider "print_type p = []" "p = Pres_none" | c where "print_type p = [c]" "rank c = 7" "parse_presentation_type c = p" "p \<noteq> Pres_none"
    using print_type_cases [of p] by (cases "p = Pres_none") (auto simp: print_type_def presentation_table_def)
  then show ?thesis
  proof cases
    case 2
    then have "c \<noteq> CHR ''}''" by auto
    then show ?thesis using 2 assms by (simp add: parse_type_def on_type_def Let_def)
  qed (use assms in simp)
qed

lemma rank_print:
  "4 \<le> rank (hd (decimal n))" if "0 < n" for n
proof -
  have "rank c = 4" if "fmt_digit c" "c \<noteq> CHR ''0''" for c using that by (auto simp: rank_def fmt_digit_def)
  from this [OF decimal_hd decimal_hd_nonzero [OF that]] show ?thesis by simp
qed

text \<open>The text from the sign on, piece by piece from the end.\<close>

definition tail_type :: "format_specs \<Rightarrow> string \<Rightarrow> string" where
  "tail_type sp rest = print_type (spec_type sp) @ CHR ''}'' # rest"

definition tail_localized :: "format_specs \<Rightarrow> string \<Rightarrow> string" where
  "tail_localized sp rest = (if spec_localized sp then [CHR ''L''] else []) @ tail_type sp rest"

definition tail_precision :: "format_specs \<Rightarrow> string \<Rightarrow> string" where
  "tail_precision sp rest = print_precision (spec_precision sp) @ tail_localized sp rest"

definition tail_width :: "format_specs \<Rightarrow> string \<Rightarrow> string" where
  "tail_width sp rest = print_width (spec_width sp) @ tail_precision sp rest"

definition tail_zero :: "format_specs \<Rightarrow> string \<Rightarrow> string" where
  "tail_zero sp rest = (if spec_align sp = Align_numeric then [CHR ''0''] else []) @ tail_width sp rest"

definition tail_alt :: "format_specs \<Rightarrow> string \<Rightarrow> string" where
  "tail_alt sp rest = (if spec_alt sp then [CHR ''#''] else []) @ tail_zero sp rest"

definition tail_sign :: "format_specs \<Rightarrow> string \<Rightarrow> string" where
  "tail_sign sp rest = print_sign (spec_sign sp) @ tail_alt sp rest"

lemmas tail_defs = tail_type_def tail_localized_def tail_precision_def tail_width_def tail_zero_def tail_alt_def tail_sign_def

lemma print_specs_tail: "print_specs sp @ CHR ''}'' # rest = print_align (spec_align sp) (spec_fill sp) @ tail_sign sp rest"
  by (simp add: print_specs_def tail_defs)

lemma tail_nonempty [simp]: "tail_type sp rest \<noteq> []" "tail_localized sp rest \<noteq> []" "tail_precision sp rest \<noteq> []"
  "tail_width sp rest \<noteq> []" "tail_zero sp rest \<noteq> []" "tail_alt sp rest \<noteq> []" "tail_sign sp rest \<noteq> []"
  by (simp_all add: tail_defs)

lemma tail_rank:
  assumes "0 \<le> spec_width sp"
  shows "7 \<le> rank (hd (tail_type sp rest))" "6 \<le> rank (hd (tail_localized sp rest))" "5 \<le> rank (hd (tail_precision sp rest))"
    "4 \<le> rank (hd (tail_width sp rest))" "3 \<le> rank (hd (tail_zero sp rest))" "2 \<le> rank (hd (tail_alt sp rest))"
    "1 \<le> rank (hd (tail_sign sp rest))"
proof -
  show 7: "7 \<le> rank (hd (tail_type sp rest))" using print_type_cases [of "spec_type sp"] by (auto simp: tail_type_def)
  then show 6: "6 \<le> rank (hd (tail_localized sp rest))" by (simp add: tail_localized_def)
  then show 5: "5 \<le> rank (hd (tail_precision sp rest))" by (simp add: tail_precision_def print_precision_def)
  then show 4: "4 \<le> rank (hd (tail_width sp rest))" using rank_print [of "nat (spec_width sp)"] assms by (simp add: tail_width_def print_width_def)
  then show 3: "3 \<le> rank (hd (tail_zero sp rest))" by (simp add: tail_zero_def)
  then show 2: "2 \<le> rank (hd (tail_alt sp rest))" by (simp add: tail_alt_def)
  then show "1 \<le> rank (hd (tail_sign sp rest))" by (cases "spec_sign sp") (simp_all add: tail_sign_def)
qed

lemma rank_print_all: "list_all (\<lambda>c. 0 < rank c) (print_sign sg)" "list_all (\<lambda>c. 0 < rank c) (print_width w)"
  "list_all (\<lambda>c. 0 < rank c) (print_precision p)" "list_all (\<lambda>c. 0 < rank c) (print_type ty)"
proof -
  have d: "list_all (\<lambda>c. 0 < rank c) (decimal n)" for n
    using digits_decimal(1) [of n] rank_digit by (fastforce simp: list_all_iff)
  show "list_all (\<lambda>c. 0 < rank c) (print_sign sg)" by (cases sg) simp_all
  show "list_all (\<lambda>c. 0 < rank c) (print_width w)" using d by (simp add: print_width_def)
  show "list_all (\<lambda>c. 0 < rank c) (print_precision p)" using d by (simp add: print_precision_def)
  show "list_all (\<lambda>c. 0 < rank c) (print_type ty)" using print_type_cases [of ty] by auto
qed

lemma parse_align_none:
  assumes "list_all (\<lambda>c. 0 < rank c) p" "p \<noteq> []"
  shows "parse_align t (p @ CHR ''}'' # rest) s = fmt_ret (p @ CHR ''}'' # rest, s)"
proof -
  obtain c q where p: "p = c # q" using assms(2) by (cases p) auto
  have "0 < rank (hd (q @ CHR ''}'' # rest))" using assms(1) p by (cases q) simp_all
  then show ?thesis using assms p rank_not(1,2) by (simp add: parse_align_def Let_def)
qed

lemma take_hd_drop: "1 \<le> n \<Longrightarrow> xs \<noteq> [] \<Longrightarrow> hd (take n xs @ ys) = hd xs"
  by (cases n; cases xs) auto

lemma parse_align_print:
  assumes "a \<in> {Align_left, Align_right, Align_center}" "fill_expressible a f" "spec_fill (st_specs s) = fill_default"
  shows "parse_align t (print_align a f @ r) s = fmt_ret (r, st_with s (\<lambda>sp. sp\<lparr>spec_fill := f, spec_align := a\<rparr>))"
proof -
  have f: "length (fill_data f) = 4" "fill_size f = code_point_length (hd (fill_data f))" "hd (fill_data f) \<noteq> CHR ''{''"
    "drop (fill_size f) (fill_data f) = drop (fill_size f) (fill_data fill_default)"
    using assms(1,2) by (auto simp: fill_expressible_def)
  let ?n = "fill_size f" and ?fc = "take (fill_size f) (fill_data f)"
  have n: "1 \<le> ?n" "?n \<le> 4" using code_point_length_bounds [of "hd (fill_data f)"] f(2) by simp_all
  obtain c where c: "print_align a f = ?fc @ [c]" "align_of_char c = a" using assms(1) by (auto simp: align_of_char_def)
  have hd: "hd (?fc @ c # r) = hd (fill_data f)" using n f(1) by (intro take_hd_drop) auto
  have len: "length ?fc = ?n" using n f(1) by simp
  have fill: "on_fill ?fc s = fmt_ret (st_with s (\<lambda>sp. sp\<lparr>spec_fill := f\<rparr>))"
  proof -
    have "fill_assign ?fc fill_default = fmt_ret f"
    proof -
      have "?fc @ drop ?n (fill_data fill_default) = fill_data f"
        unfolding f(4) [symmetric] by (rule append_take_drop_id)
      then show ?thesis using n(2) unfolding fill_assign_def len by (cases f) (simp add: fill_default_def)
    qed
    then show ?thesis using assms(3) by (simp add: on_fill_def)
  qed
  have a: "a \<noteq> Align_none" "a \<noteq> Align_numeric" using assms(1) by auto
  have b: "drop ?n (?fc @ c # r) = c # r" "code_point_length (hd (?fc @ c # r)) = ?n" "between (?fc @ c # r) (c # r) = ?fc"
    "\<not> length (?fc @ c # r) \<le> ?n" "length (c # r) \<noteq> length (?fc @ c # r)" "hd (?fc @ c # r) \<noteq> CHR ''{''"
    using len hd f n by (simp_all add: between_def)
  have al: "on_align t a (st_with s (\<lambda>sp. sp\<lparr>spec_fill := f\<rparr>)) = fmt_ret (st_with s (\<lambda>sp. sp\<lparr>spec_fill := f, spec_align := a\<rparr>))"
    using a by (simp add: on_align_def)
  have "parse_align t (?fc @ c # r) s = fmt_ret (r, st_with s (\<lambda>sp. sp\<lparr>spec_fill := f, spec_align := a\<rparr>))"
    unfolding parse_align_def Let_def b(2) using b(4-6)
    by (simp only: if_False b(1) list.sel c(2) a(1) not_False_eq_True if_True b(3) fill fmt_bind_simps al) simp
  then show ?thesis by (simp add: c(1))
qed

lemma unless_end_app: "b \<noteq> [] \<Longrightarrow> unless_end f (b, s) = f b s"
  by (simp add: unless_end_def)

text \<open>Reading a printed specification in front of its closing brace gives the specification back.\<close>

lemma parse_printed_specs:
  assumes "expressible t sp" "print_specs sp \<noteq> []"
  shows "parse_format_specs args t (print_specs sp @ CHR ''}'' # rest) \<lparr>st_specs = format_specs_default, st_next = n\<rparr> =
    fmt_ret (CHR ''}'' # rest, \<lparr>st_specs = sp, st_next = n\<rparr>)"
proof -
  note e = assms(1) [unfolded expressible_def]
  let ?s0 = "\<lparr>st_specs = format_specs_default, st_next = n\<rparr>"
  let ?centred = "spec_align sp \<in> {Align_left, Align_right, Align_center}"
  let ?s1 = "if ?centred then st_with ?s0 (\<lambda>q. q\<lparr>spec_fill := spec_fill sp, spec_align := spec_align sp\<rparr>) else ?s0"
  let ?s2 = "st_with ?s1 (\<lambda>q. q\<lparr>spec_sign := spec_sign sp\<rparr>)"
  let ?s3 = "st_with ?s2 (\<lambda>q. q\<lparr>spec_alt := spec_alt sp\<rparr>)"
  let ?s4 = "if spec_align sp = Align_numeric then st_with ?s3 zero_specs else ?s3"
  let ?s5 = "st_with ?s4 (\<lambda>q. q\<lparr>spec_width := spec_width sp\<rparr>)"
  let ?s6 = "st_with ?s5 (\<lambda>q. q\<lparr>spec_precision := spec_precision sp\<rparr>)"
  let ?s7 = "st_with ?s6 (\<lambda>q. q\<lparr>spec_localized := spec_localized sp\<rparr>)"
  have r: "0 \<le> spec_width sp" using e by simp
  note rank = tail_rank [OF r, of rest]
  have 1: "parse_align t (print_specs sp @ CHR ''}'' # rest) ?s0 = fmt_ret (tail_sign sp rest, ?s1)"
  proof (cases ?centred)
    case True
    then show ?thesis using e parse_align_print [of "spec_align sp" "spec_fill sp" ?s0 t "tail_sign sp rest"]
      by (simp add: print_specs_tail format_specs_default_def)
  next
    case False
    then have "print_align (spec_align sp) (spec_fill sp) = []" by (cases "spec_align sp") auto
    moreover from this have "list_all (\<lambda>c. 0 < rank c) (print_specs sp)"
      using rank_print_all by (simp add: print_specs_def)
    ultimately show ?thesis using False assms(2) parse_align_none [of "print_specs sp" t rest ?s0] print_specs_tail [of sp rest] by simp
  qed
  have 2: "parse_sign t (tail_sign sp rest) ?s1 = fmt_ret (tail_alt sp rest, ?s2)"
    unfolding tail_sign_def by (rule parse_sign_print) (use e rank(6) in \<open>auto simp: format_specs_default_def\<close>)
  have 3: "(if hd (tail_alt sp rest) = CHR ''#'' then fmt_bind (on_hash t ?s2) (\<lambda>s. fmt_ret (tl (tail_alt sp rest), s)) else fmt_ret (tail_alt sp rest, ?s2))
      = fmt_ret (tail_zero sp rest, ?s3)"
    using e rank_not(5) [of "hd (tail_zero sp rest)"] rank(5)
    by (simp add: tail_alt_def on_hash_def require_numeric_argument_def format_specs_default_def)
  have 4: "(if hd (tail_zero sp rest) = CHR ''0'' then fmt_bind (on_zero t ?s3) (\<lambda>s. fmt_ret (tl (tail_zero sp rest), s)) else fmt_ret (tail_zero sp rest, ?s3))
      = fmt_ret (tail_width sp rest, ?s4)"
    using e rank_not(6) [of "hd (tail_width sp rest)"] rank(4)
    by (simp add: tail_zero_def on_zero_def require_numeric_argument_def)
  have 5: "parse_width args (tail_width sp rest) ?s4 = fmt_ret (tail_precision sp rest, ?s5)"
    unfolding tail_width_def by (rule parse_width_print) (use e rank(3) in \<open>auto simp: format_specs_default_def zero_specs_def\<close>)
  have 6: "(if hd (tail_precision sp rest) = CHR ''.'' then parse_precision args t (tail_precision sp rest) ?s5 else fmt_ret (tail_precision sp rest, ?s5))
      = fmt_ret (tail_localized sp rest, ?s6)"
    unfolding tail_precision_def by (rule parse_precision_print) (use e rank(2) in \<open>auto simp: format_specs_default_def zero_specs_def\<close>)
  have 7: "(if hd (tail_localized sp rest) = CHR ''L'' then fmt_bind (on_localized t ?s6) (\<lambda>s. fmt_ret (tl (tail_localized sp rest), s)) else fmt_ret (tail_localized sp rest, ?s6))
      = fmt_ret (tail_type sp rest, ?s7)"
    using e rank_not(9) [of "hd (tail_type sp rest)"] rank(1)
    by (auto simp: tail_localized_def on_localized_def require_numeric_argument_def format_specs_default_def zero_specs_def)
  have 8: "(if tail_type sp rest \<noteq> [] \<and> hd (tail_type sp rest) \<noteq> CHR ''}'' then parse_type (tail_type sp rest) ?s7 else fmt_ret (tail_type sp rest, ?s7))
      = fmt_ret (CHR ''}'' # rest, st_with ?s7 (\<lambda>q. q\<lparr>spec_type := spec_type sp\<rparr>))"
    by (rule parse_type_print) (auto simp: tail_type_def format_specs_default_def zero_specs_def)
  have fin: "st_with ?s7 (\<lambda>q. q\<lparr>spec_type := spec_type sp\<rparr>) = \<lparr>st_specs = sp, st_next = n\<rparr>"
    using e by (cases sp, cases "spec_align sp")
      (auto simp: format_specs_default_def zero_specs_def fill_expressible_def fill_default_def)
  have "parse_specs_steps args t (print_specs sp @ CHR ''}'' # rest) ?s0 = fmt_ret (CHR ''}'' # rest, \<lparr>st_specs = sp, st_next = n\<rparr>)"
    unfolding parse_specs_steps_def
    by (simp only: 1 2 3 4 5 6 7 8 fin unless_end_app [OF tail_nonempty(7)] unless_end_app [OF tail_nonempty(6)] unless_end_app [OF tail_nonempty(5)]
        unless_end_app [OF tail_nonempty(4)] unless_end_app [OF tail_nonempty(3)] unless_end_app [OF tail_nonempty(2)] fmt_bind_simps prod.case)
  then show ?thesis by (simp add: parse_format_specs_steps)
qed

text \<open>C18. Reading a printed specification in front of its closing brace gives the specification back.\<close>

theorem specs_roundtrip:
  assumes "expressible t sp" "print_specs sp \<noteq> []"
  shows "parse_format_specs args t (print_specs sp @ CHR ''}'' # rest) \<lparr>st_specs = format_specs_default, st_next = n\<rparr> =
    fmt_ret (CHR ''}'' # rest, \<lparr>st_specs = sp, st_next = n\<rparr>)"
  by (rule parse_printed_specs [OF assms])

definition demo_specs :: format_specs where
  "demo_specs =
     \<lparr>spec_width = 12, spec_precision = -1, spec_type = Pres_hex_upper, spec_align = Align_center, spec_sign = Sign_plus,
      spec_alt = True, spec_localized = False,
      spec_fill = \<lparr>fill_data = [CHR 0xC3, CHR 0xA9, CHR 0x00, CHR 0x00], fill_size = 2\<rparr>\<rparr>"

lemma demo_specs_expressible: "expressible Int_type demo_specs"
  by (simp add: expressible_def fill_expressible_def demo_specs_def is_integral_type_def is_arithmetic_type_def fill_default_def
      code_point_length_def lengths_def)

lemma demo_specs_text: "print_specs demo_specs = [CHR 0xC3, CHR 0xA9] @ ''^+#12X''"
  by (simp add: print_specs_def demo_specs_def print_width_def print_precision_def print_type_def presentation_table_def
      decimal.simps digit_char_def char_of_def bit_0)

theorem specs_roundtrip_witness:
  "\<forall>args rest. parse_format_specs args Int_type ([CHR 0xC3, CHR 0xA9] @ ''^+#12X}'' @ rest)
     \<lparr>st_specs = format_specs_default, st_next = 3\<rparr> = fmt_ret (CHR ''}'' # rest, \<lparr>st_specs = demo_specs, st_next = 3\<rparr>)"
  using specs_roundtrip [OF demo_specs_expressible] by (simp add: demo_specs_text)

text \<open>
  The zero flag writes its fill over the first byte of a fill that has been read, and keeps the length: a fill of two bytes
  becomes a text that is no character.
\<close>

lemma zero_flag_breaks_fill:
  "parse_format_specs args Int_type ([CHR 0xC3, CHR 0xA9] @ ''<05}'') \<lparr>st_specs = format_specs_default, st_next = 0\<rparr> =
    fmt_ret (''}'', \<lparr>st_specs = format_specs_default
      \<lparr>spec_width := 5, spec_align := Align_left, spec_fill := \<lparr>fill_data = [CHR ''0'', CHR 0xA9, CHR 0x00, CHR 0x00], fill_size = 2\<rparr>\<rparr>,
      st_next = 0\<rparr>)"
proof -
  have five: "parse_nonnegative_int ''5}'' e = Ok (5, ''}'')" for e
    using parse_decimal [of 5 "''}''" e] by (simp add: decimal.simps digit_char_def char_of_def bit_0 fmt_digit_def)
  have "code_point_length (CHR 0xC3) = 2" by (simp add: code_point_length_def lengths_def)
  then show ?thesis
    by (simp add: parse_format_specs_def is_ascii_letter_def parse_align_def Let_def align_of_char_def between_def on_fill_def fill_assign_def
      format_specs_default_def fill_default_def on_align_def unless_end_def parse_sign_def on_zero_def require_numeric_argument_def
      is_arithmetic_type_def is_integral_type_def zero_specs_def parse_width_def fmt_digit_def five on_width_def)
qed

end
