(* ===== verification/Fmt_Write.thy ===== *)
theory Fmt_Write
  imports Fmt_Print
begin

text \<open>
  Writing one argument (\<^verbatim>\<open>format.h\<close>): padding and fill, integers in four notations with prefixes packed into a word,
  digit grouping of a locale, characters, strings, booleans and pointers, with the default specifications and with
  parsed ones. Writers return the text they append. Output goes to a \<^verbatim>\<open>memory_buffer\<close>, which grows as needed.
\<close>

section \<open>Digits in a power of two\<close>

text \<open>The instantiations of \<^verbatim>\<open>BASE_BITS\<close>.\<close>

datatype base = Base_bin | Base_oct | Base_hex

fun base_bits :: "base \<Rightarrow> nat" where
  "base_bits Base_bin = 1" | "base_bits Base_oct = 3" | "base_bits Base_hex = 4"

lemma drop_base_less: "0 < drop_bit (base_bits b) m \<Longrightarrow> drop_bit (base_bits b) m < (m :: nat)"
  by (cases b) (simp_all add: drop_bit_eq_div)

text \<open>The unsigned types a value is converted to before it is written.\<close>

datatype uint_value = U32 u32 | U64 size_t

fun uint_nat :: "uint_value \<Rightarrow> nat" where
  "uint_nat (U32 w) = unat w" | "uint_nat (U64 w) = unat w"

fun count_digits :: "uint_value \<Rightarrow> nat" where
  "count_digits (U32 w) = do_count_digits32 w" | "count_digits (U64 w) = do_count_digits64 w"

function count_base_loop :: "base \<Rightarrow> nat \<Rightarrow> nat \<Rightarrow> nat" where
  "count_base_loop b m num_digits =
     (let m' = drop_bit (base_bits b) m in if m' \<noteq> 0 then count_base_loop b m' (num_digits + 1) else num_digits + 1)"
  by pat_completeness auto
termination
  by (relation "measure (\<lambda>(b, m, k). m)") (auto dest: drop_base_less)

fun count_digits_base :: "base \<Rightarrow> uint_value \<Rightarrow> nat" where
  "count_digits_base b (U32 w) = (builtin_clz (w OR 1) XOR 31) div base_bits b + 1"
| "count_digits_base b (U64 w) = count_base_loop b (unat w) 0"

definition digit_of :: "base \<Rightarrow> bool \<Rightarrow> nat \<Rightarrow> char" where
  "digit_of b upper digit =
     (if base_bits b < 4 then char_of (48 + digit)
      else (if upper then ''0123456789ABCDEF'' else ''0123456789abcdef'') ! digit)"

text \<open>The digits are stored from the end of the buffer towards its start.\<close>

function format_uint_loop :: "base \<Rightarrow> bool \<Rightarrow> int \<Rightarrow> nat \<Rightarrow> string \<Rightarrow> string outcome" where
  "format_uint_loop b upper pos value buf =
     bind_outcome (put_char (pos - 1) (digit_of b upper (take_bit (base_bits b) value)) buf) (\<lambda>buf.
       let value' = drop_bit (base_bits b) value in
       if value' \<noteq> 0 then format_uint_loop b upper (pos - 1) value' buf else Ok buf)"
  by pat_completeness auto
termination
  by (relation "measure (\<lambda>(b, u, pos, v, buf). v)") (auto dest: drop_base_less)

definition format_uint :: "base \<Rightarrow> uint_value \<Rightarrow> nat \<Rightarrow> bool \<Rightarrow> string outcome" where
  "format_uint b v num_digits upper =
     format_uint_loop b upper (int num_digits) (uint_nat v) (replicate num_digits (CHR 0x00))"

declare count_base_loop.simps [simp del] format_uint_loop.simps [simp del]

text \<open>\<^verbatim>\<open>format_decimal\<close> into a buffer of \<^verbatim>\<open>digits10 + 1\<close> characters, and the copy of \<open>num_digits\<close> characters from its start.\<close>

fun decimal_capacity :: "uint_value \<Rightarrow> nat" where
  "decimal_capacity (U32 w) = 9 + 1" | "decimal_capacity (U64 w) = 19 + 1"

definition format_decimal_it :: "nat \<Rightarrow> uint_value \<Rightarrow> nat \<Rightarrow> string outcome" where
  "format_decimal_it capacity v num_digits =
     bind_outcome (format_decimal (replicate capacity (CHR 0x00)) (count_digits v) (uint_nat v) num_digits)
       (\<lambda>(pos, buf). Ok (take num_digits buf))"

section \<open>Padding\<close>

fun align_no :: "align_t \<Rightarrow> nat" where
  "align_no Align_none = 0" | "align_no Align_left = 1" | "align_no Align_right = 2" | "align_no Align_center = 3"
| "align_no Align_numeric = 4"

fun sign_no :: "sign_t \<Rightarrow> nat" where
  "sign_no Sign_none = 0" | "sign_no Sign_minus = 1" | "sign_no Sign_plus = 2" | "sign_no Sign_space = 3"

definition write_fill :: "nat \<Rightarrow> fill_t \<Rightarrow> string" where
  "write_fill n f =
     (if fill_size f = 1 then replicate n (fill_data f ! 0) else concat (replicate n (take (fill_size f) (fill_data f))))"

text \<open>
  The shifts are a string literal of four characters; numeric alignment selects its terminating zero. \<open>right\<close> is the default
  alignment of the template.
\<close>

definition write_padded :: "bool \<Rightarrow> format_specs \<Rightarrow> nat \<Rightarrow> string \<Rightarrow> string fmt" where
  "write_padded right sp w txt =
     (if spec_width sp < 0 then Abort
      else let spec_w = nat (spec_width sp);
               padding = (if spec_w > w then spec_w - w else 0);
               shifts = (if right then [0x00, 0x1f, 0x00, 0x01, 0] else [0x1f, 0x1f, 0x00, 0x01, 0]);
               left_padding = drop_bit (shifts ! align_no (spec_align sp)) padding;
               right_padding = padding - left_padding
           in fmt_ret ((if left_padding \<noteq> 0 then write_fill left_padding (spec_fill sp) else []) @ txt @
                (if right_padding \<noteq> 0 then write_fill right_padding (spec_fill sp) else [])))"

definition write_bytes :: "format_specs \<Rightarrow> string \<Rightarrow> string fmt" where
  "write_bytes sp s = write_padded False sp (length s) s"

definition write_char :: "format_specs \<Rightarrow> char \<Rightarrow> string fmt" where
  "write_char sp c = write_padded False sp 1 [c]"

definition write_ptr :: "format_specs \<Rightarrow> size_t \<Rightarrow> string fmt" where
  "write_ptr sp v =
     (let num_digits = count_digits_base Base_hex (U64 v) in
      fmt_bind (fmt_lift (format_uint Base_hex (U64 v) num_digits False)) (\<lambda>ds.
        write_padded True sp (num_digits + 2) (''0x'' @ ds)))"

section \<open>Integers\<close>

text \<open>Up to three characters of a prefix in the lower bytes of a word, their number in the highest byte.\<close>

function prefix_chars :: "u32 \<Rightarrow> string" where
  "prefix_chars p = (if p \<noteq> 0 then char_of (unat (p AND 0xff)) # prefix_chars (drop_bit 8 p) else [])"
  by pat_completeness auto
termination
  by (relation "measure unat") (auto simp: unat_drop_bit word_neq_0_conv word_less_nat_alt)

declare prefix_chars.simps [simp del]

definition prefix_append :: "u32 \<Rightarrow> u32 \<Rightarrow> u32" where
  "prefix_append prefix value =
     (prefix OR (if prefix \<noteq> 0 then push_bit 8 value else value)) + push_bit 24 (1 + (if value > 0xff then 1 else 0))"

definition write_int_data :: "nat \<Rightarrow> u32 \<Rightarrow> format_specs \<Rightarrow> nat \<times> nat" where
  "write_int_data num_digits prefix sp =
     (let size = unat (drop_bit 24 prefix) + num_digits in
      if spec_align sp = Align_numeric then
        let w = nat (spec_width sp) in if w > size then (w, w - size) else (size, 0)
      else if spec_precision sp > int num_digits then
        (unat (drop_bit 24 prefix) + nat (spec_precision sp), nat (spec_precision sp - int num_digits))
      else (size, 0))"

definition write_int_digits :: "nat \<Rightarrow> u32 \<Rightarrow> format_specs \<Rightarrow> string outcome \<Rightarrow> string fmt" where
  "write_int_digits num_digits prefix sp write_digits =
     (if spec_width sp OR (spec_precision sp + 1) = 0 then
        fmt_bind (fmt_lift write_digits) (\<lambda>ds. fmt_ret ((if prefix \<noteq> 0 then prefix_chars (prefix AND 0xffffff) else []) @ ds))
      else let (size, padding) = write_int_data num_digits prefix sp in
        fmt_bind (fmt_lift write_digits) (\<lambda>ds.
          write_padded True sp size (prefix_chars (prefix AND 0xffffff) @ replicate padding (CHR ''0'') @ ds)))"

definition make_write_int_arg :: "bool \<Rightarrow> 'a::len word \<Rightarrow> sign_t \<Rightarrow> 'a word \<times> u32" where
  "make_write_int_arg negative value sg =
     (if negative then (0 - value, 0x01000000 OR 0x2d)
      else (value, [0, 0, 0x1000000 OR 0x2b, 0x1000000 OR 0x20] ! sign_no sg))"

section \<open>Digit grouping\<close>

text \<open>
  What \<^verbatim>\<open>std::numpunct\<close> of the locale returns. The logging call passes no locale, so that it is the global one, as it is
  for the overloads that pass \<^verbatim>\<open>{}\<close> on.
\<close>

record numpunct =
  np_grouping :: string
  np_thousands_sep :: char

record thousands_sep_result =
  ts_grouping :: string
  ts_sep :: char

definition thousands_sep :: "numpunct \<Rightarrow> thousands_sep_result" where
  "thousands_sep np =
     \<lparr>ts_grouping = np_grouping np, ts_sep = (if np_grouping np = [] then CHR 0x00 else np_thousands_sep np)\<rparr>"

definition schar :: "char \<Rightarrow> int" where
  "schar c = (if of_char c < (128 :: int) then of_char c else of_char c - 256)"

definition next_group :: "thousands_sep_result \<Rightarrow> string \<times> int \<Rightarrow> (int \<times> string \<times> int) outcome" where
  "next_group ts st = (case st of (grp, pos) \<Rightarrow>
     if ts_sep ts = CHR 0x00 then Ok (2147483647, grp, pos)
     else if grp = [] then
       if ts_grouping ts = [] then Ub EmptyBack
       else let pos = pos + schar (last (ts_grouping ts)) in Ok (pos, grp, pos)
     else if schar (hd grp) \<le> 0 \<or> schar (hd grp) = 127 then Ok (2147483647, grp, pos)
     else let pos = pos + schar (hd grp) in Ok (pos, tl grp, pos))"

text \<open>The two loops over the groups. A position that does not grow would repeat for ever.\<close>

function count_groups :: "thousands_sep_result \<Rightarrow> int \<Rightarrow> string \<times> int \<Rightarrow> nat outcome" where
  "count_groups ts num_digits st =
     (case next_group ts st of
        Ok (i, st') \<Rightarrow>
          if num_digits > i then
            (if snd st' \<le> snd st then Spin else bind_outcome (count_groups ts num_digits st') (\<lambda>n. Ok (n + 1)))
          else Ok 0
      | Throw \<Rightarrow> Throw | Ub u \<Rightarrow> Ub u | Abort \<Rightarrow> Abort | Spin \<Rightarrow> Spin)"
  by pat_completeness auto
termination
  by (relation "measure (\<lambda>(ts, n, st). nat (n + 128 - snd st))")
    (auto simp: next_group_def Let_def split: prod.splits if_splits)

definition count_separators :: "thousands_sep_result \<Rightarrow> nat \<Rightarrow> nat outcome" where
  "count_separators ts num_digits = count_groups ts (int num_digits) (ts_grouping ts, 0)"

function separator_positions :: "thousands_sep_result \<Rightarrow> int \<Rightarrow> string \<times> int \<Rightarrow> int list outcome" where
  "separator_positions ts num_digits st =
     (case next_group ts st of
        Ok (i, st') \<Rightarrow>
          if i = 0 \<or> i \<ge> num_digits then Ok []
          else if snd st' \<le> snd st then Spin
          else bind_outcome (separator_positions ts num_digits st') (\<lambda>is. Ok (i # is))
      | Throw \<Rightarrow> Throw | Ub u \<Rightarrow> Ub u | Abort \<Rightarrow> Abort | Spin \<Rightarrow> Spin)"
  by pat_completeness auto
termination
  by (relation "measure (\<lambda>(ts, n, st). nat (n + 128 - snd st))")
    (auto simp: next_group_def Let_def split: prod.splits if_splits)

declare count_groups.simps [simp del] separator_positions.simps [simp del]

text \<open>The separators are consumed from the last one, with a sentinel 0 at index 0.\<close>

fun put_separators :: "char \<Rightarrow> int list \<Rightarrow> string \<Rightarrow> string outcome" where
  "put_separators sep seps [] = Ok []"
| "put_separators sep [] (d # ds) = Ub IndexOut"
| "put_separators sep (p # ps) (d # ds) =
     (if int (length (d # ds)) = p then bind_outcome (put_separators sep ps ds) (\<lambda>r. Ok (sep # d # r))
      else bind_outcome (put_separators sep (p # ps) ds) (\<lambda>r. Ok (d # r)))"

definition apply_grouping :: "thousands_sep_result \<Rightarrow> string \<Rightarrow> string outcome" where
  "apply_grouping ts digits =
     bind_outcome (separator_positions ts (int (length digits)) (ts_grouping ts, 0)) (\<lambda>is.
       put_separators (ts_sep ts) (rev (0 # is)) digits)"

definition write_int_localized :: "numpunct \<Rightarrow> uint_value \<Rightarrow> u32 \<Rightarrow> format_specs \<Rightarrow> string fmt" where
  "write_int_localized np v prefix sp =
     (let ts = thousands_sep np; num_digits = count_digits v in
      fmt_bind (fmt_lift (format_decimal_it 40 v num_digits)) (\<lambda>digits.
      fmt_bind (fmt_lift (count_separators ts num_digits)) (\<lambda>seps.
      fmt_bind (fmt_lift (apply_grouping ts digits)) (\<lambda>grouped.
        write_padded True sp ((if prefix \<noteq> 0 then 1 else 0) + num_digits + seps)
          ((if prefix \<noteq> 0 then [char_of (unat prefix mod 256)] else []) @ grouped)))))"

text \<open>The conversion of the value to 64 bits before the localized overload.\<close>

fun to_u64 :: "uint_value \<Rightarrow> uint_value" where
  "to_u64 (U32 w) = U64 (ucast w)" | "to_u64 (U64 w) = U64 w"

definition write_int :: "numpunct \<Rightarrow> uint_value \<Rightarrow> u32 \<Rightarrow> format_specs \<Rightarrow> string fmt" where
  "write_int np v prefix sp =
     (let base_case = (\<lambda>b upper prefix. let num_digits = count_digits_base b v in
            write_int_digits num_digits prefix sp (format_uint b v num_digits upper))
      in case spec_type sp of
        Pres_none \<Rightarrow> if spec_localized sp then write_int_localized np (to_u64 v) prefix sp
          else write_int_digits (count_digits v) prefix sp (format_decimal_it (decimal_capacity v) v (count_digits v))
      | Pres_dec \<Rightarrow> if spec_localized sp then write_int_localized np (to_u64 v) prefix sp
          else write_int_digits (count_digits v) prefix sp (format_decimal_it (decimal_capacity v) v (count_digits v))
      | Pres_hex_lower \<Rightarrow> base_case Base_hex False (if spec_alt sp then prefix_append prefix (push_bit 8 0x78 OR 0x30) else prefix)
      | Pres_hex_upper \<Rightarrow> base_case Base_hex True (if spec_alt sp then prefix_append prefix (push_bit 8 0x58 OR 0x30) else prefix)
      | Pres_bin_lower \<Rightarrow> base_case Base_bin False (if spec_alt sp then prefix_append prefix (push_bit 8 0x62 OR 0x30) else prefix)
      | Pres_bin_upper \<Rightarrow> base_case Base_bin False (if spec_alt sp then prefix_append prefix (push_bit 8 0x42 OR 0x30) else prefix)
      | Pres_oct \<Rightarrow> base_case Base_oct False
          (if spec_alt sp \<and> spec_precision sp \<le> int (count_digits_base Base_oct v) \<and> uint_nat v \<noteq> 0
           then prefix_append prefix 0x30 else prefix)
      | Pres_chr \<Rightarrow> write_char sp (char_of (uint_nat v mod 256))
      | _ \<Rightarrow> on_error ''invalid type specifier'')"

definition write_int32 :: "numpunct \<Rightarrow> bool \<Rightarrow> u32 \<Rightarrow> format_specs \<Rightarrow> string fmt" where
  "write_int32 np negative w sp = (case make_write_int_arg negative w (spec_sign sp) of (v, prefix) \<Rightarrow> write_int np (U32 v) prefix sp)"

definition write_int64 :: "numpunct \<Rightarrow> bool \<Rightarrow> size_t \<Rightarrow> format_specs \<Rightarrow> string fmt" where
  "write_int64 np negative w sp = (case make_write_int_arg negative w (spec_sign sp) of (v, prefix) \<Rightarrow> write_int np (U64 v) prefix sp)"

section \<open>Writing an argument\<close>

definition check_int_type_spec :: "presentation_type \<Rightarrow> unit fmt" where
  "check_int_type_spec ty =
     (if ty \<in> {Pres_none, Pres_dec, Pres_oct, Pres_hex_lower, Pres_hex_upper, Pres_bin_lower, Pres_bin_upper, Pres_chr}
      then fmt_ret () else on_error ''invalid type specifier'')"

definition check_char_specs :: "format_specs \<Rightarrow> bool fmt" where
  "check_char_specs sp =
     (if spec_type sp \<noteq> Pres_none \<and> spec_type sp \<noteq> Pres_chr then
        fmt_bind (check_int_type_spec (spec_type sp)) (\<lambda>_. fmt_ret False)
      else if spec_align sp = Align_numeric \<or> spec_sign sp \<noteq> Sign_none \<or> spec_alt sp then
        on_error ''invalid format specifier for char''
      else fmt_ret True)"

definition check_cstring_type_spec :: "presentation_type \<Rightarrow> bool fmt" where
  "check_cstring_type_spec ty =
     (if ty = Pres_none \<or> ty = Pres_string then fmt_ret True
      else if ty \<noteq> Pres_pointer then on_error ''invalid type specifier'' else fmt_ret False)"

definition check_string_type_spec :: "presentation_type \<Rightarrow> unit fmt" where
  "check_string_type_spec ty =
     (if ty \<noteq> Pres_none \<and> ty \<noteq> Pres_string then on_error ''invalid type specifier'' else fmt_ret ())"

definition check_pointer_type_spec :: "presentation_type \<Rightarrow> unit fmt" where
  "check_pointer_type_spec ty =
     (if ty \<noteq> Pres_none \<and> ty \<noteq> Pres_pointer then on_error ''invalid type specifier'' else fmt_ret ())"

definition code_point_index :: "string \<Rightarrow> nat \<Rightarrow> nat" where
  "code_point_index s n = (if n < length s then n else length s)"

definition write_str :: "format_specs \<Rightarrow> string \<Rightarrow> string fmt" where
  "write_str sp s =
     (let size = (if spec_precision sp \<ge> 0 \<and> nat (spec_precision sp) < length s
                  then code_point_index s (nat (spec_precision sp)) else length s)
      in fmt_bind (if spec_width sp \<noteq> 0 then fmt_lift (compute_width (take size s)) else fmt_ret 0) (\<lambda>w.
           write_padded False sp w (take size s)))"

definition write_string :: "format_specs \<Rightarrow> string \<Rightarrow> string fmt" where
  "write_string sp s = fmt_bind (check_string_type_spec (spec_type sp)) (\<lambda>_. write_str sp s)"

text \<open>The decimal writers without specifications.\<close>

definition write_decimal :: "bool \<Rightarrow> uint_value \<Rightarrow> string fmt" where
  "write_decimal negative v =
     fmt_bind (fmt_lift (format_decimal_it (decimal_capacity v) v (count_digits v))) (\<lambda>ds.
       fmt_ret ((if negative then ''-'' else []) @ ds))"

definition write_signed32 :: "u32 \<Rightarrow> string fmt" where
  "write_signed32 w = (let negative = sint w < 0 in write_decimal negative (U32 (if negative then NOT w + 1 else w)))"

definition write_signed64 :: "size_t \<Rightarrow> string fmt" where
  "write_signed64 w = (let negative = sint w < 0 in write_decimal negative (U64 (if negative then NOT w + 1 else w)))"

definition write_bool :: "numpunct \<Rightarrow> format_specs \<Rightarrow> bool \<Rightarrow> string fmt" where
  "write_bool np sp x =
     (if spec_type sp \<noteq> Pres_none \<and> spec_type sp \<noteq> Pres_string then write_int32 np False (if x then 1 else 0) sp
      else write_bytes sp (if x then ''true'' else ''false''))"

definition write_pointer :: "format_specs \<Rightarrow> size_t \<Rightarrow> string fmt" where
  "write_pointer sp p = fmt_bind (check_pointer_type_spec (spec_type sp)) (\<lambda>_. write_ptr sp p)"

text \<open>\<^verbatim>\<open>default_arg_formatter\<close>, for a field without specifications.\<close>

fun default_arg_formatter :: "numpunct \<Rightarrow> format_arg \<Rightarrow> string fmt" where
  "default_arg_formatter np (Int_arg w) = write_signed32 w"
| "default_arg_formatter np (Uint_arg w) = write_decimal False (U32 w)"
| "default_arg_formatter np (Long_long_arg w) = write_signed64 w"
| "default_arg_formatter np (Ulong_long_arg w) = write_decimal False (U64 w)"
| "default_arg_formatter np (Bool_arg x) = write_bool np format_specs_default x"
| "default_arg_formatter np (Char_arg c) = fmt_ret [c]"
| "default_arg_formatter np (Cstring_arg p s) = (if p = 0 then on_error ''string pointer is null'' else fmt_ret s)"
| "default_arg_formatter np (String_arg s) = fmt_ret s"
| "default_arg_formatter np (Pointer_arg p) = write_pointer format_specs_default p"

text \<open>\<^verbatim>\<open>arg_formatter\<close>, with specifications. The view of a C string is made by \<^verbatim>\<open>strlen\<close>, whatever the pointer.\<close>

fun arg_formatter :: "numpunct \<Rightarrow> format_specs \<Rightarrow> format_arg \<Rightarrow> string fmt" where
  "arg_formatter np sp (Int_arg w) = write_int32 np (sint w < 0) w sp"
| "arg_formatter np sp (Uint_arg w) = write_int32 np False w sp"
| "arg_formatter np sp (Long_long_arg w) = write_int64 np (sint w < 0) w sp"
| "arg_formatter np sp (Ulong_long_arg w) = write_int64 np False w sp"
| "arg_formatter np sp (Bool_arg x) = write_bool np sp x"
| "arg_formatter np sp (Char_arg c) =
     fmt_bind (check_char_specs sp) (\<lambda>is_char.
       if is_char then write_char sp c
       else let w = word_of_int (schar c) in write_int32 np (sint w < 0) w sp)"
| "arg_formatter np sp (Cstring_arg p s) =
     fmt_bind (check_cstring_type_spec (spec_type sp)) (\<lambda>is_string.
       if is_string then (if p = 0 then Ub NullDeref else write_string sp s) else write_ptr sp p)"
| "arg_formatter np sp (String_arg s) = write_string sp s"
| "arg_formatter np sp (Pointer_arg p) = write_pointer sp p"

section \<open>Digits\<close>

text \<open>Notation to a base, the reference for the loops above.\<close>

function radix_digits :: "base \<Rightarrow> bool \<Rightarrow> nat \<Rightarrow> string" where
  "radix_digits b upper n =
     (if drop_bit (base_bits b) n = 0 then [digit_of b upper (take_bit (base_bits b) n)]
      else radix_digits b upper (drop_bit (base_bits b) n) @ [digit_of b upper (take_bit (base_bits b) n)])"
  by pat_completeness auto
termination
  by (relation "measure (\<lambda>(b, u, n). n)") (auto dest: drop_base_less)

declare radix_digits.simps [simp del]

lemma count_base_loop_length: "count_base_loop b m k = k + length (radix_digits b upper m)"
proof (induction b m k rule: count_base_loop.induct)
  case (1 b m k)
  show ?case using 1 by (subst count_base_loop.simps, subst radix_digits.simps) (simp add: Let_def)
qed

lemma base_bits_pos [simp]: "0 < base_bits b"
  by (cases b) simp_all

lemma length_radix:
  "n < 2 ^ (base_bits b * Suc k) \<Longrightarrow> k = 0 \<or> 2 ^ (base_bits b * k) \<le> n \<Longrightarrow> length (radix_digits b upper n) = Suc k"
proof (induction k arbitrary: n)
  case 0
  then show ?case by (subst radix_digits.simps) (simp add: drop_bit_eq_div)
next
  case (Suc k)
  let ?m = "drop_bit (base_bits b) n"
  have lo: "2 ^ (base_bits b * k) \<le> ?m" 
    using Suc.prems(2) div_le_mono [of "2 ^ (base_bits b * Suc k)" n "2 ^ base_bits b"] by (simp add: drop_bit_eq_div power_add)
  then have "0 < ?m" by (metis gr0I leD zero_less_numeral zero_less_power)
  moreover have "?m < 2 ^ (base_bits b * Suc k)"
    using Suc.prems(1) by (simp add: drop_bit_eq_div less_mult_imp_div_less power_add algebra_simps)
  ultimately show ?case using Suc.IH [of ?m] lo by (subst radix_digits.simps) simp
qed

lemma count_digits_base_length: "count_digits_base b v = length (radix_digits b upper (uint_nat v))"
proof (cases v)
  case (U32 w)
  let ?k = "builtin_clz (w OR 1)"
  define c where "c = 31 - ?k"
  have k: "?k < 32" using builtin_clz_less [OF or1_nonzero, of w] by simp
  have "2 ^ c \<le> unat (w OR 1)" "unat (w OR 1) < 2 ^ Suc c"
    using builtin_clz_bounds [OF or1_nonzero [of w]] by (simp_all add: c_def)
  from or1_bounds [OF this] have n: "unat w < 2 ^ Suc c" "unat w = 0 \<and> c = 0 \<or> 2 ^ c \<le> unat w" .
  define q where "q = c div base_bits b"
  have "Suc c \<le> base_bits b * Suc q" unfolding q_def using dividend_less_times_div [of "base_bits b" c] by simp
  then have up: "unat w < 2 ^ (base_bits b * Suc q)"
    using n(1) power_increasing [of "Suc c" "base_bits b * Suc q" "2 :: nat"] by linarith
  have "base_bits b * q \<le> c" by (simp add: q_def)
  then have "(2 :: nat) ^ (base_bits b * q) \<le> 2 ^ c" by (simp add: power_increasing)
  moreover have "2 ^ c \<le> unat w" if "c \<noteq> 0" using n(2) that by auto
  ultimately have "2 ^ (base_bits b * q) \<le> unat w" if "c \<noteq> 0" using that by (metis order_trans)
  then have "q = 0 \<or> 2 ^ (base_bits b * q) \<le> unat w" by (cases "c = 0") (simp_all add: q_def)
  from length_radix [OF up this, of upper] show ?thesis using U32 k by (simp add: xor_31 c_def [symmetric] q_def)
qed (simp add: count_base_loop_length [of b _ _ upper])

lemma count_digits_length: "count_digits v = length (decimal (uint_nat v))"
  by (cases v) (simp_all add: do_count_digits32_decimal do_count_digits64_decimal)

lemma format_uint_loop_written:
  "length (radix_digits b upper v) \<le> pos \<Longrightarrow> pos \<le> length buf \<Longrightarrow>
   format_uint_loop b upper (int pos) v buf =
     Ok (take (pos - length (radix_digits b upper v)) buf @ radix_digits b upper v @ drop pos buf)"
proof (induction b upper v arbitrary: pos buf rule: radix_digits.induct)
  case (1 b upper v)
  let ?d = "digit_of b upper (take_bit (base_bits b) v)" and ?v = "drop_bit (base_bits b) v"
  have pos: "0 < pos" using 1(2) by (subst (asm) radix_digits.simps) (auto split: if_splits)
  then have put: "put_char (int pos - 1) ?d buf = Ok (buf[pos - 1 := ?d])"
    using 1(3) by (simp add: put_char_def nat_diff_distrib)
  have dr: "drop (pos - 1) (buf[pos - 1 := ?d]) = ?d # drop pos buf"
    using pos 1(3) Cons_nth_drop_Suc [of "pos - 1" "buf[pos - 1 := ?d]"] by simp
  show ?case
  proof (cases "?v = 0")
    case True
    have "buf[pos - 1 := ?d] = take (pos - 1) buf @ ?d # drop pos buf"
      using dr append_take_drop_id [of "pos - 1" "buf[pos - 1 := ?d]"] by simp
    with True put show ?thesis
      by (subst format_uint_loop.simps, subst (1 2) radix_digits.simps) simp
  next
    case False
    have len: "length (radix_digits b upper ?v) \<le> pos - 1"
      using 1(2) False by (subst (asm) radix_digits.simps) simp
    have "format_uint_loop b upper (int pos) v buf = format_uint_loop b upper (int (pos - 1)) ?v (buf[pos - 1 := ?d])"
      using False put pos by (subst format_uint_loop.simps) (simp add: Let_def of_nat_diff)
    also have "\<dots> = Ok (take (pos - 1 - length (radix_digits b upper ?v)) buf @ radix_digits b upper ?v @ ?d # drop pos buf)"
      using 1(1) [OF False len, of "buf[pos - 1 := ?d]"] 1(3) len dr by simp
    finally show ?thesis using False by (subst (1 2) radix_digits.simps) simp
  qed
qed

lemma format_uint_text: "format_uint b v (count_digits_base b v) upper = Ok (radix_digits b upper (uint_nat v))"
  using format_uint_loop_written [of b upper "uint_nat v" "count_digits_base b v"]
  by (simp add: format_uint_def count_digits_base_length [of b v upper])

lemma format_decimal_it_text:
  assumes "length (decimal (uint_nat v)) \<le> cap"
  shows "format_decimal_it cap v (count_digits v) = Ok (decimal (uint_nat v))"
proof -
  let ?n = "length (decimal (uint_nat v))" and ?b = "replicate cap (CHR 0x00)"
  have "written (int ?n) ?n ?b = []" by (simp add: written_def)
  then obtain buf where "format_decimal_loop (int ?n) (uint_nat v) ?b = Ok (0, buf)" "written 0 ?n buf = decimal (uint_nat v)"
    using format_decimal_loop_written [of "uint_nat v" "int ?n" ?n ?b] assms by auto
  then show ?thesis by (simp add: format_decimal_it_def count_digits_length format_decimal_def written_def)
qed

lemma decimal_capacity_suffices: "length (decimal (uint_nat v)) \<le> decimal_capacity v" "length (decimal (uint_nat v)) \<le> 40"
  using length_decimal_u64 length_decimal_u32 by (cases v; simp add: le_trans [OF length_decimal_u64] le_trans [OF length_decimal_u32])+

lemma write_decimal_text: "write_decimal neg v = fmt_ret ((if neg then ''-'' else []) @ decimal (uint_nat v))"
  by (simp add: write_decimal_def format_decimal_it_text decimal_capacity_suffices)

section \<open>Padding\<close>

text \<open>How padding is split around a text, the reference for the table of shifts.\<close>

definition padded :: "bool \<Rightarrow> format_specs \<Rightarrow> nat \<Rightarrow> string \<Rightarrow> string" where
  "padded right sp w txt =
     (let padding = nat (spec_width sp) - w;
          left = (case spec_align sp of
             Align_none \<Rightarrow> if right then padding else 0 | Align_left \<Rightarrow> 0 | Align_center \<Rightarrow> padding div 2 | _ \<Rightarrow> padding)
      in write_fill left (spec_fill sp) @ txt @ write_fill (padding - left) (spec_fill sp))"

lemma write_fill_0 [simp]: "write_fill 0 f = []"
  by (simp add: write_fill_def)

lemma padding_shift:
  assumes "p < 2 ^ 31"
  shows "drop_bit ((if right then [0x00, 0x1f, 0x00, 0x01, 0] else [0x1f, 0x1f, 0x00, 0x01, 0]) ! align_no a) (p :: nat) =
    (case a of Align_none \<Rightarrow> if right then p else 0 | Align_left \<Rightarrow> 0 | Align_center \<Rightarrow> p div 2 | _ \<Rightarrow> p)"
proof -
  have "drop_bit 31 p = 0" "drop_bit (Suc 0) p = p div 2" using assms by (simp_all add: drop_bit_eq_div)
  then show ?thesis by (cases a; cases right) (simp_all del: drop_bit_numeral_bit0 drop_bit_numeral_bit1)
qed

lemma write_padded_text:
  assumes "0 \<le> spec_width sp" "spec_width sp < 2 ^ 31"
  shows "write_padded right sp w txt = fmt_ret (padded right sp w txt)"
proof -
  define p where "p = nat (spec_width sp) - w"
  have p: "p < 2 ^ 31" using assms by (simp add: p_def nat_less_iff less_imp_diff_less)
  have i: "(if nat (spec_width sp) > w then p else 0) = p" by (simp add: p_def)
  have f: "(if n \<noteq> 0 then write_fill n f else []) = write_fill n f" for n f by simp
  show ?thesis using assms(1) unfolding write_padded_def padded_def Let_def p_def [symmetric] i padding_shift [OF p] f by simp
qed
section \<open>Integers\<close>

definition prefix_ok :: "u32 \<Rightarrow> string \<Rightarrow> bool" where
  "prefix_ok p s \<longleftrightarrow> prefix_chars (p AND 0xffffff) = s \<and> unat (drop_bit 24 p) = length s \<and> (p = 0 \<longleftrightarrow> s = [])"

definition sign_prefix :: "bool \<Rightarrow> sign_t \<Rightarrow> u32" where
  "sign_prefix negative sg = snd (make_write_int_arg negative (0 :: u32) sg)"

fun sign_text :: "bool \<Rightarrow> sign_t \<Rightarrow> string" where
  "sign_text True sg = ''-''"
| "sign_text False Sign_plus = ''+''"
| "sign_text False Sign_space = '' ''"
| "sign_text False sg = []"

lemma make_write_int_arg_eq: "make_write_int_arg negative value sg = (if negative then - value else value, sign_prefix negative sg)"
  by (simp add: make_write_int_arg_def sign_prefix_def)

lemma sign_prefix_values: "sign_prefix True sg = 0x0100002d" "sign_prefix False Sign_none = 0" "sign_prefix False Sign_minus = 0"
  "sign_prefix False Sign_plus = 0x0100002b" "sign_prefix False Sign_space = 0x01000020"
  by (simp_all add: sign_prefix_def make_write_int_arg_def)

lemma prefix_ok_values:
  "prefix_ok (prefix_append 0x0100002d (push_bit 8 0x78 OR 0x30)) ''-0x''"
  "prefix_ok (prefix_append 0x0100002b (push_bit 8 0x78 OR 0x30)) ''+0x''"
  "prefix_ok (prefix_append 0x01000020 (push_bit 8 0x78 OR 0x30)) '' 0x''"
  "prefix_ok (prefix_append 0 (push_bit 8 0x78 OR 0x30)) ''0x''"
  "prefix_ok (prefix_append 0x0100002d (push_bit 8 0x58 OR 0x30)) ''-0X''"
  "prefix_ok (prefix_append 0x0100002b (push_bit 8 0x58 OR 0x30)) ''+0X''"
  "prefix_ok (prefix_append 0x01000020 (push_bit 8 0x58 OR 0x30)) '' 0X''"
  "prefix_ok (prefix_append 0 (push_bit 8 0x58 OR 0x30)) ''0X''"
  "prefix_ok (prefix_append 0x0100002d (push_bit 8 0x62 OR 0x30)) ''-0b''"
  "prefix_ok (prefix_append 0x0100002b (push_bit 8 0x62 OR 0x30)) ''+0b''"
  "prefix_ok (prefix_append 0x01000020 (push_bit 8 0x62 OR 0x30)) '' 0b''"
  "prefix_ok (prefix_append 0 (push_bit 8 0x62 OR 0x30)) ''0b''"
  "prefix_ok (prefix_append 0x0100002d (push_bit 8 0x42 OR 0x30)) ''-0B''"
  "prefix_ok (prefix_append 0x0100002b (push_bit 8 0x42 OR 0x30)) ''+0B''"
  "prefix_ok (prefix_append 0x01000020 (push_bit 8 0x42 OR 0x30)) '' 0B''"
  "prefix_ok (prefix_append 0 (push_bit 8 0x42 OR 0x30)) ''0B''"
  "prefix_ok (prefix_append 0x0100002d 0x30) ''-0''"
  "prefix_ok 0x0100002d ''-''"
  "prefix_ok (prefix_append 0x0100002b 0x30) ''+0''"
  "prefix_ok 0x0100002b ''+''"
  "prefix_ok (prefix_append 0x01000020 0x30) '' 0''"
  "prefix_ok 0x01000020 '' ''"
  "prefix_ok (prefix_append 0 0x30) ''0''"
  "prefix_ok 0 []"
  by code_simp+

lemma prefix_ok_sign: "prefix_ok (sign_prefix negative sg) (sign_text negative sg)"
  and prefix_ok_oct: "prefix_ok (prefix_append (sign_prefix negative sg) 0x30) (sign_text negative sg @ ''0'')"
  and prefix_ok_base:
  "prefix_ok (prefix_append (sign_prefix negative sg) (push_bit 8 0x78 OR 0x30)) (sign_text negative sg @ ''0x'')"
  "prefix_ok (prefix_append (sign_prefix negative sg) (push_bit 8 0x58 OR 0x30)) (sign_text negative sg @ ''0X'')"
  "prefix_ok (prefix_append (sign_prefix negative sg) (push_bit 8 0x62 OR 0x30)) (sign_text negative sg @ ''0b'')"
  "prefix_ok (prefix_append (sign_prefix negative sg) (push_bit 8 0x42 OR 0x30)) (sign_text negative sg @ ''0B'')"
  by (cases negative; cases sg; simp only: sign_prefix_values sign_text.simps append.simps prefix_ok_values)+

text \<open>The text of a number: left padding, sign and base prefix, zeros up to the width for numeric alignment, digits, right padding.\<close>

definition number_text :: "format_specs \<Rightarrow> string \<Rightarrow> string \<Rightarrow> string" where
  "number_text sp prefix digits =
     (let zeros = (if spec_align sp = Align_numeric then nat (spec_width sp) - (length prefix + length digits) else 0)
      in padded True sp (length prefix + zeros + length digits) (prefix @ replicate zeros (CHR ''0'') @ digits))"

fun base_prefix :: "presentation_type \<Rightarrow> nat \<Rightarrow> string" where
  "base_prefix Pres_hex_lower n = ''0x''" | "base_prefix Pres_hex_upper n = ''0X''"
| "base_prefix Pres_bin_lower n = ''0b''" | "base_prefix Pres_bin_upper n = ''0B''"
| "base_prefix Pres_oct n = (if n \<noteq> 0 then ''0'' else [])"
| "base_prefix ty n = []"

fun int_digits_of :: "presentation_type \<Rightarrow> nat \<Rightarrow> string" where
  "int_digits_of Pres_hex_lower n = radix_digits Base_hex False n" | "int_digits_of Pres_hex_upper n = radix_digits Base_hex True n"
| "int_digits_of Pres_bin_lower n = radix_digits Base_bin False n" | "int_digits_of Pres_bin_upper n = radix_digits Base_bin False n"
| "int_digits_of Pres_oct n = radix_digits Base_oct False n"
| "int_digits_of ty n = decimal n"

definition int_text :: "format_specs \<Rightarrow> int \<Rightarrow> string" where
  "int_text sp i =
     number_text sp (sign_text (i < 0) (spec_sign sp) @ (if spec_alt sp then base_prefix (spec_type sp) (nat \<bar>i\<bar>) else []))
       (int_digits_of (spec_type sp) (nat \<bar>i\<bar>))"

lemma padded_exact: "nat (spec_width sp) \<le> w \<Longrightarrow> padded right sp w txt = txt"
  by (simp add: padded_def Let_def split: align_t.split)

lemma or_zero_int: "(x :: int) OR y = 0 \<longleftrightarrow> x = 0 \<and> y = 0"
  by (metis or_eq_0_iff)

lemma write_int_digits_text:
  assumes "prefix_ok prefix p" "0 \<le> spec_width sp" "spec_width sp < 2 ^ 31" "spec_precision sp = -1"
  shows "write_int_digits (length ds) prefix sp (Ok ds) = fmt_ret (number_text sp p ds)"
proof (cases "spec_width sp = 0")
  case True
  then show ?thesis using assms(1,4) by (auto simp: write_int_digits_def number_text_def prefix_ok_def Let_def padded_exact)
next
  case False
  have d: "write_int_data (length ds) prefix sp =
      (let zeros = (if spec_align sp = Align_numeric then nat (spec_width sp) - (length p + length ds) else 0) in (length p + zeros + length ds, zeros))"
    using assms(1,4) by (simp add: write_int_data_def prefix_ok_def Let_def)
  show ?thesis using False assms(1,4)
    by (simp add: write_int_digits_def d number_text_def Let_def write_padded_text [OF assms(2,3)] prefix_ok_def)
qed

lemma write_int_text:
  assumes "0 \<le> spec_width sp" "spec_width sp < 2 ^ 31" "spec_precision sp = -1" "\<not> spec_localized sp"
    "spec_type sp \<in> {Pres_none, Pres_dec, Pres_oct, Pres_hex_lower, Pres_hex_upper, Pres_bin_lower, Pres_bin_upper}"
  shows "write_int np v (sign_prefix negative (spec_sign sp)) sp =
    fmt_ret (number_text sp (sign_text negative (spec_sign sp) @ (if spec_alt sp then base_prefix (spec_type sp) (uint_nat v) else []))
      (int_digits_of (spec_type sp) (uint_nat v)))"
proof -
  note w = write_int_digits_text [OF _ assms(1-3)]
  note s = prefix_ok_sign [of negative "spec_sign sp"]
  note o = prefix_ok_oct [of negative "spec_sign sp"] and b = prefix_ok_base [of negative "spec_sign sp"]
  have dec: "write_int_digits (count_digits v) (sign_prefix negative (spec_sign sp)) sp
      (format_decimal_it (decimal_capacity v) v (count_digits v)) = fmt_ret (number_text sp (sign_text negative (spec_sign sp)) (decimal (uint_nat v)))"
    unfolding format_decimal_it_text [OF decimal_capacity_suffices(1)] unfolding count_digits_length by (rule w [OF s])
  have base: "write_int_digits (count_digits_base bs v) prefix sp (format_uint bs v (count_digits_base bs v) u) =
      fmt_ret (number_text sp p (radix_digits bs u (uint_nat v)))" if "prefix_ok prefix p" for bs u prefix p
    unfolding format_uint_text unfolding count_digits_base_length [of bs v u] by (rule w [OF that])
  have prec: "spec_precision sp \<le> int k" for k using assms(3) by simp
  consider "spec_type sp = Pres_none \<or> spec_type sp = Pres_dec" | "spec_type sp = Pres_oct" | "spec_type sp = Pres_hex_lower"
    | "spec_type sp = Pres_hex_upper" | "spec_type sp = Pres_bin_lower" | "spec_type sp = Pres_bin_upper" using assms(5) by auto
  then show ?thesis
  proof cases
    case 1
    then show ?thesis using assms(4) dec by (auto simp: write_int_def Let_def)
  next
    case 2
    then show ?thesis using base [OF s, of Base_oct False] base [OF o, of Base_oct False] prec
      by (cases "spec_alt sp"; cases "uint_nat v = 0") (simp_all only: write_int_def Let_def presentation_type.case base_prefix.simps int_digits_of.simps
          if_True if_False append_Nil2 simp_thms)
  next
    case 3
    then show ?thesis using base [OF s, of Base_hex False] base [OF b(1), of Base_hex False] by (simp add: write_int_def Let_def)
  next
    case 4
    then show ?thesis using base [OF s, of Base_hex True] base [OF b(2), of Base_hex True] by (simp add: write_int_def Let_def)
  next
    case 5
    then show ?thesis using base [OF s, of Base_bin False] base [OF b(3), of Base_bin False] by (simp add: write_int_def Let_def)
  next
    case 6
    then show ?thesis using base [OF s, of Base_bin False] base [OF b(4), of Base_bin False] by (simp add: write_int_def Let_def)
  qed
qed

fun arg_int :: "format_arg \<Rightarrow> int option" where
  "arg_int (Int_arg w) = Some (sint w)" | "arg_int (Uint_arg w) = Some (uint w)"
| "arg_int (Long_long_arg w) = Some (sint w)" | "arg_int (Ulong_long_arg w) = Some (uint w)"
| "arg_int _ = None"

lemma abs_word:
  fixes w :: "'a::len word"
  shows "unat (if sint w < 0 then - w else w) = nat \<bar>sint w\<bar>"
proof (cases "sint w < 0")
  case True
  have r: "0 < - sint w" "- sint w \<le> 2 ^ (LENGTH('a) - 1)" using True sint_ge [of w] by simp_all
  have "(2 :: int) ^ (LENGTH('a) - 1) < 2 ^ LENGTH('a)" by (intro power_strict_increasing) simp_all
  with r have "- sint w < 2 ^ LENGTH('a)" by linarith
  moreover have "- w = word_of_int (- sint w)" by simp
  ultimately have "uint (- w) = - sint w mod 2 ^ LENGTH('a)" "- sint w < 2 ^ LENGTH('a)" by (simp_all only: uint_word_of_int)
  then have "uint (- w) = - sint w" using r by (simp add: mod_pos_pos_trivial)
  then show ?thesis using True by (simp flip: nat_uint_eq)
next
  case False
  have "(2 :: int) ^ (LENGTH('a) - 1) < 2 ^ LENGTH('a)" by (intro power_strict_increasing) simp_all
  moreover have "sint w < 2 ^ (LENGTH('a) - 1)" by (rule sint_lt)
  ultimately have m: "sint w mod 2 ^ LENGTH('a) = sint w" using False by (intro mod_pos_pos_trivial) linarith+
  have "uint (word_of_int (sint w) :: 'a word) = sint w mod 2 ^ LENGTH('a)" by (simp only: uint_word_of_int)
  then have "uint w = sint w" using m by simp
  then show ?thesis using False by (simp flip: nat_uint_eq)
qed

lemma arg_formatter_int:
  assumes "arg_int a = Some i" "0 \<le> spec_width sp" "spec_width sp < 2 ^ 31" "spec_precision sp = -1" "\<not> spec_localized sp"
    "spec_type sp \<in> {Pres_none, Pres_dec, Pres_oct, Pres_hex_lower, Pres_hex_upper, Pres_bin_lower, Pres_bin_upper}"
  shows "arg_formatter np sp a = fmt_ret (int_text sp i)"
proof -
  note w = write_int_text [OF assms(2-6), of np]
  have signed32: "write_int32 np (sint x < 0) x sp = fmt_ret (int_text sp (sint x))" for x
    using w [of "U32 (if sint x < 0 then - x else x)" "sint x < 0"] abs_word [of x]
    by (simp add: write_int32_def make_write_int_arg_eq int_text_def)
  have signed64: "write_int64 np (sint x < 0) x sp = fmt_ret (int_text sp (sint x))" for x
    using w [of "U64 (if sint x < 0 then - x else x)" "sint x < 0"] abs_word [of x]
    by (simp add: write_int64_def make_write_int_arg_eq int_text_def)
  have unsigned32: "write_int32 np False x sp = fmt_ret (int_text sp (uint x))" for x
    using w [of "U32 x" False] by (simp add: write_int32_def make_write_int_arg_eq int_text_def)
  have unsigned64: "write_int64 np False x sp = fmt_ret (int_text sp (uint x))" for x
    using w [of "U64 x" False] by (simp add: write_int64_def make_write_int_arg_eq int_text_def)
  show ?thesis using assms(1) by (cases a) (auto simp: signed32 signed64 unsigned32 unsigned64)
qed

lemma decimal_int_abs: "decimal_int i = (if i < 0 then ''-'' else []) @ decimal (nat \<bar>i\<bar>)"
  by (simp add: decimal_int_def)

lemma default_arg_formatter_int: "arg_int a = Some i \<Longrightarrow> default_arg_formatter np a = fmt_ret (decimal_int i)"
proof -
  have s32: "write_signed32 x = fmt_ret (decimal_int (sint x))" for x
    using abs_word [of x] by (simp add: write_signed32_def Let_def write_decimal_text decimal_int_abs minus_eq_not_plus_1 [symmetric] split: if_splits)
  have s64: "write_signed64 x = fmt_ret (decimal_int (sint x))" for x
    using abs_word [of x] by (simp add: write_signed64_def Let_def write_decimal_text decimal_int_abs minus_eq_not_plus_1 [symmetric] split: if_splits)
  show "arg_int a = Some i \<Longrightarrow> default_arg_formatter np a = fmt_ret (decimal_int i)"
    by (cases a) (auto simp: s32 s64 write_decimal_text decimal_int_abs)
qed

text \<open>The digits denote the value.\<close>

definition digit_value :: "char \<Rightarrow> nat" where
  "digit_value c = (let n = of_char c in if n \<le> 57 then n - 48 else if n \<le> 70 then n - 55 else n - 87)"

definition radix_value :: "nat \<Rightarrow> string \<Rightarrow> nat" where
  "radix_value r s = foldl (\<lambda>v c. v * r + digit_value c) 0 s"

lemma digit_value_of: "d < 2 ^ base_bits b \<Longrightarrow> digit_value (digit_of b upper d) = d"
proof -
  have "\<forall>d\<in>set [0..<16]. digit_value (''0123456789abcdef'' ! d) = d \<and> digit_value (''0123456789ABCDEF'' ! d) = d"
    by code_simp
  then have "digit_value (''0123456789abcdef'' ! d) = d \<and> digit_value (''0123456789ABCDEF'' ! d) = d" if "d < 16" using that by simp
  moreover have "digit_value (char_of (48 + d)) = d" if "d < 10" using that by (simp add: digit_value_def)
  ultimately show "d < 2 ^ base_bits b \<Longrightarrow> digit_value (digit_of b upper d) = d" by (cases b) (auto simp: digit_of_def)
qed

lemma radix_value_snoc: "radix_value r (s @ [c]) = radix_value r s * r + digit_value c"
  by (simp add: radix_value_def)

lemma radix_value_digits: "radix_value (2 ^ base_bits b) (radix_digits b upper n) = n"
proof (induction b upper n rule: radix_digits.induct)
  case (1 b upper n)
  have d: "digit_value (digit_of b upper (take_bit (base_bits b) n)) = take_bit (base_bits b) n"
    by (rule digit_value_of) (simp add: take_bit_nat_less_exp)
  have s: "drop_bit (base_bits b) n * 2 ^ base_bits b + take_bit (base_bits b) n = n"
    unfolding drop_bit_eq_div take_bit_eq_mod by (rule div_mult_mod_eq)
  show ?case
  proof (cases "drop_bit (base_bits b) n = 0")
    case True
    then show ?thesis using d s by (subst radix_digits.simps) (simp add: radix_value_def)
  next
    case False
    then show ?thesis using 1 d s by (subst radix_digits.simps) (simp add: radix_value_snoc)
  qed
qed

lemma radix_value_decimal: "radix_value 10 (decimal n) = n"
proof (induction n rule: decimal.induct)
  case (1 n)
  have d: "digit_value (digit_char k) = k" if "k < 10" for k using that by (simp add: digit_value_def digit_char_def)
  show ?case using 1 d [of n] d [of "n mod 10"] by (subst decimal.simps) (simp add: radix_value_snoc, simp add: radix_value_def)
qed

fun radix_of :: "presentation_type \<Rightarrow> nat" where
  "radix_of Pres_hex_lower = 16" | "radix_of Pres_hex_upper = 16" | "radix_of Pres_bin_lower = 2" | "radix_of Pres_bin_upper = 2"
| "radix_of Pres_oct = 8" | "radix_of ty = 10"

lemma radix_value_int_digits: "radix_value (radix_of ty) (int_digits_of ty n) = n"
  using radix_value_digits [of Base_hex] radix_value_digits [of Base_oct] radix_value_digits [of Base_bin] radix_value_decimal
  by (cases ty) simp_all

text \<open>The width is a lower bound, met exactly by texts that are shorter.\<close>

lemma write_fill_length: "fill_size f = 1 \<Longrightarrow> length (write_fill n f) = n"
  by (simp add: write_fill_def)

lemma padded_length: "fill_size (spec_fill sp) = 1 \<Longrightarrow> length (padded right sp (length txt) txt) = max (nat (spec_width sp)) (length txt)"
  by (cases "nat (spec_width sp) \<le> length txt") (auto simp: padded_def Let_def write_fill_length split: align_t.split)

lemma number_text_length: "fill_size (spec_fill sp) = 1 \<Longrightarrow> nat (spec_width sp) \<le> length (number_text sp p ds)"
proof -
  assume f: "fill_size (spec_fill sp) = 1"
  define z where "z = (if spec_align sp = Align_numeric then nat (spec_width sp) - (length p + length ds) else 0)"
  have "number_text sp p ds = padded True sp (length (p @ replicate z (CHR ''0'') @ ds)) (p @ replicate z (CHR ''0'') @ ds)"
    by (simp add: number_text_def z_def Let_def add.assoc)
  then have "length (number_text sp p ds) = max (nat (spec_width sp)) (length (p @ replicate z (CHR ''0'') @ ds))"
    by (simp only: padded_length [OF f])
  then show ?thesis by linarith
qed

section \<open>Digit grouping\<close>

definition group_ok :: "thousands_sep_result \<Rightarrow> string \<times> int \<Rightarrow> bool" where
  "group_ok ts st \<longleftrightarrow> (ts_sep ts \<noteq> CHR 0x00 \<longrightarrow> ts_grouping ts \<noteq> []) \<and> 0 \<le> snd st \<and>
     (\<exists>pre. ts_grouping ts = pre @ fst st \<and> (\<forall>c\<in>set pre. 0 < schar c))"

lemma next_group_ok:
  assumes "group_ok ts st"
  obtains i st' where "next_group ts st = Ok (i, st')" "group_ok ts st'" "i = 2147483647 \<or> i = snd st' \<and> snd st < i"
proof -
  obtain g pos where st: "st = (g, pos)" by (cases st)
  obtain pre where pre: "ts_grouping ts = pre @ g" "\<forall>c\<in>set pre. 0 < schar c" using assms st by (auto simp: group_ok_def)
  have ne: "ts_sep ts \<noteq> CHR 0x00 \<Longrightarrow> ts_grouping ts \<noteq> []" and pos: "0 \<le> pos" using assms st by (simp_all add: group_ok_def)
  consider (none) "ts_sep ts = CHR 0x00" | (repeat) "ts_sep ts \<noteq> CHR 0x00" "g = []"
    | (stop) "ts_sep ts \<noteq> CHR 0x00" "g \<noteq> []" "schar (hd g) \<le> 0 \<or> schar (hd g) = 127"
    | (step) c g' where "ts_sep ts \<noteq> CHR 0x00" "g = c # g'" "0 < schar c" "schar c \<noteq> 127"
    by (metis list.exhaust list.sel(1) not_le)
  then show thesis
  proof cases
    case none
    then show ?thesis using assms st by (intro that [of 2147483647 st]) (simp_all add: next_group_def)
  next
    case repeat
    define k where "k = schar (last (ts_grouping ts))"
    have "0 < k" using repeat pre ne by (simp add: k_def)
    then have "group_ok ts (g, pos + k)" using ne pre pos by (auto simp: group_ok_def)
    moreover have "next_group ts st = Ok (pos + k, g, pos + k)" using repeat ne st by (simp add: next_group_def Let_def k_def)
    ultimately show ?thesis using \<open>0 < k\<close> st by (intro that [of "pos + k" "(g, pos + k)"]) simp_all
  next
    case stop
    then show ?thesis using assms st by (intro that [of 2147483647 st]) (simp_all add: next_group_def)
  next
    case step
    then have "ts_grouping ts = (pre @ [c]) @ g'" "\<forall>c\<in>set (pre @ [c]). 0 < schar c" using pre by auto
    then have "group_ok ts (g', pos + schar c)" using step ne pos unfolding group_ok_def by fastforce
    then show ?thesis using step st by (intro that [of "pos + schar c" "(g', pos + schar c)"]) (simp_all add: next_group_def Let_def)
  qed
qed

text \<open>Both loops end, whatever the locale says, and agree on the number of separators.\<close>

lemma groups_total:
  assumes "n < 2147483647" "group_ok ts st"
  shows "\<exists>is. separator_positions ts n st = Ok is \<and> count_groups ts n st = Ok (length is) \<and>
    sorted_wrt (<) is \<and> (\<forall>i\<in>set is. snd st < i \<and> i < n)"
  using assms(2)
proof (induction "nat (n - snd st)" arbitrary: st rule: less_induct)
  case less
  obtain i st' where i: "next_group ts st = Ok (i, st')" "group_ok ts st'" "i = 2147483647 \<or> i = snd st' \<and> snd st < i"
    using next_group_ok [OF less.prems] .
  have pos: "0 \<le> snd st" using less.prems by (simp add: group_ok_def)
  show ?case
  proof (cases "n > i")
    case False
    then show ?thesis using i(1) by (subst separator_positions.simps, subst count_groups.simps) simp
  next
    case True
    then have i': "i = snd st'" "snd st < i" "i \<noteq> 0" using i(3) assms(1) pos by auto
    with True have "nat (n - snd st') < nat (n - snd st)" by simp
    from less.hyps [OF this i(2)] obtain "is" where "is": "separator_positions ts n st' = Ok is" "count_groups ts n st' = Ok (length is)"
      "sorted_wrt (<) is" "\<forall>i\<in>set is. snd st' < i \<and> i < n" by blast
    then show ?thesis using i(1) i' True
      by (intro exI [of _ "i # is"], subst separator_positions.simps, subst count_groups.simps) (auto simp: not_le)
  qed
qed

lemma put_separators_text:
  assumes "sorted_wrt (>) ps" "\<forall>p\<in>set ps. 0 < p \<and> p \<le> int (length ds)"
  shows "\<exists>r. put_separators sep (ps @ [0]) ds = Ok r \<and> length r = length ds + length ps \<and>
    filter (\<lambda>c. c \<noteq> sep) r = filter (\<lambda>c. c \<noteq> sep) ds"
  using assms
proof (induction ds arbitrary: ps)
  case Nil
  then have "ps = []" by (cases ps) auto
  then show ?case by simp
next
  case (Cons d ds)
  show ?case
  proof (cases ps)
    case Nil
    then show ?thesis using Cons.IH [of "[]"] by auto
  next
    case p: (Cons p ps')
    show ?thesis
    proof (cases "int (length (d # ds)) = p")
      case True
      then show ?thesis using Cons.IH [of ps'] Cons.prems p by fastforce
    next
      case False
      then have "\<forall>q\<in>set ps. 0 < q \<and> q \<le> int (length ds)" using Cons.prems p by fastforce
      then show ?thesis using Cons.IH [of ps] Cons.prems(1) p False by auto
    qed
  qed
qed

lemma apply_grouping_text:
  assumes "length ds \<le> 40"
  shows "\<exists>r k. apply_grouping (thousands_sep np) ds = Ok r \<and> count_separators (thousands_sep np) (length ds) = Ok k \<and>
    length r = length ds + k \<and> filter (\<lambda>c. c \<noteq> ts_sep (thousands_sep np)) r = filter (\<lambda>c. c \<noteq> ts_sep (thousands_sep np)) ds"
proof -
  have "group_ok (thousands_sep np) (ts_grouping (thousands_sep np), 0)" by (simp add: group_ok_def thousands_sep_def)
  from groups_total [OF _ this, of "int (length ds)"] assms obtain "is" where "is":
    "separator_positions (thousands_sep np) (int (length ds)) (ts_grouping (thousands_sep np), 0) = Ok is"
    "count_groups (thousands_sep np) (int (length ds)) (ts_grouping (thousands_sep np), 0) = Ok (length is)"
    "sorted_wrt (<) is" "\<forall>i\<in>set is. 0 < i \<and> i < int (length ds)" by auto
  have desc: "sorted_wrt (>) (rev is)" using "is"(3) by (simp add: sorted_wrt_rev)
  have "\<forall>p\<in>set (rev is). 0 < p \<and> p \<le> int (length ds)" using "is"(4) by auto
  from put_separators_text [OF desc this, of "ts_sep (thousands_sep np)"]
  obtain r where "put_separators (ts_sep (thousands_sep np)) (rev is @ [0]) ds = Ok r" "length r = length ds + length is"
    "filter (\<lambda>c. c \<noteq> ts_sep (thousands_sep np)) r = filter (\<lambda>c. c \<noteq> ts_sep (thousands_sep np)) ds" by auto
  with "is" show ?thesis by (simp add: apply_grouping_def count_separators_def)
qed

section \<open>Writers stay within defined behaviour\<close>

abbreviation fmt_safe :: "'a fmt \<Rightarrow> bool" where
  "fmt_safe m \<equiv> fmt_sat (\<lambda>_. True) m"

lemma fmt_safe_bind: "fmt_safe m \<Longrightarrow> (\<And>x. m = fmt_ret x \<Longrightarrow> fmt_safe (f x)) \<Longrightarrow> fmt_safe (fmt_bind m f)"
  by (rule fmt_sat_bind)

lemma write_padded_safe: "0 \<le> spec_width sp \<Longrightarrow> fmt_safe (write_padded right sp w txt)"
  by (simp add: write_padded_def Let_def)

lemma write_ptr_safe: "0 \<le> spec_width sp \<Longrightarrow> fmt_safe (write_ptr sp p)"
  unfolding write_ptr_def Let_def format_uint_text by (simp add: write_padded_safe)

lemma write_int_digits_safe: "0 \<le> spec_width sp \<Longrightarrow> fmt_safe (write_int_digits n prefix sp (Ok ds))"
  by (simp add: write_int_digits_def write_padded_safe split: prod.split)

lemma write_int_localized_safe: "0 \<le> spec_width sp \<Longrightarrow> fmt_safe (write_int_localized np v prefix sp)"
proof -
  assume w: "0 \<le> spec_width sp"
  have "length (decimal (uint_nat v)) \<le> 40" by (rule decimal_capacity_suffices)
  from apply_grouping_text [OF this, of np] obtain r k where "apply_grouping (thousands_sep np) (decimal (uint_nat v)) = Ok r"
    "count_separators (thousands_sep np) (length (decimal (uint_nat v))) = Ok k" by blast
  then show ?thesis using w format_decimal_it_text [OF decimal_capacity_suffices(2), of v]
    by (simp add: write_int_localized_def Let_def count_digits_length write_padded_safe)
qed

lemma write_int_safe: "0 \<le> spec_width sp \<Longrightarrow> fmt_safe (write_int np v prefix sp)"
  by (cases "spec_type sp")
    (simp_all add: write_int_def Let_def write_int_localized_safe format_decimal_it_text decimal_capacity_suffices format_uint_text
      write_int_digits_safe write_char_def write_padded_safe)

lemma write_int_width_safe: "0 \<le> spec_width sp \<Longrightarrow> fmt_safe (write_int32 np neg w sp)" "0 \<le> spec_width sp \<Longrightarrow> fmt_safe (write_int64 np neg x sp)"
  by (simp_all add: write_int32_def write_int64_def write_int_safe split: prod.split)

lemma write_string_safe: "0 \<le> spec_width sp \<Longrightarrow> fmt_safe (write_string sp s)"
proof -
  assume w: "0 \<le> spec_width sp"
  have "fmt_safe (if spec_width sp \<noteq> 0 then fmt_lift (compute_width t) else fmt_ret 0)" for t
    using compute_width_total [of t] by auto
  then show ?thesis using w
    by (auto simp: write_string_def check_string_type_spec_def write_str_def Let_def intro!: fmt_safe_bind write_padded_safe)
qed

text \<open>A null C string is an error without specifications, and undefined behaviour with specifications that make it a string.\<close>

fun arg_ok :: "format_arg \<Rightarrow> bool" where
  "arg_ok (Cstring_arg p s) = (p \<noteq> 0)"
| "arg_ok _ = True"

lemma arg_formatter_safe: "0 \<le> spec_width sp \<Longrightarrow> arg_ok a \<Longrightarrow> fmt_safe (arg_formatter np sp a)"
proof (cases a)
  case (Char_arg c)
  assume "0 \<le> spec_width sp"
  moreover have "fmt_safe (check_char_specs sp)" by (simp add: check_char_specs_def check_int_type_spec_def)
  ultimately show ?thesis using Char_arg by (auto intro!: fmt_safe_bind simp: write_int_width_safe write_char_def write_padded_safe Let_def)
next
  case (Cstring_arg p s)
  assume "0 \<le> spec_width sp" "arg_ok a"
  moreover have "fmt_safe (check_cstring_type_spec (spec_type sp))" by (simp add: check_cstring_type_spec_def)
  ultimately show ?thesis using Cstring_arg by (auto intro!: fmt_safe_bind simp: write_string_safe write_ptr_safe)
next
  case (Pointer_arg p)
  assume "0 \<le> spec_width sp"
  then show ?thesis using Pointer_arg by (simp add: write_pointer_def check_pointer_type_spec_def write_ptr_safe)
qed (simp_all add: write_int_width_safe write_bool_def write_bytes_def write_padded_safe write_string_safe)

lemma default_arg_formatter_safe: "fmt_safe (default_arg_formatter np a)"
proof -
  have w: "0 \<le> spec_width format_specs_default" by (simp add: format_specs_default_def)
  show ?thesis using w
    by (cases a) (simp_all add: write_signed32_def write_signed64_def write_decimal_text Let_def write_bool_def write_bytes_def write_padded_safe
      write_int_width_safe write_pointer_def check_pointer_type_spec_def write_ptr_safe)
qed

section \<open>Integer fields\<close>

text \<open>C28. An integer with a specification is written as sign, base prefix, zeros and digits padded to the width, at least as long as
  the width, and its digits denote the absolute value in the base of the presentation.\<close>

theorem integer_field_text:
  assumes "arg_int a = Some i" "0 \<le> spec_width sp" "spec_width sp < 2 ^ 31" "spec_precision sp = -1" "\<not> spec_localized sp"
    "spec_type sp \<in> {Pres_none, Pres_dec, Pres_oct, Pres_hex_lower, Pres_hex_upper, Pres_bin_lower, Pres_bin_upper}"
    "fill_size (spec_fill sp) = 1"
  shows "arg_formatter np sp a = fmt_ret (int_text sp i) \<and> nat (spec_width sp) \<le> length (int_text sp i) \<and>
    radix_value (radix_of (spec_type sp)) (int_digits_of (spec_type sp) (nat \<bar>i\<bar>)) = nat \<bar>i\<bar>"
  using arg_formatter_int [OF assms(1-6)] number_text_length [OF assms(7)] radix_value_int_digits by (simp add: int_text_def)

definition hex_specs :: format_specs where
  "hex_specs = format_specs_default
     \<lparr>spec_width := 10, spec_type := Pres_hex_lower, spec_align := Align_numeric, spec_sign := Sign_plus, spec_alt := True,
      spec_fill := fill_default\<lparr>fill_data := [CHR ''0'', CHR 0x00, CHR 0x00, CHR 0x00]\<rparr>\<rparr>"

lemma hex_text: "int_text hex_specs (-255) = ''-0x00000ff''"
  by code_simp

theorem integer_field_text_witness:
  "\<forall>np. arg_formatter np hex_specs (Int_arg (-255)) = fmt_ret ''-0x00000ff'' \<and>
     radix_value 16 (int_digits_of Pres_hex_lower 255) = 255"
  using integer_field_text [of "Int_arg (-255)" "-255" hex_specs]
  by (simp add: hex_text) (simp add: hex_specs_def format_specs_default_def fill_default_def)

end
