(* ===== verification/Fmt_Format.thy ===== *)
theory Fmt_Format
  imports Fmt_Write
begin

text \<open>
  Format strings: \<^verbatim>\<open>parse_replacement_field\<close> and \<^verbatim>\<open>parse_format_string\<close> of \<^verbatim>\<open>core.h\<close> with the handler of
  \<^verbatim>\<open>vformat_to\<close> in \<^verbatim>\<open>format.h\<close>.
\<close>

section \<open>The handler of a format string\<close>

record format_handler =
  next_id :: int
  out_text :: string

text \<open>What stays fixed while a string is formatted: the arguments and the global locale.\<close>

record format_env =
  fe_args :: format_args
  fe_locale :: numpunct

definition append_out :: "string \<Rightarrow> format_handler \<Rightarrow> format_handler" where
  "append_out s h = h\<lparr>out_text := out_text h @ s\<rparr>"

definition on_text :: "string \<Rightarrow> format_handler \<Rightarrow> format_handler fmt" where
  "on_text s h = fmt_ret (append_out s h)"

text \<open>The three overloads of \<^verbatim>\<open>on_arg_id\<close>.\<close>

fun on_arg_id :: "format_env \<Rightarrow> arg_id \<Rightarrow> format_handler \<Rightarrow> (int \<times> format_handler) fmt" where
  "on_arg_id env Auto_id h = fmt_bind (next_arg_id (next_id h)) (\<lambda>(i, n). fmt_ret (i, h\<lparr>next_id := n\<rparr>))"
| "on_arg_id env (Index_id i) h = fmt_bind (check_arg_id (next_id h)) (\<lambda>n. fmt_ret (i, h\<lparr>next_id := n\<rparr>))"
| "on_arg_id env (Name_id s) h =
     (let i = get_id (fe_args env) s in if i < 0 then on_error ''argument not found'' else fmt_ret (i, h))"

definition on_replacement_field :: "format_env \<Rightarrow> int \<Rightarrow> format_handler \<Rightarrow> format_handler fmt" where
  "on_replacement_field env i h =
     fmt_bind (found_arg (args_get (fe_args env) i)) (\<lambda>a.
       fmt_bind (default_arg_formatter (fe_locale env) a) (\<lambda>s. fmt_ret (append_out s h)))"

definition missing_brace :: string where
  "missing_brace = ''missing '' @ [CHR 0x27, CHR ''}'', CHR 0x27] @ '' in format string''"

definition unmatched_brace :: string where
  "unmatched_brace = ''unmatched '' @ [CHR 0x27, CHR ''}'', CHR 0x27] @ '' in format string''"

definition on_format_specs :: "format_env \<Rightarrow> int \<Rightarrow> string \<Rightarrow> format_handler \<Rightarrow> (string \<times> format_handler) fmt" where
  "on_format_specs env i b h =
     fmt_bind (found_arg (args_get (fe_args env) i)) (\<lambda>a.
       fmt_bind (parse_format_specs (fe_args env) (arg_type_of a) b \<lparr>st_specs = format_specs_default, st_next = next_id h\<rparr>)
         (\<lambda>(b, s).
           if b = [] \<or> hd b \<noteq> CHR ''}'' then on_error missing_brace
           else fmt_bind (arg_formatter (fe_locale env) (st_specs s) a) (\<lambda>txt.
             fmt_ret (b, append_out txt (h\<lparr>next_id := st_next s\<rparr>)))))"

section \<open>Fields\<close>

text \<open>The adapter stores the identifier the handler returns.\<close>

definition id_adapter :: "format_env \<Rightarrow> arg_id \<Rightarrow> int \<times> format_handler \<Rightarrow> (int \<times> format_handler) fmt" where
  "id_adapter env i x = on_arg_id env i (snd x)"

definition parse_replacement_field :: "format_env \<Rightarrow> string \<Rightarrow> format_handler \<Rightarrow> (string \<times> format_handler) fmt" where
  "parse_replacement_field env b h =
     (let b = tl b in
      if b = [] then on_error ''invalid format string''
      else if hd b = CHR ''}'' then
        fmt_bind (on_arg_id env Auto_id h) (\<lambda>(i, h). fmt_bind (on_replacement_field env i h) (\<lambda>h. fmt_ret (tl b, h)))
      else if hd b = CHR ''{'' then fmt_bind (on_text [hd b] h) (\<lambda>h. fmt_ret (tl b, h))
      else fmt_bind (parse_arg_id (id_adapter env) b (0, h)) (\<lambda>(b, i, h).
        let c = (if b \<noteq> [] then hd b else CHR 0x00) in
        if c = CHR ''}'' then fmt_bind (on_replacement_field env i h) (\<lambda>h. fmt_ret (tl b, h))
        else if c = CHR '':'' then
          fmt_bind (on_format_specs env i (tl b) h) (\<lambda>(b, h).
            if b = [] \<or> hd b \<noteq> CHR ''}'' then on_error ''unknown format specifier'' else fmt_ret (tl b, h))
        else on_error missing_brace))"

lemma fmt_bind_eq_ret: "fmt_bind m f = fmt_ret y \<longleftrightarrow> (\<exists>x. m = fmt_ret x \<and> f x = fmt_ret y)"
  by (cases m rule: fmt_cases) auto

text \<open>A field moves the pointer forward.\<close>

lemma parse_arg_id_shorter: "parse_arg_id handler b s = fmt_ret (b', s') \<Longrightarrow> length b' \<le> length b"
proof -
  assume a: "parse_arg_id handler b s = fmt_ret (b', s')"
  have num: "length b'' \<le> length b" if "fmt_lift (parse_nonnegative_int b e) = fmt_ret (v, b'')" for e v b''
    using that parse_nonnegative_int_value [of b e] length_dropWhile_le [of fmt_digit b]
    by (cases "b = [] \<or> \<not> fmt_digit (hd b)") (auto simp: parse_nonnegative_int_def)
  have name: "length (dropWhile P (tl b)) \<le> length b" for P using length_dropWhile_le [of P "tl b"] by simp
  show ?thesis using a num name
    by (auto simp: parse_arg_id_def do_parse_arg_id_def Let_def fmt_bind_eq_ret split: if_splits)
qed

lemma initial_specs_wf: "spec_wf t \<lparr>st_specs = format_specs_default, st_next = n\<rparr>"
  by (simp add: spec_wf_def specs_ok_def fill_ok_def format_specs_default_def fill_default_def)

lemma on_format_specs_shorter: "on_format_specs env i b h = fmt_ret (b', h') \<Longrightarrow> length b' \<le> length b"
proof -
  assume "on_format_specs env i b h = fmt_ret (b', h')"
  then obtain a s where "parse_format_specs (fe_args env) (arg_type_of a) b \<lparr>st_specs = format_specs_default, st_next = next_id h\<rparr> = fmt_ret (b', s)"
    by (auto simp: on_format_specs_def fmt_bind_eq_ret split: if_splits)
  from fmt_satD [OF parse_format_specs_sat [OF initial_specs_wf] this] show ?thesis by simp
qed

lemma parse_replacement_field_shorter: "parse_replacement_field env b h = fmt_ret (b', h') \<Longrightarrow> length b' < length b"
proof -
  assume a: "parse_replacement_field env b h = fmt_ret (b', h')"
  have tl: "length b - Suc (Suc 0) < length b" if "tl b \<noteq> []" using that by (cases b) auto
  show ?thesis
  proof (cases "tl b = [] \<or> hd (tl b) = CHR ''}'' \<or> hd (tl b) = CHR ''{''")
    case True
    then show ?thesis using a tl by (auto simp: parse_replacement_field_def Let_def fmt_bind_eq_ret split: if_splits)
  next
    case False
    then obtain c i h1 where c: "parse_arg_id (id_adapter env) (tl b) (0, h) = fmt_ret (c, i, h1)"
      and r: "length b' \<le> length (tl c)" "c \<noteq> []"
      using a by (auto simp: parse_replacement_field_def Let_def fmt_bind_eq_ret dest!: on_format_specs_shorter split: if_splits)
    from parse_arg_id_shorter [OF c] r show ?thesis by (cases b; cases c) auto
  qed
qed

section \<open>Format strings\<close>

text \<open>The loop for strings of fewer than 32 characters: \<open>b\<close> is where the pending text begins.\<close>

function parse_small :: "format_env \<Rightarrow> string \<Rightarrow> string \<Rightarrow> format_handler \<Rightarrow> format_handler fmt" where
  "parse_small env b [] h = on_text b h"
| "parse_small env b (c # p) h =
     (if c = CHR ''{'' then
        fmt_bind (on_text (between b (c # p)) h) (\<lambda>h.
          fmt_bind (parse_replacement_field env (c # p) h) (\<lambda>(p, h). parse_small env p p h))
      else if c = CHR ''}'' then
        (if p = [] \<or> hd p \<noteq> CHR ''}'' then on_error unmatched_brace
         else fmt_bind (on_text (between b p) h) (\<lambda>h. parse_small env (tl p) (tl p) h))
      else parse_small env b p h)"
  by pat_completeness auto
termination
  by (relation "measure (\<lambda>(env, b, p, h). length p)") (auto dest!: parse_replacement_field_shorter)

text \<open>\<^verbatim>\<open>find\<close>, which is \<^verbatim>\<open>memchr\<close> for \<^verbatim>\<open>char\<close>: the suffix that starts with the character.\<close>

definition find_char :: "char \<Rightarrow> string \<Rightarrow> string option" where
  "find_char c s = (let p = dropWhile (\<lambda>x. x \<noteq> c) s in if p = [] then None else Some p)"

lemma find_char_length: "find_char c s = Some p \<Longrightarrow> length p \<le> length s \<and> p \<noteq> []"
  using length_dropWhile_le [of "\<lambda>x. x \<noteq> c" s] by (auto simp: find_char_def Let_def split: if_splits)

text \<open>The writer of the text between two fields, from \<open>s\<close> to its end.\<close>

function write_text_loop :: "string \<Rightarrow> format_handler \<Rightarrow> format_handler fmt" where
  "write_text_loop s h =
     (case find_char (CHR ''}'') s of
        None \<Rightarrow> on_text s h
      | Some q \<Rightarrow>
          let p = tl q in
          if p = [] \<or> hd p \<noteq> CHR ''}'' then on_error unmatched_brace
          else fmt_bind (on_text (between s p) h) (\<lambda>h. write_text_loop (tl p) h))"
  by pat_completeness auto
termination
proof (relation "measure (\<lambda>(s, h). length s)")
  fix s :: string and h p x h' q
  assume "find_char (CHR ''}'') s = Some q" "p = tl q" "\<not> (p = [] \<or> hd p \<noteq> CHR ''}'')"
  then have "length (tl p) < length s" using find_char_length [of "CHR ''}''" s q] by (cases q; cases p) auto
  then show "((tl p, h'), s, h) \<in> measure (\<lambda>(s, h). length s)" by simp
qed simp

declare write_text_loop.simps [simp del]

definition write_text :: "string \<Rightarrow> format_handler \<Rightarrow> format_handler fmt" where
  "write_text s h = (if s = [] then fmt_ret h else write_text_loop s h)"

function parse_large :: "format_env \<Rightarrow> string \<Rightarrow> format_handler \<Rightarrow> format_handler fmt" where
  "parse_large env b h =
     (if b = [] then fmt_ret h
      else case (if hd b \<noteq> CHR ''{'' then find_char (CHR ''{'') (tl b) else Some b) of
        None \<Rightarrow> write_text b h
      | Some p \<Rightarrow>
          fmt_bind (write_text (between b p) h) (\<lambda>h.
            fmt_bind (parse_replacement_field env p h) (\<lambda>(b, h). parse_large env b h)))"
  by pat_completeness auto
termination
proof (relation "measure (\<lambda>(env, b, h). length b)")
  fix env b h p h1 x b' h'
  assume b: "b \<noteq> []" and p: "(if hd b \<noteq> CHR ''{'' then find_char (CHR ''{'') (tl b) else Some b) = Some p"
    and r: "parse_replacement_field env p h1 = fmt_ret x" "(b', h') = x"
  have "length p \<le> length b" using p find_char_length [of "CHR ''{''" "tl b" p] by (cases b) (auto split: if_splits)
  then have "length b' < length b" using parse_replacement_field_shorter [of env p h1 b' h'] r by simp
  then show "((env, b', h'), env, b, h) \<in> measure (\<lambda>(env, b, h). length b)" by simp
qed simp

declare parse_large.simps [simp del]

definition parse_format_string :: "format_env \<Rightarrow> string \<Rightarrow> format_handler \<Rightarrow> format_handler fmt" where
  "parse_format_string env s h = (if length s < 32 then parse_small env s s h else parse_large env s h)"

text \<open>The formatted text, with the shortcut for a string that is one field.\<close>

definition vformat_to :: "format_env \<Rightarrow> string \<Rightarrow> string fmt" where
  "vformat_to env s =
     (if s = ''{}'' then fmt_bind (found_arg (args_get (fe_args env) 0)) (default_arg_formatter (fe_locale env))
      else fmt_bind (parse_format_string env s \<lparr>next_id = 0, out_text = []\<rparr>) (\<lambda>h. fmt_ret (out_text h)))"

section \<open>Both loops read a string alike\<close>

text \<open>The steps of the short loop without pending text.\<close>

definition scan :: "format_env \<Rightarrow> string \<Rightarrow> format_handler \<Rightarrow> format_handler fmt" where
  "scan env p h = parse_small env p p h"

lemma append_out_simps [simp]: "append_out [] h = h" "append_out t (append_out s h) = append_out (s @ t) h"
  by (simp_all add: append_out_def)

lemma between_append [simp]: "between (u @ p) p = u" "between p p = []"
  by (simp_all add: between_def)

lemma parse_small_pending: "parse_small env (u @ p) p h = parse_small env p p (append_out u h)"
proof (induction "length p" arbitrary: u p h rule: less_induct)
  case less
  show ?case
  proof (cases p)
    case Nil
    then show ?thesis by (simp add: on_text_def)
  next
    case (Cons c q)
    have b: "between (u @ c # q) q = u @ [c]" using between_append(1) [of "u @ [c]" q] by simp
    have b1: "between (c # q) q = [c]" using between_append(1) [of "[c]" q] by simp
    have ih: "parse_small env (u @ c # q) q h = parse_small env (c # q) q (append_out u h)"
      using less [of q "u @ [c]" h] less [of q "[c]" "append_out u h"] Cons by simp
    show ?thesis using ih b b1 unfolding Cons by (cases "c = CHR ''}''") (simp_all add: on_text_def)
  qed
qed

lemma scan_Nil: "scan env [] h = fmt_ret h"
  by (simp add: scan_def on_text_def)

lemma scan_field: "scan env (CHR ''{'' # p) h =
    fmt_bind (parse_replacement_field env (CHR ''{'' # p) h) (\<lambda>(p, h). scan env p h)"
  by (simp add: scan_def on_text_def)

lemma scan_brace: "scan env (CHR ''}'' # p) h =
    (if p = [] \<or> hd p \<noteq> CHR ''}'' then on_error unmatched_brace else scan env (tl p) (append_out ''}'' h))"
  using between_append(1) [of "''}''" p] by (simp add: scan_def on_text_def)

lemma scan_char: "c \<noteq> CHR ''{'' \<Longrightarrow> c \<noteq> CHR ''}'' \<Longrightarrow> scan env (c # p) h = scan env p (append_out [c] h)"
  using parse_small_pending [of env "[c]" p h] by (simp add: scan_def)

lemma find_char_simps [simp]: "find_char c [] = None" "find_char c (x # s) = (if x = c then Some (x # s) else find_char c s)"
  by (simp_all add: find_char_def)

lemma find_char_suffix: "find_char c s = Some p \<Longrightarrow> \<exists>u. s = u @ p \<and> c \<notin> set u \<and> p \<noteq> [] \<and> hd p = c"
proof (induction s)
  case (Cons x s)
  show ?case
  proof (cases "x = c")
    case False
    with Cons obtain u where "s = u @ p" "c \<notin> set u" "p \<noteq> []" "hd p = c" by auto
    then show ?thesis using False by (intro exI [of _ "x # u"]) auto
  qed (use Cons in auto)
qed simp

lemma find_char_None: "find_char c s = None \<longleftrightarrow> c \<notin> set s"
  by (induction s) auto

lemma write_text_loop_Nil: "write_text_loop [] h = fmt_ret h"
  by (subst write_text_loop.simps) (simp add: on_text_def)

lemma write_text_loop_brace: "write_text_loop (CHR ''}'' # p) h =
    (if p = [] \<or> hd p \<noteq> CHR ''}'' then on_error unmatched_brace else write_text_loop (tl p) (append_out ''}'' h))"
  using between_append(1) [of "''}''" p] by (subst write_text_loop.simps) (simp add: Let_def on_text_def)

lemma write_text_loop_char: "c \<noteq> CHR ''}'' \<Longrightarrow> write_text_loop (c # s) h = write_text_loop s (append_out [c] h)"
proof (cases "find_char (CHR ''}'') s")
  case None
  assume "c \<noteq> CHR ''}''"
  with None show ?thesis by (subst (1 2) write_text_loop.simps) (simp add: on_text_def)
next
  case (Some q)
  assume c: "c \<noteq> CHR ''}''"
  from find_char_suffix [OF Some] obtain u where u: "s = (u @ [hd q]) @ tl q" by (cases q) auto
  then have b: "between (c # s) (tl q) = c # u @ [hd q]" "between s (tl q) = u @ [hd q]"
    using between_append(1) [of "c # u @ [hd q]" "tl q"] between_append(1) [of "u @ [hd q]" "tl q"] by simp_all
  show ?thesis using c Some by (subst (1 2) write_text_loop.simps) (simp add: on_text_def Let_def b)
qed

text \<open>Up to the next field the one loop does what the writer of the other does.\<close>

lemma scan_write_text:
  assumes "CHR ''{'' \<notin> set s" "r = [] \<or> hd r = CHR ''{''"
  shows "scan env (s @ r) h = fmt_bind (write_text_loop s h) (scan env r)"
  using assms(1)
proof (induction "length s" arbitrary: s h rule: less_induct)
  case less
  show ?case
  proof (cases s)
    case Nil
    then show ?thesis by (simp add: write_text_loop_Nil)
  next
    case (Cons c s')
    show ?thesis
    proof (cases "c = CHR ''}''")
      case False
      moreover have "c \<noteq> CHR ''{''" using Cons less.prems by auto
      ultimately show ?thesis using Cons less by (simp add: scan_char write_text_loop_char)
    next
      case True
      show ?thesis
      proof (cases "s' = [] \<or> hd s' \<noteq> CHR ''}''")
        case True
        then have "s' @ r = [] \<or> hd (s' @ r) \<noteq> CHR ''}''" using assms(2) by (cases s') auto
        with True show ?thesis using Cons \<open>c = CHR ''}''\<close> by (simp add: scan_brace write_text_loop_brace)
      next
        case False
        then obtain s'' where s'': "s' = CHR ''}'' # s''" by (cases s') auto
        then have "scan env (s'' @ r) (append_out ''}'' h) = fmt_bind (write_text_loop s'' (append_out ''}'' h)) (scan env r)"
          using Cons less by simp
        with s'' Cons \<open>c = CHR ''}''\<close> show ?thesis by (simp add: scan_brace write_text_loop_brace)
      qed
    qed
  qed
qed

lemma scan_write_text': "CHR ''{'' \<notin> set s \<Longrightarrow> r = [] \<or> hd r = CHR ''{'' \<Longrightarrow> scan env (s @ r) h = fmt_bind (write_text s h) (scan env r)"
  by (simp add: scan_write_text write_text_def write_text_loop_Nil)

lemma parse_large_scan: "parse_large env b h = scan env b h"
proof (induction env b h rule: parse_large.induct)
  case (1 env b h)
  show ?case
  proof (cases "b = []")
    case True
    then show ?thesis by (subst parse_large.simps) (simp add: scan_Nil)
  next
    case False
    let ?f = "if hd b \<noteq> CHR ''{'' then find_char (CHR ''{'') (tl b) else Some b"
    show ?thesis
    proof (cases ?f)
      case None
      then have "CHR ''{'' \<notin> set b" using False by (cases b) (auto simp: find_char_None split: if_splits)
      then show ?thesis using False None scan_write_text' [of b "[]" env h]
        by (subst parse_large.simps) (simp add: scan_Nil, cases "write_text b h" rule: fmt_cases, simp_all add: scan_Nil)
    next
      case (Some p)
      obtain u where u: "b = u @ p" "CHR ''{'' \<notin> set u" "p \<noteq> []" "hd p = CHR ''{''"
      proof (cases "hd b = CHR ''{''")
        case True
        then show ?thesis using that [of "[]"] Some False by simp
      next
        case ne: False
        then obtain v where "tl b = v @ p" "CHR ''{'' \<notin> set v" "p \<noteq> []" "hd p = CHR ''{''"
          using Some find_char_suffix [of "CHR ''{''" "tl b" p] by auto
        then show ?thesis using that [of "hd b # v"] ne False by (cases b) auto
      qed
      obtain q where p: "p = CHR ''{'' # q" using u(3,4) by (cases p) auto
      have "parse_large env b h = fmt_bind (write_text u h) (\<lambda>h. fmt_bind (parse_replacement_field env p h) (\<lambda>(b, h). parse_large env b h))"
        using False Some u(1) between_append(1) [of u p] by (subst parse_large.simps) (simp only: if_False option.case)
      also have "\<dots> = fmt_bind (write_text u h) (\<lambda>h. fmt_bind (parse_replacement_field env p h) (\<lambda>(b, h). scan env b h))"
        by (intro fmt_bind_cong refl) (use "1.IH" [OF False Some] u(1) in \<open>auto split: prod.split\<close>)
      also have "\<dots> = scan env b h"
      proof -
        have "scan env (CHR ''{'' # q) = (\<lambda>h. fmt_bind (parse_replacement_field env (CHR ''{'' # q) h) (\<lambda>(p, h). scan env p h))"
          by (rule ext) (rule scan_field)
        then show ?thesis using scan_write_text' [of u p env h] u by (simp add: p)
      qed
      finally show ?thesis .
    qed
  qed
qed

lemma parse_format_string_scan: "parse_format_string env s h = scan env s h"
  by (simp add: parse_format_string_def parse_large_scan scan_def)

section \<open>Formatting stays within defined behaviour\<close>

definition args_ok :: "format_args \<Rightarrow> bool" where
  "args_ok args \<longleftrightarrow> list_all arg_ok (arg_values args)"

lemma on_arg_id_sat: "arg_id_ok i \<Longrightarrow> fmt_sat (\<lambda>(j, h). 0 \<le> j) (on_arg_id env i h)"
  by (cases i) (auto simp: next_arg_id_def check_arg_id_def Let_def)

lemma on_replacement_field_safe: "0 \<le> i \<Longrightarrow> fmt_safe (on_replacement_field env i h)"
  unfolding on_replacement_field_def
  by (rule fmt_sat_bind [OF found_arg_sat], assumption) (rule fmt_sat_bind [OF default_arg_formatter_safe], simp)

lemma on_format_specs_safe: "args_ok (fe_args env) \<Longrightarrow> 0 \<le> i \<Longrightarrow> fmt_safe (on_format_specs env i b h)"
  unfolding on_format_specs_def
proof (rule fmt_sat_bind [OF found_arg_sat], assumption)
  fix a
  assume "args_ok (fe_args env)" "a \<in> set (arg_values (fe_args env))"
  then have a: "arg_ok a" by (auto simp: args_ok_def list_all_iff)
  show "fmt_safe (fmt_bind (parse_format_specs (fe_args env) (arg_type_of a) b \<lparr>st_specs = format_specs_default, st_next = next_id h\<rparr>)
         (\<lambda>(b, s).
           if b = [] \<or> hd b \<noteq> CHR ''}'' then on_error missing_brace
           else fmt_bind (arg_formatter (fe_locale env) (st_specs s) a) (\<lambda>txt.
             fmt_ret (b, append_out txt (h\<lparr>next_id := st_next s\<rparr>)))))"
    by (rule fmt_sat_bind [OF parse_format_specs_sat [OF initial_specs_wf]])
      (auto simp: spec_wf_def specs_ok_def intro!: fmt_sat_bind [OF arg_formatter_safe [OF _ a]])
qed

lemma parse_replacement_field_safe: "args_ok (fe_args env) \<Longrightarrow> fmt_safe (parse_replacement_field env b h)"
proof -
  assume a: "args_ok (fe_args env)"
  have auto: "fmt_safe (fmt_bind (on_arg_id env Auto_id h) (\<lambda>(i, h). fmt_bind (on_replacement_field env i h) (\<lambda>h. fmt_ret (r, h))))" for r
    by (rule fmt_sat_bind [OF on_arg_id_sat]) (auto intro!: fmt_sat_bind [OF on_replacement_field_safe])
  have manual: "fmt_safe (fmt_bind (parse_arg_id (id_adapter env) c (0, h)) (\<lambda>(b, i, h).
        let c = (if b \<noteq> [] then hd b else CHR 0x00) in
        if c = CHR ''}'' then fmt_bind (on_replacement_field env i h) (\<lambda>h. fmt_ret (tl b, h))
        else if c = CHR '':'' then
          fmt_bind (on_format_specs env i (tl b) h) (\<lambda>(b, h).
            if b = [] \<or> hd b \<noteq> CHR ''}'' then on_error ''unknown format specifier'' else fmt_ret (tl b, h))
        else on_error missing_brace))" if "c \<noteq> []" for c
  proof (rule fmt_sat_bind [OF parse_arg_id_sat [OF that, of "\<lambda>(i, h). 0 \<le> i"]])
    show "fmt_sat (\<lambda>(i, h). 0 \<le> i) (id_adapter env i s)" if "arg_id_ok i" for i s
      using on_arg_id_sat [OF that] by (simp add: id_adapter_def)
  qed (auto simp: Let_def intro!: fmt_sat_bind [OF on_replacement_field_safe] fmt_sat_bind [OF on_format_specs_safe [OF a]])
  show ?thesis unfolding parse_replacement_field_def Let_def [of "tl b"]
    by (cases "tl b = []"; cases "hd (tl b) = CHR ''}''"; cases "hd (tl b) = CHR ''{''")
      (simp_all only: if_True if_False fmt_sat_simps on_text_def fmt_bind_simps auto manual simp_thms not_False_eq_True)
qed

lemma scan_safe: "args_ok (fe_args env) \<Longrightarrow> fmt_safe (scan env p h)"
proof (induction "length p" arbitrary: p h rule: less_induct)
  case less
  show ?case
  proof (cases p)
    case Nil
    then show ?thesis by (simp add: scan_Nil)
  next
    case (Cons c q)
    consider "c = CHR ''{''" | "c = CHR ''}''" | "c \<noteq> CHR ''{''" "c \<noteq> CHR ''}''" by blast
    then show ?thesis
    proof cases
      case 1
      show ?thesis unfolding Cons 1 scan_field
        by (rule fmt_sat_bind [OF parse_replacement_field_safe [OF less.prems]])
          (use less parse_replacement_field_shorter in \<open>fastforce simp: Cons 1 split: prod.split\<close>)
    next
      case 2
      then show ?thesis using less Cons by (simp add: scan_brace)
    next
      case 3
      then show ?thesis using less Cons by (simp add: scan_char)
    qed
  qed
qed

lemma vformat_to_safe: "args_ok (fe_args env) \<Longrightarrow> fmt_safe (vformat_to env s)"
proof (cases "s = ''{}''")
  case True
  have "fmt_safe (fmt_bind (found_arg (args_get (fe_args env) 0)) (default_arg_formatter (fe_locale env)))"
    by (rule fmt_sat_bind [OF found_arg_sat]) (simp_all add: default_arg_formatter_safe)
  with True show ?thesis by (simp add: vformat_to_def)
next
  case False
  assume "args_ok (fe_args env)"
  then have "fmt_safe (fmt_bind (parse_format_string env s \<lparr>next_id = 0, out_text = []\<rparr>) (\<lambda>h. fmt_ret (out_text h)))"
    unfolding parse_format_string_scan by (intro fmt_sat_bind [OF scan_safe]) simp_all
  with False show ?thesis by (simp add: vformat_to_def)
qed


section \<open>What a format string means\<close>

text \<open>A format string in pieces: literal text, fields without and with specifications, numbered automatically.\<close>

datatype piece = Lit string | Field | Spec_field format_specs

definition escape :: "string \<Rightarrow> string" where
  "escape t = concat (map (\<lambda>c. if c = CHR ''{'' \<or> c = CHR ''}'' then [c, c] else [c]) t)"

fun piece_text :: "piece \<Rightarrow> string" where
  "piece_text (Lit t) = escape t"
| "piece_text Field = ''{}''"
| "piece_text (Spec_field sp) = ''{:'' @ print_specs sp @ ''}''"

definition format_of :: "piece list \<Rightarrow> string" where
  "format_of ps = concat (map piece_text ps)"

text \<open>The text of the pieces, from argument \<open>n\<close> on.\<close>

fun render :: "numpunct \<Rightarrow> format_arg list \<Rightarrow> nat \<Rightarrow> piece list \<Rightarrow> string fmt" where
  "render np vs n [] = fmt_ret []"
| "render np vs n (Lit t # ps) = fmt_bind (render np vs n ps) (\<lambda>r. fmt_ret (t @ r))"
| "render np vs n (Field # ps) =
     (if n < length vs then
        fmt_bind (default_arg_formatter np (vs ! n)) (\<lambda>s. fmt_bind (render np vs (n + 1) ps) (\<lambda>r. fmt_ret (s @ r)))
      else on_error ''argument not found'')"
| "render np vs n (Spec_field sp # ps) =
     (if n < length vs then
        fmt_bind (arg_formatter np sp (vs ! n)) (\<lambda>s. fmt_bind (render np vs (n + 1) ps) (\<lambda>r. fmt_ret (s @ r)))
      else on_error ''argument not found'')"

fun pieces_ok :: "format_arg list \<Rightarrow> nat \<Rightarrow> piece list \<Rightarrow> bool" where
  "pieces_ok vs n [] = True"
| "pieces_ok vs n (Lit t # ps) = pieces_ok vs n ps"
| "pieces_ok vs n (Field # ps) = pieces_ok vs (n + 1) ps"
| "pieces_ok vs n (Spec_field sp # ps) =
     (print_specs sp \<noteq> [] \<and> (n < length vs \<longrightarrow> expressible (arg_type_of (vs ! n)) sp) \<and> pieces_ok vs (n + 1) ps)"

lemma escape_simps [simp]: "escape [] = []" "escape (c # t) = (if c = CHR ''{'' \<or> c = CHR ''}'' then [c, c] else [c]) @ escape t"
  by (simp_all add: escape_def)

lemma scan_open: "scan env (CHR ''{'' # CHR ''{'' # p) h = scan env p (append_out ''{'' h)"
  by (simp add: scan_field parse_replacement_field_def on_text_def)

lemma scan_escape: "scan env (escape t @ r) h = scan env r (append_out t h)"
proof (induction t arbitrary: h)
  case (Cons c t)
  show ?case
  proof (cases "c = CHR ''{'' \<or> c = CHR ''}''")
    case True
    then show ?thesis using Cons [of "append_out [c] h"] by (auto simp: scan_open scan_brace)
  next
    case False
    then show ?thesis using Cons [of "append_out [c] h"] by (simp add: scan_char)
  qed
qed simp

lemma found_arg_index: "found_arg (args_get args (int n)) =
    (if n < length (arg_values args) then fmt_ret (arg_values args ! n) else on_error ''argument not found'')"
  by (auto simp: found_arg_def args_get_def)

lemma scan_auto_field:
  assumes "next_id h = int n"
  shows "scan env (CHR ''{'' # CHR ''}'' # r) h =
    (if n < length (arg_values (fe_args env)) then
       fmt_bind (default_arg_formatter (fe_locale env) (arg_values (fe_args env) ! n)) (\<lambda>s.
         scan env r (append_out s (h\<lparr>next_id := int (n + 1)\<rparr>)))
     else on_error ''argument not found'')"
  using assms
  by (simp add: scan_field parse_replacement_field_def next_arg_id_def on_replacement_field_def found_arg_index fmt_bind_assoc add.commute)

lemma scan_spec_field:
  assumes "next_id h = int n" "print_specs sp \<noteq> []"
    and "n < length (arg_values (fe_args env)) \<longrightarrow> expressible (arg_type_of (arg_values (fe_args env) ! n)) sp"
  shows "scan env (''{:'' @ print_specs sp @ CHR ''}'' # r) h =
    (if n < length (arg_values (fe_args env)) then
       fmt_bind (arg_formatter (fe_locale env) sp (arg_values (fe_args env) ! n)) (\<lambda>s.
         scan env r (append_out s (h\<lparr>next_id := int (n + 1)\<rparr>)))
     else on_error ''argument not found'')"
proof -
  have id: "parse_arg_id (id_adapter env) (CHR '':'' # b) (0, h) = fmt_ret (CHR '':'' # b, int n, h\<lparr>next_id := int (n + 1)\<rparr>)" for b
    using assms(1) by (simp add: parse_arg_id_def id_adapter_def next_arg_id_def add.commute)
  show ?thesis
  proof (cases "n < length (arg_values (fe_args env))")
    case True
    let ?a = "arg_values (fe_args env) ! n"
    have "parse_format_specs (fe_args env) (arg_type_of ?a) (print_specs sp @ CHR ''}'' # r)
        \<lparr>st_specs = format_specs_default, st_next = int (n + 1)\<rparr> = fmt_ret (CHR ''}'' # r, \<lparr>st_specs = sp, st_next = int (n + 1)\<rparr>)"
      by (rule parse_printed_specs) (use assms True in auto)
    then show ?thesis using True id
      by (simp add: scan_field parse_replacement_field_def on_format_specs_def found_arg_index fmt_bind_assoc)
  next
    case False
    then show ?thesis using id
      by (simp add: scan_field parse_replacement_field_def on_format_specs_def found_arg_index)
  qed
qed

definition fields :: "piece list \<Rightarrow> nat" where
  "fields ps = length (filter (\<lambda>p. case p of Lit t \<Rightarrow> False | _ \<Rightarrow> True) ps)"

lemma scan_render:
  assumes "next_id h = int n" "pieces_ok (arg_values (fe_args env)) n ps"
  shows "scan env (format_of ps) h =
    fmt_bind (render (fe_locale env) (arg_values (fe_args env)) n ps) (\<lambda>r. fmt_ret \<lparr>next_id = int (n + fields ps), out_text = out_text h @ r\<rparr>)"
  using assms
proof (induction ps arbitrary: n h)
  case Nil
  then show ?case by (simp add: format_of_def scan_Nil fields_def)
next
  case (Cons p ps)
  have nid: "next_id (append_out s (h\<lparr>next_id := m\<rparr>)) = m" for s m by (simp add: append_out_def)
  show ?case
  proof (cases p)
    case (Lit t)
    have "next_id (append_out t h) = int n" using Cons.prems(1) by (simp add: append_out_def)
    from Cons.IH [OF this] Lit Cons.prems(2) show ?thesis
      by (simp add: format_of_def scan_escape fmt_bind_assoc fields_def append_out_def)
  next
    case Field
    from Cons.IH [OF nid, of "n + 1"] Field Cons.prems show ?thesis
      by (simp add: format_of_def scan_auto_field [OF Cons.prems(1)] fmt_bind_assoc fields_def append_out_def)
  next
    case (Spec_field sp)
    then have "print_specs sp \<noteq> []" "n < length (arg_values (fe_args env)) \<longrightarrow> expressible (arg_type_of (arg_values (fe_args env) ! n)) sp"
      using Cons.prems(2) by simp_all
    from scan_spec_field [OF Cons.prems(1) this] Cons.IH [OF nid, of "n + 1"] Spec_field Cons.prems(2) show ?thesis
      by (simp add: format_of_def fmt_bind_assoc fields_def append_out_def)
  qed
qed

text \<open>The shortcut for a lone field is no exception.\<close>

lemma vformat_to_scan: "vformat_to env s = fmt_bind (scan env s \<lparr>next_id = 0, out_text = []\<rparr>) (\<lambda>h. fmt_ret (out_text h))"
proof (cases "s = ''{}''")
  case True
  have "fmt_bind m fmt_ret = m" for m :: "string fmt" by (cases m rule: fmt_cases) simp_all
  with True found_arg_index [of "fe_args env" 0] scan_auto_field [of "\<lparr>next_id = 0, out_text = []\<rparr>" 0 env "[]"] show ?thesis
    by (simp add: vformat_to_def scan_Nil fmt_bind_assoc append_out_def)
next
  case False
  then show ?thesis by (simp add: vformat_to_def parse_format_string_scan)
qed

text \<open>C15. Formatting a string made of literal text and of fields with and without specifications gives the text of its pieces.\<close>

theorem format_renders_pieces:
  assumes "pieces_ok (arg_values (fe_args env)) 0 ps"
  shows "vformat_to env (format_of ps) = render (fe_locale env) (arg_values (fe_args env)) 0 ps"
proof -
  have "fmt_bind m fmt_ret = m" for m :: "string fmt" by (cases m rule: fmt_cases) simp_all
  then show ?thesis using scan_render [of "\<lparr>next_id = 0, out_text = []\<rparr>" 0 env ps] assms
    by (simp add: vformat_to_scan fmt_bind_assoc)
qed

definition demo_args_env :: format_env where
  "demo_args_env =
     \<lparr>fe_args = \<lparr>arg_values = [Int_arg 7, Cstring_arg 1 ''eof'', Uint_arg 255], named_args = []\<rparr>,
      fe_locale = \<lparr>np_grouping = [], np_thousands_sep = CHR '',''\<rparr>\<rparr>"


definition demo_pieces :: "piece list" where
  "demo_pieces =
     [Lit ''fd {'', Field, Lit ''} err: '', Field, Lit '' events '',
      Spec_field (format_specs_default
        \<lparr>spec_width := 6, spec_type := Pres_hex_lower, spec_align := Align_numeric, spec_alt := True,
         spec_fill := fill_default\<lparr>fill_data := [CHR ''0'', CHR 0x00, CHR 0x00, CHR 0x00]\<rparr>\<rparr>)]"

lemma demo_format: "format_of demo_pieces = ''fd {{{}}} err: {} events {:#06x}''"
  by (simp add: format_of_def demo_pieces_def print_specs_def format_specs_default_def print_width_def print_precision_def print_type_def
      presentation_table_def decimal.simps digit_char_def char_of_def bit_0)

lemma demo_pieces_ok: "pieces_ok (arg_values (fe_args demo_args_env)) 0 demo_pieces"
  by (simp add: demo_pieces_def demo_args_env_def expressible_def fill_expressible_def format_specs_default_def fill_default_def
      is_integral_type_def is_arithmetic_type_def print_specs_def print_type_def presentation_table_def)

lemma demo_render: "render np [Int_arg 7, Cstring_arg 1 ''eof'', Uint_arg 255] 0 demo_pieces = fmt_ret ''fd {7} err: eof events 0x00ff''"
proof -
  let ?sp = "format_specs_default
        \<lparr>spec_width := 6, spec_type := Pres_hex_lower, spec_align := Align_numeric, spec_alt := True,
         spec_fill := fill_default\<lparr>fill_data := [CHR ''0'', CHR 0x00, CHR 0x00, CHR 0x00]\<rparr>\<rparr>"
  have "int_text ?sp 255 = ''0x00ff''" by code_simp
  moreover have "arg_formatter np ?sp (Uint_arg 255) = fmt_ret (int_text ?sp 255)"
    by (rule arg_formatter_int) (simp_all add: format_specs_default_def)
  moreover have "default_arg_formatter np (Int_arg 7) = fmt_ret ''7''"
    using default_arg_formatter_int [of "Int_arg 7" 7 np] by (simp add: decimal_int_def decimal.simps digit_char_def char_of_def bit_0)
  ultimately show ?thesis by (simp add: demo_pieces_def)
qed

theorem format_renders_pieces_witness:
  "vformat_to demo_args_env ''fd {{{}}} err: {} events {:#06x}'' = fmt_ret ''fd {7} err: eof events 0x00ff''"
  using format_renders_pieces [OF demo_pieces_ok] demo_render by (simp add: demo_format) (simp add: demo_args_env_def)

text \<open>C17. The loop for short strings and the two-pass loop for long ones give the same result on every string.\<close>

theorem format_paths_agree: "parse_small env s s h = parse_large env s h"
  by (simp add: parse_large_scan scan_def)

section \<open>Arguments that are ignored, pointers that are not checked\<close>

lemma plain_text_verbatim:
  assumes "CHR ''{'' \<notin> set s" "CHR ''}'' \<notin> set s"
  shows "vformat_to env s = fmt_ret s"
proof -
  have "escape s = s" using assms by (induction s) auto
  then have "format_of [Lit s] = s" by (simp add: format_of_def)
  moreover have "vformat_to env (format_of [Lit s]) = render (fe_locale env) (arg_values (fe_args env)) 0 [Lit s]"
    using scan_render [of "\<lparr>next_id = 0, out_text = []\<rparr>" 0 env "[Lit s]"] by (simp add: vformat_to_scan fmt_bind_assoc)
  ultimately show ?thesis by simp
qed

text \<open>
  The message of \<^verbatim>\<open>ctl_conn.cpp\<close> about an oversized control message has a placeholder of \<^verbatim>\<open>printf\<close>: the length is not
  in the log, whatever the arguments.
\<close>

lemma oversized_length_not_logged: "vformat_to env ''msg len too long: %d'' = fmt_ret ''msg len too long: %d''"
  by (rule plain_text_verbatim) simp_all

text \<open>A null C string is reported by a plain field, but a field with a specification takes its length.\<close>

lemma null_cstring_undefined:
  assumes "arg_values (fe_args env) = [Cstring_arg 0 s]"
  shows "vformat_to env ''{}'' = on_error ''string pointer is null''" "vformat_to env ''{:s}'' = Ub NullDeref"
proof -
  show "vformat_to env ''{}'' = on_error ''string pointer is null''"
    using assms found_arg_index [of "fe_args env" 0] by (simp add: vformat_to_def)
  let ?sp = "format_specs_default\<lparr>spec_type := Pres_string\<rparr>"
  have sp: "print_specs ?sp = ''s''"
    by (simp add: print_specs_def format_specs_default_def print_width_def print_precision_def print_type_def presentation_table_def)
  have ne: "print_specs ?sp \<noteq> []" unfolding sp by simp
  have "expressible Cstring_type ?sp" by (simp add: expressible_def fill_expressible_def format_specs_default_def)
  then have "scan env (''{:'' @ print_specs ?sp @ CHR ''}'' # []) \<lparr>next_id = 0, out_text = []\<rparr> = Ub NullDeref"
    using assms scan_spec_field [of "\<lparr>next_id = 0, out_text = []\<rparr>" 0 ?sp env "[]", OF _ ne]
    by (simp add: check_cstring_type_spec_def)
  then show "vformat_to env ''{:s}'' = Ub NullDeref" by (simp add: sp vformat_to_scan)
qed

end
