(* ===== verification/Fmt_Args.thy ===== *)
theory Fmt_Args
  imports Fmt_Format
begin

text \<open>
  From the arguments of a call to the argument list (\<^verbatim>\<open>core.h\<close>): the mapping of C++ types to the types fmt knows, the
  descriptor word into which the types of up to 15 arguments are packed, and the lookup through it. The
  argument lists of \<open>Fmt_Spec\<close> are its abstraction.
\<close>

section \<open>Mapping of arguments\<close>

text \<open>The types a program can pass, on a platform with 64 bit \<^verbatim>\<open>long\<close>. A named argument carries the argument itself.\<close>

datatype cpp_arg =
    Schar_val byte | Uchar_val byte | Short_val "16 word" | Ushort_val "16 word" | Int_val u32 | Unsigned_val u32
  | Long_val size_t | Ulong_val size_t | Llong_val size_t | Ullong_val size_t | Bool_val bool | Char_val char
  | Cstring_val size_t string | String_val string | Void_ptr_val size_t | Nullptr_val | Named_val string cpp_arg

fun arg_map :: "cpp_arg \<Rightarrow> format_arg" where
  "arg_map (Schar_val v) = Int_arg (scast v)"
| "arg_map (Uchar_val v) = Uint_arg (ucast v)"
| "arg_map (Short_val v) = Int_arg (scast v)"
| "arg_map (Ushort_val v) = Uint_arg (ucast v)"
| "arg_map (Int_val v) = Int_arg v"
| "arg_map (Unsigned_val v) = Uint_arg v"
| "arg_map (Long_val v) = Long_long_arg v"
| "arg_map (Ulong_val v) = Ulong_long_arg v"
| "arg_map (Llong_val v) = Long_long_arg v"
| "arg_map (Ullong_val v) = Ulong_long_arg v"
| "arg_map (Bool_val v) = Bool_arg v"
| "arg_map (Char_val v) = Char_arg v"
| "arg_map (Cstring_val p s) = Cstring_arg p s"
| "arg_map (String_val s) = String_arg s"
| "arg_map (Void_ptr_val p) = Pointer_arg p"
| "arg_map Nullptr_val = Pointer_arg 0"
| "arg_map (Named_val s a) = arg_map a"

text \<open>\<^verbatim>\<open>init_named_args\<close>: names with the positions of their arguments.\<close>

fun init_named_args :: "int \<Rightarrow> cpp_arg list \<Rightarrow> (string \<times> int) list" where
  "init_named_args arg_count [] = []"
| "init_named_args arg_count (a # args) =
     (case a of
        Named_val s v \<Rightarrow> (s, arg_count) # init_named_args (arg_count + 1) args
      | _ \<Rightarrow> init_named_args (arg_count + 1) args)"

section \<open>The descriptor\<close>

definition arg_types :: "arg_type list" where
  "arg_types = [None_type, Int_type, Uint_type, Long_long_type, Ulong_long_type, Int128_type, Uint128_type, Bool_type, Char_type,
     Float_type, Double_type, Long_double_type, Cstring_type, String_type, Pointer_type, Custom_type]"

fun type_no :: "arg_type \<Rightarrow> nat" where
  "type_no None_type = 0" | "type_no Int_type = 1" | "type_no Uint_type = 2" | "type_no Long_long_type = 3"
| "type_no Ulong_long_type = 4" | "type_no Int128_type = 5" | "type_no Uint128_type = 6" | "type_no Bool_type = 7"
| "type_no Char_type = 8" | "type_no Float_type = 9" | "type_no Double_type = 10" | "type_no Long_double_type = 11"
| "type_no Cstring_type = 12" | "type_no String_type = 13" | "type_no Pointer_type = 14" | "type_no Custom_type = 15"

definition packed_arg_bits :: nat where
  "packed_arg_bits = 4"

definition is_unpacked_bit :: size_t where
  "is_unpacked_bit = push_bit 63 1"

definition has_named_args_bit :: size_t where
  "has_named_args_bit = push_bit 62 1"

fun encode_types :: "arg_type list \<Rightarrow> size_t" where
  "encode_types [] = 0"
| "encode_types (t # ts) = of_nat (type_no t) OR push_bit packed_arg_bits (encode_types ts)"

text \<open>
  The store: untagged values when they are packed, arguments with their types otherwise. A value remembers which member of
  its union was stored.
\<close>

record arg_store =
  as_desc :: size_t
  as_values :: "format_arg list"
  as_args :: "(arg_type \<times> format_arg) list"
  as_named :: "(string \<times> int) list"

definition make_arg :: "cpp_arg \<Rightarrow> arg_type \<times> format_arg" where
  "make_arg a = (arg_type_of (arg_map a), arg_map a)"

definition make_format_args :: "cpp_arg list \<Rightarrow> arg_store" where
  "make_format_args args =
     (let is_packed = length args \<le> max_packed_args;
          named = init_named_args 0 args
      in \<lparr>as_desc = (if is_packed then encode_types (map (arg_type_of \<circ> arg_map) args) else is_unpacked_bit OR of_nat (length args))
             OR (if named \<noteq> [] then has_named_args_bit else 0),
          as_values = (if is_packed then map arg_map args else []),
          as_args = (if is_packed then [] else map make_arg args),
          as_named = named\<rparr>)"

definition store_packed :: "arg_store \<Rightarrow> bool" where
  "store_packed st \<longleftrightarrow> as_desc st AND is_unpacked_bit = 0"

definition store_type :: "arg_store \<Rightarrow> int \<Rightarrow> arg_type" where
  "store_type st i =
     (let shift = nat i * packed_arg_bits; msk = push_bit packed_arg_bits 1 - 1
      in arg_types ! unat (drop_bit shift (as_desc st) AND msk))"

definition store_max_size :: "arg_store \<Rightarrow> int" where
  "store_max_size st =
     (if store_packed st then int max_packed_args else sint (ucast (as_desc st AND NOT is_unpacked_bit) :: u32))"

text \<open>Reading the member of a value that its type names.\<close>

definition visit_value :: "arg_type \<Rightarrow> format_arg \<Rightarrow> format_arg outcome" where
  "visit_value t v = (if arg_type_of v = t then Ok v else Ub InactiveMember)"

definition store_get :: "arg_store \<Rightarrow> int \<Rightarrow> format_arg option outcome" where
  "store_get st i =
     (if \<not> store_packed st then
        if i < store_max_size st then
          if i < 0 \<or> length (as_args st) \<le> nat i then Ub IndexOut
          else bind_outcome (visit_value (fst (as_args st ! nat i)) (snd (as_args st ! nat i))) (\<lambda>v. Ok (Some v))
        else Ok None
      else if i \<ge> int max_packed_args then Ok None
      else if i < 0 then Ub IndexOut
      else if store_type st i = None_type then Ok None
      else if length (as_values st) \<le> nat i then Ub IndexOut
      else bind_outcome (visit_value (store_type st i) (as_values st ! nat i)) (\<lambda>v. Ok (Some v)))"

definition store_get_id :: "arg_store \<Rightarrow> string \<Rightarrow> int" where
  "store_get_id st s = (if as_desc st AND has_named_args_bit = 0 then -1 else find_named s (as_named st))"

section \<open>The descriptor gives the types back\<close>

lemma type_no_less: "type_no t < 16"
  by (cases t) simp_all

lemma arg_types_nth: "arg_types ! type_no t = t"
  by (cases t) (simp_all add: arg_types_def)

lemma bit_type_no: "4 \<le> n \<Longrightarrow> \<not> bit (type_no t) n"
proof -
  assume "4 \<le> n"
  then have "(2 :: nat) ^ 4 \<le> 2 ^ n" by (intro power_increasing) simp_all
  then have "type_no t < 2 ^ n" using type_no_less [of t] by simp
  then show ?thesis by (simp add: bit_iff_odd)
qed

lemma bit_encode_types:
  "n < 4 \<Longrightarrow> 4 * i + n < 64 \<Longrightarrow> bit (encode_types ts) (4 * i + n) \<longleftrightarrow> i < length ts \<and> bit (type_no (ts ! i)) n"
proof (induction ts arbitrary: i)
  case (Cons t ts)
  show ?case
  proof (cases i)
    case 0
    with Cons.prems show ?thesis by (simp add: bit_or_iff bit_push_bit_iff packed_arg_bits_def bit_of_nat_iff)
  next
    case (Suc j)
    with Cons.prems Cons.IH [of j] bit_type_no [of "4 * i + n" t] show ?thesis
      by (simp add: bit_or_iff bit_push_bit_iff packed_arg_bits_def bit_of_nat_iff)
  qed
qed simp

lemma encoded_type:
  fixes w :: size_t
  assumes "i < 15" "\<And>n. n < 60 \<Longrightarrow> bit w n \<longleftrightarrow> bit (encode_types ts) n"
  shows "unat (drop_bit (i * 4) w AND 15) = (if i < length ts then type_no (ts ! i) else 0)"
proof -
  have m: "(15 :: size_t) = mask 4" by (simp add: mask_eq_exp_minus_1)
  have "drop_bit (i * 4) w AND 15 = of_nat (if i < length ts then type_no (ts ! i) else 0)"
  proof (rule bit_eqI)
    fix n assume "possible_bit TYPE(64 word) n"
    show "bit (drop_bit (i * 4) w AND 15) n = bit (of_nat (if i < length ts then type_no (ts ! i) else 0) :: size_t) n"
    proof (cases "n < 4")
      case True
      then have "4 * i + n < 60" using assms(1) by simp
      with assms(2) [OF this] bit_encode_types [OF True, of i ts] True show ?thesis
        by (simp add: m bit_and_iff bit_drop_bit_eq bit_mask_iff bit_of_nat_iff mult.commute)
    next
      case False
      then show ?thesis using bit_type_no [of n "ts ! i"] by (simp add: m bit_and_iff bit_mask_iff bit_of_nat_iff)
    qed
  qed
  moreover have "(if i < length ts then type_no (ts ! i) else 0) < 2 ^ 64" using type_no_less [of "ts ! i"] by simp
  ultimately show ?thesis by (simp add: unat_of_nat take_bit_nat_eq_self)
qed

lemma flag_bits:
  "w AND is_unpacked_bit = 0 \<longleftrightarrow> \<not> bit w 63" "w AND has_named_args_bit = 0 \<longleftrightarrow> \<not> bit w 62"
  "bit is_unpacked_bit n \<longleftrightarrow> n = 63" "bit has_named_args_bit n \<longleftrightarrow> n = 62"
proof -
  show "w AND is_unpacked_bit = 0 \<longleftrightarrow> \<not> bit w 63" "w AND has_named_args_bit = 0 \<longleftrightarrow> \<not> bit w 62"
    unfolding is_unpacked_bit_def has_named_args_bit_def push_bit_of_1 by (rule and_exp_eq_0_iff_not_bit)+
  show "bit is_unpacked_bit n \<longleftrightarrow> n = 63" "bit has_named_args_bit n \<longleftrightarrow> n = 62"
    unfolding is_unpacked_bit_def has_named_args_bit_def push_bit_of_1 bit_exp_iff by auto
qed

lemma packed_descriptor:
  assumes "length args \<le> max_packed_args"
  shows "store_packed (make_format_args args)"
    "as_desc (make_format_args args) AND has_named_args_bit = 0 \<longleftrightarrow> init_named_args 0 args = []"
    "0 \<le> i \<Longrightarrow> i < 15 \<Longrightarrow> store_type (make_format_args args) i =
       (if nat i < length args then arg_type_of (arg_map (args ! nat i)) else None_type)"
proof -
  let ?ts = "map (arg_type_of \<circ> arg_map) args"
  let ?w = "as_desc (make_format_args args)"
  have w: "?w = encode_types ?ts OR (if init_named_args 0 args \<noteq> [] then has_named_args_bit else 0)"
    using assms by (simp add: make_format_args_def Let_def)
  have high: "\<not> bit (encode_types ?ts) 63" "\<not> bit (encode_types ?ts) 62"
    using assms bit_encode_types [of 3 15 ?ts] bit_encode_types [of 2 15 ?ts] by (simp_all add: max_packed_args_def)
  show "store_packed (make_format_args args)"
    using high(1) by (simp add: store_packed_def w bit_or_iff flag_bits)
  show "?w AND has_named_args_bit = 0 \<longleftrightarrow> init_named_args 0 args = []"
    using high(2) by (simp add: w bit_or_iff flag_bits)
  assume i: "0 \<le> i" "i < 15"
  have low: "bit ?w n \<longleftrightarrow> bit (encode_types ?ts) n" if "n < 60" for n
    using that by (simp add: w bit_or_iff flag_bits)
  have "unat (drop_bit (nat i * 4) ?w AND 15) = (if nat i < length ?ts then type_no (?ts ! nat i) else 0)"
    by (rule encoded_type) (use i low in auto)
  then show "store_type (make_format_args args) i = (if nat i < length args then arg_type_of (arg_map (args ! nat i)) else None_type)"
    by (simp add: store_type_def Let_def packed_arg_bits_def arg_types_nth) (simp add: arg_types_def)
qed

lemma unpacked_descriptor:
  assumes "max_packed_args < length args" "length args < 2 ^ 31"
  shows "\<not> store_packed (make_format_args args)" "store_max_size (make_format_args args) = int (length args)"
    "as_desc (make_format_args args) AND has_named_args_bit = 0 \<longleftrightarrow> init_named_args 0 args = []"
proof -
  let ?w = "as_desc (make_format_args args)"
  let ?named = "if init_named_args 0 args \<noteq> [] then has_named_args_bit else 0"
  have w: "?w = (is_unpacked_bit OR of_nat (length args)) OR ?named"
    using assms by (simp add: make_format_args_def Let_def)
  have high: "\<not> bit (length args) n" if "31 \<le> n" for n
  proof -
    have "(2 :: nat) ^ 31 \<le> 2 ^ n" using that by (intro power_increasing) simp_all
    with assms(2) have "length args < 2 ^ n" by linarith
    then show ?thesis by (simp add: bit_iff_odd)
  qed
  show p: "\<not> store_packed (make_format_args args)"
    by (simp add: store_packed_def w bit_or_iff flag_bits)
  have "(ucast (?w AND NOT is_unpacked_bit) :: u32) = of_nat (length args)"
  proof (rule bit_eqI)
    fix n assume "possible_bit TYPE(32 word) n"
    then have "n < 32" by simp
    then show "bit (ucast (?w AND NOT is_unpacked_bit) :: u32) n = bit (of_nat (length args) :: u32) n"
      by (simp add: w bit_ucast_iff bit_and_iff bit_or_iff bit_not_iff flag_bits bit_of_nat_iff)
  qed
  moreover have "sint (of_nat (length args) :: u32) = int (length args)"
    using assms(2) by (simp add: signed_of_nat signed_take_bit_int_eq_self)
  ultimately show "store_max_size (make_format_args args) = int (length args)" using p by (simp add: store_max_size_def)
  show "?w AND has_named_args_bit = 0 \<longleftrightarrow> init_named_args 0 args = []"
    using high [of 62] by (simp add: w bit_or_iff flag_bits bit_of_nat_iff)
qed

section \<open>Lookup\<close>

text \<open>The argument list a store stands for.\<close>

definition list_of_args :: "cpp_arg list \<Rightarrow> format_args" where
  "list_of_args args = \<lparr>arg_values = map arg_map args, named_args = init_named_args 0 args\<rparr>"

lemma arg_type_not_none: "arg_type_of v \<noteq> None_type"
  by (cases v) simp_all

text \<open>C20. Looking an argument up through the descriptor word gives the argument passed at that position or under that name, with the type
  it was stored with, for packed and for unpacked stores.\<close>

theorem argument_store_lookup:
  assumes "length args < 2 ^ 31"
  shows "store_get (make_format_args args) i = args_get (list_of_args args) i \<and>
    store_get_id (make_format_args args) s = get_id (list_of_args args) s"
proof (cases "length args \<le> max_packed_args")
  case True
  note d = packed_descriptor [OF True]
  have vals: "as_values (make_format_args args) = map arg_map args" "as_named (make_format_args args) = init_named_args 0 args"
    using True by (simp_all add: make_format_args_def Let_def)
  have "store_get (make_format_args args) i = args_get (list_of_args args) i"
    using True d(1) d(3) [of i] vals arg_type_not_none
    by (auto simp: store_get_def args_get_def list_of_args_def max_packed_args_def visit_value_def nat_less_iff le_nat_iff)
  then show ?thesis using d(2) vals by (auto simp: store_get_id_def get_id_def list_of_args_def)
next
  case False
  then have l: "max_packed_args < length args" by simp
  note d = unpacked_descriptor [OF l assms]
  have vals: "as_args (make_format_args args) = map make_arg args" "as_named (make_format_args args) = init_named_args 0 args"
    using l by (simp_all add: make_format_args_def Let_def)
  have "store_get (make_format_args args) i = args_get (list_of_args args) i"
    using l d(1,2) vals
    by (auto simp: store_get_def args_get_def list_of_args_def visit_value_def make_arg_def)
  then show ?thesis using d(3) vals by (auto simp: store_get_id_def get_id_def list_of_args_def)
qed

definition demo_cpp_args :: "cpp_arg list" where
  "demo_cpp_args = [Unsigned_val 7, Named_val ''fd'' (Int_val 5), Cstring_val 4096 ''eof'']"

theorem argument_store_lookup_witness:
  "store_get (make_format_args demo_cpp_args) 1 = Ok (Some (Int_arg 5)) \<and> store_get_id (make_format_args demo_cpp_args) ''fd'' = 1"
proof -
  have "length demo_cpp_args < 2 ^ 31" by (simp add: demo_cpp_args_def)
  from argument_store_lookup [OF this, of 1 "''fd''"] show ?thesis
    by (simp add: demo_cpp_args_def list_of_args_def args_get_def get_id_def max_packed_args_def)
qed

text \<open>The value of an integer argument, which the conversions to 32 and 64 bits keep.\<close>

fun cpp_int :: "cpp_arg \<Rightarrow> int option" where
  "cpp_int (Schar_val v) = Some (sint v)" | "cpp_int (Uchar_val v) = Some (uint v)"
| "cpp_int (Short_val v) = Some (sint v)" | "cpp_int (Ushort_val v) = Some (uint v)"
| "cpp_int (Int_val v) = Some (sint v)" | "cpp_int (Unsigned_val v) = Some (uint v)"
| "cpp_int (Long_val v) = Some (sint v)" | "cpp_int (Ulong_val v) = Some (uint v)"
| "cpp_int (Llong_val v) = Some (sint v)" | "cpp_int (Ullong_val v) = Some (uint v)"
| "cpp_int (Named_val s a) = cpp_int a"
| "cpp_int _ = None"

lemma arg_map_int: "cpp_int a = Some n \<Longrightarrow> arg_int (arg_map a) = Some n"
proof (induction a)
  case (Schar_val v)
  then show ?case by (simp add: sint_up_scast is_up)
next
  case (Short_val v)
  then show ?case by (simp add: sint_up_scast is_up)
next
  case (Uchar_val v)
  then show ?case by (simp add: uint_up_ucast is_up)
next
  case (Ushort_val v)
  then show ?case by (simp add: uint_up_ucast is_up)
qed simp_all

lemma cpp_integer_text: "cpp_int a = Some n \<Longrightarrow> default_arg_formatter np (arg_map a) = fmt_ret (decimal_int n)"
  by (rule default_arg_formatter_int [OF arg_map_int])

end
