(* ===== verification/Fmt_Buffer.thy ===== *)
theory Fmt_Buffer
  imports CProxy_Prelude
begin

text \<open>
  The buffers of the bundled fmt library (\<^verbatim>\<open>core.h\<close>, \<^verbatim>\<open>format.h\<close>): the class \<^verbatim>\<open>buffer\<close> with its virtual \<^verbatim>\<open>grow\<close> and the
  classes derived from it, as record extensions. Every log line is written into a \<^verbatim>\<open>memory_buf_t\<close>, a
  \<^verbatim>\<open>basic_memory_buffer\<close> with 250 characters in the object. Sizes are below \<open>2 ^ 64\<close>, sums and differences wrap.
\<close>

section \<open>The base class\<close>

text \<open>\<open>bf_mem\<close> is the whole array the pointer of the buffer points to, \<open>bf_capacity\<close> what the buffer believes of its length.\<close>

record char_buffer =
  bf_mem :: string
  bf_size :: nat
  bf_capacity :: nat

type_synonym 'a grow_fn = "nat \<Rightarrow> 'a char_buffer_scheme \<Rightarrow> 'a char_buffer_scheme outcome"

definition plus_size :: "nat \<Rightarrow> nat \<Rightarrow> nat" where
  "plus_size a b = (a + b) mod 2 ^ 64"

definition minus_size :: "nat \<Rightarrow> nat \<Rightarrow> nat" where
  "minus_size a b = (a + 2 ^ 64 - b) mod 2 ^ 64"

lemma minus_size_le: "b \<le> a \<Longrightarrow> a < 2 ^ 64 \<Longrightarrow> minus_size a b = a - b"
proof -
  assume "b \<le> a" "a < 2 ^ 64"
  then have "a + 2 ^ 64 - b = (a - b) + 2 ^ 64" "a - b < 2 ^ 64" by simp_all
  then show ?thesis by (simp only: minus_size_def mod_add_self2 mod_less)
qed

definition buffer_set :: "string \<Rightarrow> nat \<Rightarrow> 'a char_buffer_scheme \<Rightarrow> 'a char_buffer_scheme" where
  "buffer_set p cap b = b\<lparr>bf_mem := p, bf_capacity := cap\<rparr>"

definition buffer_clear :: "'a char_buffer_scheme \<Rightarrow> 'a char_buffer_scheme" where
  "buffer_clear b = b\<lparr>bf_size := 0\<rparr>"

definition try_reserve :: "'a grow_fn \<Rightarrow> nat \<Rightarrow> 'a char_buffer_scheme \<Rightarrow> 'a char_buffer_scheme outcome" where
  "try_reserve grow new_capacity b = (if new_capacity > bf_capacity b then grow new_capacity b else Ok b)"

definition try_resize :: "'a grow_fn \<Rightarrow> nat \<Rightarrow> 'a char_buffer_scheme \<Rightarrow> 'a char_buffer_scheme outcome" where
  "try_resize grow count b =
     bind_outcome (try_reserve grow count b) (\<lambda>b. Ok (b\<lparr>bf_size := (if count \<le> bf_capacity b then count else bf_capacity b)\<rparr>))"

text \<open>Copying into an array.\<close>

definition copy_to :: "nat \<Rightarrow> string \<Rightarrow> string \<Rightarrow> string outcome" where
  "copy_to i s mem = (if i + length s \<le> length mem then Ok (take i mem @ s @ drop (i + length s) mem) else Ub IndexOut)"

definition buffer_push_back :: "'a grow_fn \<Rightarrow> char \<Rightarrow> 'a char_buffer_scheme \<Rightarrow> 'a char_buffer_scheme outcome" where
  "buffer_push_back grow c b =
     bind_outcome (try_reserve grow (plus_size (bf_size b) 1) b) (\<lambda>b.
       bind_outcome (copy_to (bf_size b) [c] (bf_mem b)) (\<lambda>mem.
         Ok (b\<lparr>bf_mem := mem, bf_size := plus_size (bf_size b) 1\<rparr>)))"

text \<open>One round of \<^verbatim>\<open>append\<close>: the number of characters copied and the buffer.\<close>

definition append_round :: "'a grow_fn \<Rightarrow> string \<Rightarrow> 'a char_buffer_scheme \<Rightarrow> (nat \<times> 'a char_buffer_scheme) outcome" where
  "append_round grow s b =
     bind_outcome (try_reserve grow (plus_size (bf_size b) (length s)) b) (\<lambda>b.
       let free_cap = minus_size (bf_capacity b) (bf_size b);
           count = (if free_cap < length s then free_cap else length s) in
       bind_outcome (copy_to (bf_size b) (take count s) (bf_mem b)) (\<lambda>mem.
         Ok (count, b\<lparr>bf_mem := mem, bf_size := plus_size (bf_size b) count\<rparr>)))"

text \<open>The loop ends only if every round makes progress, which depends on \<^verbatim>\<open>grow\<close>.\<close>

partial_function (option) buffer_append :: "'a grow_fn \<Rightarrow> string \<Rightarrow> 'a char_buffer_scheme \<Rightarrow> 'a char_buffer_scheme outcome option" where
  "buffer_append grow s b =
     (if s = [] then Some (Ok b)
      else case append_round grow s b of
        Ok r \<Rightarrow> buffer_append grow (drop (fst r) s) (snd r)
      | Throw \<Rightarrow> Some Throw | Ub u \<Rightarrow> Some (Ub u) | Abort \<Rightarrow> Some Abort | Spin \<Rightarrow> Some Spin)"

text \<open>Writers append strings and push single characters through the output iterator.\<close>

datatype write_op = Append string | Push char

fun op_text :: "write_op \<Rightarrow> string" where
  "op_text (Append s) = s" | "op_text (Push c) = [c]"

fun do_write :: "'a grow_fn \<Rightarrow> write_op \<Rightarrow> 'a char_buffer_scheme \<Rightarrow> 'a char_buffer_scheme outcome option" where
  "do_write grow (Append s) b = buffer_append grow s b"
| "do_write grow (Push c) b = Some (buffer_push_back grow c b)"

fun run_writes :: "'a grow_fn \<Rightarrow> write_op list \<Rightarrow> 'a char_buffer_scheme \<Rightarrow> 'a char_buffer_scheme outcome option" where
  "run_writes grow [] b = Some (Ok b)"
| "run_writes grow (w # ws) b =
     (case do_write grow w b of
        Some (Ok b) \<Rightarrow> run_writes grow ws b
      | r \<Rightarrow> r)"

definition written_text :: "write_op list \<Rightarrow> string" where
  "written_text ws = concat (map op_text ws)"

lemma written_text_simps [simp]: "written_text [] = []" "written_text (w # ws) = op_text w @ written_text ws"
  by (simp_all add: written_text_def)

section \<open>The contract of growing\<close>

definition stored :: "string \<Rightarrow> 'a char_buffer_scheme \<Rightarrow> 'a char_buffer_scheme" where
  "stored s b = b\<lparr>bf_mem := take (bf_size b) (bf_mem b) @ s @ drop (bf_size b + length s) (bf_mem b), bf_size := bf_size b + length s\<rparr>"

text \<open>
  The comment of \<^verbatim>\<open>try_reserve\<close> as a contract: growing keeps what has been written and leaves space for at least one
  more character, whether by more memory or by flushing. \<open>put s\<close> is what writing \<open>s\<close> means for the contents, and
  growing may throw only when there is not \<open>enough\<close> memory for the capacity asked for.
\<close>

locale growing_buffer =
  fixes grow :: "nat \<Rightarrow> 'a char_buffer_scheme \<Rightarrow> 'a char_buffer_scheme outcome"
    and good :: "'a char_buffer_scheme \<Rightarrow> bool"
    and contents :: "'a char_buffer_scheme \<Rightarrow> 'm"
    and put :: "string \<Rightarrow> 'm \<Rightarrow> 'm"
    and enough :: "nat \<Rightarrow> bool"
  assumes put_Nil: "put [] m = m"
    and put_append: "put (s @ t) m = put t (put s m)"
    and good_memory: "good b \<Longrightarrow> bf_size b \<le> bf_capacity b \<and> bf_capacity b = length (bf_mem b) \<and> bf_capacity b < 2 ^ 63"
    and grow_room: "good b \<Longrightarrow> bf_capacity b < n \<Longrightarrow> n < 2 ^ 64 \<Longrightarrow>
      (grow n b = Throw \<and> \<not> enough n) \<or>
      (\<exists>b'. grow n b = Ok b' \<and> good b' \<and> contents b' = contents b \<and> bf_size b' < bf_capacity b' \<and> bf_size b' \<le> bf_size b)"
    and store: "good b \<Longrightarrow> bf_size b + length s \<le> bf_capacity b \<Longrightarrow> good (stored s b) \<and> contents (stored s b) = put s (contents b)"
begin

lemma reserve_room:
  assumes "good b" "bf_size b < n" "n < 2 ^ 64"
  shows "(try_reserve grow n b = Throw \<and> \<not> enough n) \<or>
    (\<exists>b'. try_reserve grow n b = Ok b' \<and> good b' \<and> contents b' = contents b \<and> bf_size b' < bf_capacity b' \<and> bf_size b' \<le> bf_size b)"
proof (cases "bf_capacity b < n")
  case True
  with grow_room [OF assms(1) True assms(3)] show ?thesis by (simp add: try_reserve_def)
next
  case False
  with assms show ?thesis by (auto simp: try_reserve_def)
qed

lemma copy_stored:
  assumes "good b" "bf_size b + length s \<le> bf_capacity b"
  shows "copy_to (bf_size b) s (bf_mem b) = Ok (bf_mem (stored s b))" "plus_size (bf_size b) (length s) = bf_size (stored s b)"
  using good_memory [OF assms(1)] assms(2) by (simp_all add: copy_to_def stored_def plus_size_def)

lemma stored_update:
  "good b \<Longrightarrow> bf_size b + length s \<le> bf_capacity b \<Longrightarrow>
   b\<lparr>bf_mem := bf_mem (stored s b), bf_size := plus_size (bf_size b) (length s)\<rparr> = stored s b"
  using copy_stored(2) [of b s] by (simp add: stored_def)

lemma push_back_puts:
  assumes "good b"
  shows "(buffer_push_back grow c b = Throw \<and> \<not> enough (bf_size b + 1)) \<or>
    (\<exists>b'. buffer_push_back grow c b = Ok b' \<and> good b' \<and> contents b' = put [c] (contents b) \<and> bf_size b' \<le> bf_size b + 1)"
proof -
  have n: "plus_size (bf_size b) (Suc 0) = Suc (bf_size b)" using good_memory [OF assms] by (simp add: plus_size_def)
  have "bf_size b + 1 < 2 ^ 64" using good_memory [OF assms] by simp
  from reserve_room [OF assms less_add_one this] show ?thesis
  proof (elim disjE exE conjE)
    fix b' assume b': "try_reserve grow (bf_size b + 1) b = Ok b'" "good b'" "contents b' = contents b"
      "bf_size b' < bf_capacity b'" "bf_size b' \<le> bf_size b"
    have room: "bf_size b' + length [c] \<le> bf_capacity b'" using b' by simp
    have "buffer_push_back grow c b = Ok (stored [c] b')"
      using b' copy_stored(1) [OF b'(2) room] stored_update [OF b'(2) room] by (simp add: buffer_push_back_def n)
    then show ?thesis using store [OF b'(2) room] b' by (simp add: stored_def)
  qed (simp add: buffer_push_back_def n)
qed

lemma append_round_puts:
  assumes "good b" "s \<noteq> []" "length s < 2 ^ 63"
  shows "(append_round grow s b = Throw \<and> \<not> enough (bf_size b + length s)) \<or>
    (\<exists>k b'. append_round grow s b = Ok (k, b') \<and> 0 < k \<and> k \<le> length s \<and> good b' \<and>
       contents b' = put (take k s) (contents b) \<and> bf_size b' \<le> bf_size b + k)"
proof -
  have n: "plus_size (bf_size b) (length s) = bf_size b + length s" and l: "bf_size b + length s < 2 ^ 64"
    using good_memory [OF assms(1)] assms(3) by (simp_all add: plus_size_def)
  have "bf_size b < bf_size b + length s" using assms(2) by simp
  from reserve_room [OF assms(1) this l] show ?thesis
  proof (elim disjE exE conjE)
    fix b' assume b': "try_reserve grow (bf_size b + length s) b = Ok b'" "good b'" "contents b' = contents b"
      "bf_size b' < bf_capacity b'" "bf_size b' \<le> bf_size b"
    have free: "minus_size (bf_capacity b') (bf_size b') = bf_capacity b' - bf_size b'"
      using good_memory [OF b'(2)] by (intro minus_size_le) simp_all
    define k where "k = (if bf_capacity b' - bf_size b' < length s then bf_capacity b' - bf_size b' else length s)"
    have k: "0 < k" "k \<le> length s" "length (take k s) = k" using b'(4) assms(2) by (auto simp: k_def)
    have room: "bf_size b' + length (take k s) \<le> bf_capacity b'" using b'(4) by (auto simp: k_def)
    have "append_round grow s b = Ok (k, stored (take k s) b')"
      using stored_update [OF b'(2) room]
      by (simp only: append_round_def n b'(1) bind_outcome.simps Let_def free k_def [symmetric] copy_stored(1) [OF b'(2) room] k(3))
    then show ?thesis using store [OF b'(2) room] b' k by (auto simp: stored_def)
  qed (simp add: append_round_def n)
qed

text \<open>Appending returns, and has written its text unless memory ran out.\<close>

lemma append_puts:
  assumes "good b" "length s < 2 ^ 63"
  shows "(buffer_append grow s b = Some Throw \<and> (\<exists>n \<le> bf_size b + length s. \<not> enough n)) \<or>
    (\<exists>b'. buffer_append grow s b = Some (Ok b') \<and> good b' \<and> contents b' = put s (contents b) \<and> bf_size b' \<le> bf_size b + length s)"
  using assms
proof (induction "length s" arbitrary: s b rule: less_induct)
  case less
  show ?case
  proof (cases "s = []")
    case True
    with less.prems show ?thesis by (subst (1 2) buffer_append.simps) (simp add: put_Nil)
  next
    case False
    from append_round_puts [OF less.prems(1) False less.prems(2)] show ?thesis
    proof (elim disjE exE conjE)
      fix k b1 assume r: "append_round grow s b = Ok (k, b1)" "0 < k" "k \<le> length s" "good b1"
        "contents b1 = put (take k s) (contents b)" "bf_size b1 \<le> bf_size b + k"
      have e: "buffer_append grow s b = buffer_append grow (drop k s) b1"
        using False r(1) by (subst buffer_append.simps) simp
      have p: "put (drop k s) (contents b1) = put s (contents b)"
        using put_append [of "take k s" "drop k s" "contents b"] r(5) by simp
      have "length (drop k s) < length s" "length (drop k s) < 2 ^ 63" using r(2,3) less.prems(2) False by auto
      from less.hyps [OF this(1) r(4) this(2)] show ?thesis
      proof (elim disjE exE conjE)
        fix n assume "buffer_append grow (drop k s) b1 = Some Throw" "n \<le> bf_size b1 + length (drop k s)" "\<not> enough n"
        moreover have "bf_size b1 + length (drop k s) \<le> bf_size b + length s" using r(3,6) by simp
        ultimately show ?thesis using e by (intro disjI1 conjI exI [of _ n]) auto
      next
        fix b' assume "buffer_append grow (drop k s) b1 = Some (Ok b')" "good b'"
          "contents b' = put (drop k s) (contents b1)" "bf_size b' \<le> bf_size b1 + length (drop k s)"
        then show ?thesis using e p r(3,6) by (intro disjI2 exI [of _ b']) auto
      qed
    next
      assume "append_round grow s b = Throw" "\<not> enough (bf_size b + length s)"
      then show ?thesis using False by (subst (1 2) buffer_append.simps) auto
    qed
  qed
qed

lemma do_write_puts:
  assumes "good b" "length (op_text w) < 2 ^ 63"
  shows "(do_write grow w b = Some Throw \<and> (\<exists>n \<le> bf_size b + length (op_text w). \<not> enough n)) \<or>
    (\<exists>b'. do_write grow w b = Some (Ok b') \<and> good b' \<and> contents b' = put (op_text w) (contents b) \<and>
       bf_size b' \<le> bf_size b + length (op_text w))"
proof (cases w)
  case (Append s)
  with append_puts [of b s] assms show ?thesis by simp
next
  case (Push c)
  with push_back_puts [OF assms(1), of c] show ?thesis by auto
qed

lemma run_writes_puts:
  assumes "good b" "\<forall>w\<in>set ws. length (op_text w) < 2 ^ 63"
  shows "(run_writes grow ws b = Some Throw \<and> (\<exists>n \<le> bf_size b + length (written_text ws). \<not> enough n)) \<or>
    (\<exists>b'. run_writes grow ws b = Some (Ok b') \<and> good b' \<and> contents b' = put (written_text ws) (contents b))"
  using assms
proof (induction ws arbitrary: b)
  case Nil
  then show ?case by (simp add: put_Nil)
next
  case (Cons w ws)
  from Cons.prems have "length (op_text w) < 2 ^ 63" by simp
  from do_write_puts [OF Cons.prems(1) this] show ?case
  proof (elim disjE exE conjE)
    fix b1 assume b1: "do_write grow w b = Some (Ok b1)" "good b1" "contents b1 = put (op_text w) (contents b)"
      "bf_size b1 \<le> bf_size b + length (op_text w)"
    have ws: "\<forall>w\<in>set ws. length (op_text w) < 2 ^ 63" using Cons.prems(2) by simp
    from Cons.IH [OF b1(2) ws] show ?thesis
    proof (elim disjE exE conjE)
      fix n assume "run_writes grow ws b1 = Some Throw" "n \<le> bf_size b1 + length (written_text ws)" "\<not> enough n"
      then show ?thesis using b1 by (intro disjI1 conjI exI [of _ n]) auto
    qed (use b1 put_append in auto)
  next
    fix n assume "do_write grow w b = Some Throw" "n \<le> bf_size b + length (op_text w)" "\<not> enough n"
    then show ?thesis by (intro disjI1 conjI exI [of _ n]) auto
  qed
qed

end

section \<open>The memory buffer\<close>

text \<open>
  \<^verbatim>\<open>basic_memory_buffer\<close>: the array in the object, in use while the pointer refers to it (\<open>mb_inline\<close>), its characters otherwise
  (\<open>mb_store\<close>), and the sizes of the blocks the buffer has allocated and not released. The allocator throws when
  it has no memory; the characters of a new block are arbitrary.
\<close>

record memory_buffer = char_buffer +
  mb_inline :: bool
  mb_store :: string
  mb_blocks :: "nat list"

record alloc_env =
  available :: "nat \<Rightarrow> bool"
  fresh :: "nat \<Rightarrow> char"

definition max_size :: nat where
  "max_size = 2 ^ 63 - 1"

definition allocate :: "alloc_env \<Rightarrow> nat \<Rightarrow> string outcome" where
  "allocate E n = (if n > max_size \<or> \<not> available E n then Throw else Ok (map (fresh E) [0..<n]))"

definition mb_new :: "string \<Rightarrow> memory_buffer" where
  "mb_new junk = \<lparr>bf_mem = junk, bf_size = 0, bf_capacity = length junk, mb_inline = True, mb_store = [], mb_blocks = []\<rparr>"

definition inline_store :: "memory_buffer \<Rightarrow> string" where
  "inline_store b = (if mb_inline b then bf_mem b else mb_store b)"

definition mb_release :: "nat \<Rightarrow> memory_buffer \<Rightarrow> memory_buffer outcome" where
  "mb_release n b = (if n \<in> set (mb_blocks b) then Ok (b\<lparr>mb_blocks := remove1 n (mb_blocks b)\<rparr>) else Ub BadFree)"

definition mb_deallocate :: "memory_buffer \<Rightarrow> memory_buffer outcome" where
  "mb_deallocate b = (if \<not> mb_inline b then mb_release (bf_capacity b) b else Ok b)"

text \<open>The written part of the array; the buffer trusts its size.\<close>

definition mb_data :: "memory_buffer \<Rightarrow> string outcome" where
  "mb_data b = (if bf_size b \<le> length (bf_mem b) then Ok (take (bf_size b) (bf_mem b)) else Ub Overread)"

definition mb_new_capacity :: "nat \<Rightarrow> nat \<Rightarrow> nat" where
  "mb_new_capacity old_capacity n =
     (let new_capacity = plus_size old_capacity (old_capacity div 2) in
      if n > new_capacity then n
      else if new_capacity > max_size then (if n > max_size then n else max_size)
      else new_capacity)"

definition mb_grow :: "alloc_env \<Rightarrow> nat \<Rightarrow> memory_buffer \<Rightarrow> memory_buffer outcome" where
  "mb_grow E n b =
     (let new_capacity = mb_new_capacity (bf_capacity b) n in
      bind_outcome (allocate E new_capacity) (\<lambda>p.
      bind_outcome (mb_data b) (\<lambda>d.
      bind_outcome (copy_to 0 d p) (\<lambda>p.
        let b1 = (buffer_set p new_capacity b)\<lparr>mb_inline := False, mb_store := inline_store b, mb_blocks := new_capacity # mb_blocks b\<rparr>
        in if \<not> mb_inline b then mb_release (bf_capacity b) b1 else Ok b1))))"

text \<open>
  Moving \<open>other\<close> into a buffer that owns no block: the text is copied when it is in the object, and the block
  changes hands otherwise. The size of \<open>other\<close> stays.
\<close>

definition mb_move :: "alloc_env \<Rightarrow> memory_buffer \<Rightarrow> memory_buffer \<Rightarrow> (memory_buffer \<times> memory_buffer) outcome" where
  "mb_move E this other =
     bind_outcome
       (if mb_inline other then
          bind_outcome (mb_data other) (\<lambda>d. bind_outcome (copy_to 0 d (inline_store this)) (\<lambda>p.
            Ok ((buffer_set p (bf_capacity other) this)\<lparr>mb_inline := True\<rparr>, other)))
        else Ok ((buffer_set (bf_mem other) (bf_capacity other) this)
                   \<lparr>mb_inline := False, mb_store := inline_store this, mb_blocks := mb_blocks this @ mb_blocks other\<rparr>,
                 (buffer_set (mb_store other) 0 other)\<lparr>mb_inline := True, mb_blocks := []\<rparr>))
       (\<lambda>(this, o1). bind_outcome (try_resize (mb_grow E) (bf_size other) this) (\<lambda>this. Ok (this, o1)))"

definition mb_assign :: "alloc_env \<Rightarrow> memory_buffer \<Rightarrow> memory_buffer \<Rightarrow> (memory_buffer \<times> memory_buffer) outcome" where
  "mb_assign E this other = bind_outcome (mb_deallocate this) (\<lambda>this. mb_move E this other)"

text \<open>A buffer that is used: its capacity is the length of its array, and it owns exactly the block it points to.\<close>

definition mb_good :: "memory_buffer \<Rightarrow> bool" where
  "mb_good b \<longleftrightarrow> bf_size b \<le> bf_capacity b \<and> bf_capacity b = length (bf_mem b) \<and> bf_capacity b \<le> max_size \<and>
     mb_blocks b = (if mb_inline b then [] else [bf_capacity b])"

definition mb_text :: "memory_buffer \<Rightarrow> string" where
  "mb_text b = take (bf_size b) (bf_mem b)"

lemma mb_new_capacity_bounds:
  assumes "c \<le> max_size"
  shows "n \<le> mb_new_capacity c n" "n \<le> max_size \<Longrightarrow> mb_new_capacity c n \<le> max_size"
    "mb_new_capacity c n < max_size \<Longrightarrow> c + c div 2 \<le> mb_new_capacity c n"
proof -
  have "c + c div 2 < 2 ^ 64" using assms by (simp add: max_size_def)
  then show "n \<le> mb_new_capacity c n" "n \<le> max_size \<Longrightarrow> mb_new_capacity c n \<le> max_size"
    "mb_new_capacity c n < max_size \<Longrightarrow> c + c div 2 \<le> mb_new_capacity c n"
    by (auto simp: mb_new_capacity_def Let_def plus_size_def)
qed

lemma mb_grow_cases:
  assumes "mb_good b" "bf_capacity b < n"
  shows "(mb_grow E n b = Throw \<and> (\<not> (\<forall>k. available E k) \<or> max_size < n)) \<or>
    (\<exists>b'. mb_grow E n b = Ok b' \<and> mb_good b' \<and> mb_text b' = mb_text b \<and> bf_size b' < bf_capacity b' \<and> bf_size b' \<le> bf_size b)"
proof -
  let ?c = "mb_new_capacity (bf_capacity b) n"
  have c: "bf_capacity b \<le> max_size" using assms(1) by (simp add: mb_good_def)
  note bounds = mb_new_capacity_bounds [OF c]
  show ?thesis
  proof (cases "?c > max_size \<or> \<not> available E ?c")
    case True
    then have "mb_grow E n b = Throw" by (simp add: mb_grow_def allocate_def Let_def)
    moreover have "\<not> (\<forall>k. available E k) \<or> max_size < n" using True bounds(2) [of n] by force
    ultimately show ?thesis by blast
  next
    case False
    have lt: "bf_capacity b < ?c" using assms(2) bounds(1) [of n] by simp
    show ?thesis using False lt assms(1)
      by (auto simp: mb_grow_def allocate_def Let_def mb_data_def copy_to_def mb_good_def mb_text_def mb_release_def buffer_set_def)
  qed
qed

interpretation mb: growing_buffer "mb_grow E" mb_good mb_text "\<lambda>s m. m @ s" "\<lambda>n. (\<forall>k. available E k) \<and> n \<le> max_size" for E
proof (unfold_locales, goal_cases)
  case (3 b)
  then show ?case by (auto simp: mb_good_def max_size_def)
next
  case (4 b n)
  then show ?case using mb_grow_cases [of b n E] by auto
next
  case (5 b s)
  then show ?case by (auto simp: mb_good_def mb_text_def stored_def)
qed simp_all

lemma mb_new_good: "length junk \<le> max_size \<Longrightarrow> mb_good (mb_new junk) \<and> mb_text (mb_new junk) = []"
  by (simp add: mb_good_def mb_new_def mb_text_def)

text \<open>C19. A memory buffer holds exactly what has been written to it, however often it grows, and owns one block at most; writing
  always returns, and throws only when memory runs out.\<close>

theorem memory_buffer_holds_text:
  assumes "mb_good b" "\<forall>w\<in>set ws. length (op_text w) < 2 ^ 63"
  shows "(\<exists>b'. run_writes (mb_grow E) ws b = Some (Ok b') \<and> mb_good b' \<and> mb_text b' = mb_text b @ written_text ws) \<or>
    (run_writes (mb_grow E) ws b = Some Throw \<and> (\<not> (\<forall>n. available E n) \<or> max_size < bf_size b + length (written_text ws)))"
proof -
  consider "run_writes (mb_grow E) ws b = Some Throw" "\<exists>n \<le> bf_size b + length (written_text ws). \<not> ((\<forall>k. available E k) \<and> n \<le> max_size)"
    | b' where "run_writes (mb_grow E) ws b = Some (Ok b')" "mb_good b'" "mb_text b' = mb_text b @ written_text ws"
    using mb.run_writes_puts [OF assms, of E] by blast
  then show ?thesis by cases force+
qed

definition demo_buffer :: memory_buffer where
  "demo_buffer = mb_new (replicate 250 (CHR 0x00))"

definition demo_alloc :: alloc_env where
  "demo_alloc = \<lparr>available = \<lambda>n. True, fresh = \<lambda>i. CHR 0x00\<rparr>"

lemma demo_buffer_good: "mb_good demo_buffer" "mb_text demo_buffer = []" "bf_size demo_buffer = 0"
  using mb_new_good [of "replicate 250 (CHR 0x00)"] by (simp_all add: demo_buffer_def max_size_def mb_new_def)

theorem memory_buffer_holds_text_witness:
  "\<exists>b'. run_writes (mb_grow demo_alloc) [Append (replicate 300 (CHR ''a'')), Push (CHR ''7'')] demo_buffer = Some (Ok b') \<and>
     mb_text b' = replicate 300 (CHR ''a'') @ ''7''"
proof -
  let ?ws = "[Append (replicate 300 (CHR ''a'')), Push (CHR ''7'')]"
  have "\<forall>w\<in>set ?ws. length (op_text w) < 2 ^ 63" by simp
  moreover have "\<forall>n. available demo_alloc n" by (simp add: demo_alloc_def)
  moreover have "\<not> max_size < bf_size demo_buffer + length (written_text ?ws)" by (simp add: demo_buffer_good(3) max_size_def)
  moreover have "written_text ?ws = replicate 300 (CHR ''a'') @ ''7''" by simp
  ultimately show ?thesis
    using memory_buffer_holds_text [OF demo_buffer_good(1), of ?ws demo_alloc] demo_buffer_good(2) by auto
qed

text \<open>Growing by half at least, so that repeated growing is rare.\<close>

lemma mb_growth:
  "mb_good b \<Longrightarrow> bf_capacity b < n \<Longrightarrow> mb_grow E n b = Ok b' \<Longrightarrow>
   n \<le> bf_capacity b' \<and> (bf_capacity b' < max_size \<longrightarrow> bf_capacity b + bf_capacity b div 2 \<le> bf_capacity b')"
  using mb_new_capacity_bounds [of "bf_capacity b" n]
  by (auto simp: mb_grow_def Let_def mb_good_def mb_release_def buffer_set_def bind_outcome_Ok_iff split: if_splits)

text \<open>Destruction releases the block the buffer owns.\<close>

lemma mb_destroy: "mb_good b \<Longrightarrow> \<exists>b'. mb_deallocate b = Ok b' \<and> mb_blocks b' = []"
  by (auto simp: mb_deallocate_def mb_release_def mb_good_def)

text \<open>Moving hands the text over; the other buffer owns no block any more.\<close>

lemma mb_move_text:
  assumes "mb_good other" "mb_blocks this = []" "mb_inline other \<Longrightarrow> length (inline_store this) = bf_capacity other"
  shows "\<exists>this' other'. mb_move E this other = Ok (this', other') \<and> mb_good this' \<and> mb_text this' = mb_text other \<and> mb_blocks other' = []"
  using assms by (cases "mb_inline other")
    (auto simp: mb_move_def mb_data_def mb_good_def mb_text_def copy_to_def try_resize_def try_reserve_def buffer_set_def)

lemma mb_assign_text:
  assumes "mb_good other" "mb_good this" "mb_inline other \<Longrightarrow> length (inline_store this) = bf_capacity other"
  shows "\<exists>this' other'. mb_assign E this other = Ok (this', other') \<and> mb_good this' \<and> mb_text this' = mb_text other \<and> mb_blocks other' = []"
proof -
  obtain t where t: "mb_deallocate this = Ok t" "mb_blocks t = []" using mb_destroy [OF assms(2)] by blast
  have "inline_store t = inline_store this" using t(1) by (auto simp: mb_deallocate_def mb_release_def inline_store_def split: if_splits)
  with mb_move_text [OF assms(1) t(2)] assms(3) show ?thesis by (simp add: mb_assign_def t(1))
qed

text \<open>
  A buffer that has been moved from keeps its size with capacity 0. When its text was longer than the array in the
  object, the next character makes it grow and copy that many characters out of the array.
\<close>

lemma moved_from_overreads:
  assumes "mb_good other" "\<not> mb_inline other" "length (mb_store other) < bf_size other" "bf_size other < max_size" "\<forall>k. available E k"
  shows "\<exists>this' other'. mb_move E this other = Ok (this', other') \<and> buffer_push_back (mb_grow E) c other' = Ub Overread"
proof -
  let ?o = "(buffer_set (mb_store other) 0 other)\<lparr>mb_inline := True, mb_blocks := []\<rparr>"
  have "mb_grow E (bf_size other + 1) ?o = Ub Overread"
    using assms(3-5) by (simp add: mb_grow_def Let_def mb_new_capacity_def plus_size_def allocate_def mb_data_def buffer_set_def)
  then have "buffer_push_back (mb_grow E) c ?o = Ub Overread"
    using assms(4) by (simp add: buffer_push_back_def try_reserve_def buffer_set_def plus_size_def max_size_def)
  moreover have "\<exists>this'. mb_move E this other = Ok (this', ?o)"
    using assms(1,2) by (auto simp: mb_move_def mb_good_def try_resize_def try_reserve_def buffer_set_def)
  ultimately show ?thesis by blast
qed

section \<open>Buffers that flush\<close>

text \<open>
  The traits of an iterator buffer: how many of the flushed characters are still within the limit. Counts are not
  wrapped, \<open>2 ^ 64\<close> characters are never written.
\<close>

datatype buffer_traits = Unlimited | Limited nat nat

fun traits_limit :: "nat \<Rightarrow> buffer_traits \<Rightarrow> nat \<times> buffer_traits" where
  "traits_limit sz Unlimited = (sz, Unlimited)"
| "traits_limit sz (Limited cnt lim) =
     (let n = (if lim > cnt then lim - cnt else 0) in (if sz < n then sz else n, Limited (cnt + sz) lim))"

fun traits_count :: "buffer_traits \<Rightarrow> nat" where
  "traits_count Unlimited = 0" | "traits_count (Limited cnt lim) = cnt"

text \<open>The buffer for an arbitrary output iterator: \<open>ib_out\<close> is what has been written through the iterator.\<close>

record iter_buffer = char_buffer +
  ib_out :: string
  ib_traits :: buffer_traits

definition fmt_buffer_size :: nat where
  "fmt_buffer_size = 256"

definition ib_flush :: "iter_buffer \<Rightarrow> iter_buffer" where
  "ib_flush b =
     (let sz = bf_size b; b = buffer_clear b; (k, tr) = traits_limit sz (ib_traits b)
      in b\<lparr>ib_traits := tr, ib_out := ib_out b @ take k (bf_mem b)\<rparr>)"

definition ib_grow :: "nat \<Rightarrow> iter_buffer \<Rightarrow> iter_buffer outcome" where
  "ib_grow n b = Ok (if bf_size b = fmt_buffer_size then ib_flush b else b)"

definition ib_new :: "string \<Rightarrow> buffer_traits \<Rightarrow> iter_buffer" where
  "ib_new junk tr = \<lparr>bf_mem = junk, bf_size = 0, bf_capacity = fmt_buffer_size, ib_out = [], ib_traits = tr\<rparr>"

definition ib_count :: "iter_buffer \<Rightarrow> nat" where
  "ib_count b = traits_count (ib_traits b) + bf_size b"

text \<open>
  The buffer for a pointer with a limit writes into the target (\<open>pb_direct\<close>), and into its own array (of which \<open>pb_data\<close>
  holds the characters until then) once the target is full. \<open>pb_dest\<close> is the target after that.
\<close>

record ptr_buffer = char_buffer +
  pb_dest :: string
  pb_data :: string
  pb_pos :: nat
  pb_direct :: bool
  pb_traits :: buffer_traits

definition pb_flush :: "ptr_buffer \<Rightarrow> ptr_buffer" where
  "pb_flush b =
     (let (n, tr) = traits_limit (bf_size b) (pb_traits b);
          b = b\<lparr>pb_traits := tr\<rparr>;
          b = (if pb_direct b
               then (buffer_set (pb_data b) fmt_buffer_size b)\<lparr>pb_pos := pb_pos b + n, pb_dest := bf_mem b, pb_direct := False\<rparr>
               else b)
      in buffer_clear b)"

definition pb_grow :: "nat \<Rightarrow> ptr_buffer \<Rightarrow> ptr_buffer outcome" where
  "pb_grow n b = Ok (if bf_size b = bf_capacity b then pb_flush b else b)"

text \<open>The target is \<open>dest\<close>, as long as the limit.\<close>

definition pb_new :: "string \<Rightarrow> string \<Rightarrow> ptr_buffer" where
  "pb_new junk dest =
     \<lparr>bf_mem = dest, bf_size = 0, bf_capacity = length dest, pb_dest = [], pb_data = junk, pb_pos = 0, pb_direct = True,
      pb_traits = Limited 0 (length dest)\<rparr>"

definition pb_count :: "ptr_buffer \<Rightarrow> nat" where
  "pb_count b = traits_count (pb_traits b) + bf_size b"

text \<open>\<^verbatim>\<open>vformat_to_n\<close> for a pointer: the target, how far it has been written, and the untruncated size.\<close>

definition write_to_n :: "string \<Rightarrow> string \<Rightarrow> write_op list \<Rightarrow> (string \<times> nat \<times> nat) outcome option" where
  "write_to_n junk dest ws =
     map_option (\<lambda>r. bind_outcome r (\<lambda>b. let b = pb_flush b in Ok (pb_dest b, pb_pos b, pb_count b)))
       (run_writes pb_grow ws (pb_new junk dest))"

text \<open>The buffer that only counts.\<close>

record counting_buffer = char_buffer +
  cb_count :: nat

definition cb_grow :: "nat \<Rightarrow> counting_buffer \<Rightarrow> counting_buffer outcome" where
  "cb_grow n b = Ok (if bf_size b \<noteq> fmt_buffer_size then b else buffer_clear (b\<lparr>cb_count := cb_count b + bf_size b\<rparr>))"

definition cb_new :: "string \<Rightarrow> counting_buffer" where
  "cb_new junk = \<lparr>bf_mem = junk, bf_size = 0, bf_capacity = fmt_buffer_size, cb_count = 0\<rparr>"

definition formatted_size :: "string \<Rightarrow> write_op list \<Rightarrow> nat outcome option" where
  "formatted_size junk ws =
     map_option (\<lambda>r. bind_outcome r (\<lambda>b. Ok (cb_count b + bf_size b))) (run_writes cb_grow ws (cb_new junk))"

section \<open>They keep the contract\<close>

definition cb_good :: "counting_buffer \<Rightarrow> bool" where
  "cb_good b \<longleftrightarrow> bf_size b \<le> fmt_buffer_size \<and> bf_capacity b = fmt_buffer_size \<and> length (bf_mem b) = fmt_buffer_size"

interpretation cb: growing_buffer cb_grow cb_good "\<lambda>b. cb_count b + bf_size b" "\<lambda>s m. m + length s" "\<lambda>n. True"
  by unfold_locales (auto simp: cb_good_def cb_grow_def fmt_buffer_size_def stored_def buffer_clear_def)

fun within :: "buffer_traits \<Rightarrow> string \<Rightarrow> string" where
  "within Unlimited s = s" | "within (Limited cnt lim) s = take (lim - cnt) s"

text \<open>What an iterator has been given and will be given of the characters in the buffer.\<close>

definition ib_text :: "iter_buffer \<Rightarrow> string" where
  "ib_text b = ib_out b @ within (ib_traits b) (take (bf_size b) (bf_mem b))"

definition pb_good :: "ptr_buffer \<Rightarrow> bool" where
  "pb_good b \<longleftrightarrow> bf_size b \<le> bf_capacity b \<and> bf_capacity b = length (bf_mem b) \<and> bf_capacity b < 2 ^ 63 \<and>
     length (pb_data b) = fmt_buffer_size \<and>
     (if pb_direct b then pb_traits b = Limited 0 (bf_capacity b) \<and> pb_pos b = 0
      else \<exists>cnt. pb_traits b = Limited cnt (length (pb_dest b)) \<and> length (pb_dest b) \<le> cnt \<and> bf_capacity b = fmt_buffer_size \<and>
        pb_pos b = length (pb_dest b))"

text \<open>The written part of the target, its rest, and the number of characters so far.\<close>

definition pb_view :: "ptr_buffer \<Rightarrow> string \<times> string \<times> nat" where
  "pb_view b =
     (if pb_direct b then (take (bf_size b) (bf_mem b), drop (bf_size b) (bf_mem b), bf_size b)
      else (pb_dest b, [], pb_count b))"

fun view_put :: "string \<Rightarrow> string \<times> string \<times> nat \<Rightarrow> string \<times> string \<times> nat" where
  "view_put s (t, rest, n) = (t @ take (length rest) s, drop (length s) rest, n + length s)"

lemma view_put_append: "view_put (s @ t) m = view_put t (view_put s m)"
  by (cases m) (simp add: add.commute)

interpretation pb: growing_buffer pb_grow pb_good pb_view view_put "\<lambda>n. True"
proof (unfold_locales, goal_cases)
  case (1 m)
  then show ?case by (cases m) simp
next
  case (2 s t m)
  then show ?case by (rule view_put_append)
next
  case (3 b)
  then show ?case by (simp add: pb_good_def)
next
  case (4 b n)
  then show ?case
    by (cases "bf_size b = bf_capacity b")
      (auto simp: pb_grow_def pb_flush_def pb_good_def pb_view_def pb_count_def buffer_clear_def buffer_set_def fmt_buffer_size_def Let_def split: if_splits)
next
  case (5 b s)
  then show ?case
    by (auto simp: pb_good_def pb_view_def pb_count_def stored_def add.commute split: if_splits)
qed

fun ib_put :: "string \<Rightarrow> string \<times> buffer_traits \<Rightarrow> string \<times> buffer_traits" where
  "ib_put s (t, Unlimited) = (t @ s, Unlimited)"
| "ib_put s (t, Limited n lim) = (t @ take (lim - n) s, Limited (n + length s) lim)"

fun count_in :: "nat \<Rightarrow> buffer_traits \<Rightarrow> buffer_traits" where
  "count_in n Unlimited = Unlimited" | "count_in n (Limited cnt lim) = Limited (cnt + n) lim"

definition ib_good :: "iter_buffer \<Rightarrow> bool" where
  "ib_good b \<longleftrightarrow> bf_size b \<le> fmt_buffer_size \<and> bf_capacity b = fmt_buffer_size \<and> length (bf_mem b) = fmt_buffer_size"

definition ib_view :: "iter_buffer \<Rightarrow> string \<times> buffer_traits" where
  "ib_view b = (ib_text b, count_in (bf_size b) (ib_traits b))"

lemma ib_put_append: "ib_put (s @ t) m = ib_put t (ib_put s m)"
  by (cases "(s, m)" rule: ib_put.cases) (simp_all add: add.assoc)

lemma ib_flush_view: "ib_good b \<Longrightarrow> ib_good (ib_flush b) \<and> ib_view (ib_flush b) = ib_view b \<and> bf_size (ib_flush b) = 0"
  by (cases "ib_traits b") (auto simp: ib_good_def ib_flush_def ib_view_def ib_text_def buffer_clear_def Let_def min_def)

lemma ib_stored_view:
  assumes "ib_good b" "bf_size b + length s \<le> bf_capacity b"
  shows "ib_good (stored s b) \<and> ib_view (stored s b) = ib_put s (ib_view b)"
  using assms by (cases "ib_traits b") (auto simp: ib_good_def ib_view_def ib_text_def stored_def)

interpretation ib: growing_buffer ib_grow ib_good ib_view ib_put "\<lambda>n. True"
proof (unfold_locales, goal_cases)
  case (1 m)
  then show ?case by (cases m; cases "snd m") auto
next
  case (2 s t m)
  then show ?case by (rule ib_put_append)
next
  case (3 b)
  then show ?case by (simp add: ib_good_def fmt_buffer_size_def)
next
  case (4 b n)
  show ?case
  proof (cases "bf_size b = fmt_buffer_size")
    case True
    with ib_flush_view [OF 4(1)] show ?thesis by (auto simp: ib_grow_def ib_good_def fmt_buffer_size_def)
  next
    case False
    with 4 show ?thesis by (auto simp: ib_grow_def ib_good_def)
  qed
next
  case (5 b s)
  then show ?case by (rule ib_stored_view)
qed

lemma write_to_n_exact:
  assumes "length dest < 2 ^ 63" "length junk = 256" "\<forall>w\<in>set ws. length (op_text w) < 2 ^ 63"
  shows "write_to_n junk dest ws =
    Some (Ok (take (length dest) (written_text ws) @ drop (length (written_text ws)) dest,
      min (length (written_text ws)) (length dest), length (written_text ws)))"
proof -
  have new: "pb_good (pb_new junk dest)" "pb_view (pb_new junk dest) = ([], dest, 0)"
    using assms(1,2) by (auto simp: pb_good_def pb_new_def pb_view_def fmt_buffer_size_def)
  obtain b where b: "run_writes pb_grow ws (pb_new junk dest) = Some (Ok b)" "pb_good b"
    "pb_view b = view_put (written_text ws) ([], dest, 0)"
    using pb.run_writes_puts [OF new(1) assms(3)] new(2) by auto
  show ?thesis
  proof (cases "pb_direct b")
    case True
    with b(2,3) have "bf_size b = length (written_text ws)" "take (bf_size b) (bf_mem b) = take (length dest) (written_text ws)"
      "drop (bf_size b) (bf_mem b) = drop (length (written_text ws)) dest" "bf_size b \<le> length (bf_mem b)"
      "pb_traits b = Limited 0 (length (bf_mem b))" "pb_pos b = 0"
      by (auto simp: pb_view_def pb_good_def)
    moreover from this have mem: "bf_mem b = take (length dest) (written_text ws) @ drop (length (written_text ws)) dest"
      using append_take_drop_id [of "bf_size b" "bf_mem b"] by simp
    moreover have len: "length (bf_mem b) = length dest" using arg_cong [OF mem, of length] by simp
    moreover have "length (written_text ws) \<le> length dest"
      using \<open>bf_size b = length (written_text ws)\<close> \<open>bf_size b \<le> length (bf_mem b)\<close> unfolding len by simp
    ultimately show ?thesis
      using b(1) True by (cases "dest = []") (simp_all add: write_to_n_def pb_flush_def Let_def buffer_clear_def buffer_set_def pb_count_def)
  next
    case False
    with b show ?thesis
      by (auto simp: write_to_n_def pb_flush_def Let_def buffer_clear_def pb_count_def pb_view_def pb_good_def min_def split: if_splits)
  qed
qed

lemma formatted_size_exact:
  assumes "length junk = 256" "\<forall>w\<in>set ws. length (op_text w) < 2 ^ 63"
  shows "formatted_size junk ws = Some (Ok (length (written_text ws)))"
proof -
  have "cb_good (cb_new junk)" using assms(1) by (simp add: cb_good_def cb_new_def fmt_buffer_size_def)
  from cb.run_writes_puts [OF this assms(2)] show ?thesis by (auto simp: formatted_size_def cb_new_def)
qed

end
