(* ===== verification/Log_Message.thy ===== *)
theory Log_Message
  imports Log_Logger Fmt_Args Fmt_Buffer
begin

text \<open>
  \<^verbatim>\<open>logger::log_\<close> with a format string and arguments (\<^verbatim>\<open>logger.h\<close>): the payload is formatted into a buffer and
  logged, and a format error goes to the error handler.
\<close>

definition payload :: "string fmt \<Rightarrow> string outcome" where
  "payload m = (case m of
     Ok (Inr text) \<Rightarrow> Ok text | Ok (Inl message) \<Rightarrow> Throw | Throw \<Rightarrow> Throw | Ub u \<Rightarrow> Ub u | Abort \<Rightarrow> Abort | Spin \<Rightarrow> Spin)"

definition logger_log_fmt ::
  "log_env \<Rightarrow> int \<Rightarrow> size_t \<Rightarrow> int \<Rightarrow> source_loc \<Rightarrow> level_enum \<Rightarrow> format_env \<Rightarrow> string \<Rightarrow> logger \<Rightarrow> log_world \<Rightarrow>
   (logger \<times> log_world) outcome" where
  "logger_log_fmt env now tid t loc l fenv s lg w = logger_log env now tid t loc l (payload (vformat_to fenv s)) lg w"

lemma payload_simps [simp]: "payload (fmt_ret text) = Ok text" "payload (on_error message) = Throw"
  by (simp_all add: payload_def)

text \<open>The two cases of a call that is not filtered out.\<close>

lemma log_call_formatted:
  assumes "vformat_to fenv s = fmt_ret text" "should_log l lg" "\<not> bt_enabled (tracer lg)"
  shows "logger_log_fmt env now tid t loc l fenv s lg w =
    bind_outcome (sink_it env now lg (log_msg_new tid t loc (name lg) l text) w) (\<lambda>w. Ok (lg, w))"
  using assms by (simp add: logger_log_fmt_def logger_log_def log_it_def Let_def)

lemma log_call_error:
  assumes "vformat_to fenv s = on_error message" "should_log l lg"
  shows "logger_log_fmt env now tid t loc l fenv s lg w = Ok (lg, err_handler now lg w)"
  using assms by (simp add: logger_log_fmt_def logger_log_def)

text \<open>A logging call with non-null arguments reaches no undefined behaviour of the formatter.\<close>

lemma log_call_payload: "args_ok (fe_args fenv) \<Longrightarrow> (\<exists>text. payload (vformat_to fenv s) = Ok text) \<or> payload (vformat_to fenv s) = Throw"
  using vformat_to_safe [of fenv s] by (cases "vformat_to fenv s" rule: fmt_cases) auto

text \<open>The call with its C++ arguments, and what it logs when every field is an integer without a specification.\<close>

definition logger_log_args ::
  "log_env \<Rightarrow> int \<Rightarrow> size_t \<Rightarrow> int \<Rightarrow> source_loc \<Rightarrow> level_enum \<Rightarrow> numpunct \<Rightarrow> string \<Rightarrow> cpp_arg list \<Rightarrow> logger \<Rightarrow> log_world \<Rightarrow>
   (logger \<times> log_world) outcome" where
  "logger_log_args env now tid t loc l np s args lg w =
     logger_log_fmt env now tid t loc l \<lparr>fe_args = list_of_args args, fe_locale = np\<rparr> s lg w"

lemma one_field_logged:
  assumes "cpp_int a = Some n" "should_log l lg" "\<not> bt_enabled (tracer lg)"
  shows "logger_log_args env now tid t loc l np ''{}'' [a] lg w =
    bind_outcome (sink_it env now lg (log_msg_new tid t loc (name lg) l (decimal_int n)) w) (\<lambda>w. Ok (lg, w))"
proof -
  have "vformat_to \<lparr>fe_args = list_of_args [a], fe_locale = np\<rparr> ''{}'' = fmt_ret (decimal_int n)"
    using cpp_integer_text [OF assms(1), of np]
    by (simp add: vformat_to_def list_of_args_def args_get_def max_packed_args_def found_arg_def)
  then show ?thesis unfolding logger_log_args_def using assms(2,3) by (rule log_call_formatted)
qed

end
