(* ===== verification/CProxy_Logging.thy ===== *)
theory CProxy_Logging
  imports Log_Registry Log_Message
begin

text \<open>
  The logging calls of both programs: one definition for each use of a logging macro under \<^verbatim>\<open>src/lib\<close>, \<^verbatim>\<open>src/server\<close> and
  \<^verbatim>\<open>src/client\<close>, with its format string and the types of its arguments, and what they print on the console.
\<close>

section \<open>Calls\<close>

text \<open>The types of the arguments: \<^verbatim>\<open>int\<close>, the results of \<^verbatim>\<open>ntohs\<close>, \<^verbatim>\<open>u_int32_t\<close>, \<^verbatim>\<open>size_t\<close>, C strings, which are never null here, and
  \<^verbatim>\<open>std::string\<close>.\<close>

datatype site_arg = Int_t | Ushort_t | Uint_t | Size_t | Cstr_t | Str_t

fun of_type :: "site_arg \<Rightarrow> cpp_arg \<Rightarrow> bool" where
  "of_type Int_t (Int_val x) = True"
| "of_type Ushort_t (Ushort_val x) = True"
| "of_type Uint_t (Unsigned_val x) = True"
| "of_type Size_t (Ulong_val x) = True"
| "of_type Cstr_t (Cstring_val p s) \<longleftrightarrow> p \<noteq> 0"
| "of_type Str_t (String_val s) = True"
| "of_type _ _ = False"

record call_site =
  site_file :: string
  site_line :: int
  site_level :: level_enum
  site_format :: string
  site_types :: "site_arg list"

text \<open>A call without arguments selects the overload of \<^verbatim>\<open>logger::log\<close> that takes the message as it is.\<close>

definition site_log ::
  "log_env \<Rightarrow> int \<Rightarrow> size_t \<Rightarrow> int \<Rightarrow> source_loc \<Rightarrow> numpunct \<Rightarrow> call_site \<Rightarrow> cpp_arg list \<Rightarrow> logger \<Rightarrow> log_world \<Rightarrow>
   (logger \<times> log_world) outcome" where
  "site_log env now tid t loc np site args lg w =
     (if args = [] then logger_log env now tid t loc (site_level site) (Ok (site_format site)) lg w
      else logger_log_args env now tid t loc (site_level site) np (site_format site) args lg w)"

text \<open>
  A call at run time: thread, time, function, site and arguments. The file name is the path under which the compiler was given
  the file, \<open>dir\<close> and the path in the repository.
\<close>

type_synonym site_call = "size_t \<times> int \<times> string \<times> call_site \<times> cpp_arg list"

definition site_loc :: "string \<Rightarrow> string \<Rightarrow> call_site \<Rightarrow> source_loc" where
  "site_loc dir fn site = \<lparr>filename = Some (dir @ site_file site), line = site_line site, funcname = Some fn\<rparr>"

fun sites_log_all :: "log_env \<Rightarrow> int \<Rightarrow> string \<Rightarrow> numpunct \<Rightarrow> site_call list \<Rightarrow> logger \<Rightarrow> log_world \<Rightarrow> (logger \<times> log_world) outcome" where
  "sites_log_all env now dir np [] lg w = Ok (lg, w)"
| "sites_log_all env now dir np ((tid, t, fn, site, args) # cs) lg w =
     bind_outcome (site_log env now tid t (site_loc dir fn site) np site args lg w) (\<lambda>(lg, w).
       sites_log_all env now dir np cs lg w)"

text \<open>The macros use \<^verbatim>\<open>default_logger_raw()\<close>.\<close>

definition macros_log_all :: "log_env \<Rightarrow> int \<Rightarrow> string \<Rightarrow> numpunct \<Rightarrow> site_call list \<Rightarrow> registry \<Rightarrow> log_heap \<Rightarrow> log_heap outcome" where
  "macros_log_all env now dir np calls r h =
     (case default_logger r of None \<Rightarrow> Ub NullDeref
      | Some d \<Rightarrow> bind_outcome (deref_logger d h) (\<lambda>lg.
          bind_outcome (sites_log_all env now dir np calls lg (log_world.truncate h)) (\<lambda>(lg, w).
            Ok ((log_world.extend w (log_world.more h))\<lparr>h_loggers := (h_loggers h)(d \<mapsto> lg)\<rparr>))))"

section \<open>The call sites\<close>

definition site_lib_proxy_conn_14 :: call_site where
  "site_lib_proxy_conn_14 = \<lparr>site_file = ''lib/proxy_conn.cpp'', site_line = 14, site_level = Critical,
     site_format = ''proxy_id: {} -> pipe_fd: {} splice err: {}'', site_types = [Str_t, Int_t, Cstr_t]\<rparr>"

definition site_lib_proxy_conn_24 :: call_site where
  "site_lib_proxy_conn_24 = \<lparr>site_file = ''lib/proxy_conn.cpp'', site_line = 24, site_level = Critical,
     site_format = ''proxy_id {} pipe {} -> peer_conn_fd {} splice err: {}'', site_types = [Str_t, Int_t, Int_t, Cstr_t]\<rparr>"

definition site_lib_proxy_conn_45 :: call_site where
  "site_lib_proxy_conn_45 = \<lparr>site_file = ''lib/proxy_conn.cpp'', site_line = 45, site_level = Critical,
     site_format = ''proxy_id {} read msg len err'', site_types = [Str_t]\<rparr>"

definition site_lib_proxy_conn_52 :: call_site where
  "site_lib_proxy_conn_52 = \<lparr>site_file = ''lib/proxy_conn.cpp'', site_line = 52, site_level = Critical,
     site_format = ''msg len too long'', site_types = []\<rparr>"

definition site_lib_proxy_conn_62 :: call_site where
  "site_lib_proxy_conn_62 = \<lparr>site_file = ''lib/proxy_conn.cpp'', site_line = 62, site_level = Critical,
     site_format = ''read msg body err readNum: {}; body_len: {}'', site_types = [Size_t, Size_t]\<rparr>"

definition site_lib_proxy_conn_93 :: call_site where
  "site_lib_proxy_conn_93 = \<lparr>site_file = ''lib/proxy_conn.cpp'', site_line = 93, site_level = Critical,
     site_format = ''sent to fd err'', site_types = []\<rparr>"

definition site_lib_proxy_conn_122 :: call_site where
  "site_lib_proxy_conn_122 = \<lparr>site_file = ''lib/proxy_conn.cpp'', site_line = 122, site_level = Critical,
     site_format = ''send msg err'', site_types = []\<rparr>"

definition site_lib_proxy_conn_134 :: call_site where
  "site_lib_proxy_conn_134 = \<lparr>site_file = ''lib/proxy_conn.cpp'', site_line = 134, site_level = Critical,
     site_format = ''send msg err'', site_types = []\<rparr>"

definition site_lib_Util_141 :: call_site where
  "site_lib_Util_141 = \<lparr>site_file = ''lib/Util.cpp'', site_line = 141, site_level = Critical,
     site_format = [CHR 0xE8, CHR 0xAE, CHR 0xBE, CHR 0xE7, CHR 0xBD, CHR 0xAE, CHR 0xE9, CHR 0x9D, CHR 0x9E, CHR 0xE9, CHR 0x98, CHR 0xBB, CHR 0xE5, CHR 0xA1, CHR 0x9E, CHR 0xE5, CHR 0xA4, CHR 0xB1, CHR 0xE8, CHR 0xB4, CHR 0xA5] @ '': {}'', site_types = [Cstr_t]\<rparr>"

definition site_lib_event_loop_thread_27 :: call_site where
  "site_lib_event_loop_thread_27 = \<lparr>site_file = ''lib/event_loop_thread.cpp'', site_line = 27, site_level = Critical,
     site_format = ''EventLoopThread::ThreadFunc exception: {}'', site_types = [Cstr_t]\<rparr>"

definition site_lib_ctl_conn_24 :: call_site where
  "site_lib_ctl_conn_24 = \<lparr>site_file = ''lib/ctl_conn.cpp'', site_line = 24, site_level = Critical,
     site_format = ''read msg len err'', site_types = []\<rparr>"

definition site_lib_ctl_conn_31 :: call_site where
  "site_lib_ctl_conn_31 = \<lparr>site_file = ''lib/ctl_conn.cpp'', site_line = 31, site_level = Critical,
     site_format = ''msg len too long: %d'', site_types = [Uint_t]\<rparr>"

definition site_lib_ctl_conn_41 :: call_site where
  "site_lib_ctl_conn_41 = \<lparr>site_file = ''lib/ctl_conn.cpp'', site_line = 41, site_level = Critical,
     site_format = ''read msg body err read_num: %d; body_len: %d'', site_types = [Size_t, Size_t]\<rparr>"

definition site_lib_ctl_conn_103 :: call_site where
  "site_lib_ctl_conn_103 = \<lparr>site_file = ''lib/ctl_conn.cpp'', site_line = 103, site_level = Critical,
     site_format = ''sent to fd err'', site_types = []\<rparr>"

definition site_lib_ctl_conn_134 :: call_site where
  "site_lib_ctl_conn_134 = \<lparr>site_file = ''lib/ctl_conn.cpp'', site_line = 134, site_level = Critical,
     site_format = ''send msg err'', site_types = []\<rparr>"

definition site_lib_Epoll_22 :: call_site where
  "site_lib_Epoll_22 = \<lparr>site_file = ''lib/Epoll.cpp'', site_line = 22, site_level = Critical,
     site_format = ''epoll_ctl fd: {} err: {}'', site_types = [Int_t, Cstr_t]\<rparr>"

definition site_lib_Buffer_111 :: call_site where
  "site_lib_Buffer_111 = \<lparr>site_file = ''lib/Buffer.cpp'', site_line = 111, site_level = Critical,
     site_format = ''write to buffer except: {}'', site_types = [Cstr_t]\<rparr>"

definition site_server_Server_85 :: call_site where
  "site_server_Server_85 = \<lparr>site_file = ''server/Server.cpp'', site_line = 85, site_level = Info,
     site_format = ''ctl_accept_fd: {}; from:{}; port:{}'', site_types = [Int_t, Cstr_t, Ushort_t]\<rparr>"

definition site_server_Server_108 :: call_site where
  "site_server_Server_108 = \<lparr>site_file = ''server/Server.cpp'', site_line = 108, site_level = Info,
     site_format = ''proxy_accept_fd: {}; from:{}; port:{}'', site_types = [Int_t, Cstr_t, Ushort_t]\<rparr>"

definition site_server_Server_140 :: call_site where
  "site_server_Server_140 = \<lparr>site_file = ''server/Server.cpp'', site_line = 140, site_level = Critical,
     site_format = ''control {} is not exist'', site_types = [Str_t]\<rparr>"

definition site_server_Server_145 :: call_site where
  "site_server_Server_145 = \<lparr>site_file = ''server/Server.cpp'', site_line = 145, site_level = Critical,
     site_format = ''tun {} is not exist in ctl {}'', site_types = [Str_t, Str_t]\<rparr>"

definition site_server_Control_66 :: call_site where
  "site_server_Control_66 = \<lparr>site_file = ''server/Control.cpp'', site_line = 66, site_level = Critical,
     site_format = ''tun {} not exist'', site_types = [Str_t]\<rparr>"

definition site_server_Control_73 :: call_site where
  "site_server_Control_73 = \<lparr>site_file = ''server/Control.cpp'', site_line = 73, site_level = Critical,
     site_format = ''proxy conn {} not exist'', site_types = [Str_t]\<rparr>"

definition site_server_Control_90 :: call_site where
  "site_server_Control_90 = \<lparr>site_file = ''server/Control.cpp'', site_line = 90, site_level = Critical,
     site_format = ''tun {} not exist'', site_types = [Str_t]\<rparr>"

definition site_server_public_conn_12 :: call_site where
  "site_server_public_conn_12 = \<lparr>site_file = ''server/public_conn.cpp'', site_line = 12, site_level = Critical,
     site_format = ''public_fd: {} -> pipe_fd: {} splice err: {}'', site_types = [Int_t, Int_t, Cstr_t]\<rparr>"

definition site_server_public_conn_25 :: call_site where
  "site_server_public_conn_25 = \<lparr>site_file = ''server/public_conn.cpp'', site_line = 25, site_level = Critical,
     site_format = ''proxy_id {} pipe {} - >proxy_fd: {} splice err: {}'', site_types = [Str_t, Int_t, Int_t, Cstr_t]\<rparr>"

definition site_server_public_conn_31 :: call_site where
  "site_server_public_conn_31 = \<lparr>site_file = ''server/public_conn.cpp'', site_line = 31, site_level = Critical,
     site_format = ''read public except: {}'', site_types = [Cstr_t]\<rparr>"

definition site_server_Tunnel_19 :: call_site where
  "site_server_Tunnel_19 = \<lparr>site_file = ''server/Tunnel.cpp'', site_line = 19, site_level = Info,
     site_format = ''public_accept_fd: {}; from:{}; port:{}'', site_types = [Int_t, Cstr_t, Ushort_t]\<rparr>"

definition site_server_Tunnel_108 :: call_site where
  "site_server_Tunnel_108 = \<lparr>site_file = ''server/Tunnel.cpp'', site_line = 108, site_level = Critical,
     site_format = ''proxy_id {} not exist in wait_for_start_proxy_conn_map'', site_types = [Str_t]\<rparr>"

definition site_server_Tunnel_141 :: call_site where
  "site_server_Tunnel_141 = \<lparr>site_file = ''server/Tunnel.cpp'', site_line = 141, site_level = Critical,
     site_format = ''proxy_id {} not exist'', site_types = [Str_t]\<rparr>"

definition site_server_Tunnel_145 :: call_site where
  "site_server_Tunnel_145 = \<lparr>site_file = ''server/Tunnel.cpp'', site_line = 145, site_level = Critical,
     site_format = ''proxy_id {} is starting'', site_types = [Str_t]\<rparr>"

definition site_client_Client_68 :: call_site where
  "site_client_Client_68 = \<lparr>site_file = ''client/Client.cpp'', site_line = 68, site_level = Info,
     site_format = ''tunnel addr:{}:{}'', site_types = [Cstr_t, Uint_t]\<rparr>"

definition site_client_Client_95 :: call_site where
  "site_client_Client_95 = \<lparr>site_file = ''client/Client.cpp'', site_line = 95, site_level = Critical,
     site_format = ''tun_id {} not exist'', site_types = [Str_t]\<rparr>"

definition site_client_Client_115 :: call_site where
  "site_client_Client_115 = \<lparr>site_file = ''client/Client.cpp'', site_line = 115, site_level = Critical,
     site_format = ''proxyConn {} send ProxyMetaSetMsg failed'', site_types = [Str_t]\<rparr>"

definition site_client_Client_131 :: call_site where
  "site_client_Client_131 = \<lparr>site_file = ''client/Client.cpp'', site_line = 131, site_level = Critical,
     site_format = ''tun_id {} not exist'', site_types = [Str_t]\<rparr>"

definition site_client_Client_138 :: call_site where
  "site_client_Client_138 = \<lparr>site_file = ''client/Client.cpp'', site_line = 138, site_level = Critical,
     site_format = ''proxy_id: {} not exist'', site_types = [Str_t]\<rparr>"

definition site_client_local_conn_12 :: call_site where
  "site_client_local_conn_12 = \<lparr>site_file = ''client/local_conn.cpp'', site_line = 12, site_level = Critical,
     site_format = ''proxy_id: {} local_fd: {} -> pipe_fd: {} splice err: {} '', site_types = [Str_t, Int_t, Int_t, Cstr_t]\<rparr>"

definition site_client_local_conn_26 :: call_site where
  "site_client_local_conn_26 = \<lparr>site_file = ''client/local_conn.cpp'', site_line = 26, site_level = Critical,
     site_format = ''proxy_id {} local_fd: {} pipe_fd: {} -> proxy_conn_fd: {} splice err: {}'', site_types = [Str_t, Int_t, Int_t, Int_t, Cstr_t]\<rparr>"

definition site_client_local_conn_32 :: call_site where
  "site_client_local_conn_32 = \<lparr>site_file = ''client/local_conn.cpp'', site_line = 32, site_level = Critical,
     site_format = ''read local_conn except: {}'', site_types = [Cstr_t]\<rparr>"

definition site_client_Tunnel_23 :: call_site where
  "site_client_Tunnel_23 = \<lparr>site_file = ''client/Tunnel.cpp'', site_line = 23, site_level = Critical,
     site_format = ''connect proxy port error'', site_types = []\<rparr>"

definition site_client_Tunnel_44 :: call_site where
  "site_client_Tunnel_44 = \<lparr>site_file = ''client/Tunnel.cpp'', site_line = 44, site_level = Critical,
     site_format = ''connect local server error'', site_types = []\<rparr>"

definition site_client_Tunnel_57 :: call_site where
  "site_client_Tunnel_57 = \<lparr>site_file = ''client/Tunnel.cpp'', site_line = 57, site_level = Critical,
     site_format = ''proxy_id: {} not exist'', site_types = [Str_t]\<rparr>"

definition site_client_Tunnel_71 :: call_site where
  "site_client_Tunnel_71 = \<lparr>site_file = ''client/Tunnel.cpp'', site_line = 71, site_level = Critical,
     site_format = ''proxyConn {} not exist'', site_types = [Str_t]\<rparr>"

definition site_client_Tunnel_76 :: call_site where
  "site_client_Tunnel_76 = \<lparr>site_file = ''client/Tunnel.cpp'', site_line = 76, site_level = Critical,
     site_format = ''proxyConn {} is starting, cannot start again'', site_types = [Str_t]\<rparr>"

definition site_client_Tunnel_89 :: call_site where
  "site_client_Tunnel_89 = \<lparr>site_file = ''client/Tunnel.cpp'', site_line = 89, site_level = Critical,
     site_format = ''proxyConn {} send StartProxyConnRspMsg fail'', site_types = [Str_t]\<rparr>"

definition cproxy_sites :: "call_site list" where
  "cproxy_sites =
    [site_lib_proxy_conn_14, site_lib_proxy_conn_24, site_lib_proxy_conn_45, site_lib_proxy_conn_52,
     site_lib_proxy_conn_62, site_lib_proxy_conn_93, site_lib_proxy_conn_122, site_lib_proxy_conn_134,
     site_lib_Util_141, site_lib_event_loop_thread_27, site_lib_ctl_conn_24, site_lib_ctl_conn_31,
     site_lib_ctl_conn_41, site_lib_ctl_conn_103, site_lib_ctl_conn_134, site_lib_Epoll_22,
     site_lib_Buffer_111, site_server_Server_85, site_server_Server_108, site_server_Server_140,
     site_server_Server_145, site_server_Control_66, site_server_Control_73, site_server_Control_90,
     site_server_public_conn_12, site_server_public_conn_25, site_server_public_conn_31, site_server_Tunnel_19,
     site_server_Tunnel_108, site_server_Tunnel_141, site_server_Tunnel_145, site_client_Client_68,
     site_client_Client_95, site_client_Client_115, site_client_Client_131, site_client_Client_138,
     site_client_local_conn_12, site_client_local_conn_26, site_client_local_conn_32, site_client_Tunnel_23,
     site_client_Tunnel_44, site_client_Tunnel_57, site_client_Tunnel_71, site_client_Tunnel_76,
     site_client_Tunnel_89]"

lemmas site_defs =
  site_lib_proxy_conn_14_def site_lib_proxy_conn_24_def site_lib_proxy_conn_45_def site_lib_proxy_conn_52_def
  site_lib_proxy_conn_62_def site_lib_proxy_conn_93_def site_lib_proxy_conn_122_def site_lib_proxy_conn_134_def
  site_lib_Util_141_def site_lib_event_loop_thread_27_def site_lib_ctl_conn_24_def site_lib_ctl_conn_31_def
  site_lib_ctl_conn_41_def site_lib_ctl_conn_103_def site_lib_ctl_conn_134_def site_lib_Epoll_22_def
  site_lib_Buffer_111_def site_server_Server_85_def site_server_Server_108_def site_server_Server_140_def
  site_server_Server_145_def site_server_Control_66_def site_server_Control_73_def site_server_Control_90_def
  site_server_public_conn_12_def site_server_public_conn_25_def site_server_public_conn_31_def site_server_Tunnel_19_def
  site_server_Tunnel_108_def site_server_Tunnel_141_def site_server_Tunnel_145_def site_client_Client_68_def
  site_client_Client_95_def site_client_Client_115_def site_client_Client_131_def site_client_Client_138_def
  site_client_local_conn_12_def site_client_local_conn_26_def site_client_local_conn_32_def site_client_Tunnel_23_def
  site_client_Tunnel_44_def site_client_Tunnel_57_def site_client_Tunnel_71_def site_client_Tunnel_76_def
  site_client_Tunnel_89_def

section \<open>The text of a call\<close>

text \<open>The text of an argument, and a template whose fields are replaced by texts one after the other.\<close>

fun arg_text :: "cpp_arg \<Rightarrow> string" where
  "arg_text (Int_val x) = decimal_int (sint x)"
| "arg_text (Ushort_val x) = decimal_int (uint x)"
| "arg_text (Unsigned_val x) = decimal_int (uint x)"
| "arg_text (Ulong_val x) = decimal_int (uint x)"
| "arg_text (Cstring_val p s) = s"
| "arg_text (String_val s) = s"
| "arg_text _ = []"

fun fill_in :: "string \<Rightarrow> string list \<Rightarrow> string" where
  "fill_in [] ts = []"
| "fill_in [c] ts = [c]"
| "fill_in (c # d # s) ts =
     (if c = CHR ''{'' \<and> d = CHR ''}'' then (case ts of [] \<Rightarrow> fill_in s [] | t # ts \<Rightarrow> t @ fill_in s ts)
      else c # fill_in (d # s) ts)"

text \<open>Templates with no braces but those of fields, and their number of fields.\<close>

fun plain_template :: "string \<Rightarrow> bool" where
  "plain_template [] = True"
| "plain_template [c] \<longleftrightarrow> c \<noteq> CHR ''{'' \<and> c \<noteq> CHR ''}''"
| "plain_template (c # d # s) \<longleftrightarrow>
     (if c = CHR ''{'' \<and> d = CHR ''}'' then plain_template s else c \<noteq> CHR ''{'' \<and> c \<noteq> CHR ''}'' \<and> plain_template (d # s))"

fun count_fields :: "string \<Rightarrow> nat" where
  "count_fields [] = 0"
| "count_fields [c] = 0"
| "count_fields (c # d # s) = (if c = CHR ''{'' \<and> d = CHR ''}'' then Suc (count_fields s) else count_fields (d # s))"

fun simple_pieces :: "string \<Rightarrow> piece list" where
  "simple_pieces [] = []"
| "simple_pieces [c] = [Lit [c]]"
| "simple_pieces (c # d # s) = (if c = CHR ''{'' \<and> d = CHR ''}'' then Field # simple_pieces s else Lit [c] # simple_pieces (d # s))"

lemma format_of_simple: "plain_template s \<Longrightarrow> format_of (simple_pieces s) = s"
  by (induction s rule: plain_template.induct) (auto simp: format_of_def split: if_splits)

lemma simple_pieces_ok: "pieces_ok vs n (simple_pieces s)"
  by (induction s arbitrary: n rule: simple_pieces.induct) auto

lemma fill_in_no_fields: "count_fields s = 0 \<Longrightarrow> fill_in s ts = s"
  by (induction s ts rule: fill_in.induct) (auto split: if_splits)

lemma render_simple:
  assumes "list_all2 (\<lambda>v t. default_arg_formatter np v = fmt_ret t) vs ts"
  shows "n + count_fields s \<le> length vs \<Longrightarrow> render np vs n (simple_pieces s) = fmt_ret (fill_in s (drop n ts))"
proof (induction s arbitrary: n rule: simple_pieces.induct)
  case (3 c d s)
  show ?case
  proof (cases "c = CHR ''{'' \<and> d = CHR ''}''")
    case True
    then have n: "n < length vs" "n < length ts" using 3(3) list_all2_lengthD [OF assms] by auto
    then have "default_arg_formatter np (vs ! n) = fmt_ret (ts ! n)" using list_all2_nthD [OF assms] by simp
    moreover have "drop n ts = ts ! n # drop (Suc n) ts" using n(2) by (simp add: Cons_nth_drop_Suc)
    ultimately show ?thesis using 3(1) [OF True, of "Suc n"] 3(3) True n by simp
  next
    case False
    with 3(2) [OF False, of n] 3(3) show ?thesis by (auto split: if_splits)
  qed
qed simp_all

lemma plain_vformat:
  assumes "plain_template s" "list_all2 (\<lambda>v t. default_arg_formatter (fe_locale env) v = fmt_ret t) (arg_values (fe_args env)) ts"
    "count_fields s \<le> length ts"
  shows "vformat_to env s = fmt_ret (fill_in s ts)"
proof -
  have "scan env s \<lparr>next_id = 0, out_text = []\<rparr> = fmt_ret \<lparr>next_id = int (Fmt_Format.fields (simple_pieces s)), out_text = fill_in s ts\<rparr>"
    using scan_render [of "\<lparr>next_id = 0, out_text = []\<rparr>" 0 env "simple_pieces s", OF _ simple_pieces_ok]
      render_simple [OF assms(2), of 0 s] assms(3) list_all2_lengthD [OF assms(2)] by (simp add: format_of_simple [OF assms(1)])
  then show ?thesis by (simp add: vformat_to_scan)
qed

lemma of_type_text: "of_type k a \<Longrightarrow> default_arg_formatter np (arg_map a) = fmt_ret (arg_text a)"
  using cpp_integer_text [of a "the (cpp_int a)" np]
  by (cases "(k, a)" rule: of_type.cases) (simp_all del: default_arg_formatter.simps(1-4))

lemma sites_checked:
  "list_all (\<lambda>site. plain_template (site_format site) \<and> count_fields (site_format site) \<le> length (site_types site) \<and>
     site_level site \<in> {Info, Critical} \<and> 0 < site_line site \<and> site_line site < 2 ^ 31) cproxy_sites"
  by (simp add: cproxy_sites_def site_defs)

lemma siteD:
  assumes "site \<in> set cproxy_sites"
  shows "plain_template (site_format site)" "count_fields (site_format site) \<le> length (site_types site)" "site_level site \<in> {Info, Critical}"
    "0 < site_line site" "site_line site < 2 ^ 31"
  using sites_checked assms by (simp_all only: list_all_iff)

text \<open>What a call logs.\<close>

definition site_text :: "call_site \<Rightarrow> cpp_arg list \<Rightarrow> string" where
  "site_text site args = fill_in (site_format site) (map arg_text args)"

lemma site_log_text:
  assumes "site \<in> set cproxy_sites" "list_all2 of_type (site_types site) args"
  shows "site_log env now tid t loc np site args lg w = logger_log env now tid t loc (site_level site) (Ok (site_text site args)) lg w"
proof (cases "args = []")
  case True
  with assms(2) siteD(2) [OF assms(1)] show ?thesis by (simp add: site_log_def site_text_def fill_in_no_fields)
next
  case False
  let ?env = "\<lparr>fe_args = list_of_args args, fe_locale = np\<rparr>"
  have "list_all2 (\<lambda>v t. default_arg_formatter np v = fmt_ret t) (map arg_map args) (map arg_text args)"
    using assms(2) by (auto simp: list_all2_conv_all_nth intro!: of_type_text)
  moreover have "count_fields (site_format site) \<le> length args"
    using siteD(2) [OF assms(1)] list_all2_lengthD [OF assms(2)] by simp
  ultimately have "vformat_to ?env (site_format site) = fmt_ret (site_text site args)"
    unfolding site_text_def by (intro plain_vformat siteD(1) [OF assms(1)]) (simp_all add: list_of_args_def)
  with False show ?thesis by (simp add: site_log_def logger_log_args_def logger_log_fmt_def)
qed

section \<open>The console\<close>

text \<open>Calls from the programs' sites with arguments of their types, after the first ten seconds of the epoch.\<close>

fun site_call_ok :: "site_call \<Rightarrow> bool" where
  "site_call_ok (tid, t, fn, site, args) \<longleftrightarrow>
     site \<in> set cproxy_sites \<and> list_all2 of_type (site_types site) args \<and> 10 * seconds \<le> t \<and> t < 2 ^ 63"

fun site_msg :: "string \<Rightarrow> site_call \<Rightarrow> log_msg" where
  "site_msg dir (tid, t, fn, site, args) = log_msg_new tid t (site_loc dir fn site) [] (site_level site) (site_text site args)"

fun as_log_call :: "string \<Rightarrow> site_call \<Rightarrow> log_call" where
  "as_log_call dir (tid, t, fn, site, args) = (tid, t, site_loc dir fn site, site_level site, site_text site args)"

lemma sites_log_all_texts:
  "list_all site_call_ok calls \<Longrightarrow> sites_log_all env now dir np calls lg w = log_all env now (map (as_log_call dir) calls) lg w"
proof (induction calls arbitrary: lg w)
  case (Cons c calls)
  obtain tid t fn site args where c: "c = (tid, t, fn, site, args)" by (metis surj_pair)
  have "site \<in> set cproxy_sites" "list_all2 of_type (site_types site) args" using Cons.prems by (simp_all add: c)
  from site_log_text [OF this] Cons show ?case by (auto simp: c intro!: bind_outcome_cong)
qed simp

lemma as_log_call_ok:
  assumes "site_call_ok c"
  shows "printable (call_msg [] (as_log_call dir c))" "Info \<le> call_level (as_log_call dir c)" "call_msg [] (as_log_call dir c) = site_msg dir c"
proof -
  obtain tid t fn site args where c: "c = (tid, t, fn, site, args)" by (metis surj_pair)
  have s: "site \<in> set cproxy_sites" "10 * seconds \<le> t" "t < 2 ^ 63" using assms by (simp_all add: c)
  have t: "- (2 ^ 63) \<le> t" using s(2) by (simp add: seconds_def)
  show "printable (call_msg [] (as_log_call dir c))"
    using siteD(3-5) [OF s(1)] s(2,3) t by (auto simp: c printable_def msg_ok_def log_msg_new_def site_loc_def)
  show "Info \<le> call_level (as_log_call dir c)" using siteD(3) [OF s(1)] by (auto simp: c less_eq_level_enum_def)
  show "call_msg [] (as_log_call dir c) = site_msg dir c" by (simp add: c)
qed

text \<open>C14. Every logging call of the programs prints exactly one line, in order, with the text of its format string in which each
  field is replaced by the decimal number or the string passed: no call fails to format, and none is filtered out.\<close>

theorem cproxy_logged_lines:
  assumes "registry_new terminal = (r0, h0)" "zone_ok env off" "list_all site_call_ok calls"
  shows "\<exists>r h h' sk'. spdlog_set_pattern now cproxy_pattern LocalTime r0 h0 = Ok (r, h) \<and>
    macros_log_all env now' dir np calls r h = Ok h' \<and> w_sinks h' 0 = Some sk' \<and> err_counter h' = 0 \<and>
    target_file sk' = concat (map (\<lambda>c. console_line env (ansicolor_sink_new terminal ColorAutomatic) (site_msg dir c)) calls)"
proof -
  let ?calls = "map (as_log_call dir) calls"
  have p: "list_all (\<lambda>c. printable (call_msg [] c)) ?calls" using assms(3) by (auto simp: list_all_iff as_log_call_ok(1))
  have f: "filter (\<lambda>c. Info \<le> call_level c) ?calls = ?calls"
    using assms(3) by (auto simp: list_all_iff as_log_call_ok(2) intro!: filter_True)
  have m: "map (\<lambda>c. console_line env sk (call_msg [] c)) ?calls = map (\<lambda>c. console_line env sk (site_msg dir c)) calls" for sk
    using assms(3) by (auto simp: list_all_iff as_log_call_ok(3))
  have "macros_log_all env now' dir np calls r h = default_log_all env now' ?calls r h" for r h
    unfolding macros_log_all_def default_log_all_def sites_log_all_texts [OF assms(3)] ..
  then show ?thesis using cproxy_console_output [OF assms(1,2) p, of now now'] unfolding f m by simp
qed

definition demo_site_calls :: "site_call list" where
  "demo_site_calls =
     [(42, 12345067000000, ''handleProxyMetaSet'', site_server_Server_140, [String_val ''ab'']),
      (42, 12346000000000, ''handleRead'', site_lib_ctl_conn_31, [Unsigned_val 500])]"

definition demo_site_msgs :: "log_msg list" where
  "demo_site_msgs =
     [log_msg_new 42 12345067000000 (site_loc ''src/'' ''handleProxyMetaSet'' site_server_Server_140) [] Critical ''control ab is not exist'',
      log_msg_new 42 12346000000000 (site_loc ''src/'' ''handleRead'' site_lib_ctl_conn_31) [] Critical ''msg len too long: %d'']"

theorem cproxy_logged_lines_witness:
  "case registry_new True of (r0, h0) \<Rightarrow> \<exists>r h h' sk'. spdlog_set_pattern 0 cproxy_pattern LocalTime r0 h0 = Ok (r, h) \<and>
     macros_log_all demo_log_env 0 ''src/'' \<lparr>np_grouping = [], np_thousands_sep = CHR '',''\<rparr> demo_site_calls r h = Ok h' \<and>
     w_sinks h' 0 = Some sk' \<and> err_counter h' = 0 \<and>
     target_file sk' = concat (map (console_line demo_log_env (ansicolor_sink_new True ColorAutomatic)) demo_site_msgs)"
proof -
  obtain r0 h0 where rh: "registry_new True = (r0, h0)" by (metis surj_pair)
  have "s mod 60 < 62" for s :: int using pos_mod_bound [of 60 s] by simp
  then have z: "zone_ok demo_log_env 330"
    by (simp add: zone_ok_def demo_log_env_def buffer_size_def tm_clock_ok_def utc_minutes_offset_def c_div_def to_int32_def Let_def)
  have ok: "list_all site_call_ok demo_site_calls"
    by (simp add: demo_site_calls_def cproxy_sites_def seconds_def) (simp add: site_server_Server_140_def site_lib_ctl_conn_31_def)
  have e: "map (site_msg ''src/'') demo_site_calls = demo_site_msgs"
    by (simp add: demo_site_calls_def demo_site_msgs_def site_text_def site_server_Server_140_def site_lib_ctl_conn_31_def)
  have "map (\<lambda>c. console_line demo_log_env sk (site_msg ''src/'' c)) demo_site_calls =
      map (console_line demo_log_env sk) (map (site_msg ''src/'') demo_site_calls)" for sk
    by (simp only: map_map comp_def)
  then show ?thesis using cproxy_logged_lines [OF rh z ok, of 0 0 "''src/''"] rh unfolding e by simp
qed

end
