(* ===== verification/Spec2Isabelle.thy ===== *)
theory Spec2Isabelle
  imports CProxy_Map CProxy_Epoll CProxy_Threads CProxy_CtlConn CProxy_Session CProxy_Shutdown CProxy_Main Log_Async Log_Dated Log_Cfg Log_Sinks
    CProxy_Logging
begin

text \<open>
  CProxy is a reverse proxy. A \<^emph>\<open>client\<close> (\<^verbatim>\<open>src/client\<close>) next to a local server keeps one control connection to
  a public \<^emph>\<open>server\<close> (\<^verbatim>\<open>src/server\<close>), on which it asks for tunnels. For each tunnel the server listens on a public
  port. A public connection is paired with a proxy connection between server and client, taken from the tunnel's
  free list or requested from the client, and bytes are spliced through: public connection, proxy connection,
  local connection. Both programs are built on \<^verbatim>\<open>src/lib\<close>: channels dispatch epoll events to handlers, a
  poller and a pool of loop threads run them, ring buffers queue output, and framed messages travel on
  control connections and on idle proxy connections. Both log through the bundled logging library
  (\<^verbatim>\<open>src/include/spdlog\<close>).

  \<^bold>\<open>Theories of the library and the programs.\<close>

  \<^item> \<open>CProxy_Prelude\<close>: scalar types as words, raw memory and C strings as byte lists, results of system
    calls, and \<open>outcome\<close>: every operation returns \<open>Ok\<close>, \<open>Throw\<close> (an exception or abort), \<open>Ub\<close> with the kind of
    undefined behaviour, or \<open>Spin\<close> (it waits for a system call that never answers). The locale
    \<open>object_graph\<close> is the contract of handlers that keep an invariant and only extend the heap.
  \<^item> \<open>CProxy_Map\<close>: \<^verbatim>\<open>safe_unordered_map\<close> of \<^verbatim>\<open>lib/Util.h\<close>; locale \<open>safe_map\<close>.
  \<^item> \<open>CProxy_Buffer\<close>: \<^verbatim>\<open>lib/Buffer\<close>, with \<^verbatim>\<open>int\<close> and \<^verbatim>\<open>size_t\<close> conversions; the locale \<open>byte_queue\<close> is its abstract
    specification, and the ring buffer is shown to implement it.
  \<^item> \<open>CProxy_Util\<close>: \<^verbatim>\<open>lib/Util.cpp\<close>; \<^verbatim>\<open>readn\<close> reassembles segmented streams, parsing inverts printing,
    socket set-up leaks no descriptor.
  \<^item> \<open>CProxy_Msg\<close>: \<^verbatim>\<open>lib/Msg\<close>, structs as the bytes they occupy, framing with network byte order.
  \<^item> \<open>CProxy_Channel\<close>, \<open>CProxy_Epoll\<close>, \<open>CProxy_Threads\<close>: event dispatch (locale \<open>channel_owner\<close>, interpreted for
    each kind of connection), the poller's table against the kernel's interest list (locale
    \<open>event_dispatcher\<close>), and the start-up handshake of a loop thread as a step relation over two
    program counters.
  \<^item> \<open>CProxy_CtlConn\<close>, \<open>CProxy_TranConn\<close>, \<open>CProxy_ProxyConn\<close>: \<^verbatim>\<open>lib/Conn.h\<close>, \<^verbatim>\<open>lib/ctl_conn\<close>, \<^verbatim>\<open>lib/tran_conn.h\<close> and
    \<^verbatim>\<open>lib/proxy_conn\<close> as record extensions; the public and local connections share the edge handler. The
    locale \<open>forwarder\<close> states that bytes are moved in order and counted; it is interpreted for edge and for
    proxy connections.
  \<^item> \<open>CProxy_Server\<close>, \<open>CProxy_Client\<close>: every handler of the two programs on a heap of records (\<open>server\<close>, \<open>client\<close>)
    whose references are object identities; \<^verbatim>\<open>shared_ptr\<close> members are options. Handlers that loop over
    \<^verbatim>\<open>accept\<close> take the list of results of that call.
  \<^item> \<open>CProxy_ServerInv\<close>: the invariant of the server's object graph and its preservation by every event
    (\<open>server_step\<close>), hence in every reachable state.
  \<^item> \<open>CProxy_ClientInv\<close>: the same for the client (\<open>client_step\<close>), in runs where connecting succeeds; without that
    \<open>CProxy_Session\<close> shows a null dereference. Both are interpretations of \<open>object_graph\<close> and share
    its lemmas on proxy connections.
  \<^item> \<open>CProxy_Session\<close>: the composition of the two programs when a session is opened, through the wire format.
  \<^item> \<open>CProxy_Shutdown\<close>: the closing protocol as an interleaving of both programs and two message queues, with
    its safety, completion and progress, and simulation lemmas that tie its steps to the handlers.
  \<^item> \<open>CProxy_Main\<close>: option parsing and construction in both \<^verbatim>\<open>main\<close> functions.

  \<^bold>\<open>Theories of the logging library.\<close>

  \<^item> \<open>Log_Digits\<close>: digit counts and the integer writer of \<^verbatim>\<open>fmt/bundled/format.h\<close> and \<^verbatim>\<open>details/fmt_helper.h\<close>
    against decimal notation.
  \<^item> \<open>Log_Common\<close>: levels, messages, broken-down time, and \<open>log_env\<close>, the record of what the operating
    system answers.
  \<^item> \<open>Log_Flags\<close>, \<open>Log_Pattern\<close>: \<^verbatim>\<open>pattern_formatter-inl.h\<close>: the scoped padder, one definition per formatter
    class, the pattern compiler and the formatter with its caches.
  \<^item> \<open>Log_Format\<close>, \<open>Log_Line\<close>: padding against a reference, absence of undefined behaviour for arbitrary
    patterns, transparency of the caches, and the exact line of the pattern both programs set.
  \<^item> \<open>Log_Queue\<close>: \<^verbatim>\<open>circular_q\<close>, the backtracer and the ring buffer sink; locale \<open>overrun_queue\<close>.
  \<^item> \<open>Log_Logger\<close>: the colour console sink and the logger.
  \<^item> \<open>Log_Registry\<close>: the registry and the default logger; its consistency in every run, and what the programs
    print on the console.
  \<^item> \<open>Log_Async\<close>: messages that own their text, the blocking queue, the thread pool as a step relation on
    posting threads and workers, and asynchronous loggers. No wake-up is lost, the pool always
    finishes, and what was posted is delivered. Locale \<open>log_backend\<close>, interpreted on the console sink.
  \<^item> \<open>Log_Files\<close>: the file helper and the rotating sink on a model of the file system in which calls may
    fail; refinement of \<open>spec_put\<close>, which works on the texts of the files alone.
  \<^item> \<open>Log_Dated\<close>: the plain, daily and hourly file sinks, and which files they keep.
  \<^item> \<open>Log_Sinks\<close>: distribution, duplicate filter, stream and TCP sinks.
  \<^item> \<open>Log_Cfg\<close>: levels from the environment and the command line.
  \<^item> \<open>Fmt_Utf8\<close>: the UTF-8 decoder of \<^verbatim>\<open>fmt/bundled/format.h\<close> and the display width; encoded text is decoded without
    a read behind its end.
  \<^item> \<open>Fmt_Spec\<close>, \<open>Fmt_Print\<close>: format specifications (\<^verbatim>\<open>fmt/bundled/core.h\<close>), the parser with the checks on the argument's
    type, and a printer that the parser inverts. Results are of type \<open>fmt\<close>, a value or the message of a format error.
  \<^item> \<open>Fmt_Write\<close>: the writers of arguments, with padding, prefixes and digit grouping, against reference texts.
  \<^item> \<open>Fmt_Format\<close>: replacement fields and both loops over a format string (\<^verbatim>\<open>vformat_to\<close>); what a format string means, and
    absence of undefined behaviour for arbitrary strings and non-null arguments.
  \<^item> \<open>Fmt_Args\<close>: the mapping of C++ arguments and the descriptor word that packs their types; looking an argument up through it
    refines the argument lists of \<open>Fmt_Spec\<close>.
  \<^item> \<open>Fmt_Buffer\<close>: the output buffers. The locale \<open>growing_buffer\<close> is the contract of the virtual \<^verbatim>\<open>grow\<close>; it is
    interpreted for the memory buffer, the iterator buffers and the counting buffer.
  \<^item> \<open>Log_Message\<close>: a logging call with a format string and C++ arguments, whose payload is the formatted text.
  \<^item> \<open>CProxy_Logging\<close>: the 45 logging calls of the two programs with their format strings and argument types, and the lines they
    print on the console.

  \<^bold>\<open>Conventions.\<close> Loops end by structural recursion or a measure; \<open>grow_loop\<close> of the ring buffer, \<open>pop_loop\<close> of
  the backtracer and \<open>buffer_append\<close> are partial functions into options, and that they return is proved (the properties
  state \<open>Some\<close>). No definition uses fuel. A socket is the list of what it will deliver (chunks, \<^verbatim>\<open>EINTR\<close>,
  \<^verbatim>\<open>EAGAIN\<close>, end of stream), so that segmentation is a parameter of every read; writes take the kernel's
  answers as arguments. Unwritten memory is an argument (\<open>junk\<close>), as are uninitialised members. Random
  identifiers take the random numbers as arguments. Handlers guarded by a mutex are atomic steps.

  \<^bold>\<open>Not modelled.\<close> Of the bundled \<^verbatim>\<open>fmt\<close>: floating point and 128 bit integers, wide characters, arguments of user-defined
  types (their formatters are code of the caller), the compile-time checks of format strings, and the headers for dates,
  ranges, colours and \<^verbatim>\<open>printf\<close>, which no logging call uses. The periodic flusher, the factories that
  only construct loggers, file names made by
  \<^verbatim>\<open>strftime\<close>, event handlers of files, and the sinks that hand each line to one system call (UDP, syslog, systemd). Code
  for Windows. The demo server under \<^verbatim>\<open>src/test\<close>. Data races inside one handler: the interleavings
  considered are those of handlers (\<open>CProxy_Threads\<close>, \<open>CProxy_Shutdown\<close> and \<open>Log_Async\<close> interleave threads
  and programs).
\<close>

end
